(* ===== verification/Prelude.thy ===== *)
theory Prelude
  imports Main "HOL-Library.Word" "HOL-Library.Monad_Syntax"
begin

unbundle bit_operations_syntax

text \<open>
  The prelude of the development: the machine integer types of the crate, the
  reading of a Rust panic as \<open>None\<close>, checked arithmetic, the part of the
  \<open>byteorder\<close> crate the protocols rely on (a parameter with its documented
  layout as a named hypothesis), and the generic lemmas on lists, options and
  maps the component theories share.

  Conventions used by every theory of the library:
  \<^item> a function that may panic returns \<open>'a option\<close>, and \<open>None\<close> is
    the panic (an index out of range, an arithmetic overflow with the overflow
    checks of the default profile); \<open>do { ... }\<close> chains such calls;
  \<^item> a \<open>std::io::Result\<close> is a sum, \<open>Inl\<close> for the error;
  \<^item> a method taking \<open>&mut self\<close> returns the updated record.
\<close>

section \<open>Collections of facts\<close>

named_theorems ctx_simps \<open>rewriting of the effects a call has on the context\<close>
named_theorems emits_intros \<open>which effects a call may add to the context's log\<close>
named_theorems runs_intros \<open>what an operation that may panic guarantees when it does not\<close>

section \<open>Calls that return\<close>

text \<open>
  \<open>runs m P\<close>: the computation \<open>m\<close> does not panic and its result satisfies \<open>P\<close>. The
  rules push \<open>runs\<close> through \<open>do\<close> blocks, so that the correctness of a function is
  proved along its text from the rules of the functions it calls.
\<close>

definition runs :: "'a option \<Rightarrow> ('a \<Rightarrow> bool) \<Rightarrow> bool" where
  "runs m P \<longleftrightarrow> (\<exists>x. m = Some x \<and> P x)"

lemma runs_simps [simp]:
  "runs (Some x) P \<longleftrightarrow> P x"
  "runs None P \<longleftrightarrow> False"
  "runs (Option.bind m f) P \<longleftrightarrow> runs m (\<lambda>x. runs (f x) P)"
  by (auto simp: runs_def bind_eq_Some_conv)

lemma runs_mono: "runs m P \<Longrightarrow> (\<And>x. P x \<Longrightarrow> Q x) \<Longrightarrow> runs m Q"
  by (auto simp: runs_def)

lemma runs_conj: "runs m P \<Longrightarrow> runs m Q \<Longrightarrow> runs m (\<lambda>x. P x \<and> Q x)"
  by (auto simp: runs_def)

lemma runsD: "runs m P \<Longrightarrow> m = Some x \<Longrightarrow> P x"
  by (simp add: runs_def)

lemma runsE: "runs m P \<Longrightarrow> (\<And>x. m = Some x \<Longrightarrow> P x \<Longrightarrow> R) \<Longrightarrow> R"
  by (auto simp: runs_def)

section \<open>Indexing\<close>

text \<open>\<open>v[i]\<close> and \<open>v[i] = x\<close> on a \<open>Vec\<close>: out of range is a panic.\<close>

definition index_at :: "'a list \<Rightarrow> nat \<Rightarrow> 'a option" where
  "index_at xs i = (if i < length xs then Some (xs ! i) else None)"

definition index_set :: "'a list \<Rightarrow> nat \<Rightarrow> 'a \<Rightarrow> 'a list option" where
  "index_set xs i x = (if i < length xs then Some (xs[i := x]) else None)"

lemma index_at_simps [simp]:
  "i < length xs \<Longrightarrow> index_at xs i = Some (xs ! i)"
  "i < length xs \<Longrightarrow> index_set xs i x = Some (xs[i := x])"
  by (simp_all add: index_at_def index_set_def)

section \<open>Machine integers\<close>

type_synonym u8 = "8 word"
type_synonym u16 = "16 word"
type_synonym u32 = "32 word"
type_synonym u64 = "64 word"
type_synonym usize = "64 word"

text \<open>Rust's \<open>+\<close> with overflow checks: \<open>None\<close> is the overflow panic.\<close>

definition checked_add :: "'a::len word \<Rightarrow> 'a word \<Rightarrow> 'a word option" where
  "checked_add a b = (if unat a + unat b < 2 ^ LENGTH('a) then Some (a + b) else None)"

lemma checked_add_Some_iff:
  "checked_add a b = Some c \<longleftrightarrow> unat a + unat b < 2 ^ LENGTH('a) \<and> c = a + b"
  for a b :: "'a::len word"
  by (auto simp: checked_add_def)

lemma checked_add_one_Some:
  fixes a :: "'a::len word"
  assumes "unat a < k" and "k < 2 ^ LENGTH('a)"
  shows "checked_add a 1 = Some (a + 1)"
proof -
  have "unat a + unat (1 :: 'a word) < 2 ^ LENGTH('a)"
    using assms by (simp add: unsigned_1)
  then show ?thesis by (simp add: checked_add_def)
qed

section \<open>Big-endian byte order\<close>

text \<open>
  The crate \<open>byteorder\<close> is not part of the repository. The definitions that
  call \<open>BigEndian::write_u16/u32/u64\<close> and \<open>read_u32/u64\<close> take it as an
  argument, and the theorems that depend on its layout assume
  \<open>big_endian bo\<close>, its documented behaviour: most significant byte first.
\<close>

record byteorder =
  write_u16 :: "u16 \<Rightarrow> u8 list"
  write_u32 :: "u32 \<Rightarrow> u8 list"
  read_u32 :: "u8 list \<Rightarrow> u32"
  write_u64 :: "u64 \<Rightarrow> u8 list"
  read_u64 :: "u8 list \<Rightarrow> u64"

definition be_bytes :: "nat \<Rightarrow> 'a::len word \<Rightarrow> u8 list" where
  "be_bytes n x = map (\<lambda>i. ucast (drop_bit (8 * i) x)) (rev [0..<n])"

fun be_value :: "u8 list \<Rightarrow> 'a::len word" where
  "be_value [] = 0"
| "be_value (b # bs) = push_bit (8 * length bs) (ucast b) OR be_value bs"

definition big_endian :: "byteorder \<Rightarrow> bool" where
  "big_endian bo \<longleftrightarrow>
     (\<forall>x. write_u16 bo x = be_bytes 2 x) \<and>
     (\<forall>x. write_u32 bo x = be_bytes 4 x) \<and>
     (\<forall>bs. length bs = 4 \<longrightarrow> read_u32 bo bs = be_value bs) \<and>
     (\<forall>x. write_u64 bo x = be_bytes 8 x) \<and>
     (\<forall>bs. length bs = 8 \<longrightarrow> read_u64 bo bs = be_value bs)"

text \<open>A concrete instance, for the witnesses.\<close>

definition be_instance :: byteorder where
  "be_instance = \<lparr>write_u16 = be_bytes 2, write_u32 = be_bytes 4, read_u32 = be_value,
     write_u64 = be_bytes 8, read_u64 = be_value\<rparr>"

lemma big_endian_instance [simp]: "big_endian be_instance"
  by (simp add: big_endian_def be_instance_def)

lemma length_be_bytes [simp]: "length (be_bytes n x) = n"
  by (simp add: be_bytes_def)

lemma be_bytes_Suc: "be_bytes (Suc n) x = ucast (drop_bit (8 * n) x) # be_bytes n x"
  by (simp add: be_bytes_def)

lemma bit_be_value_bytes:
  fixes x :: "'a::len word"
  shows "bit (be_value (be_bytes n x) :: 'a word) k \<longleftrightarrow> k < 8 * n \<and> bit x k"
proof (induction n)
  case 0
  then show ?case by (simp add: be_bytes_def)
next
  case (Suc n)
  then show ?case
    by (auto simp: be_bytes_Suc bit_or_iff bit_push_bit_iff bit_ucast_iff bit_drop_bit_eq
        not_less dest: bit_imp_le_length)
qed

lemma be_value_bytes: "LENGTH('a) \<le> 8 * n \<Longrightarrow> be_value (be_bytes n x) = (x :: 'a::len word)"
  by (rule bit_word_eqI) (auto simp: bit_be_value_bytes)

lemma big_endian_simps:
  assumes "big_endian bo"
  shows "length (write_u16 bo x16) = 2" "length (write_u32 bo x) = 4"
    "length (write_u64 bo x64) = 8"
    "read_u32 bo (write_u32 bo x) = x" "read_u64 bo (write_u64 bo x64) = x64"
  using assms by (simp_all add: big_endian_def be_value_bytes)

end
