(* ===== verification/Core_Types.thy ===== *)
theory Core_Types
  imports Prelude
begin

text \<open>
  The data of \<open>src/core/mod.rs\<close>, \<open>src/io_error.rs\<close>, \<open>src/sequence.rs\<close> and
  \<open>src/core/config.rs\<close>: identifiers, messages, endpoint descriptions, i/o
  errors, the identifier sequence and the socket configuration. A \<open>Duration\<close>
  is its number of nanoseconds.
\<close>

section \<open>Errors: io\_error.rs\<close>

datatype error_kind = Other | InvalidData | WouldBlock | InvalidInput | TimedOut | Interrupted

datatype io_error = IoError (error_kind: error_kind) (error_msg: string)

definition other_io_error :: "string \<Rightarrow> io_error" where
  "other_io_error msg = IoError Other msg"

definition invalid_data_io_error :: "string \<Rightarrow> io_error" where
  "invalid_data_io_error msg = IoError InvalidData msg"

definition would_block_io_error :: "string \<Rightarrow> io_error" where
  "would_block_io_error msg = IoError WouldBlock msg"

definition invalid_input_io_error :: "string \<Rightarrow> io_error" where
  "invalid_input_io_error msg = IoError InvalidInput msg"

definition timedout_io_error :: "string \<Rightarrow> io_error" where
  "timedout_io_error msg = IoError TimedOut msg"

lemmas io_error_defs = other_io_error_def invalid_data_io_error_def would_block_io_error_def
  invalid_input_io_error_def timedout_io_error_def

section \<open>Identifiers, endpoints, messages: core/mod.rs\<close>

type_synonym endpoint_id = usize
type_synonym socket_id = usize
type_synonym device_id = usize
type_synonym probe_id = usize
type_synonym scheduled = usize
type_synonym timeout = "scheduled option"
type_synonym duration = nat

record endpoint_desc =
  send_priority :: u8
  recv_priority :: u8
  tcp_no_delay :: bool
  recv_max_size :: u64

record endpoint_spec =
  spec_url :: string
  spec_desc :: endpoint_desc

record endpoint_tmpl =
  pids :: "u16 \<times> u16"
  tmpl_spec :: endpoint_spec

record message =
  header :: "u8 list"
  body :: "u8 list"

definition message_new :: message where
  "message_new = \<lparr>header = [], body = []\<rparr>"

definition from_body :: "u8 list \<Rightarrow> message" where
  "from_body b = \<lparr>header = [], body = b\<rparr>"

definition from_header_and_body :: "u8 list \<Rightarrow> u8 list \<Rightarrow> message" where
  "from_header_and_body h b = \<lparr>header = h, body = b\<rparr>"

definition message_len :: "message \<Rightarrow> nat" where
  "message_len msg = length (header msg) + length (body msg)"

definition get_header :: "message \<Rightarrow> u8 list" where
  "get_header msg = header msg"

definition get_body :: "message \<Rightarrow> u8 list" where
  "get_body msg = body msg"

definition message_split :: "message \<Rightarrow> u8 list \<times> u8 list" where
  "message_split msg = (header msg, body msg)"

definition without_header :: "message \<Rightarrow> message" where
  "without_header msg = from_body (body msg)"

lemmas message_defs = message_new_def from_body_def from_header_and_body_def message_len_def
  get_header_def get_body_def message_split_def without_header_def

section \<open>The identifier sequence: sequence.rs\<close>

text \<open>
  \<open>Sequence\<close> is a shared cell; its value is passed along. \<open>next\<close> returns the
  identifier and the cell's new value, \<open>None\<close> on the overflow of \<open>id + 1\<close>.
\<close>

definition sequence_new :: usize where
  "sequence_new = 0"

definition sequence_next :: "usize \<Rightarrow> (usize \<times> usize) option" where
  "sequence_next v = do { v' \<leftarrow> checked_add v 1; Some (v, v') }"

lemma sequence_next_fresh:
  assumes "sequence_next v = Some (i, v')"
  shows "i = v \<and> unat v' = Suc (unat v)"
proof -
  from assms have *: "unat v + 1 < 2 ^ 64" "i = v" "v' = v + 1"
    by (auto simp: sequence_next_def checked_add_Some_iff bind_eq_Some_conv)
  then show ?thesis by (simp add: unat_word_ariths)
qed

section \<open>Socket configuration: core/config.rs\<close>

record config =
  cfg_send_timeout :: "duration option"
  cfg_send_priority :: u8
  cfg_recv_timeout :: "duration option"
  cfg_recv_priority :: u8
  cfg_retry_ivl :: duration
  cfg_retry_ivl_max :: "duration option"
  cfg_tcp_no_delay :: bool
  cfg_recv_max_size :: u64

datatype config_option =
    Linger duration
  | SendTimeoutOpt "duration option"
  | SendPriority u8
  | RecvTimeoutOpt "duration option"
  | RecvPriority u8
  | RecvMaxSize u64
  | RetryIvl duration
  | RetryIvlMax "duration option"
  | TcpNoDelay bool
  | Subscribe "u8 list"
  | Unsubscribe "u8 list"
  | ReqResendIvl duration
  | SurveyDeadline duration

definition from_millis :: "nat \<Rightarrow> duration" where
  "from_millis n = n * 1000000"

definition from_secs :: "nat \<Rightarrow> duration" where
  "from_secs n = n * 1000000000"

definition config_default :: config where
  "config_default = \<lparr>cfg_send_timeout = None, cfg_send_priority = 8, cfg_recv_timeout = None,
     cfg_recv_priority = 8, cfg_retry_ivl = from_millis 100, cfg_retry_ivl_max = None,
     cfg_tcp_no_delay = False, cfg_recv_max_size = 1024 * 1024\<rparr>"

fun config_set :: "config \<Rightarrow> config_option \<Rightarrow> io_error + config" where
  "config_set c (SendTimeoutOpt t) = Inr (c\<lparr>cfg_send_timeout := t\<rparr>)"
| "config_set c (SendPriority p) = Inr (c\<lparr>cfg_send_priority := p\<rparr>)"
| "config_set c (RecvTimeoutOpt t) = Inr (c\<lparr>cfg_recv_timeout := t\<rparr>)"
| "config_set c (RecvPriority p) = Inr (c\<lparr>cfg_recv_priority := p\<rparr>)"
| "config_set c (RetryIvl d) = Inr (c\<lparr>cfg_retry_ivl := d\<rparr>)"
| "config_set c (RetryIvlMax d) = Inr (c\<lparr>cfg_retry_ivl_max := d\<rparr>)"
| "config_set c (RecvMaxSize x) = Inr (c\<lparr>cfg_recv_max_size := x\<rparr>)"
| "config_set c (TcpNoDelay x) = Inr (c\<lparr>cfg_tcp_no_delay := x\<rparr>)"
| "config_set c _ = Inl (invalid_input_io_error ''option not supported'')"

fun is_generic :: "config_option \<Rightarrow> bool" where
  "is_generic (Linger _) = True"
| "is_generic (SendTimeoutOpt _) = True"
| "is_generic (SendPriority _) = True"
| "is_generic (RecvMaxSize _) = True"
| "is_generic (RecvTimeoutOpt _) = True"
| "is_generic (RecvPriority _) = True"
| "is_generic (RetryIvl _) = True"
| "is_generic (RetryIvlMax _) = True"
| "is_generic (TcpNoDelay _) = True"
| "is_generic _ = False"

end
