(* ===== verification/Core_Context.thy ===== *)
theory Core_Context
  imports Core_Types
begin

text \<open>
  The interface between a socket and the event loop: \<open>src/core/context.rs\<close> and
  \<open>src/core/network.rs\<close>. The traits \<open>Network\<close>, \<open>Scheduler\<close> and \<open>Context\<close>
  are implemented by the reactor; a socket only sees their methods. The model is
  a record of the chronological log of the calls made so far (the replies sent
  on the facade's channel included) and of the answers the implementation gives,
  which may depend on that log.
\<close>

section \<open>Events, schedulables, replies\<close>

datatype event = CanSend bool | CanRecv bool | Closed

datatype schedulable =
    Reconnect endpoint_id endpoint_spec
  | Rebind endpoint_id endpoint_spec
  | SendTimeout
  | RecvTimeout
  | ReqResend
  | SurveyCancel

datatype reply =
    ReplyErr io_error
  | ReplyConnect endpoint_id
  | ReplyBind endpoint_id
  | ReplySend
  | ReplyRecv message
  | ReplySetOption

text \<open>One entry per call on the context, and one per message on the reply channel.\<close>

datatype effect =
    NetConnect socket_id endpoint_tmpl
  | NetReconnect socket_id endpoint_id endpoint_tmpl
  | NetBind socket_id endpoint_tmpl
  | NetRebind socket_id endpoint_id endpoint_tmpl
  | NetOpen endpoint_id bool
  | NetClose endpoint_id bool
  | NetSend endpoint_id message
  | NetRecv endpoint_id
  | Scheduling schedulable duration
  | Cancel scheduled
  | Raise event
  | Reply reply

text \<open>
  The answers of the implementation, and \<open>hash_order\<close>: the order in which a
  standard \<open>HashMap\<close> or \<open>HashSet\<close> hands its keys out, which the standard
  library leaves open.
\<close>

record environment =
  answer_connect :: "effect list \<Rightarrow> io_error + endpoint_id"
  answer_reconnect :: "effect list \<Rightarrow> io_error option"
  answer_schedule :: "effect list \<Rightarrow> io_error + scheduled"
  hash_order :: "endpoint_id set \<Rightarrow> endpoint_id list"

record ctx =
  trace :: "effect list"
  env :: environment

definition enumerates :: "(endpoint_id set \<Rightarrow> endpoint_id list) \<Rightarrow> bool" where
  "enumerates ord \<longleftrightarrow> (\<forall>A. finite A \<longrightarrow> set (ord A) = A \<and> distinct (ord A))"

section \<open>The calls\<close>

definition emit :: "effect \<Rightarrow> ctx \<Rightarrow> ctx" where
  "emit e ctx = ctx\<lparr>trace := trace ctx @ [e]\<rparr>"

definition raise_evt :: "ctx \<Rightarrow> event \<Rightarrow> ctx" where
  "raise_evt ctx evt = emit (Raise evt) ctx"

definition check_send_ready_change :: "ctx \<Rightarrow> bool \<Rightarrow> bool \<Rightarrow> ctx" where
  "check_send_ready_change ctx was_ready is_ready =
     (if was_ready \<noteq> is_ready then raise_evt ctx (CanSend is_ready) else ctx)"

definition check_recv_ready_change :: "ctx \<Rightarrow> bool \<Rightarrow> bool \<Rightarrow> ctx" where
  "check_recv_ready_change ctx was_ready is_ready =
     (if was_ready \<noteq> is_ready then raise_evt ctx (CanRecv is_ready) else ctx)"

definition schedule :: "ctx \<Rightarrow> schedulable \<Rightarrow> duration \<Rightarrow> (io_error + scheduled) \<times> ctx" where
  "schedule ctx task delay =
     (let ctx' = emit (Scheduling task delay) ctx
      in (answer_schedule (env ctx) (trace ctx'), ctx'))"

definition cancel :: "ctx \<Rightarrow> scheduled \<Rightarrow> ctx" where
  "cancel ctx s = emit (Cancel s) ctx"

text \<open>The recurring \<open>if let Some(sched) = timeout { ctx.cancel(sched) }\<close>.\<close>

definition cancel_opt :: "ctx \<Rightarrow> timeout \<Rightarrow> ctx" where
  "cancel_opt ctx t = (case t of Some s \<Rightarrow> cancel ctx s | None \<Rightarrow> ctx)"

definition net_connect :: "ctx \<Rightarrow> socket_id \<Rightarrow> endpoint_tmpl \<Rightarrow> (io_error + endpoint_id) \<times> ctx" where
  "net_connect ctx sid tmpl =
     (let ctx' = emit (NetConnect sid tmpl) ctx in (answer_connect (env ctx) (trace ctx'), ctx'))"

definition net_bind :: "ctx \<Rightarrow> socket_id \<Rightarrow> endpoint_tmpl \<Rightarrow> (io_error + endpoint_id) \<times> ctx" where
  "net_bind ctx sid tmpl =
     (let ctx' = emit (NetBind sid tmpl) ctx in (answer_connect (env ctx) (trace ctx'), ctx'))"

definition net_reconnect :: "ctx \<Rightarrow> socket_id \<Rightarrow> endpoint_id \<Rightarrow> endpoint_tmpl \<Rightarrow> io_error option \<times> ctx" where
  "net_reconnect ctx sid eid tmpl =
     (let ctx' = emit (NetReconnect sid eid tmpl) ctx in (answer_reconnect (env ctx) (trace ctx'), ctx'))"

definition net_rebind :: "ctx \<Rightarrow> socket_id \<Rightarrow> endpoint_id \<Rightarrow> endpoint_tmpl \<Rightarrow> io_error option \<times> ctx" where
  "net_rebind ctx sid eid tmpl =
     (let ctx' = emit (NetRebind sid eid tmpl) ctx in (answer_reconnect (env ctx) (trace ctx'), ctx'))"

definition net_open :: "ctx \<Rightarrow> endpoint_id \<Rightarrow> bool \<Rightarrow> ctx" where
  "net_open ctx eid remote = emit (NetOpen eid remote) ctx"

definition net_close :: "ctx \<Rightarrow> endpoint_id \<Rightarrow> bool \<Rightarrow> ctx" where
  "net_close ctx eid remote = emit (NetClose eid remote) ctx"

definition net_send :: "ctx \<Rightarrow> endpoint_id \<Rightarrow> message \<Rightarrow> ctx" where
  "net_send ctx eid msg = emit (NetSend eid msg) ctx"

definition net_recv :: "ctx \<Rightarrow> endpoint_id \<Rightarrow> ctx" where
  "net_recv ctx eid = emit (NetRecv eid) ctx"

text \<open>\<open>let _ = reply_tx.send(reply)\<close>: a closed channel is ignored.\<close>

definition send_reply :: "ctx \<Rightarrow> reply \<Rightarrow> ctx" where
  "send_reply ctx r = emit (Reply r) ctx"

lemmas context_call_defs = raise_evt_def check_send_ready_change_def check_recv_ready_change_def
  schedule_def cancel_def cancel_opt_def net_connect_def net_bind_def net_reconnect_def
  net_rebind_def net_open_def net_close_def net_send_def net_recv_def send_reply_def

lemma trace_emit [simp]: "trace (emit e ctx) = trace ctx @ [e]"
  by (simp add: emit_def)

lemma env_emit [simp]: "env (emit e ctx) = env ctx"
  by (simp add: emit_def)

section \<open>Reading a log\<close>

text \<open>
  The readiness a listener knows (a probe or a device): the value carried by the
  last event, not ready before the first one.
\<close>

fun seen_send :: "effect list \<Rightarrow> bool \<Rightarrow> bool" where
  "seen_send [] r = r"
| "seen_send (e # es) r = seen_send es (case e of Raise (CanSend x) \<Rightarrow> x | _ \<Rightarrow> r)"

fun seen_recv :: "effect list \<Rightarrow> bool \<Rightarrow> bool" where
  "seen_recv [] r = r"
| "seen_recv (e # es) r = seen_recv es (case e of Raise (CanRecv x) \<Rightarrow> x | _ \<Rightarrow> r)"

lemma seen_send_append [simp]: "seen_send (xs @ ys) r = seen_send ys (seen_send xs r)"
  by (induction xs arbitrary: r) auto

lemma seen_recv_append [simp]: "seen_recv (xs @ ys) r = seen_recv ys (seen_recv xs r)"
  by (induction xs arbitrary: r) auto

text \<open>The replies the facade received, in order.\<close>

definition replies :: "effect list \<Rightarrow> reply list" where
  "replies es = List.map_filter (\<lambda>e. case e of Reply r \<Rightarrow> Some r | _ \<Rightarrow> None) es"

lemma replies_simps [simp]:
  "replies [] = []"
  "replies (e # es) = (case e of Reply r \<Rightarrow> r # replies es | _ \<Rightarrow> replies es)"
  "replies (xs @ ys) = replies xs @ replies ys"
  by (simp_all add: replies_def map_filter_def split: effect.splits)

section \<open>Which effects a call may have\<close>

text \<open>
  \<open>emits P ctx ctx'\<close>: between the two contexts only effects satisfying \<open>P\<close> were
  added, and the environment is the same.
\<close>

definition emits :: "(effect \<Rightarrow> bool) \<Rightarrow> ctx \<Rightarrow> ctx \<Rightarrow> bool" where
  "emits P ctx ctx' \<longleftrightarrow>
     env ctx' = env ctx \<and> (\<exists>es. trace ctx' = trace ctx @ es \<and> (\<forall>e \<in> set es. P e))"

lemma emits_refl [simp, emits_intros]: "emits P ctx ctx"
  by (simp add: emits_def)

lemma emits_emit [emits_intros]: "P e \<Longrightarrow> emits P ctx ctx' \<Longrightarrow> emits P ctx (emit e ctx')"
  by (auto simp: emits_def)

lemma emits_trans: "emits P a b \<Longrightarrow> emits P b c \<Longrightarrow> emits P a c"
  by (fastforce simp: emits_def)

lemma emits_mono: "emits P a b \<Longrightarrow> (\<And>e. P e \<Longrightarrow> Q e) \<Longrightarrow> emits Q a b"
  by (fastforce simp: emits_def)

text \<open>The timers that a socket arms, and no protocol: those that open an endpoint again.\<close>

fun is_retry :: "schedulable \<Rightarrow> bool" where
  "is_retry (Reconnect _ _) \<longleftrightarrow> True"
| "is_retry (Rebind _ _) \<longleftrightarrow> True"
| "is_retry _ \<longleftrightarrow> False"

text \<open>
  The effects of a state transition: no readiness event (these are raised by
  \<open>apply\<close>), and network commands for the endpoints of \<open>D\<close> only.
\<close>

fun quiet_on :: "endpoint_id set \<Rightarrow> effect \<Rightarrow> bool" where
  "quiet_on D (NetSend eid _) \<longleftrightarrow> eid \<in> D"
| "quiet_on D (NetRecv eid) \<longleftrightarrow> eid \<in> D"
| "quiet_on D (Scheduling task _) \<longleftrightarrow> \<not> is_retry task"
| "quiet_on D (Cancel _) \<longleftrightarrow> True"
| "quiet_on D (Reply _) \<longleftrightarrow> True"
| "quiet_on D _ \<longleftrightarrow> False"

lemma seen_quiet:
  assumes "\<forall>e \<in> set es. quiet_on D e"
  shows "seen_send es r = r" "seen_recv es r = r"
  using assms by (induction es) (auto split: effect.splits)

lemma emits_quiet_seen:
  assumes "emits (quiet_on D) ctx ctx'"
  shows "seen_send (trace ctx') r = seen_send (trace ctx) r" "seen_recv (trace ctx') r = seen_recv (trace ctx) r"
  using assms by (auto simp: emits_def seen_quiet)

end
