(* ===== verification/Ready_Queue.thy ===== *)
theory Ready_Queue
  imports Core_Context
begin

text \<open>
  What the protocols ask of the queue of ready endpoints, as an interface: the
  stored endpoints \<open>ids\<close>, the ready ones \<open>ready\<close> and their priorities, and what
  each operation does to them. The lemmas of the locale are proved from these laws
  only; \<open>Priolist\<close> interprets it on the list of \<open>src/proto/priolist.rs\<close>.
\<close>

text \<open>Popping at most \<open>n\<close> times, until the queue has nothing ready.\<close>

fun pops :: "('q \<Rightarrow> ('a option \<times> 'q) option) \<Rightarrow> nat \<Rightarrow> 'q \<Rightarrow> ('a list \<times> 'q) option" where
  "pops pop 0 q = Some ([], q)"
| "pops pop (Suc n) q = do {
     (r, q1) \<leftarrow> pop q;
     (case r of
        None \<Rightarrow> Some ([], q1)
      | Some x \<Rightarrow> do { (xs, q2) \<leftarrow> pops pop n q1; Some (x # xs, q2) }) }"

locale ready_queue =
  fixes empty :: 'q
    and insert :: "'q \<Rightarrow> 'e \<Rightarrow> u8 \<Rightarrow> 'q"
    and remove :: "'q \<Rightarrow> 'e \<Rightarrow> 'q option"
    and activate :: "'q \<Rightarrow> 'e \<Rightarrow> 'q option"
    and deactivate :: "'q \<Rightarrow> 'e \<Rightarrow> 'q option"
    and pop :: "'q \<Rightarrow> ('e option \<times> 'q) option"
    and peek :: "'q \<Rightarrow> bool"
    and invar :: "'q \<Rightarrow> bool"
    and removable :: "'q \<Rightarrow> 'e \<Rightarrow> bool"
    and ids :: "'q \<Rightarrow> 'e set"
    and ready :: "'q \<Rightarrow> 'e set"
    and prio :: "'q \<Rightarrow> 'e \<Rightarrow> u8"
  assumes empty_laws: "invar empty" "ids empty = {}" "ready empty = {}"
    and ready_ids: "ready q \<subseteq> ids q" "finite (ids q)"
    and insert_law: "\<lbrakk>invar q; x \<notin> ids q; p \<le> 16\<rbrakk> \<Longrightarrow>
      invar (insert q x p) \<and> ids (insert q x p) = {x} \<union> ids q \<and> ready (insert q x p) = ready q \<and>
      prio (insert q x p) = (prio q)(x := p)"
    and remove_law: "\<lbrakk>invar q; removable q x\<rbrakk> \<Longrightarrow>
      \<exists>q'. remove q x = Some q' \<and> invar q' \<and> ids q' = ids q - {x} \<and> ready q' = ready q - {x}"
    and activate_law: "invar q \<Longrightarrow>
      \<exists>q'. activate q x = Some q' \<and> invar q' \<and> ids q' = ids q \<and> prio q' = prio q \<and>
        ready q' = ready q \<union> ({x} \<inter> ids q)"
    and deactivate_law: "invar q \<Longrightarrow>
      \<exists>q'. deactivate q x = Some q' \<and> invar q' \<and> ids q' = ids q \<and> prio q' = prio q \<and>
        ready q' = ready q - {x}"
    and pop_law: "invar q \<Longrightarrow>
      if ready q = {} then pop q = Some (None, q)
      else \<exists>x q'. pop q = Some (Some x, q') \<and> invar q' \<and> x \<in> ready q \<and>
        (\<forall>y \<in> ready q. prio q x \<le> prio q y) \<and> ids q' = ids q \<and> prio q' = prio q \<and>
        ready q' = ready q - {x}"
    and peek_law: "invar q \<Longrightarrow> peek q \<longleftrightarrow> ready q \<noteq> {}"
    and idle_removable: "\<not> peek q \<Longrightarrow> removable q x"
begin

lemma ready_finite: "finite (ready q)"
  using ready_ids by (rule finite_subset)

text \<open>The laws as rules on calls that return.\<close>

lemma remove_runs:
  assumes "invar q" and "removable q x"
    and "\<And>q'. \<lbrakk>invar q'; ids q' = ids q - {x}; ready q' = ready q - {x}\<rbrakk> \<Longrightarrow> Q q'"
  shows "runs (remove q x) Q"
  using remove_law [OF assms(1,2)] assms(3) by (auto simp: runs_def)

lemma activate_runs:
  assumes "invar q"
    and "\<And>q'. \<lbrakk>invar q'; ids q' = ids q; ready q' = ready q \<union> ({x} \<inter> ids q)\<rbrakk> \<Longrightarrow> Q q'"
  shows "runs (activate q x) Q"
  using activate_law [OF assms(1), of x] assms(2) by (auto simp: runs_def)

lemma deactivate_runs:
  assumes "invar q"
    and "\<And>q'. \<lbrakk>invar q'; ids q' = ids q; ready q' = ready q - {x}\<rbrakk> \<Longrightarrow> Q q'"
  shows "runs (deactivate q x) Q"
  using deactivate_law [OF assms(1), of x] assms(2) by (auto simp: runs_def)

lemma pop_runs:
  assumes "invar q"
    and "ready q = {} \<Longrightarrow> Q (None, q)"
    and "\<And>x q'. \<lbrakk>invar q'; x \<in> ready q; x \<in> ids q; ids q' = ids q; ready q' = ready q - {x}\<rbrakk> \<Longrightarrow> Q (Some x, q')"
  shows "runs (pop q) Q"
  using pop_law [OF assms(1)] assms(2,3) subsetD [OF ready_ids(1) [of q]] by (auto simp: runs_def split: if_splits)

lemma pop_Some_iff_ready:
  assumes "invar q"
  shows "(\<exists>x q'. pop q = Some (Some x, q')) \<longleftrightarrow> ready q \<noteq> {}"
  using pop_law [OF assms] by (auto split: if_splits)

text \<open>Popping serves every ready element exactly once, the best priorities first.\<close>

lemma pops_drain:
  assumes "invar q" and "card (ready q) \<le> n"
  shows "\<exists>xs q'. pops pop n q = Some (xs, q') \<and> invar q' \<and> ready q' = {} \<and> ids q' = ids q \<and>
    set xs = ready q \<and> distinct xs \<and> sorted_wrt (\<lambda>x y. prio q x \<le> prio q y) xs"
  using assms
proof (induction n arbitrary: q)
  case 0
  then show ?case using ready_finite [of q] by simp
next
  case (Suc n)
  show ?case
  proof (cases "ready q = {}")
    case True
    then show ?thesis using pop_law [OF Suc.prems(1)] Suc.prems(1) by simp
  next
    case False
    then obtain x q1 where pop: "pop q = Some (Some x, q1)" "invar q1" "x \<in> ready q"
      "\<forall>y \<in> ready q. prio q x \<le> prio q y" "ids q1 = ids q" "prio q1 = prio q" "ready q1 = ready q - {x}"
      using pop_law [OF Suc.prems(1)] by auto
    then have "card (ready q1) \<le> n" using Suc.prems(2) ready_finite [of q] by simp
    then obtain xs q2 where "pops pop n q1 = Some (xs, q2)" "invar q2" "ready q2 = {}" "ids q2 = ids q1"
      "set xs = ready q1" "distinct xs" "sorted_wrt (\<lambda>x y. prio q1 x \<le> prio q1 y) xs"
      using Suc.IH [OF pop(2)] by blast
    with pop show ?thesis by (auto intro!: exI [of _ "x # xs"])
  qed
qed

end

end
