(* ===== verification/Priolist.thy ===== *)
theory Priolist
  imports Ready_Queue
begin

text \<open>
  The priority list of \<open>src/proto/priolist.rs\<close>, behind every load balancer and
  fair queue of the protocols: a vector of endpoints with a priority and an
  active flag, and the index and priority of the current one. A vector access out
  of range and the overflow of \<open>priority + 1\<close> are panics, \<open>None\<close>.
\<close>

section \<open>The list and its operations\<close>

record item =
  item_value :: endpoint_id
  item_priority :: u8
  item_active :: bool

record priolist =
  items :: "item list"
  current :: "(nat \<times> u8) option"

definition item_new :: "endpoint_id \<Rightarrow> u8 \<Rightarrow> item" where
  "item_new eid prio = \<lparr>item_value = eid, item_priority = prio, item_active = False\<rparr>"

definition priolist_new :: priolist where
  "priolist_new = \<lparr>items = [], current = None\<rparr>"

definition priolist_insert :: "priolist \<Rightarrow> endpoint_id \<Rightarrow> u8 \<Rightarrow> priolist" where
  "priolist_insert q eid prio = q\<lparr>items := items q @ [item_new eid prio]\<rparr>"

text \<open>\<open>find\<close> walks a range of indices; \<open>items[i]\<close> panics out of range.\<close>

fun find_in :: "priolist \<Rightarrow> (item \<Rightarrow> bool) \<Rightarrow> nat list \<Rightarrow> nat option option" where
  "find_in q predicate [] = Some None"
| "find_in q predicate (i # is) =
     (if i < length (items q)
      then (if predicate (items q ! i) then Some (Some i) else find_in q predicate is)
      else None)"

definition priolist_len :: "priolist \<Rightarrow> nat" where
  "priolist_len q = length (items q)"

definition priolist_all :: "priolist \<Rightarrow> nat list" where
  "priolist_all q = [0..<priolist_len q]"

definition find_by_id :: "priolist \<Rightarrow> endpoint_id \<Rightarrow> nat list \<Rightarrow> nat option option" where
  "find_by_id q eid rng = find_in q (\<lambda>x. item_value x = eid) rng"

definition find_by_id_in_all :: "priolist \<Rightarrow> endpoint_id \<Rightarrow> nat option option" where
  "find_by_id_in_all q eid = find_by_id q eid (priolist_all q)"

definition set_current :: "priolist \<Rightarrow> nat \<Rightarrow> u8 \<Rightarrow> priolist" where
  "set_current q index priority = q\<lparr>current := Some (index, priority)\<rparr>"

definition unset_current :: "priolist \<Rightarrow> priolist" where
  "unset_current q = q\<lparr>current := None\<rparr>"

definition is_index_active :: "priolist \<Rightarrow> nat \<Rightarrow> bool option" where
  "is_index_active q index =
     (if index < length (items q) then Some (item_active (items q ! index)) else None)"

definition set_index_active :: "priolist \<Rightarrow> nat \<Rightarrow> bool \<Rightarrow> priolist option" where
  "set_index_active q index active =
     (if index < length (items q)
      then Some (q\<lparr>items := (items q)[index := (items q ! index)\<lparr>item_active := active\<rparr>]\<rparr>)
      else None)"

definition item_at :: "priolist \<Rightarrow> nat \<Rightarrow> item option" where
  "item_at q index = (if index < length (items q) then Some (items q ! index) else None)"

text \<open>The last loop of \<open>compute_next\<close>, over the priorities \<open>lower_priority..17\<close>.\<close>

fun next_lower :: "priolist \<Rightarrow> nat list \<Rightarrow> priolist option" where
  "next_lower q [] = Some (unset_current q)"
| "next_lower q (prio # prios) = do {
     r \<leftarrow> find_in q (\<lambda>x. item_active x \<and> item_priority x = of_nat prio) (priolist_all q);
     (case r of
        Some index \<Rightarrow> Some (set_current q index (of_nat prio))
      | None \<Rightarrow> next_lower q prios) }"

definition compute_next :: "priolist \<Rightarrow> nat \<Rightarrow> u8 \<Rightarrow> priolist option" where
  "compute_next q pivot priority = do {
     after \<leftarrow> find_in q (\<lambda>x. item_active x \<and> item_priority x = priority) [pivot..<priolist_len q];
     (case after of
        Some index \<Rightarrow> Some (set_current q index priority)
      | None \<Rightarrow> do {
          before \<leftarrow> find_in q (\<lambda>x. item_active x \<and> item_priority x = priority) [0..<pivot];
          (case before of
             Some index \<Rightarrow> Some (set_current q index priority)
           | None \<Rightarrow> do {
               lower_priority \<leftarrow> checked_add priority 1;
               next_lower q [unat lower_priority..<17] }) }) }"

text \<open>\<open>Vec::swap_remove\<close>: the last element takes the place of the removed one.\<close>

definition swap_remove :: "'a list \<Rightarrow> nat \<Rightarrow> ('a \<times> 'a list) option" where
  "swap_remove xs index =
     (if index < length xs then Some (xs ! index, butlast (xs[index := last xs])) else None)"

definition remove_at_index :: "priolist \<Rightarrow> nat \<Rightarrow> priolist option" where
  "remove_at_index q index = do {
     (item, rest) \<leftarrow> swap_remove (items q) index;
     let priority = item_priority item;
     let q' = q\<lparr>items := rest\<rparr>;
     (if current q' = Some (index, priority) then compute_next q' index priority else Some q') }"

definition priolist_remove :: "priolist \<Rightarrow> endpoint_id \<Rightarrow> priolist option" where
  "priolist_remove q eid = do {
     r \<leftarrow> find_by_id_in_all q eid;
     (case r of Some index \<Rightarrow> remove_at_index q index | None \<Rightarrow> Some q) }"

definition activate_at_index :: "priolist \<Rightarrow> nat \<Rightarrow> priolist option" where
  "activate_at_index q index = do {
     act \<leftarrow> is_index_active q index;
     if act then Some q
     else do {
       it \<leftarrow> item_at q index;
       let priority = item_priority it;
       q' \<leftarrow> set_index_active q index True;
       (case current q' of
          Some (cur_idx, cur_prio) \<Rightarrow>
            if priority < cur_prio then Some (set_current q' index priority)
            else Some (set_current q' cur_idx cur_prio)
        | None \<Rightarrow> Some (set_current q' index priority)) } }"

definition activate :: "priolist \<Rightarrow> endpoint_id \<Rightarrow> priolist option" where
  "activate q eid = do {
     r \<leftarrow> find_by_id_in_all q eid;
     (case r of Some index \<Rightarrow> activate_at_index q index | None \<Rightarrow> Some q) }"

definition pop :: "priolist \<Rightarrow> (endpoint_id option \<times> priolist) option" where
  "pop q = (case current q of
     Some (index, priority) \<Rightarrow> do {
       q1 \<leftarrow> set_index_active (q\<lparr>current := None\<rparr>) index False;
       q2 \<leftarrow> compute_next q1 index priority;
       it \<leftarrow> item_at q2 index;
       Some (Some (item_value it), q2) }
   | None \<Rightarrow> Some (None, q))"

definition peek :: "priolist \<Rightarrow> bool" where
  "peek q = (current q \<noteq> None)"

definition deactivate_at_index :: "priolist \<Rightarrow> nat \<Rightarrow> priolist option" where
  "deactivate_at_index q index = do {
     act \<leftarrow> is_index_active q index;
     if \<not> act then Some q
     else do {
       it \<leftarrow> item_at q index;
       let priority = item_priority it;
       q' \<leftarrow> set_index_active q index False;
       (if current q' = Some (index, priority) then compute_next q' index priority
        else Some q') } }"

definition deactivate :: "priolist \<Rightarrow> endpoint_id \<Rightarrow> priolist option" where
  "deactivate q eid = do {
     r \<leftarrow> find_by_id_in_all q eid;
     (case r of Some index \<Rightarrow> deactivate_at_index q index | None \<Rightarrow> Some q) }"


section \<open>Searching\<close>

lemma find_in_eq:
  "(\<forall>i \<in> set is. i < length (items q)) \<Longrightarrow>
     find_in q P is = Some (List.find (\<lambda>i. P (items q ! i)) is)"
  by (induction "is") auto

lemma find_by_id_in_all_eq:
  "find_by_id_in_all q eid = Some (List.find (\<lambda>i. item_value (items q ! i) = eid) [0..<length (items q)])"
  by (simp add: find_by_id_in_all_def find_by_id_def priolist_all_def priolist_len_def find_in_eq)

lemma find_upt_None_iff:
  "List.find (\<lambda>i. P (xs ! i)) [0..<length xs] = None \<longleftrightarrow> (\<forall>x \<in> set xs. \<not> P x)"
  by (fastforce simp: find_None_iff in_set_conv_nth)

lemma find_append:
  "List.find P (xs @ ys) = (case List.find P xs of Some x \<Rightarrow> Some x | None \<Rightarrow> List.find P ys)"
  by (induction xs) auto

lemma find_SomeD: "List.find P xs = Some x \<Longrightarrow> x \<in> set xs \<and> P x"
  by (auto simp: find_Some_iff)

section \<open>The invariant and the abstract view\<close>

text \<open>
  \<open>ids q\<close> are the stored endpoints, \<open>ready q\<close> the active ones and
  \<open>prio q eid\<close> the priority of an endpoint. The invariant says that the current
  item is active and of the best (lowest) priority among the active ones, and that
  there is a current item whenever some item is active.
\<close>

definition ids :: "priolist \<Rightarrow> endpoint_id set" where
  "ids q = item_value ` set (items q)"

definition ready :: "priolist \<Rightarrow> endpoint_id set" where
  "ready q = item_value ` {it \<in> set (items q). item_active it}"

definition prio :: "priolist \<Rightarrow> endpoint_id \<Rightarrow> u8" where
  "prio q eid = (case map_of (map (\<lambda>it. (item_value it, item_priority it)) (items q)) eid of
     Some p \<Rightarrow> p | None \<Rightarrow> 0)"

definition current_ok :: "priolist \<Rightarrow> bool" where
  "current_ok q = (case current q of
     None \<Rightarrow> \<forall>it \<in> set (items q). \<not> item_active it
   | Some (i, p) \<Rightarrow> i < length (items q) \<and> item_active (items q ! i) \<and> item_priority (items q ! i) = p \<and>
       (\<forall>it \<in> set (items q). item_active it \<longrightarrow> p \<le> item_priority it))"

definition invar :: "priolist \<Rightarrow> bool" where
  "invar q \<longleftrightarrow> distinct (map item_value (items q)) \<and>
     (\<forall>it \<in> set (items q). item_priority it \<le> 16) \<and> current_ok q"

text \<open>
  What \<open>remove\<close> needs to keep the invariant: the removed item is the current or
  the last one, or the current one is not the last (\<open>swap_remove\<close> moves the last).
\<close>

definition removable :: "priolist \<Rightarrow> endpoint_id \<Rightarrow> bool" where
  "removable q eid = (case current q of
     None \<Rightarrow> True
   | Some (i, p) \<Rightarrow> eid \<notin> ids q \<or> item_value (items q ! i) = eid \<or> Suc i < length (items q) \<or>
       item_value (last (items q)) = eid)"

lemma ready_subset_ids: "ready q \<subseteq> ids q"
  by (auto simp: ready_def ids_def)

lemma finite_ids [simp]: "finite (ids q)" and finite_ready [simp]: "finite (ready q)"
  by (simp_all add: ids_def ready_def)

section \<open>compute\_next\<close>

lemma next_lower_spec:
  assumes "sorted ps" and "\<forall>k \<in> set ps. k < 256"
    and "\<forall>it \<in> set (items q). item_active it \<longrightarrow> unat (item_priority it) \<in> set ps"
  shows "\<exists>q'. next_lower q ps = Some q' \<and> items q' = items q \<and> current_ok q'"
  using assms
proof (induction ps)
  case Nil
  then show ?case by (simp add: unset_current_def current_ok_def)
next
  case (Cons k ps)
  let ?P = "\<lambda>x. item_active x \<and> item_priority x = of_nat k"
  let ?r = "List.find (\<lambda>i. ?P (items q ! i)) [0..<length (items q)]"
  have fnd: "find_in q ?P (priolist_all q) = Some ?r"
    by (simp add: find_in_eq priolist_all_def priolist_len_def)
  have k: "unat (of_nat k :: u8) = k"
    using Cons.prems(2) by (simp add: unat_of_nat)
  show ?case
  proof (cases ?r)
    case None
    then have "\<forall>it \<in> set (items q). \<not> ?P it" by (simp add: find_upt_None_iff [of ?P])
    then have "\<forall>it \<in> set (items q). item_active it \<longrightarrow> unat (item_priority it) \<in> set ps"
      using Cons.prems(3) k by (metis set_ConsD word_unat_eq_iff)
    then show ?thesis using Cons None fnd by auto
  next
    case (Some i)
    then have i: "i < length (items q)" "?P (items q ! i)" by (auto dest: find_SomeD)
    have "of_nat k \<le> item_priority it" if "it \<in> set (items q)" "item_active it" for it
      using that Cons.prems(1,3) k by (auto simp: word_le_nat_alt)
    with i have "current_ok (set_current q i (of_nat k))"
      by (simp add: current_ok_def set_current_def)
    with Some fnd show ?thesis by (simp add: set_current_def)
  qed
qed

text \<open>
  The round-robin order: the next item of the same priority is looked for after
  the pivot first, then from the start.
\<close>

definition cyclic_from :: "nat \<Rightarrow> nat \<Rightarrow> nat list" where
  "cyclic_from pivot n = [pivot..<n] @ [0..<pivot]"

lemma compute_next_same_priority:
  assumes "pivot \<le> length (items q)"
    and "List.find (\<lambda>i. item_active (items q ! i) \<and> item_priority (items q ! i) = p)
           (cyclic_from pivot (length (items q))) = Some j"
  shows "compute_next q pivot p = Some (set_current q j p)"
proof -
  let ?P = "\<lambda>x. item_active x \<and> item_priority x = p"
  have "find_in q ?P [pivot..<priolist_len q] = Some (List.find (\<lambda>i. ?P (items q ! i)) [pivot..<length (items q)])"
    and "find_in q ?P [0..<pivot] = Some (List.find (\<lambda>i. ?P (items q ! i)) [0..<pivot])"
    using assms(1) by (simp_all add: find_in_eq priolist_len_def)
  with assms(2) show ?thesis
    by (auto simp: compute_next_def cyclic_from_def find_append split: option.splits)
qed

lemma compute_next_ok:
  assumes "pivot \<le> length (items q)" and "\<forall>it \<in> set (items q). item_priority it \<le> 16"
    and "p \<le> 16" and "\<forall>it \<in> set (items q). item_active it \<longrightarrow> p \<le> item_priority it"
  shows "\<exists>q'. compute_next q pivot p = Some q' \<and> items q' = items q \<and> current_ok q'"
proof -
  let ?P = "\<lambda>x. item_active x \<and> item_priority x = p"
  let ?f = "List.find (\<lambda>i. ?P (items q ! i)) (cyclic_from pivot (length (items q)))"
  have all: "set (cyclic_from pivot (length (items q))) = {0..<length (items q)}"
    using assms(1) by (auto simp: cyclic_from_def)
  show ?thesis
  proof (cases ?f)
    case (Some j)
    then have "j < length (items q)" "?P (items q ! j)" using all by (auto dest: find_SomeD)
    then have "current_ok (set_current q j p)" using assms(4) by (simp add: current_ok_def set_current_def)
    then show ?thesis using compute_next_same_priority [OF assms(1) Some] by (simp add: set_current_def)
  next
    case None
    then have none: "\<forall>it \<in> set (items q). \<not> ?P it"
      using all by (auto simp: find_None_iff in_set_conv_nth)
    have p1: "checked_add p 1 = Some (p + 1)" "unat (p + 1) = Suc (unat p)"
      using assms(3) by (simp_all add: checked_add_one_Some [where k = 17] word_le_nat_alt unat_word_ariths)
    have "\<forall>it \<in> set (items q). item_active it \<longrightarrow> unat (item_priority it) \<in> set [unat (p + 1)..<17]"
    proof (intro ballI impI)
      fix it assume it: "it \<in> set (items q)" "item_active it"
      then have "p \<noteq> item_priority it" "p \<le> item_priority it" "item_priority it \<le> 16"
        using none assms(2,4) by auto
      then have "p < item_priority it" "item_priority it \<le> 16" by auto
      then show "unat (item_priority it) \<in> set [unat (p + 1)..<17]"
        using p1 by (simp add: word_le_nat_alt word_less_nat_alt)
    qed
    then obtain q' where "next_lower q [unat (p + 1)..<17] = Some q'" "items q' = items q" "current_ok q'"
      using next_lower_spec [of "[unat (p + 1)..<17]" q] by auto
    moreover have "find_in q ?P [pivot..<priolist_len q] = Some None" "find_in q ?P [0..<pivot] = Some None"
      using assms(1) none by (auto simp: find_in_eq priolist_len_def find_None_iff)
    ultimately show ?thesis by (simp add: compute_next_def p1)
  qed
qed


section \<open>Marking one item\<close>

lemma lookup_cases:
  assumes "distinct (map item_value (items q))"
  obtains (absent) "eid \<notin> ids q" "find_by_id_in_all q eid = Some None"
  | (present) i where "eid \<in> ids q" "i < length (items q)" "item_value (items q ! i) = eid"
      "find_by_id_in_all q eid = Some (Some i)"
proof (cases "List.find (\<lambda>i. item_value (items q ! i) = eid) [0..<length (items q)]")
  case None
  then have "eid \<notin> ids q"
    by (auto simp: find_upt_None_iff [of "\<lambda>x. item_value x = eid"] ids_def)
  with None show ?thesis by (intro absent) (simp_all add: find_by_id_in_all_eq)
next
  case (Some i)
  then have "i < length (items q)" "item_value (items q ! i) = eid" by (auto dest: find_SomeD)
  with Some show ?thesis by (intro present) (auto simp: find_by_id_in_all_eq ids_def)
qed

definition mark :: "priolist \<Rightarrow> nat \<Rightarrow> bool \<Rightarrow> priolist" where
  "mark q i b = q\<lparr>items := (items q)[i := (items q ! i)\<lparr>item_active := b\<rparr>]\<rparr>"

lemma set_index_active_mark: "i < length (items q) \<Longrightarrow> set_index_active q i b = Some (mark q i b)"
  by (simp add: set_index_active_def mark_def)

lemma mark_fields [simp]:
  "length (items (mark q i b)) = length (items q)"
  "current (mark q i b) = current q"
  by (simp_all add: mark_def)

lemma map_mark:
  assumes "i < length (items q)" and "\<And>it b. f (it\<lparr>item_active := b\<rparr>) = f it"
  shows "map f (items (mark q i b)) = map f (items q)"
  using assms by (simp add: mark_def map_update list_update_same_conv)

lemma set_mark:
  assumes "distinct (map item_value (items q))" and "i < length (items q)"
  shows "set (items (mark q i b)) =
    insert ((items q ! i)\<lparr>item_active := b\<rparr>) (set (items q) - {items q ! i})"
  using assms by (simp add: mark_def set_update_distinct distinct_map)

lemma mark_abs:
  assumes "distinct (map item_value (items q))" and "i < length (items q)"
  shows "ids (mark q i b) = ids q" "prio (mark q i b) = prio q"
    "distinct (map item_value (items (mark q i b)))"
    "\<forall>it \<in> set (items q). item_priority it \<le> 16 \<Longrightarrow> \<forall>it \<in> set (items (mark q i b)). item_priority it \<le> 16"
proof -
  have "map item_value (items (mark q i b)) = map item_value (items q)"
    using assms(2) by (simp add: map_mark)
  then show "ids (mark q i b) = ids q" "distinct (map item_value (items (mark q i b)))"
    using assms(1) by (simp_all add: ids_def flip: set_map)
  show "prio (mark q i b) = prio q"
    using assms(2) by (simp add: prio_def fun_eq_iff map_mark)
  have "map item_priority (items (mark q i b)) = map item_priority (items q)"
    using assms(2) by (simp add: map_mark)
  then have "item_priority ` set (items (mark q i b)) = item_priority ` set (items q)"
    by (metis set_map)
  moreover assume "\<forall>it \<in> set (items q). item_priority it \<le> 16"
  ultimately show "\<forall>it \<in> set (items (mark q i b)). item_priority it \<le> 16"
    by (metis (no_types) imageE imageI)
qed

lemma item_eqI:
  assumes "distinct (map item_value (items q))" and "a \<in> set (items q)" "b \<in> set (items q)"
    and "item_value a = item_value b"
  shows "a = b"
  using assms by (auto simp: distinct_map inj_on_def)

lemma ready_mark:
  assumes "distinct (map item_value (items q))" and "i < length (items q)"
  shows "ready (mark q i b) =
    (if b then insert (item_value (items q ! i)) (ready q) else ready q - {item_value (items q ! i)})"
proof -
  have mem: "items q ! i \<in> set (items q)" using assms(2) by simp
  have "{it \<in> set (items (mark q i b)). item_active it} =
      (if b then insert ((items q ! i)\<lparr>item_active := True\<rparr>) else id)
        ({it \<in> set (items q). item_active it} - {items q ! i})"
    by (auto simp: set_mark [OF assms] dest: arg_cong [where f = item_active])
  then show ?thesis
    using item_eqI [OF assms(1) _ mem] mem by (auto simp: ready_def)
qed

lemma invarD:
  assumes "invar q"
  shows "distinct (map item_value (items q))" "\<forall>it \<in> set (items q). item_priority it \<le> 16" "current_ok q"
  using assms by (simp_all add: invar_def)

lemma peek_ready: "current_ok q \<Longrightarrow> peek q \<longleftrightarrow> ready q \<noteq> {}"
  by (force simp: peek_def current_ok_def ready_def split: option.splits)

lemma same_items_abs:
  assumes "items q' = items q"
  shows "ids q' = ids q" "ready q' = ready q" "prio q' = prio q"
  using assms by (simp_all add: ids_def ready_def prio_def fun_eq_iff)

lemma prio_nth:
  assumes "distinct (map item_value (items q))" and "it \<in> set (items q)"
  shows "prio q (item_value it) = item_priority it"
proof -
  have "map_of (map (\<lambda>it. (item_value it, item_priority it)) (items q)) (item_value it) = Some (item_priority it)"
    using assms by (intro map_of_is_SomeI) (auto simp: comp_def)
  then show ?thesis by (simp add: prio_def)
qed


section \<open>The operations keep the invariant\<close>

lemma insert_ok:
  assumes "invar q" and "eid \<notin> ids q" and "p \<le> 16"
  shows "invar (priolist_insert q eid p)" "ids (priolist_insert q eid p) = insert eid (ids q)"
    "ready (priolist_insert q eid p) = ready q"
    "prio (priolist_insert q eid p) = (prio q)(eid := p)"
proof -
  let ?q = "priolist_insert q eid p"
  show "ids ?q = insert eid (ids q)" "ready ?q = ready q"
    by (auto simp: priolist_insert_def item_new_def ids_def ready_def)
  have "map_of (map (\<lambda>it. (item_value it, item_priority it)) (items q)) eid = None"
    using assms(2) by (auto simp: map_of_eq_None_iff ids_def)
  then show "prio ?q = (prio q)(eid := p)"
    by (auto simp: fun_eq_iff prio_def priolist_insert_def item_new_def map_add_def split: option.splits)
  have "current_ok ?q"
    using invarD(3) [OF assms(1)]
    by (auto simp: current_ok_def priolist_insert_def item_new_def nth_append split: option.splits)
  then show "invar ?q"
    using assms by (auto simp: invar_def priolist_insert_def item_new_def ids_def)
qed

lemma activate_ok:
  assumes "invar q"
  shows "\<exists>q'. activate q eid = Some q' \<and> invar q' \<and> ids q' = ids q \<and> prio q' = prio q \<and>
    ready q' = ready q \<union> ({eid} \<inter> ids q)"
  using invarD(1) [OF assms]
proof (cases rule: lookup_cases [of q eid])
  case absent
  then show ?thesis using assms by (simp add: activate_def)
next
  case (present i)
  show ?thesis
  proof (cases "item_active (items q ! i)")
    case True
    then have "eid \<in> ready q" using present by (auto simp: ready_def)
    with True present assms show ?thesis
      by (auto simp: activate_def activate_at_index_def is_index_active_def)
  next
    case False
    let ?p = "item_priority (items q ! i)" and ?q = "mark q i True"
    define c where "c = (case current q of Some (ci, cp) \<Rightarrow> if ?p < cp then (i, ?p) else (ci, cp) | None \<Rightarrow> (i, ?p))"
    let ?q' = "?q\<lparr>current := Some c\<rparr>"
    have act: "activate q eid = Some ?q'"
      using present False
      by (auto simp: activate_def activate_at_index_def is_index_active_def item_at_def
          set_index_active_mark set_current_def c_def Let_def split: option.splits)
    have "current_ok ?q'"
    proof (cases "current q")
      case None
      then have "\<forall>it \<in> set (items q). \<not> item_active it"
        using invarD(3) [OF assms] by (simp add: current_ok_def)
      then show ?thesis
        using None present set_mark [OF invarD(1) [OF assms] present(2), of True]
        by (auto simp: current_ok_def c_def mark_def)
    next
      case (Some cc)
      then obtain ci cp where cc: "current q = Some (ci, cp)" by (cases cc) auto
      then have old: "ci < length (items q)" "item_active (items q ! ci)" "item_priority (items q ! ci) = cp"
        "\<forall>it \<in> set (items q). item_active it \<longrightarrow> cp \<le> item_priority it"
        using invarD(3) [OF assms] by (auto simp: current_ok_def)
      then have "ci \<noteq> i" using False by auto
      then have "items ?q ! ci = items q ! ci" "items ?q ! i = (items q ! i)\<lparr>item_active := True\<rparr>"
        using present(2) by (simp_all add: mark_def)
      then show ?thesis
        using cc old present set_mark [OF invarD(1) [OF assms] present(2), of True]
        by (auto simp: current_ok_def c_def)
    qed
    moreover note abs = mark_abs [OF invarD(1) [OF assms] present(2), of True]
    ultimately have "invar ?q'"
      using abs(3) abs(4) [OF invarD(2) [OF assms]] by (simp add: invar_def)
    moreover have "items ?q' = items ?q" by simp
    ultimately show ?thesis
      using act abs present ready_mark [OF invarD(1) [OF assms] present(2), of True]
      by (auto simp: same_items_abs [of ?q' ?q])
  qed
qed

text \<open>Deactivating the current item, what \<open>pop\<close> and \<open>deactivate\<close> share.\<close>

lemma deactivate_current_ok:
  assumes "invar q" and "current q = Some (i, p)"
  shows "\<exists>q'. compute_next (mark q i False\<lparr>current := c\<rparr>) i p = Some q' \<and>
    items q' = items (mark q i False) \<and> invar q'"
proof -
  have old: "i < length (items q)" "item_priority (items q ! i) = p"
    "\<forall>it \<in> set (items q). item_active it \<longrightarrow> p \<le> item_priority it"
    using invarD(3) [OF assms(1)] assms(2) by (auto simp: current_ok_def)
  note abs = mark_abs [OF invarD(1) [OF assms(1)] old(1), of False]
  have p16: "p \<le> 16" using invarD(2) [OF assms(1)] old(1,2) nth_mem by metis
  have "\<forall>it \<in> set (items (mark q i False)). item_active it \<longrightarrow> p \<le> item_priority it"
    using old set_mark [OF invarD(1) [OF assms(1)] old(1), of False] by auto
  then obtain q' where "compute_next (mark q i False\<lparr>current := c\<rparr>) i p = Some q'"
    "items q' = items (mark q i False)" "current_ok q'"
    using compute_next_ok [of i "mark q i False\<lparr>current := c\<rparr>" p] old(1) p16
      abs(4) [OF invarD(2) [OF assms(1)]] by auto
  then show ?thesis using abs(3) abs(4) [OF invarD(2) [OF assms(1)]] by (auto simp: invar_def)
qed


lemma pop_ok:
  assumes "invar q"
  shows "if ready q = {} then pop q = Some (None, q)
    else \<exists>eid q'. pop q = Some (Some eid, q') \<and> invar q' \<and> eid \<in> ready q \<and>
      (\<forall>x \<in> ready q. prio q eid \<le> prio q x) \<and>
      ids q' = ids q \<and> prio q' = prio q \<and> ready q' = ready q - {eid}"
proof (cases "current q")
  case None
  then have "ready q = {}" using peek_ready [OF invarD(3) [OF assms]] by (simp add: peek_def)
  with None show ?thesis by (simp add: pop_def)
next
  case (Some c)
  then obtain i p where c: "current q = Some (i, p)" by (cases c) auto
  then have old: "i < length (items q)" "item_active (items q ! i)" "item_priority (items q ! i) = p"
    "\<forall>it \<in> set (items q). item_active it \<longrightarrow> p \<le> item_priority it"
    using invarD(3) [OF assms] by (auto simp: current_ok_def)
  let ?eid = "item_value (items q ! i)"
  obtain q' where q': "compute_next (mark q i False\<lparr>current := None\<rparr>) i p = Some q'"
    "items q' = items (mark q i False)" "invar q'"
    using deactivate_current_ok [OF assms c] by blast
  have "set_index_active (q\<lparr>current := None\<rparr>) i False = Some (mark q i False\<lparr>current := None\<rparr>)"
    using old(1) by (simp add: set_index_active_def mark_def)
  moreover have "item_value (items q' ! i) = ?eid" "i < length (items q')"
    using old(1) q'(2) by (simp_all add: mark_def)
  ultimately have pop: "pop q = Some (Some ?eid, q')"
    using c q'(1) by (simp add: pop_def item_at_def)
  note dist = invarD(1) [OF assms]
  have "prio q ?eid \<le> prio q x" if "x \<in> ready q" for x
    using that old prio_nth [OF dist] by (auto simp: ready_def)
  moreover have "?eid \<in> ready q" using old by (auto simp: ready_def)
  moreover have "ids q' = ids q" "prio q' = prio q" "ready q' = ready q - {?eid}"
    using same_items_abs [OF q'(2)] mark_abs [OF dist old(1)] ready_mark [OF dist old(1)] by simp_all
  ultimately show ?thesis using pop q'(3) by auto
qed

lemma deactivate_ok:
  assumes "invar q"
  shows "\<exists>q'. deactivate q eid = Some q' \<and> invar q' \<and> ids q' = ids q \<and> prio q' = prio q \<and>
    ready q' = ready q - {eid}"
  using invarD(1) [OF assms]
proof (cases rule: lookup_cases [of q eid])
  case absent
  then have "eid \<notin> ready q" using ready_subset_ids by auto
  with absent show ?thesis using assms by (simp add: deactivate_def)
next
  case (present i)
  note dist = invarD(1) [OF assms]
  show ?thesis
  proof (cases "item_active (items q ! i)")
    case False
    then have "eid \<notin> ready q"
      using present item_eqI [OF dist _ nth_mem [OF present(2)]] by (auto simp: ready_def)
    with False present assms show ?thesis
      by (auto simp: deactivate_def deactivate_at_index_def is_index_active_def)
  next
    case True
    let ?p = "item_priority (items q ! i)"
    note abs = mark_abs [OF dist present(2), of False] ready_mark [OF dist present(2), of False]
    show ?thesis
    proof (cases "current q = Some (i, ?p)")
      case cur: True
      obtain q' where q': "compute_next (mark q i False\<lparr>current := current q\<rparr>) i ?p = Some q'"
        "items q' = items (mark q i False)" "invar q'"
        using deactivate_current_ok [OF assms cur] by blast
      have "mark q i False\<lparr>current := current q\<rparr> = mark q i False" by (simp add: mark_def)
      with q'(1) have "compute_next (mark q i False) i ?p = Some q'" by simp
      then have "deactivate q eid = Some q'"
        using present True cur
        by (simp add: deactivate_def deactivate_at_index_def is_index_active_def item_at_def set_index_active_mark)
      then show ?thesis using q' same_items_abs [OF q'(2)] abs present by simp
    next
      case ncur: False
      have de: "deactivate q eid = Some (mark q i False)"
        using present True ncur
        by (simp add: deactivate_def deactivate_at_index_def is_index_active_def item_at_def set_index_active_mark)
      obtain ci cp where c: "current q = Some (ci, cp)" "ci < length (items q)" "item_active (items q ! ci)"
        "item_priority (items q ! ci) = cp" "\<forall>it \<in> set (items q). item_active it \<longrightarrow> cp \<le> item_priority it"
        using invarD(3) [OF assms] True present(2) by (auto simp: current_ok_def split: option.splits)
      with ncur have "ci \<noteq> i" by auto
      then have "items (mark q i False) ! ci = items q ! ci" by (simp add: mark_def)
      then have "current_ok (mark q i False)"
        using c set_mark [OF dist present(2), of False] by (auto simp: current_ok_def)
      then show ?thesis using de abs present abs(4) [OF invarD(2) [OF assms]] by (simp add: invar_def)
    qed
  qed
qed


section \<open>remove\<close>

lemma set_swap_remove:
  assumes "i < length xs" and "distinct xs"
  shows "set (butlast (xs[i := last xs])) = set xs - {xs ! i}"
proof -
  from assms(1) obtain ys z where xs: "xs = ys @ [z]" by (cases xs rule: rev_cases) auto
  then show ?thesis
    using assms by (cases "i = length ys") (auto simp: nth_append list_update_append set_update_distinct)
qed

lemma map_swap_remove: "map f (butlast (xs[i := last xs])) = butlast ((map f xs)[i := f (last xs)])"
  by (simp add: map_butlast map_update)

lemma nth_swap_remove:
  assumes "Suc j < length xs"
  shows "butlast (xs[i := last xs]) ! j = (if j = i then last xs else xs ! j)"
  using assms by (simp add: nth_butlast)

lemma distinct_swap_remove:
  assumes "distinct xs" "i < length xs"
  shows "distinct (butlast (xs[i := last xs]))"
proof -
  from assms(2) obtain ys z where xs: "xs = ys @ [z]" by (cases xs rule: rev_cases) auto
  then show ?thesis
    using assms by (cases "i = length ys") (auto simp: list_update_append intro!: distinct_list_update)
qed

lemma swap_remove_abs:
  assumes "distinct (map item_value (items q))" and "i < length (items q)"
    and "items q' = butlast ((items q)[i := last (items q)])"
  shows "ids q' = ids q - {item_value (items q ! i)}" "ready q' = ready q - {item_value (items q ! i)}"
    "distinct (map item_value (items q'))" "set (items q') = set (items q) - {items q ! i}"
proof -
  note dist = assms(1)
  have ne: "items q \<noteq> []" using assms(2) by auto
  have di: "distinct (items q)" using dist by (simp add: distinct_map)
  show st: "set (items q') = set (items q) - {items q ! i}"
    using set_swap_remove [OF assms(2) di] assms(3) by simp
  show "ids q' = ids q - {item_value (items q ! i)}" "ready q' = ready q - {item_value (items q ! i)}"
    using st item_eqI [OF dist _ nth_mem [OF assms(2)]] by (auto simp: ids_def ready_def)
  have "map item_value (items q') = butlast ((map item_value (items q))[i := last (map item_value (items q))])"
    using assms(3) ne by (simp add: map_swap_remove last_map)
  then show "distinct (map item_value (items q'))"
    using distinct_swap_remove [of "map item_value (items q)" i] dist assms(2) by simp
qed

lemma remove_ok:
  assumes "invar q" and "removable q eid"
  shows "\<exists>q'. priolist_remove q eid = Some q' \<and> invar q' \<and> ids q' = ids q - {eid} \<and>
    ready q' = ready q - {eid}"
  using invarD(1) [OF assms(1)]
proof (cases rule: lookup_cases [of q eid])
  case absent
  then have "eid \<notin> ready q" using ready_subset_ids by auto
  with absent show ?thesis using assms by (simp add: priolist_remove_def)
next
  case (present i)
  note dist = invarD(1) [OF assms(1)]
  let ?xs = "items q" and ?p = "item_priority (items q ! i)"
  let ?q1 = "q\<lparr>items := butlast (?xs[i := last ?xs])\<rparr>"
  note abs = swap_remove_abs [OF dist present(2), of ?q1, simplified]
  have step: "priolist_remove q eid =
      (if current q = Some (i, ?p) then compute_next ?q1 i ?p else Some ?q1)"
    using present by (simp add: priolist_remove_def remove_at_index_def swap_remove_def)
  have prios: "\<forall>it \<in> set (items ?q1). item_priority it \<le> 16"
    using invarD(2) [OF assms(1)] abs(4) by auto
  show ?thesis
  proof (cases "current q = Some (i, ?p)")
    case True
    then have "\<forall>it \<in> set ?xs. item_active it \<longrightarrow> ?p \<le> item_priority it"
      using invarD(3) [OF assms(1)] by (simp add: current_ok_def)
    moreover have "?p \<le> 16" using invarD(2) [OF assms(1)] present(2) by simp
    moreover have "i \<le> length (items ?q1)" using present(2) by simp
    ultimately obtain q' where "compute_next ?q1 i ?p = Some q'" "items q' = items ?q1" "current_ok q'"
      using compute_next_ok [of i ?q1 ?p] prios abs(4) present(2) by auto
    then show ?thesis
      using step True present abs prios same_items_abs [of q' ?q1] by (auto simp: invar_def)
  next
    case False
    have "current_ok ?q1"
    proof (cases "current q")
      case None
      then show ?thesis using invarD(3) [OF assms(1)] abs(4) by (simp add: current_ok_def)
    next
      case (Some c)
      then obtain ci cp where c: "current q = Some (ci, cp)" by (cases c) auto
      then have old: "ci < length ?xs" "item_active (?xs ! ci)" "item_priority (?xs ! ci) = cp"
        "\<forall>it \<in> set ?xs. item_active it \<longrightarrow> cp \<le> item_priority it"
        using invarD(3) [OF assms(1)] by (auto simp: current_ok_def)
      have "ci \<noteq> i" using False c old(3) by auto
      then have nv: "item_value (?xs ! ci) \<noteq> eid"
        using dist old(1) present(2,3) nth_eq_iff_index_eq [of "map item_value ?xs" ci i] by auto
      have "Suc ci < length ?xs"
      proof (rule ccontr)
        assume "\<not> Suc ci < length ?xs"
        then have "ci = length ?xs - 1" using old(1) by simp
        then have "item_value (last ?xs) = item_value (?xs ! ci)" using old(1) by (cases ?xs) (simp_all add: last_conv_nth)
        then show False using assms(2) c nv present(1) \<open>\<not> Suc ci < length ?xs\<close> by (auto simp: removable_def)
      qed
      then show ?thesis using c old abs(4) \<open>ci \<noteq> i\<close> by (auto simp: current_ok_def nth_swap_remove)
    qed
    then show ?thesis using step False present abs prios by (auto simp: invar_def)
  qed
qed

lemma new_ok: "invar priolist_new" "ids priolist_new = {}" "ready priolist_new = {}"
  by (simp_all add: priolist_new_def invar_def current_ok_def ids_def ready_def)

text \<open>
  Where \<open>removable\<close> fails the current index is left pointing past the end of the
  vector, and the next \<open>pop\<close> panics.
\<close>

lemma remove_stale:
  assumes "invar q" and "\<not> removable q eid"
  shows "\<exists>q'. priolist_remove q eid = Some q' \<and> peek q' \<and> pop q' = None"
  using invarD(1) [OF assms(1)]
proof (cases rule: lookup_cases [of q eid])
  case absent
  then show ?thesis using assms by (simp add: removable_def split: option.splits)
next
  case (present i)
  obtain ci cp where c: "current q = Some (ci, cp)" "ci < length (items q)" "\<not> Suc ci < length (items q)"
      "item_value (items q ! ci) \<noteq> eid"
    using assms invarD(3) [OF assms(1)] by (auto simp: removable_def current_ok_def split: option.splits)
  let ?q1 = "q\<lparr>items := butlast ((items q)[i := last (items q)])\<rparr>"
  have "ci \<noteq> i" using c present by auto
  then have "priolist_remove q eid = Some ?q1"
    using present c by (simp add: priolist_remove_def remove_at_index_def swap_remove_def)
  moreover have "\<not> ci < length (items ?q1)" using c(2,3) by simp
  then have "pop ?q1 = None" "peek ?q1"
    using c(1) by (simp_all add: pop_def set_index_active_def peek_def)
  ultimately show ?thesis by blast
qed


section \<open>The list is a queue of ready endpoints\<close>

interpretation prq: ready_queue priolist_new priolist_insert priolist_remove activate deactivate
  pop peek invar removable ids ready prio
proof unfold_locales
  show "invar priolist_new" "ids priolist_new = {}" "ready priolist_new = {}" by (fact new_ok)+
  show "ready q \<subseteq> ids q" "finite (ids q)" for q by (simp_all add: ready_subset_ids)
  show "invar (priolist_insert q x p) \<and> ids (priolist_insert q x p) = {x} \<union> ids q \<and>
      ready (priolist_insert q x p) = ready q \<and> prio (priolist_insert q x p) = (prio q)(x := p)"
    if "invar q" "x \<notin> ids q" "p \<le> 16" for q x p
    using insert_ok [OF that] by simp
  show "\<exists>q'. priolist_remove q x = Some q' \<and> invar q' \<and> ids q' = ids q - {x} \<and> ready q' = ready q - {x}"
    if "invar q" "removable q x" for q x
    using remove_ok [OF that] .
  show "\<exists>q'. activate q x = Some q' \<and> invar q' \<and> ids q' = ids q \<and> prio q' = prio q \<and>
      ready q' = ready q \<union> ({x} \<inter> ids q)" if "invar q" for q x
    using activate_ok [OF that] .
  show "\<exists>q'. deactivate q x = Some q' \<and> invar q' \<and> ids q' = ids q \<and> prio q' = prio q \<and>
      ready q' = ready q - {x}" if "invar q" for q x
    using deactivate_ok [OF that] .
  show "if ready q = {} then pop q = Some (None, q)
      else \<exists>x q'. pop q = Some (Some x, q') \<and> invar q' \<and> x \<in> ready q \<and>
        (\<forall>y \<in> ready q. prio q x \<le> prio q y) \<and> ids q' = ids q \<and> prio q' = prio q \<and>
        ready q' = ready q - {x}" if "invar q" for q
    using pop_ok [OF that] .
  show "peek q \<longleftrightarrow> ready q \<noteq> {}" if "invar q" for q
    using peek_ready [OF invarD(3) [OF that]] .
  show "removable q x" if "\<not> peek q" for q x
    using that by (cases "current q") (simp_all add: peek_def removable_def)
qed

section \<open>Round robin\<close>

text \<open>
  One turn of a busy endpoint: it is popped, served, and signals that it is ready
  again.
\<close>

definition turn :: "priolist \<Rightarrow> (endpoint_id \<times> priolist) option" where
  "turn q = do {
     (r, q1) \<leftarrow> pop q;
     (case r of Some eid \<Rightarrow> do { q2 \<leftarrow> activate q1 eid; Some (eid, q2) } | None \<Rightarrow> None) }"

fun turns :: "nat \<Rightarrow> priolist \<Rightarrow> (endpoint_id list \<times> priolist) option" where
  "turns 0 q = Some ([], q)"
| "turns (Suc n) q = do { (e, q1) \<leftarrow> turn q; (es, q2) \<leftarrow> turns n q1; Some (e # es, q2) }"

definition all_busy :: "u8 \<Rightarrow> priolist \<Rightarrow> bool" where
  "all_busy p q \<longleftrightarrow> (\<forall>it \<in> set (items q). item_active it \<and> item_priority it = p)"

lemma find_cyclic_next:
  assumes "i < n" and "1 < n"
  shows "List.find (\<lambda>j. j \<noteq> i) (cyclic_from i n) = Some (Suc i mod n)"
proof (cases "Suc i < n")
  case True
  then have "[i..<n] = i # Suc i # [Suc (Suc i)..<n]" by (simp add: upt_conv_Cons)
  with True show ?thesis by (simp add: cyclic_from_def)
next
  case False
  with assms have n: "n = Suc i" "[0..<i] = 0 # [1..<i]" by (simp_all add: upt_conv_Cons)
  then show ?thesis using assms by (simp add: cyclic_from_def)
qed

lemma find_cong: "(\<And>x. x \<in> set xs \<Longrightarrow> P x = Q x) \<Longrightarrow> List.find P xs = List.find Q xs"
  by (induction xs) auto

lemma compute_next_busy:
  assumes "all_busy p q" and "i < length (items q)" and "1 < length (items q)"
  shows "compute_next (mark q i False\<lparr>current := None\<rparr>) i p =
    Some (set_current (mark q i False) (Suc i mod length (items q)) p)"
proof -
  let ?n = "length (items q)" and ?q = "mark q i False\<lparr>current := None\<rparr>"
  have "List.find (\<lambda>j. item_active (items ?q ! j) \<and> item_priority (items ?q ! j) = p) (cyclic_from i ?n)
      = List.find (\<lambda>j. j \<noteq> i) (cyclic_from i ?n)"
    using assms by (intro find_cong) (auto simp: mark_def nth_list_update cyclic_from_def all_busy_def)
  then show ?thesis
    using compute_next_same_priority [of i ?q p "Suc i mod ?n"] assms find_cyclic_next [OF assms(2,3)]
    by (simp add: set_current_def)
qed

lemma mark_back:
  assumes "i < length (items q)" and "item_active (items q ! i)" and "items q' = items (mark q i False)"
  shows "items (mark q' i True) = items q"
  using assms by (auto simp: mark_def intro!: nth_equalityI simp: nth_list_update)

lemma activate_marked:
  assumes "distinct (map item_value (items q))" and "i < length (items q)" and "\<not> item_active (items q ! i)"
    and "item_value (items q ! i) = eid"
    and "current q = None \<or> (\<exists>c. current q = Some (c, item_priority (items q ! i)))"
  shows "activate q eid = Some ((mark q i True)
    \<lparr>current := (case current q of None \<Rightarrow> Some (i, item_priority (items q ! i)) | Some c \<Rightarrow> Some c)\<rparr>)"
  using assms(1)
proof (cases rule: lookup_cases [of q eid])
  case absent
  then show ?thesis using assms(2,4) by (auto simp: ids_def)
next
  case (present k)
  then have "k = i"
    using assms nth_eq_iff_index_eq [of "map item_value (items q)" k i] by auto
  then show ?thesis
    using present assms(2-)
    by (auto simp: activate_def activate_at_index_def is_index_active_def item_at_def
        set_index_active_mark set_current_def mark_def)
qed

lemma turn_busy:
  assumes "distinct (map item_value (items q))" and "all_busy p q" and "i < length (items q)"
    and "current q = Some (i, p)" and "p \<le> 16"
  shows "turn q = Some (item_value (items q ! i), q\<lparr>current := Some (Suc i mod length (items q), p)\<rparr>)"
proof -
  let ?n = "length (items q)" and ?it = "items q ! i"
  have it: "item_active ?it" "item_priority ?it = p" using assms(2,3) by (auto simp: all_busy_def)
  have inv: "invar q" using assms it by (auto simp: invar_def current_ok_def all_busy_def)
  define c where "c = (if 1 < ?n then Some (Suc i mod ?n, p) else None)"
  let ?q1 = "mark q i False\<lparr>current := c\<rparr>"
  obtain q' where q': "compute_next (mark q i False\<lparr>current := None\<rparr>) i p = Some q'"
    "items q' = items (mark q i False)" "invar q'"
    using deactivate_current_ok [OF inv assms(4)] by blast
  have "q' = ?q1"
  proof (cases "1 < ?n")
    case True
    then show ?thesis using compute_next_busy [OF assms(2,3)] q'(1) by (simp add: set_current_def c_def)
  next
    case False
    then have "i = 0" "?n = 1" using assms(3) by auto
    then have "ready q' = {}"
      using q'(2) by (auto simp: ready_def mark_def length_Suc_conv)
    then have "current q' = None"
      using peek_ready [OF invarD(3) [OF q'(3)]] by (cases "current q'") (simp_all add: peek_def)
    then show ?thesis using q'(2) False by (simp add: c_def mark_def)
  qed
  moreover have "set_index_active (q\<lparr>current := None\<rparr>) i False = Some (mark q i False\<lparr>current := None\<rparr>)"
    using assms(3) by (simp add: set_index_active_def mark_def)
  ultimately have "pop q = Some (Some (item_value ?it), ?q1)"
    using assms(3,4) q'(1) by (simp add: pop_def item_at_def mark_def)
  moreover have "activate ?q1 (item_value ?it) = Some (q\<lparr>current := Some (Suc i mod ?n, p)\<rparr>)"
  proof -
    have it1: "items ?q1 ! i = ?it\<lparr>item_active := False\<rparr>" using assms(3) by (simp add: mark_def)
    have "map item_value (items ?q1) = map item_value (items q)"
      using map_mark [OF assms(3), of item_value False] by simp
    then have "activate ?q1 (item_value ?it) = Some ((mark ?q1 i True)
        \<lparr>current := (case c of None \<Rightarrow> Some (i, p) | Some c \<Rightarrow> Some c)\<rparr>)"
      using activate_marked [of ?q1 i "item_value ?it"] assms(1,3) it it1 by (auto simp: c_def)
    moreover have "items (mark ?q1 i True) = items q"
      using mark_back [of i q ?q1] assms(3) it by simp
    moreover have "?n = 1 \<and> i = 0" if "\<not> 1 < ?n" using that assms(3) by auto
    then have "(case c of None \<Rightarrow> Some (i, p) | Some c \<Rightarrow> Some c) = Some (Suc i mod ?n, p)"
      by (auto simp: c_def)
    ultimately show ?thesis by simp
  qed
  ultimately show ?thesis by (simp add: turn_def)
qed

lemma turns_busy:
  assumes "distinct (map item_value (items q))" and "all_busy p q" and "p \<le> 16"
    and "i < length (items q)" and "current q = Some (i, p)"
  shows "turns k q = Some (map (\<lambda>j. item_value (items q ! ((i + j) mod length (items q)))) [0..<k],
      q\<lparr>current := Some ((i + k) mod length (items q), p)\<rparr>)"
  using assms(4,5) assms(1-3)
proof (induction k arbitrary: q i)
  case 0
  then show ?case by simp
next
  case (Suc k)
  let ?n = "length (items q)"
  let ?q1 = "q\<lparr>current := Some (Suc i mod ?n, p)\<rparr>"
  have t: "turn q = Some (item_value (items q ! i), ?q1)"
    using turn_busy Suc.prems by blast
  have "Suc i mod ?n < length (items ?q1)" using Suc.prems(1) by (cases ?n) simp_all
  then have "turns k ?q1 = Some (map (\<lambda>j. item_value (items q ! ((Suc i mod ?n + j) mod ?n))) [0..<k],
      q\<lparr>current := Some ((Suc i mod ?n + k) mod ?n, p)\<rparr>)"
    using Suc.IH [of "Suc i mod ?n" ?q1] Suc.prems by (simp add: all_busy_def)
  moreover have "[0..<Suc k] = 0 # map Suc [0..<k]" by (simp add: upt_conv_Cons map_Suc_upt)
  ultimately show ?case using t Suc.prems(1) by (simp add: mod_add_left_eq comp_def del: upt_Suc)
qed


section \<open>The abstract pool and its refinement\<close>

text \<open>
  The specification in the comment at the head of \<open>priolist.rs\<close>, on the two sets:
  the stored endpoints and the active ones.
\<close>

datatype prio_op =
    OpInsert endpoint_id u8
  | OpRemove endpoint_id
  | OpActivate endpoint_id
  | OpDeactivate endpoint_id
  | OpPop

fun prio_step :: "priolist \<Rightarrow> prio_op \<Rightarrow> (endpoint_id option \<times> priolist) option" where
  "prio_step q (OpInsert eid p) = Some (None, priolist_insert q eid p)"
| "prio_step q (OpRemove eid) = map_option (Pair None) (priolist_remove q eid)"
| "prio_step q (OpActivate eid) = map_option (Pair None) (activate q eid)"
| "prio_step q (OpDeactivate eid) = map_option (Pair None) (deactivate q eid)"
| "prio_step q OpPop = pop q"

fun legal_op :: "priolist \<Rightarrow> prio_op \<Rightarrow> bool" where
  "legal_op q (OpInsert eid p) \<longleftrightarrow> eid \<notin> ids q \<and> p \<le> 16"
| "legal_op q (OpRemove eid) \<longleftrightarrow> removable q eid"
| "legal_op q _ \<longleftrightarrow> True"

inductive pool_step ::
  "endpoint_id set \<times> endpoint_id set \<Rightarrow> prio_op \<Rightarrow> endpoint_id option \<Rightarrow> endpoint_id set \<times> endpoint_id set \<Rightarrow> bool"
where
  pool_insert: "pool_step (S, A) (OpInsert x p) None (insert x S, A)"
| pool_remove: "pool_step (S, A) (OpRemove x) None (S - {x}, A - {x})"
| pool_activate: "x \<in> S \<Longrightarrow> pool_step (S, A) (OpActivate x) None (S, insert x A)"
| pool_activate_absent: "x \<notin> S \<Longrightarrow> pool_step (S, A) (OpActivate x) None (S, A)"
| pool_deactivate: "pool_step (S, A) (OpDeactivate x) None (S, A - {x})"
| pool_pop_empty: "pool_step (S, {}) OpPop None (S, {})"
| pool_pop: "x \<in> A \<Longrightarrow> pool_step (S, A) OpPop (Some x) (S, A - {x})"

inductive_cases pool_popE: "pool_step (S, A) OpPop r T"

fun prio_run :: "priolist \<Rightarrow> prio_op list \<Rightarrow> priolist option" where
  "prio_run q [] = Some q"
| "prio_run q (op # ops) = do { (r, q') \<leftarrow> prio_step q op; prio_run q' ops }"

fun legal_run :: "priolist \<Rightarrow> prio_op list \<Rightarrow> bool" where
  "legal_run q [] \<longleftrightarrow> True"
| "legal_run q (op # ops) \<longleftrightarrow> legal_op q op \<and>
     (case prio_step q op of Some (r, q') \<Rightarrow> legal_run q' ops | None \<Rightarrow> True)"

lemma prio_step_refines:
  assumes "invar q" and "legal_op q op"
  shows "\<exists>r q'. prio_step q op = Some (r, q') \<and> invar q' \<and> pool_step (ids q, ready q) op r (ids q', ready q')"
proof (cases op)
  case (OpInsert x p)
  then show ?thesis
    using prq.insert_law [OF assms(1), of x p] assms(2) pool_insert [of "ids q" "ready q" x p] by simp
next
  case (OpRemove x)
  then show ?thesis
    using prq.remove_law [OF assms(1), of x] assms(2) pool_remove [of "ids q" "ready q" x] by auto
next
  case (OpActivate x)
  obtain q' where "activate q x = Some q'" "invar q'" "ids q' = ids q" "ready q' = ready q \<union> ({x} \<inter> ids q)"
    using prq.activate_law [OF assms(1)] by blast
  then show ?thesis
    using OpActivate pool_activate [of x "ids q" "ready q"] pool_activate_absent [of x "ids q" "ready q"]
    by (cases "x \<in> ids q") auto
next
  case (OpDeactivate x)
  then show ?thesis
    using prq.deactivate_law [OF assms(1), of x] pool_deactivate [of "ids q" "ready q" x] by auto
next
  case OpPop
  then show ?thesis
    using prq.pop_law [OF assms(1)] assms(1) pool_pop_empty [of "ids q"] pool_pop [of _ "ready q" "ids q"]
    by (cases "ready q = {}") auto
qed

section \<open>Properties\<close>

text \<open>
  (C28) The priority list implements the pool: from a well-formed list, every legal
  operation succeeds, leaves the list well formed, and changes the stored and active
  endpoints as the specification at the head of the file says; in particular
  \<open>pop\<close> answers an endpoint exactly when one is active.
\<close>

theorem priolist_refines_pool:
  assumes "invar q" and "legal_op q op"
  shows "\<exists>r q'. prio_step q op = Some (r, q') \<and> invar q' \<and>
    pool_step (ids q, ready q) op r (ids q', ready q')"
  using prio_step_refines [OF assms] .

theorem priolist_refines_pool_witness:
  "\<exists>r q'. prio_step priolist_new (OpInsert 3 8) = Some (r, q') \<and> invar q' \<and>
    pool_step (ids priolist_new, ready priolist_new) (OpInsert 3 8) r (ids q', ready q')"
  using priolist_refines_pool [of priolist_new "OpInsert 3 8"] new_ok by simp

text \<open>
  A list built by any sequence of legal operations is well formed and none of
  the operations panics.
\<close>

theorem priolist_run_safe:
  assumes "legal_run priolist_new ops"
  shows "\<exists>q. prio_run priolist_new ops = Some q \<and> invar q"
proof -
  have "legal_run q ops \<Longrightarrow> invar q \<Longrightarrow> \<exists>q'. prio_run q ops = Some q' \<and> invar q'" for q
  proof (induction ops arbitrary: q)
    case Nil
    then show ?case by simp
  next
    case (Cons op ops)
    then obtain r q' where "prio_step q op = Some (r, q')" "invar q'"
      using prio_step_refines by fastforce
    then show ?case using Cons by simp
  qed
  then show ?thesis using assms new_ok(1) by blast
qed

theorem priolist_run_safe_witness:
  "\<exists>q. prio_run priolist_new [OpInsert 3 8, OpActivate 3, OpPop] = Some q \<and> invar q"
  by (rule priolist_run_safe)
     (simp add: priolist_new_def priolist_insert_def item_new_def activate_def find_by_id_in_all_def
       find_by_id_def priolist_all_def priolist_len_def ids_def split: option.splits prod.splits)

text \<open>
  (C29) \<open>pop\<close> answers an active endpoint of the best priority (the lowest number),
  deactivates that one only and keeps every other endpoint as it was.
\<close>

theorem pop_best_priority:
  assumes "invar q" and "ready q \<noteq> {}"
  shows "\<exists>eid q'. pop q = Some (Some eid, q') \<and> eid \<in> ready q \<and>
    (\<forall>x \<in> ready q. prio q eid \<le> prio q x) \<and> ids q' = ids q \<and> prio q' = prio q \<and>
    ready q' = ready q - {eid}"
  using prq.pop_law [OF assms(1)] assms(2) by auto

definition demo_list :: priolist where
  "demo_list = \<lparr>items =
     [\<lparr>item_value = 1, item_priority = 8, item_active = True\<rparr>,
      \<lparr>item_value = 2, item_priority = 4, item_active = True\<rparr>,
      \<lparr>item_value = 5, item_priority = 4, item_active = True\<rparr>], current = Some (1, 4)\<rparr>"

lemma demo_invar: "invar demo_list" "ready demo_list = {1, 2, 5}"
  by (simp add: demo_list_def invar_def current_ok_def)
     (auto simp: demo_list_def ready_def image_iff conj_disj_distribR ex_disj_distrib)

theorem pop_best_priority_witness:
  "\<exists>eid q'. pop demo_list = Some (Some eid, q') \<and> eid \<in> ready demo_list \<and>
    (\<forall>x \<in> ready demo_list. prio demo_list eid \<le> prio demo_list x) \<and> ids q' = ids demo_list \<and>
    prio q' = prio demo_list \<and> ready q' = ready demo_list - {eid}"
  using pop_best_priority [of demo_list] demo_invar by simp

text \<open>
  Popping until nothing is ready serves every ready endpoint exactly once, in the
  order of their priorities: as many pops as there are ready endpoints suffice.
\<close>

theorem pops_serve_all:
  assumes "invar q"
  shows "\<exists>es q'. pops pop (card (ready q)) q = Some (es, q') \<and> set es = ready q \<and> distinct es \<and>
    sorted_wrt (\<lambda>x y. prio q x \<le> prio q y) es \<and> ready q' = {}"
  using prq.pops_drain [OF assms order_refl] by blast

theorem pops_serve_all_witness:
  "\<exists>es q'. pops pop (card (ready demo_list)) demo_list = Some (es, q') \<and> set es = ready demo_list \<and>
    distinct es \<and> sorted_wrt (\<lambda>x y. prio demo_list x \<le> prio demo_list y) es \<and> ready q' = {}"
  using pops_serve_all [OF demo_invar(1)] .

text \<open>
  (C30) Fairness: when all the endpoints have the same priority and each is active again
  right after it was served, \<open>n\<close> consecutive turns serve the \<open>n\<close> endpoints in cyclic
  order from the current one, each exactly once, and the list is back where it started.
\<close>

theorem round_robin_fair:
  assumes "invar q" and "all_busy p q" and "current q = Some (i, p)"
  shows "\<exists>es. turns (length (items q)) q = Some (es, q) \<and>
    es = map (\<lambda>j. item_value (items q ! ((i + j) mod length (items q)))) [0..<length (items q)] \<and>
    set es = ids q \<and> distinct es"
proof -
  let ?n = "length (items q)"
  have i: "i < ?n" "item_priority (items q ! i) = p"
    using assms(1,3) by (simp_all add: invar_def current_ok_def)
  then have p: "p \<le> 16"
    using invarD(2) [OF assms(1)] nth_mem [of i "items q"] by metis
  have "map (\<lambda>j. item_value (items q ! ((i + j) mod ?n))) [0..<?n] = rotate i (map item_value (items q))"
    by (rule nth_equalityI) (auto simp: nth_rotate intro!: nth_map [symmetric] mod_less_divisor)
  moreover have "turns ?n q = Some (map (\<lambda>j. item_value (items q ! ((i + j) mod ?n))) [0..<?n], q)"
    using turns_busy [OF invarD(1) [OF assms(1)] assms(2) p i(1) assms(3), of ?n] i(1) assms(3) by simp
  ultimately show ?thesis using invarD(1) [OF assms(1)] by (simp add: ids_def)
qed

definition busy_list :: priolist where
  "busy_list = \<lparr>items =
     [\<lparr>item_value = 1, item_priority = 8, item_active = True\<rparr>,
      \<lparr>item_value = 2, item_priority = 8, item_active = True\<rparr>], current = Some (1, 8)\<rparr>"

theorem round_robin_fair_witness:
  "\<exists>es. turns 2 busy_list = Some (es, busy_list) \<and> es = [2, 1] \<and> set es = ids busy_list \<and> distinct es"
proof -
  have "invar busy_list" "all_busy 8 busy_list" "current busy_list = Some (1, 8)"
    by (simp_all add: busy_list_def invar_def current_ok_def all_busy_def)
  from round_robin_fair [OF this] show ?thesis
    by (simp add: busy_list_def numeral_2_eq_2 upt_rec)
qed

text \<open>
  (C31) Removing an endpoint while another one, stored last, is the current one leaves
  the current index past the end of the vector: the list still claims to have a ready
  endpoint, and the next \<open>pop\<close> panics on it.
\<close>

theorem remove_leaves_stale_current:
  assumes "invar q" and "\<not> removable q eid"
  shows "\<exists>q'. priolist_remove q eid = Some q' \<and> peek q' \<and> pop q' = None"
  using remove_stale [OF assms] .

theorem remove_leaves_stale_current_witness:
  "\<exists>q'. priolist_remove busy_list 1 = Some q' \<and> peek q' \<and> pop q' = None"
  by (rule remove_leaves_stale_current)
     (simp_all add: busy_list_def invar_def current_ok_def removable_def ids_def)

end
