(* ===== verification/Core_Endpoint.thy ===== *)
theory Core_Endpoint
  imports Core_Context
begin

text \<open>
  The socket's view of an endpoint, \<open>src/core/endpoint.rs\<close>: an identifier, the
  url when the endpoint was created by the user (none when it was accepted) and
  the description. A \<open>Pipe\<close> is a remote endpoint, an \<open>Acceptor\<close> a local one.
\<close>

record endpoint =
  ep_id :: endpoint_id
  ep_url :: "string option"
  ep_desc :: endpoint_desc

datatype pipe = Pipe (pipe_endpoint: endpoint)
datatype acceptor = Acceptor (acceptor_endpoint: endpoint)

definition endpoint_new_created :: "endpoint_id \<Rightarrow> string \<Rightarrow> endpoint_desc \<Rightarrow> endpoint" where
  "endpoint_new_created eid url desc = \<lparr>ep_id = eid, ep_url = Some url, ep_desc = desc\<rparr>"

definition endpoint_new_accepted :: "endpoint_id \<Rightarrow> endpoint_desc \<Rightarrow> endpoint" where
  "endpoint_new_accepted eid desc = \<lparr>ep_id = eid, ep_url = None, ep_desc = desc\<rparr>"

definition endpoint_from_spec :: "endpoint_id \<Rightarrow> endpoint_spec \<Rightarrow> endpoint" where
  "endpoint_from_spec eid spec = \<lparr>ep_id = eid, ep_url = Some (spec_url spec), ep_desc = spec_desc spec\<rparr>"

definition endpoint_open :: "endpoint \<Rightarrow> ctx \<Rightarrow> bool \<Rightarrow> ctx" where
  "endpoint_open e ctx remote = net_open ctx (ep_id e) remote"

definition endpoint_send :: "endpoint \<Rightarrow> ctx \<Rightarrow> message \<Rightarrow> ctx" where
  "endpoint_send e ctx msg = net_send ctx (ep_id e) msg"

definition endpoint_recv :: "endpoint \<Rightarrow> ctx \<Rightarrow> ctx" where
  "endpoint_recv e ctx = net_recv ctx (ep_id e)"

definition endpoint_close :: "endpoint \<Rightarrow> ctx \<Rightarrow> bool \<Rightarrow> endpoint_spec option \<times> ctx" where
  "endpoint_close e ctx remote =
     (let ctx' = net_close ctx (ep_id e) remote
      in (case ep_url e of
            Some url \<Rightarrow> (Some \<lparr>spec_url = url, spec_desc = ep_desc e\<rparr>, ctx')
          | None \<Rightarrow> (None, ctx')))"

definition endpoint_get_send_priority :: "endpoint \<Rightarrow> u8" where
  "endpoint_get_send_priority e = send_priority (ep_desc e)"

definition endpoint_get_recv_priority :: "endpoint \<Rightarrow> u8" where
  "endpoint_get_recv_priority e = recv_priority (ep_desc e)"

section \<open>Pipes\<close>

definition pipe_new_connected :: "endpoint_id \<Rightarrow> string \<Rightarrow> endpoint_desc \<Rightarrow> pipe" where
  "pipe_new_connected eid url desc = Pipe (endpoint_new_created eid url desc)"

definition pipe_new_accepted :: "endpoint_id \<Rightarrow> endpoint_desc \<Rightarrow> pipe" where
  "pipe_new_accepted eid desc = Pipe (endpoint_new_accepted eid desc)"

definition pipe_from_spec :: "endpoint_id \<Rightarrow> endpoint_spec \<Rightarrow> pipe" where
  "pipe_from_spec eid spec = Pipe (endpoint_from_spec eid spec)"

definition pipe_open :: "pipe \<Rightarrow> ctx \<Rightarrow> ctx" where
  "pipe_open p ctx = endpoint_open (pipe_endpoint p) ctx True"

definition pipe_send :: "pipe \<Rightarrow> ctx \<Rightarrow> message \<Rightarrow> ctx" where
  "pipe_send p ctx msg = endpoint_send (pipe_endpoint p) ctx msg"

definition pipe_recv :: "pipe \<Rightarrow> ctx \<Rightarrow> ctx" where
  "pipe_recv p ctx = endpoint_recv (pipe_endpoint p) ctx"

definition pipe_close :: "pipe \<Rightarrow> ctx \<Rightarrow> endpoint_spec option \<times> ctx" where
  "pipe_close p ctx = endpoint_close (pipe_endpoint p) ctx True"

definition pipe_get_send_priority :: "pipe \<Rightarrow> u8" where
  "pipe_get_send_priority p = endpoint_get_send_priority (pipe_endpoint p)"

definition pipe_get_recv_priority :: "pipe \<Rightarrow> u8" where
  "pipe_get_recv_priority p = endpoint_get_recv_priority (pipe_endpoint p)"

section \<open>Acceptors\<close>

definition acceptor_new :: "endpoint_id \<Rightarrow> string \<Rightarrow> endpoint_desc \<Rightarrow> acceptor" where
  "acceptor_new eid url desc = Acceptor (endpoint_new_created eid url desc)"

definition acceptor_from_spec :: "endpoint_id \<Rightarrow> endpoint_spec \<Rightarrow> acceptor" where
  "acceptor_from_spec eid spec = Acceptor (endpoint_from_spec eid spec)"

definition acceptor_open :: "acceptor \<Rightarrow> ctx \<Rightarrow> ctx" where
  "acceptor_open a ctx = endpoint_open (acceptor_endpoint a) ctx False"

definition acceptor_close :: "acceptor \<Rightarrow> ctx \<Rightarrow> endpoint_spec option \<times> ctx" where
  "acceptor_close a ctx = endpoint_close (acceptor_endpoint a) ctx False"

definition acceptor_get_send_priority :: "acceptor \<Rightarrow> u8" where
  "acceptor_get_send_priority a = endpoint_get_send_priority (acceptor_endpoint a)"

definition acceptor_get_recv_priority :: "acceptor \<Rightarrow> u8" where
  "acceptor_get_recv_priority a = endpoint_get_recv_priority (acceptor_endpoint a)"

lemmas endpoint_ctor_defs = endpoint_new_created_def endpoint_new_accepted_def
  endpoint_from_spec_def pipe_new_connected_def pipe_new_accepted_def pipe_from_spec_def
  acceptor_new_def acceptor_from_spec_def

section \<open>What the calls do\<close>

lemma pipe_send_emit [ctx_simps]: "pipe_send p ctx msg = emit (NetSend (ep_id (pipe_endpoint p)) msg) ctx"
  by (simp add: pipe_send_def endpoint_send_def net_send_def)

lemma pipe_recv_emit [ctx_simps]: "pipe_recv p ctx = emit (NetRecv (ep_id (pipe_endpoint p))) ctx"
  by (simp add: pipe_recv_def endpoint_recv_def net_recv_def)

lemma pipe_open_emit [ctx_simps]: "pipe_open p ctx = emit (NetOpen (ep_id (pipe_endpoint p)) True) ctx"
  by (simp add: pipe_open_def endpoint_open_def net_open_def)

lemma acceptor_open_emit [ctx_simps]:
  "acceptor_open a ctx = emit (NetOpen (ep_id (acceptor_endpoint a)) False) ctx"
  by (simp add: acceptor_open_def endpoint_open_def net_open_def)

lemma pipe_close_emit [ctx_simps]:
  "pipe_close p ctx =
     (map_option (\<lambda>url. \<lparr>spec_url = url, spec_desc = ep_desc (pipe_endpoint p)\<rparr>) (ep_url (pipe_endpoint p)),
      emit (NetClose (ep_id (pipe_endpoint p)) True) ctx)"
  by (simp add: pipe_close_def endpoint_close_def net_close_def Let_def split: option.splits)

lemma acceptor_close_emit [ctx_simps]:
  "acceptor_close a ctx =
     (map_option (\<lambda>url. \<lparr>spec_url = url, spec_desc = ep_desc (acceptor_endpoint a)\<rparr>) (ep_url (acceptor_endpoint a)),
      emit (NetClose (ep_id (acceptor_endpoint a)) False) ctx)"
  by (simp add: acceptor_close_def endpoint_close_def net_close_def Let_def split: option.splits)

end
