(* ===== verification/Pipes_Policy.thy ===== *)
theory Pipes_Policy
  imports Priolist Core_Endpoint
begin

text \<open>
  The pipes a protocol owns (\<open>src/proto/pipes.rs\<close>) and the three ways it shares
  traffic among them (\<open>src/proto/policy.rs\<close>): broadcast to every ready pipe, fair
  queueing of the receptions, load balancing of the sends. A \<open>HashMap\<close> is a map, a
  \<open>HashSet\<close> a set; both are drained in the order \<open>hash_order\<close> of the environment.
\<close>

section \<open>PipeCollection\<close>

type_synonym pipe_collection = "endpoint_id \<rightharpoonup> pipe"

definition pipes_new :: pipe_collection where
  "pipes_new = Map.empty"

definition pipes_insert :: "pipe_collection \<Rightarrow> endpoint_id \<Rightarrow> pipe \<Rightarrow> pipe option \<times> pipe_collection" where
  "pipes_insert ps eid p = (ps eid, ps(eid \<mapsto> p))"

definition pipes_remove :: "pipe_collection \<Rightarrow> endpoint_id \<Rightarrow> pipe option \<times> pipe_collection" where
  "pipes_remove ps eid = (ps eid, ps(eid := None))"

definition pipes_get_mut :: "pipe_collection \<Rightarrow> endpoint_id \<Rightarrow> pipe option" where
  "pipes_get_mut ps eid = ps eid"

definition pipes_send_to :: "pipe_collection \<Rightarrow> ctx \<Rightarrow> message \<Rightarrow> endpoint_id \<Rightarrow> endpoint_id option \<times> ctx" where
  "pipes_send_to ps ctx msg eid =
     (case ps eid of None \<Rightarrow> (None, ctx) | Some p \<Rightarrow> (Some eid, pipe_send p ctx msg))"

definition pipes_recv_from :: "pipe_collection \<Rightarrow> ctx \<Rightarrow> endpoint_id \<Rightarrow> endpoint_id option \<times> ctx" where
  "pipes_recv_from ps ctx eid =
     (case ps eid of None \<Rightarrow> (None, ctx) | Some p \<Rightarrow> (Some eid, pipe_recv p ctx))"

fun close_each :: "pipe_collection \<Rightarrow> endpoint_id list \<Rightarrow> ctx \<Rightarrow> ctx" where
  "close_each ps [] ctx = ctx"
| "close_each ps (eid # eids) ctx =
     close_each ps eids (case ps eid of None \<Rightarrow> ctx | Some p \<Rightarrow> snd (pipe_close p ctx))"

definition pipes_close_all :: "pipe_collection \<Rightarrow> ctx \<Rightarrow> pipe_collection \<times> ctx" where
  "pipes_close_all ps ctx = (Map.empty, close_each ps (hash_order (env ctx) (dom ps)) ctx)"

section \<open>policy::broadcast\<close>

fun send_each :: "pipe_collection \<Rightarrow> message \<Rightarrow> endpoint_id list \<Rightarrow> ctx \<Rightarrow> ctx" where
  "send_each ps msg [] ctx = ctx"
| "send_each ps msg (eid # eids) ctx =
     send_each ps msg eids
       (case pipes_get_mut ps eid of None \<Rightarrow> ctx | Some p \<Rightarrow> pipe_send p ctx msg)"

definition send_to_all ::
  "endpoint_id set \<Rightarrow> pipe_collection \<Rightarrow> ctx \<Rightarrow> message \<Rightarrow> endpoint_id set \<times> ctx" where
  "send_to_all bc ps ctx msg = ({}, send_each ps msg (hash_order (env ctx) bc) ctx)"

definition send_to_all_except ::
  "endpoint_id set \<Rightarrow> pipe_collection \<Rightarrow> ctx \<Rightarrow> message \<Rightarrow> endpoint_id \<Rightarrow> endpoint_id set \<times> ctx" where
  "send_to_all_except bc ps ctx msg except =
     ({except}, send_each ps msg (filter (\<lambda>x. x \<noteq> except) (hash_order (env ctx) bc)) ctx)"

section \<open>policy::fair\_queue and policy::load\_balancing\<close>

definition fair_queue_recv ::
  "priolist \<Rightarrow> pipe_collection \<Rightarrow> ctx \<Rightarrow> (endpoint_id option \<times> priolist \<times> ctx) option" where
  "fair_queue_recv fq ps ctx = do {
     (r, fq') \<leftarrow> pop fq;
     (case r of
        None \<Rightarrow> Some (None, fq', ctx)
      | Some eid \<Rightarrow> (let (r', ctx') = pipes_recv_from ps ctx eid in Some (r', fq', ctx'))) }"

definition load_balancing_send ::
  "priolist \<Rightarrow> pipe_collection \<Rightarrow> ctx \<Rightarrow> message \<Rightarrow> (endpoint_id option \<times> priolist \<times> ctx) option" where
  "load_balancing_send lb ps ctx msg = do {
     (r, lb') \<leftarrow> pop lb;
     (case r of
        None \<Rightarrow> Some (None, lb', ctx)
      | Some eid \<Rightarrow> (let (r', ctx') = pipes_send_to ps ctx msg eid in Some (r', lb', ctx'))) }"

section \<open>Well-formed collections\<close>

text \<open>A pipe is stored under its own identifier.\<close>

definition pipes_ok :: "pipe_collection \<Rightarrow> bool" where
  "pipes_ok ps \<longleftrightarrow> finite (dom ps) \<and> (\<forall>eid p. ps eid = Some p \<longrightarrow> ep_id (pipe_endpoint p) = eid)"

lemma pipes_ok_simps [simp]:
  "pipes_ok pipes_new"
  "pipes_ok Map.empty"
  "\<lbrakk>pipes_ok ps; ep_id (pipe_endpoint p) = eid\<rbrakk> \<Longrightarrow> pipes_ok (ps(eid \<mapsto> p))"
  "pipes_ok ps \<Longrightarrow> pipes_ok (ps(eid := None))"
  by (auto simp: pipes_ok_def pipes_new_def)

lemma pipes_ok_finite: "pipes_ok ps \<Longrightarrow> finite (dom ps)"
  by (simp add: pipes_ok_def)

lemma pipes_ok_id: "pipes_ok ps \<Longrightarrow> ps eid = Some p \<Longrightarrow> ep_id (pipe_endpoint p) = eid"
  by (simp add: pipes_ok_def)

lemma pipes_recv_from_eq:
  assumes "pipes_ok ps" and "eid \<in> dom ps"
  shows "pipes_recv_from ps ctx eid = (Some eid, emit (NetRecv eid) ctx)"
  using assms by (auto simp: pipes_recv_from_def pipe_recv_emit pipes_ok_id)

lemma pipes_send_to_eq:
  assumes "pipes_ok ps" and "eid \<in> dom ps"
  shows "pipes_send_to ps ctx msg eid = (Some eid, emit (NetSend eid msg) ctx)"
  using assms by (auto simp: pipes_send_to_def pipe_send_emit pipes_ok_id)

section \<open>What the policies do\<close>

lemma close_each_eq:
  assumes "pipes_ok ps" and "set eids \<subseteq> dom ps"
  shows "close_each ps eids ctx = ctx\<lparr>trace := trace ctx @ map (\<lambda>eid. NetClose eid True) eids\<rparr>"
  using assms(2)
proof (induction eids arbitrary: ctx)
  case (Cons eid eids)
  then obtain p where "ps eid = Some p" by auto
  with Cons assms(1) show ?case by (simp add: pipe_close_emit pipes_ok_id emit_def)
qed simp

lemma pipes_close_all_eq:
  assumes "pipes_ok ps" and "enumerates (hash_order (env ctx))"
  shows "pipes_close_all ps ctx =
    (Map.empty, ctx\<lparr>trace := trace ctx @ map (\<lambda>eid. NetClose eid True) (hash_order (env ctx) (dom ps))\<rparr>)"
  using assms by (simp add: pipes_close_all_def close_each_eq enumerates_def pipes_ok_finite)

lemma pipes_close_all_law:
  assumes "pipes_ok ps" and "enumerates (hash_order (env ctx))"
  shows "\<exists>es. pipes_close_all ps ctx = (Map.empty, ctx\<lparr>trace := trace ctx @ map (\<lambda>eid. NetClose eid True) es\<rparr>) \<and>
    set es = dom ps \<and> distinct es"
  using assms by (intro exI [of _ "hash_order (env ctx) (dom ps)"])
    (simp add: pipes_close_all_eq enumerates_def pipes_ok_finite)

lemma send_each_eq:
  assumes "pipes_ok ps" and "set eids \<subseteq> dom ps"
  shows "send_each ps msg eids ctx = ctx\<lparr>trace := trace ctx @ map (\<lambda>eid. NetSend eid msg) eids\<rparr>"
  using assms(2)
proof (induction eids arbitrary: ctx)
  case (Cons eid eids)
  then obtain p where "ps eid = Some p" by auto
  with Cons assms(1) show ?case by (simp add: pipes_get_mut_def pipe_send_emit pipes_ok_id emit_def)
qed simp

lemma send_to_all_eq:
  assumes "pipes_ok ps" and "bc \<subseteq> dom ps" and "enumerates (hash_order (env ctx))"
  shows "send_to_all bc ps ctx msg =
    ({}, ctx\<lparr>trace := trace ctx @ map (\<lambda>eid. NetSend eid msg) (hash_order (env ctx) bc)\<rparr>)"
proof -
  have "set (hash_order (env ctx) bc) = bc"
    using assms finite_subset [OF assms(2) pipes_ok_finite] by (simp add: enumerates_def)
  then show ?thesis using assms by (simp add: send_to_all_def send_each_eq)
qed

lemma send_to_all_except_eq:
  assumes "pipes_ok ps" and "bc \<subseteq> dom ps" and "enumerates (hash_order (env ctx))"
  shows "send_to_all_except bc ps ctx msg except =
    ({except}, ctx\<lparr>trace := trace ctx @
       map (\<lambda>eid. NetSend eid msg) (filter (\<lambda>x. x \<noteq> except) (hash_order (env ctx) bc))\<rparr>)"
proof -
  have "set (hash_order (env ctx) bc) = bc"
    using assms finite_subset [OF assms(2) pipes_ok_finite] by (simp add: enumerates_def)
  then have "set (filter (\<lambda>x. x \<noteq> except) (hash_order (env ctx) bc)) \<subseteq> dom ps"
    using assms(2) by auto
  then show ?thesis using assms by (simp add: send_to_all_except_def send_each_eq)
qed

text \<open>
  With the queue holding exactly the pipes, a reception or a send is started
  whenever some pipe is ready, on a pipe of the best priority.
\<close>

lemma fair_queue_recv_runs [runs_intros]:
  assumes "invar fq" and "pipes_ok ps" and "ids fq = dom ps"
    and "ready fq = {} \<Longrightarrow> Q (None, fq, ctx)"
    and "\<And>eid fq'. \<lbrakk>invar fq'; eid \<in> ready fq; eid \<in> dom ps; ids fq' = dom ps; ready fq' = ready fq - {eid}\<rbrakk>
      \<Longrightarrow> Q (Some eid, fq', emit (NetRecv eid) ctx)"
  shows "runs (fair_queue_recv fq ps ctx) Q"
  unfolding fair_queue_recv_def using assms
  by (auto intro!: prq.pop_runs simp: pipes_recv_from_eq)

lemma load_balancing_send_runs [runs_intros]:
  assumes "invar lb" and "pipes_ok ps" and "ids lb = dom ps"
    and "ready lb = {} \<Longrightarrow> Q (None, lb, ctx)"
    and "\<And>eid lb'. \<lbrakk>invar lb'; eid \<in> ready lb; eid \<in> dom ps; ids lb' = dom ps; ready lb' = ready lb - {eid}\<rbrakk>
      \<Longrightarrow> Q (Some eid, lb', emit (NetSend eid msg) ctx)"
  shows "runs (load_balancing_send lb ps ctx msg) Q"
  unfolding load_balancing_send_def using assms
  by (auto intro!: prq.pop_runs simp: pipes_send_to_eq)

text \<open>Adding a pipe to a queue, and removing one it does not have.\<close>

lemma queue_insert_laws:
  assumes "invar q" and "eid \<notin> ids q" and "pr \<le> 16"
  shows "invar (priolist_insert q eid pr)" "ids (priolist_insert q eid pr) = insert eid (ids q)"
    "ready (priolist_insert q eid pr) = ready q"
  using prq.insert_law [OF assms] by auto

lemma peek_insert [simp]: "peek (priolist_insert q eid pr) = peek q"
  by (simp add: peek_def priolist_insert_def)

lemma priolist_remove_absent: "eid \<notin> ids q \<Longrightarrow> priolist_remove q eid = Some q"
  by (auto simp: priolist_remove_def find_by_id_in_all_eq ids_def find_None_iff split: option.splits dest!: find_SomeD)

lemmas queue_runs [runs_intros] = prq.remove_runs prq.activate_runs prq.deactivate_runs prq.pop_runs

end
