(* ===== verification/Protocol_Spec.thy ===== *)
theory Protocol_Spec
  imports Pipes_Policy
begin

text \<open>
  The trait \<open>Protocol\<close> of \<open>src/core/socket.rs\<close>: its methods as a record of
  functions, one command per method, and the contract a socket relies on, as a
  locale. Each protocol theory interprets the locale on its own record. The lemmas
  of the locales (about sequences of commands here, about sockets in
  \<open>Core_Socket\<close>) are proved from the contract alone.
\<close>

section \<open>Protocol identifiers: proto/mod.rs\<close>

definition PAIR_ID :: u16 where "PAIR_ID = 16"
definition PUB_ID :: u16 where "PUB_ID = 2 * 16"
definition SUB_ID :: u16 where "SUB_ID = 2 * 16 + 1"
definition REQ_ID :: u16 where "REQ_ID = 3 * 16"
definition REP_ID :: u16 where "REP_ID = 3 * 16 + 1"
definition PUSH_ID :: u16 where "PUSH_ID = 5 * 16"
definition PULL_ID :: u16 where "PULL_ID = 5 * 16 + 1"
definition SURVEYOR_ID :: u16 where "SURVEYOR_ID = 6 * 16 + 2"
definition RESPONDENT_ID :: u16 where "RESPONDENT_ID = 6 * 16 + 3"
definition BUS_ID :: u16 where "BUS_ID = 7 * 16"

section \<open>The methods\<close>

record 'p protocol_ops =
  op_id :: "'p \<Rightarrow> u16"
  op_peer_id :: "'p \<Rightarrow> u16"
  op_add_pipe :: "'p \<Rightarrow> ctx \<Rightarrow> endpoint_id \<Rightarrow> pipe \<Rightarrow> ('p \<times> ctx) option"
  op_remove_pipe :: "'p \<Rightarrow> ctx \<Rightarrow> endpoint_id \<Rightarrow> (pipe option \<times> 'p \<times> ctx) option"
  op_send :: "'p \<Rightarrow> ctx \<Rightarrow> message \<Rightarrow> timeout \<Rightarrow> ('p \<times> ctx) option"
  op_on_send_ack :: "'p \<Rightarrow> ctx \<Rightarrow> endpoint_id \<Rightarrow> ('p \<times> ctx) option"
  op_on_send_timeout :: "'p \<Rightarrow> ctx \<Rightarrow> ('p \<times> ctx) option"
  op_on_send_ready :: "'p \<Rightarrow> ctx \<Rightarrow> endpoint_id \<Rightarrow> ('p \<times> ctx) option"
  op_on_send_not_ready :: "'p \<Rightarrow> ctx \<Rightarrow> endpoint_id \<Rightarrow> ('p \<times> ctx) option"
  op_recv :: "'p \<Rightarrow> ctx \<Rightarrow> timeout \<Rightarrow> ('p \<times> ctx) option"
  op_on_recv_ack :: "'p \<Rightarrow> ctx \<Rightarrow> endpoint_id \<Rightarrow> message \<Rightarrow> ('p \<times> ctx) option"
  op_on_recv_timeout :: "'p \<Rightarrow> ctx \<Rightarrow> ('p \<times> ctx) option"
  op_on_recv_ready :: "'p \<Rightarrow> ctx \<Rightarrow> endpoint_id \<Rightarrow> ('p \<times> ctx) option"
  op_on_recv_not_ready :: "'p \<Rightarrow> ctx \<Rightarrow> endpoint_id \<Rightarrow> ('p \<times> ctx) option"
  op_is_send_ready :: "'p \<Rightarrow> bool"
  op_is_recv_ready :: "'p \<Rightarrow> bool"
  op_set_option :: "'p \<Rightarrow> config_option \<Rightarrow> (io_error + unit) \<times> 'p"
  op_on_timer_tick :: "'p \<Rightarrow> ctx \<Rightarrow> schedulable \<Rightarrow> ('p \<times> ctx) option"
  op_on_device_plugged :: "'p \<Rightarrow> ctx \<Rightarrow> ('p \<times> ctx) option"
  op_close :: "'p \<Rightarrow> ctx \<Rightarrow> 'p \<times> ctx"

text \<open>The default methods of the trait.\<close>

definition default_set_option :: "'p \<Rightarrow> config_option \<Rightarrow> (io_error + unit) \<times> 'p" where
  "default_set_option p opt = (Inl (invalid_input_io_error ''option not supported''), p)"

definition default_on_timer_tick :: "'p \<Rightarrow> ctx \<Rightarrow> schedulable \<Rightarrow> ('p \<times> ctx) option" where
  "default_on_timer_tick p ctx task = Some (p, ctx)"

definition default_on_device_plugged :: "'p \<Rightarrow> ctx \<Rightarrow> ('p \<times> ctx) option" where
  "default_on_device_plugged p ctx = Some (p, ctx)"

lemmas default_method_defs = default_set_option_def default_on_timer_tick_def default_on_device_plugged_def

section \<open>Commands\<close>

datatype proto_cmd =
    AddPipe endpoint_id pipe
  | RemovePipe endpoint_id
  | SendMsg message timeout
  | SendAck endpoint_id
  | SendTimedOut
  | SendReady endpoint_id
  | SendNotReady endpoint_id
  | RecvMsg timeout
  | RecvAck endpoint_id message
  | RecvTimedOut
  | RecvReady endpoint_id
  | RecvNotReady endpoint_id
  | SetOption config_option
  | TimerTick schedulable
  | DevicePlugged

fun proto_step :: "'p protocol_ops \<Rightarrow> proto_cmd \<Rightarrow> 'p \<Rightarrow> ctx \<Rightarrow> ('p \<times> ctx) option" where
  "proto_step ops (AddPipe eid pipe) p ctx = op_add_pipe ops p ctx eid pipe"
| "proto_step ops (RemovePipe eid) p ctx = do { (_, p', ctx') \<leftarrow> op_remove_pipe ops p ctx eid; Some (p', ctx') }"
| "proto_step ops (SendMsg msg t) p ctx = op_send ops p ctx msg t"
| "proto_step ops (SendAck eid) p ctx = op_on_send_ack ops p ctx eid"
| "proto_step ops SendTimedOut p ctx = op_on_send_timeout ops p ctx"
| "proto_step ops (SendReady eid) p ctx = op_on_send_ready ops p ctx eid"
| "proto_step ops (SendNotReady eid) p ctx = op_on_send_not_ready ops p ctx eid"
| "proto_step ops (RecvMsg t) p ctx = op_recv ops p ctx t"
| "proto_step ops (RecvAck eid msg) p ctx = op_on_recv_ack ops p ctx eid msg"
| "proto_step ops RecvTimedOut p ctx = op_on_recv_timeout ops p ctx"
| "proto_step ops (RecvReady eid) p ctx = op_on_recv_ready ops p ctx eid"
| "proto_step ops (RecvNotReady eid) p ctx = op_on_recv_not_ready ops p ctx eid"
| "proto_step ops (SetOption opt) p ctx = Some (snd (op_set_option ops p opt), ctx)"
| "proto_step ops (TimerTick task) p ctx = op_on_timer_tick ops p ctx task"
| "proto_step ops DevicePlugged p ctx = op_on_device_plugged ops p ctx"

fun proto_run :: "'p protocol_ops \<Rightarrow> proto_cmd list \<Rightarrow> 'p \<Rightarrow> ctx \<Rightarrow> ('p \<times> ctx) option" where
  "proto_run ops [] p ctx = Some (p, ctx)"
| "proto_run ops (cmd # cmds) p ctx = do {
     (p', ctx') \<leftarrow> proto_step ops cmd p ctx;
     proto_run ops cmds p' ctx' }"

section \<open>The contract\<close>

text \<open>
  What a socket may ask: a pipe is added once, under its own identifier, with
  priorities in the documented range; readiness is only signalled for pipes the
  protocol has. What a protocol needs besides, \<open>admits\<close>, is its own: mainly that the
  priority lists can remove a pipe (see \<open>Priolist.removable\<close>).
\<close>

definition good_pipe :: "endpoint_id \<Rightarrow> pipe \<Rightarrow> bool" where
  "good_pipe eid pipe \<longleftrightarrow> ep_id (pipe_endpoint pipe) = eid \<and>
     pipe_get_send_priority pipe \<le> 16 \<and> pipe_get_recv_priority pipe \<le> 16"

fun legal :: "('p \<Rightarrow> pipe_collection) \<Rightarrow> ('p \<Rightarrow> proto_cmd \<Rightarrow> bool) \<Rightarrow> 'p \<Rightarrow> proto_cmd \<Rightarrow> bool" where
  "legal pipes admits p (AddPipe eid pipe) \<longleftrightarrow> eid \<notin> dom (pipes p) \<and> good_pipe eid pipe"
| "legal pipes admits p (SendReady eid) \<longleftrightarrow> eid \<in> dom (pipes p)"
| "legal pipes admits p (RecvReady eid) \<longleftrightarrow> eid \<in> dom (pipes p)"
| "legal pipes admits p cmd \<longleftrightarrow> admits p cmd"

text \<open>
  What a command may do to the outside: traffic on the protocol's own pipes, timers,
  readiness events and replies; a pipe is closed only when it was just refused.
\<close>

fun proto_effect :: "endpoint_id set \<Rightarrow> proto_cmd \<Rightarrow> effect \<Rightarrow> bool" where
  "proto_effect D cmd (NetSend eid _) \<longleftrightarrow> eid \<in> D"
| "proto_effect D cmd (NetRecv eid) \<longleftrightarrow> eid \<in> D"
| "proto_effect D cmd (NetClose eid remote) \<longleftrightarrow> remote \<and> (\<exists>pipe. cmd = AddPipe eid pipe)"
| "proto_effect D cmd (Scheduling task _) \<longleftrightarrow> \<not> is_retry task"
| "proto_effect D cmd (Cancel _) \<longleftrightarrow> True"
| "proto_effect D cmd (Raise evt) \<longleftrightarrow> evt \<noteq> Closed"
| "proto_effect D cmd (Reply _) \<longleftrightarrow> True"
| "proto_effect D cmd _ \<longleftrightarrow> False"

text \<open>How the set of pipes moves.\<close>

fun pipes_moved :: "proto_cmd \<Rightarrow> pipe_collection \<Rightarrow> effect list \<Rightarrow> pipe_collection \<Rightarrow> bool" where
  "pipes_moved (AddPipe eid pipe) ps es ps' \<longleftrightarrow>
     ps' = ps(eid \<mapsto> pipe) \<and> NetClose eid True \<notin> set es \<or> ps' = ps \<and> NetClose eid True \<in> set es"
| "pipes_moved (RemovePipe eid) ps es ps' \<longleftrightarrow> ps' = ps(eid := None)"
| "pipes_moved _ ps es ps' \<longleftrightarrow> ps' = ps"

text \<open>The readiness known to a listener is the readiness of the protocol.\<close>

definition tracked :: "'p protocol_ops \<Rightarrow> 'p \<Rightarrow> ctx \<Rightarrow> bool" where
  "tracked ops p ctx \<longleftrightarrow>
     seen_send (trace ctx) False = op_is_send_ready ops p \<and>
     seen_recv (trace ctx) False = op_is_recv_ready ops p"

definition added :: "ctx \<Rightarrow> ctx \<Rightarrow> effect list" where
  "added ctx ctx' = drop (length (trace ctx)) (trace ctx')"

lemma added_emits: "emits P ctx ctx' \<Longrightarrow> trace ctx' = trace ctx @ added ctx ctx'"
  by (auto simp: emits_def added_def)

definition step_ok ::
  "'p protocol_ops \<Rightarrow> ('p \<Rightarrow> bool) \<Rightarrow> ('p \<Rightarrow> pipe_collection) \<Rightarrow> proto_cmd \<Rightarrow> 'p \<Rightarrow> ctx \<Rightarrow> 'p \<Rightarrow> ctx \<Rightarrow> bool" where
  "step_ok ops good pipes cmd p ctx p' ctx' \<longleftrightarrow>
     good p' \<and> emits (proto_effect (dom (pipes p')) cmd) ctx ctx' \<and>
     pipes_moved cmd (pipes p) (added ctx ctx') (pipes p') \<and>
     (cmd \<noteq> DevicePlugged \<longrightarrow> tracked ops p ctx \<longrightarrow> tracked ops p' ctx')"

locale protocol =
  fixes ops :: "'p protocol_ops"
    and good :: "'p \<Rightarrow> bool"
    and pipes :: "'p \<Rightarrow> pipe_collection"
    and admits :: "'p \<Rightarrow> proto_cmd \<Rightarrow> bool"
  assumes step_law: "\<lbrakk>good p; legal pipes admits p cmd; enumerates (hash_order (env ctx))\<rbrakk> \<Longrightarrow>
      runs (proto_step ops cmd p ctx) (\<lambda>(p', ctx'). step_ok ops good pipes cmd p ctx p' ctx')"
    and remove_law: "\<lbrakk>good p; admits p (RemovePipe eid); enumerates (hash_order (env ctx))\<rbrakk> \<Longrightarrow>
      runs (op_remove_pipe ops p ctx eid) (\<lambda>(r, _). r = pipes p eid)"
    and close_law: "\<lbrakk>good p; enumerates (hash_order (env ctx))\<rbrakk> \<Longrightarrow>
      \<exists>p' es. op_close ops p ctx = (p', ctx\<lparr>trace := trace ctx @ map (\<lambda>eid. NetClose eid True) es\<rparr>) \<and>
        set es = dom (pipes p) \<and> distinct es \<and> pipes p' = Map.empty"
    and good_pipes: "good p \<Longrightarrow> pipes_ok (pipes p)"

section \<open>Requests and replies\<close>

text \<open>
  The facade sends one request at a time and waits for its reply; a timer fires only
  while its request is pending. Under this discipline a protocol answers every
  request exactly once, as long as the messages it receives are \<open>clean\<close>.
\<close>

fun is_request :: "proto_cmd \<Rightarrow> bool" where
  "is_request (SendMsg _ _) \<longleftrightarrow> True"
| "is_request (RecvMsg _) \<longleftrightarrow> True"
| "is_request _ \<longleftrightarrow> False"

fun in_turn :: "('p \<Rightarrow> bool) \<Rightarrow> ('p \<Rightarrow> bool) \<Rightarrow> 'p \<Rightarrow> proto_cmd \<Rightarrow> bool" where
  "in_turn sending receiving p (SendMsg _ _) \<longleftrightarrow> \<not> sending p \<and> \<not> receiving p"
| "in_turn sending receiving p (RecvMsg _) \<longleftrightarrow> \<not> sending p \<and> \<not> receiving p"
| "in_turn sending receiving p SendTimedOut \<longleftrightarrow> sending p"
| "in_turn sending receiving p RecvTimedOut \<longleftrightarrow> receiving p"
| "in_turn sending receiving p _ \<longleftrightarrow> True"

definition outstanding :: "('p \<Rightarrow> bool) \<Rightarrow> ('p \<Rightarrow> bool) \<Rightarrow> 'p \<Rightarrow> nat" where
  "outstanding sending receiving p = of_bool (sending p \<or> receiving p)"

definition count_replies :: "effect list \<Rightarrow> nat" where
  "count_replies es = length (replies es)"

lemma count_replies_simps [simp]:
  "count_replies [] = 0"
  "count_replies (e # es) = (case e of Reply r \<Rightarrow> Suc (count_replies es) | _ \<Rightarrow> count_replies es)"
  "count_replies (xs @ ys) = count_replies xs + count_replies ys"
  by (simp_all add: count_replies_def split: effect.splits)

locale answering_protocol = protocol ops good pipes admits
  for ops :: "'p protocol_ops"
    and good :: "'p \<Rightarrow> bool"
    and pipes :: "'p \<Rightarrow> pipe_collection"
    and admits :: "'p \<Rightarrow> proto_cmd \<Rightarrow> bool" +
  fixes sending :: "'p \<Rightarrow> bool"
    and receiving :: "'p \<Rightarrow> bool"
    and clean :: "'p \<Rightarrow> proto_cmd \<Rightarrow> bool"
  assumes answer_law: "\<lbrakk>good p; legal pipes admits p cmd; enumerates (hash_order (env ctx));
      in_turn sending receiving p cmd; clean p cmd\<rbrakk> \<Longrightarrow>
      runs (proto_step ops cmd p ctx) (\<lambda>(p', ctx').
        count_replies (trace ctx') + outstanding sending receiving p' =
        count_replies (trace ctx) + outstanding sending receiving p + of_bool (is_request cmd))"

text \<open>A sequence of commands each of which satisfies \<open>ok\<close> when it is issued.\<close>

fun cmds_ok ::
  "'p protocol_ops \<Rightarrow> ('p \<Rightarrow> proto_cmd \<Rightarrow> bool) \<Rightarrow> proto_cmd list \<Rightarrow> 'p \<Rightarrow> ctx \<Rightarrow> bool" where
  "cmds_ok ops ok [] p ctx \<longleftrightarrow> True"
| "cmds_ok ops ok (cmd # cmds) p ctx \<longleftrightarrow> ok p cmd \<and>
     (case proto_step ops cmd p ctx of
        Some (p', ctx') \<Rightarrow> cmds_ok ops ok cmds p' ctx'
      | None \<Rightarrow> True)"

definition disciplined ::
  "('p \<Rightarrow> pipe_collection) \<Rightarrow> ('p \<Rightarrow> proto_cmd \<Rightarrow> bool) \<Rightarrow> ('p \<Rightarrow> bool) \<Rightarrow> ('p \<Rightarrow> bool) \<Rightarrow>
   ('p \<Rightarrow> proto_cmd \<Rightarrow> bool) \<Rightarrow> 'p \<Rightarrow> proto_cmd \<Rightarrow> bool" where
  "disciplined pipes admits sending receiving clean p cmd \<longleftrightarrow>
     legal pipes admits p cmd \<and> in_turn sending receiving p cmd \<and> clean p cmd \<and> cmd \<noteq> DevicePlugged"

context answering_protocol
begin

text \<open>
  A disciplined sequence of commands runs to its end; the invariant holds, the
  listeners know the protocol's readiness, and there are as many replies as requests,
  less the one outstanding.
\<close>

lemma run_contract:
  assumes "good p" and "tracked ops p ctx" and "enumerates (hash_order (env ctx))"
    and "cmds_ok ops (disciplined pipes admits sending receiving clean) cmds p ctx"
  shows "runs (proto_run ops cmds p ctx) (\<lambda>(p', ctx'). good p' \<and> tracked ops p' ctx' \<and>
    count_replies (trace ctx') + outstanding sending receiving p' =
    count_replies (trace ctx) + outstanding sending receiving p + length (filter is_request cmds))"
  using assms
proof (induction cmds arbitrary: p ctx)
  case (Cons cmd cmds)
  then have ok: "legal pipes admits p cmd" "in_turn sending receiving p cmd" "clean p cmd" "cmd \<noteq> DevicePlugged"
    by (auto simp: disciplined_def)
  obtain p' ctx' where step: "proto_step ops cmd p ctx = Some (p', ctx')"
    "step_ok ops good pipes cmd p ctx p' ctx'"
    using step_law [OF Cons.prems(1) ok(1) Cons.prems(3)] by (auto elim!: runsE)
  have count: "count_replies (trace ctx') + outstanding sending receiving p' =
      count_replies (trace ctx) + outstanding sending receiving p + of_bool (is_request cmd)"
    using answer_law [OF Cons.prems(1) ok(1) Cons.prems(3) ok(2,3)] step(1) by simp
  have "good p'" "tracked ops p' ctx'" "env ctx' = env ctx"
    using step(2) ok(4) Cons.prems(2) by (auto simp: step_ok_def emits_def)
  with Cons step(1) have "runs (proto_run ops cmds p' ctx') (\<lambda>(p'', ctx''). good p'' \<and> tracked ops p'' ctx'' \<and>
      count_replies (trace ctx'') + outstanding sending receiving p'' =
      count_replies (trace ctx') + outstanding sending receiving p' + length (filter is_request cmds))"
    by simp
  then show ?case using step(1) count by (auto elim!: runs_mono)
qed simp

end

section \<open>Readiness events\<close>

text \<open>What the two checks of \<open>apply\<close> leave a listener with.\<close>

lemma seen_check [simp]:
  "seen_send (trace ctx) r = was \<Longrightarrow> seen_send (trace (check_send_ready_change ctx was now)) r = now"
  "seen_recv (trace (check_send_ready_change ctx was now)) r = seen_recv (trace ctx) r"
  "seen_recv (trace ctx) r = was \<Longrightarrow> seen_recv (trace (check_recv_ready_change ctx was now)) r = now"
  "seen_send (trace (check_recv_ready_change ctx was now)) r = seen_send (trace ctx) r"
  by (auto simp: context_call_defs)

lemma emits_check [emits_intros]:
  "emits P ctx ctx' \<Longrightarrow> P (Raise (CanSend now)) \<Longrightarrow> emits P ctx (check_send_ready_change ctx' was now)"
  "emits P ctx ctx' \<Longrightarrow> P (Raise (CanRecv now)) \<Longrightarrow> emits P ctx (check_recv_ready_change ctx' was now)"
  by (simp_all add: context_call_defs emits_emit)

lemma count_check [simp]:
  "count_replies (trace (check_send_ready_change ctx was now)) = count_replies (trace ctx)"
  "count_replies (trace (check_recv_ready_change ctx was now)) = count_replies (trace ctx)"
  by (simp_all add: context_call_defs)

lemma env_check [simp]:
  "env (check_send_ready_change ctx was now) = env ctx"
  "env (check_recv_ready_change ctx was now) = env ctx"
  by (simp_all add: context_call_defs)

lemma quiet_proto_effect: "quiet_on D e \<Longrightarrow> proto_effect D cmd e"
  by (cases e) auto

lemma emits_quiet: "emits (quiet_on D) ctx ctx' \<Longrightarrow> emits (proto_effect D cmd) ctx ctx'"
  by (erule emits_mono) (rule quiet_proto_effect)

end
