(* ===== verification/Core_Socket.thy ===== *)
theory Core_Socket
  imports Protocol_Spec
begin

text \<open>
  The socket of \<open>src/core/socket.rs\<close>: it owns the pipes that are being opened and the
  acceptors, hands opened pipes over to its protocol, schedules reconnections, arms the
  timeouts of the user's requests and forwards everything else to the protocol. The
  definitions take the protocol as its record of methods; the lemmas are proved in the
  locale of the contract, for every protocol that satisfies it.
\<close>

section \<open>Data\<close>

datatype socket_request =
    RequestConnect string
  | RequestBind string
  | RequestSend message bool
  | RequestRecv bool
  | RequestSetOption config_option
  | RequestClose

record 'p socket =
  sock_id :: socket_id
  sock_protocol :: 'p
  sock_pipes :: pipe_collection
  sock_acceptors :: "endpoint_id \<rightharpoonup> acceptor"
  sock_config :: config

definition socket_new :: "socket_id \<Rightarrow> 'p \<Rightarrow> 'p socket" where
  "socket_new sid proto = \<lparr>sock_id = sid, sock_protocol = proto, sock_pipes = Map.empty,
     sock_acceptors = Map.empty, sock_config = config_default\<rparr>"

definition get_protocol_ids :: "'p protocol_ops \<Rightarrow> 'p socket \<Rightarrow> u16 \<times> u16" where
  "get_protocol_ids ops s = (op_id ops (sock_protocol s), op_peer_id ops (sock_protocol s))"

definition socket_poll :: "'p protocol_ops \<Rightarrow> 'p socket \<Rightarrow> ctx \<Rightarrow> ctx" where
  "socket_poll ops s ctx =
     raise_evt (raise_evt ctx (CanRecv (op_is_recv_ready ops (sock_protocol s))))
       (CanSend (op_is_send_ready ops (sock_protocol s)))"

text \<open>Running a method of the protocol.\<close>

definition with_protocol :: "'p socket \<Rightarrow> ('p \<Rightarrow> ('p \<times> ctx) option) \<Rightarrow> ('p socket \<times> ctx) option" where
  "with_protocol s f = do { (p, ctx) \<leftarrow> f (sock_protocol s); Some (s\<lparr>sock_protocol := p\<rparr>, ctx) }"

section \<open>Endpoint creation\<close>

definition create_endpoint_desc :: "'p socket \<Rightarrow> endpoint_desc" where
  "create_endpoint_desc s = \<lparr>send_priority = cfg_send_priority (sock_config s),
     recv_priority = cfg_recv_priority (sock_config s), tcp_no_delay = cfg_tcp_no_delay (sock_config s),
     recv_max_size = cfg_recv_max_size (sock_config s)\<rparr>"

definition create_endpoint_spec :: "'p socket \<Rightarrow> string \<Rightarrow> endpoint_spec" where
  "create_endpoint_spec s url = \<lparr>spec_url = url, spec_desc = create_endpoint_desc s\<rparr>"

definition create_endpoint_tmpl :: "'p protocol_ops \<Rightarrow> 'p socket \<Rightarrow> string \<Rightarrow> endpoint_tmpl" where
  "create_endpoint_tmpl ops s url = \<lparr>pids = get_protocol_ids ops s, tmpl_spec = create_endpoint_spec s url\<rparr>"

section \<open>Pipes\<close>

definition connect_pipe :: "endpoint_id \<Rightarrow> endpoint_spec \<Rightarrow> pipe" where
  "connect_pipe eid spec = pipe_from_spec eid spec"

definition accept_pipe :: "'p socket \<Rightarrow> endpoint_id \<Rightarrow> endpoint_id \<Rightarrow> pipe" where
  "accept_pipe s aid eid =
     (let (send_prio, recv_prio) =
        (case sock_acceptors s aid of
           Some acceptor \<Rightarrow> (acceptor_get_send_priority acceptor, acceptor_get_recv_priority acceptor)
         | None \<Rightarrow> (cfg_send_priority (sock_config s), cfg_recv_priority (sock_config s)));
          desc = \<lparr>send_priority = send_prio, recv_priority = recv_prio,
            tcp_no_delay = cfg_tcp_no_delay (sock_config s), recv_max_size = cfg_recv_max_size (sock_config s)\<rparr>
      in pipe_new_accepted eid desc)"

definition insert_pipe :: "'p socket \<Rightarrow> ctx \<Rightarrow> endpoint_id \<Rightarrow> pipe \<Rightarrow> 'p socket \<times> ctx" where
  "insert_pipe s ctx eid pipe = (s\<lparr>sock_pipes := (sock_pipes s)(eid \<mapsto> pipe)\<rparr>, pipe_open pipe ctx)"

definition socket_remove_pipe ::
  "'p protocol_ops \<Rightarrow> 'p socket \<Rightarrow> ctx \<Rightarrow> endpoint_id \<Rightarrow> (endpoint_spec option \<times> 'p socket \<times> ctx) option" where
  "socket_remove_pipe ops s ctx eid =
     (case sock_pipes s eid of
        Some pipe \<Rightarrow>
          (let (spec, ctx') = pipe_close pipe ctx
           in Some (spec, s\<lparr>sock_pipes := (sock_pipes s)(eid := None)\<rparr>, ctx'))
      | None \<Rightarrow> do {
          (r, p, ctx') \<leftarrow> op_remove_pipe ops (sock_protocol s) ctx eid;
          let s' = s\<lparr>sock_protocol := p\<rparr>;
          (case r of
             Some pipe \<Rightarrow> (let (spec, ctx'') = pipe_close pipe ctx' in Some (spec, s', ctx''))
           | None \<Rightarrow> Some (None, s', ctx')) })"

section \<open>Connect\<close>

definition on_connect_success :: "'p socket \<Rightarrow> ctx \<Rightarrow> endpoint_id \<Rightarrow> endpoint_spec \<Rightarrow> 'p socket \<times> ctx" where
  "on_connect_success s ctx eid spec =
     (let (s', ctx') = insert_pipe s ctx eid (connect_pipe eid spec) in (s', send_reply ctx' (ReplyConnect eid)))"

definition on_connect_error :: "ctx \<Rightarrow> io_error \<Rightarrow> ctx" where
  "on_connect_error ctx err = send_reply ctx (ReplyErr err)"

definition socket_connect :: "'p protocol_ops \<Rightarrow> 'p socket \<Rightarrow> ctx \<Rightarrow> string \<Rightarrow> 'p socket \<times> ctx" where
  "socket_connect ops s ctx url =
     (let tmpl = create_endpoint_tmpl ops s url
      in (case net_connect ctx (sock_id s) tmpl of
            (Inr eid, ctx') \<Rightarrow> on_connect_success s ctx' eid (tmpl_spec tmpl)
          | (Inl e, ctx') \<Rightarrow> (s, on_connect_error ctx' e)))"

definition schedule_reconnect :: "'p socket \<Rightarrow> ctx \<Rightarrow> endpoint_id \<Rightarrow> endpoint_spec \<Rightarrow> ctx" where
  "schedule_reconnect s ctx eid spec = snd (schedule ctx (Reconnect eid spec) (cfg_retry_ivl (sock_config s)))"

definition on_reconnect_success :: "'p socket \<Rightarrow> ctx \<Rightarrow> endpoint_id \<Rightarrow> endpoint_spec \<Rightarrow> 'p socket \<times> ctx" where
  "on_reconnect_success s ctx eid spec = insert_pipe s ctx eid (pipe_from_spec eid spec)"

definition on_reconnect_error :: "'p socket \<Rightarrow> ctx \<Rightarrow> endpoint_id \<Rightarrow> endpoint_spec \<Rightarrow> ctx" where
  "on_reconnect_error s ctx eid spec = schedule_reconnect s ctx eid spec"

definition socket_reconnect :: "'p protocol_ops \<Rightarrow> 'p socket \<Rightarrow> ctx \<Rightarrow> endpoint_id \<Rightarrow> endpoint_spec \<Rightarrow> 'p socket \<times> ctx" where
  "socket_reconnect ops s ctx eid spec =
     (let tmpl = \<lparr>pids = get_protocol_ids ops s, tmpl_spec = spec\<rparr>
      in (case net_reconnect ctx (sock_id s) eid tmpl of
            (None, ctx') \<Rightarrow> on_reconnect_success s ctx' eid (tmpl_spec tmpl)
          | (Some _, ctx') \<Rightarrow> (s, on_reconnect_error s ctx' eid (tmpl_spec tmpl))))"

section \<open>Bind\<close>

definition connect_acceptor :: "endpoint_id \<Rightarrow> endpoint_spec \<Rightarrow> acceptor" where
  "connect_acceptor eid spec = acceptor_from_spec eid spec"

definition insert_acceptor :: "'p socket \<Rightarrow> ctx \<Rightarrow> endpoint_id \<Rightarrow> acceptor \<Rightarrow> 'p socket \<times> ctx" where
  "insert_acceptor s ctx eid acceptor =
     (s\<lparr>sock_acceptors := (sock_acceptors s)(eid \<mapsto> acceptor)\<rparr>, acceptor_open acceptor ctx)"

definition remove_acceptor :: "'p socket \<Rightarrow> ctx \<Rightarrow> endpoint_id \<Rightarrow> endpoint_spec option \<times> 'p socket \<times> ctx" where
  "remove_acceptor s ctx eid =
     (case sock_acceptors s eid of
        None \<Rightarrow> (None, s, ctx)
      | Some acceptor \<Rightarrow>
          (let (spec, ctx') = acceptor_close acceptor ctx
           in (spec, s\<lparr>sock_acceptors := (sock_acceptors s)(eid := None)\<rparr>, ctx')))"

definition on_bind_success :: "'p socket \<Rightarrow> ctx \<Rightarrow> endpoint_id \<Rightarrow> endpoint_spec \<Rightarrow> 'p socket \<times> ctx" where
  "on_bind_success s ctx eid spec =
     (let acceptor = connect_acceptor eid spec;
          ctx' = acceptor_open acceptor ctx
      in (s\<lparr>sock_acceptors := (sock_acceptors s)(eid \<mapsto> acceptor)\<rparr>, send_reply ctx' (ReplyBind eid)))"

definition on_bind_error :: "ctx \<Rightarrow> io_error \<Rightarrow> ctx" where
  "on_bind_error ctx err = send_reply ctx (ReplyErr err)"

definition socket_bind :: "'p protocol_ops \<Rightarrow> 'p socket \<Rightarrow> ctx \<Rightarrow> string \<Rightarrow> 'p socket \<times> ctx" where
  "socket_bind ops s ctx url =
     (let tmpl = create_endpoint_tmpl ops s url
      in (case net_bind ctx (sock_id s) tmpl of
            (Inr eid, ctx') \<Rightarrow> on_bind_success s ctx' eid (tmpl_spec tmpl)
          | (Inl e, ctx') \<Rightarrow> (s, on_bind_error ctx' e)))"

definition schedule_rebind :: "'p socket \<Rightarrow> ctx \<Rightarrow> endpoint_id \<Rightarrow> endpoint_spec \<Rightarrow> ctx" where
  "schedule_rebind s ctx eid spec = snd (schedule ctx (Rebind eid spec) (cfg_retry_ivl (sock_config s)))"

definition on_rebind_success :: "'p socket \<Rightarrow> ctx \<Rightarrow> endpoint_id \<Rightarrow> endpoint_spec \<Rightarrow> 'p socket \<times> ctx" where
  "on_rebind_success s ctx eid spec = insert_acceptor s ctx eid (acceptor_from_spec eid spec)"

definition on_rebind_error :: "'p socket \<Rightarrow> ctx \<Rightarrow> endpoint_id \<Rightarrow> endpoint_spec \<Rightarrow> ctx" where
  "on_rebind_error s ctx eid spec = schedule_rebind s ctx eid spec"

definition socket_rebind :: "'p protocol_ops \<Rightarrow> 'p socket \<Rightarrow> ctx \<Rightarrow> endpoint_id \<Rightarrow> endpoint_spec \<Rightarrow> 'p socket \<times> ctx" where
  "socket_rebind ops s ctx eid spec =
     (let tmpl = \<lparr>pids = get_protocol_ids ops s, tmpl_spec = spec\<rparr>
      in (case net_rebind ctx (sock_id s) eid tmpl of
            (None, ctx') \<Rightarrow> on_rebind_success s ctx' eid (tmpl_spec tmpl)
          | (Some _, ctx') \<Rightarrow> (s, on_rebind_error s ctx' eid (tmpl_spec tmpl))))"

section \<open>Pipe and acceptor events\<close>

definition socket_on_pipe_opened :: "'p protocol_ops \<Rightarrow> 'p socket \<Rightarrow> ctx \<Rightarrow> endpoint_id \<Rightarrow> ('p socket \<times> ctx) option" where
  "socket_on_pipe_opened ops s ctx eid =
     (case sock_pipes s eid of
        Some pipe \<Rightarrow>
          with_protocol (s\<lparr>sock_pipes := (sock_pipes s)(eid := None)\<rparr>) (\<lambda>p. op_add_pipe ops p ctx eid pipe)
      | None \<Rightarrow> Some (s, ctx))"

definition socket_on_pipe_accepted :: "'p socket \<Rightarrow> ctx \<Rightarrow> endpoint_id \<Rightarrow> endpoint_id \<Rightarrow> 'p socket \<times> ctx" where
  "socket_on_pipe_accepted s ctx aid eid = insert_pipe s ctx eid (accept_pipe s aid eid)"

definition close_pipe :: "'p protocol_ops \<Rightarrow> 'p socket \<Rightarrow> ctx \<Rightarrow> endpoint_id \<Rightarrow> ('p socket \<times> ctx) option" where
  "close_pipe ops s ctx eid = do { (_, s', ctx') \<leftarrow> socket_remove_pipe ops s ctx eid; Some (s', ctx') }"

definition socket_on_pipe_error :: "'p protocol_ops \<Rightarrow> 'p socket \<Rightarrow> ctx \<Rightarrow> endpoint_id \<Rightarrow> ('p socket \<times> ctx) option" where
  "socket_on_pipe_error ops s ctx eid = do {
     (r, s', ctx') \<leftarrow> socket_remove_pipe ops s ctx eid;
     (case r of
        Some spec \<Rightarrow> Some (s', schedule_reconnect s' ctx' eid spec)
      | None \<Rightarrow> Some (s', ctx')) }"

definition socket_on_acceptor_error :: "'p socket \<Rightarrow> ctx \<Rightarrow> endpoint_id \<Rightarrow> 'p socket \<times> ctx" where
  "socket_on_acceptor_error s ctx eid =
     (case remove_acceptor s ctx eid of
        (Some spec, s', ctx') \<Rightarrow> (s', schedule_rebind s' ctx' eid spec)
      | (None, s', ctx') \<Rightarrow> (s', ctx'))"

definition close_acceptor :: "'p socket \<Rightarrow> ctx \<Rightarrow> endpoint_id \<Rightarrow> 'p socket \<times> ctx" where
  "close_acceptor s ctx eid = (let (_, s', ctx') = remove_acceptor s ctx eid in (s', ctx'))"

section \<open>Send and recv\<close>

definition get_send_timeout :: "'p socket \<Rightarrow> duration option" where
  "get_send_timeout s = cfg_send_timeout (sock_config s)"

definition get_recv_timeout :: "'p socket \<Rightarrow> duration option" where
  "get_recv_timeout s = cfg_recv_timeout (sock_config s)"

definition socket_send :: "'p protocol_ops \<Rightarrow> 'p socket \<Rightarrow> ctx \<Rightarrow> message \<Rightarrow> ('p socket \<times> ctx) option" where
  "socket_send ops s ctx msg =
     (case get_send_timeout s of
        Some delay \<Rightarrow>
          (case schedule ctx SendTimeout delay of
             (Inr timeout, ctx') \<Rightarrow> with_protocol s (\<lambda>p. op_send ops p ctx' msg (Some timeout))
           | (Inl e, ctx') \<Rightarrow> Some (s, send_reply ctx' (ReplyErr e)))
      | None \<Rightarrow> with_protocol s (\<lambda>p. op_send ops p ctx msg None))"

definition socket_try_send :: "'p protocol_ops \<Rightarrow> 'p socket \<Rightarrow> ctx \<Rightarrow> message \<Rightarrow> ('p socket \<times> ctx) option" where
  "socket_try_send ops s ctx msg =
     (if op_is_send_ready ops (sock_protocol s) then with_protocol s (\<lambda>p. op_send ops p ctx msg None)
      else Some (s, send_reply ctx (ReplyErr (would_block_io_error ''socket is not send ready''))))"

definition socket_on_send_ack :: "'p protocol_ops \<Rightarrow> 'p socket \<Rightarrow> ctx \<Rightarrow> endpoint_id \<Rightarrow> ('p socket \<times> ctx) option" where
  "socket_on_send_ack ops s ctx eid = with_protocol s (\<lambda>p. op_on_send_ack ops p ctx eid)"

definition socket_on_send_timeout :: "'p protocol_ops \<Rightarrow> 'p socket \<Rightarrow> ctx \<Rightarrow> ('p socket \<times> ctx) option" where
  "socket_on_send_timeout ops s ctx = with_protocol s (\<lambda>p. op_on_send_timeout ops p ctx)"

definition socket_on_send_ready :: "'p protocol_ops \<Rightarrow> 'p socket \<Rightarrow> ctx \<Rightarrow> endpoint_id \<Rightarrow> bool \<Rightarrow> ('p socket \<times> ctx) option" where
  "socket_on_send_ready ops s ctx eid rdy =
     (if rdy then with_protocol s (\<lambda>p. op_on_send_ready ops p ctx eid)
      else with_protocol s (\<lambda>p. op_on_send_not_ready ops p ctx eid))"

definition socket_recv :: "'p protocol_ops \<Rightarrow> 'p socket \<Rightarrow> ctx \<Rightarrow> ('p socket \<times> ctx) option" where
  "socket_recv ops s ctx =
     (case get_recv_timeout s of
        Some delay \<Rightarrow>
          (case schedule ctx RecvTimeout delay of
             (Inr timeout, ctx') \<Rightarrow> with_protocol s (\<lambda>p. op_recv ops p ctx' (Some timeout))
           | (Inl e, ctx') \<Rightarrow> Some (s, send_reply ctx' (ReplyErr e)))
      | None \<Rightarrow> with_protocol s (\<lambda>p. op_recv ops p ctx None))"

definition socket_try_recv :: "'p protocol_ops \<Rightarrow> 'p socket \<Rightarrow> ctx \<Rightarrow> ('p socket \<times> ctx) option" where
  "socket_try_recv ops s ctx =
     (if op_is_recv_ready ops (sock_protocol s) then with_protocol s (\<lambda>p. op_recv ops p ctx None)
      else Some (s, send_reply ctx (ReplyErr (would_block_io_error ''socket is not recv ready''))))"

definition socket_on_recv_ack :: "'p protocol_ops \<Rightarrow> 'p socket \<Rightarrow> ctx \<Rightarrow> endpoint_id \<Rightarrow> message \<Rightarrow> ('p socket \<times> ctx) option" where
  "socket_on_recv_ack ops s ctx eid msg = with_protocol s (\<lambda>p. op_on_recv_ack ops p ctx eid msg)"

definition socket_on_recv_timeout :: "'p protocol_ops \<Rightarrow> 'p socket \<Rightarrow> ctx \<Rightarrow> ('p socket \<times> ctx) option" where
  "socket_on_recv_timeout ops s ctx = with_protocol s (\<lambda>p. op_on_recv_timeout ops p ctx)"

definition socket_on_recv_ready :: "'p protocol_ops \<Rightarrow> 'p socket \<Rightarrow> ctx \<Rightarrow> endpoint_id \<Rightarrow> bool \<Rightarrow> ('p socket \<times> ctx) option" where
  "socket_on_recv_ready ops s ctx eid rdy =
     (if rdy then with_protocol s (\<lambda>p. op_on_recv_ready ops p ctx eid)
      else with_protocol s (\<lambda>p. op_on_recv_not_ready ops p ctx eid))"

section \<open>Options, timers, device, close\<close>

definition socket_set_option :: "'p protocol_ops \<Rightarrow> 'p socket \<Rightarrow> ctx \<Rightarrow> config_option \<Rightarrow> 'p socket \<times> ctx" where
  "socket_set_option ops s ctx opt =
     (let (res, s') =
        (if is_generic opt then
           (case config_set (sock_config s) opt of
              Inr cfg \<Rightarrow> (Inr (), s\<lparr>sock_config := cfg\<rparr>)
            | Inl e \<Rightarrow> (Inl e, s))
         else (let (res, p) = op_set_option ops (sock_protocol s) opt in (res, s\<lparr>sock_protocol := p\<rparr>)));
          r = (case res of Inr () \<Rightarrow> ReplySetOption | Inl e \<Rightarrow> ReplyErr e)
      in (s', send_reply ctx r))"

definition socket_on_timer_tick :: "'p protocol_ops \<Rightarrow> 'p socket \<Rightarrow> ctx \<Rightarrow> schedulable \<Rightarrow> ('p socket \<times> ctx) option" where
  "socket_on_timer_tick ops s ctx task = with_protocol s (\<lambda>p. op_on_timer_tick ops p ctx task)"

definition socket_on_device_plugged :: "'p protocol_ops \<Rightarrow> 'p socket \<Rightarrow> ctx \<Rightarrow> ('p socket \<times> ctx) option" where
  "socket_on_device_plugged ops s ctx = with_protocol s (\<lambda>p. op_on_device_plugged ops p ctx)"

fun close_acceptors :: "(endpoint_id \<rightharpoonup> acceptor) \<Rightarrow> endpoint_id list \<Rightarrow> ctx \<Rightarrow> ctx" where
  "close_acceptors as [] ctx = ctx"
| "close_acceptors as (eid # eids) ctx =
     close_acceptors as eids (case as eid of None \<Rightarrow> ctx | Some a \<Rightarrow> snd (acceptor_close a ctx))"

definition socket_close :: "'p protocol_ops \<Rightarrow> 'p socket \<Rightarrow> ctx \<Rightarrow> 'p socket \<times> ctx" where
  "socket_close ops s ctx =
     (let ctx1 = close_each (sock_pipes s) (hash_order (env ctx) (dom (sock_pipes s))) ctx;
          ctx2 = close_acceptors (sock_acceptors s) (hash_order (env ctx) (dom (sock_acceptors s))) ctx1;
          (p, ctx3) = op_close ops (sock_protocol s) ctx2
      in (s\<lparr>sock_pipes := Map.empty, sock_acceptors := Map.empty, sock_protocol := p\<rparr>, raise_evt ctx3 Closed))"

section \<open>Commands\<close>

text \<open>One command per public method, as the session and the event loop call them.\<close>

datatype socket_cmd =
    SConnect string
  | SReconnect endpoint_id endpoint_spec
  | SBind string
  | SRebind endpoint_id endpoint_spec
  | SPipeOpened endpoint_id
  | SPipeAccepted endpoint_id endpoint_id
  | SClosePipe endpoint_id
  | SPipeError endpoint_id
  | SAcceptorError endpoint_id
  | SCloseAcceptor endpoint_id
  | SSend message
  | STrySend message
  | SSendAck endpoint_id
  | SSendTimeout
  | SSendReady endpoint_id bool
  | SRecv
  | STryRecv
  | SRecvAck endpoint_id message
  | SRecvTimeout
  | SRecvReady endpoint_id bool
  | SSetOption config_option
  | STimerTick schedulable
  | SDevicePlugged
  | SPoll

fun socket_step :: "'p protocol_ops \<Rightarrow> socket_cmd \<Rightarrow> 'p socket \<Rightarrow> ctx \<Rightarrow> ('p socket \<times> ctx) option" where
  "socket_step ops (SConnect url) s ctx = Some (socket_connect ops s ctx url)"
| "socket_step ops (SReconnect eid spec) s ctx = Some (socket_reconnect ops s ctx eid spec)"
| "socket_step ops (SBind url) s ctx = Some (socket_bind ops s ctx url)"
| "socket_step ops (SRebind eid spec) s ctx = Some (socket_rebind ops s ctx eid spec)"
| "socket_step ops (SPipeOpened eid) s ctx = socket_on_pipe_opened ops s ctx eid"
| "socket_step ops (SPipeAccepted aid eid) s ctx = Some (socket_on_pipe_accepted s ctx aid eid)"
| "socket_step ops (SClosePipe eid) s ctx = close_pipe ops s ctx eid"
| "socket_step ops (SPipeError eid) s ctx = socket_on_pipe_error ops s ctx eid"
| "socket_step ops (SAcceptorError eid) s ctx = Some (socket_on_acceptor_error s ctx eid)"
| "socket_step ops (SCloseAcceptor eid) s ctx = Some (close_acceptor s ctx eid)"
| "socket_step ops (SSend msg) s ctx = socket_send ops s ctx msg"
| "socket_step ops (STrySend msg) s ctx = socket_try_send ops s ctx msg"
| "socket_step ops (SSendAck eid) s ctx = socket_on_send_ack ops s ctx eid"
| "socket_step ops SSendTimeout s ctx = socket_on_send_timeout ops s ctx"
| "socket_step ops (SSendReady eid rdy) s ctx = socket_on_send_ready ops s ctx eid rdy"
| "socket_step ops SRecv s ctx = socket_recv ops s ctx"
| "socket_step ops STryRecv s ctx = socket_try_recv ops s ctx"
| "socket_step ops (SRecvAck eid msg) s ctx = socket_on_recv_ack ops s ctx eid msg"
| "socket_step ops SRecvTimeout s ctx = socket_on_recv_timeout ops s ctx"
| "socket_step ops (SRecvReady eid rdy) s ctx = socket_on_recv_ready ops s ctx eid rdy"
| "socket_step ops (SSetOption opt) s ctx = Some (socket_set_option ops s ctx opt)"
| "socket_step ops (STimerTick task) s ctx = socket_on_timer_tick ops s ctx task"
| "socket_step ops SDevicePlugged s ctx = socket_on_device_plugged ops s ctx"
| "socket_step ops SPoll s ctx = Some (s, socket_poll ops s ctx)"

section \<open>Invariant\<close>

text \<open>
  A pipe belongs either to the socket (while it is being opened) or to the protocol,
  never to both; endpoints are stored under their own identifiers; every priority is
  in the documented range.
\<close>

definition good_desc :: "endpoint_desc \<Rightarrow> bool" where
  "good_desc desc \<longleftrightarrow> send_priority desc \<le> 16 \<and> recv_priority desc \<le> 16"

definition good_acceptor :: "endpoint_id \<Rightarrow> acceptor \<Rightarrow> bool" where
  "good_acceptor eid a \<longleftrightarrow> ep_id (acceptor_endpoint a) = eid \<and> good_desc (ep_desc (acceptor_endpoint a))"

definition socket_ok :: "('p \<Rightarrow> bool) \<Rightarrow> ('p \<Rightarrow> pipe_collection) \<Rightarrow> 'p socket \<Rightarrow> bool" where
  "socket_ok good pipes s \<longleftrightarrow> good (sock_protocol s) \<and>
     (\<forall>eid pipe. sock_pipes s eid = Some pipe \<longrightarrow> good_pipe eid pipe \<and> eid \<notin> dom (pipes (sock_protocol s))) \<and>
     (\<forall>eid a. sock_acceptors s eid = Some a \<longrightarrow> good_acceptor eid a) \<and>
     cfg_send_priority (sock_config s) \<le> 16 \<and> cfg_recv_priority (sock_config s) \<le> 16"

definition fresh_eid :: "('p \<Rightarrow> pipe_collection) \<Rightarrow> 'p socket \<Rightarrow> endpoint_id \<Rightarrow> bool" where
  "fresh_eid pipes s eid \<longleftrightarrow> eid \<notin> dom (sock_pipes s) \<and> eid \<notin> dom (pipes (sock_protocol s))"

text \<open>
  What the environment guarantees: identifiers handed out for new pipes are not in
  use, readiness concerns pipes the protocol has, priorities stay in their range; and
  what the protocol itself admits.
\<close>

fun socket_legal ::
  "'p protocol_ops \<Rightarrow> ('p \<Rightarrow> pipe_collection) \<Rightarrow> ('p \<Rightarrow> proto_cmd \<Rightarrow> bool) \<Rightarrow> 'p socket \<Rightarrow> ctx \<Rightarrow> socket_cmd \<Rightarrow> bool" where
  "socket_legal ops pipes admits s ctx (SConnect url) \<longleftrightarrow>
     (case fst (net_connect ctx (sock_id s) (create_endpoint_tmpl ops s url)) of
        Inr eid \<Rightarrow> fresh_eid pipes s eid
      | Inl _ \<Rightarrow> True)"
| "socket_legal ops pipes admits s ctx (SReconnect eid spec) \<longleftrightarrow> fresh_eid pipes s eid \<and> good_desc (spec_desc spec)"
| "socket_legal ops pipes admits s ctx (SRebind eid spec) \<longleftrightarrow> good_desc (spec_desc spec)"
| "socket_legal ops pipes admits s ctx (SPipeAccepted aid eid) \<longleftrightarrow> fresh_eid pipes s eid"
| "socket_legal ops pipes admits s ctx (SClosePipe eid) \<longleftrightarrow>
     eid \<in> dom (sock_pipes s) \<or> admits (sock_protocol s) (RemovePipe eid)"
| "socket_legal ops pipes admits s ctx (SPipeError eid) \<longleftrightarrow>
     eid \<in> dom (sock_pipes s) \<or> admits (sock_protocol s) (RemovePipe eid)"
| "socket_legal ops pipes admits s ctx (SSend msg) \<longleftrightarrow> (\<forall>t. admits (sock_protocol s) (SendMsg msg t))"
| "socket_legal ops pipes admits s ctx (STrySend msg) \<longleftrightarrow> admits (sock_protocol s) (SendMsg msg None)"
| "socket_legal ops pipes admits s ctx (SSendAck eid) \<longleftrightarrow> admits (sock_protocol s) (SendAck eid)"
| "socket_legal ops pipes admits s ctx SSendTimeout \<longleftrightarrow> admits (sock_protocol s) SendTimedOut"
| "socket_legal ops pipes admits s ctx (SSendReady eid rdy) \<longleftrightarrow>
     (if rdy then eid \<in> dom (pipes (sock_protocol s)) else admits (sock_protocol s) (SendNotReady eid))"
| "socket_legal ops pipes admits s ctx SRecv \<longleftrightarrow> (\<forall>t. admits (sock_protocol s) (RecvMsg t))"
| "socket_legal ops pipes admits s ctx STryRecv \<longleftrightarrow> admits (sock_protocol s) (RecvMsg None)"
| "socket_legal ops pipes admits s ctx (SRecvAck eid msg) \<longleftrightarrow> admits (sock_protocol s) (RecvAck eid msg)"
| "socket_legal ops pipes admits s ctx SRecvTimeout \<longleftrightarrow> admits (sock_protocol s) RecvTimedOut"
| "socket_legal ops pipes admits s ctx (SRecvReady eid rdy) \<longleftrightarrow>
     (if rdy then eid \<in> dom (pipes (sock_protocol s)) else admits (sock_protocol s) (RecvNotReady eid))"
| "socket_legal ops pipes admits s ctx (SSetOption opt) \<longleftrightarrow>
     (case opt of
        SendPriority x \<Rightarrow> x \<le> 16
      | RecvPriority x \<Rightarrow> x \<le> 16
      | _ \<Rightarrow> is_generic opt \<or> admits (sock_protocol s) (SetOption opt))"
| "socket_legal ops pipes admits s ctx (STimerTick task) \<longleftrightarrow> admits (sock_protocol s) (TimerTick task)"
| "socket_legal ops pipes admits s ctx SDevicePlugged \<longleftrightarrow> admits (sock_protocol s) DevicePlugged"
| "socket_legal ops pipes admits s ctx _ \<longleftrightarrow> True"

text \<open>
  Traffic only flows on the protocol's pipes, endpoints are only created in the
  socket's own name, only those of \<open>Q\<close> are opened, and \<open>Closed\<close> is not announced by these commands.
\<close>

fun socket_effect :: "socket_id \<Rightarrow> endpoint_id set \<Rightarrow> endpoint_id set \<Rightarrow> effect \<Rightarrow> bool" where
  "socket_effect sid D Q (NetSend eid _) \<longleftrightarrow> eid \<in> D"
| "socket_effect sid D Q (NetRecv eid) \<longleftrightarrow> eid \<in> D"
| "socket_effect sid D Q (NetConnect i _) \<longleftrightarrow> i = sid"
| "socket_effect sid D Q (NetReconnect i eid _) \<longleftrightarrow> i = sid \<and> eid \<in> Q"
| "socket_effect sid D Q (NetBind i _) \<longleftrightarrow> i = sid"
| "socket_effect sid D Q (NetRebind i eid _) \<longleftrightarrow> i = sid \<and> eid \<in> Q"
| "socket_effect sid D Q (NetOpen eid _) \<longleftrightarrow> eid \<in> Q"
| "socket_effect sid D Q (Raise evt) \<longleftrightarrow> evt \<noteq> Closed"
| "socket_effect sid D Q _ \<longleftrightarrow> True"

text \<open>The endpoints a command may open: the ones the network just created, or was told to.\<close>

fun opened_by :: "'p protocol_ops \<Rightarrow> 'p socket \<Rightarrow> ctx \<Rightarrow> socket_cmd \<Rightarrow> endpoint_id set" where
  "opened_by ops s ctx (SConnect url) = {eid. fst (net_connect ctx (sock_id s) (create_endpoint_tmpl ops s url)) = Inr eid}"
| "opened_by ops s ctx (SBind url) = {eid. fst (net_bind ctx (sock_id s) (create_endpoint_tmpl ops s url)) = Inr eid}"
| "opened_by ops s ctx (SReconnect eid spec) = {eid}"
| "opened_by ops s ctx (SRebind eid spec) = {eid}"
| "opened_by ops s ctx (SPipeAccepted aid eid) = {eid}"
| "opened_by ops s ctx _ = {}"

text \<open>
  The ledger of a log: the endpoints of a kind (remote ones are pipes, local ones are
  acceptors) that were opened and not closed since. A socket \<open>accounts\<close> for its
  endpoints when these, from the ones (\<open>A\<close> and \<open>B\<close>) open at the start of the log, are exactly
  the ones it or its protocol holds: none is leaked and none is used after it was closed.
\<close>

fun live :: "bool \<Rightarrow> effect list \<Rightarrow> endpoint_id set \<Rightarrow> endpoint_id set" where
  "live remote [] A = A"
| "live remote (e # es) A = live remote es
     (case e of
        NetOpen eid r \<Rightarrow> if r = remote then insert eid A else A
      | NetClose eid r \<Rightarrow> if r = remote then A - {eid} else A
      | _ \<Rightarrow> A)"

definition accounts ::
  "endpoint_id set \<Rightarrow> endpoint_id set \<Rightarrow> ('p \<Rightarrow> pipe_collection) \<Rightarrow> 'p socket \<Rightarrow> ctx \<Rightarrow> bool" where
  "accounts A B pipes s ctx \<longleftrightarrow>
     live True (trace ctx) A = dom (sock_pipes s) \<union> dom (pipes (sock_protocol s)) \<and>
     live False (trace ctx) B = dom (sock_acceptors s)"

definition socket_step_ok ::
  "'p protocol_ops \<Rightarrow> ('p \<Rightarrow> bool) \<Rightarrow> ('p \<Rightarrow> pipe_collection) \<Rightarrow> bool \<Rightarrow> endpoint_id set \<Rightarrow>
   'p socket \<Rightarrow> ctx \<Rightarrow> 'p socket \<times> ctx \<Rightarrow> bool" where
  "socket_step_ok ops good pipes tracking Q s ctx r \<longleftrightarrow> (case r of (s', ctx') \<Rightarrow>
     socket_ok good pipes s' \<and> sock_id s' = sock_id s \<and>
     emits (socket_effect (sock_id s) (dom (pipes (sock_protocol s'))) Q) ctx ctx' \<and>
     (\<forall>A B. accounts A B pipes s ctx \<longrightarrow> accounts A B pipes s' ctx') \<and>
     (tracking \<longrightarrow> tracked ops (sock_protocol s) ctx \<longrightarrow> tracked ops (sock_protocol s') ctx'))"

section \<open>Ledger and readiness of a log\<close>

lemma live_append [simp]: "live r (xs @ ys) A = live r ys (live r xs A)"
  by (induction xs arbitrary: A) auto

lemma live_proto:
  assumes "\<forall>e \<in> set es. proto_effect D cmd e"
  shows "live True es A = (case cmd of AddPipe eid _ \<Rightarrow> if NetClose eid True \<in> set es then A - {eid} else A | _ \<Rightarrow> A)"
    and "live False es A = A"
proof -
  show "live True es A = (case cmd of AddPipe eid _ \<Rightarrow> if NetClose eid True \<in> set es then A - {eid} else A | _ \<Rightarrow> A)"
    using assms
  proof (induction es arbitrary: A)
    case (Cons e es)
    then show ?case by (cases e; cases cmd) auto
  qed (simp split: proto_cmd.splits)
  show "live False es A = A"
    using assms
  proof (induction es arbitrary: A)
    case (Cons e es)
    then show ?case by (cases e) auto
  qed simp
qed

lemma step_ok_live:
  assumes "step_ok ops good pipes cmd p ctx p' ctx'"
  shows "live True (trace ctx') A = (case cmd of
      AddPipe eid _ \<Rightarrow> if NetClose eid True \<in> set (added ctx ctx') then live True (trace ctx) A - {eid} else live True (trace ctx) A
    | _ \<Rightarrow> live True (trace ctx) A)"
    and "live False (trace ctx') A = live False (trace ctx) A"
  using assms live_proto [of "added ctx ctx'" "dom (pipes p')" cmd]
  by (auto simp: step_ok_def emits_def added_def split: proto_cmd.splits)

lemma proto_effect_socket: "proto_effect D cmd e \<Longrightarrow> socket_effect sid D Q e"
  by (cases e) auto

lemma tracked_emit [simp]:
  "(\<And>evt. e \<noteq> Raise evt) \<Longrightarrow> tracked ops p (emit e ctx) = tracked ops p ctx"
  by (cases e) (auto simp: tracked_def)

lemma tracked_poll: "tracked ops (sock_protocol s) (socket_poll ops s ctx)"
  by (simp add: tracked_def socket_poll_def raise_evt_def)

section \<open>Every command keeps the contract\<close>

text \<open>A command that stores or drops endpoints of the socket itself.\<close>

lemma own_step_ok:
  assumes "socket_ok good pipes s" and "sock_protocol s' = sock_protocol s" and "sock_id s' = sock_id s"
    and "\<forall>eid pipe. sock_pipes s' eid = Some pipe \<longrightarrow>
      sock_pipes s eid = Some pipe \<or> good_pipe eid pipe \<and> eid \<notin> dom (pipes (sock_protocol s))"
    and "\<forall>eid a. sock_acceptors s' eid = Some a \<longrightarrow> sock_acceptors s eid = Some a \<or> good_acceptor eid a"
    and "cfg_send_priority (sock_config s') \<le> 16" "cfg_recv_priority (sock_config s') \<le> 16"
    and "emits (socket_effect (sock_id s) (dom (pipes (sock_protocol s))) Q) ctx ctx'"
    and "tracked ops (sock_protocol s) ctx \<Longrightarrow> tracked ops (sock_protocol s) ctx'"
    and "\<And>A B. accounts A B pipes s ctx \<Longrightarrow> accounts A B pipes s' ctx'"
  shows "socket_step_ok ops good pipes tracking Q s ctx (s', ctx')"
  using assms unfolding socket_step_ok_def socket_ok_def by simp blast

lemmas own_simps = create_endpoint_tmpl_def create_endpoint_spec_def create_endpoint_desc_def
  connect_pipe_def connect_acceptor_def accept_pipe_def insert_pipe_def insert_acceptor_def
  on_connect_success_def on_connect_error_def on_reconnect_success_def on_reconnect_error_def
  on_bind_success_def on_bind_error_def on_rebind_success_def on_rebind_error_def
  schedule_reconnect_def schedule_rebind_def context_call_defs endpoint_ctor_defs
  pipe_open_emit acceptor_open_emit acceptor_close_emit pipe_close_emit Let_def
  good_pipe_def good_acceptor_def good_desc_def pipe_get_send_priority_def pipe_get_recv_priority_def
  endpoint_get_send_priority_def endpoint_get_recv_priority_def
  acceptor_get_send_priority_def acceptor_get_recv_priority_def

lemma connect_step:
  assumes "socket_ok good pipes s" and "socket_legal ops pipes admits s ctx (SConnect url)"
  shows "socket_step_ok ops good pipes tracking {eid. fst (net_connect ctx (sock_id s) (create_endpoint_tmpl ops s url)) = Inr eid} s ctx (socket_connect ops s ctx url)"
  using assms
  by (auto simp: socket_connect_def own_simps fresh_eid_def socket_ok_def accounts_def split: sum.splits if_splits
      intro!: own_step_ok emits_intros)

lemma reconnect_step:
  assumes "socket_ok good pipes s" and "fresh_eid pipes s eid" and "good_desc (spec_desc spec)"
  shows "socket_step_ok ops good pipes tracking {eid} s ctx (socket_reconnect ops s ctx eid spec)"
  using assms
  by (auto simp: socket_reconnect_def own_simps fresh_eid_def socket_ok_def accounts_def split: option.splits if_splits
      intro!: own_step_ok emits_intros)

lemma bind_step:
  assumes "socket_ok good pipes s"
  shows "socket_step_ok ops good pipes tracking {eid. fst (net_bind ctx (sock_id s) (create_endpoint_tmpl ops s url)) = Inr eid} s ctx (socket_bind ops s ctx url)"
  using assms
  by (auto simp: socket_bind_def own_simps socket_ok_def accounts_def split: sum.splits if_splits
      intro!: own_step_ok emits_intros)

lemma rebind_step:
  assumes "socket_ok good pipes s" and "good_desc (spec_desc spec)"
  shows "socket_step_ok ops good pipes tracking {eid} s ctx (socket_rebind ops s ctx eid spec)"
  using assms
  by (auto simp: socket_rebind_def own_simps socket_ok_def accounts_def split: option.splits if_splits
      intro!: own_step_ok emits_intros)

lemma accepted_step:
  assumes "socket_ok good pipes s" and "fresh_eid pipes s eid"
  shows "socket_step_ok ops good pipes tracking {eid} s ctx (socket_on_pipe_accepted s ctx aid eid)"
  using assms
  by (auto simp: socket_on_pipe_accepted_def own_simps fresh_eid_def socket_ok_def accounts_def split: option.splits if_splits
      intro!: own_step_ok emits_intros)

lemma acceptor_error_step:
  assumes "socket_ok good pipes s"
  shows "socket_step_ok ops good pipes tracking Q s ctx (socket_on_acceptor_error s ctx eid)"
  using assms
  by (auto simp: socket_on_acceptor_error_def remove_acceptor_def own_simps socket_ok_def accounts_def
      split: option.splits if_splits intro!: own_step_ok emits_intros)

lemma close_acceptor_step:
  assumes "socket_ok good pipes s"
  shows "socket_step_ok ops good pipes tracking Q s ctx (close_acceptor s ctx eid)"
  using assms
  by (auto simp: close_acceptor_def remove_acceptor_def own_simps socket_ok_def accounts_def
      split: option.splits if_splits intro!: own_step_ok emits_intros)

text \<open>A timer armed before the command runs.\<close>

lemma armed_step_ok:
  assumes "socket_step_ok ops good pipes tracking Q s (emit (Scheduling task d) ctx) r"
  shows "socket_step_ok ops good pipes tracking Q s ctx r"
proof -
  obtain s' ctx' where r: "r = (s', ctx')" by (cases r)
  have "emits P ctx ctx'" if "emits P (emit (Scheduling task d) ctx) ctx'" "P (Scheduling task d)" for P
    by (rule emits_trans [OF emits_emit that(1)]) (use that(2) in simp_all)
  then show ?thesis using assms by (auto simp: r socket_step_ok_def accounts_def)
qed

lemma refused_step_ok:
  assumes "socket_ok good pipes s"
  shows "socket_step_ok ops good pipes tracking Q s ctx (s, send_reply ctx r)"
  using assms by (auto simp: send_reply_def socket_ok_def accounts_def intro!: own_step_ok emits_intros)

lemma socket_okD:
  assumes "socket_ok good pipes s" and "sock_pipes s eid = Some pipe"
  shows "good_pipe eid pipe" "pipes (sock_protocol s) eid = None"
  using assms by (auto simp: socket_ok_def domIff)

context protocol
begin

lemma with_protocol_ok:
  assumes "socket_ok good pipes s" and "legal pipes admits (sock_protocol s) cmd"
    and "enumerates (hash_order (env ctx))"
    and "\<forall>eid pipe. cmd \<noteq> AddPipe eid pipe" "\<forall>eid. cmd \<noteq> RemovePipe eid"
  shows "runs (with_protocol s (\<lambda>p. proto_step ops cmd p ctx)) (socket_step_ok ops good pipes (cmd \<noteq> DevicePlugged) Q s ctx)"
proof -
  obtain p' ctx' where step: "proto_step ops cmd (sock_protocol s) ctx = Some (p', ctx')"
    and ok: "step_ok ops good pipes cmd (sock_protocol s) ctx p' ctx'"
    using step_law [OF _ assms(2,3)] assms(1) by (auto simp: socket_ok_def elim!: runsE)
  have pipes: "pipes p' = pipes (sock_protocol s)"
    using ok assms(4,5) by (cases cmd) (auto simp: step_ok_def)
  have effects: "emits (socket_effect (sock_id s) (dom (pipes p')) Q) ctx ctx'"
    using ok emits_mono [OF _ proto_effect_socket] by (auto simp: step_ok_def)
  have "live True (trace ctx') A = live True (trace ctx) A" "live False (trace ctx') A = live False (trace ctx) A" for A
    using step_ok_live [OF ok] assms(4) by (auto split: proto_cmd.splits)
  with effects show ?thesis
    using ok assms(1) pipes
    by (simp add: with_protocol_def step socket_step_ok_def socket_ok_def step_ok_def accounts_def)
qed

lemma opened_step:
  assumes "socket_ok good pipes s" and "enumerates (hash_order (env ctx))"
  shows "runs (socket_on_pipe_opened ops s ctx eid) (socket_step_ok ops good pipes True Q s ctx)"
proof (cases "sock_pipes s eid")
  case None
  then show ?thesis using assms(1) by (simp add: socket_on_pipe_opened_def socket_step_ok_def)
next
  case (Some pipe)
  have "legal pipes admits (sock_protocol s) (AddPipe eid pipe)"
    using assms(1) Some by (auto simp: socket_ok_def)
  then obtain p' ctx' where step: "op_add_pipe ops (sock_protocol s) ctx eid pipe = Some (p', ctx')"
    and ok: "step_ok ops good pipes (AddPipe eid pipe) (sock_protocol s) ctx p' ctx'"
    using step_law [OF _ _ assms(2), of "sock_protocol s" "AddPipe eid pipe"] assms(1)
    by (auto simp: socket_ok_def simp del: legal.simps elim!: runsE)
  have fresh: "eid \<notin> dom (pipes (sock_protocol s))"
    using assms(1) Some by (auto simp: socket_ok_def)
  have moved: "pipes p' = (pipes (sock_protocol s))(eid \<mapsto> pipe) \<and> NetClose eid True \<notin> set (added ctx ctx') \<or>
      pipes p' = pipes (sock_protocol s) \<and> NetClose eid True \<in> set (added ctx ctx')"
    using ok by (simp add: step_ok_def)
  have effects: "emits (socket_effect (sock_id s) (dom (pipes p')) Q) ctx ctx'"
    using ok emits_mono [OF _ proto_effect_socket] by (auto simp: step_ok_def)
  let ?s = "s\<lparr>sock_pipes := (sock_pipes s)(eid := None), sock_protocol := p'\<rparr>"
  have "socket_ok good pipes ?s"
    using assms(1) ok moved socket_okD [OF assms(1)] unfolding socket_ok_def step_ok_def
    by (simp add: domIff split: if_splits) (metis fun_upd_apply)
  moreover have "accounts A B pipes ?s ctx'" if "accounts A B pipes s ctx" for A B
    using that moved fresh Some step_ok_live [OF ok] by (auto simp: accounts_def split: if_splits)
  ultimately show ?thesis
    using ok effects by (simp add: socket_on_pipe_opened_def Some with_protocol_def step socket_step_ok_def step_ok_def)
qed

lemma remove_pipe_step:
  assumes "socket_ok good pipes s" and "enumerates (hash_order (env ctx))"
    and "eid \<in> dom (sock_pipes s) \<or> admits (sock_protocol s) (RemovePipe eid)"
  shows "runs (socket_remove_pipe ops s ctx eid) (\<lambda>(spec, s', ctx').
    socket_step_ok ops good pipes True Q s ctx (s', ctx') \<and> sock_config s' = sock_config s \<and>
    spec = (case (sock_pipes s ++ pipes (sock_protocol s)) eid of
       Some pipe \<Rightarrow> map_option (\<lambda>url. \<lparr>spec_url = url, spec_desc = ep_desc (pipe_endpoint pipe)\<rparr>) (ep_url (pipe_endpoint pipe))
     | None \<Rightarrow> None))"
proof (cases "sock_pipes s eid")
  case (Some pipe)
  have own: "good_pipe eid pipe" "eid \<notin> dom (pipes (sock_protocol s))"
    using assms(1) Some by (auto simp: socket_ok_def)
  have "socket_step_ok ops good pipes True Q s ctx
      (s\<lparr>sock_pipes := (sock_pipes s)(eid := None)\<rparr>, emit (NetClose eid True) ctx)"
    using assms(1) own by (intro own_step_ok) (auto simp: socket_ok_def accounts_def intro!: emits_intros split: if_splits)
  then show ?thesis
    using Some own by (auto simp: socket_remove_pipe_def pipe_close_emit good_pipe_def map_add_def split: option.splits)
next
  case None
  have admitted: "admits (sock_protocol s) (RemovePipe eid)" using assms(3) None by auto
  have good: "good (sock_protocol s)" using assms(1) by (simp add: socket_ok_def)
  obtain r p' ctx' where step: "op_remove_pipe ops (sock_protocol s) ctx eid = Some (r, p', ctx')"
    and r: "r = pipes (sock_protocol s) eid"
    using remove_law [OF good admitted assms(2)] by (auto elim!: runsE)
  have ok: "step_ok ops good pipes (RemovePipe eid) (sock_protocol s) ctx p' ctx'"
    using step_law [OF good, of "RemovePipe eid" ctx] admitted assms(2) step by simp
  have effects: "emits (socket_effect (sock_id s) (dom (pipes p')) Q) ctx ctx'"
    using ok emits_mono [OF _ proto_effect_socket] by (auto simp: step_ok_def)
  have own: "ep_id (pipe_endpoint pipe) = eid" if "r = Some pipe" for pipe
    using good_pipes [OF good] r that by (simp add: pipes_ok_id)
  have moved: "pipes p' = (pipes (sock_protocol s))(eid := None)" using ok by (simp add: step_ok_def)
  let ?s = "s\<lparr>sock_protocol := p'\<rparr>"
  have "socket_ok good pipes ?s"
    using assms(1) ok moved unfolding socket_ok_def step_ok_def by (auto simp: domIff)
  moreover have "live True (trace ctx') A = live True (trace ctx) A" "live False (trace ctx') A = live False (trace ctx) A" for A
    using step_ok_live [OF ok] by simp_all
  ultimately have
    "r = None \<Longrightarrow> socket_step_ok ops good pipes True Q s ctx (?s, ctx')"
    "r \<noteq> None \<Longrightarrow> socket_step_ok ops good pipes True Q s ctx (?s, emit (NetClose eid True) ctx')"
    using effects ok moved None r by (auto simp: socket_step_ok_def step_ok_def accounts_def intro!: emits_intros)
  then show ?thesis
    using None step own r
    by (cases "pipes (sock_protocol s) eid") (auto simp: socket_remove_pipe_def pipe_close_emit map_add_def)
qed

lemma close_pipe_step:
  assumes "socket_ok good pipes s" and "enumerates (hash_order (env ctx))"
    and "eid \<in> dom (sock_pipes s) \<or> admits (sock_protocol s) (RemovePipe eid)"
  shows "runs (close_pipe ops s ctx eid) (socket_step_ok ops good pipes True Q s ctx)"
  unfolding close_pipe_def using remove_pipe_step [OF assms, where Q = Q] by (auto elim!: runs_mono)

lemma pipe_error_step:
  assumes "socket_ok good pipes s" and "enumerates (hash_order (env ctx))"
    and "eid \<in> dom (sock_pipes s) \<or> admits (sock_protocol s) (RemovePipe eid)"
  shows "runs (socket_on_pipe_error ops s ctx eid) (socket_step_ok ops good pipes True Q s ctx)"
  unfolding socket_on_pipe_error_def using remove_pipe_step [OF assms, where Q = Q]
  by (auto simp: socket_step_ok_def schedule_reconnect_def schedule_def accounts_def Let_def
      elim!: runs_mono intro!: emits_intros split: option.splits)

lemma set_option_step:
  assumes "socket_ok good pipes s" and "socket_legal ops pipes admits s ctx (SSetOption opt)"
    and "enumerates (hash_order (env ctx))"
  shows "socket_step_ok ops good pipes True Q s ctx (socket_set_option ops s ctx opt)"
proof (cases "is_generic opt")
  case True
  then show ?thesis
    using assms(1,2)
    by (cases opt) (auto simp: socket_set_option_def send_reply_def socket_ok_def accounts_def
      intro!: own_step_ok emits_intros)
next
  case False
  then have "legal pipes admits (sock_protocol s) (SetOption opt)"
    using assms(2) by (cases opt) auto
  then have ok: "runs (with_protocol s (\<lambda>p. proto_step ops (SetOption opt) p ctx)) (socket_step_ok ops good pipes True Q s ctx)"
    using with_protocol_ok [OF assms(1) _ assms(3), of "SetOption opt"] by simp
  obtain res p where set: "op_set_option ops (sock_protocol s) opt = (res, p)" by (cases "op_set_option ops (sock_protocol s) opt")
  show ?thesis
    using ok False
    by (simp add: with_protocol_def set socket_set_option_def socket_step_ok_def send_reply_def accounts_def emits_intros)
qed

lemma armed_send_step:
  assumes "socket_ok good pipes s" and "\<forall>t. admits (sock_protocol s) (SendMsg msg t)"
    and "enumerates (hash_order (env ctx))"
  shows "runs (socket_send ops s ctx msg) (socket_step_ok ops good pipes True Q s ctx)"
proof -
  have now: "runs (with_protocol s (\<lambda>p. op_send ops p c msg t)) (socket_step_ok ops good pipes True Q s c)"
    if "env c = env ctx" for c t
    using with_protocol_ok [OF assms(1), of "SendMsg msg t" c] assms(2,3) that by simp
  show ?thesis
  proof (cases "get_send_timeout s")
    case None
    then show ?thesis using now [of ctx None] by (simp add: socket_send_def)
  next
    case (Some d)
    let ?c = "emit (Scheduling SendTimeout d) ctx"
    have "runs (with_protocol s (\<lambda>p. op_send ops p ?c msg t)) (socket_step_ok ops good pipes True Q s ctx)" for t
      by (rule runs_mono [OF now armed_step_ok]) simp_all
    moreover have "socket_step_ok ops good pipes True Q s ctx (s, send_reply ?c r)" for r
      by (rule armed_step_ok [OF refused_step_ok [OF assms(1)]])
    ultimately show ?thesis
      using Some by (auto simp: socket_send_def schedule_def Let_def split: sum.splits)
  qed
qed

lemma armed_recv_step:
  assumes "socket_ok good pipes s" and "\<forall>t. admits (sock_protocol s) (RecvMsg t)"
    and "enumerates (hash_order (env ctx))"
  shows "runs (socket_recv ops s ctx) (socket_step_ok ops good pipes True Q s ctx)"
proof -
  have now: "runs (with_protocol s (\<lambda>p. op_recv ops p c t)) (socket_step_ok ops good pipes True Q s c)"
    if "env c = env ctx" for c t
    using with_protocol_ok [OF assms(1), of "RecvMsg t" c] assms(2,3) that by simp
  show ?thesis
  proof (cases "get_recv_timeout s")
    case None
    then show ?thesis using now [of ctx None] by (simp add: socket_recv_def)
  next
    case (Some d)
    let ?c = "emit (Scheduling RecvTimeout d) ctx"
    have "runs (with_protocol s (\<lambda>p. op_recv ops p ?c t)) (socket_step_ok ops good pipes True Q s ctx)" for t
      by (rule runs_mono [OF now armed_step_ok]) simp_all
    moreover have "socket_step_ok ops good pipes True Q s ctx (s, send_reply ?c r)" for r
      by (rule armed_step_ok [OF refused_step_ok [OF assms(1)]])
    ultimately show ?thesis
      using Some by (auto simp: socket_recv_def schedule_def Let_def split: sum.splits)
  qed
qed

lemma socket_step_contract:
  assumes "socket_ok good pipes s" and "socket_legal ops pipes admits s ctx cmd" and "enumerates (hash_order (env ctx))"
  shows "runs (socket_step ops cmd s ctx) (socket_step_ok ops good pipes (cmd \<noteq> SDevicePlugged) (opened_by ops s ctx cmd) s ctx)"
proof -
  note forward = with_protocol_ok [OF assms(1) _ assms(3)]
  note defs = socket_try_send_def socket_try_recv_def socket_on_send_ack_def socket_on_send_timeout_def
    socket_on_send_ready_def socket_on_recv_ack_def socket_on_recv_timeout_def socket_on_recv_ready_def
    socket_on_timer_tick_def socket_on_device_plugged_def
  note own = connect_step reconnect_step bind_step rebind_step accepted_step acceptor_error_step close_acceptor_step
    opened_step close_pipe_step pipe_error_step set_option_step armed_send_step armed_recv_step
  show ?thesis
  proof (cases cmd)
    case (SSend msg) then show ?thesis using assms by (auto intro: own)
  next
    case SRecv then show ?thesis using assms by (auto intro: own)
  next
    case (STrySend msg)
    then show ?thesis using assms forward [of "SendMsg msg None"] refused_step_ok by (auto simp: defs)
  next
    case STryRecv
    then show ?thesis using assms forward [of "RecvMsg None"] refused_step_ok by (auto simp: defs)
  next
    case (SSendAck eid) then show ?thesis using assms forward [of "SendAck eid"] by (auto simp: defs)
  next
    case SSendTimeout then show ?thesis using assms forward [of "SendTimedOut"] by (auto simp: defs)
  next
    case (SSendReady eid rdy)
    then show ?thesis using assms forward [of "SendReady eid"] forward [of "SendNotReady eid"]
      by (auto simp: defs split: if_splits)
  next
    case (SRecvAck eid msg) then show ?thesis using assms forward [of "RecvAck eid msg"] by (auto simp: defs)
  next
    case SRecvTimeout then show ?thesis using assms forward [of "RecvTimedOut"] by (auto simp: defs)
  next
    case (SRecvReady eid rdy)
    then show ?thesis using assms forward [of "RecvReady eid"] forward [of "RecvNotReady eid"]
      by (auto simp: defs split: if_splits)
  next
    case (STimerTick task) then show ?thesis using assms forward [of "TimerTick task"] by (auto simp: defs)
  next
    case SDevicePlugged then show ?thesis using assms forward [of "DevicePlugged"] by (auto simp: defs)
  next
    case SPoll
    then show ?thesis using assms tracked_poll [of ops s ctx]
      by (auto simp: socket_step_ok_def socket_poll_def raise_evt_def accounts_def intro!: emits_intros)
  next
    case (SConnect url) then show ?thesis using connect_step assms by auto
  qed (use assms in \<open>auto intro: own simp del: socket_legal.simps(17) simp: set_option_step\<close>)
qed

end

section \<open>Requests are answered once\<close>

text \<open>
  The command a socket command becomes for the protocol, when it reaches it (\<open>t\<close> is
  the timer the socket armed).
\<close>

fun forwarded :: "'p socket \<Rightarrow> timeout \<Rightarrow> socket_cmd \<Rightarrow> proto_cmd option" where
  "forwarded s t (SPipeOpened eid) = map_option (AddPipe eid) (sock_pipes s eid)"
| "forwarded s t (SClosePipe eid) = (if eid \<in> dom (sock_pipes s) then None else Some (RemovePipe eid))"
| "forwarded s t (SPipeError eid) = (if eid \<in> dom (sock_pipes s) then None else Some (RemovePipe eid))"
| "forwarded s t (SSend msg) = Some (SendMsg msg t)"
| "forwarded s t (STrySend msg) = Some (SendMsg msg t)"
| "forwarded s t (SSendAck eid) = Some (SendAck eid)"
| "forwarded s t SSendTimeout = Some SendTimedOut"
| "forwarded s t (SSendReady eid rdy) = Some (if rdy then SendReady eid else SendNotReady eid)"
| "forwarded s t SRecv = Some (RecvMsg t)"
| "forwarded s t STryRecv = Some (RecvMsg t)"
| "forwarded s t (SRecvAck eid msg) = Some (RecvAck eid msg)"
| "forwarded s t SRecvTimeout = Some RecvTimedOut"
| "forwarded s t (SRecvReady eid rdy) = Some (if rdy then RecvReady eid else RecvNotReady eid)"
| "forwarded s t (SSetOption opt) = (if is_generic opt then None else Some (SetOption opt))"
| "forwarded s t (STimerTick task) = Some (TimerTick task)"
| "forwarded s t SDevicePlugged = Some DevicePlugged"
| "forwarded s t _ = None"

fun is_user_request :: "socket_cmd \<Rightarrow> bool" where
  "is_user_request (SConnect _) \<longleftrightarrow> True"
| "is_user_request (SBind _) \<longleftrightarrow> True"
| "is_user_request (SSend _) \<longleftrightarrow> True"
| "is_user_request (STrySend _) \<longleftrightarrow> True"
| "is_user_request SRecv \<longleftrightarrow> True"
| "is_user_request STryRecv \<longleftrightarrow> True"
| "is_user_request (SSetOption _) \<longleftrightarrow> True"
| "is_user_request _ \<longleftrightarrow> False"

definition socket_disciplined ::
  "'p protocol_ops \<Rightarrow> ('p \<Rightarrow> pipe_collection) \<Rightarrow> ('p \<Rightarrow> proto_cmd \<Rightarrow> bool) \<Rightarrow> ('p \<Rightarrow> bool) \<Rightarrow> ('p \<Rightarrow> bool) \<Rightarrow>
   ('p \<Rightarrow> proto_cmd \<Rightarrow> bool) \<Rightarrow> 'p socket \<Rightarrow> ctx \<Rightarrow> socket_cmd \<Rightarrow> bool" where
  "socket_disciplined ops pipes admits sending receiving clean s ctx cmd \<longleftrightarrow>
     socket_legal ops pipes admits s ctx cmd \<and> cmd \<noteq> SDevicePlugged \<and>
     (\<forall>t. case forwarded s t cmd of
        Some c \<Rightarrow> in_turn sending receiving (sock_protocol s) c \<and> clean (sock_protocol s) c
      | None \<Rightarrow> True)"

definition balanced :: "('p \<Rightarrow> bool) \<Rightarrow> ('p \<Rightarrow> bool) \<Rightarrow> bool \<Rightarrow> 'p socket \<Rightarrow> ctx \<Rightarrow> 'p socket \<times> ctx \<Rightarrow> bool" where
  "balanced sending receiving request s ctx r \<longleftrightarrow> (case r of (s', ctx') \<Rightarrow>
     count_replies (trace ctx') + outstanding sending receiving (sock_protocol s') =
     count_replies (trace ctx) + outstanding sending receiving (sock_protocol s) + of_bool request)"

lemma balanced_armed:
  "balanced sending receiving b s (emit (Scheduling task d) ctx) = balanced sending receiving b s ctx"
  by (simp add: balanced_def fun_eq_iff)

lemma balanced_refused: "balanced sending receiving True s ctx (s, send_reply ctx r)"
  by (simp add: balanced_def send_reply_def)

context answering_protocol
begin

lemma forward_balanced:
  assumes "good (sock_protocol s)" and "legal pipes admits (sock_protocol s) c" and "enumerates (hash_order (env ctx))"
    and "in_turn sending receiving (sock_protocol s) c" "clean (sock_protocol s) c"
  shows "runs (with_protocol s (\<lambda>p. proto_step ops c p ctx)) (balanced sending receiving (is_request c) s ctx)"
  unfolding with_protocol_def using answer_law [OF assms] by (auto simp: balanced_def elim!: runs_mono)

lemma remove_balanced:
  assumes "good (sock_protocol s)" and "enumerates (hash_order (env ctx))"
    and "eid \<in> dom (sock_pipes s) \<or> admits (sock_protocol s) (RemovePipe eid) \<and> clean (sock_protocol s) (RemovePipe eid)"
  shows "runs (socket_remove_pipe ops s ctx eid) (\<lambda>(_, s', ctx'). balanced sending receiving False s ctx (s', ctx'))"
proof (cases "sock_pipes s eid")
  case None
  have "runs (proto_step ops (RemovePipe eid) (sock_protocol s) ctx) (\<lambda>(p', ctx').
      balanced sending receiving False s ctx (s\<lparr>sock_protocol := p'\<rparr>, ctx'))"
    using answer_law [OF assms(1), of "RemovePipe eid" ctx] assms(2,3) None
    by (auto simp: balanced_def elim!: runs_mono)
  then show ?thesis
    using None by (auto simp: socket_remove_pipe_def balanced_def pipe_close_emit Let_def elim!: runs_mono split: option.splits)
qed (simp add: socket_remove_pipe_def balanced_def pipe_close_emit)

lemma user_request_balanced:
  assumes "good (sock_protocol s)" and "enumerates (hash_order (env ctx))"
    and "socket_disciplined ops pipes admits sending receiving clean s ctx cmd"
    and "is_user_request cmd"
  shows "runs (socket_step ops cmd s ctx) (balanced sending receiving True s ctx)"
proof -
  have env: "enumerates (hash_order (env (emit (Scheduling task d) ctx)))" for task d using assms(2) by simp
  note now = forward_balanced [OF assms(1) _ assms(2)]
  note later = forward_balanced [OF assms(1) _ env, unfolded balanced_armed]
  show ?thesis
  proof (cases cmd)
    case (SSend msg)
    then show ?thesis
      using assms(3) now [of "SendMsg msg _"] later [of "SendMsg msg _"]
      by (auto simp: socket_disciplined_def socket_send_def schedule_def Let_def balanced_def send_reply_def
          split: option.splits sum.splits)
  next
    case SRecv
    then show ?thesis
      using assms(3) now [of "RecvMsg _"] later [of "RecvMsg _"]
      by (auto simp: socket_disciplined_def socket_recv_def schedule_def Let_def balanced_def send_reply_def
          split: option.splits sum.splits)
  next
    case (STrySend msg)
    then show ?thesis
      using assms(3) now [of "SendMsg msg None"]
      by (auto simp: socket_disciplined_def socket_try_send_def balanced_refused)
  next
    case STryRecv
    then show ?thesis
      using assms(3) now [of "RecvMsg None"]
      by (auto simp: socket_disciplined_def socket_try_recv_def balanced_refused)
  next
    case (SSetOption opt)
    then show ?thesis
      using assms(3) now [of "SetOption opt"]
      by (cases opt) (auto simp: socket_disciplined_def socket_set_option_def with_protocol_def balanced_def
        send_reply_def split: prod.splits)
  qed (use assms(4) in \<open>auto simp: socket_connect_def socket_bind_def own_simps balanced_def split: sum.splits\<close>)
qed

lemma socket_step_balanced:
  assumes "good (sock_protocol s)" and "enumerates (hash_order (env ctx))"
    and "socket_disciplined ops pipes admits sending receiving clean s ctx cmd"
    and "socket_ok good pipes s"
  shows "runs (socket_step ops cmd s ctx) (balanced sending receiving (is_user_request cmd) s ctx)"
proof (cases "is_user_request cmd")
  case True
  then show ?thesis using user_request_balanced [OF assms(1-3)] by simp
next
  case False
  note now = forward_balanced [OF assms(1) _ assms(2)]
  note remove = remove_balanced [OF assms(1,2)]
  note unfold = socket_disciplined_def socket_on_send_ack_def socket_on_send_timeout_def
    socket_on_send_ready_def socket_on_recv_ack_def socket_on_recv_timeout_def socket_on_recv_ready_def
    socket_on_timer_tick_def close_pipe_def socket_on_pipe_error_def schedule_reconnect_def
  show ?thesis
  proof (cases cmd)
    case (SPipeOpened eid)
    show ?thesis
    proof (cases "sock_pipes s eid")
      case (Some pipe)
      have "legal pipes admits (sock_protocol s) (AddPipe eid pipe)" "clean (sock_protocol s) (AddPipe eid pipe)"
        using socket_okD [OF assms(4) Some] assms(3) SPipeOpened Some by (auto simp: socket_disciplined_def)
      from answer_law [OF assms(1) this(1) assms(2) _ this(2)] show ?thesis
        using SPipeOpened Some by (auto simp: socket_on_pipe_opened_def with_protocol_def balanced_def elim!: runs_mono)
    qed (simp add: SPipeOpened socket_on_pipe_opened_def balanced_def)
  next
    case (SClosePipe eid)
    then show ?thesis using assms(3) remove [of eid] by (auto simp: unfold elim!: runs_mono split: if_splits)
  next
    case (SPipeError eid)
    then have "runs (socket_remove_pipe ops s ctx eid) (\<lambda>(_, s', ctx'). balanced sending receiving False s ctx (s', ctx'))"
      using assms(3) remove [of eid] by (auto simp: socket_disciplined_def split: if_splits)
    then show ?thesis using SPipeError
      by (auto simp: unfold balanced_def schedule_def elim!: runs_mono split: option.splits)
  next
    case (SSendAck eid) then show ?thesis using assms(3) now [of "SendAck eid"] by (auto simp: unfold)
  next
    case SSendTimeout then show ?thesis using assms(3) now [of "SendTimedOut"] by (auto simp: unfold)
  next
    case (SSendReady eid rdy)
    then show ?thesis using assms(3) now [of "SendReady eid"] now [of "SendNotReady eid"] by (cases rdy) (auto simp: unfold)
  next
    case (SRecvAck eid msg) then show ?thesis using assms(3) now [of "RecvAck eid msg"] by (auto simp: unfold)
  next
    case SRecvTimeout then show ?thesis using assms(3) now [of "RecvTimedOut"] by (auto simp: unfold)
  next
    case (SRecvReady eid rdy)
    then show ?thesis using assms(3) now [of "RecvReady eid"] now [of "RecvNotReady eid"] by (cases rdy) (auto simp: unfold)
  next
    case (STimerTick task) then show ?thesis using assms(3) now [of "TimerTick task"] by (auto simp: unfold)
  qed (use False assms(3) in \<open>auto simp: socket_disciplined_def socket_reconnect_def socket_rebind_def
         socket_on_pipe_accepted_def socket_on_acceptor_error_def close_acceptor_def remove_acceptor_def
         socket_poll_def own_simps balanced_def split: option.splits\<close>)
qed

end

section \<open>Sequences of commands\<close>

fun socket_run :: "'p protocol_ops \<Rightarrow> socket_cmd list \<Rightarrow> 'p socket \<Rightarrow> ctx \<Rightarrow> ('p socket \<times> ctx) option" where
  "socket_run ops [] s ctx = Some (s, ctx)"
| "socket_run ops (cmd # cmds) s ctx = do { (s', ctx') \<leftarrow> socket_step ops cmd s ctx; socket_run ops cmds s' ctx' }"

text \<open>Each command satisfies \<open>ok\<close> when it is issued.\<close>

fun socket_cmds_ok ::
  "'p protocol_ops \<Rightarrow> ('p socket \<Rightarrow> ctx \<Rightarrow> socket_cmd \<Rightarrow> bool) \<Rightarrow> socket_cmd list \<Rightarrow> 'p socket \<Rightarrow> ctx \<Rightarrow> bool" where
  "socket_cmds_ok ops ok [] s ctx \<longleftrightarrow> True"
| "socket_cmds_ok ops ok (cmd # cmds) s ctx \<longleftrightarrow> ok s ctx cmd \<and>
     (case socket_step ops cmd s ctx of
        Some (s', ctx') \<Rightarrow> socket_cmds_ok ops ok cmds s' ctx'
      | None \<Rightarrow> True)"

text \<open>
  The contract of a socket over a run from \<open>ctx\<close> to \<open>ctx'\<close>: the invariant, every endpoint
  accounted for, the listeners up to date, and one reply per request but for the one
  that is outstanding.
\<close>

definition socket_contract ::
  "'p protocol_ops \<Rightarrow> ('p \<Rightarrow> bool) \<Rightarrow> ('p \<Rightarrow> pipe_collection) \<Rightarrow> ('p \<Rightarrow> bool) \<Rightarrow> ('p \<Rightarrow> bool) \<Rightarrow>
   socket_cmd list \<Rightarrow> 'p socket \<times> ctx \<Rightarrow> bool" where
  "socket_contract ops good pipes sending receiving cmds r \<longleftrightarrow> (case r of (s, ctx) \<Rightarrow>
     socket_ok good pipes s \<and> accounts {} {} pipes s ctx \<and> tracked ops (sock_protocol s) ctx \<and>
     count_replies (trace ctx) + outstanding sending receiving (sock_protocol s) = length (filter is_user_request cmds))"

context answering_protocol
begin

lemma socket_run_contract:
  assumes "socket_contract ops good pipes sending receiving before (s, ctx)" and "enumerates (hash_order (env ctx))"
    and "socket_cmds_ok ops (socket_disciplined ops pipes admits sending receiving clean) cmds s ctx"
  shows "runs (socket_run ops cmds s ctx) (socket_contract ops good pipes sending receiving (before @ cmds))"
  using assms
proof (induction cmds arbitrary: s ctx before)
  case (Cons cmd cmds)
  have ok: "socket_ok good pipes s" "good (sock_protocol s)"
    using Cons.prems(1) by (auto simp: socket_contract_def socket_ok_def)
  have discipline: "socket_disciplined ops pipes admits sending receiving clean s ctx cmd"
    using Cons.prems(3) by simp
  then have legal: "socket_legal ops pipes admits s ctx cmd" "cmd \<noteq> SDevicePlugged"
    by (auto simp: socket_disciplined_def)
  obtain s' ctx' where step: "socket_step ops cmd s ctx = Some (s', ctx')"
    "socket_step_ok ops good pipes True (opened_by ops s ctx cmd) s ctx (s', ctx')" "balanced sending receiving (is_user_request cmd) s ctx (s', ctx')"
    using runs_conj [OF socket_step_contract [OF ok(1) legal(1) Cons.prems(2)]
        socket_step_balanced [OF ok(2) Cons.prems(2) discipline ok(1)]] legal(2)
    by (auto elim!: runsE)
  have "socket_contract ops good pipes sending receiving (before @ [cmd]) (s', ctx')" "env ctx' = env ctx"
    using step(2,3) Cons.prems(1) by (auto simp: socket_contract_def socket_step_ok_def balanced_def emits_def)
  then show ?case
    using Cons.IH [of "before @ [cmd]" s' ctx'] Cons.prems(2,3) step(1) by simp
qed simp

end

section \<open>Close\<close>

lemma close_acceptors_eq:
  assumes "\<And>eid a. as eid = Some a \<Longrightarrow> ep_id (acceptor_endpoint a) = eid" and "set eids \<subseteq> dom as"
  shows "close_acceptors as eids ctx = ctx\<lparr>trace := trace ctx @ map (\<lambda>eid. NetClose eid False) eids\<rparr>"
  using assms(2)
proof (induction eids arbitrary: ctx)
  case (Cons eid eids)
  then obtain a where "as eid = Some a" by auto
  with Cons assms(1) show ?case by (simp add: acceptor_close_emit emit_def)
qed simp

context protocol
begin

lemma socket_close_all:
  assumes "socket_ok good pipes s" and "enumerates (hash_order (env ctx))"
  shows "\<exists>es. trace (snd (socket_close ops s ctx)) = trace ctx @ es @ [Raise Closed] \<and> distinct es \<and>
    set es = (\<lambda>eid. NetClose eid True) ` (dom (sock_pipes s) \<union> dom (pipes (sock_protocol s))) \<union>
      (\<lambda>eid. NetClose eid False) ` dom (sock_acceptors s)"
    and "sock_pipes (fst (socket_close ops s ctx)) = Map.empty"
    and "sock_acceptors (fst (socket_close ops s ctx)) = Map.empty"
    and "pipes (sock_protocol (fst (socket_close ops s ctx))) = Map.empty"
proof -
  let ?ord = "hash_order (env ctx)"
  have ord: "set (?ord A) = A" "distinct (?ord A)" for A
    using assms(2) by (auto simp: enumerates_def)
  have ids: "pipes_ok (sock_pipes s)" "\<And>eid a. sock_acceptors s eid = Some a \<Longrightarrow> ep_id (acceptor_endpoint a) = eid"
    using assms(1) by (auto simp: socket_ok_def pipes_ok_def good_pipe_def good_acceptor_def)
  let ?c = "ctx\<lparr>trace := trace ctx @ map (\<lambda>eid. NetClose eid True) (?ord (dom (sock_pipes s))) @
      map (\<lambda>eid. NetClose eid False) (?ord (dom (sock_acceptors s)))\<rparr>"
  have "good (sock_protocol s)" "enumerates (hash_order (env ?c))"
    using assms by (auto simp: socket_ok_def)
  from close_law [OF this] obtain p' es where close:
    "op_close ops (sock_protocol s) ?c = (p', ?c\<lparr>trace := trace ?c @ map (\<lambda>eid. NetClose eid True) es\<rparr>)"
    "set es = dom (pipes (sock_protocol s))" "distinct es" "pipes p' = Map.empty" by blast
  have own: "dom (sock_pipes s) \<inter> dom (pipes (sock_protocol s)) = {}"
    using assms(1) by (auto simp: socket_ok_def dest: domI)
  let ?es = "map (\<lambda>eid. NetClose eid True) (?ord (dom (sock_pipes s))) @
    map (\<lambda>eid. NetClose eid False) (?ord (dom (sock_acceptors s))) @ map (\<lambda>eid. NetClose eid True) es"
  have eq: "socket_close ops s ctx =
      (s\<lparr>sock_pipes := Map.empty, sock_acceptors := Map.empty, sock_protocol := p'\<rparr>,
       emit (Raise Closed) (ctx\<lparr>trace := trace ctx @ ?es\<rparr>))"
    using close(1)
    by (simp add: socket_close_def close_each_eq [OF ids(1)] close_acceptors_eq [OF ids(2)] ord raise_evt_def)
  have "distinct ?es" "set ?es = (\<lambda>eid. NetClose eid True) ` (dom (sock_pipes s) \<union> dom (pipes (sock_protocol s))) \<union>
      (\<lambda>eid. NetClose eid False) ` dom (sock_acceptors s)"
    using own close(2,3) by (auto simp: ord distinct_map inj_on_def)
  then show "\<exists>es. trace (snd (socket_close ops s ctx)) = trace ctx @ es @ [Raise Closed] \<and> distinct es \<and>
    set es = (\<lambda>eid. NetClose eid True) ` (dom (sock_pipes s) \<union> dom (pipes (sock_protocol s))) \<union>
      (\<lambda>eid. NetClose eid False) ` dom (sock_acceptors s)"
    by (intro exI [of _ ?es]) (simp add: eq)
  show "sock_pipes (fst (socket_close ops s ctx)) = Map.empty"
    "sock_acceptors (fst (socket_close ops s ctx)) = Map.empty"
    "pipes (sock_protocol (fst (socket_close ops s ctx))) = Map.empty"
    using close(4) by (simp_all add: eq)
qed

text \<open>
  A failed pipe is closed once, and it is reconnected when, and only when, it was created by the user.
  Before that the protocol may say what it does about the loss of the pipe.
\<close>

lemma remove_pipe_closes:
  assumes "socket_ok good pipes s" and "enumerates (hash_order (env ctx))" and "admits (sock_protocol s) (RemovePipe eid)"
    and "(sock_pipes s ++ pipes (sock_protocol s)) eid = Some pipe"
  shows "runs (socket_remove_pipe ops s ctx eid) (\<lambda>(spec, s', ctx').
    sock_pipes s' ++ pipes (sock_protocol s') = (sock_pipes s ++ pipes (sock_protocol s))(eid := None) \<and>
    fresh_eid pipes s' eid \<and> sock_config s' = sock_config s \<and>
    (\<exists>es. trace ctx' = trace ctx @ es @ [NetClose eid True] \<and> (\<forall>e \<in> set es. proto_effect (dom (pipes (sock_protocol s'))) (RemovePipe eid) e)) \<and>
    spec = map_option (\<lambda>url. \<lparr>spec_url = url, spec_desc = ep_desc (pipe_endpoint pipe)\<rparr>) (ep_url (pipe_endpoint pipe)))"
proof -
  have good: "good (sock_protocol s)" using assms(1) by (simp add: socket_ok_def)
  have ids: "ep_id (pipe_endpoint pipe) = eid"
    using assms(4) socket_okD(1) [OF assms(1)] good_pipes [OF good]
    by (auto simp: map_add_Some_iff good_pipe_def pipes_ok_id)
  show ?thesis
  proof (cases "sock_pipes s eid")
    case (Some q)
    then show ?thesis using assms(4) socket_okD [OF assms(1) Some] ids
      by (auto simp: socket_remove_pipe_def pipe_close_emit fresh_eid_def map_add_def fun_eq_iff split: option.splits)
  next
    case None
    then have there: "pipes (sock_protocol s) eid = Some pipe" using assms(4) by (auto simp: map_add_Some_iff)
    then obtain p ctx1 where rm: "op_remove_pipe ops (sock_protocol s) ctx eid = Some (Some pipe, p, ctx1)"
      using remove_law [OF good assms(3,2)] by (auto elim!: runsE)
    then have "step_ok ops good pipes (RemovePipe eid) (sock_protocol s) ctx p ctx1"
      using step_law [OF good, of "RemovePipe eid" ctx] assms(2,3) by (auto elim!: runsE)
    then have moved: "pipes p = (pipes (sock_protocol s))(eid := None)"
      and log: "\<exists>es. trace ctx1 = trace ctx @ es \<and> (\<forall>e \<in> set es. proto_effect (dom (pipes p)) (RemovePipe eid) e)"
      by (auto simp: step_ok_def emits_def)
    show ?thesis using rm moved log None ids
      by (auto simp: socket_remove_pipe_def pipe_close_emit fresh_eid_def map_add_def fun_eq_iff split: option.splits)
  qed
qed

lemma pipe_error_reconnects:
  assumes "socket_ok good pipes s" and "enumerates (hash_order (env ctx))" and "admits (sock_protocol s) (RemovePipe eid)"
    and "(sock_pipes s ++ pipes (sock_protocol s)) eid = Some pipe"
  shows "runs (socket_on_pipe_error ops s ctx eid) (\<lambda>(s', ctx').
    sock_pipes s' ++ pipes (sock_protocol s') = (sock_pipes s ++ pipes (sock_protocol s))(eid := None) \<and> fresh_eid pipes s' eid \<and>
    (\<exists>es. trace ctx' = trace ctx @ es @ NetClose eid True #
       (case ep_url (pipe_endpoint pipe) of
          Some url \<Rightarrow> [Scheduling (Reconnect eid \<lparr>spec_url = url, spec_desc = ep_desc (pipe_endpoint pipe)\<rparr>) (cfg_retry_ivl (sock_config s))]
        | None \<Rightarrow> []) \<and>
      (\<forall>e \<in> set es. (\<forall>i remote. e \<noteq> NetClose i remote) \<and> (\<forall>task delay. e = Scheduling task delay \<longrightarrow> \<not> is_retry task))))"
proof -
  have quiet: "(\<forall>i remote. e \<noteq> NetClose i remote) \<and> (\<forall>task delay. e = Scheduling task delay \<longrightarrow> \<not> is_retry task)"
    if "proto_effect D (RemovePipe eid) e" for D e
    using that by (cases e) auto
  from remove_pipe_closes [OF assms] obtain spec s' ctx' es where rm: "socket_remove_pipe ops s ctx eid = Some (spec, s', ctx')"
    and after: "sock_pipes s' ++ pipes (sock_protocol s') = (sock_pipes s ++ pipes (sock_protocol s))(eid := None)"
      "fresh_eid pipes s' eid" "sock_config s' = sock_config s"
    and log: "trace ctx' = trace ctx @ es @ [NetClose eid True]" "\<forall>e \<in> set es. proto_effect (dom (pipes (sock_protocol s'))) (RemovePipe eid) e"
    and spec: "spec = map_option (\<lambda>url. \<lparr>spec_url = url, spec_desc = ep_desc (pipe_endpoint pipe)\<rparr>) (ep_url (pipe_endpoint pipe))"
    by (auto elim!: runsE)
  then show ?thesis using quiet
    by (cases "ep_url (pipe_endpoint pipe)")
      (auto simp: socket_on_pipe_error_def schedule_reconnect_def schedule_def Let_def intro!: exI [of _ es])
qed

end

end
