(* ===== verification/Protocol_Machine.thy ===== *)
theory Protocol_Machine
  imports Core_Socket
begin

text \<open>
  Nine of the ten protocols are state machines of the same make: an inner record, a
  state, and a method \<open>apply\<close> that runs a transition and raises the readiness events
  it caused. This theory states what \<open>apply\<close> promises as a locale and derives the
  steps of the contract \<open>Protocol_Spec\<close> from what each transition does.
\<close>

section \<open>Transitions and steps\<close>

text \<open>
  A transition keeps the invariant and the pipes, raises no readiness event by
  itself, and (when the request discipline is followed, \<open>due\<close>) answers or keeps the
  outstanding request, \<open>k\<close> being the number of requests it was given.
\<close>

definition moves ::
  "('i \<Rightarrow> 's \<Rightarrow> bool) \<Rightarrow> ('i \<Rightarrow> pipe_collection) \<Rightarrow> ('s \<Rightarrow> bool) \<Rightarrow> bool \<Rightarrow> nat \<Rightarrow>
   's \<Rightarrow> ctx \<Rightarrow> 'i \<Rightarrow> 's \<times> ctx \<times> 'i \<Rightarrow> bool" where
  "moves ok pipes busy due k s ctx inner r \<longleftrightarrow> (case r of (s', ctx', inner') \<Rightarrow>
     ok inner' s' \<and> pipes inner' = pipes inner \<and> emits (quiet_on (dom (pipes inner))) ctx ctx' \<and>
     (due \<longrightarrow> count_replies (trace ctx') + of_bool (busy s') = count_replies (trace ctx) + of_bool (busy s) + k))"

lemma moves_from:
  assumes "pipes i = pipes inner" and "runs m (moves ok pipes busy due k s ctx i)"
  shows "runs m (moves ok pipes busy due k s ctx inner)"
  using assms by (simp add: moves_def [abs_def])

definition in_state :: "('s \<Rightarrow> bool) \<Rightarrow> 's option \<Rightarrow> bool" where
  "in_state P st \<longleftrightarrow> (case st of Some s \<Rightarrow> P s | None \<Rightarrow> False)"

lemma in_state_simps [simp]: "in_state P (Some s) = P s" "\<not> in_state P None"
  by (simp_all add: in_state_def)

fun pipes_after :: "proto_cmd \<Rightarrow> pipe_collection \<Rightarrow> pipe_collection" where
  "pipes_after (AddPipe eid pipe) ps = ps(eid \<mapsto> pipe)"
| "pipes_after (RemovePipe eid) ps = ps(eid := None)"
| "pipes_after _ ps = ps"

text \<open>A step of the whole protocol; \<open>busy p\<close> tells whether a request is outstanding.\<close>

definition machine_step ::
  "'p protocol_ops \<Rightarrow> ('p \<Rightarrow> bool) \<Rightarrow> ('p \<Rightarrow> pipe_collection) \<Rightarrow> ('p \<Rightarrow> bool) \<Rightarrow> proto_cmd \<Rightarrow> bool \<Rightarrow>
   'p \<Rightarrow> ctx \<Rightarrow> 'p \<times> ctx \<Rightarrow> bool" where
  "machine_step ops good pipes busy cmd due p ctx r \<longleftrightarrow> (case r of (p', ctx') \<Rightarrow>
     good p' \<and> pipes p' = pipes_after cmd (pipes p) \<and>
     emits (proto_effect (dom (pipes p')) cmd) ctx ctx' \<and>
     (\<forall>eid remote. NetClose eid remote \<notin> set (added ctx ctx')) \<and>
     (cmd \<noteq> DevicePlugged \<longrightarrow> tracked ops p ctx \<longrightarrow> tracked ops p' ctx') \<and>
     (due \<longrightarrow> count_replies (trace ctx') + of_bool (busy p') =
        count_replies (trace ctx) + of_bool (busy p) + of_bool (is_request cmd)))"

lemma machine_step_contract:
  assumes "runs m (machine_step ops good pipes (\<lambda>p. sending p \<or> receiving p) cmd due p ctx)"
  shows "runs m (\<lambda>(p', ctx'). step_ok ops good pipes cmd p ctx p' ctx')"
    and "due \<Longrightarrow> runs m (\<lambda>(p', ctx'). count_replies (trace ctx') + outstanding sending receiving p' =
      count_replies (trace ctx) + outstanding sending receiving p + of_bool (is_request cmd))"
  using assms
  by (cases cmd; auto simp: machine_step_def step_ok_def outstanding_def elim!: runs_mono)+

lemma machine_step_idle:
  assumes "good p'" and "pipes p' = pipes_after cmd (pipes p)"
    and "op_is_send_ready ops p' = op_is_send_ready ops p" "op_is_recv_ready ops p' = op_is_recv_ready ops p"
    and "busy p' = busy p" and "\<not> is_request cmd"
  shows "machine_step ops good pipes busy cmd due p ctx (p', ctx)"
  using assms by (simp add: machine_step_def tracked_def added_def)

text \<open>A step that only replies and manages timers.\<close>

lemma machine_step_quiet:
  assumes "good p'" and "pipes p' = pipes p" and "pipes_after cmd (pipes p) = pipes p"
    and "op_is_send_ready ops p' = op_is_send_ready ops p" "op_is_recv_ready ops p' = op_is_recv_ready ops p"
    and "emits (quiet_on {}) ctx ctx'"
    and "due \<Longrightarrow> count_replies (trace ctx') + of_bool (busy p') =
      count_replies (trace ctx) + of_bool (busy p) + of_bool (is_request cmd)"
  shows "machine_step ops good pipes busy cmd due p ctx (p', ctx')"
proof -
  have "emits (proto_effect (dom (pipes p)) cmd) ctx ctx'"
    using assms(6) by (rule emits_mono) (auto elim!: quiet_on.elims)
  moreover have "NetClose eid remote \<notin> set (added ctx ctx')" for eid remote
    using assms(6) by (force simp: emits_def added_def)
  ultimately show ?thesis
    using assms emits_quiet_seen [OF assms(6), of False] by (simp add: machine_step_def tracked_def)
qed

text \<open>Steps only depend on what the base state shows.\<close>

lemma machine_step_base:
  assumes "machine_step ops good pipes busy cmd due p1 ctx r"
    and "pipes p1 = pipes p" "busy p1 = busy p"
    and "op_is_send_ready ops p1 = op_is_send_ready ops p" "op_is_recv_ready ops p1 = op_is_recv_ready ops p"
  shows "machine_step ops good pipes busy cmd due p ctx r"
  using assms by (simp add: machine_step_def tracked_def split: prod.splits)

lemma quiet_no_close:
  assumes "emits (quiet_on D) ctx ctx'"
  shows "NetClose eid remote \<notin> set (added ctx ctx')"
  using assms by (force simp: emits_def added_def)

lemma added_check:
  assumes "emits P ctx ctx'"
  shows "set (added ctx (check_send_ready_change ctx' was now)) \<subseteq> set (added ctx ctx') \<union> {Raise (CanSend now)}"
    and "set (added ctx (check_recv_ready_change ctx' was now)) \<subseteq> set (added ctx ctx') \<union> {Raise (CanRecv now)}"
  using assms by (auto simp: emits_def added_def context_call_defs)

text \<open>A broadcast is traffic on known pipes.\<close>

lemma send_to_all_effects:
  assumes "pipes_ok ps" and "bc \<subseteq> dom ps" and "enumerates (hash_order (env ctx))"
  shows "\<exists>ctx'. send_to_all bc ps ctx msg = ({}, ctx') \<and> emits (quiet_on (dom ps)) ctx ctx' \<and>
    count_replies (trace ctx') = count_replies (trace ctx)"
proof -
  have "set (hash_order (env ctx) bc) = bc"
    using assms finite_subset [OF assms(2) pipes_ok_finite] by (simp add: enumerates_def)
  moreover have "count_replies (map (\<lambda>eid. NetSend eid msg) xs) = 0" for xs
    by (induction xs) simp_all
  ultimately show ?thesis
    using assms(2) by (auto simp: send_to_all_eq [OF assms] emits_def)
qed

section \<open>The contract of apply\<close>

locale machine =
  fixes ops :: "'p protocol_ops"
    and apply_tr :: "'p \<Rightarrow> ctx \<Rightarrow> ('s \<Rightarrow> ctx \<Rightarrow> 'i \<Rightarrow> ('s \<times> ctx \<times> 'i) option) \<Rightarrow> ('p \<times> ctx) option"
    and inner :: "'p \<Rightarrow> 'i"
    and state :: "'p \<Rightarrow> 's option"
    and build :: "'p \<Rightarrow> 'i \<Rightarrow> 's \<Rightarrow> 'p"
    and send_ready :: "'s \<Rightarrow> 'i \<Rightarrow> bool"
    and recv_ready :: "'s \<Rightarrow> 'i \<Rightarrow> bool"
  assumes build_laws: "inner (build p i s) = i" "state (build p i s) = Some s"
    and ready_laws: "state p = Some s \<Longrightarrow> op_is_send_ready ops p = send_ready s (inner p)"
      "state p = Some s \<Longrightarrow> op_is_recv_ready ops p = recv_ready s (inner p)"
    and apply_law: "state p = Some s \<Longrightarrow> apply_tr p ctx t = do {
      (s', ctx', i') \<leftarrow> t s ctx (inner p);
      Some (build p i' s',
        check_recv_ready_change
          (check_send_ready_change ctx' (send_ready s (inner p)) (send_ready s' i'))
          (recv_ready s (inner p)) (recv_ready s' i')) }"
begin

text \<open>A step made of one transition.\<close>

lemma apply_step:
  assumes state: "state p = Some s"
    and trans: "runs (t s ctx (inner p)) (moves ok pipes busy due k s ctx (inner p))"
    and cmd: "pipes_after cmd (pipes (inner p)) = pipes (inner p)" "k = of_bool (is_request cmd)"
  shows "runs (apply_tr p ctx t)
    (machine_step ops (\<lambda>p. \<exists>s. state p = Some s \<and> ok (inner p) s) (\<lambda>p. pipes (inner p))
       (\<lambda>p. in_state busy (state p)) cmd due p ctx)"
proof -
  obtain s' ctx1 i' where t: "t s ctx (inner p) = Some (s', ctx1, i')"
    and m: "moves ok pipes busy due k s ctx (inner p) (s', ctx1, i')"
    using trans by (auto elim!: runsE)
  let ?c2 = "check_send_ready_change ctx1 (send_ready s (inner p)) (send_ready s' i')"
  let ?c3 = "check_recv_ready_change ?c2 (recv_ready s (inner p)) (recv_ready s' i')"
  have e: "emits (quiet_on (dom (pipes (inner p)))) ctx ctx1" using m by (simp add: moves_def)
  have e1: "emits (proto_effect (dom (pipes (inner p))) cmd) ctx ctx1" by (rule emits_quiet [OF e])
  have e2: "emits (proto_effect (dom (pipes (inner p))) cmd) ctx ?c2" using e1 by (auto intro: emits_check)
  have "emits (proto_effect (dom (pipes (inner p))) cmd) ctx ?c3" using e2 by (auto intro: emits_check)
  moreover have "NetClose eid remote \<notin> set (added ctx ?c3)" for eid remote
    using added_check(2) [OF e2, of "recv_ready s (inner p)" "recv_ready s' i'"]
      added_check(1) [OF e1, of "send_ready s (inner p)" "send_ready s' i'"] quiet_no_close [OF e] by blast
  moreover have "tracked ops (build p i' s') ?c3" if "tracked ops p ctx"
    using that emits_quiet_seen [OF e, of False]
    by (simp add: tracked_def ready_laws [OF state] ready_laws [OF build_laws(2)] build_laws)
  ultimately show ?thesis
    using m cmd by (simp add: apply_law [OF state] t machine_step_def moves_def build_laws state)
qed

text \<open>
  The respondent's transition for a readable pipe raises the event by itself, before
  \<open>apply\<close> may raise it again.
\<close>

lemma apply_step_raised:
  assumes state: "state p = Some s"
    and trans: "runs (t s ctx (inner p)) (\<lambda>r. moves ok pipes busy due 0 s (raise_evt ctx (CanRecv True)) (inner p) r \<and>
      (case r of (s', _, i') \<Rightarrow> recv_ready s' i'))"
    and cmd: "pipes_after cmd (pipes (inner p)) = pipes (inner p)" "\<not> is_request cmd"
  shows "runs (apply_tr p ctx t)
    (machine_step ops (\<lambda>p. \<exists>s. state p = Some s \<and> ok (inner p) s) (\<lambda>p. pipes (inner p))
       (\<lambda>p. in_state busy (state p)) cmd due p ctx)"
proof -
  let ?c0 = "raise_evt ctx (CanRecv True)"
  obtain s' ctx1 i' where t: "t s ctx (inner p) = Some (s', ctx1, i')"
    and m: "moves ok pipes busy due 0 s ?c0 (inner p) (s', ctx1, i')" and r: "recv_ready s' i'"
    using trans by (auto elim!: runsE)
  let ?c2 = "check_send_ready_change ctx1 (send_ready s (inner p)) (send_ready s' i')"
  let ?c3 = "check_recv_ready_change ?c2 (recv_ready s (inner p)) (recv_ready s' i')"
  let ?E = "emits (proto_effect (dom (pipes (inner p))) cmd)"
  have e: "emits (quiet_on (dom (pipes (inner p)))) ?c0 ctx1" using m by (simp add: moves_def)
  have e0: "?E ctx ?c0" by (auto simp: raise_evt_def intro: emits_intros)
  have e1: "?E ctx ctx1" by (rule emits_trans [OF e0 emits_quiet [OF e]])
  have e2: "?E ctx ?c2" using e1 by (auto intro: emits_check)
  have "?E ctx ?c3" using e2 by (auto intro: emits_check)
  moreover have "added ctx ctx1 = Raise (CanRecv True) # added ?c0 ctx1"
    using e by (auto simp: emits_def added_def raise_evt_def)
  then have "NetClose eid remote \<notin> set (added ctx ?c3)" for eid remote
    using subsetD [OF added_check(2) [OF e2]] subsetD [OF added_check(1) [OF e1]] quiet_no_close [OF e]
    by fastforce
  moreover have "tracked ops (build p i' s') ?c3" if "tracked ops p ctx"
    using that emits_quiet_seen [OF e, of False] r
    by (auto simp: tracked_def ready_laws [OF state] ready_laws [OF build_laws(2)] build_laws context_call_defs)
  ultimately show ?thesis
    using m cmd by (simp add: apply_law [OF state] t machine_step_def moves_def build_laws state raise_evt_def)
qed

text \<open>
  Removing a pipe: the readiness is compared before and after, either before the
  transition (\<open>push\<close>, \<open>pull\<close>, \<open>sub\<close>) or after it (the others). In the latter case the
  listeners still end up right, because a removal can only lose readiness.
\<close>

lemma remove_step:
  assumes state: "state p = Some s" "state p1 = Some s"
    and pipes1: "pipes (inner p1) = (pipes (inner p))(eid := None)"
    and trans: "runs (t s ctx1 (inner p1)) (moves ok pipes busy True 0 s ctx1 (inner p1))"
    and ctx1: "ctx1 = check_recv_ready_change
      (check_send_ready_change ctx (op_is_send_ready ops p) (op_is_send_ready ops p1))
      (op_is_recv_ready ops p) (op_is_recv_ready ops p1)"
  shows "runs (apply_tr p1 ctx1 t)
    (machine_step ops (\<lambda>p. \<exists>s. state p = Some s \<and> ok (inner p) s) (\<lambda>p. pipes (inner p))
       (\<lambda>p. in_state busy (state p)) (RemovePipe eid) due p ctx)"
proof -
  have step: "runs (apply_tr p1 ctx1 t)
    (machine_step ops (\<lambda>p. \<exists>s. state p = Some s \<and> ok (inner p) s) (\<lambda>p. pipes (inner p))
       (\<lambda>p. in_state busy (state p)) (SendAck eid) True p1 ctx1)"
    by (rule apply_step [where t = t and s = s and k = 0]) (use state(2) trans in auto)
  let ?P = "proto_effect (dom ((pipes (inner p))(eid := None)))"
  have pre: "emits (?P cmd) ctx ctx1" "count_replies (trace ctx1) = count_replies (trace ctx)" for cmd
    by (auto simp: ctx1 intro!: emits_check)
  have raised: "set (added ctx ctx1) \<subseteq> range Raise"
    by (auto simp: ctx1 context_call_defs added_def)
  have "tracked ops p ctx \<Longrightarrow> tracked ops p1 ctx1" by (simp add: tracked_def ctx1)
  moreover have "emits (?P (RemovePipe eid)) ctx1 ctx2" if "emits (?P (SendAck eid)) ctx1 ctx2" for ctx2
    using that by (rule emits_mono) (elim proto_effect.elims; auto)
  moreover have "NetClose e r \<notin> set (added ctx ctx2)"
    if "emits (?P (SendAck eid)) ctx1 ctx2" "NetClose e r \<notin> set (added ctx1 ctx2)" for ctx2 e r
  proof -
    have "added ctx ctx2 = added ctx ctx1 @ added ctx1 ctx2"
      using that(1) pre(1) [of "SendAck eid"] by (auto simp: emits_def added_def)
    with that(2) raised show ?thesis by auto
  qed
  ultimately show ?thesis
    using step pre(2) emits_trans [OF pre(1)]
    by (auto simp: machine_step_def state pipes1 elim!: runs_mono)
qed

lemma remove_step_late:
  assumes state: "state p = Some s" "state p1 = Some s"
    and pipes1: "pipes (inner p1) = (pipes (inner p))(eid := None)"
    and lost: "op_is_send_ready ops p1 \<Longrightarrow> op_is_send_ready ops p" "op_is_recv_ready ops p1 \<Longrightarrow> op_is_recv_ready ops p"
    and trans: "runs (t s ctx (inner p1)) (\<lambda>r. moves ok pipes busy True 0 s ctx (inner p1) r \<and>
      (case r of (s', _, i') \<Rightarrow> (send_ready s' i' \<longrightarrow> send_ready s (inner p1)) \<and> (recv_ready s' i' \<longrightarrow> recv_ready s (inner p1))))"
  shows "runs (do { (p', ctx') \<leftarrow> apply_tr p1 ctx t;
      Some (p', check_recv_ready_change
        (check_send_ready_change ctx' (op_is_send_ready ops p) (op_is_send_ready ops p1))
        (op_is_recv_ready ops p) (op_is_recv_ready ops p1)) })
    (machine_step ops (\<lambda>p. \<exists>s. state p = Some s \<and> ok (inner p) s) (\<lambda>p. pipes (inner p))
       (\<lambda>p. in_state busy (state p)) (RemovePipe eid) due p ctx)"
proof -
  obtain s' ctx1 i' where t: "t s ctx (inner p1) = Some (s', ctx1, i')"
    and m: "moves ok pipes busy True 0 s ctx (inner p1) (s', ctx1, i')"
    and less: "send_ready s' i' \<Longrightarrow> send_ready s (inner p1)" "recv_ready s' i' \<Longrightarrow> recv_ready s (inner p1)"
    using trans by (auto elim!: runsE)
  let ?c2 = "check_send_ready_change ctx1 (send_ready s (inner p1)) (send_ready s' i')"
  let ?c3 = "check_recv_ready_change ?c2 (recv_ready s (inner p1)) (recv_ready s' i')"
  let ?c4 = "check_send_ready_change ?c3 (op_is_send_ready ops p) (op_is_send_ready ops p1)"
  let ?c5 = "check_recv_ready_change ?c4 (op_is_recv_ready ops p) (op_is_recv_ready ops p1)"
  let ?E = "emits (proto_effect (dom ((pipes (inner p))(eid := None))) (RemovePipe eid)) ctx"
  have e: "emits (quiet_on (dom ((pipes (inner p))(eid := None)))) ctx ctx1"
    using m by (simp add: moves_def pipes1)
  have e1: "?E ctx1" by (rule emits_quiet [OF e])
  have e2: "?E ?c2" using e1 by (auto intro: emits_check)
  have e3: "?E ?c3" using e2 by (auto intro: emits_check)
  have e4: "?E ?c4" using e3 by (auto intro: emits_check)
  have "?E ?c5" using e4 by (auto intro: emits_check)
  moreover have "NetClose e r \<notin> set (added ctx ?c5)" for e r
    using subsetD [OF added_check(2) [OF e4]] subsetD [OF added_check(1) [OF e3]]
      subsetD [OF added_check(2) [OF e2]] subsetD [OF added_check(1) [OF e1]] quiet_no_close [OF e]
    by fastforce
  moreover have "tracked ops (build p1 i' s') ?c5" if "tracked ops p ctx"
    using that emits_quiet_seen [OF e, of False] less lost
    by (auto simp: tracked_def ready_laws [OF state(1)] ready_laws [OF state(2)]
        ready_laws [OF build_laws(2)] build_laws context_call_defs)
  ultimately show ?thesis
    using m by (simp add: apply_law [OF state(2)] t machine_step_def moves_def build_laws state pipes1)
qed

end

end
