(* ===== verification/Proto_Push.thy ===== *)
theory Proto_Push
  imports Protocol_Machine
begin

text \<open>
  The push side of the pipeline protocol, \<open>src/proto/push.rs\<close>: messages are load
  balanced among the ready pipes; a message that finds no ready pipe is kept on hold
  until one shows up.
\<close>

section \<open>Data\<close>

datatype push_state =
    PushIdle
  | PushSending endpoint_id message timeout
  | PushSendOnHold message timeout

record push_inner =
  push_pipes :: pipe_collection
  push_lb :: priolist

record push =
  push_inner :: push_inner
  push_state :: "push_state option"

definition push_from :: push where
  "push_from = \<lparr>push_inner = \<lparr>push_pipes = pipes_new, push_lb = priolist_new\<rparr>, push_state = Some PushIdle\<rparr>"

section \<open>Inner\<close>

definition push_inner_add_pipe :: "push_inner \<Rightarrow> endpoint_id \<Rightarrow> pipe \<Rightarrow> push_inner" where
  "push_inner_add_pipe inner eid pipe =
     inner\<lparr>push_lb := priolist_insert (push_lb inner) eid (pipe_get_send_priority pipe),
           push_pipes := snd (pipes_insert (push_pipes inner) eid pipe)\<rparr>"

definition push_inner_remove_pipe :: "push_inner \<Rightarrow> endpoint_id \<Rightarrow> (pipe option \<times> push_inner) option" where
  "push_inner_remove_pipe inner eid = do {
     lb \<leftarrow> priolist_remove (push_lb inner) eid;
     let (pipe, pipes) = pipes_remove (push_pipes inner) eid;
     Some (pipe, inner\<lparr>push_lb := lb, push_pipes := pipes\<rparr>) }"

definition push_inner_send :: "push_inner \<Rightarrow> ctx \<Rightarrow> message \<Rightarrow> (endpoint_id option \<times> ctx \<times> push_inner) option" where
  "push_inner_send inner ctx msg = do {
     (r, lb, ctx') \<leftarrow> load_balancing_send (push_lb inner) (push_pipes inner) ctx msg;
     Some (r, ctx', inner\<lparr>push_lb := lb\<rparr>) }"

definition push_inner_on_send_ready :: "push_inner \<Rightarrow> endpoint_id \<Rightarrow> push_inner option" where
  "push_inner_on_send_ready inner eid = do {
     lb \<leftarrow> activate (push_lb inner) eid;
     Some (inner\<lparr>push_lb := lb\<rparr>) }"

definition push_inner_on_send_not_ready :: "push_inner \<Rightarrow> endpoint_id \<Rightarrow> push_inner option" where
  "push_inner_on_send_not_ready inner eid = do {
     lb \<leftarrow> deactivate (push_lb inner) eid;
     Some (inner\<lparr>push_lb := lb\<rparr>) }"

definition push_inner_on_send_ack :: "ctx \<Rightarrow> timeout \<Rightarrow> ctx" where
  "push_inner_on_send_ack ctx timeout = cancel_opt (send_reply ctx ReplySend) timeout"

definition push_inner_on_send_timeout :: "ctx \<Rightarrow> ctx" where
  "push_inner_on_send_timeout ctx = send_reply ctx (ReplyErr (timedout_io_error ''Send timed out''))"

definition push_inner_is_send_ready :: "push_inner \<Rightarrow> bool" where
  "push_inner_is_send_ready inner = peek (push_lb inner)"

definition push_inner_recv :: "ctx \<Rightarrow> timeout \<Rightarrow> ctx" where
  "push_inner_recv ctx timeout =
     cancel_opt (send_reply ctx (ReplyErr (other_io_error ''Recv is not supported by push protocol''))) timeout"

definition push_inner_close :: "push_inner \<Rightarrow> ctx \<Rightarrow> push_inner \<times> ctx" where
  "push_inner_close inner ctx =
     (let (pipes, ctx') = pipes_close_all (push_pipes inner) ctx in (inner\<lparr>push_pipes := pipes\<rparr>, ctx'))"

section \<open>State\<close>

type_synonym push_result = "(push_state \<times> ctx \<times> push_inner) option"

definition push_st_send :: "push_state \<Rightarrow> ctx \<Rightarrow> push_inner \<Rightarrow> message \<Rightarrow> timeout \<Rightarrow> push_result" where
  "push_st_send s ctx inner msg timeout = do {
     (r, ctx', inner') \<leftarrow> push_inner_send inner ctx msg;
     (case r of
        Some eid \<Rightarrow> Some (PushSending eid msg timeout, ctx', inner')
      | None \<Rightarrow> Some (PushSendOnHold msg timeout, ctx', inner')) }"

definition push_st_on_pipe_removed :: "push_state \<Rightarrow> ctx \<Rightarrow> push_inner \<Rightarrow> endpoint_id \<Rightarrow> push_result" where
  "push_st_on_pipe_removed s ctx inner eid =
     (case s of
        PushSending i msg timeout \<Rightarrow>
          if i = eid then push_st_send PushIdle ctx inner msg timeout
          else Some (PushSending i msg timeout, ctx, inner)
      | _ \<Rightarrow> Some (s, ctx, inner))"

definition push_st_on_send_ack :: "push_state \<Rightarrow> ctx \<Rightarrow> push_inner \<Rightarrow> endpoint_id \<Rightarrow> push_result" where
  "push_st_on_send_ack s ctx inner eid =
     (case s of
        PushSending i msg timeout \<Rightarrow>
          if i = eid then Some (PushIdle, push_inner_on_send_ack ctx timeout, inner)
          else Some (PushSending i msg timeout, ctx, inner)
      | _ \<Rightarrow> Some (s, ctx, inner))"

definition push_st_on_send_timeout :: "push_state \<Rightarrow> ctx \<Rightarrow> push_inner \<Rightarrow> push_result" where
  "push_st_on_send_timeout s ctx inner = Some (PushIdle, push_inner_on_send_timeout ctx, inner)"

definition push_st_on_send_ready :: "push_state \<Rightarrow> ctx \<Rightarrow> push_inner \<Rightarrow> endpoint_id \<Rightarrow> push_result" where
  "push_st_on_send_ready s ctx inner eid = do {
     inner' \<leftarrow> push_inner_on_send_ready inner eid;
     (case s of
        PushSendOnHold msg timeout \<Rightarrow> push_st_send PushIdle ctx inner' msg timeout
      | _ \<Rightarrow> Some (s, ctx, inner')) }"

definition push_st_on_send_not_ready :: "push_state \<Rightarrow> ctx \<Rightarrow> push_inner \<Rightarrow> endpoint_id \<Rightarrow> push_result" where
  "push_st_on_send_not_ready s ctx inner eid = do {
     inner' \<leftarrow> push_inner_on_send_not_ready inner eid;
     Some (s, ctx, inner') }"

definition push_st_recv :: "push_state \<Rightarrow> ctx \<Rightarrow> push_inner \<Rightarrow> timeout \<Rightarrow> push_result" where
  "push_st_recv s ctx inner timeout = Some (s, push_inner_recv ctx timeout, inner)"

definition push_st_on_recv_ack :: "push_state \<Rightarrow> ctx \<Rightarrow> push_inner \<Rightarrow> endpoint_id \<Rightarrow> message \<Rightarrow> push_result" where
  "push_st_on_recv_ack s ctx inner eid msg = Some (s, ctx, inner)"

definition push_st_on_recv_timeout :: "push_state \<Rightarrow> ctx \<Rightarrow> push_inner \<Rightarrow> push_result" where
  "push_st_on_recv_timeout s ctx inner = Some (s, ctx, inner)"

definition push_st_on_recv_ready :: "push_state \<Rightarrow> ctx \<Rightarrow> push_inner \<Rightarrow> endpoint_id \<Rightarrow> push_result" where
  "push_st_on_recv_ready s ctx inner eid = Some (s, ctx, inner)"

definition push_st_on_recv_not_ready :: "push_state \<Rightarrow> ctx \<Rightarrow> push_inner \<Rightarrow> endpoint_id \<Rightarrow> push_result" where
  "push_st_on_recv_not_ready s ctx inner eid = Some (s, ctx, inner)"

section \<open>Protocol\<close>

definition push_is_send_ready :: "push \<Rightarrow> bool" where
  "push_is_send_ready p = push_inner_is_send_ready (push_inner p)"

definition push_is_recv_ready :: "push \<Rightarrow> bool" where
  "push_is_recv_ready p = False"

definition push_apply :: "push \<Rightarrow> ctx \<Rightarrow> (push_state \<Rightarrow> ctx \<Rightarrow> push_inner \<Rightarrow> push_result) \<Rightarrow> (push \<times> ctx) option" where
  "push_apply p ctx transition =
     (case push_state p of
        None \<Rightarrow> Some (p, ctx)
      | Some old_state \<Rightarrow> do {
          let was_send_ready = push_is_send_ready p;
          (new_state, ctx', inner') \<leftarrow> transition old_state ctx (push_inner p);
          let p' = p\<lparr>push_inner := inner', push_state := Some new_state\<rparr>;
          Some (p', check_send_ready_change ctx' was_send_ready (push_is_send_ready p')) })"

definition push_add_pipe :: "push \<Rightarrow> ctx \<Rightarrow> endpoint_id \<Rightarrow> pipe \<Rightarrow> (push \<times> ctx) option" where
  "push_add_pipe p ctx eid pipe = Some (p\<lparr>push_inner := push_inner_add_pipe (push_inner p) eid pipe\<rparr>, ctx)"

definition push_remove_pipe :: "push \<Rightarrow> ctx \<Rightarrow> endpoint_id \<Rightarrow> (pipe option \<times> push \<times> ctx) option" where
  "push_remove_pipe p ctx eid = do {
     let was_send_ready = push_is_send_ready p;
     (pipe, inner') \<leftarrow> push_inner_remove_pipe (push_inner p) eid;
     let p' = p\<lparr>push_inner := inner'\<rparr>;
     let ctx' = check_send_ready_change ctx was_send_ready (push_is_send_ready p');
     (case pipe of
        Some _ \<Rightarrow> do {
          (p'', ctx'') \<leftarrow> push_apply p' ctx' (\<lambda>s ctx inner. push_st_on_pipe_removed s ctx inner eid);
          Some (pipe, p'', ctx'') }
      | None \<Rightarrow> Some (pipe, p', ctx')) }"

definition push_send :: "push \<Rightarrow> ctx \<Rightarrow> message \<Rightarrow> timeout \<Rightarrow> (push \<times> ctx) option" where
  "push_send p ctx msg timeout = push_apply p ctx (\<lambda>s ctx inner. push_st_send s ctx inner msg timeout)"

definition push_on_send_ack :: "push \<Rightarrow> ctx \<Rightarrow> endpoint_id \<Rightarrow> (push \<times> ctx) option" where
  "push_on_send_ack p ctx eid = push_apply p ctx (\<lambda>s ctx inner. push_st_on_send_ack s ctx inner eid)"

definition push_on_send_timeout :: "push \<Rightarrow> ctx \<Rightarrow> (push \<times> ctx) option" where
  "push_on_send_timeout p ctx = push_apply p ctx push_st_on_send_timeout"

definition push_on_send_ready :: "push \<Rightarrow> ctx \<Rightarrow> endpoint_id \<Rightarrow> (push \<times> ctx) option" where
  "push_on_send_ready p ctx eid = push_apply p ctx (\<lambda>s ctx inner. push_st_on_send_ready s ctx inner eid)"

definition push_on_send_not_ready :: "push \<Rightarrow> ctx \<Rightarrow> endpoint_id \<Rightarrow> (push \<times> ctx) option" where
  "push_on_send_not_ready p ctx eid = push_apply p ctx (\<lambda>s ctx inner. push_st_on_send_not_ready s ctx inner eid)"

definition push_recv :: "push \<Rightarrow> ctx \<Rightarrow> timeout \<Rightarrow> (push \<times> ctx) option" where
  "push_recv p ctx timeout = push_apply p ctx (\<lambda>s ctx inner. push_st_recv s ctx inner timeout)"

definition push_on_recv_ack :: "push \<Rightarrow> ctx \<Rightarrow> endpoint_id \<Rightarrow> message \<Rightarrow> (push \<times> ctx) option" where
  "push_on_recv_ack p ctx eid msg = push_apply p ctx (\<lambda>s ctx inner. push_st_on_recv_ack s ctx inner eid msg)"

definition push_on_recv_timeout :: "push \<Rightarrow> ctx \<Rightarrow> (push \<times> ctx) option" where
  "push_on_recv_timeout p ctx = push_apply p ctx push_st_on_recv_timeout"

definition push_on_recv_ready :: "push \<Rightarrow> ctx \<Rightarrow> endpoint_id \<Rightarrow> (push \<times> ctx) option" where
  "push_on_recv_ready p ctx eid = push_apply p ctx (\<lambda>s ctx inner. push_st_on_recv_ready s ctx inner eid)"

definition push_on_recv_not_ready :: "push \<Rightarrow> ctx \<Rightarrow> endpoint_id \<Rightarrow> (push \<times> ctx) option" where
  "push_on_recv_not_ready p ctx eid = push_apply p ctx (\<lambda>s ctx inner. push_st_on_recv_not_ready s ctx inner eid)"

definition push_close :: "push \<Rightarrow> ctx \<Rightarrow> push \<times> ctx" where
  "push_close p ctx = (let (inner, ctx') = push_inner_close (push_inner p) ctx in (p\<lparr>push_inner := inner\<rparr>, ctx'))"

definition push_ops :: "push protocol_ops" where
  "push_ops = \<lparr>op_id = \<lambda>_. PUSH_ID, op_peer_id = \<lambda>_. PULL_ID, op_add_pipe = push_add_pipe,
     op_remove_pipe = push_remove_pipe, op_send = push_send, op_on_send_ack = push_on_send_ack,
     op_on_send_timeout = push_on_send_timeout, op_on_send_ready = push_on_send_ready,
     op_on_send_not_ready = push_on_send_not_ready, op_recv = push_recv,
     op_on_recv_ack = push_on_recv_ack, op_on_recv_timeout = push_on_recv_timeout,
     op_on_recv_ready = push_on_recv_ready, op_on_recv_not_ready = push_on_recv_not_ready,
     op_is_send_ready = push_is_send_ready, op_is_recv_ready = push_is_recv_ready,
     op_set_option = default_set_option, op_on_timer_tick = default_on_timer_tick,
     op_on_device_plugged = default_on_device_plugged, op_close = push_close\<rparr>"

lemma push_ops_simps [simp]:
  "op_id push_ops = (\<lambda>_. PUSH_ID)"
  "op_peer_id push_ops = (\<lambda>_. PULL_ID)"
  "op_add_pipe push_ops = push_add_pipe"
  "op_remove_pipe push_ops = push_remove_pipe"
  "op_send push_ops = push_send"
  "op_on_send_ack push_ops = push_on_send_ack"
  "op_on_send_timeout push_ops = push_on_send_timeout"
  "op_on_send_ready push_ops = push_on_send_ready"
  "op_on_send_not_ready push_ops = push_on_send_not_ready"
  "op_recv push_ops = push_recv"
  "op_on_recv_ack push_ops = push_on_recv_ack"
  "op_on_recv_timeout push_ops = push_on_recv_timeout"
  "op_on_recv_ready push_ops = push_on_recv_ready"
  "op_on_recv_not_ready push_ops = push_on_recv_not_ready"
  "op_is_send_ready push_ops = push_is_send_ready"
  "op_is_recv_ready push_ops = push_is_recv_ready"
  "op_set_option push_ops = default_set_option"
  "op_on_timer_tick push_ops = default_on_timer_tick"
  "op_on_device_plugged push_ops = default_on_device_plugged"
  "op_close push_ops = push_close"
  by (simp_all add: push_ops_def)

lemmas push_inner_defs = push_inner_add_pipe_def push_inner_remove_pipe_def push_inner_send_def
  push_inner_on_send_ready_def push_inner_on_send_not_ready_def push_inner_on_send_ack_def
  push_inner_on_send_timeout_def push_inner_is_send_ready_def push_inner_recv_def push_inner_close_def

lemmas push_st_defs = push_st_send_def push_st_on_pipe_removed_def push_st_on_send_ack_def
  push_st_on_send_timeout_def push_st_on_send_ready_def push_st_on_send_not_ready_def
  push_st_recv_def push_st_on_recv_ack_def push_st_on_recv_timeout_def push_st_on_recv_ready_def
  push_st_on_recv_not_ready_def

lemmas push_method_defs = push_send_def push_on_send_ack_def push_on_send_timeout_def
  push_on_send_ready_def push_on_send_not_ready_def push_recv_def push_on_recv_ack_def
  push_on_recv_timeout_def push_on_recv_ready_def push_on_recv_not_ready_def

section \<open>Invariant\<close>

text \<open>
  The load balancer holds exactly the pipes; a message in transit is on a pipe the
  socket has; a message is on hold only while no pipe is ready.
\<close>

definition push_inner_ok :: "push_inner \<Rightarrow> bool" where
  "push_inner_ok inner \<longleftrightarrow> pipes_ok (push_pipes inner) \<and> invar (push_lb inner) \<and>
     ids (push_lb inner) = dom (push_pipes inner)"

fun push_state_ok :: "push_inner \<Rightarrow> push_state \<Rightarrow> bool" where
  "push_state_ok inner PushIdle \<longleftrightarrow> True"
| "push_state_ok inner (PushSending eid _ _) \<longleftrightarrow> eid \<in> dom (push_pipes inner)"
| "push_state_ok inner (PushSendOnHold _ _) \<longleftrightarrow> ready (push_lb inner) = {}"

definition push_ok :: "push_inner \<Rightarrow> push_state \<Rightarrow> bool" where
  "push_ok inner s \<longleftrightarrow> push_inner_ok inner \<and> push_state_ok inner s"

definition push_good :: "push \<Rightarrow> bool" where
  "push_good p \<longleftrightarrow> (\<exists>s. push_state p = Some s \<and> push_ok (push_inner p) s)"

definition push_pipes_of :: "push \<Rightarrow> pipe_collection" where
  "push_pipes_of p = push_pipes (push_inner p)"

fun push_admits :: "push \<Rightarrow> proto_cmd \<Rightarrow> bool" where
  "push_admits p (RemovePipe eid) \<longleftrightarrow> removable (push_lb (push_inner p)) eid"
| "push_admits p _ \<longleftrightarrow> True"

fun push_busy :: "push_state \<Rightarrow> bool" where
  "push_busy PushIdle \<longleftrightarrow> False"
| "push_busy _ \<longleftrightarrow> True"

definition push_sending :: "push \<Rightarrow> bool" where
  "push_sending p \<longleftrightarrow> in_state push_busy (push_state p)"

abbreviation push_moves :: "bool \<Rightarrow> nat \<Rightarrow> push_state \<Rightarrow> ctx \<Rightarrow> push_inner \<Rightarrow> push_state \<times> ctx \<times> push_inner \<Rightarrow> bool" where
  "push_moves \<equiv> moves push_ok push_pipes push_busy"

abbreviation push_step :: "proto_cmd \<Rightarrow> bool \<Rightarrow> push \<Rightarrow> ctx \<Rightarrow> push \<times> ctx \<Rightarrow> bool" where
  "push_step \<equiv> machine_step push_ops push_good push_pipes_of push_sending"

interpretation push_m: machine push_ops push_apply push_inner push_state
  "\<lambda>p i s. p\<lparr>push_inner := i, push_state := Some s\<rparr>" "\<lambda>s. push_inner_is_send_ready" "\<lambda>s i. False"
  by unfold_locales
     (simp_all add: push_ops_def push_apply_def push_is_send_ready_def push_is_recv_ready_def
       check_recv_ready_change_def Let_def)

section \<open>What the transitions do\<close>

lemmas push_unfold = push_st_defs push_inner_defs push_ok_def push_inner_ok_def moves_def context_call_defs

lemma push_st_send_moves:
  assumes "push_inner_ok inner" and "due \<Longrightarrow> k = of_bool (\<not> push_busy s)"
  shows "runs (push_st_send s' ctx inner msg t) (push_moves due k s ctx inner)"
  using assms by (auto simp: push_unfold intro!: runs_intros emits_intros)

lemma push_on_send_ack_moves:
  assumes "push_ok inner s"
  shows "runs (push_st_on_send_ack s ctx inner eid) (push_moves due 0 s ctx inner)"
  using assms by (cases s) (auto simp: push_unfold intro!: runs_intros emits_intros split: option.splits)

lemma push_on_send_timeout_moves:
  assumes "push_ok inner s" and "due \<Longrightarrow> push_busy s"
  shows "runs (push_st_on_send_timeout s ctx inner) (push_moves due 0 s ctx inner)"
  using assms by (cases s) (auto simp: push_unfold intro!: runs_intros emits_intros)

lemma push_on_send_ready_moves:
  assumes "push_ok inner s"
  shows "runs (push_st_on_send_ready s ctx inner eid) (push_moves due 0 s ctx inner)"
  using assms by (cases s) (auto simp: push_unfold intro!: runs_intros emits_intros)

lemma push_on_send_not_ready_moves:
  assumes "push_ok inner s"
  shows "runs (push_st_on_send_not_ready s ctx inner eid) (push_moves due 0 s ctx inner)"
  using assms by (cases s) (auto simp: push_unfold intro!: runs_intros emits_intros)

lemma push_recv_moves:
  assumes "push_ok inner s"
  shows "runs (push_st_recv s ctx inner t) (push_moves due (Suc 0) s ctx inner)"
  using assms by (auto simp: push_unfold intro!: emits_intros split: option.splits)

lemma push_stay_moves:
  assumes "push_ok inner s"
  shows "push_moves due 0 s ctx inner (s, ctx, inner)"
  using assms by (simp add: moves_def)

lemma push_on_pipe_removed_moves:
  assumes "push_inner_ok inner" and "push_state_ok old s"
    and "dom (push_pipes old) - {eid} \<subseteq> dom (push_pipes inner)" and "ready (push_lb inner) \<subseteq> ready (push_lb old)"
  shows "runs (push_st_on_pipe_removed s ctx inner eid) (push_moves due 0 s ctx inner)"
  using assms by (cases s) (auto simp: push_unfold intro!: runs_intros emits_intros)

section \<open>The contract\<close>

lemma push_good_alt: "push_good = (\<lambda>p. \<exists>s. push_state p = Some s \<and> push_ok (push_inner p) s)"
  "push_pipes_of = (\<lambda>p. push_pipes (push_inner p))" "push_sending = (\<lambda>p. in_state push_busy (push_state p))"
  by (simp_all add: fun_eq_iff push_good_def push_pipes_of_def push_sending_def)

lemma push_apply_step:
  assumes "push_state p = Some s"
    and "runs (t s ctx (push_inner p)) (push_moves due (of_bool (is_request cmd)) s ctx (push_inner p))"
    and "pipes_after cmd (push_pipes_of p) = push_pipes_of p"
  shows "runs (push_apply p ctx t) (push_step cmd due p ctx)"
  unfolding push_good_alt
  by (rule push_m.apply_step [where t = t and s = s and k = "of_bool (is_request cmd)"])
     (use assms in \<open>simp_all add: push_good_alt\<close>)

lemma push_add_step:
  assumes "push_good p" and "eid \<notin> dom (push_pipes_of p)" and "good_pipe eid pipe"
  shows "runs (push_add_pipe p ctx eid pipe) (push_step (AddPipe eid pipe) due p ctx)"
proof -
  obtain s where s: "push_state p = Some s" "push_ok (push_inner p) s"
    using assms(1) by (auto simp: push_good_def)
  then have "push_ok (push_inner_add_pipe (push_inner p) eid pipe) s"
    using assms(2,3) queue_insert_laws [of "push_lb (push_inner p)" eid "pipe_get_send_priority pipe"]
    by (cases s) (auto simp: push_ok_def push_inner_ok_def push_inner_add_pipe_def pipes_insert_def good_pipe_def push_pipes_of_def)
  then show ?thesis
    by (auto simp: push_add_pipe_def push_ops_def push_good_alt s push_is_send_ready_def push_inner_is_send_ready_def
      push_is_recv_ready_def push_inner_add_pipe_def pipes_insert_def intro!: machine_step_idle)
qed

lemma push_remove_step:
  assumes "push_good p" and "removable (push_lb (push_inner p)) eid"
  shows "runs (push_remove_pipe p ctx eid)
    (\<lambda>(r, p', ctx'). r = push_pipes_of p eid \<and> push_step (RemovePipe eid) due p ctx (p', ctx'))"
proof -
  obtain s where s: "push_state p = Some s" "push_ok (push_inner p) s"
    using assms(1) by (auto simp: push_good_def)
  let ?q = "push_lb (push_inner p)" and ?ps = "push_pipes (push_inner p)"
  show ?thesis
  proof (cases "?ps eid")
    case None
    then have "priolist_remove ?q eid = Some ?q" "?ps(eid := None) = ?ps"
      using s(2) by (auto simp: push_ok_def push_inner_ok_def intro: priolist_remove_absent)
    then show ?thesis
      using assms(1) None by (auto simp: push_remove_pipe_def push_inner_remove_pipe_def pipes_remove_def
        push_pipes_of_def check_send_ready_change_def Let_def intro!: machine_step_idle)
  next
    case (Some pipe)
    obtain q' where q': "priolist_remove ?q eid = Some q'" "invar q'" "ids q' = ids ?q - {eid}" "ready q' = ready ?q - {eid}"
      using prq.remove_law [of ?q eid] assms(2) s(2) by (auto simp: push_ok_def push_inner_ok_def)
    let ?i = "push_inner p\<lparr>push_lb := q', push_pipes := ?ps(eid := None)\<rparr>"
    have ok: "push_inner_ok ?i" using q' s(2) by (auto simp: push_ok_def push_inner_ok_def)
    let ?ctx = "check_send_ready_change ctx (push_is_send_ready p) (push_is_send_ready (p\<lparr>push_inner := ?i\<rparr>))"
    have removed: "runs (push_st_on_pipe_removed s ?ctx ?i eid) (push_moves True 0 s ?ctx ?i)"
      using s(2) q'(4) by (intro push_on_pipe_removed_moves [OF ok, where old = "push_inner p"]) (auto simp: push_ok_def)
    have "runs (push_apply (p\<lparr>push_inner := ?i\<rparr>) ?ctx (\<lambda>s ctx inner. push_st_on_pipe_removed s ctx inner eid))
        (push_step (RemovePipe eid) due p ctx)"
      unfolding push_good_alt
      by (rule push_m.remove_step [where s = s and pipes = push_pipes and t = "\<lambda>s ctx inner. push_st_on_pipe_removed s ctx inner eid"])
         (use removed in \<open>simp_all add: s push_is_recv_ready_def check_recv_ready_change_def\<close>)
    then show ?thesis
      using q'(1) Some by (auto simp: push_remove_pipe_def push_inner_remove_pipe_def pipes_remove_def
        push_pipes_of_def Let_def elim!: runs_mono)
  qed
qed

lemma push_step_ok:
  assumes "push_good p" and "legal push_pipes_of push_admits p cmd"
  shows "runs (proto_step push_ops cmd p ctx) (push_step cmd (in_turn push_sending (\<lambda>_. False) p cmd) p ctx)"
proof -
  obtain s where s: "push_state p = Some s" "push_ok (push_inner p) s"
    using assms(1) by (auto simp: push_good_def)
  have inner: "push_inner_ok (push_inner p)" using s(2) by (simp add: push_ok_def)
  note step = push_apply_step [OF s(1)]
  note moves = push_st_send_moves [OF inner] push_on_send_ack_moves [OF s(2)] push_on_send_timeout_moves [OF s(2)]
    push_on_send_ready_moves [OF s(2)] push_on_send_not_ready_moves [OF s(2)] push_recv_moves [OF s(2)]
  note methods = push_method_defs default_method_defs push_st_on_recv_ack_def push_st_on_recv_timeout_def
    push_st_on_recv_ready_def push_st_on_recv_not_ready_def
  show ?thesis
  proof (cases cmd)
    case (RemovePipe eid)
    then show ?thesis using assms push_remove_step [OF assms(1), of eid ctx True] by (auto elim!: runs_mono)
  qed (use assms s(1) in \<open>auto simp: methods push_sending_def push_stay_moves [OF s(2)]
         intro!: step moves push_add_step machine_step_idle\<close>)
qed

interpretation push_p: answering_protocol push_ops push_good push_pipes_of push_admits push_sending "\<lambda>_. False" "\<lambda>_ _. True"
proof
  fix p :: push and cmd ctx eid
  note step = machine_step_contract [where sending = push_sending and receiving = "\<lambda>_. False"]
  show "runs (proto_step push_ops cmd p ctx) (\<lambda>(p', ctx'). step_ok push_ops push_good push_pipes_of cmd p ctx p' ctx')"
    if "push_good p" "legal push_pipes_of push_admits p cmd"
    by (rule step(1)) (use push_step_ok [OF that] in simp)
  show "runs (proto_step push_ops cmd p ctx) (\<lambda>(p', ctx').
      count_replies (trace ctx') + outstanding push_sending (\<lambda>_. False) p' =
      count_replies (trace ctx) + outstanding push_sending (\<lambda>_. False) p + of_bool (is_request cmd))"
    if "push_good p" "legal push_pipes_of push_admits p cmd" "in_turn push_sending (\<lambda>_. False) p cmd"
    by (rule step(2) [OF _ that(3)]) (use push_step_ok [OF that(1,2)] in simp)
  show "runs (op_remove_pipe push_ops p ctx eid) (\<lambda>(r, _). r = push_pipes_of p eid)"
    if "push_good p" "push_admits p (RemovePipe eid)"
    using push_remove_step [OF that(1), of eid ctx True] that(2) by (auto elim!: runs_mono)
  show "pipes_ok (push_pipes_of p)" if "push_good p"
    using that by (auto simp: push_good_def push_ok_def push_inner_ok_def push_pipes_of_def)
  then show "\<exists>p' es. op_close push_ops p ctx = (p', ctx\<lparr>trace := trace ctx @ map (\<lambda>eid. NetClose eid True) es\<rparr>) \<and>
      set es = dom (push_pipes_of p) \<and> distinct es \<and> push_pipes_of p' = Map.empty"
    if "push_good p" "enumerates (hash_order (env ctx))"
    using that pipes_close_all_law [of "push_pipes_of p" ctx]
    by (auto simp: push_close_def push_inner_close_def push_pipes_of_def)
qed

end
