(* ===== verification/Proto_Pull.thy ===== *)
theory Proto_Pull
  imports Protocol_Machine
begin

text \<open>
  The pull side of the pipeline protocol, \<open>src/proto/pull.rs\<close>: receptions are fair
  queued among the pipes that have a message; a reception that finds none is kept on
  hold until one shows up.
\<close>

section \<open>Data\<close>

datatype pull_state =
    PullIdle
  | PullReceiving endpoint_id timeout
  | PullRecvOnHold timeout

record pull_inner =
  pull_pipes :: pipe_collection
  pull_fq :: priolist

record pull =
  pull_inner :: pull_inner
  pull_state :: "pull_state option"

definition pull_from :: pull where
  "pull_from = \<lparr>pull_inner = \<lparr>pull_pipes = pipes_new, pull_fq = priolist_new\<rparr>, pull_state = Some PullIdle\<rparr>"

section \<open>Inner\<close>

definition pull_inner_add_pipe :: "pull_inner \<Rightarrow> endpoint_id \<Rightarrow> pipe \<Rightarrow> pull_inner" where
  "pull_inner_add_pipe inner eid pipe =
     inner\<lparr>pull_fq := priolist_insert (pull_fq inner) eid (pipe_get_recv_priority pipe),
           pull_pipes := snd (pipes_insert (pull_pipes inner) eid pipe)\<rparr>"

definition pull_inner_remove_pipe :: "pull_inner \<Rightarrow> endpoint_id \<Rightarrow> (pipe option \<times> pull_inner) option" where
  "pull_inner_remove_pipe inner eid = do {
     fq \<leftarrow> priolist_remove (pull_fq inner) eid;
     let (pipe, pipes) = pipes_remove (pull_pipes inner) eid;
     Some (pipe, inner\<lparr>pull_fq := fq, pull_pipes := pipes\<rparr>) }"

definition pull_inner_send :: "ctx \<Rightarrow> timeout \<Rightarrow> ctx" where
  "pull_inner_send ctx timeout =
     cancel_opt (send_reply ctx (ReplyErr (other_io_error ''Send is not supported by pull protocol''))) timeout"

definition pull_inner_recv :: "pull_inner \<Rightarrow> ctx \<Rightarrow> (endpoint_id option \<times> ctx \<times> pull_inner) option" where
  "pull_inner_recv inner ctx = do {
     (r, fq, ctx') \<leftarrow> fair_queue_recv (pull_fq inner) (pull_pipes inner) ctx;
     Some (r, ctx', inner\<lparr>pull_fq := fq\<rparr>) }"

definition pull_inner_on_recv_ready :: "pull_inner \<Rightarrow> endpoint_id \<Rightarrow> pull_inner option" where
  "pull_inner_on_recv_ready inner eid = do {
     fq \<leftarrow> activate (pull_fq inner) eid;
     Some (inner\<lparr>pull_fq := fq\<rparr>) }"

definition pull_inner_on_recv_not_ready :: "pull_inner \<Rightarrow> endpoint_id \<Rightarrow> pull_inner option" where
  "pull_inner_on_recv_not_ready inner eid = do {
     fq \<leftarrow> deactivate (pull_fq inner) eid;
     Some (inner\<lparr>pull_fq := fq\<rparr>) }"

definition pull_inner_on_recv_ack :: "ctx \<Rightarrow> timeout \<Rightarrow> message \<Rightarrow> ctx" where
  "pull_inner_on_recv_ack ctx timeout msg = cancel_opt (send_reply ctx (ReplyRecv msg)) timeout"

definition pull_inner_on_recv_timeout :: "ctx \<Rightarrow> ctx" where
  "pull_inner_on_recv_timeout ctx = send_reply ctx (ReplyErr (timedout_io_error ''Recv timed out''))"

definition pull_inner_is_recv_ready :: "pull_inner \<Rightarrow> bool" where
  "pull_inner_is_recv_ready inner = peek (pull_fq inner)"

definition pull_inner_close :: "pull_inner \<Rightarrow> ctx \<Rightarrow> pull_inner \<times> ctx" where
  "pull_inner_close inner ctx =
     (let (pipes, ctx') = pipes_close_all (pull_pipes inner) ctx in (inner\<lparr>pull_pipes := pipes\<rparr>, ctx'))"

section \<open>State\<close>

type_synonym pull_result = "(pull_state \<times> ctx \<times> pull_inner) option"

definition pull_st_recv :: "pull_state \<Rightarrow> ctx \<Rightarrow> pull_inner \<Rightarrow> timeout \<Rightarrow> pull_result" where
  "pull_st_recv s ctx inner timeout = do {
     (r, ctx', inner') \<leftarrow> pull_inner_recv inner ctx;
     (case r of
        None \<Rightarrow> Some (PullRecvOnHold timeout, ctx', inner')
      | Some eid \<Rightarrow> Some (PullReceiving eid timeout, ctx', inner')) }"

definition pull_st_on_pipe_removed :: "pull_state \<Rightarrow> ctx \<Rightarrow> pull_inner \<Rightarrow> endpoint_id \<Rightarrow> pull_result" where
  "pull_st_on_pipe_removed s ctx inner eid =
     (case s of
        PullReceiving i timeout \<Rightarrow>
          if i = eid then pull_st_recv PullIdle ctx inner timeout
          else Some (PullReceiving i timeout, ctx, inner)
      | _ \<Rightarrow> Some (s, ctx, inner))"

definition pull_st_send :: "pull_state \<Rightarrow> ctx \<Rightarrow> pull_inner \<Rightarrow> message \<Rightarrow> timeout \<Rightarrow> pull_result" where
  "pull_st_send s ctx inner msg timeout = Some (s, pull_inner_send ctx timeout, inner)"

definition pull_st_on_send_ack :: "pull_state \<Rightarrow> ctx \<Rightarrow> pull_inner \<Rightarrow> endpoint_id \<Rightarrow> pull_result" where
  "pull_st_on_send_ack s ctx inner eid = Some (s, ctx, inner)"

definition pull_st_on_send_timeout :: "pull_state \<Rightarrow> ctx \<Rightarrow> pull_inner \<Rightarrow> pull_result" where
  "pull_st_on_send_timeout s ctx inner = Some (s, ctx, inner)"

definition pull_st_on_send_ready :: "pull_state \<Rightarrow> ctx \<Rightarrow> pull_inner \<Rightarrow> endpoint_id \<Rightarrow> pull_result" where
  "pull_st_on_send_ready s ctx inner eid = Some (s, ctx, inner)"

definition pull_st_on_send_not_ready :: "pull_state \<Rightarrow> ctx \<Rightarrow> pull_inner \<Rightarrow> endpoint_id \<Rightarrow> pull_result" where
  "pull_st_on_send_not_ready s ctx inner eid = Some (s, ctx, inner)"

definition pull_st_on_recv_ack :: "pull_state \<Rightarrow> ctx \<Rightarrow> pull_inner \<Rightarrow> endpoint_id \<Rightarrow> message \<Rightarrow> pull_result" where
  "pull_st_on_recv_ack s ctx inner eid msg =
     (case s of
        PullReceiving i timeout \<Rightarrow>
          if i = eid then Some (PullIdle, pull_inner_on_recv_ack ctx timeout msg, inner)
          else Some (PullReceiving i timeout, ctx, inner)
      | _ \<Rightarrow> Some (s, ctx, inner))"

definition pull_st_on_recv_timeout :: "pull_state \<Rightarrow> ctx \<Rightarrow> pull_inner \<Rightarrow> pull_result" where
  "pull_st_on_recv_timeout s ctx inner = Some (PullIdle, pull_inner_on_recv_timeout ctx, inner)"

definition pull_st_on_recv_ready :: "pull_state \<Rightarrow> ctx \<Rightarrow> pull_inner \<Rightarrow> endpoint_id \<Rightarrow> pull_result" where
  "pull_st_on_recv_ready s ctx inner eid = do {
     inner' \<leftarrow> pull_inner_on_recv_ready inner eid;
     (case s of
        PullRecvOnHold timeout \<Rightarrow> pull_st_recv PullIdle ctx inner' timeout
      | _ \<Rightarrow> Some (s, ctx, inner')) }"

definition pull_st_on_recv_not_ready :: "pull_state \<Rightarrow> ctx \<Rightarrow> pull_inner \<Rightarrow> endpoint_id \<Rightarrow> pull_result" where
  "pull_st_on_recv_not_ready s ctx inner eid = do {
     inner' \<leftarrow> pull_inner_on_recv_not_ready inner eid;
     Some (s, ctx, inner') }"

section \<open>Protocol\<close>

definition pull_is_send_ready :: "pull \<Rightarrow> bool" where
  "pull_is_send_ready p = False"

definition pull_is_recv_ready :: "pull \<Rightarrow> bool" where
  "pull_is_recv_ready p = pull_inner_is_recv_ready (pull_inner p)"

definition pull_apply :: "pull \<Rightarrow> ctx \<Rightarrow> (pull_state \<Rightarrow> ctx \<Rightarrow> pull_inner \<Rightarrow> pull_result) \<Rightarrow> (pull \<times> ctx) option" where
  "pull_apply p ctx transition =
     (case pull_state p of
        None \<Rightarrow> Some (p, ctx)
      | Some old_state \<Rightarrow> do {
          let was_recv_ready = pull_is_recv_ready p;
          (new_state, ctx', inner') \<leftarrow> transition old_state ctx (pull_inner p);
          let p' = p\<lparr>pull_inner := inner', pull_state := Some new_state\<rparr>;
          Some (p', check_recv_ready_change ctx' was_recv_ready (pull_is_recv_ready p')) })"

definition pull_add_pipe :: "pull \<Rightarrow> ctx \<Rightarrow> endpoint_id \<Rightarrow> pipe \<Rightarrow> (pull \<times> ctx) option" where
  "pull_add_pipe p ctx eid pipe = Some (p\<lparr>pull_inner := pull_inner_add_pipe (pull_inner p) eid pipe\<rparr>, ctx)"

definition pull_remove_pipe :: "pull \<Rightarrow> ctx \<Rightarrow> endpoint_id \<Rightarrow> (pipe option \<times> pull \<times> ctx) option" where
  "pull_remove_pipe p ctx eid = do {
     let was_recv_ready = pull_is_recv_ready p;
     (pipe, inner') \<leftarrow> pull_inner_remove_pipe (pull_inner p) eid;
     let p' = p\<lparr>pull_inner := inner'\<rparr>;
     let ctx' = check_recv_ready_change ctx was_recv_ready (pull_is_recv_ready p');
     (case pipe of
        Some _ \<Rightarrow> do {
          (p'', ctx'') \<leftarrow> pull_apply p' ctx' (\<lambda>s ctx inner. pull_st_on_pipe_removed s ctx inner eid);
          Some (pipe, p'', ctx'') }
      | None \<Rightarrow> Some (pipe, p', ctx')) }"

definition pull_send :: "pull \<Rightarrow> ctx \<Rightarrow> message \<Rightarrow> timeout \<Rightarrow> (pull \<times> ctx) option" where
  "pull_send p ctx msg timeout = pull_apply p ctx (\<lambda>s ctx inner. pull_st_send s ctx inner msg timeout)"

definition pull_on_send_ack :: "pull \<Rightarrow> ctx \<Rightarrow> endpoint_id \<Rightarrow> (pull \<times> ctx) option" where
  "pull_on_send_ack p ctx eid = pull_apply p ctx (\<lambda>s ctx inner. pull_st_on_send_ack s ctx inner eid)"

definition pull_on_send_timeout :: "pull \<Rightarrow> ctx \<Rightarrow> (pull \<times> ctx) option" where
  "pull_on_send_timeout p ctx = pull_apply p ctx pull_st_on_send_timeout"

definition pull_on_send_ready :: "pull \<Rightarrow> ctx \<Rightarrow> endpoint_id \<Rightarrow> (pull \<times> ctx) option" where
  "pull_on_send_ready p ctx eid = pull_apply p ctx (\<lambda>s ctx inner. pull_st_on_send_ready s ctx inner eid)"

definition pull_on_send_not_ready :: "pull \<Rightarrow> ctx \<Rightarrow> endpoint_id \<Rightarrow> (pull \<times> ctx) option" where
  "pull_on_send_not_ready p ctx eid = pull_apply p ctx (\<lambda>s ctx inner. pull_st_on_send_not_ready s ctx inner eid)"

definition pull_recv :: "pull \<Rightarrow> ctx \<Rightarrow> timeout \<Rightarrow> (pull \<times> ctx) option" where
  "pull_recv p ctx timeout = pull_apply p ctx (\<lambda>s ctx inner. pull_st_recv s ctx inner timeout)"

definition pull_on_recv_ack :: "pull \<Rightarrow> ctx \<Rightarrow> endpoint_id \<Rightarrow> message \<Rightarrow> (pull \<times> ctx) option" where
  "pull_on_recv_ack p ctx eid msg = pull_apply p ctx (\<lambda>s ctx inner. pull_st_on_recv_ack s ctx inner eid msg)"

definition pull_on_recv_timeout :: "pull \<Rightarrow> ctx \<Rightarrow> (pull \<times> ctx) option" where
  "pull_on_recv_timeout p ctx = pull_apply p ctx pull_st_on_recv_timeout"

definition pull_on_recv_ready :: "pull \<Rightarrow> ctx \<Rightarrow> endpoint_id \<Rightarrow> (pull \<times> ctx) option" where
  "pull_on_recv_ready p ctx eid = pull_apply p ctx (\<lambda>s ctx inner. pull_st_on_recv_ready s ctx inner eid)"

definition pull_on_recv_not_ready :: "pull \<Rightarrow> ctx \<Rightarrow> endpoint_id \<Rightarrow> (pull \<times> ctx) option" where
  "pull_on_recv_not_ready p ctx eid = pull_apply p ctx (\<lambda>s ctx inner. pull_st_on_recv_not_ready s ctx inner eid)"

definition pull_close :: "pull \<Rightarrow> ctx \<Rightarrow> pull \<times> ctx" where
  "pull_close p ctx = (let (inner, ctx') = pull_inner_close (pull_inner p) ctx in (p\<lparr>pull_inner := inner\<rparr>, ctx'))"

definition pull_ops :: "pull protocol_ops" where
  "pull_ops = \<lparr>
     op_id = \<lambda>_. PULL_ID, op_peer_id = \<lambda>_. PUSH_ID, op_add_pipe = pull_add_pipe,
     op_remove_pipe = pull_remove_pipe, op_send = pull_send, op_on_send_ack = pull_on_send_ack,
     op_on_send_timeout = pull_on_send_timeout, op_on_send_ready = pull_on_send_ready,
     op_on_send_not_ready = pull_on_send_not_ready, op_recv = pull_recv,
     op_on_recv_ack = pull_on_recv_ack, op_on_recv_timeout = pull_on_recv_timeout,
     op_on_recv_ready = pull_on_recv_ready, op_on_recv_not_ready = pull_on_recv_not_ready,
     op_is_send_ready = pull_is_send_ready, op_is_recv_ready = pull_is_recv_ready,
     op_set_option = default_set_option, op_on_timer_tick = default_on_timer_tick,
     op_on_device_plugged = default_on_device_plugged, op_close = pull_close\<rparr>"

lemma pull_ops_simps [simp]:
  "op_id pull_ops = (\<lambda>_. PULL_ID)"
  "op_peer_id pull_ops = (\<lambda>_. PUSH_ID)"
  "op_add_pipe pull_ops = pull_add_pipe"
  "op_remove_pipe pull_ops = pull_remove_pipe"
  "op_send pull_ops = pull_send"
  "op_on_send_ack pull_ops = pull_on_send_ack"
  "op_on_send_timeout pull_ops = pull_on_send_timeout"
  "op_on_send_ready pull_ops = pull_on_send_ready"
  "op_on_send_not_ready pull_ops = pull_on_send_not_ready"
  "op_recv pull_ops = pull_recv"
  "op_on_recv_ack pull_ops = pull_on_recv_ack"
  "op_on_recv_timeout pull_ops = pull_on_recv_timeout"
  "op_on_recv_ready pull_ops = pull_on_recv_ready"
  "op_on_recv_not_ready pull_ops = pull_on_recv_not_ready"
  "op_is_send_ready pull_ops = pull_is_send_ready"
  "op_is_recv_ready pull_ops = pull_is_recv_ready"
  "op_set_option pull_ops = default_set_option"
  "op_on_timer_tick pull_ops = default_on_timer_tick"
  "op_on_device_plugged pull_ops = default_on_device_plugged"
  "op_close pull_ops = pull_close"
  by (simp_all add: pull_ops_def)

lemmas pull_inner_defs = pull_inner_add_pipe_def pull_inner_remove_pipe_def pull_inner_send_def
  pull_inner_recv_def pull_inner_on_recv_ready_def pull_inner_on_recv_not_ready_def
  pull_inner_on_recv_ack_def pull_inner_on_recv_timeout_def pull_inner_is_recv_ready_def
  pull_inner_close_def

lemmas pull_st_defs = pull_st_recv_def pull_st_on_pipe_removed_def pull_st_send_def
  pull_st_on_send_ack_def pull_st_on_send_timeout_def pull_st_on_send_ready_def
  pull_st_on_send_not_ready_def pull_st_on_recv_ack_def pull_st_on_recv_timeout_def
  pull_st_on_recv_ready_def pull_st_on_recv_not_ready_def

lemmas pull_method_defs = pull_send_def pull_on_send_ack_def pull_on_send_timeout_def
  pull_on_send_ready_def pull_on_send_not_ready_def pull_recv_def pull_on_recv_ack_def
  pull_on_recv_timeout_def pull_on_recv_ready_def pull_on_recv_not_ready_def

section \<open>Invariant\<close>

text \<open>
  The fair queue holds exactly the pipes; a reception in progress is on a pipe the
  socket has; a reception is on hold only while no pipe is ready.
\<close>

definition pull_inner_ok :: "pull_inner \<Rightarrow> bool" where
  "pull_inner_ok inner \<longleftrightarrow> pipes_ok (pull_pipes inner) \<and> invar (pull_fq inner) \<and>
     ids (pull_fq inner) = dom (pull_pipes inner)"

fun pull_state_ok :: "pull_inner \<Rightarrow> pull_state \<Rightarrow> bool" where
  "pull_state_ok inner PullIdle \<longleftrightarrow> True"
| "pull_state_ok inner (PullReceiving eid _) \<longleftrightarrow> eid \<in> dom (pull_pipes inner)"
| "pull_state_ok inner (PullRecvOnHold _) \<longleftrightarrow> ready (pull_fq inner) = {}"

definition pull_ok :: "pull_inner \<Rightarrow> pull_state \<Rightarrow> bool" where
  "pull_ok inner s \<longleftrightarrow> pull_inner_ok inner \<and> pull_state_ok inner s"

definition pull_good :: "pull \<Rightarrow> bool" where
  "pull_good p \<longleftrightarrow> (\<exists>s. pull_state p = Some s \<and> pull_ok (pull_inner p) s)"

definition pull_pipes_of :: "pull \<Rightarrow> pipe_collection" where
  "pull_pipes_of p = pull_pipes (pull_inner p)"

fun pull_admits :: "pull \<Rightarrow> proto_cmd \<Rightarrow> bool" where
  "pull_admits p (RemovePipe eid) \<longleftrightarrow> removable (pull_fq (pull_inner p)) eid"
| "pull_admits p _ \<longleftrightarrow> True"

fun pull_busy :: "pull_state \<Rightarrow> bool" where
  "pull_busy PullIdle \<longleftrightarrow> False"
| "pull_busy _ \<longleftrightarrow> True"

definition pull_receiving :: "pull \<Rightarrow> bool" where
  "pull_receiving p \<longleftrightarrow> in_state pull_busy (pull_state p)"

abbreviation pull_moves :: "bool \<Rightarrow> nat \<Rightarrow> pull_state \<Rightarrow> ctx \<Rightarrow> pull_inner \<Rightarrow> pull_state \<times> ctx \<times> pull_inner \<Rightarrow> bool" where
  "pull_moves \<equiv> moves pull_ok pull_pipes pull_busy"

abbreviation pull_step :: "proto_cmd \<Rightarrow> bool \<Rightarrow> pull \<Rightarrow> ctx \<Rightarrow> pull \<times> ctx \<Rightarrow> bool" where
  "pull_step \<equiv> machine_step pull_ops pull_good pull_pipes_of pull_receiving"

interpretation pull_m: machine pull_ops pull_apply pull_inner pull_state
  "\<lambda>p i s. p\<lparr>pull_inner := i, pull_state := Some s\<rparr>" "\<lambda>s i. False" "\<lambda>s. pull_inner_is_recv_ready"
  by unfold_locales
     (simp_all add: pull_ops_def pull_apply_def pull_is_send_ready_def pull_is_recv_ready_def
       check_send_ready_change_def Let_def)

section \<open>What the transitions do\<close>

lemmas pull_unfold = pull_st_defs pull_inner_defs pull_ok_def pull_inner_ok_def moves_def context_call_defs

lemma pull_st_recv_moves:
  assumes "pull_inner_ok inner" and "due \<Longrightarrow> k = of_bool (\<not> pull_busy s)"
  shows "runs (pull_st_recv s' ctx inner t) (pull_moves due k s ctx inner)"
  using assms by (auto simp: pull_unfold intro!: runs_intros emits_intros)

lemma pull_on_recv_ack_moves:
  assumes "pull_ok inner s"
  shows "runs (pull_st_on_recv_ack s ctx inner eid msg) (pull_moves due 0 s ctx inner)"
  using assms by (cases s) (auto simp: pull_unfold intro!: runs_intros emits_intros split: option.splits)

lemma pull_on_recv_timeout_moves:
  assumes "pull_ok inner s" and "due \<Longrightarrow> pull_busy s"
  shows "runs (pull_st_on_recv_timeout s ctx inner) (pull_moves due 0 s ctx inner)"
  using assms by (cases s) (auto simp: pull_unfold intro!: runs_intros emits_intros)

lemma pull_on_recv_ready_moves:
  assumes "pull_ok inner s"
  shows "runs (pull_st_on_recv_ready s ctx inner eid) (pull_moves due 0 s ctx inner)"
  using assms by (cases s) (auto simp: pull_unfold intro!: runs_intros emits_intros)

lemma pull_on_recv_not_ready_moves:
  assumes "pull_ok inner s"
  shows "runs (pull_st_on_recv_not_ready s ctx inner eid) (pull_moves due 0 s ctx inner)"
  using assms by (cases s) (auto simp: pull_unfold intro!: runs_intros emits_intros)

lemma pull_send_moves:
  assumes "pull_ok inner s"
  shows "runs (pull_st_send s ctx inner msg t) (pull_moves due (Suc 0) s ctx inner)"
  using assms by (auto simp: pull_unfold intro!: emits_intros split: option.splits)

lemma pull_stay_moves:
  assumes "pull_ok inner s"
  shows "pull_moves due 0 s ctx inner (s, ctx, inner)"
  using assms by (simp add: moves_def)

lemma pull_on_pipe_removed_moves:
  assumes "pull_inner_ok inner" and "pull_state_ok old s"
    and "dom (pull_pipes old) - {eid} \<subseteq> dom (pull_pipes inner)" and "ready (pull_fq inner) \<subseteq> ready (pull_fq old)"
  shows "runs (pull_st_on_pipe_removed s ctx inner eid) (pull_moves due 0 s ctx inner)"
  using assms by (cases s) (auto simp: pull_unfold intro!: runs_intros emits_intros)

section \<open>The contract\<close>

lemma pull_good_alt: "pull_good = (\<lambda>p. \<exists>s. pull_state p = Some s \<and> pull_ok (pull_inner p) s)"
  "pull_pipes_of = (\<lambda>p. pull_pipes (pull_inner p))" "pull_receiving = (\<lambda>p. in_state pull_busy (pull_state p))"
  by (simp_all add: fun_eq_iff pull_good_def pull_pipes_of_def pull_receiving_def)

lemma pull_apply_step:
  assumes "pull_state p = Some s"
    and "runs (t s ctx (pull_inner p)) (pull_moves due (of_bool (is_request cmd)) s ctx (pull_inner p))"
    and "pipes_after cmd (pull_pipes_of p) = pull_pipes_of p"
  shows "runs (pull_apply p ctx t) (pull_step cmd due p ctx)"
  unfolding pull_good_alt
  by (rule pull_m.apply_step [where t = t and s = s and k = "of_bool (is_request cmd)"])
     (use assms in \<open>simp_all add: pull_good_alt\<close>)

lemma pull_add_step:
  assumes "pull_good p" and "eid \<notin> dom (pull_pipes_of p)" and "good_pipe eid pipe"
  shows "runs (pull_add_pipe p ctx eid pipe) (pull_step (AddPipe eid pipe) due p ctx)"
proof -
  obtain s where s: "pull_state p = Some s" "pull_ok (pull_inner p) s"
    using assms(1) by (auto simp: pull_good_def)
  then have "pull_ok (pull_inner_add_pipe (pull_inner p) eid pipe) s"
    using assms(2,3) queue_insert_laws [of "pull_fq (pull_inner p)" eid "pipe_get_recv_priority pipe"]
    by (cases s) (auto simp: pull_ok_def pull_inner_ok_def pull_inner_add_pipe_def pipes_insert_def good_pipe_def pull_pipes_of_def)
  then show ?thesis
    by (auto simp: pull_add_pipe_def pull_ops_def pull_good_alt s pull_is_recv_ready_def pull_inner_is_recv_ready_def
      pull_is_send_ready_def pull_inner_add_pipe_def pipes_insert_def intro!: machine_step_idle)
qed

lemma pull_remove_step:
  assumes "pull_good p" and "removable (pull_fq (pull_inner p)) eid"
  shows "runs (pull_remove_pipe p ctx eid)
    (\<lambda>(r, p', ctx'). r = pull_pipes_of p eid \<and> pull_step (RemovePipe eid) due p ctx (p', ctx'))"
proof -
  obtain s where s: "pull_state p = Some s" "pull_ok (pull_inner p) s"
    using assms(1) by (auto simp: pull_good_def)
  let ?q = "pull_fq (pull_inner p)" and ?ps = "pull_pipes (pull_inner p)"
  show ?thesis
  proof (cases "?ps eid")
    case None
    then have "priolist_remove ?q eid = Some ?q" "?ps(eid := None) = ?ps"
      using s(2) by (auto simp: pull_ok_def pull_inner_ok_def intro: priolist_remove_absent)
    then show ?thesis
      using assms(1) None by (auto simp: pull_remove_pipe_def pull_inner_remove_pipe_def pipes_remove_def
        pull_pipes_of_def check_recv_ready_change_def Let_def intro!: machine_step_idle)
  next
    case (Some pipe)
    obtain q' where q': "priolist_remove ?q eid = Some q'" "invar q'" "ids q' = ids ?q - {eid}" "ready q' = ready ?q - {eid}"
      using prq.remove_law [of ?q eid] assms(2) s(2) by (auto simp: pull_ok_def pull_inner_ok_def)
    let ?i = "pull_inner p\<lparr>pull_fq := q', pull_pipes := ?ps(eid := None)\<rparr>"
    have ok: "pull_inner_ok ?i" using q' s(2) by (auto simp: pull_ok_def pull_inner_ok_def)
    let ?ctx = "check_recv_ready_change ctx (pull_is_recv_ready p) (pull_is_recv_ready (p\<lparr>pull_inner := ?i\<rparr>))"
    have removed: "runs (pull_st_on_pipe_removed s ?ctx ?i eid) (pull_moves True 0 s ?ctx ?i)"
      using s(2) q'(4) by (intro pull_on_pipe_removed_moves [OF ok, where old = "pull_inner p"]) (auto simp: pull_ok_def)
    have "runs (pull_apply (p\<lparr>pull_inner := ?i\<rparr>) ?ctx (\<lambda>s ctx inner. pull_st_on_pipe_removed s ctx inner eid))
        (pull_step (RemovePipe eid) due p ctx)"
      unfolding pull_good_alt
      by (rule pull_m.remove_step [where s = s and pipes = pull_pipes and t = "\<lambda>s ctx inner. pull_st_on_pipe_removed s ctx inner eid"])
         (use removed in \<open>simp_all add: s pull_is_send_ready_def check_send_ready_change_def\<close>)
    then show ?thesis
      using q'(1) Some by (auto simp: pull_remove_pipe_def pull_inner_remove_pipe_def pipes_remove_def
        pull_pipes_of_def Let_def elim!: runs_mono)
  qed
qed

lemma pull_step_ok:
  assumes "pull_good p" and "legal pull_pipes_of pull_admits p cmd"
  shows "runs (proto_step pull_ops cmd p ctx) (pull_step cmd (in_turn (\<lambda>_. False) pull_receiving p cmd) p ctx)"
proof -
  obtain s where s: "pull_state p = Some s" "pull_ok (pull_inner p) s"
    using assms(1) by (auto simp: pull_good_def)
  have inner: "pull_inner_ok (pull_inner p)" using s(2) by (simp add: pull_ok_def)
  note step = pull_apply_step [OF s(1)]
  note moves = pull_st_recv_moves [OF inner] pull_on_recv_ack_moves [OF s(2)] pull_on_recv_timeout_moves [OF s(2)]
    pull_on_recv_ready_moves [OF s(2)] pull_on_recv_not_ready_moves [OF s(2)] pull_send_moves [OF s(2)]
  note methods = pull_method_defs default_method_defs pull_st_on_send_ack_def pull_st_on_send_timeout_def
    pull_st_on_send_ready_def pull_st_on_send_not_ready_def
  show ?thesis
  proof (cases cmd)
    case (RemovePipe eid)
    then show ?thesis using assms pull_remove_step [OF assms(1), of eid ctx True] by (auto elim!: runs_mono)
  qed (use assms s(1) in \<open>auto simp: methods pull_receiving_def pull_stay_moves [OF s(2)]
         intro!: step moves pull_add_step machine_step_idle\<close>)
qed

interpretation pull_p: answering_protocol pull_ops pull_good pull_pipes_of pull_admits "\<lambda>_. False" pull_receiving "\<lambda>_ _. True"
proof
  fix p :: pull and cmd ctx eid
  note step = machine_step_contract [where sending = "\<lambda>_. False" and receiving = pull_receiving]
  show "runs (proto_step pull_ops cmd p ctx) (\<lambda>(p', ctx'). step_ok pull_ops pull_good pull_pipes_of cmd p ctx p' ctx')"
    if "pull_good p" "legal pull_pipes_of pull_admits p cmd"
    by (rule step(1)) (use pull_step_ok [OF that] in simp)
  show "runs (proto_step pull_ops cmd p ctx) (\<lambda>(p', ctx').
      count_replies (trace ctx') + outstanding (\<lambda>_. False) pull_receiving p' =
      count_replies (trace ctx) + outstanding (\<lambda>_. False) pull_receiving p + of_bool (is_request cmd))"
    if "pull_good p" "legal pull_pipes_of pull_admits p cmd" "in_turn (\<lambda>_. False) pull_receiving p cmd"
    by (rule step(2) [OF _ that(3)]) (use pull_step_ok [OF that(1,2)] in simp)
  show "runs (op_remove_pipe pull_ops p ctx eid) (\<lambda>(r, _). r = pull_pipes_of p eid)"
    if "pull_good p" "pull_admits p (RemovePipe eid)"
    using pull_remove_step [OF that(1), of eid ctx True] that(2) by (auto elim!: runs_mono)
  show "pipes_ok (pull_pipes_of p)" if "pull_good p"
    using that by (auto simp: pull_good_def pull_ok_def pull_inner_ok_def pull_pipes_of_def)
  then show "\<exists>p' es. op_close pull_ops p ctx = (p', ctx\<lparr>trace := trace ctx @ map (\<lambda>eid. NetClose eid True) es\<rparr>) \<and>
      set es = dom (pull_pipes_of p) \<and> distinct es \<and> pull_pipes_of p' = Map.empty"
    if "pull_good p" "enumerates (hash_order (env ctx))"
    using that pipes_close_all_law [of "pull_pipes_of p" ctx]
    by (auto simp: pull_close_def pull_inner_close_def pull_pipes_of_def)
qed

end
