(* ===== verification/Proto_Sub.thy ===== *)
theory Proto_Sub
  imports Protocol_Machine
begin

text \<open>
  The subscriber of the publish/subscribe protocol, \<open>src/proto/sub.rs\<close>: messages are
  fair queued among the publishers, and only those whose body starts with one of the
  subscriptions reach the user. A subscription is the byte string of its topic.
\<close>

section \<open>Data\<close>

datatype sub_state =
    SubIdle
  | SubReceiving endpoint_id timeout
  | SubRecvOnHold timeout

record sub_inner =
  sub_pipes :: pipe_collection
  sub_fq :: priolist
  sub_subscriptions :: "u8 list set"

record sub =
  sub_inner :: sub_inner
  sub_state :: "sub_state option"

definition sub_from :: sub where
  "sub_from = \<lparr>sub_inner = \<lparr>sub_pipes = pipes_new, sub_fq = priolist_new, sub_subscriptions = {}\<rparr>, sub_state = Some SubIdle\<rparr>"

section \<open>Inner\<close>

definition sub_inner_add_pipe :: "sub_inner \<Rightarrow> endpoint_id \<Rightarrow> pipe \<Rightarrow> sub_inner" where
  "sub_inner_add_pipe inner eid pipe =
     inner\<lparr>sub_fq := priolist_insert (sub_fq inner) eid (pipe_get_recv_priority pipe),
           sub_pipes := snd (pipes_insert (sub_pipes inner) eid pipe)\<rparr>"

definition sub_inner_remove_pipe :: "sub_inner \<Rightarrow> endpoint_id \<Rightarrow> (pipe option \<times> sub_inner) option" where
  "sub_inner_remove_pipe inner eid = do {
     fq \<leftarrow> priolist_remove (sub_fq inner) eid;
     let (pipe, pipes) = pipes_remove (sub_pipes inner) eid;
     Some (pipe, inner\<lparr>sub_fq := fq, sub_pipes := pipes\<rparr>) }"

definition sub_inner_send :: "ctx \<Rightarrow> timeout \<Rightarrow> ctx" where
  "sub_inner_send ctx timeout =
     cancel_opt (send_reply ctx (ReplyErr (other_io_error ''Send is not supported by pull protocol''))) timeout"

definition sub_inner_recv :: "sub_inner \<Rightarrow> ctx \<Rightarrow> (endpoint_id option \<times> ctx \<times> sub_inner) option" where
  "sub_inner_recv inner ctx = do {
     (r, fq, ctx') \<leftarrow> fair_queue_recv (sub_fq inner) (sub_pipes inner) ctx;
     Some (r, ctx', inner\<lparr>sub_fq := fq\<rparr>) }"

definition sub_inner_on_recv_ready :: "sub_inner \<Rightarrow> endpoint_id \<Rightarrow> sub_inner option" where
  "sub_inner_on_recv_ready inner eid = do {
     fq \<leftarrow> activate (sub_fq inner) eid;
     Some (inner\<lparr>sub_fq := fq\<rparr>) }"

definition sub_inner_on_recv_not_ready :: "sub_inner \<Rightarrow> endpoint_id \<Rightarrow> sub_inner option" where
  "sub_inner_on_recv_not_ready inner eid = do {
     fq \<leftarrow> deactivate (sub_fq inner) eid;
     Some (inner\<lparr>sub_fq := fq\<rparr>) }"

definition sub_inner_on_recv_ack :: "ctx \<Rightarrow> timeout \<Rightarrow> message \<Rightarrow> ctx" where
  "sub_inner_on_recv_ack ctx timeout msg = cancel_opt (send_reply ctx (ReplyRecv msg)) timeout"

definition sub_inner_on_recv_timeout :: "ctx \<Rightarrow> ctx" where
  "sub_inner_on_recv_timeout ctx = send_reply ctx (ReplyErr (timedout_io_error ''Recv timed out''))"

definition sub_inner_is_recv_ready :: "sub_inner \<Rightarrow> bool" where
  "sub_inner_is_recv_ready inner = peek (sub_fq inner)"

definition sub_inner_subscribe :: "sub_inner \<Rightarrow> u8 list \<Rightarrow> sub_inner" where
  "sub_inner_subscribe inner subscription =
     inner\<lparr>sub_subscriptions := insert subscription (sub_subscriptions inner)\<rparr>"

definition sub_inner_unsubscribe :: "sub_inner \<Rightarrow> u8 list \<Rightarrow> sub_inner" where
  "sub_inner_unsubscribe inner subscription =
     inner\<lparr>sub_subscriptions := sub_subscriptions inner - {subscription}\<rparr>"

text \<open>\<open>payload.starts_with(s)\<close>: the first bytes of the payload are those of the topic.\<close>

definition starts_with :: "u8 list \<Rightarrow> u8 list \<Rightarrow> bool" where
  "starts_with payload s \<longleftrightarrow> take (length s) payload = s"

definition sub_inner_accept :: "sub_inner \<Rightarrow> message \<Rightarrow> bool" where
  "sub_inner_accept inner msg \<longleftrightarrow> (\<exists>s \<in> sub_subscriptions inner. starts_with (get_body msg) s)"

definition sub_inner_close :: "sub_inner \<Rightarrow> ctx \<Rightarrow> sub_inner \<times> ctx" where
  "sub_inner_close inner ctx =
     (let (pipes, ctx') = pipes_close_all (sub_pipes inner) ctx in (inner\<lparr>sub_pipes := pipes\<rparr>, ctx'))"

section \<open>State\<close>

type_synonym sub_result = "(sub_state \<times> ctx \<times> sub_inner) option"

definition sub_st_recv :: "sub_state \<Rightarrow> ctx \<Rightarrow> sub_inner \<Rightarrow> timeout \<Rightarrow> sub_result" where
  "sub_st_recv s ctx inner timeout = do {
     (r, ctx', inner') \<leftarrow> sub_inner_recv inner ctx;
     (case r of
        None \<Rightarrow> Some (SubRecvOnHold timeout, ctx', inner')
      | Some eid \<Rightarrow> Some (SubReceiving eid timeout, ctx', inner')) }"

definition sub_st_on_pipe_removed :: "sub_state \<Rightarrow> ctx \<Rightarrow> sub_inner \<Rightarrow> endpoint_id \<Rightarrow> sub_result" where
  "sub_st_on_pipe_removed s ctx inner eid =
     (case s of
        SubReceiving i timeout \<Rightarrow>
          if i = eid then sub_st_recv SubIdle ctx inner timeout
          else Some (SubReceiving i timeout, ctx, inner)
      | _ \<Rightarrow> Some (s, ctx, inner))"

definition sub_st_send :: "sub_state \<Rightarrow> ctx \<Rightarrow> sub_inner \<Rightarrow> message \<Rightarrow> timeout \<Rightarrow> sub_result" where
  "sub_st_send s ctx inner msg timeout = Some (s, sub_inner_send ctx timeout, inner)"

definition sub_st_on_send_ack :: "sub_state \<Rightarrow> ctx \<Rightarrow> sub_inner \<Rightarrow> endpoint_id \<Rightarrow> sub_result" where
  "sub_st_on_send_ack s ctx inner eid = Some (s, ctx, inner)"

definition sub_st_on_send_timeout :: "sub_state \<Rightarrow> ctx \<Rightarrow> sub_inner \<Rightarrow> sub_result" where
  "sub_st_on_send_timeout s ctx inner = Some (s, ctx, inner)"

definition sub_st_on_send_ready :: "sub_state \<Rightarrow> ctx \<Rightarrow> sub_inner \<Rightarrow> endpoint_id \<Rightarrow> sub_result" where
  "sub_st_on_send_ready s ctx inner eid = Some (s, ctx, inner)"

definition sub_st_on_send_not_ready :: "sub_state \<Rightarrow> ctx \<Rightarrow> sub_inner \<Rightarrow> endpoint_id \<Rightarrow> sub_result" where
  "sub_st_on_send_not_ready s ctx inner eid = Some (s, ctx, inner)"

definition sub_st_on_recv_ack :: "sub_state \<Rightarrow> ctx \<Rightarrow> sub_inner \<Rightarrow> endpoint_id \<Rightarrow> message \<Rightarrow> sub_result" where
  "sub_st_on_recv_ack s ctx inner eid msg =
     (case s of
        SubReceiving i timeout \<Rightarrow>
          if i = eid then
            (if sub_inner_accept inner msg then Some (SubIdle, sub_inner_on_recv_ack ctx timeout msg, inner)
             else sub_st_recv SubIdle ctx inner timeout)
          else Some (SubReceiving i timeout, ctx, inner)
      | _ \<Rightarrow> Some (s, ctx, inner))"

definition sub_st_on_recv_timeout :: "sub_state \<Rightarrow> ctx \<Rightarrow> sub_inner \<Rightarrow> sub_result" where
  "sub_st_on_recv_timeout s ctx inner = Some (SubIdle, sub_inner_on_recv_timeout ctx, inner)"

definition sub_st_on_recv_ready :: "sub_state \<Rightarrow> ctx \<Rightarrow> sub_inner \<Rightarrow> endpoint_id \<Rightarrow> sub_result" where
  "sub_st_on_recv_ready s ctx inner eid = do {
     inner' \<leftarrow> sub_inner_on_recv_ready inner eid;
     (case s of
        SubRecvOnHold timeout \<Rightarrow> sub_st_recv SubIdle ctx inner' timeout
      | _ \<Rightarrow> Some (s, ctx, inner')) }"

definition sub_st_on_recv_not_ready :: "sub_state \<Rightarrow> ctx \<Rightarrow> sub_inner \<Rightarrow> endpoint_id \<Rightarrow> sub_result" where
  "sub_st_on_recv_not_ready s ctx inner eid = do {
     inner' \<leftarrow> sub_inner_on_recv_not_ready inner eid;
     Some (s, ctx, inner') }"

section \<open>Protocol\<close>

definition sub_is_send_ready :: "sub \<Rightarrow> bool" where
  "sub_is_send_ready p = False"

definition sub_is_recv_ready :: "sub \<Rightarrow> bool" where
  "sub_is_recv_ready p = sub_inner_is_recv_ready (sub_inner p)"

definition sub_apply :: "sub \<Rightarrow> ctx \<Rightarrow> (sub_state \<Rightarrow> ctx \<Rightarrow> sub_inner \<Rightarrow> sub_result) \<Rightarrow> (sub \<times> ctx) option" where
  "sub_apply p ctx transition =
     (case sub_state p of
        None \<Rightarrow> Some (p, ctx)
      | Some old_state \<Rightarrow> do {
          let was_recv_ready = sub_is_recv_ready p;
          (new_state, ctx', inner') \<leftarrow> transition old_state ctx (sub_inner p);
          let p' = p\<lparr>sub_inner := inner', sub_state := Some new_state\<rparr>;
          Some (p', check_recv_ready_change ctx' was_recv_ready (sub_is_recv_ready p')) })"

definition sub_add_pipe :: "sub \<Rightarrow> ctx \<Rightarrow> endpoint_id \<Rightarrow> pipe \<Rightarrow> (sub \<times> ctx) option" where
  "sub_add_pipe p ctx eid pipe = Some (p\<lparr>sub_inner := sub_inner_add_pipe (sub_inner p) eid pipe\<rparr>, ctx)"

definition sub_remove_pipe :: "sub \<Rightarrow> ctx \<Rightarrow> endpoint_id \<Rightarrow> (pipe option \<times> sub \<times> ctx) option" where
  "sub_remove_pipe p ctx eid = do {
     let was_recv_ready = sub_inner_is_recv_ready (sub_inner p);
     (pipe, inner') \<leftarrow> sub_inner_remove_pipe (sub_inner p) eid;
     let p' = p\<lparr>sub_inner := inner'\<rparr>;
     let ctx' = check_recv_ready_change ctx was_recv_ready (sub_inner_is_recv_ready inner');
     (case pipe of
        Some _ \<Rightarrow> do {
          (p'', ctx'') \<leftarrow> sub_apply p' ctx' (\<lambda>s ctx inner. sub_st_on_pipe_removed s ctx inner eid);
          Some (pipe, p'', ctx'') }
      | None \<Rightarrow> Some (pipe, p', ctx')) }"

definition sub_send :: "sub \<Rightarrow> ctx \<Rightarrow> message \<Rightarrow> timeout \<Rightarrow> (sub \<times> ctx) option" where
  "sub_send p ctx msg timeout = sub_apply p ctx (\<lambda>s ctx inner. sub_st_send s ctx inner msg timeout)"

definition sub_on_send_ack :: "sub \<Rightarrow> ctx \<Rightarrow> endpoint_id \<Rightarrow> (sub \<times> ctx) option" where
  "sub_on_send_ack p ctx eid = sub_apply p ctx (\<lambda>s ctx inner. sub_st_on_send_ack s ctx inner eid)"

definition sub_on_send_timeout :: "sub \<Rightarrow> ctx \<Rightarrow> (sub \<times> ctx) option" where
  "sub_on_send_timeout p ctx = sub_apply p ctx sub_st_on_send_timeout"

definition sub_on_send_ready :: "sub \<Rightarrow> ctx \<Rightarrow> endpoint_id \<Rightarrow> (sub \<times> ctx) option" where
  "sub_on_send_ready p ctx eid = sub_apply p ctx (\<lambda>s ctx inner. sub_st_on_send_ready s ctx inner eid)"

definition sub_on_send_not_ready :: "sub \<Rightarrow> ctx \<Rightarrow> endpoint_id \<Rightarrow> (sub \<times> ctx) option" where
  "sub_on_send_not_ready p ctx eid = sub_apply p ctx (\<lambda>s ctx inner. sub_st_on_send_not_ready s ctx inner eid)"

definition sub_recv :: "sub \<Rightarrow> ctx \<Rightarrow> timeout \<Rightarrow> (sub \<times> ctx) option" where
  "sub_recv p ctx timeout = sub_apply p ctx (\<lambda>s ctx inner. sub_st_recv s ctx inner timeout)"

definition sub_on_recv_ack :: "sub \<Rightarrow> ctx \<Rightarrow> endpoint_id \<Rightarrow> message \<Rightarrow> (sub \<times> ctx) option" where
  "sub_on_recv_ack p ctx eid msg = sub_apply p ctx (\<lambda>s ctx inner. sub_st_on_recv_ack s ctx inner eid msg)"

definition sub_on_recv_timeout :: "sub \<Rightarrow> ctx \<Rightarrow> (sub \<times> ctx) option" where
  "sub_on_recv_timeout p ctx = sub_apply p ctx sub_st_on_recv_timeout"

definition sub_on_recv_ready :: "sub \<Rightarrow> ctx \<Rightarrow> endpoint_id \<Rightarrow> (sub \<times> ctx) option" where
  "sub_on_recv_ready p ctx eid = sub_apply p ctx (\<lambda>s ctx inner. sub_st_on_recv_ready s ctx inner eid)"

definition sub_on_recv_not_ready :: "sub \<Rightarrow> ctx \<Rightarrow> endpoint_id \<Rightarrow> (sub \<times> ctx) option" where
  "sub_on_recv_not_ready p ctx eid = sub_apply p ctx (\<lambda>s ctx inner. sub_st_on_recv_not_ready s ctx inner eid)"

fun sub_set_option :: "sub \<Rightarrow> config_option \<Rightarrow> (io_error + unit) \<times> sub" where
  "sub_set_option p (Subscribe x) = (Inr (), p\<lparr>sub_inner := sub_inner_subscribe (sub_inner p) x\<rparr>)"
| "sub_set_option p (Unsubscribe x) = (Inr (), p\<lparr>sub_inner := sub_inner_unsubscribe (sub_inner p) x\<rparr>)"
| "sub_set_option p _ = (Inl (invalid_input_io_error ''option not supported''), p)"

definition sub_close :: "sub \<Rightarrow> ctx \<Rightarrow> sub \<times> ctx" where
  "sub_close p ctx = (let (inner, ctx') = sub_inner_close (sub_inner p) ctx in (p\<lparr>sub_inner := inner\<rparr>, ctx'))"

definition sub_ops :: "sub protocol_ops" where
  "sub_ops = \<lparr>
     op_id = \<lambda>_. SUB_ID, op_peer_id = \<lambda>_. PUB_ID, op_add_pipe = sub_add_pipe,
     op_remove_pipe = sub_remove_pipe, op_send = sub_send, op_on_send_ack = sub_on_send_ack,
     op_on_send_timeout = sub_on_send_timeout, op_on_send_ready = sub_on_send_ready,
     op_on_send_not_ready = sub_on_send_not_ready, op_recv = sub_recv,
     op_on_recv_ack = sub_on_recv_ack, op_on_recv_timeout = sub_on_recv_timeout,
     op_on_recv_ready = sub_on_recv_ready, op_on_recv_not_ready = sub_on_recv_not_ready,
     op_is_send_ready = sub_is_send_ready, op_is_recv_ready = sub_is_recv_ready,
     op_set_option = sub_set_option, op_on_timer_tick = default_on_timer_tick,
     op_on_device_plugged = default_on_device_plugged, op_close = sub_close\<rparr>"

lemma sub_ops_simps [simp]:
  "op_id sub_ops = (\<lambda>_. SUB_ID)"
  "op_peer_id sub_ops = (\<lambda>_. PUB_ID)"
  "op_add_pipe sub_ops = sub_add_pipe"
  "op_remove_pipe sub_ops = sub_remove_pipe"
  "op_send sub_ops = sub_send"
  "op_on_send_ack sub_ops = sub_on_send_ack"
  "op_on_send_timeout sub_ops = sub_on_send_timeout"
  "op_on_send_ready sub_ops = sub_on_send_ready"
  "op_on_send_not_ready sub_ops = sub_on_send_not_ready"
  "op_recv sub_ops = sub_recv"
  "op_on_recv_ack sub_ops = sub_on_recv_ack"
  "op_on_recv_timeout sub_ops = sub_on_recv_timeout"
  "op_on_recv_ready sub_ops = sub_on_recv_ready"
  "op_on_recv_not_ready sub_ops = sub_on_recv_not_ready"
  "op_is_send_ready sub_ops = sub_is_send_ready"
  "op_is_recv_ready sub_ops = sub_is_recv_ready"
  "op_set_option sub_ops = sub_set_option"
  "op_on_timer_tick sub_ops = default_on_timer_tick"
  "op_on_device_plugged sub_ops = default_on_device_plugged"
  "op_close sub_ops = sub_close"
  by (simp_all add: sub_ops_def)

lemmas sub_inner_defs = sub_inner_add_pipe_def sub_inner_remove_pipe_def sub_inner_send_def
  sub_inner_recv_def sub_inner_on_recv_ready_def sub_inner_on_recv_not_ready_def
  sub_inner_on_recv_ack_def sub_inner_on_recv_timeout_def sub_inner_is_recv_ready_def
  sub_inner_close_def

lemmas sub_st_defs = sub_st_recv_def sub_st_on_pipe_removed_def sub_st_send_def
  sub_st_on_send_ack_def sub_st_on_send_timeout_def sub_st_on_send_ready_def
  sub_st_on_send_not_ready_def sub_st_on_recv_ack_def sub_st_on_recv_timeout_def
  sub_st_on_recv_ready_def sub_st_on_recv_not_ready_def

lemmas sub_method_defs = sub_send_def sub_on_send_ack_def sub_on_send_timeout_def
  sub_on_send_ready_def sub_on_send_not_ready_def sub_recv_def sub_on_recv_ack_def
  sub_on_recv_timeout_def sub_on_recv_ready_def sub_on_recv_not_ready_def

section \<open>Invariant\<close>

text \<open>
  The fair queue holds exactly the pipes; a reception in progress is on a pipe the
  socket has; a reception is on hold only while no pipe is ready.
\<close>

definition sub_inner_ok :: "sub_inner \<Rightarrow> bool" where
  "sub_inner_ok inner \<longleftrightarrow> pipes_ok (sub_pipes inner) \<and> invar (sub_fq inner) \<and>
     ids (sub_fq inner) = dom (sub_pipes inner)"

fun sub_state_ok :: "sub_inner \<Rightarrow> sub_state \<Rightarrow> bool" where
  "sub_state_ok inner SubIdle \<longleftrightarrow> True"
| "sub_state_ok inner (SubReceiving eid _) \<longleftrightarrow> eid \<in> dom (sub_pipes inner)"
| "sub_state_ok inner (SubRecvOnHold _) \<longleftrightarrow> ready (sub_fq inner) = {}"

definition sub_ok :: "sub_inner \<Rightarrow> sub_state \<Rightarrow> bool" where
  "sub_ok inner s \<longleftrightarrow> sub_inner_ok inner \<and> sub_state_ok inner s"

definition sub_good :: "sub \<Rightarrow> bool" where
  "sub_good p \<longleftrightarrow> (\<exists>s. sub_state p = Some s \<and> sub_ok (sub_inner p) s)"

definition sub_pipes_of :: "sub \<Rightarrow> pipe_collection" where
  "sub_pipes_of p = sub_pipes (sub_inner p)"

fun sub_admits :: "sub \<Rightarrow> proto_cmd \<Rightarrow> bool" where
  "sub_admits p (RemovePipe eid) \<longleftrightarrow> removable (sub_fq (sub_inner p)) eid"
| "sub_admits p _ \<longleftrightarrow> True"

fun sub_busy :: "sub_state \<Rightarrow> bool" where
  "sub_busy SubIdle \<longleftrightarrow> False"
| "sub_busy _ \<longleftrightarrow> True"

definition sub_receiving :: "sub \<Rightarrow> bool" where
  "sub_receiving p \<longleftrightarrow> in_state sub_busy (sub_state p)"

abbreviation sub_moves :: "bool \<Rightarrow> nat \<Rightarrow> sub_state \<Rightarrow> ctx \<Rightarrow> sub_inner \<Rightarrow> sub_state \<times> ctx \<times> sub_inner \<Rightarrow> bool" where
  "sub_moves \<equiv> moves sub_ok sub_pipes sub_busy"

abbreviation sub_step :: "proto_cmd \<Rightarrow> bool \<Rightarrow> sub \<Rightarrow> ctx \<Rightarrow> sub \<times> ctx \<Rightarrow> bool" where
  "sub_step \<equiv> machine_step sub_ops sub_good sub_pipes_of sub_receiving"

interpretation sub_m: machine sub_ops sub_apply sub_inner sub_state
  "\<lambda>p i s. p\<lparr>sub_inner := i, sub_state := Some s\<rparr>" "\<lambda>s i. False" "\<lambda>s. sub_inner_is_recv_ready"
  by unfold_locales
     (simp_all add: sub_ops_def sub_apply_def sub_is_send_ready_def sub_is_recv_ready_def
       check_send_ready_change_def Let_def)

section \<open>What the transitions do\<close>

lemmas sub_unfold = sub_st_defs sub_inner_defs sub_ok_def sub_inner_ok_def moves_def context_call_defs

lemma sub_st_recv_moves:
  assumes "sub_inner_ok inner" and "due \<Longrightarrow> k = of_bool (\<not> sub_busy s)"
  shows "runs (sub_st_recv s' ctx inner t) (sub_moves due k s ctx inner)"
  using assms by (auto simp: sub_unfold intro!: runs_intros emits_intros)

lemma sub_on_recv_ack_moves:
  assumes "sub_ok inner s"
  shows "runs (sub_st_on_recv_ack s ctx inner eid msg) (sub_moves due 0 s ctx inner)"
  using assms by (cases s) (auto simp: sub_unfold intro!: runs_intros emits_intros split: option.splits)

lemma sub_on_recv_timeout_moves:
  assumes "sub_ok inner s" and "due \<Longrightarrow> sub_busy s"
  shows "runs (sub_st_on_recv_timeout s ctx inner) (sub_moves due 0 s ctx inner)"
  using assms by (cases s) (auto simp: sub_unfold intro!: runs_intros emits_intros)

lemma sub_on_recv_ready_moves:
  assumes "sub_ok inner s"
  shows "runs (sub_st_on_recv_ready s ctx inner eid) (sub_moves due 0 s ctx inner)"
  using assms by (cases s) (auto simp: sub_unfold intro!: runs_intros emits_intros)

lemma sub_on_recv_not_ready_moves:
  assumes "sub_ok inner s"
  shows "runs (sub_st_on_recv_not_ready s ctx inner eid) (sub_moves due 0 s ctx inner)"
  using assms by (cases s) (auto simp: sub_unfold intro!: runs_intros emits_intros)

lemma sub_send_moves:
  assumes "sub_ok inner s"
  shows "runs (sub_st_send s ctx inner msg t) (sub_moves due (Suc 0) s ctx inner)"
  using assms by (auto simp: sub_unfold intro!: emits_intros split: option.splits)

lemma sub_stay_moves:
  assumes "sub_ok inner s"
  shows "sub_moves due 0 s ctx inner (s, ctx, inner)"
  using assms by (simp add: moves_def)

lemma sub_on_pipe_removed_moves:
  assumes "sub_inner_ok inner" and "sub_state_ok old s"
    and "dom (sub_pipes old) - {eid} \<subseteq> dom (sub_pipes inner)" and "ready (sub_fq inner) \<subseteq> ready (sub_fq old)"
  shows "runs (sub_st_on_pipe_removed s ctx inner eid) (sub_moves due 0 s ctx inner)"
  using assms by (cases s) (auto simp: sub_unfold intro!: runs_intros emits_intros)

section \<open>The contract\<close>

lemma sub_good_alt: "sub_good = (\<lambda>p. \<exists>s. sub_state p = Some s \<and> sub_ok (sub_inner p) s)"
  "sub_pipes_of = (\<lambda>p. sub_pipes (sub_inner p))" "sub_receiving = (\<lambda>p. in_state sub_busy (sub_state p))"
  by (simp_all add: fun_eq_iff sub_good_def sub_pipes_of_def sub_receiving_def)

lemma sub_apply_step:
  assumes "sub_state p = Some s"
    and "runs (t s ctx (sub_inner p)) (sub_moves due (of_bool (is_request cmd)) s ctx (sub_inner p))"
    and "pipes_after cmd (sub_pipes_of p) = sub_pipes_of p"
  shows "runs (sub_apply p ctx t) (sub_step cmd due p ctx)"
  unfolding sub_good_alt
  by (rule sub_m.apply_step [where t = t and s = s and k = "of_bool (is_request cmd)"])
     (use assms in \<open>simp_all add: sub_good_alt\<close>)

lemma sub_add_step:
  assumes "sub_good p" and "eid \<notin> dom (sub_pipes_of p)" and "good_pipe eid pipe"
  shows "runs (sub_add_pipe p ctx eid pipe) (sub_step (AddPipe eid pipe) due p ctx)"
proof -
  obtain s where s: "sub_state p = Some s" "sub_ok (sub_inner p) s"
    using assms(1) by (auto simp: sub_good_def)
  then have "sub_ok (sub_inner_add_pipe (sub_inner p) eid pipe) s"
    using assms(2,3) queue_insert_laws [of "sub_fq (sub_inner p)" eid "pipe_get_recv_priority pipe"]
    by (cases s) (auto simp: sub_ok_def sub_inner_ok_def sub_inner_add_pipe_def pipes_insert_def good_pipe_def sub_pipes_of_def)
  then show ?thesis
    by (auto simp: sub_add_pipe_def sub_ops_def sub_good_alt s sub_is_recv_ready_def sub_inner_is_recv_ready_def
      sub_is_send_ready_def sub_inner_add_pipe_def pipes_insert_def intro!: machine_step_idle)
qed

lemma sub_remove_step:
  assumes "sub_good p" and "removable (sub_fq (sub_inner p)) eid"
  shows "runs (sub_remove_pipe p ctx eid)
    (\<lambda>(r, p', ctx'). r = sub_pipes_of p eid \<and> sub_step (RemovePipe eid) due p ctx (p', ctx'))"
proof -
  obtain s where s: "sub_state p = Some s" "sub_ok (sub_inner p) s"
    using assms(1) by (auto simp: sub_good_def)
  let ?q = "sub_fq (sub_inner p)" and ?ps = "sub_pipes (sub_inner p)"
  show ?thesis
  proof (cases "?ps eid")
    case None
    then have "priolist_remove ?q eid = Some ?q" "?ps(eid := None) = ?ps"
      using s(2) by (auto simp: sub_ok_def sub_inner_ok_def intro: priolist_remove_absent)
    then show ?thesis
      using assms(1) None by (auto simp: sub_remove_pipe_def sub_inner_remove_pipe_def pipes_remove_def
        sub_pipes_of_def check_recv_ready_change_def Let_def intro!: machine_step_idle)
  next
    case (Some pipe)
    obtain q' where q': "priolist_remove ?q eid = Some q'" "invar q'" "ids q' = ids ?q - {eid}" "ready q' = ready ?q - {eid}"
      using prq.remove_law [of ?q eid] assms(2) s(2) by (auto simp: sub_ok_def sub_inner_ok_def)
    let ?i = "sub_inner p\<lparr>sub_fq := q', sub_pipes := ?ps(eid := None)\<rparr>"
    have ok: "sub_inner_ok ?i" using q' s(2) by (auto simp: sub_ok_def sub_inner_ok_def)
    let ?ctx = "check_recv_ready_change ctx (sub_is_recv_ready p) (sub_is_recv_ready (p\<lparr>sub_inner := ?i\<rparr>))"
    have removed: "runs (sub_st_on_pipe_removed s ?ctx ?i eid) (sub_moves True 0 s ?ctx ?i)"
      using s(2) q'(4) by (intro sub_on_pipe_removed_moves [OF ok, where old = "sub_inner p"]) (auto simp: sub_ok_def)
    have "runs (sub_apply (p\<lparr>sub_inner := ?i\<rparr>) ?ctx (\<lambda>s ctx inner. sub_st_on_pipe_removed s ctx inner eid))
        (sub_step (RemovePipe eid) due p ctx)"
      unfolding sub_good_alt
      by (rule sub_m.remove_step [where s = s and pipes = sub_pipes and t = "\<lambda>s ctx inner. sub_st_on_pipe_removed s ctx inner eid"])
         (use removed in \<open>simp_all add: s sub_is_send_ready_def check_send_ready_change_def\<close>)
    then show ?thesis
      using q'(1) Some by (auto simp: sub_remove_pipe_def sub_inner_remove_pipe_def pipes_remove_def
        sub_pipes_of_def sub_is_recv_ready_def Let_def elim!: runs_mono)
  qed
qed

lemma sub_set_option_step:
  assumes "sub_good p"
  shows "sub_step (SetOption opt) due p ctx (snd (sub_set_option p opt), ctx)"
proof -
  obtain s where s: "sub_state p = Some s" "sub_ok (sub_inner p) s"
    using assms by (auto simp: sub_good_def)
  have "sub_ok (sub_inner p\<lparr>sub_subscriptions := x\<rparr>) s" for x
    using s(2) by (cases s) (auto simp: sub_ok_def sub_inner_ok_def)
  then show ?thesis
    using assms s by (cases opt) (auto simp: sub_good_def sub_pipes_of_def sub_receiving_def sub_is_send_ready_def
      sub_is_recv_ready_def sub_inner_is_recv_ready_def sub_inner_subscribe_def sub_inner_unsubscribe_def
      intro!: machine_step_idle)
qed

lemma sub_step_ok:
  assumes "sub_good p" and "legal sub_pipes_of sub_admits p cmd"
  shows "runs (proto_step sub_ops cmd p ctx) (sub_step cmd (in_turn (\<lambda>_. False) sub_receiving p cmd) p ctx)"
proof -
  obtain s where s: "sub_state p = Some s" "sub_ok (sub_inner p) s"
    using assms(1) by (auto simp: sub_good_def)
  have inner: "sub_inner_ok (sub_inner p)" using s(2) by (simp add: sub_ok_def)
  note step = sub_apply_step [OF s(1)]
  note moves = sub_st_recv_moves [OF inner] sub_on_recv_ack_moves [OF s(2)] sub_on_recv_timeout_moves [OF s(2)]
    sub_on_recv_ready_moves [OF s(2)] sub_on_recv_not_ready_moves [OF s(2)] sub_send_moves [OF s(2)]
  note methods = sub_method_defs default_method_defs sub_st_on_send_ack_def sub_st_on_send_timeout_def
    sub_st_on_send_ready_def sub_st_on_send_not_ready_def
  show ?thesis
  proof (cases cmd)
    case (RemovePipe eid)
    then show ?thesis using assms sub_remove_step [OF assms(1), of eid ctx True] by (auto elim!: runs_mono)
  next
    case (SetOption opt)
    then show ?thesis using sub_set_option_step [OF assms(1)] by simp
  qed (use assms s(1) in \<open>auto simp: methods sub_receiving_def sub_stay_moves [OF s(2)]
         intro!: step moves sub_add_step machine_step_idle\<close>)
qed

interpretation sub_p: answering_protocol sub_ops sub_good sub_pipes_of sub_admits "\<lambda>_. False" sub_receiving "\<lambda>_ _. True"
proof
  fix p :: sub and cmd ctx eid
  note step = machine_step_contract [where sending = "\<lambda>_. False" and receiving = sub_receiving]
  show "runs (proto_step sub_ops cmd p ctx) (\<lambda>(p', ctx'). step_ok sub_ops sub_good sub_pipes_of cmd p ctx p' ctx')"
    if "sub_good p" "legal sub_pipes_of sub_admits p cmd"
    by (rule step(1)) (use sub_step_ok [OF that] in simp)
  show "runs (proto_step sub_ops cmd p ctx) (\<lambda>(p', ctx').
      count_replies (trace ctx') + outstanding (\<lambda>_. False) sub_receiving p' =
      count_replies (trace ctx) + outstanding (\<lambda>_. False) sub_receiving p + of_bool (is_request cmd))"
    if "sub_good p" "legal sub_pipes_of sub_admits p cmd" "in_turn (\<lambda>_. False) sub_receiving p cmd"
    by (rule step(2) [OF _ that(3)]) (use sub_step_ok [OF that(1,2)] in simp)
  show "runs (op_remove_pipe sub_ops p ctx eid) (\<lambda>(r, _). r = sub_pipes_of p eid)"
    if "sub_good p" "sub_admits p (RemovePipe eid)"
    using sub_remove_step [OF that(1), of eid ctx True] that(2) by (auto elim!: runs_mono)
  show "pipes_ok (sub_pipes_of p)" if "sub_good p"
    using that by (auto simp: sub_good_def sub_ok_def sub_inner_ok_def sub_pipes_of_def)
  then show "\<exists>p' es. op_close sub_ops p ctx = (p', ctx\<lparr>trace := trace ctx @ map (\<lambda>eid. NetClose eid True) es\<rparr>) \<and>
      set es = dom (sub_pipes_of p) \<and> distinct es \<and> sub_pipes_of p' = Map.empty"
    if "sub_good p" "enumerates (hash_order (env ctx))"
    using that pipes_close_all_law [of "sub_pipes_of p" ctx]
    by (auto simp: sub_close_def sub_inner_close_def sub_pipes_of_def)
qed

end
