(* ===== verification/Proto_Pub.thy ===== *)
theory Proto_Pub
  imports Protocol_Machine
begin

text \<open>
  The publisher of the publish/subscribe protocol, \<open>src/proto/publ.rs\<close>: a message is
  handed to every pipe that is ready and dropped for the others; sending never waits.
  The protocol has no state machine.
\<close>

section \<open>The protocol\<close>

record pub =
  pub_pipes :: pipe_collection
  pub_bc :: "endpoint_id set"

definition pub_from :: pub where
  "pub_from = \<lparr>pub_pipes = pipes_new, pub_bc = {}\<rparr>"

definition pub_add_pipe :: "pub \<Rightarrow> ctx \<Rightarrow> endpoint_id \<Rightarrow> pipe \<Rightarrow> (pub \<times> ctx) option" where
  "pub_add_pipe p ctx eid pipe = Some (p\<lparr>pub_pipes := snd (pipes_insert (pub_pipes p) eid pipe)\<rparr>, ctx)"

definition pub_remove_pipe :: "pub \<Rightarrow> ctx \<Rightarrow> endpoint_id \<Rightarrow> (pipe option \<times> pub \<times> ctx) option" where
  "pub_remove_pipe p ctx eid =
     (let bc = pub_bc p - {eid};
          ctx' = (if bc = {} then raise_evt ctx (CanSend False) else ctx);
          (pipe, pipes) = pipes_remove (pub_pipes p) eid
      in Some (pipe, p\<lparr>pub_bc := bc, pub_pipes := pipes\<rparr>, ctx'))"

definition pub_send :: "pub \<Rightarrow> ctx \<Rightarrow> message \<Rightarrow> timeout \<Rightarrow> (pub \<times> ctx) option" where
  "pub_send p ctx msg timeout =
     (let (bc, ctx1) = send_to_all (pub_bc p) (pub_pipes p) ctx msg;
          ctx2 = raise_evt ctx1 (CanSend False);
          ctx3 = send_reply ctx2 ReplySend
      in Some (p\<lparr>pub_bc := bc\<rparr>, cancel_opt ctx3 timeout))"

definition pub_on_send_ack :: "pub \<Rightarrow> ctx \<Rightarrow> endpoint_id \<Rightarrow> (pub \<times> ctx) option" where
  "pub_on_send_ack p ctx eid = Some (p, ctx)"

definition pub_on_send_timeout :: "pub \<Rightarrow> ctx \<Rightarrow> (pub \<times> ctx) option" where
  "pub_on_send_timeout p ctx = Some (p, ctx)"

definition pub_on_send_ready :: "pub \<Rightarrow> ctx \<Rightarrow> endpoint_id \<Rightarrow> (pub \<times> ctx) option" where
  "pub_on_send_ready p ctx eid =
     (let ctx' = (if pub_bc p = {} then raise_evt ctx (CanSend True) else ctx)
      in Some (p\<lparr>pub_bc := insert eid (pub_bc p)\<rparr>, ctx'))"

definition pub_on_send_not_ready :: "pub \<Rightarrow> ctx \<Rightarrow> endpoint_id \<Rightarrow> (pub \<times> ctx) option" where
  "pub_on_send_not_ready p ctx eid =
     (let was_empty = (pub_bc p = {});
          bc = pub_bc p - {eid};
          is_empty = (bc = {})
      in Some (p\<lparr>pub_bc := bc\<rparr>, if was_empty \<noteq> is_empty then raise_evt ctx (CanSend False) else ctx))"

definition pub_recv :: "pub \<Rightarrow> ctx \<Rightarrow> timeout \<Rightarrow> (pub \<times> ctx) option" where
  "pub_recv p ctx timeout =
     Some (p, cancel_opt (send_reply ctx (ReplyErr (other_io_error ''Recv is not supported by pub protocol''))) timeout)"

definition pub_on_recv_ack :: "pub \<Rightarrow> ctx \<Rightarrow> endpoint_id \<Rightarrow> message \<Rightarrow> (pub \<times> ctx) option" where
  "pub_on_recv_ack p ctx eid msg = Some (p, ctx)"

definition pub_on_recv_timeout :: "pub \<Rightarrow> ctx \<Rightarrow> (pub \<times> ctx) option" where
  "pub_on_recv_timeout p ctx = Some (p, ctx)"

definition pub_on_recv_ready :: "pub \<Rightarrow> ctx \<Rightarrow> endpoint_id \<Rightarrow> (pub \<times> ctx) option" where
  "pub_on_recv_ready p ctx eid = Some (p, ctx)"

definition pub_on_recv_not_ready :: "pub \<Rightarrow> ctx \<Rightarrow> endpoint_id \<Rightarrow> (pub \<times> ctx) option" where
  "pub_on_recv_not_ready p ctx eid = Some (p, ctx)"

definition pub_is_send_ready :: "pub \<Rightarrow> bool" where
  "pub_is_send_ready p \<longleftrightarrow> pub_bc p \<noteq> {}"

definition pub_is_recv_ready :: "pub \<Rightarrow> bool" where
  "pub_is_recv_ready p = False"

definition pub_close :: "pub \<Rightarrow> ctx \<Rightarrow> pub \<times> ctx" where
  "pub_close p ctx = (let (pipes, ctx') = pipes_close_all (pub_pipes p) ctx in (p\<lparr>pub_pipes := pipes\<rparr>, ctx'))"

definition pub_ops :: "pub protocol_ops" where
  "pub_ops = \<lparr>
     op_id = \<lambda>_. PUB_ID, op_peer_id = \<lambda>_. SUB_ID, op_add_pipe = pub_add_pipe,
     op_remove_pipe = pub_remove_pipe, op_send = pub_send, op_on_send_ack = pub_on_send_ack,
     op_on_send_timeout = pub_on_send_timeout, op_on_send_ready = pub_on_send_ready,
     op_on_send_not_ready = pub_on_send_not_ready, op_recv = pub_recv,
     op_on_recv_ack = pub_on_recv_ack, op_on_recv_timeout = pub_on_recv_timeout,
     op_on_recv_ready = pub_on_recv_ready, op_on_recv_not_ready = pub_on_recv_not_ready,
     op_is_send_ready = pub_is_send_ready, op_is_recv_ready = pub_is_recv_ready,
     op_set_option = default_set_option, op_on_timer_tick = default_on_timer_tick,
     op_on_device_plugged = default_on_device_plugged, op_close = pub_close\<rparr>"

lemma pub_ops_simps [simp]:
  "op_id pub_ops = (\<lambda>_. PUB_ID)"
  "op_peer_id pub_ops = (\<lambda>_. SUB_ID)"
  "op_add_pipe pub_ops = pub_add_pipe"
  "op_remove_pipe pub_ops = pub_remove_pipe"
  "op_send pub_ops = pub_send"
  "op_on_send_ack pub_ops = pub_on_send_ack"
  "op_on_send_timeout pub_ops = pub_on_send_timeout"
  "op_on_send_ready pub_ops = pub_on_send_ready"
  "op_on_send_not_ready pub_ops = pub_on_send_not_ready"
  "op_recv pub_ops = pub_recv"
  "op_on_recv_ack pub_ops = pub_on_recv_ack"
  "op_on_recv_timeout pub_ops = pub_on_recv_timeout"
  "op_on_recv_ready pub_ops = pub_on_recv_ready"
  "op_on_recv_not_ready pub_ops = pub_on_recv_not_ready"
  "op_is_send_ready pub_ops = pub_is_send_ready"
  "op_is_recv_ready pub_ops = pub_is_recv_ready"
  "op_set_option pub_ops = default_set_option"
  "op_on_timer_tick pub_ops = default_on_timer_tick"
  "op_on_device_plugged pub_ops = default_on_device_plugged"
  "op_close pub_ops = pub_close"
  by (simp_all add: pub_ops_def)

section \<open>The contract\<close>

text \<open>Only known pipes are marked ready.\<close>

definition pub_good :: "pub \<Rightarrow> bool" where
  "pub_good p \<longleftrightarrow> pipes_ok (pub_pipes p) \<and> pub_bc p \<subseteq> dom (pub_pipes p)"

abbreviation pub_step :: "proto_cmd \<Rightarrow> bool \<Rightarrow> pub \<Rightarrow> ctx \<Rightarrow> pub \<times> ctx \<Rightarrow> bool" where
  "pub_step \<equiv> machine_step pub_ops pub_good pub_pipes (\<lambda>_. False)"

lemmas pub_unfold = machine_step_def tracked_def added_def emits_def pub_good_def pub_is_send_ready_def
  pub_is_recv_ready_def context_call_defs

lemma pub_send_eq:
  assumes "pub_good p" and "enumerates (hash_order (env ctx))"
  shows "\<exists>es. pub_send p ctx msg t = Some (p\<lparr>pub_bc := {}\<rparr>, ctx\<lparr>trace := trace ctx @
      map (\<lambda>eid. NetSend eid msg) es @ [Raise (CanSend False), Reply ReplySend] @
      (case t of Some s \<Rightarrow> [Cancel s] | None \<Rightarrow> [])\<rparr>) \<and> set es = pub_bc p \<and> distinct es"
proof -
  have ok: "pipes_ok (pub_pipes p)" "pub_bc p \<subseteq> dom (pub_pipes p)" using assms(1) by (auto simp: pub_good_def)
  have "set (hash_order (env ctx) (pub_bc p)) = pub_bc p" "distinct (hash_order (env ctx) (pub_bc p))"
    using assms(2) finite_subset [OF ok(2) pipes_ok_finite [OF ok(1)]] by (auto simp: enumerates_def)
  then show ?thesis
    by (intro exI [of _ "hash_order (env ctx) (pub_bc p)"])
       (simp add: pub_send_def send_to_all_eq [OF ok assms(2)] context_call_defs emit_def split: option.splits)
qed

lemma pub_send_step:
  assumes "pub_good p" and "enumerates (hash_order (env ctx))"
  shows "runs (pub_send p ctx msg t) (pub_step (SendMsg msg t) due p ctx)"
proof -
  obtain es where es: "pub_send p ctx msg t = Some (p\<lparr>pub_bc := {}\<rparr>, ctx\<lparr>trace := trace ctx @
      map (\<lambda>eid. NetSend eid msg) es @ [Raise (CanSend False), Reply ReplySend] @
      (case t of Some s \<Rightarrow> [Cancel s] | None \<Rightarrow> [])\<rparr>)" "set es = pub_bc p"
    using pub_send_eq [OF assms] by blast
  have "count_replies (map (\<lambda>eid. NetSend eid msg) es) = 0" "seen_send (map (\<lambda>eid. NetSend eid msg) es) r = r"
    "seen_recv (map (\<lambda>eid. NetSend eid msg) es) r = r" for r
    by (induction es) simp_all
  with es assms(1) show ?thesis by (cases t) (auto simp: pub_unfold)
qed

lemma pub_remove_step:
  assumes "pub_good p"
  shows "runs (pub_remove_pipe p ctx eid) (\<lambda>(r, p', ctx'). r = pub_pipes p eid \<and> pub_step (RemovePipe eid) due p ctx (p', ctx'))"
  using assms by (auto simp: pub_remove_pipe_def pipes_remove_def pub_unfold Let_def)

lemma pub_step_ok:
  assumes "pub_good p" and "legal pub_pipes (\<lambda>_ _. True) p cmd" and "enumerates (hash_order (env ctx))"
  shows "runs (proto_step pub_ops cmd p ctx) (pub_step cmd due p ctx)"
proof (cases cmd)
  case (RemovePipe eid)
  then show ?thesis using pub_remove_step [OF assms(1), of ctx eid due] by (auto elim!: runs_mono)
next
  case (SendReady eid)
  then show ?thesis using assms by (auto simp: pub_on_send_ready_def pub_unfold Let_def)
next
  case (SendNotReady eid)
  then show ?thesis using assms by (auto simp: pub_on_send_not_ready_def pub_unfold Let_def)
next
  case (AddPipe eid pipe)
  then show ?thesis using assms by (auto simp: pub_add_pipe_def pipes_insert_def good_pipe_def pub_unfold)
next
  case (RecvMsg t)
  then show ?thesis using assms by (cases t) (auto simp: pub_recv_def pub_unfold)
qed (use assms in \<open>auto simp: default_method_defs pub_on_send_ack_def pub_on_send_timeout_def pub_on_recv_ack_def
       pub_on_recv_timeout_def pub_on_recv_ready_def pub_on_recv_not_ready_def intro!: pub_send_step machine_step_idle\<close>)

interpretation pub_p: answering_protocol pub_ops pub_good pub_pipes "\<lambda>_ _. True" "\<lambda>_. False" "\<lambda>_. False" "\<lambda>_ _. True"
proof
  fix p :: pub and cmd ctx eid
  note step = machine_step_contract [where sending = "\<lambda>_. False" and receiving = "\<lambda>_. False"]
  show "runs (proto_step pub_ops cmd p ctx) (\<lambda>(p', ctx'). step_ok pub_ops pub_good pub_pipes cmd p ctx p' ctx')"
    if "pub_good p" "legal pub_pipes (\<lambda>_ _. True) p cmd" "enumerates (hash_order (env ctx))"
    by (rule step(1)) (use pub_step_ok [OF that] in simp)
  show "runs (proto_step pub_ops cmd p ctx) (\<lambda>(p', ctx').
      count_replies (trace ctx') + outstanding (\<lambda>_. False) (\<lambda>_. False) p' =
      count_replies (trace ctx) + outstanding (\<lambda>_. False) (\<lambda>_. False) p + of_bool (is_request cmd))"
    if "pub_good p" "legal pub_pipes (\<lambda>_ _. True) p cmd" "enumerates (hash_order (env ctx))"
    by (rule step(2) [OF _ TrueI]) (use pub_step_ok [OF that] in simp)
  show "runs (op_remove_pipe pub_ops p ctx eid) (\<lambda>(r, _). r = pub_pipes p eid)" if "pub_good p"
    using pub_remove_step [OF that, of ctx eid True] by (auto elim!: runs_mono)
  show "pipes_ok (pub_pipes p)" if "pub_good p"
    using that by (simp add: pub_good_def)
  then show "\<exists>p' es. op_close pub_ops p ctx = (p', ctx\<lparr>trace := trace ctx @ map (\<lambda>eid. NetClose eid True) es\<rparr>) \<and>
      set es = dom (pub_pipes p) \<and> distinct es \<and> pub_pipes p' = Map.empty"
    if "pub_good p" "enumerates (hash_order (env ctx))"
    using that pipes_close_all_law [of "pub_pipes p" ctx] by (auto simp: pub_close_def)
qed

end
