(* ===== verification/Proto_Bus.thy ===== *)
theory Proto_Bus
  imports Protocol_Machine
begin

text \<open>
  The message bus, \<open>src/proto/bus.rs\<close>: a message is broadcast to every ready pipe,
  except the one it came from when its header names it (as a device forwards it);
  receptions are fair queued.
\<close>

section \<open>Data\<close>

datatype bus_state =
    BusIdle
  | BusReceiving endpoint_id timeout
  | BusRecvOnHold timeout

record bus_inner =
  bus_pipes :: pipe_collection
  bus_bc :: "endpoint_id set"
  bus_fq :: priolist

record bus =
  bus_inner :: bus_inner
  bus_state :: "bus_state option"

definition bus_from :: bus where
  "bus_from = \<lparr>bus_inner = \<lparr>bus_pipes = pipes_new, bus_bc = {}, bus_fq = priolist_new\<rparr>, bus_state = Some BusIdle\<rparr>"

section \<open>Codec\<close>

text \<open>
  The identifier of the originating pipe travels in the header between the
  reception and the emission of a forwarded message, as 32 bits.
\<close>

definition bus_decode :: "byteorder \<Rightarrow> message \<Rightarrow> endpoint_id \<Rightarrow> message" where
  "bus_decode bo raw_msg eid = raw_msg\<lparr>header := header raw_msg @ write_u32 bo (ucast eid)\<rparr>"

definition bus_encode :: "byteorder \<Rightarrow> message \<Rightarrow> message \<times> endpoint_id option" where
  "bus_encode bo msg =
     (if length (get_header msg) < 4 then (msg, None)
      else (let (hdr, bdy) = message_split msg;
                originator = ucast (read_u32 bo (take 4 hdr))
            in (from_header_and_body (drop 4 hdr) bdy, Some originator)))"

section \<open>Inner\<close>

definition bus_inner_add_pipe :: "bus_inner \<Rightarrow> endpoint_id \<Rightarrow> pipe \<Rightarrow> bus_inner" where
  "bus_inner_add_pipe inner eid pipe =
     inner\<lparr>bus_fq := priolist_insert (bus_fq inner) eid (pipe_get_recv_priority pipe),
           bus_pipes := snd (pipes_insert (bus_pipes inner) eid pipe)\<rparr>"

definition bus_inner_remove_pipe :: "bus_inner \<Rightarrow> endpoint_id \<Rightarrow> (pipe option \<times> bus_inner) option" where
  "bus_inner_remove_pipe inner eid = do {
     let bc = bus_bc inner - {eid};
     fq \<leftarrow> priolist_remove (bus_fq inner) eid;
     let (pipe, pipes) = pipes_remove (bus_pipes inner) eid;
     Some (pipe, inner\<lparr>bus_bc := bc, bus_fq := fq, bus_pipes := pipes\<rparr>) }"

definition bus_inner_send_to_all :: "bus_inner \<Rightarrow> ctx \<Rightarrow> message \<Rightarrow> bus_inner \<times> ctx" where
  "bus_inner_send_to_all inner ctx msg =
     (let (bc, ctx') = send_to_all (bus_bc inner) (bus_pipes inner) ctx msg in (inner\<lparr>bus_bc := bc\<rparr>, ctx'))"

definition bus_inner_send_to_all_except :: "bus_inner \<Rightarrow> ctx \<Rightarrow> message \<Rightarrow> endpoint_id \<Rightarrow> bus_inner \<times> ctx" where
  "bus_inner_send_to_all_except inner ctx msg except =
     (let (bc, ctx') = send_to_all_except (bus_bc inner) (bus_pipes inner) ctx msg except
      in (inner\<lparr>bus_bc := bc\<rparr>, ctx'))"

definition bus_inner_send :: "bus_inner \<Rightarrow> ctx \<Rightarrow> message \<Rightarrow> endpoint_id option \<Rightarrow> timeout \<Rightarrow> bus_inner \<times> ctx" where
  "bus_inner_send inner ctx msg oid timeout =
     (let (inner', ctx') =
        (case oid of
           Some except \<Rightarrow>
             if except \<in> bus_bc inner then bus_inner_send_to_all_except inner ctx msg except
             else bus_inner_send_to_all inner ctx msg
         | None \<Rightarrow> bus_inner_send_to_all inner ctx msg)
      in (inner', cancel_opt (send_reply ctx' ReplySend) timeout))"

definition bus_inner_on_send_ready :: "bus_inner \<Rightarrow> endpoint_id \<Rightarrow> bus_inner" where
  "bus_inner_on_send_ready inner eid = inner\<lparr>bus_bc := insert eid (bus_bc inner)\<rparr>"

definition bus_inner_on_send_not_ready :: "bus_inner \<Rightarrow> endpoint_id \<Rightarrow> bus_inner" where
  "bus_inner_on_send_not_ready inner eid = inner\<lparr>bus_bc := bus_bc inner - {eid}\<rparr>"

definition bus_inner_is_send_ready :: "bus_inner \<Rightarrow> bool" where
  "bus_inner_is_send_ready inner \<longleftrightarrow> bus_bc inner \<noteq> {}"

definition bus_inner_recv :: "bus_inner \<Rightarrow> ctx \<Rightarrow> (endpoint_id option \<times> ctx \<times> bus_inner) option" where
  "bus_inner_recv inner ctx = do {
     (r, fq, ctx') \<leftarrow> fair_queue_recv (bus_fq inner) (bus_pipes inner) ctx;
     Some (r, ctx', inner\<lparr>bus_fq := fq\<rparr>) }"

definition bus_inner_on_recv_ready :: "bus_inner \<Rightarrow> endpoint_id \<Rightarrow> bus_inner option" where
  "bus_inner_on_recv_ready inner eid = do {
     fq \<leftarrow> activate (bus_fq inner) eid;
     Some (inner\<lparr>bus_fq := fq\<rparr>) }"

definition bus_inner_on_recv_not_ready :: "bus_inner \<Rightarrow> endpoint_id \<Rightarrow> bus_inner option" where
  "bus_inner_on_recv_not_ready inner eid = do {
     fq \<leftarrow> deactivate (bus_fq inner) eid;
     Some (inner\<lparr>bus_fq := fq\<rparr>) }"

definition bus_inner_on_recv_ack :: "ctx \<Rightarrow> timeout \<Rightarrow> message \<Rightarrow> ctx" where
  "bus_inner_on_recv_ack ctx timeout msg = cancel_opt (send_reply ctx (ReplyRecv msg)) timeout"

definition bus_inner_on_recv_timeout :: "ctx \<Rightarrow> ctx" where
  "bus_inner_on_recv_timeout ctx = send_reply ctx (ReplyErr (timedout_io_error ''Recv timed out''))"

definition bus_inner_is_recv_ready :: "bus_inner \<Rightarrow> bool" where
  "bus_inner_is_recv_ready inner = peek (bus_fq inner)"

definition bus_inner_close :: "bus_inner \<Rightarrow> ctx \<Rightarrow> bus_inner \<times> ctx" where
  "bus_inner_close inner ctx =
     (let (pipes, ctx') = pipes_close_all (bus_pipes inner) ctx in (inner\<lparr>bus_pipes := pipes\<rparr>, ctx'))"

section \<open>State\<close>

type_synonym bus_result = "(bus_state \<times> ctx \<times> bus_inner) option"

definition bus_st_recv :: "bus_state \<Rightarrow> ctx \<Rightarrow> bus_inner \<Rightarrow> timeout \<Rightarrow> bus_result" where
  "bus_st_recv s ctx inner timeout = do {
     (r, ctx', inner') \<leftarrow> bus_inner_recv inner ctx;
     (case r of
        None \<Rightarrow> Some (BusRecvOnHold timeout, ctx', inner')
      | Some eid \<Rightarrow> Some (BusReceiving eid timeout, ctx', inner')) }"

definition bus_st_on_pipe_removed :: "bus_state \<Rightarrow> ctx \<Rightarrow> bus_inner \<Rightarrow> endpoint_id \<Rightarrow> bus_result" where
  "bus_st_on_pipe_removed s ctx inner eid =
     (case s of
        BusReceiving i timeout \<Rightarrow>
          if i = eid then bus_st_recv BusIdle ctx inner timeout
          else Some (BusReceiving i timeout, ctx, inner)
      | _ \<Rightarrow> Some (s, ctx, inner))"

definition bus_st_send :: "bus_state \<Rightarrow> ctx \<Rightarrow> bus_inner \<Rightarrow> message \<Rightarrow> endpoint_id option \<Rightarrow> timeout \<Rightarrow> bus_result" where
  "bus_st_send s ctx inner msg oid timeout =
     (let (inner', ctx') = bus_inner_send inner ctx msg oid timeout in Some (s, ctx', inner'))"

definition bus_st_on_send_ack :: "bus_state \<Rightarrow> ctx \<Rightarrow> bus_inner \<Rightarrow> endpoint_id \<Rightarrow> bus_result" where
  "bus_st_on_send_ack s ctx inner eid = Some (s, ctx, inner)"

definition bus_st_on_send_timeout :: "bus_state \<Rightarrow> ctx \<Rightarrow> bus_inner \<Rightarrow> bus_result" where
  "bus_st_on_send_timeout s ctx inner = Some (s, ctx, inner)"

definition bus_st_on_send_ready :: "bus_state \<Rightarrow> ctx \<Rightarrow> bus_inner \<Rightarrow> endpoint_id \<Rightarrow> bus_result" where
  "bus_st_on_send_ready s ctx inner eid = Some (s, ctx, bus_inner_on_send_ready inner eid)"

definition bus_st_on_send_not_ready :: "bus_state \<Rightarrow> ctx \<Rightarrow> bus_inner \<Rightarrow> endpoint_id \<Rightarrow> bus_result" where
  "bus_st_on_send_not_ready s ctx inner eid = Some (s, ctx, bus_inner_on_send_not_ready inner eid)"

definition bus_st_on_recv_ack :: "bus_state \<Rightarrow> ctx \<Rightarrow> bus_inner \<Rightarrow> endpoint_id \<Rightarrow> message \<Rightarrow> bus_result" where
  "bus_st_on_recv_ack s ctx inner eid msg =
     (case s of
        BusReceiving i timeout \<Rightarrow>
          if i = eid then Some (BusIdle, bus_inner_on_recv_ack ctx timeout msg, inner)
          else Some (BusReceiving i timeout, ctx, inner)
      | _ \<Rightarrow> Some (s, ctx, inner))"

definition bus_st_on_recv_timeout :: "bus_state \<Rightarrow> ctx \<Rightarrow> bus_inner \<Rightarrow> bus_result" where
  "bus_st_on_recv_timeout s ctx inner = Some (BusIdle, bus_inner_on_recv_timeout ctx, inner)"

definition bus_st_on_recv_ready :: "bus_state \<Rightarrow> ctx \<Rightarrow> bus_inner \<Rightarrow> endpoint_id \<Rightarrow> bus_result" where
  "bus_st_on_recv_ready s ctx inner eid = do {
     inner' \<leftarrow> bus_inner_on_recv_ready inner eid;
     (case s of
        BusRecvOnHold timeout \<Rightarrow> bus_st_recv BusIdle ctx inner' timeout
      | _ \<Rightarrow> Some (s, ctx, inner')) }"

definition bus_st_on_recv_not_ready :: "bus_state \<Rightarrow> ctx \<Rightarrow> bus_inner \<Rightarrow> endpoint_id \<Rightarrow> bus_result" where
  "bus_st_on_recv_not_ready s ctx inner eid = do {
     inner' \<leftarrow> bus_inner_on_recv_not_ready inner eid;
     Some (s, ctx, inner') }"

section \<open>Protocol\<close>

definition bus_is_send_ready :: "bus \<Rightarrow> bool" where
  "bus_is_send_ready p = bus_inner_is_send_ready (bus_inner p)"

definition bus_is_recv_ready :: "bus \<Rightarrow> bool" where
  "bus_is_recv_ready p = bus_inner_is_recv_ready (bus_inner p)"

definition bus_apply :: "bus \<Rightarrow> ctx \<Rightarrow> (bus_state \<Rightarrow> ctx \<Rightarrow> bus_inner \<Rightarrow> bus_result) \<Rightarrow> (bus \<times> ctx) option" where
  "bus_apply p ctx transition =
     (case bus_state p of
        None \<Rightarrow> Some (p, ctx)
      | Some old_state \<Rightarrow> do {
          let was_send_ready = bus_is_send_ready p;
          let was_recv_ready = bus_is_recv_ready p;
          (new_state, ctx', inner') \<leftarrow> transition old_state ctx (bus_inner p);
          let p' = p\<lparr>bus_inner := inner', bus_state := Some new_state\<rparr>;
          let ctx'' = check_send_ready_change ctx' was_send_ready (bus_is_send_ready p');
          Some (p', check_recv_ready_change ctx'' was_recv_ready (bus_is_recv_ready p')) })"

definition bus_add_pipe :: "bus \<Rightarrow> ctx \<Rightarrow> endpoint_id \<Rightarrow> pipe \<Rightarrow> (bus \<times> ctx) option" where
  "bus_add_pipe p ctx eid pipe = Some (p\<lparr>bus_inner := bus_inner_add_pipe (bus_inner p) eid pipe\<rparr>, ctx)"

definition bus_remove_pipe :: "bus \<Rightarrow> ctx \<Rightarrow> endpoint_id \<Rightarrow> (pipe option \<times> bus \<times> ctx) option" where
  "bus_remove_pipe p ctx eid = do {
     let was_send_ready = bus_inner_is_send_ready (bus_inner p);
     let was_recv_ready = bus_inner_is_recv_ready (bus_inner p);
     (pipe, inner') \<leftarrow> bus_inner_remove_pipe (bus_inner p) eid;
     let p' = p\<lparr>bus_inner := inner'\<rparr>;
     let is_send_ready = bus_inner_is_send_ready inner';
     let is_recv_ready = bus_inner_is_recv_ready inner';
     (p'', ctx') \<leftarrow>
       (case pipe of
          Some _ \<Rightarrow> bus_apply p' ctx (\<lambda>s ctx inner. bus_st_on_pipe_removed s ctx inner eid)
        | None \<Rightarrow> Some (p', ctx));
     let ctx'' = check_send_ready_change ctx' was_send_ready is_send_ready;
     Some (pipe, p'', check_recv_ready_change ctx'' was_recv_ready is_recv_ready) }"

definition bus_send :: "byteorder \<Rightarrow> bus \<Rightarrow> ctx \<Rightarrow> message \<Rightarrow> timeout \<Rightarrow> (bus \<times> ctx) option" where
  "bus_send bo p ctx msg timeout =
     (let (raw_msg, oid) = bus_encode bo msg
      in bus_apply p ctx (\<lambda>s ctx inner. bus_st_send s ctx inner raw_msg oid timeout))"

definition bus_on_send_ack :: "bus \<Rightarrow> ctx \<Rightarrow> endpoint_id \<Rightarrow> (bus \<times> ctx) option" where
  "bus_on_send_ack p ctx eid = bus_apply p ctx (\<lambda>s ctx inner. bus_st_on_send_ack s ctx inner eid)"

definition bus_on_send_timeout :: "bus \<Rightarrow> ctx \<Rightarrow> (bus \<times> ctx) option" where
  "bus_on_send_timeout p ctx = bus_apply p ctx bus_st_on_send_timeout"

definition bus_on_send_ready :: "bus \<Rightarrow> ctx \<Rightarrow> endpoint_id \<Rightarrow> (bus \<times> ctx) option" where
  "bus_on_send_ready p ctx eid = bus_apply p ctx (\<lambda>s ctx inner. bus_st_on_send_ready s ctx inner eid)"

definition bus_on_send_not_ready :: "bus \<Rightarrow> ctx \<Rightarrow> endpoint_id \<Rightarrow> (bus \<times> ctx) option" where
  "bus_on_send_not_ready p ctx eid = bus_apply p ctx (\<lambda>s ctx inner. bus_st_on_send_not_ready s ctx inner eid)"

definition bus_recv :: "bus \<Rightarrow> ctx \<Rightarrow> timeout \<Rightarrow> (bus \<times> ctx) option" where
  "bus_recv p ctx timeout = bus_apply p ctx (\<lambda>s ctx inner. bus_st_recv s ctx inner timeout)"

definition bus_on_recv_timeout :: "bus \<Rightarrow> ctx \<Rightarrow> (bus \<times> ctx) option" where
  "bus_on_recv_timeout p ctx = bus_apply p ctx bus_st_on_recv_timeout"

definition bus_on_recv_ready :: "bus \<Rightarrow> ctx \<Rightarrow> endpoint_id \<Rightarrow> (bus \<times> ctx) option" where
  "bus_on_recv_ready p ctx eid = bus_apply p ctx (\<lambda>s ctx inner. bus_st_on_recv_ready s ctx inner eid)"

definition bus_on_recv_not_ready :: "bus \<Rightarrow> ctx \<Rightarrow> endpoint_id \<Rightarrow> (bus \<times> ctx) option" where
  "bus_on_recv_not_ready p ctx eid = bus_apply p ctx (\<lambda>s ctx inner. bus_st_on_recv_not_ready s ctx inner eid)"

definition bus_on_recv_ack :: "byteorder \<Rightarrow> bus \<Rightarrow> ctx \<Rightarrow> endpoint_id \<Rightarrow> message \<Rightarrow> (bus \<times> ctx) option" where
  "bus_on_recv_ack bo p ctx eid raw_msg =
     (let msg = bus_decode bo raw_msg eid
      in bus_apply p ctx (\<lambda>s ctx inner. bus_st_on_recv_ack s ctx inner eid msg))"

definition bus_close :: "bus \<Rightarrow> ctx \<Rightarrow> bus \<times> ctx" where
  "bus_close p ctx = (let (inner, ctx') = bus_inner_close (bus_inner p) ctx in (p\<lparr>bus_inner := inner\<rparr>, ctx'))"

definition bus_ops :: "byteorder \<Rightarrow> bus protocol_ops" where
  "bus_ops bo = \<lparr>
     op_id = \<lambda>_. BUS_ID, op_peer_id = \<lambda>_. BUS_ID, op_add_pipe = bus_add_pipe,
     op_remove_pipe = bus_remove_pipe, op_send = bus_send bo, op_on_send_ack = bus_on_send_ack,
     op_on_send_timeout = bus_on_send_timeout, op_on_send_ready = bus_on_send_ready,
     op_on_send_not_ready = bus_on_send_not_ready, op_recv = bus_recv,
     op_on_recv_ack = bus_on_recv_ack bo, op_on_recv_timeout = bus_on_recv_timeout,
     op_on_recv_ready = bus_on_recv_ready, op_on_recv_not_ready = bus_on_recv_not_ready,
     op_is_send_ready = bus_is_send_ready, op_is_recv_ready = bus_is_recv_ready,
     op_set_option = default_set_option, op_on_timer_tick = default_on_timer_tick,
     op_on_device_plugged = default_on_device_plugged, op_close = bus_close\<rparr>"

lemma bus_ops_simps [simp]:
  "op_id (bus_ops bo) = (\<lambda>_. BUS_ID)"
  "op_peer_id (bus_ops bo) = (\<lambda>_. BUS_ID)"
  "op_add_pipe (bus_ops bo) = bus_add_pipe"
  "op_remove_pipe (bus_ops bo) = bus_remove_pipe"
  "op_send (bus_ops bo) = bus_send bo"
  "op_on_send_ack (bus_ops bo) = bus_on_send_ack"
  "op_on_send_timeout (bus_ops bo) = bus_on_send_timeout"
  "op_on_send_ready (bus_ops bo) = bus_on_send_ready"
  "op_on_send_not_ready (bus_ops bo) = bus_on_send_not_ready"
  "op_recv (bus_ops bo) = bus_recv"
  "op_on_recv_ack (bus_ops bo) = bus_on_recv_ack bo"
  "op_on_recv_timeout (bus_ops bo) = bus_on_recv_timeout"
  "op_on_recv_ready (bus_ops bo) = bus_on_recv_ready"
  "op_on_recv_not_ready (bus_ops bo) = bus_on_recv_not_ready"
  "op_is_send_ready (bus_ops bo) = bus_is_send_ready"
  "op_is_recv_ready (bus_ops bo) = bus_is_recv_ready"
  "op_set_option (bus_ops bo) = default_set_option"
  "op_on_timer_tick (bus_ops bo) = default_on_timer_tick"
  "op_on_device_plugged (bus_ops bo) = default_on_device_plugged"
  "op_close (bus_ops bo) = bus_close"
  by (simp_all add: bus_ops_def)

lemmas bus_inner_defs = bus_inner_add_pipe_def bus_inner_remove_pipe_def
  bus_inner_on_send_ready_def bus_inner_on_send_not_ready_def bus_inner_is_send_ready_def
  bus_inner_recv_def bus_inner_on_recv_ready_def bus_inner_on_recv_not_ready_def
  bus_inner_on_recv_ack_def bus_inner_on_recv_timeout_def bus_inner_is_recv_ready_def
  bus_inner_close_def

lemmas bus_st_defs = bus_st_recv_def bus_st_on_pipe_removed_def bus_st_on_send_ack_def
  bus_st_on_send_timeout_def bus_st_on_send_ready_def bus_st_on_send_not_ready_def
  bus_st_on_recv_ack_def bus_st_on_recv_timeout_def bus_st_on_recv_ready_def
  bus_st_on_recv_not_ready_def

lemmas bus_method_defs = bus_send_def bus_on_send_ack_def bus_on_send_timeout_def
  bus_on_send_ready_def bus_on_send_not_ready_def bus_recv_def bus_on_recv_ack_def
  bus_on_recv_timeout_def bus_on_recv_ready_def bus_on_recv_not_ready_def

section \<open>Invariant\<close>

definition bus_inner_ok :: "bus_inner \<Rightarrow> bool" where
  "bus_inner_ok inner \<longleftrightarrow> pipes_ok (bus_pipes inner) \<and> invar (bus_fq inner) \<and>
     ids (bus_fq inner) = dom (bus_pipes inner) \<and> bus_bc inner \<subseteq> dom (bus_pipes inner)"

fun bus_state_ok :: "bus_inner \<Rightarrow> bus_state \<Rightarrow> bool" where
  "bus_state_ok inner BusIdle \<longleftrightarrow> True"
| "bus_state_ok inner (BusReceiving eid _) \<longleftrightarrow> eid \<in> dom (bus_pipes inner)"
| "bus_state_ok inner (BusRecvOnHold _) \<longleftrightarrow> ready (bus_fq inner) = {}"

definition bus_ok :: "bus_inner \<Rightarrow> bus_state \<Rightarrow> bool" where
  "bus_ok inner s \<longleftrightarrow> bus_inner_ok inner \<and> bus_state_ok inner s"

definition bus_good :: "bus \<Rightarrow> bool" where
  "bus_good p \<longleftrightarrow> (\<exists>s. bus_state p = Some s \<and> bus_ok (bus_inner p) s)"

definition bus_pipes_of :: "bus \<Rightarrow> pipe_collection" where
  "bus_pipes_of p = bus_pipes (bus_inner p)"

fun bus_admits :: "bus \<Rightarrow> proto_cmd \<Rightarrow> bool" where
  "bus_admits p (RemovePipe eid) \<longleftrightarrow> removable (bus_fq (bus_inner p)) eid"
| "bus_admits p _ \<longleftrightarrow> True"

fun bus_busy :: "bus_state \<Rightarrow> bool" where
  "bus_busy BusIdle \<longleftrightarrow> False"
| "bus_busy _ \<longleftrightarrow> True"

definition bus_receiving :: "bus \<Rightarrow> bool" where
  "bus_receiving p \<longleftrightarrow> in_state bus_busy (bus_state p)"

abbreviation bus_moves :: "bool \<Rightarrow> nat \<Rightarrow> bus_state \<Rightarrow> ctx \<Rightarrow> bus_inner \<Rightarrow> bus_state \<times> ctx \<times> bus_inner \<Rightarrow> bool" where
  "bus_moves \<equiv> moves bus_ok bus_pipes bus_busy"

abbreviation bus_step :: "byteorder \<Rightarrow> proto_cmd \<Rightarrow> bool \<Rightarrow> bus \<Rightarrow> ctx \<Rightarrow> bus \<times> ctx \<Rightarrow> bool" where
  "bus_step bo \<equiv> machine_step (bus_ops bo) bus_good bus_pipes_of bus_receiving"

interpretation bus_m: machine "bus_ops bo" bus_apply bus_inner bus_state
  "\<lambda>p i s. p\<lparr>bus_inner := i, bus_state := Some s\<rparr>" "\<lambda>s. bus_inner_is_send_ready" "\<lambda>s. bus_inner_is_recv_ready"
  for bo
  by unfold_locales
     (simp_all add: bus_apply_def bus_is_send_ready_def bus_is_recv_ready_def Let_def)

section \<open>What the transitions do\<close>

lemmas bus_unfold = bus_st_defs bus_inner_defs bus_ok_def bus_inner_ok_def moves_def context_call_defs

lemma bus_st_recv_moves:
  assumes "bus_inner_ok inner" and "due \<Longrightarrow> k = of_bool (\<not> bus_busy s)"
  shows "runs (bus_st_recv s' ctx inner t) (bus_moves due k s ctx inner)"
  using assms by (auto simp: bus_unfold intro!: runs_intros emits_intros)

lemma bus_inner_send_facts:
  assumes "bus_inner_ok inner" and "enumerates (hash_order (env ctx))"
  shows "\<exists>bc ctx'. bus_inner_send inner ctx msg oid t = (inner\<lparr>bus_bc := bc\<rparr>, ctx') \<and> bc \<subseteq> dom (bus_pipes inner) \<and>
    emits (quiet_on (dom (bus_pipes inner))) ctx ctx' \<and> count_replies (trace ctx') = Suc (count_replies (trace ctx))"
proof -
  have ok: "pipes_ok (bus_pipes inner)" "bus_bc inner \<subseteq> dom (bus_pipes inner)"
    using assms(1) by (simp_all add: bus_inner_ok_def)
  have order: "set (hash_order (env ctx) (bus_bc inner)) = bus_bc inner"
    using assms(2) finite_subset [OF ok(2) pipes_ok_finite [OF ok(1)]] by (simp add: enumerates_def)
  note eqs = send_to_all_eq [OF ok assms(2)] send_to_all_except_eq [OF ok assms(2)]
  have count: "count_replies (map (\<lambda>eid. NetSend eid msg) xs) = 0" for xs msg
    by (induction xs) simp_all
  have quiet: "emits (quiet_on (dom (bus_pipes inner))) ctx
      (ctx\<lparr>trace := trace ctx @ map (\<lambda>eid. NetSend eid msg) xs\<rparr>)" if "set xs \<subseteq> bus_bc inner" for xs msg
    using that ok(2) by (auto simp: emits_def)
  show ?thesis
    using ok(2) by (auto simp: bus_inner_send_def bus_inner_send_to_all_def bus_inner_send_to_all_except_def eqs
      context_call_defs count order intro!: emits_intros quiet split: option.splits)
qed

lemma bus_send_moves:
  assumes "bus_ok inner s" and "enumerates (hash_order (env ctx))"
  shows "runs (bus_st_send s ctx inner msg oid t) (bus_moves due (Suc 0) s ctx inner)"
  using bus_inner_send_facts [of inner ctx msg oid t] assms
  by (cases s) (auto simp: bus_st_send_def bus_ok_def bus_inner_ok_def moves_def)

lemma bus_on_send_ready_moves:
  assumes "bus_ok inner s" and "eid \<in> dom (bus_pipes inner)"
  shows "runs (bus_st_on_send_ready s ctx inner eid) (bus_moves due 0 s ctx inner)"
  using assms by (cases s) (auto simp: bus_unfold)

lemma bus_on_send_not_ready_moves:
  assumes "bus_ok inner s"
  shows "runs (bus_st_on_send_not_ready s ctx inner eid) (bus_moves due 0 s ctx inner)"
  using assms by (cases s) (auto simp: bus_unfold)

lemma bus_on_recv_ack_moves:
  assumes "bus_ok inner s"
  shows "runs (bus_st_on_recv_ack s ctx inner eid msg) (bus_moves due 0 s ctx inner)"
  using assms by (cases s) (auto simp: bus_unfold intro!: runs_intros emits_intros split: option.splits)

lemma bus_on_recv_timeout_moves:
  assumes "bus_ok inner s" and "due \<Longrightarrow> bus_busy s"
  shows "runs (bus_st_on_recv_timeout s ctx inner) (bus_moves due 0 s ctx inner)"
  using assms by (cases s) (auto simp: bus_unfold intro!: runs_intros emits_intros)

lemma bus_on_recv_ready_moves:
  assumes "bus_ok inner s"
  shows "runs (bus_st_on_recv_ready s ctx inner eid) (bus_moves due 0 s ctx inner)"
  using assms by (cases s) (auto simp: bus_unfold intro!: runs_intros emits_intros)

lemma bus_on_recv_not_ready_moves:
  assumes "bus_ok inner s"
  shows "runs (bus_st_on_recv_not_ready s ctx inner eid) (bus_moves due 0 s ctx inner)"
  using assms by (cases s) (auto simp: bus_unfold intro!: runs_intros emits_intros)

lemma bus_stay_moves:
  assumes "bus_ok inner s"
  shows "bus_moves due 0 s ctx inner (s, ctx, inner)"
  using assms by (simp add: moves_def)

lemma bus_on_pipe_removed_moves:
  assumes "bus_inner_ok inner" and "bus_state_ok old s"
    and "dom (bus_pipes old) - {eid} \<subseteq> dom (bus_pipes inner)" and "ready (bus_fq inner) \<subseteq> ready (bus_fq old)"
  shows "runs (bus_st_on_pipe_removed s ctx inner eid) (\<lambda>r. bus_moves due 0 s ctx inner r \<and>
    (case r of (s', _, i') \<Rightarrow> (bus_inner_is_send_ready i' \<longrightarrow> bus_inner_is_send_ready inner) \<and>
       (bus_inner_is_recv_ready i' \<longrightarrow> bus_inner_is_recv_ready inner)))"
  using assms by (cases s) (auto simp: bus_unfold prq.peek_law intro!: runs_intros emits_intros)

section \<open>The contract\<close>

lemma bus_good_alt: "bus_good = (\<lambda>p. \<exists>s. bus_state p = Some s \<and> bus_ok (bus_inner p) s)"
  "bus_pipes_of = (\<lambda>p. bus_pipes (bus_inner p))" "bus_receiving = (\<lambda>p. in_state bus_busy (bus_state p))"
  by (simp_all add: fun_eq_iff bus_good_def bus_pipes_of_def bus_receiving_def)

lemma bus_apply_step:
  assumes "bus_state p = Some s"
    and "runs (t s ctx (bus_inner p)) (bus_moves due (of_bool (is_request cmd)) s ctx (bus_inner p))"
    and "pipes_after cmd (bus_pipes_of p) = bus_pipes_of p"
  shows "runs (bus_apply p ctx t) (bus_step bo cmd due p ctx)"
  unfolding bus_good_alt
  by (rule bus_m.apply_step [where t = t and s = s and k = "of_bool (is_request cmd)"])
     (use assms in \<open>simp_all add: bus_good_alt\<close>)

lemma bus_add_step:
  assumes "bus_good p" and "eid \<notin> dom (bus_pipes_of p)" and "good_pipe eid pipe"
  shows "runs (bus_add_pipe p ctx eid pipe) (bus_step bo (AddPipe eid pipe) due p ctx)"
proof -
  obtain s where s: "bus_state p = Some s" "bus_ok (bus_inner p) s"
    using assms(1) by (auto simp: bus_good_def)
  then have "bus_ok (bus_inner_add_pipe (bus_inner p) eid pipe) s"
    using assms(2,3) queue_insert_laws [of "bus_fq (bus_inner p)" eid "pipe_get_recv_priority pipe"]
    by (cases s) (auto simp: bus_ok_def bus_inner_ok_def bus_inner_add_pipe_def pipes_insert_def good_pipe_def bus_pipes_of_def)
  then show ?thesis
    by (auto simp: bus_add_pipe_def bus_good_alt s bus_is_send_ready_def bus_inner_is_send_ready_def
      bus_is_recv_ready_def bus_inner_is_recv_ready_def bus_inner_add_pipe_def pipes_insert_def intro!: machine_step_idle)
qed

lemma bus_remove_step:
  assumes "bus_good p" and "removable (bus_fq (bus_inner p)) eid"
  shows "runs (bus_remove_pipe p ctx eid)
    (\<lambda>(r, p', ctx'). r = bus_pipes_of p eid \<and> bus_step bo (RemovePipe eid) due p ctx (p', ctx'))"
proof -
  obtain s where s: "bus_state p = Some s" "bus_ok (bus_inner p) s"
    using assms(1) by (auto simp: bus_good_def)
  let ?q = "bus_fq (bus_inner p)" and ?ps = "bus_pipes (bus_inner p)" and ?bc = "bus_bc (bus_inner p)"
  show ?thesis
  proof (cases "?ps eid")
    case None
    then have same: "priolist_remove ?q eid = Some ?q" "?ps(eid := None) = ?ps" "?bc - {eid} = ?bc"
      using s(2) by (auto simp: bus_ok_def bus_inner_ok_def intro: priolist_remove_absent)
    show ?thesis
      using assms(1) by (simp add: None same bus_remove_pipe_def bus_inner_remove_pipe_def pipes_remove_def
        bus_pipes_of_def check_recv_ready_change_def check_send_ready_change_def machine_step_idle)
  next
    case (Some pipe)
    obtain q' where q': "priolist_remove ?q eid = Some q'" "invar q'" "ids q' = ids ?q - {eid}" "ready q' = ready ?q - {eid}"
      using prq.remove_law [of ?q eid] assms(2) s(2) by (auto simp: bus_ok_def bus_inner_ok_def)
    let ?i = "bus_inner p\<lparr>bus_bc := ?bc - {eid}, bus_fq := q', bus_pipes := ?ps(eid := None)\<rparr>"
    have ok: "bus_inner_ok ?i" using q' s(2) by (auto simp: bus_ok_def bus_inner_ok_def)
    have removed: "runs (bus_st_on_pipe_removed s ctx ?i eid) (\<lambda>r. bus_moves True 0 s ctx ?i r \<and>
        (case r of (s', _, i') \<Rightarrow> (bus_inner_is_send_ready i' \<longrightarrow> bus_inner_is_send_ready ?i) \<and>
          (bus_inner_is_recv_ready i' \<longrightarrow> bus_inner_is_recv_ready ?i)))"
      using s(2) q'(4) by (intro bus_on_pipe_removed_moves [OF ok, where old = "bus_inner p"]) (auto simp: bus_ok_def)
    have lost: "bus_is_send_ready (p\<lparr>bus_inner := ?i\<rparr>) \<Longrightarrow> bus_is_send_ready p"
      "bus_is_recv_ready (p\<lparr>bus_inner := ?i\<rparr>) \<Longrightarrow> bus_is_recv_ready p"
      using s(2) q'(2,4) by (auto simp: bus_is_send_ready_def bus_inner_is_send_ready_def bus_is_recv_ready_def
        bus_inner_is_recv_ready_def bus_ok_def bus_inner_ok_def prq.peek_law)
    note step = bus_m.remove_step_late [where s = s and p = p and ?p1.0 = "p\<lparr>bus_inner := ?i\<rparr>" and pipes = bus_pipes and bo = bo
      and t = "\<lambda>s ctx inner. bus_st_on_pipe_removed s ctx inner eid" and ok = bus_ok and busy = bus_busy and due = due]
    have "runs (do { (p', ctx') \<leftarrow> bus_apply (p\<lparr>bus_inner := ?i\<rparr>) ctx (\<lambda>s ctx inner. bus_st_on_pipe_removed s ctx inner eid);
        Some (p', check_recv_ready_change
          (check_send_ready_change ctx' (bus_is_send_ready p) (bus_is_send_ready (p\<lparr>bus_inner := ?i\<rparr>)))
          (bus_is_recv_ready p) (bus_is_recv_ready (p\<lparr>bus_inner := ?i\<rparr>))) })
        (bus_step bo (RemovePipe eid) due p ctx)"
      unfolding bus_good_alt
      by (rule step [unfolded bus_ops_simps]) (use removed lost in \<open>simp_all add: s\<close>)
    then show ?thesis
      using q'(1) Some by (auto simp: bus_remove_pipe_def bus_inner_remove_pipe_def pipes_remove_def
        bus_pipes_of_def bus_is_send_ready_def bus_is_recv_ready_def Let_def split_def elim!: runs_mono)
  qed
qed

lemma bus_step_ok:
  assumes "bus_good p" and "legal bus_pipes_of bus_admits p cmd" and "enumerates (hash_order (env ctx))"
  shows "runs (proto_step (bus_ops bo) cmd p ctx) (bus_step bo cmd (in_turn (\<lambda>_. False) bus_receiving p cmd) p ctx)"
proof -
  obtain s where s: "bus_state p = Some s" "bus_ok (bus_inner p) s"
    using assms(1) by (auto simp: bus_good_def)
  have inner: "bus_inner_ok (bus_inner p)" using s(2) by (simp add: bus_ok_def)
  note step = bus_apply_step [OF s(1)]
  note moves = bus_st_recv_moves [OF inner] bus_on_recv_ack_moves [OF s(2)] bus_on_recv_timeout_moves [OF s(2)]
    bus_on_recv_ready_moves [OF s(2)] bus_on_recv_not_ready_moves [OF s(2)] bus_send_moves [OF s(2) assms(3)]
    bus_on_send_ready_moves [OF s(2)] bus_on_send_not_ready_moves [OF s(2)]
  note methods = bus_method_defs default_method_defs bus_st_on_send_ack_def bus_st_on_send_timeout_def
  show ?thesis
  proof (cases cmd)
    case (RemovePipe eid)
    then show ?thesis using assms bus_remove_step [OF assms(1), of eid ctx bo True] by (auto elim!: runs_mono)
  qed (use assms s(1) in \<open>auto simp: methods bus_receiving_def bus_pipes_of_def bus_stay_moves [OF s(2)] split_def Let_def
         intro!: step moves bus_add_step machine_step_idle\<close>)
qed

interpretation bus_p: answering_protocol "bus_ops bo" bus_good bus_pipes_of bus_admits "\<lambda>_. False" bus_receiving "\<lambda>_ _. True"
  for bo
proof
  fix p :: bus and cmd ctx eid
  note step = machine_step_contract [where sending = "\<lambda>_. False" and receiving = bus_receiving]
  show "runs (proto_step (bus_ops bo) cmd p ctx) (\<lambda>(p', ctx'). step_ok (bus_ops bo) bus_good bus_pipes_of cmd p ctx p' ctx')"
    if "bus_good p" "legal bus_pipes_of bus_admits p cmd" "enumerates (hash_order (env ctx))"
    by (rule step(1)) (use bus_step_ok [OF that] in simp)
  show "runs (proto_step (bus_ops bo) cmd p ctx) (\<lambda>(p', ctx').
      count_replies (trace ctx') + outstanding (\<lambda>_. False) bus_receiving p' =
      count_replies (trace ctx) + outstanding (\<lambda>_. False) bus_receiving p + of_bool (is_request cmd))"
    if "bus_good p" "legal bus_pipes_of bus_admits p cmd" "enumerates (hash_order (env ctx))" "in_turn (\<lambda>_. False) bus_receiving p cmd"
    by (rule step(2) [OF _ that(4)]) (use bus_step_ok [OF that(1,2,3)] in simp)
  show "runs (op_remove_pipe (bus_ops bo) p ctx eid) (\<lambda>(r, _). r = bus_pipes_of p eid)"
    if "bus_good p" "bus_admits p (RemovePipe eid)"
    using bus_remove_step [OF that(1), of eid ctx bo True] that(2) by (auto elim!: runs_mono)
  show "pipes_ok (bus_pipes_of p)" if "bus_good p"
    using that by (auto simp: bus_good_def bus_ok_def bus_inner_ok_def bus_pipes_of_def)
  then show "\<exists>p' es. op_close (bus_ops bo) p ctx = (p', ctx\<lparr>trace := trace ctx @ map (\<lambda>eid. NetClose eid True) es\<rparr>) \<and>
      set es = dom (bus_pipes_of p) \<and> distinct es \<and> bus_pipes_of p' = Map.empty"
    if "bus_good p" "enumerates (hash_order (env ctx))"
    using that pipes_close_all_law [of "bus_pipes_of p" ctx]
    by (auto simp: bus_close_def bus_inner_close_def bus_pipes_of_def)
qed

end
