(* ===== verification/Proto_Pair.thy ===== *)
theory Proto_Pair
  imports Protocol_Machine
begin

text \<open>
  The pair protocol, \<open>src/proto/pair.rs\<close>: one peer at most; further pipes are closed as
  soon as they are added. Both directions are held back until the peer is ready.
\<close>

section \<open>Data\<close>

datatype pair_state =
    PairIdle
  | PairSending endpoint_id message timeout
  | PairSendOnHold message timeout
  | PairReceiving endpoint_id timeout
  | PairRecvOnHold timeout

record pair_inner =
  pair_pipe :: "(endpoint_id \<times> pipe) option"
  pair_send_ready :: bool
  pair_recv_ready :: bool

record pair =
  pair_inner :: pair_inner
  pair_state :: "pair_state option"

definition pair_from :: pair where
  "pair_from = \<lparr>pair_inner = \<lparr>pair_pipe = None, pair_send_ready = False, pair_recv_ready = False\<rparr>,
     pair_state = Some PairIdle\<rparr>"

section \<open>Inner\<close>

definition pair_inner_add_pipe :: "pair_inner \<Rightarrow> ctx \<Rightarrow> endpoint_id \<Rightarrow> pipe \<Rightarrow> pair_inner \<times> ctx" where
  "pair_inner_add_pipe inner ctx eid pipe =
     (if pair_pipe inner = None then (inner\<lparr>pair_pipe := Some (eid, pipe)\<rparr>, ctx)
      else (inner, snd (pipe_close pipe ctx)))"

definition pair_inner_remove_pipe :: "pair_inner \<Rightarrow> endpoint_id \<Rightarrow> pipe option \<times> pair_inner" where
  "pair_inner_remove_pipe inner eid =
     (case pair_pipe inner of
        Some (i, pipe) \<Rightarrow>
          if i = eid then (Some pipe, inner\<lparr>pair_pipe := None\<rparr>)
          else (None, inner\<lparr>pair_pipe := Some (i, pipe)\<rparr>)
      | None \<Rightarrow> (None, inner\<lparr>pair_pipe := None\<rparr>))"

definition pair_inner_on_pipe_removed :: "pair_inner \<Rightarrow> pair_inner" where
  "pair_inner_on_pipe_removed inner = inner\<lparr>pair_send_ready := False, pair_recv_ready := False\<rparr>"

definition pair_inner_send :: "pair_inner \<Rightarrow> ctx \<Rightarrow> message \<Rightarrow> endpoint_id option \<times> ctx \<times> pair_inner" where
  "pair_inner_send inner ctx msg =
     (if \<not> pair_send_ready inner then (None, ctx, inner)
      else (let inner' = inner\<lparr>pair_send_ready := False\<rparr>
            in (case pair_pipe inner of
                  None \<Rightarrow> (None, ctx, inner')
                | Some (eid, pipe) \<Rightarrow> (Some eid, pipe_send pipe ctx msg, inner'))))"

definition pair_inner_on_send_ready :: "pair_inner \<Rightarrow> endpoint_id \<Rightarrow> pair_inner" where
  "pair_inner_on_send_ready inner eid =
     (if map_option fst (pair_pipe inner) = Some eid then inner\<lparr>pair_send_ready := True\<rparr> else inner)"

definition pair_inner_on_send_not_ready :: "pair_inner \<Rightarrow> endpoint_id \<Rightarrow> pair_inner" where
  "pair_inner_on_send_not_ready inner eid =
     (if map_option fst (pair_pipe inner) = Some eid then inner\<lparr>pair_send_ready := False\<rparr> else inner)"

definition pair_inner_on_send_ack :: "ctx \<Rightarrow> timeout \<Rightarrow> ctx" where
  "pair_inner_on_send_ack ctx timeout = cancel_opt (send_reply ctx ReplySend) timeout"

definition pair_inner_on_send_timeout :: "ctx \<Rightarrow> ctx" where
  "pair_inner_on_send_timeout ctx = send_reply ctx (ReplyErr (timedout_io_error ''Send timed out''))"

definition pair_inner_recv :: "pair_inner \<Rightarrow> ctx \<Rightarrow> endpoint_id option \<times> ctx \<times> pair_inner" where
  "pair_inner_recv inner ctx =
     (if \<not> pair_recv_ready inner then (None, ctx, inner)
      else (let inner' = inner\<lparr>pair_recv_ready := False\<rparr>
            in (case pair_pipe inner of
                  None \<Rightarrow> (None, ctx, inner')
                | Some (eid, pipe) \<Rightarrow> (Some eid, pipe_recv pipe ctx, inner'))))"

definition pair_inner_on_recv_ready :: "pair_inner \<Rightarrow> endpoint_id \<Rightarrow> pair_inner" where
  "pair_inner_on_recv_ready inner eid =
     (if map_option fst (pair_pipe inner) = Some eid then inner\<lparr>pair_recv_ready := True\<rparr> else inner)"

definition pair_inner_on_recv_not_ready :: "pair_inner \<Rightarrow> endpoint_id \<Rightarrow> pair_inner" where
  "pair_inner_on_recv_not_ready inner eid =
     (if map_option fst (pair_pipe inner) = Some eid then inner\<lparr>pair_recv_ready := False\<rparr> else inner)"

definition pair_inner_on_recv_ack :: "ctx \<Rightarrow> timeout \<Rightarrow> message \<Rightarrow> ctx" where
  "pair_inner_on_recv_ack ctx timeout msg = cancel_opt (send_reply ctx (ReplyRecv msg)) timeout"

definition pair_inner_on_recv_timeout :: "ctx \<Rightarrow> ctx" where
  "pair_inner_on_recv_timeout ctx = send_reply ctx (ReplyErr (timedout_io_error ''Recv timed out''))"

definition pair_inner_close :: "pair_inner \<Rightarrow> ctx \<Rightarrow> pair_inner \<times> ctx" where
  "pair_inner_close inner ctx =
     (inner\<lparr>pair_pipe := None\<rparr>, case pair_pipe inner of Some (_, pipe) \<Rightarrow> snd (pipe_close pipe ctx) | None \<Rightarrow> ctx)"

section \<open>State\<close>

type_synonym pair_result = "(pair_state \<times> ctx \<times> pair_inner) option"

definition pair_st_on_pipe_removed :: "pair_state \<Rightarrow> ctx \<Rightarrow> pair_inner \<Rightarrow> endpoint_id \<Rightarrow> pair_result" where
  "pair_st_on_pipe_removed s ctx inner eid =
     (let inner' = pair_inner_on_pipe_removed inner
      in (case s of
            PairSending i msg timeout \<Rightarrow>
              if i = eid then Some (PairSendOnHold msg timeout, ctx, inner')
              else Some (PairSending i msg timeout, ctx, inner')
          | PairReceiving i timeout \<Rightarrow>
              if i = eid then Some (PairRecvOnHold timeout, ctx, inner')
              else Some (PairReceiving i timeout, ctx, inner')
          | _ \<Rightarrow> Some (s, ctx, inner')))"

definition pair_st_send :: "pair_state \<Rightarrow> ctx \<Rightarrow> pair_inner \<Rightarrow> message \<Rightarrow> timeout \<Rightarrow> pair_result" where
  "pair_st_send s ctx inner msg timeout =
     (case pair_inner_send inner ctx msg of
        (Some eid, ctx', inner') \<Rightarrow> Some (PairSending eid msg timeout, ctx', inner')
      | (None, ctx', inner') \<Rightarrow> Some (PairSendOnHold msg timeout, ctx', inner'))"

definition pair_st_on_send_ack :: "pair_state \<Rightarrow> ctx \<Rightarrow> pair_inner \<Rightarrow> endpoint_id \<Rightarrow> pair_result" where
  "pair_st_on_send_ack s ctx inner eid =
     (case s of
        PairSending i msg timeout \<Rightarrow>
          if i = eid then Some (PairIdle, pair_inner_on_send_ack ctx timeout, inner)
          else Some (PairSending i msg timeout, ctx, inner)
      | _ \<Rightarrow> Some (s, ctx, inner))"

definition pair_st_on_send_timeout :: "pair_state \<Rightarrow> ctx \<Rightarrow> pair_inner \<Rightarrow> pair_result" where
  "pair_st_on_send_timeout s ctx inner = Some (PairIdle, pair_inner_on_send_timeout ctx, inner)"

definition pair_st_on_send_ready :: "pair_state \<Rightarrow> ctx \<Rightarrow> pair_inner \<Rightarrow> endpoint_id \<Rightarrow> pair_result" where
  "pair_st_on_send_ready s ctx inner eid =
     (let inner' = pair_inner_on_send_ready inner eid
      in (case s of
            PairSendOnHold msg timeout \<Rightarrow> pair_st_send PairIdle ctx inner' msg timeout
          | _ \<Rightarrow> Some (s, ctx, inner')))"

definition pair_st_on_send_not_ready :: "pair_state \<Rightarrow> ctx \<Rightarrow> pair_inner \<Rightarrow> endpoint_id \<Rightarrow> pair_result" where
  "pair_st_on_send_not_ready s ctx inner eid = Some (s, ctx, pair_inner_on_send_not_ready inner eid)"

definition pair_st_recv :: "pair_state \<Rightarrow> ctx \<Rightarrow> pair_inner \<Rightarrow> timeout \<Rightarrow> pair_result" where
  "pair_st_recv s ctx inner timeout =
     (case pair_inner_recv inner ctx of
        (None, ctx', inner') \<Rightarrow> Some (PairRecvOnHold timeout, ctx', inner')
      | (Some eid, ctx', inner') \<Rightarrow> Some (PairReceiving eid timeout, ctx', inner'))"

definition pair_st_on_recv_ack :: "pair_state \<Rightarrow> ctx \<Rightarrow> pair_inner \<Rightarrow> endpoint_id \<Rightarrow> message \<Rightarrow> pair_result" where
  "pair_st_on_recv_ack s ctx inner eid msg =
     (case s of
        PairReceiving i timeout \<Rightarrow>
          if i = eid then Some (PairIdle, pair_inner_on_recv_ack ctx timeout msg, inner)
          else Some (PairReceiving i timeout, ctx, inner)
      | _ \<Rightarrow> Some (s, ctx, inner))"

definition pair_st_on_recv_timeout :: "pair_state \<Rightarrow> ctx \<Rightarrow> pair_inner \<Rightarrow> pair_result" where
  "pair_st_on_recv_timeout s ctx inner = Some (PairIdle, pair_inner_on_recv_timeout ctx, inner)"

definition pair_st_on_recv_ready :: "pair_state \<Rightarrow> ctx \<Rightarrow> pair_inner \<Rightarrow> endpoint_id \<Rightarrow> pair_result" where
  "pair_st_on_recv_ready s ctx inner eid =
     (let inner' = pair_inner_on_recv_ready inner eid
      in (case s of
            PairRecvOnHold timeout \<Rightarrow> pair_st_recv PairIdle ctx inner' timeout
          | _ \<Rightarrow> Some (s, ctx, inner')))"

definition pair_st_on_recv_not_ready :: "pair_state \<Rightarrow> ctx \<Rightarrow> pair_inner \<Rightarrow> endpoint_id \<Rightarrow> pair_result" where
  "pair_st_on_recv_not_ready s ctx inner eid = Some (s, ctx, pair_inner_on_recv_not_ready inner eid)"

section \<open>Protocol\<close>

definition pair_is_send_ready :: "pair \<Rightarrow> bool" where
  "pair_is_send_ready p = pair_send_ready (pair_inner p)"

definition pair_is_recv_ready :: "pair \<Rightarrow> bool" where
  "pair_is_recv_ready p = pair_recv_ready (pair_inner p)"

definition pair_apply :: "pair \<Rightarrow> ctx \<Rightarrow> (pair_state \<Rightarrow> ctx \<Rightarrow> pair_inner \<Rightarrow> pair_result) \<Rightarrow> (pair \<times> ctx) option" where
  "pair_apply p ctx transition =
     (case pair_state p of
        None \<Rightarrow> Some (p, ctx)
      | Some old_state \<Rightarrow> do {
          let was_send_ready = pair_send_ready (pair_inner p);
          let was_recv_ready = pair_recv_ready (pair_inner p);
          (new_state, ctx', inner') \<leftarrow> transition old_state ctx (pair_inner p);
          let p' = p\<lparr>pair_inner := inner', pair_state := Some new_state\<rparr>;
          let ctx'' = check_send_ready_change ctx' was_send_ready (pair_send_ready inner');
          Some (p', check_recv_ready_change ctx'' was_recv_ready (pair_recv_ready inner')) })"

definition pair_add_pipe :: "pair \<Rightarrow> ctx \<Rightarrow> endpoint_id \<Rightarrow> pipe \<Rightarrow> (pair \<times> ctx) option" where
  "pair_add_pipe p ctx eid pipe =
     (let (inner, ctx') = pair_inner_add_pipe (pair_inner p) ctx eid pipe in Some (p\<lparr>pair_inner := inner\<rparr>, ctx'))"

definition pair_remove_pipe :: "pair \<Rightarrow> ctx \<Rightarrow> endpoint_id \<Rightarrow> (pipe option \<times> pair \<times> ctx) option" where
  "pair_remove_pipe p ctx eid =
     (let (pipe, inner') = pair_inner_remove_pipe (pair_inner p) eid;
          p' = p\<lparr>pair_inner := inner'\<rparr>
      in (case pipe of
            Some _ \<Rightarrow> do {
              (p'', ctx') \<leftarrow> pair_apply p' ctx (\<lambda>s ctx inner. pair_st_on_pipe_removed s ctx inner eid);
              Some (pipe, p'', ctx') }
          | None \<Rightarrow> Some (pipe, p', ctx)))"

definition pair_send :: "pair \<Rightarrow> ctx \<Rightarrow> message \<Rightarrow> timeout \<Rightarrow> (pair \<times> ctx) option" where
  "pair_send p ctx msg timeout = pair_apply p ctx (\<lambda>s ctx inner. pair_st_send s ctx inner msg timeout)"

definition pair_on_send_ack :: "pair \<Rightarrow> ctx \<Rightarrow> endpoint_id \<Rightarrow> (pair \<times> ctx) option" where
  "pair_on_send_ack p ctx eid = pair_apply p ctx (\<lambda>s ctx inner. pair_st_on_send_ack s ctx inner eid)"

definition pair_on_send_timeout :: "pair \<Rightarrow> ctx \<Rightarrow> (pair \<times> ctx) option" where
  "pair_on_send_timeout p ctx = pair_apply p ctx pair_st_on_send_timeout"

definition pair_on_send_ready :: "pair \<Rightarrow> ctx \<Rightarrow> endpoint_id \<Rightarrow> (pair \<times> ctx) option" where
  "pair_on_send_ready p ctx eid = pair_apply p ctx (\<lambda>s ctx inner. pair_st_on_send_ready s ctx inner eid)"

definition pair_on_send_not_ready :: "pair \<Rightarrow> ctx \<Rightarrow> endpoint_id \<Rightarrow> (pair \<times> ctx) option" where
  "pair_on_send_not_ready p ctx eid = pair_apply p ctx (\<lambda>s ctx inner. pair_st_on_send_not_ready s ctx inner eid)"

definition pair_recv :: "pair \<Rightarrow> ctx \<Rightarrow> timeout \<Rightarrow> (pair \<times> ctx) option" where
  "pair_recv p ctx timeout = pair_apply p ctx (\<lambda>s ctx inner. pair_st_recv s ctx inner timeout)"

definition pair_on_recv_ack :: "pair \<Rightarrow> ctx \<Rightarrow> endpoint_id \<Rightarrow> message \<Rightarrow> (pair \<times> ctx) option" where
  "pair_on_recv_ack p ctx eid msg = pair_apply p ctx (\<lambda>s ctx inner. pair_st_on_recv_ack s ctx inner eid msg)"

definition pair_on_recv_timeout :: "pair \<Rightarrow> ctx \<Rightarrow> (pair \<times> ctx) option" where
  "pair_on_recv_timeout p ctx = pair_apply p ctx pair_st_on_recv_timeout"

definition pair_on_recv_ready :: "pair \<Rightarrow> ctx \<Rightarrow> endpoint_id \<Rightarrow> (pair \<times> ctx) option" where
  "pair_on_recv_ready p ctx eid = pair_apply p ctx (\<lambda>s ctx inner. pair_st_on_recv_ready s ctx inner eid)"

definition pair_on_recv_not_ready :: "pair \<Rightarrow> ctx \<Rightarrow> endpoint_id \<Rightarrow> (pair \<times> ctx) option" where
  "pair_on_recv_not_ready p ctx eid = pair_apply p ctx (\<lambda>s ctx inner. pair_st_on_recv_not_ready s ctx inner eid)"

definition pair_close :: "pair \<Rightarrow> ctx \<Rightarrow> pair \<times> ctx" where
  "pair_close p ctx = (let (inner, ctx') = pair_inner_close (pair_inner p) ctx in (p\<lparr>pair_inner := inner\<rparr>, ctx'))"

definition pair_ops :: "pair protocol_ops" where
  "pair_ops = \<lparr>
     op_id = \<lambda>_. PAIR_ID, op_peer_id = \<lambda>_. PAIR_ID, op_add_pipe = pair_add_pipe,
     op_remove_pipe = pair_remove_pipe, op_send = pair_send, op_on_send_ack = pair_on_send_ack,
     op_on_send_timeout = pair_on_send_timeout, op_on_send_ready = pair_on_send_ready,
     op_on_send_not_ready = pair_on_send_not_ready, op_recv = pair_recv,
     op_on_recv_ack = pair_on_recv_ack, op_on_recv_timeout = pair_on_recv_timeout,
     op_on_recv_ready = pair_on_recv_ready, op_on_recv_not_ready = pair_on_recv_not_ready,
     op_is_send_ready = pair_is_send_ready, op_is_recv_ready = pair_is_recv_ready,
     op_set_option = default_set_option, op_on_timer_tick = default_on_timer_tick,
     op_on_device_plugged = default_on_device_plugged, op_close = pair_close\<rparr>"

lemma pair_ops_simps [simp]:
  "op_id pair_ops = (\<lambda>_. PAIR_ID)"
  "op_peer_id pair_ops = (\<lambda>_. PAIR_ID)"
  "op_add_pipe pair_ops = pair_add_pipe"
  "op_remove_pipe pair_ops = pair_remove_pipe"
  "op_send pair_ops = pair_send"
  "op_on_send_ack pair_ops = pair_on_send_ack"
  "op_on_send_timeout pair_ops = pair_on_send_timeout"
  "op_on_send_ready pair_ops = pair_on_send_ready"
  "op_on_send_not_ready pair_ops = pair_on_send_not_ready"
  "op_recv pair_ops = pair_recv"
  "op_on_recv_ack pair_ops = pair_on_recv_ack"
  "op_on_recv_timeout pair_ops = pair_on_recv_timeout"
  "op_on_recv_ready pair_ops = pair_on_recv_ready"
  "op_on_recv_not_ready pair_ops = pair_on_recv_not_ready"
  "op_is_send_ready pair_ops = pair_is_send_ready"
  "op_is_recv_ready pair_ops = pair_is_recv_ready"
  "op_set_option pair_ops = default_set_option"
  "op_on_timer_tick pair_ops = default_on_timer_tick"
  "op_on_device_plugged pair_ops = default_on_device_plugged"
  "op_close pair_ops = pair_close"
  by (simp_all add: pair_ops_def)

lemmas pair_inner_defs = pair_inner_add_pipe_def pair_inner_remove_pipe_def
  pair_inner_on_pipe_removed_def pair_inner_send_def pair_inner_on_send_ready_def
  pair_inner_on_send_not_ready_def pair_inner_on_send_ack_def pair_inner_on_send_timeout_def
  pair_inner_recv_def pair_inner_on_recv_ready_def pair_inner_on_recv_not_ready_def
  pair_inner_on_recv_ack_def pair_inner_on_recv_timeout_def pair_inner_close_def

lemmas pair_st_defs = pair_st_on_pipe_removed_def pair_st_send_def pair_st_on_send_ack_def
  pair_st_on_send_timeout_def pair_st_on_send_ready_def pair_st_on_send_not_ready_def
  pair_st_recv_def pair_st_on_recv_ack_def pair_st_on_recv_timeout_def pair_st_on_recv_ready_def
  pair_st_on_recv_not_ready_def

lemmas pair_method_defs = pair_send_def pair_on_send_ack_def pair_on_send_timeout_def
  pair_on_send_ready_def pair_on_send_not_ready_def pair_recv_def pair_on_recv_ack_def
  pair_on_recv_timeout_def pair_on_recv_ready_def pair_on_recv_not_ready_def

section \<open>Invariant\<close>

text \<open>
  The peer is stored under its own identifier and is ready only while it is there; a
  transfer in progress is with the peer; a transfer is on hold only while the peer is
  not ready for it.
\<close>

definition pair_pipes :: "pair_inner \<Rightarrow> pipe_collection" where
  "pair_pipes inner = (case pair_pipe inner of None \<Rightarrow> Map.empty | Some (eid, pipe) \<Rightarrow> [eid \<mapsto> pipe])"

definition pair_inner_ok :: "pair_inner \<Rightarrow> bool" where
  "pair_inner_ok inner \<longleftrightarrow>
     (case pair_pipe inner of
        None \<Rightarrow> \<not> pair_send_ready inner \<and> \<not> pair_recv_ready inner
      | Some (eid, pipe) \<Rightarrow> ep_id (pipe_endpoint pipe) = eid)"

fun pair_state_ok :: "pair_inner \<Rightarrow> pair_state \<Rightarrow> bool" where
  "pair_state_ok inner PairIdle \<longleftrightarrow> True"
| "pair_state_ok inner (PairSending eid _ _) \<longleftrightarrow> map_option fst (pair_pipe inner) = Some eid"
| "pair_state_ok inner (PairSendOnHold _ _) \<longleftrightarrow> \<not> pair_send_ready inner"
| "pair_state_ok inner (PairReceiving eid _) \<longleftrightarrow> map_option fst (pair_pipe inner) = Some eid"
| "pair_state_ok inner (PairRecvOnHold _) \<longleftrightarrow> \<not> pair_recv_ready inner"

definition pair_ok :: "pair_inner \<Rightarrow> pair_state \<Rightarrow> bool" where
  "pair_ok inner s \<longleftrightarrow> pair_inner_ok inner \<and> pair_state_ok inner s"

definition pair_good :: "pair \<Rightarrow> bool" where
  "pair_good p \<longleftrightarrow> (\<exists>s. pair_state p = Some s \<and> pair_ok (pair_inner p) s)"

definition pair_pipes_of :: "pair \<Rightarrow> pipe_collection" where
  "pair_pipes_of p = pair_pipes (pair_inner p)"

fun pair_st_sending :: "pair_state \<Rightarrow> bool" where
  "pair_st_sending (PairSending _ _ _) \<longleftrightarrow> True"
| "pair_st_sending (PairSendOnHold _ _) \<longleftrightarrow> True"
| "pair_st_sending _ \<longleftrightarrow> False"

fun pair_st_receiving :: "pair_state \<Rightarrow> bool" where
  "pair_st_receiving (PairReceiving _ _) \<longleftrightarrow> True"
| "pair_st_receiving (PairRecvOnHold _) \<longleftrightarrow> True"
| "pair_st_receiving _ \<longleftrightarrow> False"

definition pair_busy :: "pair_state \<Rightarrow> bool" where
  "pair_busy s \<longleftrightarrow> pair_st_sending s \<or> pair_st_receiving s"

definition pair_sending :: "pair \<Rightarrow> bool" where
  "pair_sending p \<longleftrightarrow> in_state pair_st_sending (pair_state p)"

definition pair_receiving :: "pair \<Rightarrow> bool" where
  "pair_receiving p \<longleftrightarrow> in_state pair_st_receiving (pair_state p)"

abbreviation pair_moves :: "bool \<Rightarrow> nat \<Rightarrow> pair_state \<Rightarrow> ctx \<Rightarrow> pair_inner \<Rightarrow> pair_state \<times> ctx \<times> pair_inner \<Rightarrow> bool" where
  "pair_moves \<equiv> moves pair_ok pair_pipes pair_busy"

abbreviation pair_step :: "proto_cmd \<Rightarrow> bool \<Rightarrow> pair \<Rightarrow> ctx \<Rightarrow> pair \<times> ctx \<Rightarrow> bool" where
  "pair_step \<equiv> machine_step pair_ops pair_good pair_pipes_of (\<lambda>p. pair_sending p \<or> pair_receiving p)"

interpretation pair_m: machine pair_ops pair_apply pair_inner pair_state
  "\<lambda>p i s. p\<lparr>pair_inner := i, pair_state := Some s\<rparr>" "\<lambda>s. pair_send_ready" "\<lambda>s. pair_recv_ready"
  by unfold_locales (simp_all add: pair_apply_def pair_is_send_ready_def pair_is_recv_ready_def Let_def)

section \<open>What the transitions do\<close>

lemmas pair_unfold = pair_st_defs pair_inner_defs pair_ok_def pair_inner_ok_def pair_pipes_def pair_busy_def
  moves_def context_call_defs ctx_simps

lemma pair_send_moves:
  assumes "pair_inner_ok inner" and "due \<Longrightarrow> k = of_bool (\<not> pair_busy s)"
  shows "runs (pair_st_send s' ctx inner msg t) (pair_moves due k s ctx inner)"
  using assms by (auto simp: pair_unfold Let_def intro!: emits_intros split: option.splits prod.splits)

lemma pair_recv_moves:
  assumes "pair_inner_ok inner" and "due \<Longrightarrow> k = of_bool (\<not> pair_busy s)"
  shows "runs (pair_st_recv s' ctx inner t) (pair_moves due k s ctx inner)"
  using assms by (auto simp: pair_unfold Let_def intro!: emits_intros split: option.splits prod.splits)

lemma pair_on_send_ack_moves:
  assumes "pair_ok inner s"
  shows "runs (pair_st_on_send_ack s ctx inner eid) (pair_moves due 0 s ctx inner)"
  using assms by (cases s) (auto simp: pair_unfold intro!: emits_intros split: option.splits)

lemma pair_on_recv_ack_moves:
  assumes "pair_ok inner s"
  shows "runs (pair_st_on_recv_ack s ctx inner eid msg) (pair_moves due 0 s ctx inner)"
  using assms by (cases s) (auto simp: pair_unfold intro!: emits_intros split: option.splits)

lemma pair_on_send_timeout_moves:
  assumes "pair_ok inner s" and "due \<Longrightarrow> pair_busy s"
  shows "runs (pair_st_on_send_timeout s ctx inner) (pair_moves due 0 s ctx inner)"
  using assms by (cases s) (auto simp: pair_unfold intro!: emits_intros)

lemma pair_on_recv_timeout_moves:
  assumes "pair_ok inner s" and "due \<Longrightarrow> pair_busy s"
  shows "runs (pair_st_on_recv_timeout s ctx inner) (pair_moves due 0 s ctx inner)"
  using assms by (cases s) (auto simp: pair_unfold intro!: emits_intros)

lemma pair_inner_ready_ok:
  assumes "pair_inner_ok inner"
  shows "pair_inner_ok (pair_inner_on_send_ready inner eid)" "pair_pipes (pair_inner_on_send_ready inner eid) = pair_pipes inner"
    "pair_inner_ok (pair_inner_on_recv_ready inner eid)" "pair_pipes (pair_inner_on_recv_ready inner eid) = pair_pipes inner"
  using assms by (auto simp: pair_inner_on_send_ready_def pair_inner_on_recv_ready_def pair_inner_ok_def pair_pipes_def split: option.splits)

lemma pair_on_send_ready_moves:
  assumes "pair_ok inner s"
  shows "runs (pair_st_on_send_ready s ctx inner eid) (pair_moves due 0 s ctx inner)"
proof (cases "\<exists>msg t. s = PairSendOnHold msg t")
  case True
  then obtain msg t where s: "s = PairSendOnHold msg t" by blast
  have inner: "pair_inner_ok inner" using assms by (simp add: pair_ok_def)
  show ?thesis
    unfolding pair_st_on_send_ready_def s Let_def
    by (simp, rule moves_from [OF pair_inner_ready_ok(2) [OF inner]])
       (rule pair_send_moves [OF pair_inner_ready_ok(1) [OF inner]], simp add: pair_busy_def)
next
  case False
  then show ?thesis using assms by (cases s) (auto simp: pair_unfold split: option.splits)
qed

lemma pair_on_recv_ready_moves:
  assumes "pair_ok inner s"
  shows "runs (pair_st_on_recv_ready s ctx inner eid) (pair_moves due 0 s ctx inner)"
proof (cases "\<exists>t. s = PairRecvOnHold t")
  case True
  then obtain t where s: "s = PairRecvOnHold t" by blast
  have inner: "pair_inner_ok inner" using assms by (simp add: pair_ok_def)
  show ?thesis
    unfolding pair_st_on_recv_ready_def s Let_def
    by (simp, rule moves_from [OF pair_inner_ready_ok(4) [OF inner]])
       (rule pair_recv_moves [OF pair_inner_ready_ok(3) [OF inner]], simp add: pair_busy_def)
next
  case False
  then show ?thesis using assms by (cases s) (auto simp: pair_unfold split: option.splits)
qed

lemma pair_on_not_ready_moves:
  assumes "pair_ok inner s"
  shows "runs (pair_st_on_send_not_ready s ctx inner eid) (pair_moves due 0 s ctx inner)"
    and "runs (pair_st_on_recv_not_ready s ctx inner eid) (pair_moves due 0 s ctx inner)"
  using assms by (cases s; auto simp: pair_unfold split: option.splits)+

lemma pair_on_pipe_removed_moves:
  assumes "pair_pipe inner = None" and "pair_state_ok old s" and "map_option fst (pair_pipe old) = Some eid"
  shows "runs (pair_st_on_pipe_removed s ctx inner eid) (pair_moves due 0 s ctx inner)"
  using assms by (cases s) (auto simp: pair_unfold)

section \<open>The contract\<close>

lemma pair_good_alt: "pair_good = (\<lambda>p. \<exists>s. pair_state p = Some s \<and> pair_ok (pair_inner p) s)"
  "pair_pipes_of = (\<lambda>p. pair_pipes (pair_inner p))"
  "(\<lambda>p. pair_sending p \<or> pair_receiving p) = (\<lambda>p. in_state pair_busy (pair_state p))"
  by (auto simp: fun_eq_iff pair_good_def pair_pipes_of_def pair_sending_def pair_receiving_def pair_busy_def in_state_def
      split: option.splits)

lemma pair_apply_step:
  assumes "pair_state p = Some s"
    and "runs (t s ctx (pair_inner p)) (pair_moves due (of_bool (is_request cmd)) s ctx (pair_inner p))"
    and "pipes_after cmd (pair_pipes_of p) = pair_pipes_of p"
  shows "runs (pair_apply p ctx t) (pair_step cmd due p ctx)"
  unfolding pair_good_alt
  by (rule pair_m.apply_step [where t = t and s = s and k = "of_bool (is_request cmd)"])
     (use assms in \<open>simp_all add: pair_good_alt\<close>)

lemma pair_remove_step:
  assumes "pair_good p"
  shows "runs (pair_remove_pipe p ctx eid)
    (\<lambda>(r, p', ctx'). r = pair_pipes_of p eid \<and> pair_step (RemovePipe eid) due p ctx (p', ctx'))"
proof -
  obtain s where s: "pair_state p = Some s" "pair_ok (pair_inner p) s"
    using assms(1) by (auto simp: pair_good_def)
  show ?thesis
  proof (cases "pair_pipes_of p eid")
    case None
    then have "pair_inner_remove_pipe (pair_inner p) eid = (None, pair_inner p)" "(pair_pipes_of p)(eid := None) = pair_pipes_of p"
      by (auto simp: pair_pipes_of_def pair_pipes_def pair_inner_remove_pipe_def split: option.splits if_splits)
    then show ?thesis
      using assms(1) None by (auto simp: pair_remove_pipe_def intro!: machine_step_idle)
  next
    case (Some pipe)
    let ?i = "pair_inner p\<lparr>pair_pipe := None\<rparr>"
    have pipe: "pair_pipe (pair_inner p) = Some (eid, pipe)"
      using Some by (auto simp: pair_pipes_of_def pair_pipes_def split: option.splits if_splits)
    have removed: "runs (pair_st_on_pipe_removed s ctx ?i eid) (pair_moves True 0 s ctx ?i)"
      using s(2) pipe by (intro pair_on_pipe_removed_moves [where old = "pair_inner p"]) (auto simp: pair_ok_def)
    have same: "pair_is_send_ready (p\<lparr>pair_inner := ?i\<rparr>) = pair_is_send_ready p"
      "pair_is_recv_ready (p\<lparr>pair_inner := ?i\<rparr>) = pair_is_recv_ready p"
      by (simp_all add: pair_is_send_ready_def pair_is_recv_ready_def)
    have "runs (pair_apply (p\<lparr>pair_inner := ?i\<rparr>) ctx (\<lambda>s ctx inner. pair_st_on_pipe_removed s ctx inner eid))
        (pair_step (RemovePipe eid) due p ctx)"
      unfolding pair_good_alt
      by (rule pair_m.remove_step [where s = s and pipes = pair_pipes and t = "\<lambda>s ctx inner. pair_st_on_pipe_removed s ctx inner eid"])
         (use removed pipe in \<open>simp_all add: s same check_send_ready_change_def check_recv_ready_change_def pair_pipes_def\<close>)
    then show ?thesis
      using pipe Some by (auto simp: pair_remove_pipe_def pair_inner_remove_pipe_def elim!: runs_mono)
  qed
qed

text \<open>The first pipe is kept, any other one is closed and the protocol is unchanged.\<close>

lemma pair_add_facts:
  assumes "pair_good p" and "eid \<notin> dom (pair_pipes_of p)" and "good_pipe eid pipe"
  shows "runs (pair_add_pipe p ctx eid pipe) (\<lambda>(p', ctx').
    step_ok pair_ops pair_good pair_pipes_of (AddPipe eid pipe) p ctx p' ctx' \<and>
    count_replies (trace ctx') = count_replies (trace ctx) \<and> pair_state p' = pair_state p)"
proof -
  obtain s where s: "pair_state p = Some s" "pair_ok (pair_inner p) s"
    using assms(1) by (auto simp: pair_good_def)
  show ?thesis
  proof (cases "pair_pipe (pair_inner p)")
    case None
    then have "pair_ok (pair_inner p\<lparr>pair_pipe := Some (eid, pipe)\<rparr>) s"
      using s(2) assms(3) by (cases s) (auto simp: pair_ok_def pair_inner_ok_def good_pipe_def)
    then show ?thesis
      using None s(1) by (simp add: pair_add_pipe_def pair_inner_add_pipe_def step_ok_def pair_good_def tracked_def
        pair_is_send_ready_def pair_is_recv_ready_def pair_pipes_of_def pair_pipes_def added_def)
  next
    case (Some other)
    then show ?thesis
      using assms(1,3) by (auto simp: pair_add_pipe_def pair_inner_add_pipe_def step_ok_def tracked_def added_def
        pipe_close_emit good_pipe_def pair_pipes_of_def intro!: emits_intros)
  qed
qed

lemma pair_step_ok:
  assumes "pair_good p" and "legal pair_pipes_of (\<lambda>_ _. True) p cmd" and "\<forall>eid pipe. cmd \<noteq> AddPipe eid pipe"
  shows "runs (proto_step pair_ops cmd p ctx) (pair_step cmd (in_turn pair_sending pair_receiving p cmd) p ctx)"
proof -
  obtain s where s: "pair_state p = Some s" "pair_ok (pair_inner p) s"
    using assms(1) by (auto simp: pair_good_def)
  have inner: "pair_inner_ok (pair_inner p)" using s(2) by (simp add: pair_ok_def)
  have flags: "pair_sending p = pair_st_sending s" "pair_receiving p = pair_st_receiving s"
    by (simp_all add: s(1) pair_sending_def pair_receiving_def)
  note step = pair_apply_step [OF s(1)]
  note moves = pair_send_moves [OF inner] pair_recv_moves [OF inner] pair_on_send_ack_moves [OF s(2)]
    pair_on_recv_ack_moves [OF s(2)] pair_on_send_timeout_moves [OF s(2)] pair_on_recv_timeout_moves [OF s(2)]
    pair_on_send_ready_moves [OF s(2)] pair_on_recv_ready_moves [OF s(2)] pair_on_not_ready_moves [OF s(2)]
  show ?thesis
  proof (cases cmd)
    case (RemovePipe eid)
    then show ?thesis using assms pair_remove_step [OF assms(1), of ctx eid True] by (auto elim!: runs_mono)
  qed (use assms s(1) in \<open>auto simp: pair_method_defs default_method_defs flags pair_busy_def
         intro!: step moves machine_step_idle\<close>)
qed

interpretation pair_p: answering_protocol pair_ops pair_good pair_pipes_of "\<lambda>_ _. True" pair_sending pair_receiving "\<lambda>_ _. True"
proof
  fix p :: pair and cmd ctx eid
  note step = machine_step_contract [where sending = pair_sending and receiving = pair_receiving]
  show "runs (proto_step pair_ops cmd p ctx) (\<lambda>(p', ctx'). step_ok pair_ops pair_good pair_pipes_of cmd p ctx p' ctx')"
    if "pair_good p" "legal pair_pipes_of (\<lambda>_ _. True) p cmd"
  proof (cases "\<exists>eid pipe. cmd = AddPipe eid pipe")
    case True
    then obtain e pipe where "cmd = AddPipe e pipe" by blast
    then show ?thesis using that pair_add_facts [OF that(1), of e pipe ctx] by (auto elim!: runs_mono)
  next
    case False
    then have "\<forall>eid pipe. cmd \<noteq> AddPipe eid pipe" by blast
    then show ?thesis by (rule step(1) [OF pair_step_ok [OF that]])
  qed
  show "runs (proto_step pair_ops cmd p ctx) (\<lambda>(p', ctx').
      count_replies (trace ctx') + outstanding pair_sending pair_receiving p' =
      count_replies (trace ctx) + outstanding pair_sending pair_receiving p + of_bool (is_request cmd))"
    if "pair_good p" "legal pair_pipes_of (\<lambda>_ _. True) p cmd" "in_turn pair_sending pair_receiving p cmd"
  proof (cases "\<exists>eid pipe. cmd = AddPipe eid pipe")
    case True
    then obtain e pipe where "cmd = AddPipe e pipe" by blast
    then show ?thesis
      using that pair_add_facts [OF that(1), of e pipe ctx]
      by (auto simp: outstanding_def pair_sending_def pair_receiving_def elim!: runs_mono)
  next
    case False
    then have "\<forall>eid pipe. cmd \<noteq> AddPipe eid pipe" by blast
    then show ?thesis by (rule step(2) [OF pair_step_ok [OF that(1,2)] that(3)])
  qed
  show "runs (op_remove_pipe pair_ops p ctx eid) (\<lambda>(r, _). r = pair_pipes_of p eid)" if "pair_good p"
    using pair_remove_step [OF that, of ctx eid True] by (auto elim!: runs_mono)
  show "pipes_ok (pair_pipes_of p)" if "pair_good p"
    using that by (auto simp: pair_good_def pair_ok_def pair_inner_ok_def pair_pipes_of_def pair_pipes_def pipes_ok_def
      split: option.splits if_splits)
  show "\<exists>p' es. op_close pair_ops p ctx = (p', ctx\<lparr>trace := trace ctx @ map (\<lambda>eid. NetClose eid True) es\<rparr>) \<and>
      set es = dom (pair_pipes_of p) \<and> distinct es \<and> pair_pipes_of p' = Map.empty"
    if "pair_good p"
  proof (cases "pair_pipe (pair_inner p)")
    case None
    then show ?thesis
      by (auto simp: pair_close_def pair_inner_close_def pair_pipes_of_def pair_pipes_def intro!: exI [of _ "[]"])
  next
    case (Some other)
    then show ?thesis
      using that by (auto simp: pair_close_def pair_inner_close_def pair_pipes_of_def pair_pipes_def pair_good_def
        pair_ok_def pair_inner_ok_def pipe_close_emit emit_def intro!: exI [of _ "[fst other]"] split: if_splits)
  qed
qed

end
