(* ===== verification/Proto_Rep.thy ===== *)
theory Proto_Rep
  imports Protocol_Machine
begin

text \<open>
  The replier of the request/reply protocol, \<open>src/proto/rep.rs\<close>: requests are fair
  queued; the header of a request, its backtrace, is kept until the reply is sent, and
  names the pipe the reply goes to. Plugged into a device, the backtrace stays in the
  message instead, and a reply that finds its pipe busy is dropped.
\<close>

section \<open>Data\<close>

datatype rep_state =
    RepIdle
  | RepReceiving endpoint_id timeout
  | RepRecvOnHold timeout
  | RepActive endpoint_id
  | RepSending endpoint_id message timeout
  | RepSendOnHold endpoint_id message timeout

record rep_inner =
  rep_pipes :: pipe_collection
  rep_fq :: priolist
  rep_sd :: "endpoint_id set"
  rep_ttl :: u8
  rep_backtrace :: "u8 list"
  rep_is_device_item :: bool

record rep =
  rep_inner :: rep_inner
  rep_state :: "rep_state option"

definition rep_inner_new :: rep_inner where
  "rep_inner_new = \<lparr>rep_pipes = pipes_new, rep_fq = priolist_new, rep_sd = {}, rep_ttl = 8,
     rep_backtrace = [], rep_is_device_item = False\<rparr>"

definition rep_from :: rep where
  "rep_from = \<lparr>rep_inner = rep_inner_new, rep_state = Some RepIdle\<rparr>"

section \<open>Inner\<close>

definition rep_inner_add_pipe :: "rep_inner \<Rightarrow> endpoint_id \<Rightarrow> pipe \<Rightarrow> rep_inner" where
  "rep_inner_add_pipe inner eid pipe =
     inner\<lparr>rep_fq := priolist_insert (rep_fq inner) eid (pipe_get_recv_priority pipe),
           rep_pipes := snd (pipes_insert (rep_pipes inner) eid pipe)\<rparr>"

definition rep_inner_remove_pipe :: "rep_inner \<Rightarrow> endpoint_id \<Rightarrow> (pipe option \<times> rep_inner) option" where
  "rep_inner_remove_pipe inner eid = do {
     fq \<leftarrow> priolist_remove (rep_fq inner) eid;
     let sd = rep_sd inner - {eid};
     let (pipe, pipes) = pipes_remove (rep_pipes inner) eid;
     Some (pipe, inner\<lparr>rep_fq := fq, rep_sd := sd, rep_pipes := pipes\<rparr>) }"

definition rep_inner_on_send_malformed :: "ctx \<Rightarrow> timeout \<Rightarrow> ctx" where
  "rep_inner_on_send_malformed ctx timeout =
     cancel_opt (send_reply ctx (ReplyErr (invalid_data_io_error ''Sending without eid''))) timeout"

definition rep_inner_send_to :: "rep_inner \<Rightarrow> ctx \<Rightarrow> message \<Rightarrow> endpoint_id \<Rightarrow> bool \<times> ctx \<times> rep_inner" where
  "rep_inner_send_to inner ctx msg eid =
     (let inner' = inner\<lparr>rep_sd := rep_sd inner - {eid}\<rparr>;
          (r, ctx') = pipes_send_to (rep_pipes inner) ctx msg eid
      in (r \<noteq> None, ctx', inner'))"

definition rep_inner_on_send_ack :: "ctx \<Rightarrow> timeout \<Rightarrow> ctx" where
  "rep_inner_on_send_ack ctx timeout = cancel_opt (send_reply ctx ReplySend) timeout"

definition rep_inner_send_when_inactive :: "ctx \<Rightarrow> timeout \<Rightarrow> ctx" where
  "rep_inner_send_when_inactive ctx timeout =
     cancel_opt (send_reply ctx (ReplyErr (other_io_error ''Can't send: no active request''))) timeout"

definition rep_inner_on_send_timeout :: "ctx \<Rightarrow> ctx" where
  "rep_inner_on_send_timeout ctx = send_reply ctx (ReplyErr (timedout_io_error ''Send timed out''))"

definition rep_inner_on_send_ready :: "rep_inner \<Rightarrow> endpoint_id \<Rightarrow> rep_inner" where
  "rep_inner_on_send_ready inner eid = inner\<lparr>rep_sd := insert eid (rep_sd inner)\<rparr>"

definition rep_inner_on_send_not_ready :: "rep_inner \<Rightarrow> endpoint_id \<Rightarrow> rep_inner" where
  "rep_inner_on_send_not_ready inner eid = inner\<lparr>rep_sd := rep_sd inner - {eid}\<rparr>"

definition rep_inner_is_send_ready :: "rep_inner \<Rightarrow> bool" where
  "rep_inner_is_send_ready inner \<longleftrightarrow> rep_sd inner \<noteq> {}"

definition rep_inner_is_send_ready_to :: "rep_inner \<Rightarrow> endpoint_id \<Rightarrow> bool" where
  "rep_inner_is_send_ready_to inner eid \<longleftrightarrow> eid \<in> rep_sd inner"

definition rep_inner_recv :: "rep_inner \<Rightarrow> ctx \<Rightarrow> (endpoint_id option \<times> ctx \<times> rep_inner) option" where
  "rep_inner_recv inner ctx = do {
     (r, fq, ctx') \<leftarrow> fair_queue_recv (rep_fq inner) (rep_pipes inner) ctx;
     Some (r, ctx', inner\<lparr>rep_fq := fq\<rparr>) }"

definition rep_inner_on_recv_ready :: "rep_inner \<Rightarrow> endpoint_id \<Rightarrow> rep_inner option" where
  "rep_inner_on_recv_ready inner eid = do {
     fq \<leftarrow> activate (rep_fq inner) eid;
     Some (inner\<lparr>rep_fq := fq\<rparr>) }"

definition rep_inner_on_recv_not_ready :: "rep_inner \<Rightarrow> endpoint_id \<Rightarrow> rep_inner option" where
  "rep_inner_on_recv_not_ready inner eid = do {
     fq \<leftarrow> deactivate (rep_fq inner) eid;
     Some (inner\<lparr>rep_fq := fq\<rparr>) }"

definition rep_inner_set_backtrace :: "rep_inner \<Rightarrow> u8 list \<Rightarrow> rep_inner" where
  "rep_inner_set_backtrace inner bt = inner\<lparr>rep_backtrace := bt\<rparr>"

definition rep_inner_get_backtrace :: "rep_inner \<Rightarrow> u8 list" where
  "rep_inner_get_backtrace inner = rep_backtrace inner"

definition rep_inner_clear_backtrace :: "rep_inner \<Rightarrow> rep_inner" where
  "rep_inner_clear_backtrace inner = inner\<lparr>rep_backtrace := []\<rparr>"

definition rep_inner_on_recv_ack :: "rep_inner \<Rightarrow> ctx \<Rightarrow> timeout \<Rightarrow> message \<Rightarrow> rep_inner \<times> ctx" where
  "rep_inner_on_recv_ack inner ctx timeout msg =
     (let (inner', msg') =
        (if \<not> rep_is_device_item inner then (rep_inner_set_backtrace inner (header msg), msg\<lparr>header := []\<rparr>)
         else (inner, msg))
      in (inner', cancel_opt (send_reply ctx (ReplyRecv msg')) timeout))"

definition rep_inner_on_recv_timeout :: "ctx \<Rightarrow> ctx" where
  "rep_inner_on_recv_timeout ctx = send_reply ctx (ReplyErr (timedout_io_error ''Recv timed out''))"

definition rep_inner_on_recv_ack_malformed :: "ctx \<Rightarrow> ctx" where
  "rep_inner_on_recv_ack_malformed ctx =
     send_reply ctx (ReplyErr (invalid_data_io_error ''Received request without id''))"

definition rep_inner_is_recv_ready :: "rep_inner \<Rightarrow> bool" where
  "rep_inner_is_recv_ready inner = peek (rep_fq inner)"

text \<open>
  The loop of \<open>raw_msg_to_msg\<close>: words of four bytes are moved from the body to the
  header until one has its top bit set, for \<open>ttl\<close> hops at most. The outer option is
  the panic, the inner one the result of the function.
\<close>

function rep_take_hops :: "u8 \<Rightarrow> u8 \<Rightarrow> u8 list \<Rightarrow> u8 list \<Rightarrow> message option option" where
  "rep_take_hops ttl hops hdr bdy =
     (if ttl \<le> hops then Some None
      else (case checked_add hops 1 of
              None \<Rightarrow> None
            | Some hops' \<Rightarrow>
                if length bdy < 4 then Some None
                else (let tl = drop 4 bdy;
                          hdr' = hdr @ take 4 bdy
                      in (if hdr' ! (length hdr' - 4) AND 0x80 \<noteq> 0
                          then Some (Some (from_header_and_body hdr' tl))
                          else rep_take_hops ttl hops' hdr' tl))))"
  by pat_completeness auto
termination
  by (relation "measure (\<lambda>(_, _, _, bdy). length bdy)") auto

declare rep_take_hops.simps [simp del]

definition rep_inner_raw_msg_to_msg :: "byteorder \<Rightarrow> rep_inner \<Rightarrow> message \<Rightarrow> endpoint_id \<Rightarrow> message option option" where
  "rep_inner_raw_msg_to_msg bo inner raw_msg eid =
     (let (hdr, bdy) = message_split raw_msg
      in rep_take_hops (rep_ttl inner) 0 (hdr @ write_u32 bo (ucast eid)) bdy)"

definition rep_inner_msg_to_raw_msg :: "byteorder \<Rightarrow> rep_inner \<Rightarrow> message \<Rightarrow> (message \<times> endpoint_id) option" where
  "rep_inner_msg_to_raw_msg bo inner msg =
     (let (hdr, bdy) = message_split msg;
          hdr' = (if \<not> rep_is_device_item inner then rep_inner_get_backtrace inner else hdr)
      in (if length hdr' < 4 then None
          else (let eid_u32 = read_u32 bo (take 4 hdr')
                in Some (from_header_and_body (drop 4 hdr') bdy, ucast eid_u32))))"

definition rep_inner_close :: "rep_inner \<Rightarrow> ctx \<Rightarrow> rep_inner \<times> ctx" where
  "rep_inner_close inner ctx =
     (let (pipes, ctx') = pipes_close_all (rep_pipes inner) ctx in (inner\<lparr>rep_pipes := pipes\<rparr>, ctx'))"

section \<open>State\<close>

type_synonym rep_result = "(rep_state \<times> ctx \<times> rep_inner) option"

definition rep_st_recv :: "rep_state \<Rightarrow> ctx \<Rightarrow> rep_inner \<Rightarrow> timeout \<Rightarrow> rep_result" where
  "rep_st_recv s ctx inner timeout = do {
     (r, ctx', inner') \<leftarrow> rep_inner_recv inner ctx;
     (case r of
        None \<Rightarrow> Some (RepRecvOnHold timeout, ctx', inner')
      | Some eid \<Rightarrow> Some (RepReceiving eid timeout, ctx', inner')) }"

definition rep_st_on_pipe_removed :: "rep_state \<Rightarrow> ctx \<Rightarrow> rep_inner \<Rightarrow> endpoint_id \<Rightarrow> rep_result" where
  "rep_st_on_pipe_removed s ctx inner eid =
     (case s of
        RepReceiving i timeout \<Rightarrow>
          if i = eid then rep_st_recv RepIdle ctx inner timeout
          else Some (RepReceiving i timeout, ctx, inner)
      | _ \<Rightarrow> Some (s, ctx, inner))"

definition rep_st_send_reply_to :: "rep_state \<Rightarrow> ctx \<Rightarrow> rep_inner \<Rightarrow> message \<Rightarrow> timeout \<Rightarrow> endpoint_id \<Rightarrow> rep_result" where
  "rep_st_send_reply_to s ctx inner msg timeout eid =
     (let (sent, ctx', inner') = rep_inner_send_to inner ctx msg eid
      in (if sent then Some (RepSending eid msg timeout, ctx', inner')
          else Some (RepSendOnHold eid msg timeout, ctx', inner')))"

definition rep_st_send :: "rep_state \<Rightarrow> ctx \<Rightarrow> rep_inner \<Rightarrow> message \<Rightarrow> timeout \<Rightarrow> endpoint_id \<Rightarrow> rep_result" where
  "rep_st_send s ctx inner msg timeout eid =
     (if rep_is_device_item inner then
        (if rep_inner_is_send_ready_to inner eid then rep_st_send_reply_to RepIdle ctx inner msg timeout eid
         else Some (RepIdle, rep_inner_on_send_ack ctx timeout, inner))
      else
        (case s of
           RepActive _ \<Rightarrow>
             if rep_inner_is_send_ready_to inner eid then rep_st_send_reply_to RepIdle ctx inner msg timeout eid
             else Some (RepSendOnHold eid msg timeout, ctx, inner)
         | _ \<Rightarrow> Some (RepIdle, rep_inner_send_when_inactive ctx timeout, inner)))"

definition rep_st_on_send_ack :: "rep_state \<Rightarrow> ctx \<Rightarrow> rep_inner \<Rightarrow> endpoint_id \<Rightarrow> rep_result" where
  "rep_st_on_send_ack s ctx inner eid =
     (case s of
        RepSending i msg timeout \<Rightarrow>
          if i = eid then Some (RepIdle, rep_inner_on_send_ack ctx timeout, inner)
          else Some (RepSending i msg timeout, ctx, inner)
      | _ \<Rightarrow> Some (s, ctx, inner))"

definition rep_st_on_send_timeout :: "rep_state \<Rightarrow> ctx \<Rightarrow> rep_inner \<Rightarrow> rep_result" where
  "rep_st_on_send_timeout s ctx inner = Some (RepIdle, rep_inner_on_send_timeout ctx, inner)"

definition rep_st_on_send_ready :: "rep_state \<Rightarrow> ctx \<Rightarrow> rep_inner \<Rightarrow> endpoint_id \<Rightarrow> rep_result" where
  "rep_st_on_send_ready s ctx inner eid =
     (let inner' = rep_inner_on_send_ready inner eid
      in (case s of
            RepSendOnHold i msg timeout \<Rightarrow>
              if i = eid then rep_st_send_reply_to RepIdle ctx inner' msg timeout eid
              else Some (RepSendOnHold i msg timeout, ctx, inner')
          | _ \<Rightarrow> Some (s, ctx, inner')))"

definition rep_st_on_send_not_ready :: "rep_state \<Rightarrow> ctx \<Rightarrow> rep_inner \<Rightarrow> endpoint_id \<Rightarrow> rep_result" where
  "rep_st_on_send_not_ready s ctx inner eid = Some (s, ctx, rep_inner_on_send_not_ready inner eid)"

definition rep_st_is_send_ready :: "rep_state \<Rightarrow> rep_inner \<Rightarrow> bool" where
  "rep_st_is_send_ready s inner =
     (if rep_is_device_item inner then rep_inner_is_send_ready inner
      else (case s of RepActive eid \<Rightarrow> rep_inner_is_send_ready_to inner eid | _ \<Rightarrow> False))"

definition rep_st_on_recv_ack :: "rep_state \<Rightarrow> ctx \<Rightarrow> rep_inner \<Rightarrow> endpoint_id \<Rightarrow> message \<Rightarrow> rep_result" where
  "rep_st_on_recv_ack s ctx inner eid msg =
     (case s of
        RepReceiving i timeout \<Rightarrow>
          if i = eid then
            (let (inner', ctx') = rep_inner_on_recv_ack inner ctx timeout msg
             in (if rep_is_device_item inner' then Some (RepIdle, ctx', inner')
                 else Some (RepActive eid, ctx', inner')))
          else Some (RepReceiving i timeout, ctx, inner)
      | _ \<Rightarrow> Some (s, ctx, inner))"

definition rep_st_on_recv_timeout :: "rep_state \<Rightarrow> ctx \<Rightarrow> rep_inner \<Rightarrow> rep_result" where
  "rep_st_on_recv_timeout s ctx inner = Some (RepIdle, rep_inner_on_recv_timeout ctx, inner)"

definition rep_st_on_recv_ready :: "rep_state \<Rightarrow> ctx \<Rightarrow> rep_inner \<Rightarrow> endpoint_id \<Rightarrow> rep_result" where
  "rep_st_on_recv_ready s ctx inner eid = do {
     inner' \<leftarrow> rep_inner_on_recv_ready inner eid;
     (case s of
        RepRecvOnHold timeout \<Rightarrow> rep_st_recv RepIdle ctx inner' timeout
      | _ \<Rightarrow> Some (s, ctx, inner')) }"

definition rep_st_on_recv_not_ready :: "rep_state \<Rightarrow> ctx \<Rightarrow> rep_inner \<Rightarrow> endpoint_id \<Rightarrow> rep_result" where
  "rep_st_on_recv_not_ready s ctx inner eid = do {
     inner' \<leftarrow> rep_inner_on_recv_not_ready inner eid;
     Some (s, ctx, inner') }"

definition rep_st_is_recv_ready :: "rep_state \<Rightarrow> rep_inner \<Rightarrow> bool" where
  "rep_st_is_recv_ready s inner = rep_inner_is_recv_ready inner"

section \<open>Protocol\<close>

definition rep_is_send_ready :: "rep \<Rightarrow> bool" where
  "rep_is_send_ready p = (case rep_state p of Some s \<Rightarrow> rep_st_is_send_ready s (rep_inner p) | None \<Rightarrow> False)"

definition rep_is_recv_ready :: "rep \<Rightarrow> bool" where
  "rep_is_recv_ready p = (case rep_state p of Some s \<Rightarrow> rep_st_is_recv_ready s (rep_inner p) | None \<Rightarrow> False)"

definition rep_apply :: "rep \<Rightarrow> ctx \<Rightarrow> (rep_state \<Rightarrow> ctx \<Rightarrow> rep_inner \<Rightarrow> rep_result) \<Rightarrow> (rep \<times> ctx) option" where
  "rep_apply p ctx transition =
     (case rep_state p of
        None \<Rightarrow> Some (p, ctx)
      | Some old_state \<Rightarrow> do {
          let was_send_ready = rep_st_is_send_ready old_state (rep_inner p);
          let was_recv_ready = rep_st_is_recv_ready old_state (rep_inner p);
          (new_state, ctx', inner') \<leftarrow> transition old_state ctx (rep_inner p);
          let is_send_ready = rep_st_is_send_ready new_state inner';
          let is_recv_ready = rep_st_is_recv_ready new_state inner';
          let p' = p\<lparr>rep_inner := inner', rep_state := Some new_state\<rparr>;
          let ctx'' = check_send_ready_change ctx' was_send_ready is_send_ready;
          Some (p', check_recv_ready_change ctx'' was_recv_ready is_recv_ready) })"

definition rep_add_pipe :: "rep \<Rightarrow> ctx \<Rightarrow> endpoint_id \<Rightarrow> pipe \<Rightarrow> (rep \<times> ctx) option" where
  "rep_add_pipe p ctx eid pipe = Some (p\<lparr>rep_inner := rep_inner_add_pipe (rep_inner p) eid pipe\<rparr>, ctx)"

definition rep_remove_pipe :: "rep \<Rightarrow> ctx \<Rightarrow> endpoint_id \<Rightarrow> (pipe option \<times> rep \<times> ctx) option" where
  "rep_remove_pipe p ctx eid = do {
     let was_send_ready = rep_is_send_ready p;
     let was_recv_ready = rep_is_recv_ready p;
     (pipe, inner') \<leftarrow> rep_inner_remove_pipe (rep_inner p) eid;
     let p' = p\<lparr>rep_inner := inner'\<rparr>;
     let is_send_ready = rep_is_send_ready p';
     let is_recv_ready = rep_is_recv_ready p';
     (p'', ctx') \<leftarrow>
       (case pipe of
          Some _ \<Rightarrow> rep_apply p' ctx (\<lambda>s ctx inner. rep_st_on_pipe_removed s ctx inner eid)
        | None \<Rightarrow> Some (p', ctx));
     let ctx'' = check_send_ready_change ctx' was_send_ready is_send_ready;
     Some (pipe, p'', check_recv_ready_change ctx'' was_recv_ready is_recv_ready) }"

definition rep_send :: "byteorder \<Rightarrow> rep \<Rightarrow> ctx \<Rightarrow> message \<Rightarrow> timeout \<Rightarrow> (rep \<times> ctx) option" where
  "rep_send bo p ctx msg timeout =
     (case rep_inner_msg_to_raw_msg bo (rep_inner p) msg of
        Some (raw_msg, eid) \<Rightarrow> rep_apply p ctx (\<lambda>s ctx inner. rep_st_send s ctx inner raw_msg timeout eid)
      | None \<Rightarrow> Some (p, rep_inner_on_send_malformed ctx timeout))"

definition rep_on_send_ack :: "rep \<Rightarrow> ctx \<Rightarrow> endpoint_id \<Rightarrow> (rep \<times> ctx) option" where
  "rep_on_send_ack p ctx eid =
     (let p' = p\<lparr>rep_inner := rep_inner_clear_backtrace (rep_inner p)\<rparr>
      in rep_apply p' ctx (\<lambda>s ctx inner. rep_st_on_send_ack s ctx inner eid))"

definition rep_on_recv_ack :: "byteorder \<Rightarrow> rep \<Rightarrow> ctx \<Rightarrow> endpoint_id \<Rightarrow> message \<Rightarrow> (rep \<times> ctx) option" where
  "rep_on_recv_ack bo p ctx eid raw_msg = do {
     r \<leftarrow> rep_inner_raw_msg_to_msg bo (rep_inner p) raw_msg eid;
     (case r of
        Some msg \<Rightarrow> rep_apply p ctx (\<lambda>s ctx inner. rep_st_on_recv_ack s ctx inner eid msg)
      | None \<Rightarrow> Some (p, rep_inner_on_recv_ack_malformed ctx)) }"

definition rep_on_send_timeout :: "rep \<Rightarrow> ctx \<Rightarrow> (rep \<times> ctx) option" where
  "rep_on_send_timeout p ctx = rep_apply p ctx rep_st_on_send_timeout"

definition rep_on_send_ready :: "rep \<Rightarrow> ctx \<Rightarrow> endpoint_id \<Rightarrow> (rep \<times> ctx) option" where
  "rep_on_send_ready p ctx eid = rep_apply p ctx (\<lambda>s ctx inner. rep_st_on_send_ready s ctx inner eid)"

definition rep_on_send_not_ready :: "rep \<Rightarrow> ctx \<Rightarrow> endpoint_id \<Rightarrow> (rep \<times> ctx) option" where
  "rep_on_send_not_ready p ctx eid = rep_apply p ctx (\<lambda>s ctx inner. rep_st_on_send_not_ready s ctx inner eid)"

definition rep_recv :: "rep \<Rightarrow> ctx \<Rightarrow> timeout \<Rightarrow> (rep \<times> ctx) option" where
  "rep_recv p ctx timeout = rep_apply p ctx (\<lambda>s ctx inner. rep_st_recv s ctx inner timeout)"

definition rep_on_recv_timeout :: "rep \<Rightarrow> ctx \<Rightarrow> (rep \<times> ctx) option" where
  "rep_on_recv_timeout p ctx = rep_apply p ctx rep_st_on_recv_timeout"

definition rep_on_recv_ready :: "rep \<Rightarrow> ctx \<Rightarrow> endpoint_id \<Rightarrow> (rep \<times> ctx) option" where
  "rep_on_recv_ready p ctx eid = rep_apply p ctx (\<lambda>s ctx inner. rep_st_on_recv_ready s ctx inner eid)"

definition rep_on_recv_not_ready :: "rep \<Rightarrow> ctx \<Rightarrow> endpoint_id \<Rightarrow> (rep \<times> ctx) option" where
  "rep_on_recv_not_ready p ctx eid = rep_apply p ctx (\<lambda>s ctx inner. rep_st_on_recv_not_ready s ctx inner eid)"

definition rep_on_device_plugged :: "rep \<Rightarrow> ctx \<Rightarrow> (rep \<times> ctx) option" where
  "rep_on_device_plugged p ctx = Some (p\<lparr>rep_inner := (rep_inner p)\<lparr>rep_is_device_item := True\<rparr>\<rparr>, ctx)"

definition rep_close :: "rep \<Rightarrow> ctx \<Rightarrow> rep \<times> ctx" where
  "rep_close p ctx = (let (inner, ctx') = rep_inner_close (rep_inner p) ctx in (p\<lparr>rep_inner := inner\<rparr>, ctx'))"

definition rep_ops :: "byteorder \<Rightarrow> rep protocol_ops" where
  "rep_ops bo = \<lparr>
     op_id = \<lambda>_. REP_ID, op_peer_id = \<lambda>_. REQ_ID, op_add_pipe = rep_add_pipe,
     op_remove_pipe = rep_remove_pipe, op_send = rep_send bo, op_on_send_ack = rep_on_send_ack,
     op_on_send_timeout = rep_on_send_timeout, op_on_send_ready = rep_on_send_ready,
     op_on_send_not_ready = rep_on_send_not_ready, op_recv = rep_recv,
     op_on_recv_ack = rep_on_recv_ack bo, op_on_recv_timeout = rep_on_recv_timeout,
     op_on_recv_ready = rep_on_recv_ready, op_on_recv_not_ready = rep_on_recv_not_ready,
     op_is_send_ready = rep_is_send_ready, op_is_recv_ready = rep_is_recv_ready,
     op_set_option = default_set_option, op_on_timer_tick = default_on_timer_tick,
     op_on_device_plugged = rep_on_device_plugged, op_close = rep_close\<rparr>"

lemma rep_ops_simps [simp]:
  "op_id (rep_ops bo) = (\<lambda>_. REP_ID)"
  "op_peer_id (rep_ops bo) = (\<lambda>_. REQ_ID)"
  "op_add_pipe (rep_ops bo) = rep_add_pipe"
  "op_remove_pipe (rep_ops bo) = rep_remove_pipe"
  "op_send (rep_ops bo) = rep_send bo"
  "op_on_send_ack (rep_ops bo) = rep_on_send_ack"
  "op_on_send_timeout (rep_ops bo) = rep_on_send_timeout"
  "op_on_send_ready (rep_ops bo) = rep_on_send_ready"
  "op_on_send_not_ready (rep_ops bo) = rep_on_send_not_ready"
  "op_recv (rep_ops bo) = rep_recv"
  "op_on_recv_ack (rep_ops bo) = rep_on_recv_ack bo"
  "op_on_recv_timeout (rep_ops bo) = rep_on_recv_timeout"
  "op_on_recv_ready (rep_ops bo) = rep_on_recv_ready"
  "op_on_recv_not_ready (rep_ops bo) = rep_on_recv_not_ready"
  "op_is_send_ready (rep_ops bo) = rep_is_send_ready"
  "op_is_recv_ready (rep_ops bo) = rep_is_recv_ready"
  "op_set_option (rep_ops bo) = default_set_option"
  "op_on_timer_tick (rep_ops bo) = default_on_timer_tick"
  "op_on_device_plugged (rep_ops bo) = rep_on_device_plugged"
  "op_close (rep_ops bo) = rep_close"
  by (simp_all add: rep_ops_def)

lemmas rep_inner_defs = rep_inner_add_pipe_def rep_inner_remove_pipe_def
  rep_inner_on_send_malformed_def rep_inner_send_to_def rep_inner_on_send_ack_def
  rep_inner_send_when_inactive_def rep_inner_on_send_timeout_def rep_inner_on_send_ready_def
  rep_inner_on_send_not_ready_def rep_inner_is_send_ready_def rep_inner_is_send_ready_to_def
  rep_inner_recv_def rep_inner_on_recv_ready_def rep_inner_on_recv_not_ready_def
  rep_inner_set_backtrace_def rep_inner_get_backtrace_def rep_inner_clear_backtrace_def
  rep_inner_on_recv_ack_def rep_inner_on_recv_timeout_def rep_inner_on_recv_ack_malformed_def
  rep_inner_is_recv_ready_def rep_inner_close_def

lemmas rep_st_defs = rep_st_recv_def rep_st_on_pipe_removed_def rep_st_send_reply_to_def
  rep_st_send_def rep_st_on_send_ack_def rep_st_on_send_timeout_def rep_st_on_send_ready_def
  rep_st_on_send_not_ready_def rep_st_on_recv_ack_def rep_st_on_recv_timeout_def
  rep_st_on_recv_ready_def rep_st_on_recv_not_ready_def

lemmas rep_method_defs = rep_on_send_timeout_def rep_on_send_ready_def rep_on_send_not_ready_def
  rep_recv_def rep_on_recv_timeout_def rep_on_recv_ready_def rep_on_recv_not_ready_def

section \<open>Invariant\<close>

definition rep_inner_ok :: "rep_inner \<Rightarrow> bool" where
  "rep_inner_ok inner \<longleftrightarrow> pipes_ok (rep_pipes inner) \<and> invar (rep_fq inner) \<and>
     ids (rep_fq inner) = dom (rep_pipes inner) \<and> rep_sd inner \<subseteq> dom (rep_pipes inner)"

fun rep_state_ok :: "rep_inner \<Rightarrow> rep_state \<Rightarrow> bool" where
  "rep_state_ok inner (RepReceiving eid _) \<longleftrightarrow> eid \<in> dom (rep_pipes inner)"
| "rep_state_ok inner (RepRecvOnHold _) \<longleftrightarrow> ready (rep_fq inner) = {}"
| "rep_state_ok inner (RepSendOnHold eid _ _) \<longleftrightarrow> eid \<notin> rep_sd inner"
| "rep_state_ok inner _ \<longleftrightarrow> True"

definition rep_ok :: "rep_inner \<Rightarrow> rep_state \<Rightarrow> bool" where
  "rep_ok inner s \<longleftrightarrow> rep_inner_ok inner \<and> rep_state_ok inner s"

definition rep_good :: "rep \<Rightarrow> bool" where
  "rep_good p \<longleftrightarrow> (\<exists>s. rep_state p = Some s \<and> rep_ok (rep_inner p) s)"

definition rep_pipes_of :: "rep \<Rightarrow> pipe_collection" where
  "rep_pipes_of p = rep_pipes (rep_inner p)"

fun rep_admits :: "rep \<Rightarrow> proto_cmd \<Rightarrow> bool" where
  "rep_admits p (RemovePipe eid) \<longleftrightarrow> removable (rep_fq (rep_inner p)) eid"
| "rep_admits p _ \<longleftrightarrow> True"

text \<open>A received message is clean when a request identifier ends its backtrace.\<close>

fun rep_clean :: "byteorder \<Rightarrow> rep \<Rightarrow> proto_cmd \<Rightarrow> bool" where
  "rep_clean bo p (RecvAck eid msg) \<longleftrightarrow> rep_inner_raw_msg_to_msg bo (rep_inner p) msg eid \<noteq> Some None"
| "rep_clean bo p _ \<longleftrightarrow> True"

fun rep_st_sending :: "rep_state \<Rightarrow> bool" where
  "rep_st_sending (RepSending _ _ _) \<longleftrightarrow> True"
| "rep_st_sending (RepSendOnHold _ _ _) \<longleftrightarrow> True"
| "rep_st_sending _ \<longleftrightarrow> False"

fun rep_st_receiving :: "rep_state \<Rightarrow> bool" where
  "rep_st_receiving (RepReceiving _ _) \<longleftrightarrow> True"
| "rep_st_receiving (RepRecvOnHold _) \<longleftrightarrow> True"
| "rep_st_receiving _ \<longleftrightarrow> False"

definition rep_busy :: "rep_state \<Rightarrow> bool" where
  "rep_busy s \<longleftrightarrow> rep_st_sending s \<or> rep_st_receiving s"

definition rep_sending :: "rep \<Rightarrow> bool" where
  "rep_sending p \<longleftrightarrow> in_state rep_st_sending (rep_state p)"

definition rep_receiving :: "rep \<Rightarrow> bool" where
  "rep_receiving p \<longleftrightarrow> in_state rep_st_receiving (rep_state p)"

abbreviation rep_moves :: "bool \<Rightarrow> nat \<Rightarrow> rep_state \<Rightarrow> ctx \<Rightarrow> rep_inner \<Rightarrow> rep_state \<times> ctx \<times> rep_inner \<Rightarrow> bool" where
  "rep_moves \<equiv> moves rep_ok rep_pipes rep_busy"

abbreviation rep_step :: "byteorder \<Rightarrow> proto_cmd \<Rightarrow> bool \<Rightarrow> rep \<Rightarrow> ctx \<Rightarrow> rep \<times> ctx \<Rightarrow> bool" where
  "rep_step bo \<equiv> machine_step (rep_ops bo) rep_good rep_pipes_of (\<lambda>p. rep_sending p \<or> rep_receiving p)"

interpretation rep_m: machine "rep_ops bo" rep_apply rep_inner rep_state
  "\<lambda>p i s. p\<lparr>rep_inner := i, rep_state := Some s\<rparr>" rep_st_is_send_ready rep_st_is_recv_ready
  for bo
  by unfold_locales (simp_all add: rep_apply_def rep_is_send_ready_def rep_is_recv_ready_def Let_def)

section \<open>What the transitions do\<close>

lemmas rep_unfold = rep_st_defs rep_inner_defs rep_ok_def rep_inner_ok_def rep_busy_def moves_def context_call_defs

lemma rep_st_recv_moves:
  assumes "rep_inner_ok inner" and "due \<Longrightarrow> k = of_bool (\<not> rep_busy s)"
  shows "runs (rep_st_recv s' ctx inner t) (rep_moves due k s ctx inner)"
  using assms by (auto simp: rep_unfold intro!: runs_intros emits_intros)

lemma rep_send_reply_to_moves:
  assumes "rep_inner_ok inner" and "due \<Longrightarrow> k = of_bool (\<not> rep_busy s)"
  shows "runs (rep_st_send_reply_to s' ctx inner msg t eid) (rep_moves due k s ctx inner)"
proof (cases "eid \<in> dom (rep_pipes inner)")
  case True
  then show ?thesis using assms pipes_send_to_eq [of "rep_pipes inner" eid ctx msg]
    by (auto simp: rep_unfold Let_def intro!: emits_intros)
next
  case False
  then have "pipes_send_to (rep_pipes inner) ctx msg eid = (None, ctx)"
    by (auto simp: pipes_send_to_def split: option.splits)
  then show ?thesis using assms by (auto simp: rep_unfold Let_def)
qed

lemma rep_send_moves:
  assumes "rep_ok inner s" and "due \<Longrightarrow> \<not> rep_busy s"
  shows "runs (rep_st_send s ctx inner msg t eid) (rep_moves due (Suc 0) s ctx inner)"
proof -
  have inner: "rep_inner_ok inner" using assms(1) by (simp add: rep_ok_def)
  have reply: "runs (rep_st_send_reply_to RepIdle ctx inner msg t eid) (rep_moves due (Suc 0) s ctx inner)"
    using assms(2) by (intro rep_send_reply_to_moves [OF inner]) auto
  have hold: "eid \<notin> rep_sd inner \<Longrightarrow> rep_moves due (Suc 0) s ctx inner (RepSendOnHold eid msg t, ctx, inner)"
    using inner assms(2) by (auto simp: moves_def rep_ok_def rep_busy_def)
  have answer: "rep_moves due (Suc 0) s ctx inner (RepIdle, rep_inner_on_send_ack ctx t, inner)"
    "rep_moves due (Suc 0) s ctx inner (RepIdle, rep_inner_send_when_inactive ctx t, inner)"
    using inner assms(2) by (auto simp: moves_def rep_ok_def rep_busy_def rep_inner_on_send_ack_def
      rep_inner_send_when_inactive_def context_call_defs intro!: emits_intros split: option.splits)
  show ?thesis
    unfolding rep_st_send_def rep_inner_is_send_ready_to_def
    using reply hold answer by (auto split: rep_state.splits)
qed

lemma rep_on_send_ack_moves:
  assumes "rep_ok inner s"
  shows "runs (rep_st_on_send_ack s ctx inner eid) (rep_moves due 0 s ctx inner)"
  using assms by (cases s) (auto simp: rep_unfold intro!: emits_intros split: option.splits)

lemma rep_on_timeout_moves:
  assumes "rep_ok inner s" and "due \<Longrightarrow> rep_busy s"
  shows "runs (rep_st_on_send_timeout s ctx inner) (rep_moves due 0 s ctx inner)"
    and "runs (rep_st_on_recv_timeout s ctx inner) (rep_moves due 0 s ctx inner)"
  using assms by (auto simp: rep_unfold intro!: emits_intros)

lemma rep_on_send_ready_moves:
  assumes "rep_ok inner s" and "eid \<in> dom (rep_pipes inner)"
  shows "runs (rep_st_on_send_ready s ctx inner eid) (rep_moves due 0 s ctx inner)"
proof -
  have "rep_inner_ok (rep_inner_on_send_ready inner eid)"
    using assms by (auto simp: rep_ok_def rep_inner_ok_def rep_inner_on_send_ready_def)
  then have "runs (rep_st_send_reply_to RepIdle ctx (rep_inner_on_send_ready inner eid) msg t eid)
      (rep_moves due 0 s ctx (rep_inner_on_send_ready inner eid))" if "rep_busy s" for msg t
    using that by (intro rep_send_reply_to_moves) auto
  then have reply: "runs (rep_st_send_reply_to RepIdle ctx (rep_inner_on_send_ready inner eid) msg t eid)
      (rep_moves due 0 s ctx inner)" if "rep_busy s" for msg t
    using that by (intro moves_from [of rep_pipes "rep_inner_on_send_ready inner eid" inner])
      (auto simp: rep_inner_on_send_ready_def)
  show ?thesis
  proof (cases "\<exists>msg t. s = RepSendOnHold eid msg t")
    case True
    then show ?thesis using reply by (auto simp: rep_st_on_send_ready_def Let_def rep_busy_def)
  next
    case False
    then show ?thesis
      using assms by (cases s) (auto simp: rep_st_on_send_ready_def Let_def rep_inner_on_send_ready_def
        rep_ok_def rep_inner_ok_def moves_def)
  qed
qed

lemma rep_on_send_not_ready_moves:
  assumes "rep_ok inner s"
  shows "runs (rep_st_on_send_not_ready s ctx inner eid) (rep_moves due 0 s ctx inner)"
  using assms by (cases s) (auto simp: rep_unfold)

lemma rep_on_recv_ack_moves:
  assumes "rep_ok inner s"
  shows "runs (rep_st_on_recv_ack s ctx inner eid msg) (rep_moves due 0 s ctx inner)"
  using assms by (cases s) (auto simp: rep_unfold Let_def intro!: emits_intros split: option.splits)

lemma rep_on_recv_ready_moves:
  assumes "rep_ok inner s"
  shows "runs (rep_st_on_recv_ready s ctx inner eid) (rep_moves due 0 s ctx inner)"
  using assms by (cases s) (auto simp: rep_unfold intro!: runs_intros emits_intros)

lemma rep_on_recv_not_ready_moves:
  assumes "rep_ok inner s"
  shows "runs (rep_st_on_recv_not_ready s ctx inner eid) (rep_moves due 0 s ctx inner)"
  using assms by (cases s) (auto simp: rep_unfold intro!: runs_intros)

lemma rep_on_pipe_removed_moves:
  assumes "rep_inner_ok inner" and "rep_state_ok old s"
    and "dom (rep_pipes old) - {eid} \<subseteq> dom (rep_pipes inner)" and "ready (rep_fq inner) \<subseteq> ready (rep_fq old)"
    and "rep_sd inner \<subseteq> rep_sd old"
  shows "runs (rep_st_on_pipe_removed s ctx inner eid) (\<lambda>r. rep_moves due 0 s ctx inner r \<and>
    (case r of (s', _, i') \<Rightarrow> (rep_st_is_send_ready s' i' \<longrightarrow> rep_st_is_send_ready s inner) \<and>
       (rep_st_is_recv_ready s' i' \<longrightarrow> rep_st_is_recv_ready s inner)))"
  using assms
  by (cases s) (auto simp: rep_unfold rep_st_is_send_ready_def rep_st_is_recv_ready_def prq.peek_law
      intro!: runs_intros emits_intros)

section \<open>The contract\<close>

lemma rep_good_alt: "rep_good = (\<lambda>p. \<exists>s. rep_state p = Some s \<and> rep_ok (rep_inner p) s)"
  "rep_pipes_of = (\<lambda>p. rep_pipes (rep_inner p))"
  "(\<lambda>p. rep_sending p \<or> rep_receiving p) = (\<lambda>p. in_state rep_busy (rep_state p))"
  by (auto simp: fun_eq_iff rep_good_def rep_pipes_of_def rep_sending_def rep_receiving_def rep_busy_def in_state_def
      split: option.splits)

lemma rep_apply_step:
  assumes "rep_state p = Some s"
    and "runs (t s ctx (rep_inner p)) (rep_moves due (of_bool (is_request cmd)) s ctx (rep_inner p))"
    and "pipes_after cmd (rep_pipes_of p) = rep_pipes_of p"
  shows "runs (rep_apply p ctx t) (rep_step bo cmd due p ctx)"
  unfolding rep_good_alt
  by (rule rep_m.apply_step [where t = t and s = s and k = "of_bool (is_request cmd)"])
     (use assms in \<open>simp_all add: rep_good_alt\<close>)

text \<open>Readiness only depends on the pipes to send to, the fair queue and the device flag.\<close>

lemma rep_ready_cong:
  assumes "rep_state p' = rep_state p" and "rep_is_device_item (rep_inner p') = rep_is_device_item (rep_inner p)"
    and "rep_sd (rep_inner p') = rep_sd (rep_inner p)" and "peek (rep_fq (rep_inner p')) = peek (rep_fq (rep_inner p))"
  shows "rep_is_send_ready p' = rep_is_send_ready p" "rep_is_recv_ready p' = rep_is_recv_ready p"
  using assms by (auto simp: rep_is_send_ready_def rep_st_is_send_ready_def rep_inner_is_send_ready_def
      rep_inner_is_send_ready_to_def rep_is_recv_ready_def rep_st_is_recv_ready_def rep_inner_is_recv_ready_def
      split: option.splits rep_state.splits)

lemma rep_add_step:
  assumes "rep_good p" and "eid \<notin> dom (rep_pipes_of p)" and "good_pipe eid pipe"
  shows "runs (rep_add_pipe p ctx eid pipe) (rep_step bo (AddPipe eid pipe) due p ctx)"
proof -
  obtain s where s: "rep_state p = Some s" "rep_ok (rep_inner p) s"
    using assms(1) by (auto simp: rep_good_def)
  then have ok: "rep_ok (rep_inner_add_pipe (rep_inner p) eid pipe) s"
    using assms(2,3) queue_insert_laws [of "rep_fq (rep_inner p)" eid "pipe_get_recv_priority pipe"]
    by (cases s) (auto simp: rep_ok_def rep_inner_ok_def rep_inner_add_pipe_def pipes_insert_def good_pipe_def rep_pipes_of_def)
  let ?p = "p\<lparr>rep_inner := rep_inner_add_pipe (rep_inner p) eid pipe\<rparr>"
  have "rep_is_send_ready ?p = rep_is_send_ready p" "rep_is_recv_ready ?p = rep_is_recv_ready p"
    by (rule rep_ready_cong; simp add: rep_inner_add_pipe_def)+
  with ok show ?thesis
    by (simp add: rep_add_pipe_def rep_good_alt s, intro machine_step_idle)
       (simp_all add: s rep_inner_add_pipe_def pipes_insert_def)
qed

lemma rep_remove_step:
  assumes "rep_good p" and "removable (rep_fq (rep_inner p)) eid"
  shows "runs (rep_remove_pipe p ctx eid)
    (\<lambda>(r, p', ctx'). r = rep_pipes_of p eid \<and> rep_step bo (RemovePipe eid) due p ctx (p', ctx'))"
proof -
  obtain s where s: "rep_state p = Some s" "rep_ok (rep_inner p) s"
    using assms(1) by (auto simp: rep_good_def)
  let ?q = "rep_fq (rep_inner p)" and ?ps = "rep_pipes (rep_inner p)" and ?sd = "rep_sd (rep_inner p)"
  show ?thesis
  proof (cases "?ps eid")
    case None
    then have same: "priolist_remove ?q eid = Some ?q" "?ps(eid := None) = ?ps" "?sd - {eid} = ?sd"
      using s(2) by (auto simp: rep_ok_def rep_inner_ok_def intro: priolist_remove_absent)
    show ?thesis
      using assms(1) by (simp add: None same rep_remove_pipe_def rep_inner_remove_pipe_def pipes_remove_def
        rep_pipes_of_def check_recv_ready_change_def check_send_ready_change_def machine_step_idle)
  next
    case (Some pipe)
    obtain q' where q': "priolist_remove ?q eid = Some q'" "invar q'" "ids q' = ids ?q - {eid}" "ready q' = ready ?q - {eid}"
      using prq.remove_law [of ?q eid] assms(2) s(2) by (auto simp: rep_ok_def rep_inner_ok_def)
    let ?i = "rep_inner p\<lparr>rep_fq := q', rep_sd := ?sd - {eid}, rep_pipes := ?ps(eid := None)\<rparr>"
    have ok: "rep_inner_ok ?i" using q' s(2) by (auto simp: rep_ok_def rep_inner_ok_def)
    have removed: "runs (rep_st_on_pipe_removed s ctx ?i eid) (\<lambda>r. rep_moves True 0 s ctx ?i r \<and>
        (case r of (s', _, i') \<Rightarrow> (rep_st_is_send_ready s' i' \<longrightarrow> rep_st_is_send_ready s ?i) \<and>
          (rep_st_is_recv_ready s' i' \<longrightarrow> rep_st_is_recv_ready s ?i)))"
      using s(2) q'(4) by (intro rep_on_pipe_removed_moves [OF ok, where old = "rep_inner p"]) (auto simp: rep_ok_def)
    have lost: "rep_is_send_ready (p\<lparr>rep_inner := ?i\<rparr>) \<Longrightarrow> rep_is_send_ready p"
      "rep_is_recv_ready (p\<lparr>rep_inner := ?i\<rparr>) \<Longrightarrow> rep_is_recv_ready p"
      using s q'(2,4) by (auto simp: rep_is_send_ready_def rep_st_is_send_ready_def rep_inner_is_send_ready_def
        rep_inner_is_send_ready_to_def rep_is_recv_ready_def rep_st_is_recv_ready_def rep_inner_is_recv_ready_def
        rep_ok_def rep_inner_ok_def prq.peek_law split: rep_state.splits if_splits)
    note step = rep_m.remove_step_late [where s = s and p = p and ?p1.0 = "p\<lparr>rep_inner := ?i\<rparr>" and pipes = rep_pipes and bo = bo
      and t = "\<lambda>s ctx inner. rep_st_on_pipe_removed s ctx inner eid" and ok = rep_ok and busy = rep_busy and due = due]
    have "runs (do { (p', ctx') \<leftarrow> rep_apply (p\<lparr>rep_inner := ?i\<rparr>) ctx (\<lambda>s ctx inner. rep_st_on_pipe_removed s ctx inner eid);
        Some (p', check_recv_ready_change
          (check_send_ready_change ctx' (rep_is_send_ready p) (rep_is_send_ready (p\<lparr>rep_inner := ?i\<rparr>)))
          (rep_is_recv_ready p) (rep_is_recv_ready (p\<lparr>rep_inner := ?i\<rparr>))) })
        (rep_step bo (RemovePipe eid) due p ctx)"
      unfolding rep_good_alt
      by (rule step [unfolded rep_ops_simps]) (use removed lost in \<open>simp_all add: s\<close>)
    then show ?thesis
      using q'(1) Some by (auto simp: rep_remove_pipe_def rep_inner_remove_pipe_def pipes_remove_def
        rep_pipes_of_def Let_def split_def elim!: runs_mono)
  qed
qed

lemma rep_send_step:
  assumes "rep_good p" and "due \<Longrightarrow> \<not> rep_sending p \<and> \<not> rep_receiving p"
  shows "runs (rep_send bo p ctx msg t) (rep_step bo (SendMsg msg t) due p ctx)"
proof -
  obtain s where s: "rep_state p = Some s" "rep_ok (rep_inner p) s"
    using assms(1) by (auto simp: rep_good_def)
  have idle: "due \<Longrightarrow> \<not> rep_busy s" using assms(2) s(1) by (simp add: rep_sending_def rep_receiving_def rep_busy_def)
  have "rep_step bo (SendMsg msg t) due p ctx (p, rep_inner_on_send_malformed ctx t)"
    using assms(1) by (intro machine_step_quiet) (auto simp: rep_inner_on_send_malformed_def context_call_defs
      intro!: emits_intros split: option.splits)
  then show ?thesis
    by (auto simp: rep_send_def intro!: rep_apply_step [OF s(1)] rep_send_moves [OF s(2)] idle split: option.splits)
qed

lemma rep_on_send_ack_step:
  assumes "rep_good p"
  shows "runs (rep_on_send_ack p ctx eid) (rep_step bo (SendAck eid) due p ctx)"
proof -
  obtain s where s: "rep_state p = Some s" "rep_ok (rep_inner p) s"
    using assms(1) by (auto simp: rep_good_def)
  let ?p = "p\<lparr>rep_inner := rep_inner_clear_backtrace (rep_inner p)\<rparr>"
  have "rep_ok (rep_inner_clear_backtrace (rep_inner p)) s"
    using s(2) by (cases s) (auto simp: rep_ok_def rep_inner_ok_def rep_inner_clear_backtrace_def)
  then have "runs (rep_apply ?p ctx (\<lambda>s ctx inner. rep_st_on_send_ack s ctx inner eid)) (rep_step bo (SendAck eid) due ?p ctx)"
    by (intro rep_apply_step [where s = s]) (auto simp: s intro!: rep_on_send_ack_moves)
  moreover have "rep_is_send_ready ?p = rep_is_send_ready p" "rep_is_recv_ready ?p = rep_is_recv_ready p"
    by (rule rep_ready_cong; simp add: rep_inner_clear_backtrace_def)+
  ultimately show ?thesis
    unfolding rep_on_send_ack_def Let_def
    by (elim runs_mono machine_step_base)
       (simp_all add: rep_pipes_of_def rep_sending_def rep_receiving_def rep_inner_clear_backtrace_def)
qed

text \<open>The loop never panics: fewer hops than \<open>ttl\<close> leave room for one more.\<close>

lemma rep_take_hops_total: "rep_take_hops ttl hops hdr bdy \<noteq> None"
proof (induction ttl hops hdr bdy rule: rep_take_hops.induct)
  case (1 ttl hops hdr bdy)
  have "\<exists>h. checked_add hops 1 = Some h" if "hops < ttl"
    using that checked_add_one_Some [of hops "unat ttl"] unsigned_less [of ttl] by (auto simp: word_less_nat_alt)
  then show ?case
    using 1 by (subst rep_take_hops.simps) (auto simp: Let_def not_le split: option.splits)
qed

lemma rep_on_recv_ack_step:
  assumes "rep_good p"
  shows "runs (rep_on_recv_ack bo p ctx eid msg) (rep_step bo (RecvAck eid msg) (rep_clean bo p (RecvAck eid msg)) p ctx)"
proof -
  obtain s where s: "rep_state p = Some s" "rep_ok (rep_inner p) s"
    using assms(1) by (auto simp: rep_good_def)
  obtain r where r: "rep_inner_raw_msg_to_msg bo (rep_inner p) msg eid = Some r"
    using rep_take_hops_total [of "rep_ttl (rep_inner p)" 0 "header msg @ write_u32 bo (ucast eid)" "body msg"]
    by (auto simp: rep_inner_raw_msg_to_msg_def message_split_def)
  have "rep_step bo (RecvAck eid msg) False p ctx (p, rep_inner_on_recv_ack_malformed ctx)"
    using assms(1) by (intro machine_step_quiet) (auto simp: rep_inner_on_recv_ack_malformed_def context_call_defs
      intro!: emits_intros)
  then show ?thesis
    by (cases r) (auto simp: rep_on_recv_ack_def r intro!: rep_apply_step [OF s(1)] rep_on_recv_ack_moves [OF s(2)])
qed

lemma rep_device_step:
  assumes "rep_good p"
  shows "runs (rep_on_device_plugged p ctx) (rep_step bo DevicePlugged due p ctx)"
proof -
  obtain s where s: "rep_state p = Some s" "rep_ok (rep_inner p) s"
    using assms(1) by (auto simp: rep_good_def)
  have "rep_ok ((rep_inner p)\<lparr>rep_is_device_item := True\<rparr>) s"
    using s(2) by (cases s) (auto simp: rep_ok_def rep_inner_ok_def)
  then show ?thesis
    using s(1) by (auto simp: rep_on_device_plugged_def machine_step_def rep_good_def rep_pipes_of_def added_def
      rep_sending_def rep_receiving_def)
qed

lemma rep_step_ok:
  assumes "rep_good p" and "legal rep_pipes_of rep_admits p cmd"
  shows "runs (proto_step (rep_ops bo) cmd p ctx)
    (rep_step bo cmd (in_turn rep_sending rep_receiving p cmd \<and> rep_clean bo p cmd) p ctx)"
proof -
  obtain s where s: "rep_state p = Some s" "rep_ok (rep_inner p) s"
    using assms(1) by (auto simp: rep_good_def)
  have inner: "rep_inner_ok (rep_inner p)" using s(2) by (simp add: rep_ok_def)
  have flags: "rep_sending p = rep_st_sending s" "rep_receiving p = rep_st_receiving s"
    by (simp_all add: s(1) rep_sending_def rep_receiving_def)
  note step = rep_apply_step [OF s(1)]
  note moves = rep_st_recv_moves [OF inner] rep_on_timeout_moves [OF s(2)] rep_on_send_ready_moves [OF s(2)]
    rep_on_send_not_ready_moves [OF s(2)] rep_on_recv_ready_moves [OF s(2)] rep_on_recv_not_ready_moves [OF s(2)]
  show ?thesis
  proof (cases cmd)
    case (RemovePipe eid)
    then show ?thesis using assms rep_remove_step [OF assms(1), of eid ctx bo True] by (auto elim!: runs_mono)
  next
    case (RecvAck eid msg)
    then show ?thesis using rep_on_recv_ack_step [OF assms(1), of bo ctx eid msg] by simp
  next
    case (SendMsg msg t)
    then show ?thesis using rep_send_step [OF assms(1), of "\<not> rep_sending p \<and> \<not> rep_receiving p"] by simp
  qed (use assms in \<open>auto simp: rep_method_defs default_method_defs flags rep_busy_def rep_pipes_of_def
         intro!: step moves rep_add_step rep_on_send_ack_step rep_device_step machine_step_idle\<close>)
qed

interpretation rep_p: answering_protocol "rep_ops bo" rep_good rep_pipes_of rep_admits rep_sending rep_receiving "rep_clean bo"
  for bo
proof
  fix p :: rep and cmd ctx eid
  note step = machine_step_contract [where sending = rep_sending and receiving = rep_receiving]
  show "runs (proto_step (rep_ops bo) cmd p ctx) (\<lambda>(p', ctx'). step_ok (rep_ops bo) rep_good rep_pipes_of cmd p ctx p' ctx')"
    if "rep_good p" "legal rep_pipes_of rep_admits p cmd"
    by (rule step(1) [OF rep_step_ok [OF that]])
  show "runs (proto_step (rep_ops bo) cmd p ctx) (\<lambda>(p', ctx').
      count_replies (trace ctx') + outstanding rep_sending rep_receiving p' =
      count_replies (trace ctx) + outstanding rep_sending rep_receiving p + of_bool (is_request cmd))"
    if "rep_good p" "legal rep_pipes_of rep_admits p cmd" "in_turn rep_sending rep_receiving p cmd" "rep_clean bo p cmd"
    by (rule step(2) [OF rep_step_ok [OF that(1,2)]]) (use that(3,4) in simp)
  show "runs (op_remove_pipe (rep_ops bo) p ctx eid) (\<lambda>(r, _). r = rep_pipes_of p eid)"
    if "rep_good p" "rep_admits p (RemovePipe eid)"
    using rep_remove_step [OF that(1), of eid ctx bo True] that(2) by (auto elim!: runs_mono)
  show "pipes_ok (rep_pipes_of p)" if "rep_good p"
    using that by (auto simp: rep_good_def rep_ok_def rep_inner_ok_def rep_pipes_of_def)
  then show "\<exists>p' es. op_close (rep_ops bo) p ctx = (p', ctx\<lparr>trace := trace ctx @ map (\<lambda>eid. NetClose eid True) es\<rparr>) \<and>
      set es = dom (rep_pipes_of p) \<and> distinct es \<and> rep_pipes_of p' = Map.empty"
    if "rep_good p" "enumerates (hash_order (env ctx))"
    using that pipes_close_all_law [of "rep_pipes_of p" ctx]
    by (auto simp: rep_close_def rep_inner_close_def rep_pipes_of_def)
qed

end
