(* ===== verification/Proto_Resp.thy ===== *)
theory Proto_Resp
  imports Protocol_Machine
begin

text \<open>
  The respondent of the survey protocol, \<open>src/proto/resp.rs\<close>. It is built like the
  replier: surveys are fair queued, the backtrace of a survey is kept until the response
  is sent. Unlike the replier, it raises the readable event on its own whenever a pipe
  becomes readable while no reception is on hold.
\<close>

section \<open>Data\<close>

datatype resp_state =
    RespIdle
  | RespReceiving endpoint_id timeout
  | RespRecvOnHold timeout
  | RespActive endpoint_id
  | RespSending endpoint_id message timeout
  | RespSendOnHold endpoint_id message timeout

record resp_inner =
  resp_pipes :: pipe_collection
  resp_fq :: priolist
  resp_sd :: "endpoint_id set"
  resp_ttl :: u8
  resp_backtrace :: "u8 list"
  resp_is_device_item :: bool

record resp =
  resp_inner :: resp_inner
  resp_state :: "resp_state option"

definition resp_inner_new :: resp_inner where
  "resp_inner_new = \<lparr>resp_pipes = pipes_new, resp_fq = priolist_new, resp_sd = {}, resp_ttl = 8,
     resp_backtrace = [], resp_is_device_item = False\<rparr>"

definition resp_from :: resp where
  "resp_from = \<lparr>resp_inner = resp_inner_new, resp_state = Some RespIdle\<rparr>"

section \<open>Inner\<close>

definition resp_inner_add_pipe :: "resp_inner \<Rightarrow> endpoint_id \<Rightarrow> pipe \<Rightarrow> resp_inner" where
  "resp_inner_add_pipe inner eid pipe =
     inner\<lparr>resp_fq := priolist_insert (resp_fq inner) eid (pipe_get_recv_priority pipe),
           resp_pipes := snd (pipes_insert (resp_pipes inner) eid pipe)\<rparr>"

definition resp_inner_remove_pipe :: "resp_inner \<Rightarrow> endpoint_id \<Rightarrow> (pipe option \<times> resp_inner) option" where
  "resp_inner_remove_pipe inner eid = do {
     fq \<leftarrow> priolist_remove (resp_fq inner) eid;
     let sd = resp_sd inner - {eid};
     let (pipe, pipes) = pipes_remove (resp_pipes inner) eid;
     Some (pipe, inner\<lparr>resp_fq := fq, resp_sd := sd, resp_pipes := pipes\<rparr>) }"

definition resp_inner_on_send_malformed :: "ctx \<Rightarrow> timeout \<Rightarrow> ctx" where
  "resp_inner_on_send_malformed ctx timeout =
     cancel_opt (send_reply ctx (ReplyErr (invalid_data_io_error ''Sending without eid''))) timeout"

definition resp_inner_send_to :: "resp_inner \<Rightarrow> ctx \<Rightarrow> message \<Rightarrow> endpoint_id \<Rightarrow> bool \<times> ctx \<times> resp_inner" where
  "resp_inner_send_to inner ctx msg eid =
     (let inner' = inner\<lparr>resp_sd := resp_sd inner - {eid}\<rparr>;
          (r, ctx') = pipes_send_to (resp_pipes inner) ctx msg eid
      in (r \<noteq> None, ctx', inner'))"

definition resp_inner_on_send_ack :: "ctx \<Rightarrow> timeout \<Rightarrow> ctx" where
  "resp_inner_on_send_ack ctx timeout = cancel_opt (send_reply ctx ReplySend) timeout"

definition resp_inner_send_when_inactive :: "ctx \<Rightarrow> timeout \<Rightarrow> ctx" where
  "resp_inner_send_when_inactive ctx timeout =
     cancel_opt (send_reply ctx (ReplyErr (other_io_error ''Can't send: no active request''))) timeout"

definition resp_inner_on_send_timeout :: "ctx \<Rightarrow> ctx" where
  "resp_inner_on_send_timeout ctx = send_reply ctx (ReplyErr (timedout_io_error ''Send timed out''))"

definition resp_inner_on_send_ready :: "resp_inner \<Rightarrow> endpoint_id \<Rightarrow> resp_inner" where
  "resp_inner_on_send_ready inner eid = inner\<lparr>resp_sd := insert eid (resp_sd inner)\<rparr>"

definition resp_inner_on_send_not_ready :: "resp_inner \<Rightarrow> endpoint_id \<Rightarrow> resp_inner" where
  "resp_inner_on_send_not_ready inner eid = inner\<lparr>resp_sd := resp_sd inner - {eid}\<rparr>"

definition resp_inner_is_send_ready :: "resp_inner \<Rightarrow> bool" where
  "resp_inner_is_send_ready inner \<longleftrightarrow> resp_sd inner \<noteq> {}"

definition resp_inner_is_send_ready_to :: "resp_inner \<Rightarrow> endpoint_id \<Rightarrow> bool" where
  "resp_inner_is_send_ready_to inner eid \<longleftrightarrow> eid \<in> resp_sd inner"

definition resp_inner_recv :: "resp_inner \<Rightarrow> ctx \<Rightarrow> (endpoint_id option \<times> ctx \<times> resp_inner) option" where
  "resp_inner_recv inner ctx = do {
     (r, fq, ctx') \<leftarrow> fair_queue_recv (resp_fq inner) (resp_pipes inner) ctx;
     Some (r, ctx', inner\<lparr>resp_fq := fq\<rparr>) }"

definition resp_inner_on_recv_ready :: "resp_inner \<Rightarrow> endpoint_id \<Rightarrow> resp_inner option" where
  "resp_inner_on_recv_ready inner eid = do {
     fq \<leftarrow> activate (resp_fq inner) eid;
     Some (inner\<lparr>resp_fq := fq\<rparr>) }"

definition resp_inner_on_recv_not_ready :: "resp_inner \<Rightarrow> endpoint_id \<Rightarrow> resp_inner option" where
  "resp_inner_on_recv_not_ready inner eid = do {
     fq \<leftarrow> deactivate (resp_fq inner) eid;
     Some (inner\<lparr>resp_fq := fq\<rparr>) }"

definition resp_inner_set_backtrace :: "resp_inner \<Rightarrow> u8 list \<Rightarrow> resp_inner" where
  "resp_inner_set_backtrace inner bt = inner\<lparr>resp_backtrace := bt\<rparr>"

definition resp_inner_get_backtrace :: "resp_inner \<Rightarrow> u8 list" where
  "resp_inner_get_backtrace inner = resp_backtrace inner"

definition resp_inner_clear_backtrace :: "resp_inner \<Rightarrow> resp_inner" where
  "resp_inner_clear_backtrace inner = inner\<lparr>resp_backtrace := []\<rparr>"

definition resp_inner_on_recv_ack :: "resp_inner \<Rightarrow> ctx \<Rightarrow> timeout \<Rightarrow> message \<Rightarrow> resp_inner \<times> ctx" where
  "resp_inner_on_recv_ack inner ctx timeout msg =
     (let (inner', msg') =
        (if \<not> resp_is_device_item inner then (resp_inner_set_backtrace inner (header msg), msg\<lparr>header := []\<rparr>)
         else (inner, msg))
      in (inner', cancel_opt (send_reply ctx (ReplyRecv msg')) timeout))"

definition resp_inner_on_recv_timeout :: "ctx \<Rightarrow> ctx" where
  "resp_inner_on_recv_timeout ctx = send_reply ctx (ReplyErr (timedout_io_error ''Recv timed out''))"

definition resp_inner_on_recv_ack_malformed :: "ctx \<Rightarrow> ctx" where
  "resp_inner_on_recv_ack_malformed ctx =
     send_reply ctx (ReplyErr (invalid_data_io_error ''Received request without id''))"

definition resp_inner_is_recv_ready :: "resp_inner \<Rightarrow> bool" where
  "resp_inner_is_recv_ready inner = peek (resp_fq inner)"

text \<open>
  The loop of \<open>raw_msg_to_msg\<close>: words of four bytes are moved from the body to the
  header until one has its top bit set, for \<open>ttl\<close> hops at most. The outer option is
  the panic, the inner one the result of the function.
\<close>

function resp_take_hops :: "u8 \<Rightarrow> u8 \<Rightarrow> u8 list \<Rightarrow> u8 list \<Rightarrow> message option option" where
  "resp_take_hops ttl hops hdr bdy =
     (if ttl \<le> hops then Some None
      else (case checked_add hops 1 of
              None \<Rightarrow> None
            | Some hops' \<Rightarrow>
                if length bdy < 4 then Some None
                else (let tl = drop 4 bdy;
                          hdr' = hdr @ take 4 bdy
                      in (if hdr' ! (length hdr' - 4) AND 0x80 \<noteq> 0
                          then Some (Some (from_header_and_body hdr' tl))
                          else resp_take_hops ttl hops' hdr' tl))))"
  by pat_completeness auto
termination
  by (relation "measure (\<lambda>(_, _, _, bdy). length bdy)") auto

declare resp_take_hops.simps [simp del]

definition resp_inner_raw_msg_to_msg :: "byteorder \<Rightarrow> resp_inner \<Rightarrow> message \<Rightarrow> endpoint_id \<Rightarrow> message option option" where
  "resp_inner_raw_msg_to_msg bo inner raw_msg eid =
     (let (hdr, bdy) = message_split raw_msg
      in resp_take_hops (resp_ttl inner) 0 (hdr @ write_u32 bo (ucast eid)) bdy)"

definition resp_inner_msg_to_raw_msg :: "byteorder \<Rightarrow> resp_inner \<Rightarrow> message \<Rightarrow> (message \<times> endpoint_id) option" where
  "resp_inner_msg_to_raw_msg bo inner msg =
     (let (hdr, bdy) = message_split msg;
          hdr' = (if \<not> resp_is_device_item inner then resp_inner_get_backtrace inner else hdr)
      in (if length hdr' < 4 then None
          else (let eid_u32 = read_u32 bo (take 4 hdr')
                in Some (from_header_and_body (drop 4 hdr') bdy, ucast eid_u32))))"

definition resp_inner_close :: "resp_inner \<Rightarrow> ctx \<Rightarrow> resp_inner \<times> ctx" where
  "resp_inner_close inner ctx =
     (let (pipes, ctx') = pipes_close_all (resp_pipes inner) ctx in (inner\<lparr>resp_pipes := pipes\<rparr>, ctx'))"

section \<open>State\<close>

type_synonym resp_result = "(resp_state \<times> ctx \<times> resp_inner) option"

definition resp_st_recv :: "resp_state \<Rightarrow> ctx \<Rightarrow> resp_inner \<Rightarrow> timeout \<Rightarrow> resp_result" where
  "resp_st_recv s ctx inner timeout = do {
     (r, ctx', inner') \<leftarrow> resp_inner_recv inner ctx;
     (case r of
        None \<Rightarrow> Some (RespRecvOnHold timeout, ctx', inner')
      | Some eid \<Rightarrow> Some (RespReceiving eid timeout, ctx', inner')) }"

definition resp_st_on_pipe_removed :: "resp_state \<Rightarrow> ctx \<Rightarrow> resp_inner \<Rightarrow> endpoint_id \<Rightarrow> resp_result" where
  "resp_st_on_pipe_removed s ctx inner eid =
     (case s of
        RespReceiving i timeout \<Rightarrow>
          if i = eid then resp_st_recv RespIdle ctx inner timeout
          else Some (RespReceiving i timeout, ctx, inner)
      | _ \<Rightarrow> Some (s, ctx, inner))"

definition resp_st_send_reply_to :: "resp_state \<Rightarrow> ctx \<Rightarrow> resp_inner \<Rightarrow> message \<Rightarrow> timeout \<Rightarrow> endpoint_id \<Rightarrow> resp_result" where
  "resp_st_send_reply_to s ctx inner msg timeout eid =
     (let (sent, ctx', inner') = resp_inner_send_to inner ctx msg eid
      in (if sent then Some (RespSending eid msg timeout, ctx', inner')
          else Some (RespSendOnHold eid msg timeout, ctx', inner')))"

definition resp_st_send :: "resp_state \<Rightarrow> ctx \<Rightarrow> resp_inner \<Rightarrow> message \<Rightarrow> timeout \<Rightarrow> endpoint_id \<Rightarrow> resp_result" where
  "resp_st_send s ctx inner msg timeout eid =
     (if resp_is_device_item inner then
        (if resp_inner_is_send_ready_to inner eid then resp_st_send_reply_to RespIdle ctx inner msg timeout eid
         else Some (RespIdle, resp_inner_on_send_ack ctx timeout, inner))
      else
        (case s of
           RespActive _ \<Rightarrow>
             if resp_inner_is_send_ready_to inner eid then resp_st_send_reply_to RespIdle ctx inner msg timeout eid
             else Some (RespSendOnHold eid msg timeout, ctx, inner)
         | _ \<Rightarrow> Some (RespIdle, resp_inner_send_when_inactive ctx timeout, inner)))"

definition resp_st_on_send_ack :: "resp_state \<Rightarrow> ctx \<Rightarrow> resp_inner \<Rightarrow> endpoint_id \<Rightarrow> resp_result" where
  "resp_st_on_send_ack s ctx inner eid =
     (case s of
        RespSending i msg timeout \<Rightarrow>
          if i = eid then Some (RespIdle, resp_inner_on_send_ack ctx timeout, inner)
          else Some (RespSending i msg timeout, ctx, inner)
      | _ \<Rightarrow> Some (s, ctx, inner))"

definition resp_st_on_send_timeout :: "resp_state \<Rightarrow> ctx \<Rightarrow> resp_inner \<Rightarrow> resp_result" where
  "resp_st_on_send_timeout s ctx inner = Some (RespIdle, resp_inner_on_send_timeout ctx, inner)"

definition resp_st_on_send_ready :: "resp_state \<Rightarrow> ctx \<Rightarrow> resp_inner \<Rightarrow> endpoint_id \<Rightarrow> resp_result" where
  "resp_st_on_send_ready s ctx inner eid =
     (let inner' = resp_inner_on_send_ready inner eid
      in (case s of
            RespSendOnHold i msg timeout \<Rightarrow>
              if i = eid then resp_st_send_reply_to RespIdle ctx inner' msg timeout eid
              else Some (RespSendOnHold i msg timeout, ctx, inner')
          | _ \<Rightarrow> Some (s, ctx, inner')))"

definition resp_st_on_send_not_ready :: "resp_state \<Rightarrow> ctx \<Rightarrow> resp_inner \<Rightarrow> endpoint_id \<Rightarrow> resp_result" where
  "resp_st_on_send_not_ready s ctx inner eid = Some (s, ctx, resp_inner_on_send_not_ready inner eid)"

definition resp_st_is_send_ready :: "resp_state \<Rightarrow> resp_inner \<Rightarrow> bool" where
  "resp_st_is_send_ready s inner =
     (if resp_is_device_item inner then resp_inner_is_send_ready inner
      else (case s of RespActive eid \<Rightarrow> resp_inner_is_send_ready_to inner eid | _ \<Rightarrow> False))"

definition resp_st_on_recv_ack :: "resp_state \<Rightarrow> ctx \<Rightarrow> resp_inner \<Rightarrow> endpoint_id \<Rightarrow> message \<Rightarrow> resp_result" where
  "resp_st_on_recv_ack s ctx inner eid msg =
     (case s of
        RespReceiving i timeout \<Rightarrow>
          if i = eid then
            (let (inner', ctx') = resp_inner_on_recv_ack inner ctx timeout msg
             in (if resp_is_device_item inner' then Some (RespIdle, ctx', inner')
                 else Some (RespActive eid, ctx', inner')))
          else Some (RespReceiving i timeout, ctx, inner)
      | _ \<Rightarrow> Some (s, ctx, inner))"

definition resp_st_on_recv_timeout :: "resp_state \<Rightarrow> ctx \<Rightarrow> resp_inner \<Rightarrow> resp_result" where
  "resp_st_on_recv_timeout s ctx inner = Some (RespIdle, resp_inner_on_recv_timeout ctx, inner)"

definition resp_st_on_recv_ready :: "resp_state \<Rightarrow> ctx \<Rightarrow> resp_inner \<Rightarrow> endpoint_id \<Rightarrow> resp_result" where
  "resp_st_on_recv_ready s ctx inner eid = do {
     inner' \<leftarrow> resp_inner_on_recv_ready inner eid;
     (case s of
        RespRecvOnHold timeout \<Rightarrow> resp_st_recv RespIdle ctx inner' timeout
      | _ \<Rightarrow> Some (s, raise_evt ctx (CanRecv True), inner')) }"

definition resp_st_on_recv_not_ready :: "resp_state \<Rightarrow> ctx \<Rightarrow> resp_inner \<Rightarrow> endpoint_id \<Rightarrow> resp_result" where
  "resp_st_on_recv_not_ready s ctx inner eid = do {
     inner' \<leftarrow> resp_inner_on_recv_not_ready inner eid;
     Some (s, ctx, inner') }"

definition resp_st_is_recv_ready :: "resp_state \<Rightarrow> resp_inner \<Rightarrow> bool" where
  "resp_st_is_recv_ready s inner = resp_inner_is_recv_ready inner"

section \<open>Protocol\<close>

definition resp_is_send_ready :: "resp \<Rightarrow> bool" where
  "resp_is_send_ready p = (case resp_state p of Some s \<Rightarrow> resp_st_is_send_ready s (resp_inner p) | None \<Rightarrow> False)"

definition resp_is_recv_ready :: "resp \<Rightarrow> bool" where
  "resp_is_recv_ready p = (case resp_state p of Some s \<Rightarrow> resp_st_is_recv_ready s (resp_inner p) | None \<Rightarrow> False)"

definition resp_apply :: "resp \<Rightarrow> ctx \<Rightarrow> (resp_state \<Rightarrow> ctx \<Rightarrow> resp_inner \<Rightarrow> resp_result) \<Rightarrow> (resp \<times> ctx) option" where
  "resp_apply p ctx transition =
     (case resp_state p of
        None \<Rightarrow> Some (p, ctx)
      | Some old_state \<Rightarrow> do {
          let was_send_ready = resp_st_is_send_ready old_state (resp_inner p);
          let was_recv_ready = resp_st_is_recv_ready old_state (resp_inner p);
          (new_state, ctx', inner') \<leftarrow> transition old_state ctx (resp_inner p);
          let is_send_ready = resp_st_is_send_ready new_state inner';
          let is_recv_ready = resp_st_is_recv_ready new_state inner';
          let p' = p\<lparr>resp_inner := inner', resp_state := Some new_state\<rparr>;
          let ctx'' = check_send_ready_change ctx' was_send_ready is_send_ready;
          Some (p', check_recv_ready_change ctx'' was_recv_ready is_recv_ready) })"

definition resp_add_pipe :: "resp \<Rightarrow> ctx \<Rightarrow> endpoint_id \<Rightarrow> pipe \<Rightarrow> (resp \<times> ctx) option" where
  "resp_add_pipe p ctx eid pipe = Some (p\<lparr>resp_inner := resp_inner_add_pipe (resp_inner p) eid pipe\<rparr>, ctx)"

definition resp_remove_pipe :: "resp \<Rightarrow> ctx \<Rightarrow> endpoint_id \<Rightarrow> (pipe option \<times> resp \<times> ctx) option" where
  "resp_remove_pipe p ctx eid = do {
     let was_send_ready = resp_is_send_ready p;
     let was_recv_ready = resp_is_recv_ready p;
     (pipe, inner') \<leftarrow> resp_inner_remove_pipe (resp_inner p) eid;
     let p' = p\<lparr>resp_inner := inner'\<rparr>;
     let is_send_ready = resp_is_send_ready p';
     let is_recv_ready = resp_is_recv_ready p';
     (p'', ctx') \<leftarrow>
       (case pipe of
          Some _ \<Rightarrow> resp_apply p' ctx (\<lambda>s ctx inner. resp_st_on_pipe_removed s ctx inner eid)
        | None \<Rightarrow> Some (p', ctx));
     let ctx'' = check_send_ready_change ctx' was_send_ready is_send_ready;
     Some (pipe, p'', check_recv_ready_change ctx'' was_recv_ready is_recv_ready) }"

definition resp_send :: "byteorder \<Rightarrow> resp \<Rightarrow> ctx \<Rightarrow> message \<Rightarrow> timeout \<Rightarrow> (resp \<times> ctx) option" where
  "resp_send bo p ctx msg timeout =
     (case resp_inner_msg_to_raw_msg bo (resp_inner p) msg of
        Some (raw_msg, eid) \<Rightarrow> resp_apply p ctx (\<lambda>s ctx inner. resp_st_send s ctx inner raw_msg timeout eid)
      | None \<Rightarrow> Some (p, resp_inner_on_send_malformed ctx timeout))"

definition resp_on_send_ack :: "resp \<Rightarrow> ctx \<Rightarrow> endpoint_id \<Rightarrow> (resp \<times> ctx) option" where
  "resp_on_send_ack p ctx eid =
     (let p' = p\<lparr>resp_inner := resp_inner_clear_backtrace (resp_inner p)\<rparr>
      in resp_apply p' ctx (\<lambda>s ctx inner. resp_st_on_send_ack s ctx inner eid))"

definition resp_on_recv_ack :: "byteorder \<Rightarrow> resp \<Rightarrow> ctx \<Rightarrow> endpoint_id \<Rightarrow> message \<Rightarrow> (resp \<times> ctx) option" where
  "resp_on_recv_ack bo p ctx eid raw_msg = do {
     r \<leftarrow> resp_inner_raw_msg_to_msg bo (resp_inner p) raw_msg eid;
     (case r of
        Some msg \<Rightarrow> resp_apply p ctx (\<lambda>s ctx inner. resp_st_on_recv_ack s ctx inner eid msg)
      | None \<Rightarrow> Some (p, resp_inner_on_recv_ack_malformed ctx)) }"

definition resp_on_send_timeout :: "resp \<Rightarrow> ctx \<Rightarrow> (resp \<times> ctx) option" where
  "resp_on_send_timeout p ctx = resp_apply p ctx resp_st_on_send_timeout"

definition resp_on_send_ready :: "resp \<Rightarrow> ctx \<Rightarrow> endpoint_id \<Rightarrow> (resp \<times> ctx) option" where
  "resp_on_send_ready p ctx eid = resp_apply p ctx (\<lambda>s ctx inner. resp_st_on_send_ready s ctx inner eid)"

definition resp_on_send_not_ready :: "resp \<Rightarrow> ctx \<Rightarrow> endpoint_id \<Rightarrow> (resp \<times> ctx) option" where
  "resp_on_send_not_ready p ctx eid = resp_apply p ctx (\<lambda>s ctx inner. resp_st_on_send_not_ready s ctx inner eid)"

definition resp_recv :: "resp \<Rightarrow> ctx \<Rightarrow> timeout \<Rightarrow> (resp \<times> ctx) option" where
  "resp_recv p ctx timeout = resp_apply p ctx (\<lambda>s ctx inner. resp_st_recv s ctx inner timeout)"

definition resp_on_recv_timeout :: "resp \<Rightarrow> ctx \<Rightarrow> (resp \<times> ctx) option" where
  "resp_on_recv_timeout p ctx = resp_apply p ctx resp_st_on_recv_timeout"

definition resp_on_recv_ready :: "resp \<Rightarrow> ctx \<Rightarrow> endpoint_id \<Rightarrow> (resp \<times> ctx) option" where
  "resp_on_recv_ready p ctx eid = resp_apply p ctx (\<lambda>s ctx inner. resp_st_on_recv_ready s ctx inner eid)"

definition resp_on_recv_not_ready :: "resp \<Rightarrow> ctx \<Rightarrow> endpoint_id \<Rightarrow> (resp \<times> ctx) option" where
  "resp_on_recv_not_ready p ctx eid = resp_apply p ctx (\<lambda>s ctx inner. resp_st_on_recv_not_ready s ctx inner eid)"

definition resp_on_device_plugged :: "resp \<Rightarrow> ctx \<Rightarrow> (resp \<times> ctx) option" where
  "resp_on_device_plugged p ctx = Some (p\<lparr>resp_inner := (resp_inner p)\<lparr>resp_is_device_item := True\<rparr>\<rparr>, ctx)"

definition resp_close :: "resp \<Rightarrow> ctx \<Rightarrow> resp \<times> ctx" where
  "resp_close p ctx = (let (inner, ctx') = resp_inner_close (resp_inner p) ctx in (p\<lparr>resp_inner := inner\<rparr>, ctx'))"

definition resp_ops :: "byteorder \<Rightarrow> resp protocol_ops" where
  "resp_ops bo = \<lparr>
     op_id = \<lambda>_. RESPONDENT_ID, op_peer_id = \<lambda>_. SURVEYOR_ID, op_add_pipe = resp_add_pipe,
     op_remove_pipe = resp_remove_pipe, op_send = resp_send bo, op_on_send_ack = resp_on_send_ack,
     op_on_send_timeout = resp_on_send_timeout, op_on_send_ready = resp_on_send_ready,
     op_on_send_not_ready = resp_on_send_not_ready, op_recv = resp_recv,
     op_on_recv_ack = resp_on_recv_ack bo, op_on_recv_timeout = resp_on_recv_timeout,
     op_on_recv_ready = resp_on_recv_ready, op_on_recv_not_ready = resp_on_recv_not_ready,
     op_is_send_ready = resp_is_send_ready, op_is_recv_ready = resp_is_recv_ready,
     op_set_option = default_set_option, op_on_timer_tick = default_on_timer_tick,
     op_on_device_plugged = resp_on_device_plugged, op_close = resp_close\<rparr>"

lemma resp_ops_simps [simp]:
  "op_id (resp_ops bo) = (\<lambda>_. RESPONDENT_ID)"
  "op_peer_id (resp_ops bo) = (\<lambda>_. SURVEYOR_ID)"
  "op_add_pipe (resp_ops bo) = resp_add_pipe"
  "op_remove_pipe (resp_ops bo) = resp_remove_pipe"
  "op_send (resp_ops bo) = resp_send bo"
  "op_on_send_ack (resp_ops bo) = resp_on_send_ack"
  "op_on_send_timeout (resp_ops bo) = resp_on_send_timeout"
  "op_on_send_ready (resp_ops bo) = resp_on_send_ready"
  "op_on_send_not_ready (resp_ops bo) = resp_on_send_not_ready"
  "op_recv (resp_ops bo) = resp_recv"
  "op_on_recv_ack (resp_ops bo) = resp_on_recv_ack bo"
  "op_on_recv_timeout (resp_ops bo) = resp_on_recv_timeout"
  "op_on_recv_ready (resp_ops bo) = resp_on_recv_ready"
  "op_on_recv_not_ready (resp_ops bo) = resp_on_recv_not_ready"
  "op_is_send_ready (resp_ops bo) = resp_is_send_ready"
  "op_is_recv_ready (resp_ops bo) = resp_is_recv_ready"
  "op_set_option (resp_ops bo) = default_set_option"
  "op_on_timer_tick (resp_ops bo) = default_on_timer_tick"
  "op_on_device_plugged (resp_ops bo) = resp_on_device_plugged"
  "op_close (resp_ops bo) = resp_close"
  by (simp_all add: resp_ops_def)

lemmas resp_inner_defs = resp_inner_add_pipe_def resp_inner_remove_pipe_def
  resp_inner_on_send_malformed_def resp_inner_send_to_def resp_inner_on_send_ack_def
  resp_inner_send_when_inactive_def resp_inner_on_send_timeout_def resp_inner_on_send_ready_def
  resp_inner_on_send_not_ready_def resp_inner_is_send_ready_def resp_inner_is_send_ready_to_def
  resp_inner_recv_def resp_inner_on_recv_ready_def resp_inner_on_recv_not_ready_def
  resp_inner_set_backtrace_def resp_inner_get_backtrace_def resp_inner_clear_backtrace_def
  resp_inner_on_recv_ack_def resp_inner_on_recv_timeout_def resp_inner_on_recv_ack_malformed_def
  resp_inner_is_recv_ready_def resp_inner_close_def

lemmas resp_st_defs = resp_st_recv_def resp_st_on_pipe_removed_def resp_st_send_reply_to_def
  resp_st_send_def resp_st_on_send_ack_def resp_st_on_send_timeout_def resp_st_on_send_ready_def
  resp_st_on_send_not_ready_def resp_st_on_recv_ack_def resp_st_on_recv_timeout_def
  resp_st_on_recv_ready_def resp_st_on_recv_not_ready_def

lemmas resp_method_defs = resp_on_send_timeout_def resp_on_send_ready_def resp_on_send_not_ready_def
  resp_recv_def resp_on_recv_timeout_def resp_on_recv_ready_def resp_on_recv_not_ready_def

section \<open>Invariant\<close>

definition resp_inner_ok :: "resp_inner \<Rightarrow> bool" where
  "resp_inner_ok inner \<longleftrightarrow> pipes_ok (resp_pipes inner) \<and> invar (resp_fq inner) \<and>
     ids (resp_fq inner) = dom (resp_pipes inner) \<and> resp_sd inner \<subseteq> dom (resp_pipes inner)"

fun resp_state_ok :: "resp_inner \<Rightarrow> resp_state \<Rightarrow> bool" where
  "resp_state_ok inner (RespReceiving eid _) \<longleftrightarrow> eid \<in> dom (resp_pipes inner)"
| "resp_state_ok inner (RespRecvOnHold _) \<longleftrightarrow> ready (resp_fq inner) = {}"
| "resp_state_ok inner (RespSendOnHold eid _ _) \<longleftrightarrow> eid \<notin> resp_sd inner"
| "resp_state_ok inner _ \<longleftrightarrow> True"

definition resp_ok :: "resp_inner \<Rightarrow> resp_state \<Rightarrow> bool" where
  "resp_ok inner s \<longleftrightarrow> resp_inner_ok inner \<and> resp_state_ok inner s"

definition resp_good :: "resp \<Rightarrow> bool" where
  "resp_good p \<longleftrightarrow> (\<exists>s. resp_state p = Some s \<and> resp_ok (resp_inner p) s)"

definition resp_pipes_of :: "resp \<Rightarrow> pipe_collection" where
  "resp_pipes_of p = resp_pipes (resp_inner p)"

fun resp_admits :: "resp \<Rightarrow> proto_cmd \<Rightarrow> bool" where
  "resp_admits p (RemovePipe eid) \<longleftrightarrow> removable (resp_fq (resp_inner p)) eid"
| "resp_admits p _ \<longleftrightarrow> True"

text \<open>A received message is clean when a request identifier ends its backtrace.\<close>

fun resp_clean :: "byteorder \<Rightarrow> resp \<Rightarrow> proto_cmd \<Rightarrow> bool" where
  "resp_clean bo p (RecvAck eid msg) \<longleftrightarrow> resp_inner_raw_msg_to_msg bo (resp_inner p) msg eid \<noteq> Some None"
| "resp_clean bo p _ \<longleftrightarrow> True"

fun resp_st_sending :: "resp_state \<Rightarrow> bool" where
  "resp_st_sending (RespSending _ _ _) \<longleftrightarrow> True"
| "resp_st_sending (RespSendOnHold _ _ _) \<longleftrightarrow> True"
| "resp_st_sending _ \<longleftrightarrow> False"

fun resp_st_receiving :: "resp_state \<Rightarrow> bool" where
  "resp_st_receiving (RespReceiving _ _) \<longleftrightarrow> True"
| "resp_st_receiving (RespRecvOnHold _) \<longleftrightarrow> True"
| "resp_st_receiving _ \<longleftrightarrow> False"

definition resp_busy :: "resp_state \<Rightarrow> bool" where
  "resp_busy s \<longleftrightarrow> resp_st_sending s \<or> resp_st_receiving s"

definition resp_sending :: "resp \<Rightarrow> bool" where
  "resp_sending p \<longleftrightarrow> in_state resp_st_sending (resp_state p)"

definition resp_receiving :: "resp \<Rightarrow> bool" where
  "resp_receiving p \<longleftrightarrow> in_state resp_st_receiving (resp_state p)"

abbreviation resp_moves :: "bool \<Rightarrow> nat \<Rightarrow> resp_state \<Rightarrow> ctx \<Rightarrow> resp_inner \<Rightarrow> resp_state \<times> ctx \<times> resp_inner \<Rightarrow> bool" where
  "resp_moves \<equiv> moves resp_ok resp_pipes resp_busy"

abbreviation resp_step :: "byteorder \<Rightarrow> proto_cmd \<Rightarrow> bool \<Rightarrow> resp \<Rightarrow> ctx \<Rightarrow> resp \<times> ctx \<Rightarrow> bool" where
  "resp_step bo \<equiv> machine_step (resp_ops bo) resp_good resp_pipes_of (\<lambda>p. resp_sending p \<or> resp_receiving p)"

interpretation resp_m: machine "resp_ops bo" resp_apply resp_inner resp_state
  "\<lambda>p i s. p\<lparr>resp_inner := i, resp_state := Some s\<rparr>" resp_st_is_send_ready resp_st_is_recv_ready
  for bo
  by unfold_locales (simp_all add: resp_apply_def resp_is_send_ready_def resp_is_recv_ready_def Let_def)

section \<open>What the transitions do\<close>

lemmas resp_unfold = resp_st_defs resp_inner_defs resp_ok_def resp_inner_ok_def resp_busy_def moves_def context_call_defs

lemma resp_st_recv_moves:
  assumes "resp_inner_ok inner" and "due \<Longrightarrow> k = of_bool (\<not> resp_busy s)"
  shows "runs (resp_st_recv s' ctx inner t) (resp_moves due k s ctx inner)"
  using assms by (auto simp: resp_unfold intro!: runs_intros emits_intros)

lemma resp_send_reply_to_moves:
  assumes "resp_inner_ok inner" and "due \<Longrightarrow> k = of_bool (\<not> resp_busy s)"
  shows "runs (resp_st_send_reply_to s' ctx inner msg t eid) (resp_moves due k s ctx inner)"
proof (cases "eid \<in> dom (resp_pipes inner)")
  case True
  then show ?thesis using assms pipes_send_to_eq [of "resp_pipes inner" eid ctx msg]
    by (auto simp: resp_unfold Let_def intro!: emits_intros)
next
  case False
  then have "pipes_send_to (resp_pipes inner) ctx msg eid = (None, ctx)"
    by (auto simp: pipes_send_to_def split: option.splits)
  then show ?thesis using assms by (auto simp: resp_unfold Let_def)
qed

lemma resp_send_moves:
  assumes "resp_ok inner s" and "due \<Longrightarrow> \<not> resp_busy s"
  shows "runs (resp_st_send s ctx inner msg t eid) (resp_moves due (Suc 0) s ctx inner)"
proof -
  have inner: "resp_inner_ok inner" using assms(1) by (simp add: resp_ok_def)
  have reply: "runs (resp_st_send_reply_to RespIdle ctx inner msg t eid) (resp_moves due (Suc 0) s ctx inner)"
    using assms(2) by (intro resp_send_reply_to_moves [OF inner]) auto
  have hold: "eid \<notin> resp_sd inner \<Longrightarrow> resp_moves due (Suc 0) s ctx inner (RespSendOnHold eid msg t, ctx, inner)"
    using inner assms(2) by (auto simp: moves_def resp_ok_def resp_busy_def)
  have answer: "resp_moves due (Suc 0) s ctx inner (RespIdle, resp_inner_on_send_ack ctx t, inner)"
    "resp_moves due (Suc 0) s ctx inner (RespIdle, resp_inner_send_when_inactive ctx t, inner)"
    using inner assms(2) by (auto simp: moves_def resp_ok_def resp_busy_def resp_inner_on_send_ack_def
      resp_inner_send_when_inactive_def context_call_defs intro!: emits_intros split: option.splits)
  show ?thesis
    unfolding resp_st_send_def resp_inner_is_send_ready_to_def
    using reply hold answer by (auto split: resp_state.splits)
qed

lemma resp_on_send_ack_moves:
  assumes "resp_ok inner s"
  shows "runs (resp_st_on_send_ack s ctx inner eid) (resp_moves due 0 s ctx inner)"
  using assms by (cases s) (auto simp: resp_unfold intro!: emits_intros split: option.splits)

lemma resp_on_timeout_moves:
  assumes "resp_ok inner s" and "due \<Longrightarrow> resp_busy s"
  shows "runs (resp_st_on_send_timeout s ctx inner) (resp_moves due 0 s ctx inner)"
    and "runs (resp_st_on_recv_timeout s ctx inner) (resp_moves due 0 s ctx inner)"
  using assms by (auto simp: resp_unfold intro!: emits_intros)

lemma resp_on_send_ready_moves:
  assumes "resp_ok inner s" and "eid \<in> dom (resp_pipes inner)"
  shows "runs (resp_st_on_send_ready s ctx inner eid) (resp_moves due 0 s ctx inner)"
proof -
  have "resp_inner_ok (resp_inner_on_send_ready inner eid)"
    using assms by (auto simp: resp_ok_def resp_inner_ok_def resp_inner_on_send_ready_def)
  then have "runs (resp_st_send_reply_to RespIdle ctx (resp_inner_on_send_ready inner eid) msg t eid)
      (resp_moves due 0 s ctx (resp_inner_on_send_ready inner eid))" if "resp_busy s" for msg t
    using that by (intro resp_send_reply_to_moves) auto
  then have reply: "runs (resp_st_send_reply_to RespIdle ctx (resp_inner_on_send_ready inner eid) msg t eid)
      (resp_moves due 0 s ctx inner)" if "resp_busy s" for msg t
    using that by (intro moves_from [of resp_pipes "resp_inner_on_send_ready inner eid" inner])
      (auto simp: resp_inner_on_send_ready_def)
  show ?thesis
  proof (cases "\<exists>msg t. s = RespSendOnHold eid msg t")
    case True
    then show ?thesis using reply by (auto simp: resp_st_on_send_ready_def Let_def resp_busy_def)
  next
    case False
    then show ?thesis
      using assms by (cases s) (auto simp: resp_st_on_send_ready_def Let_def resp_inner_on_send_ready_def
        resp_ok_def resp_inner_ok_def moves_def)
  qed
qed

lemma resp_on_send_not_ready_moves:
  assumes "resp_ok inner s"
  shows "runs (resp_st_on_send_not_ready s ctx inner eid) (resp_moves due 0 s ctx inner)"
  using assms by (cases s) (auto simp: resp_unfold)

lemma resp_on_recv_ack_moves:
  assumes "resp_ok inner s"
  shows "runs (resp_st_on_recv_ack s ctx inner eid msg) (resp_moves due 0 s ctx inner)"
  using assms by (cases s) (auto simp: resp_unfold Let_def intro!: emits_intros split: option.splits)

lemma resp_on_recv_ready_moves:
  assumes "resp_ok inner s"
  shows "s = RespRecvOnHold t \<Longrightarrow> runs (resp_st_on_recv_ready s ctx inner eid) (resp_moves due 0 s ctx inner)"
    and "(\<And>t. s \<noteq> RespRecvOnHold t) \<Longrightarrow> eid \<in> dom (resp_pipes inner) \<Longrightarrow>
      runs (resp_st_on_recv_ready s ctx inner eid) (\<lambda>r. resp_moves due 0 s (raise_evt ctx (CanRecv True)) inner r \<and>
        (case r of (s', _, i') \<Rightarrow> resp_st_is_recv_ready s' i'))"
  using assms by (cases s; auto simp: resp_unfold resp_st_is_recv_ready_def prq.peek_law intro!: runs_intros emits_intros)+

lemma resp_on_recv_not_ready_moves:
  assumes "resp_ok inner s"
  shows "runs (resp_st_on_recv_not_ready s ctx inner eid) (resp_moves due 0 s ctx inner)"
  using assms by (cases s) (auto simp: resp_unfold intro!: runs_intros)

lemma resp_on_pipe_removed_moves:
  assumes "resp_inner_ok inner" and "resp_state_ok old s"
    and "dom (resp_pipes old) - {eid} \<subseteq> dom (resp_pipes inner)" and "ready (resp_fq inner) \<subseteq> ready (resp_fq old)"
    and "resp_sd inner \<subseteq> resp_sd old"
  shows "runs (resp_st_on_pipe_removed s ctx inner eid) (\<lambda>r. resp_moves due 0 s ctx inner r \<and>
    (case r of (s', _, i') \<Rightarrow> (resp_st_is_send_ready s' i' \<longrightarrow> resp_st_is_send_ready s inner) \<and>
       (resp_st_is_recv_ready s' i' \<longrightarrow> resp_st_is_recv_ready s inner)))"
  using assms
  by (cases s) (auto simp: resp_unfold resp_st_is_send_ready_def resp_st_is_recv_ready_def prq.peek_law
      intro!: runs_intros emits_intros)

section \<open>The contract\<close>

lemma resp_good_alt: "resp_good = (\<lambda>p. \<exists>s. resp_state p = Some s \<and> resp_ok (resp_inner p) s)"
  "resp_pipes_of = (\<lambda>p. resp_pipes (resp_inner p))"
  "(\<lambda>p. resp_sending p \<or> resp_receiving p) = (\<lambda>p. in_state resp_busy (resp_state p))"
  by (auto simp: fun_eq_iff resp_good_def resp_pipes_of_def resp_sending_def resp_receiving_def resp_busy_def in_state_def
      split: option.splits)

lemma resp_apply_step:
  assumes "resp_state p = Some s"
    and "runs (t s ctx (resp_inner p)) (resp_moves due (of_bool (is_request cmd)) s ctx (resp_inner p))"
    and "pipes_after cmd (resp_pipes_of p) = resp_pipes_of p"
  shows "runs (resp_apply p ctx t) (resp_step bo cmd due p ctx)"
  unfolding resp_good_alt
  by (rule resp_m.apply_step [where t = t and s = s and k = "of_bool (is_request cmd)"])
     (use assms in \<open>simp_all add: resp_good_alt\<close>)

text \<open>Readiness only depends on the pipes to send to, the fair queue and the device flag.\<close>

lemma resp_ready_cong:
  assumes "resp_state p' = resp_state p" and "resp_is_device_item (resp_inner p') = resp_is_device_item (resp_inner p)"
    and "resp_sd (resp_inner p') = resp_sd (resp_inner p)" and "peek (resp_fq (resp_inner p')) = peek (resp_fq (resp_inner p))"
  shows "resp_is_send_ready p' = resp_is_send_ready p" "resp_is_recv_ready p' = resp_is_recv_ready p"
  using assms by (auto simp: resp_is_send_ready_def resp_st_is_send_ready_def resp_inner_is_send_ready_def
      resp_inner_is_send_ready_to_def resp_is_recv_ready_def resp_st_is_recv_ready_def resp_inner_is_recv_ready_def
      split: option.splits resp_state.splits)

lemma resp_add_step:
  assumes "resp_good p" and "eid \<notin> dom (resp_pipes_of p)" and "good_pipe eid pipe"
  shows "runs (resp_add_pipe p ctx eid pipe) (resp_step bo (AddPipe eid pipe) due p ctx)"
proof -
  obtain s where s: "resp_state p = Some s" "resp_ok (resp_inner p) s"
    using assms(1) by (auto simp: resp_good_def)
  then have ok: "resp_ok (resp_inner_add_pipe (resp_inner p) eid pipe) s"
    using assms(2,3) queue_insert_laws [of "resp_fq (resp_inner p)" eid "pipe_get_recv_priority pipe"]
    by (cases s) (auto simp: resp_ok_def resp_inner_ok_def resp_inner_add_pipe_def pipes_insert_def good_pipe_def resp_pipes_of_def)
  let ?p = "p\<lparr>resp_inner := resp_inner_add_pipe (resp_inner p) eid pipe\<rparr>"
  have "resp_is_send_ready ?p = resp_is_send_ready p" "resp_is_recv_ready ?p = resp_is_recv_ready p"
    by (rule resp_ready_cong; simp add: resp_inner_add_pipe_def)+
  with ok show ?thesis
    by (simp add: resp_add_pipe_def resp_good_alt s, intro machine_step_idle)
       (simp_all add: s resp_inner_add_pipe_def pipes_insert_def)
qed

lemma resp_remove_step:
  assumes "resp_good p" and "removable (resp_fq (resp_inner p)) eid"
  shows "runs (resp_remove_pipe p ctx eid)
    (\<lambda>(r, p', ctx'). r = resp_pipes_of p eid \<and> resp_step bo (RemovePipe eid) due p ctx (p', ctx'))"
proof -
  obtain s where s: "resp_state p = Some s" "resp_ok (resp_inner p) s"
    using assms(1) by (auto simp: resp_good_def)
  let ?q = "resp_fq (resp_inner p)" and ?ps = "resp_pipes (resp_inner p)" and ?sd = "resp_sd (resp_inner p)"
  show ?thesis
  proof (cases "?ps eid")
    case None
    then have same: "priolist_remove ?q eid = Some ?q" "?ps(eid := None) = ?ps" "?sd - {eid} = ?sd"
      using s(2) by (auto simp: resp_ok_def resp_inner_ok_def intro: priolist_remove_absent)
    show ?thesis
      using assms(1) by (simp add: None same resp_remove_pipe_def resp_inner_remove_pipe_def pipes_remove_def
        resp_pipes_of_def check_recv_ready_change_def check_send_ready_change_def machine_step_idle)
  next
    case (Some pipe)
    obtain q' where q': "priolist_remove ?q eid = Some q'" "invar q'" "ids q' = ids ?q - {eid}" "ready q' = ready ?q - {eid}"
      using prq.remove_law [of ?q eid] assms(2) s(2) by (auto simp: resp_ok_def resp_inner_ok_def)
    let ?i = "resp_inner p\<lparr>resp_fq := q', resp_sd := ?sd - {eid}, resp_pipes := ?ps(eid := None)\<rparr>"
    have ok: "resp_inner_ok ?i" using q' s(2) by (auto simp: resp_ok_def resp_inner_ok_def)
    have removed: "runs (resp_st_on_pipe_removed s ctx ?i eid) (\<lambda>r. resp_moves True 0 s ctx ?i r \<and>
        (case r of (s', _, i') \<Rightarrow> (resp_st_is_send_ready s' i' \<longrightarrow> resp_st_is_send_ready s ?i) \<and>
          (resp_st_is_recv_ready s' i' \<longrightarrow> resp_st_is_recv_ready s ?i)))"
      using s(2) q'(4) by (intro resp_on_pipe_removed_moves [OF ok, where old = "resp_inner p"]) (auto simp: resp_ok_def)
    have lost: "resp_is_send_ready (p\<lparr>resp_inner := ?i\<rparr>) \<Longrightarrow> resp_is_send_ready p"
      "resp_is_recv_ready (p\<lparr>resp_inner := ?i\<rparr>) \<Longrightarrow> resp_is_recv_ready p"
      using s q'(2,4) by (auto simp: resp_is_send_ready_def resp_st_is_send_ready_def resp_inner_is_send_ready_def
        resp_inner_is_send_ready_to_def resp_is_recv_ready_def resp_st_is_recv_ready_def resp_inner_is_recv_ready_def
        resp_ok_def resp_inner_ok_def prq.peek_law split: resp_state.splits if_splits)
    note step = resp_m.remove_step_late [where s = s and p = p and ?p1.0 = "p\<lparr>resp_inner := ?i\<rparr>" and pipes = resp_pipes and bo = bo
      and t = "\<lambda>s ctx inner. resp_st_on_pipe_removed s ctx inner eid" and ok = resp_ok and busy = resp_busy and due = due]
    have "runs (do { (p', ctx') \<leftarrow> resp_apply (p\<lparr>resp_inner := ?i\<rparr>) ctx (\<lambda>s ctx inner. resp_st_on_pipe_removed s ctx inner eid);
        Some (p', check_recv_ready_change
          (check_send_ready_change ctx' (resp_is_send_ready p) (resp_is_send_ready (p\<lparr>resp_inner := ?i\<rparr>)))
          (resp_is_recv_ready p) (resp_is_recv_ready (p\<lparr>resp_inner := ?i\<rparr>))) })
        (resp_step bo (RemovePipe eid) due p ctx)"
      unfolding resp_good_alt
      by (rule step [unfolded resp_ops_simps]) (use removed lost in \<open>simp_all add: s\<close>)
    then show ?thesis
      using q'(1) Some by (auto simp: resp_remove_pipe_def resp_inner_remove_pipe_def pipes_remove_def
        resp_pipes_of_def Let_def split_def elim!: runs_mono)
  qed
qed

lemma resp_send_step:
  assumes "resp_good p" and "due \<Longrightarrow> \<not> resp_sending p \<and> \<not> resp_receiving p"
  shows "runs (resp_send bo p ctx msg t) (resp_step bo (SendMsg msg t) due p ctx)"
proof -
  obtain s where s: "resp_state p = Some s" "resp_ok (resp_inner p) s"
    using assms(1) by (auto simp: resp_good_def)
  have idle: "due \<Longrightarrow> \<not> resp_busy s" using assms(2) s(1) by (simp add: resp_sending_def resp_receiving_def resp_busy_def)
  have "resp_step bo (SendMsg msg t) due p ctx (p, resp_inner_on_send_malformed ctx t)"
    using assms(1) by (intro machine_step_quiet) (auto simp: resp_inner_on_send_malformed_def context_call_defs
      intro!: emits_intros split: option.splits)
  then show ?thesis
    by (auto simp: resp_send_def intro!: resp_apply_step [OF s(1)] resp_send_moves [OF s(2)] idle split: option.splits)
qed

lemma resp_on_send_ack_step:
  assumes "resp_good p"
  shows "runs (resp_on_send_ack p ctx eid) (resp_step bo (SendAck eid) due p ctx)"
proof -
  obtain s where s: "resp_state p = Some s" "resp_ok (resp_inner p) s"
    using assms(1) by (auto simp: resp_good_def)
  let ?p = "p\<lparr>resp_inner := resp_inner_clear_backtrace (resp_inner p)\<rparr>"
  have "resp_ok (resp_inner_clear_backtrace (resp_inner p)) s"
    using s(2) by (cases s) (auto simp: resp_ok_def resp_inner_ok_def resp_inner_clear_backtrace_def)
  then have "runs (resp_apply ?p ctx (\<lambda>s ctx inner. resp_st_on_send_ack s ctx inner eid)) (resp_step bo (SendAck eid) due ?p ctx)"
    by (intro resp_apply_step [where s = s]) (auto simp: s intro!: resp_on_send_ack_moves)
  moreover have "resp_is_send_ready ?p = resp_is_send_ready p" "resp_is_recv_ready ?p = resp_is_recv_ready p"
    by (rule resp_ready_cong; simp add: resp_inner_clear_backtrace_def)+
  ultimately show ?thesis
    unfolding resp_on_send_ack_def Let_def
    by (elim runs_mono machine_step_base)
       (simp_all add: resp_pipes_of_def resp_sending_def resp_receiving_def resp_inner_clear_backtrace_def)
qed

text \<open>The loop never panics: fewer hops than \<open>ttl\<close> leave room for one more.\<close>

lemma resp_take_hops_total: "resp_take_hops ttl hops hdr bdy \<noteq> None"
proof (induction ttl hops hdr bdy rule: resp_take_hops.induct)
  case (1 ttl hops hdr bdy)
  have "\<exists>h. checked_add hops 1 = Some h" if "hops < ttl"
    using that checked_add_one_Some [of hops "unat ttl"] unsigned_less [of ttl] by (auto simp: word_less_nat_alt)
  then show ?case
    using 1 by (subst resp_take_hops.simps) (auto simp: Let_def not_le split: option.splits)
qed

lemma resp_on_recv_ack_step:
  assumes "resp_good p"
  shows "runs (resp_on_recv_ack bo p ctx eid msg) (resp_step bo (RecvAck eid msg) (resp_clean bo p (RecvAck eid msg)) p ctx)"
proof -
  obtain s where s: "resp_state p = Some s" "resp_ok (resp_inner p) s"
    using assms(1) by (auto simp: resp_good_def)
  obtain r where r: "resp_inner_raw_msg_to_msg bo (resp_inner p) msg eid = Some r"
    using resp_take_hops_total [of "resp_ttl (resp_inner p)" 0 "header msg @ write_u32 bo (ucast eid)" "body msg"]
    by (auto simp: resp_inner_raw_msg_to_msg_def message_split_def)
  have "resp_step bo (RecvAck eid msg) False p ctx (p, resp_inner_on_recv_ack_malformed ctx)"
    using assms(1) by (intro machine_step_quiet) (auto simp: resp_inner_on_recv_ack_malformed_def context_call_defs
      intro!: emits_intros)
  then show ?thesis
    by (cases r) (auto simp: resp_on_recv_ack_def r intro!: resp_apply_step [OF s(1)] resp_on_recv_ack_moves [OF s(2)])
qed

lemma resp_device_step:
  assumes "resp_good p"
  shows "runs (resp_on_device_plugged p ctx) (resp_step bo DevicePlugged due p ctx)"
proof -
  obtain s where s: "resp_state p = Some s" "resp_ok (resp_inner p) s"
    using assms(1) by (auto simp: resp_good_def)
  have "resp_ok ((resp_inner p)\<lparr>resp_is_device_item := True\<rparr>) s"
    using s(2) by (cases s) (auto simp: resp_ok_def resp_inner_ok_def)
  then show ?thesis
    using s(1) by (auto simp: resp_on_device_plugged_def machine_step_def resp_good_def resp_pipes_of_def added_def
      resp_sending_def resp_receiving_def)
qed

lemma resp_on_recv_ready_step:
  assumes "resp_good p" and "eid \<in> dom (resp_pipes_of p)"
  shows "runs (resp_on_recv_ready p ctx eid) (resp_step bo (RecvReady eid) due p ctx)"
proof -
  obtain s where s: "resp_state p = Some s" "resp_ok (resp_inner p) s"
    using assms(1) by (auto simp: resp_good_def)
  show ?thesis
  proof (cases "\<exists>t. s = RespRecvOnHold t")
    case True
    then obtain t where "s = RespRecvOnHold t" by blast
    from resp_on_recv_ready_moves(1) [OF s(2) this] show ?thesis
      by (auto simp: resp_on_recv_ready_def intro!: resp_apply_step [OF s(1)])
  next
    case False
    then have "runs (resp_st_on_recv_ready s ctx (resp_inner p) eid)
        (\<lambda>r. resp_moves due 0 s (raise_evt ctx (CanRecv True)) (resp_inner p) r \<and>
          (case r of (s', _, i') \<Rightarrow> resp_st_is_recv_ready s' i'))"
      using assms(2) by (intro resp_on_recv_ready_moves(2) [OF s(2)]) (auto simp: resp_pipes_of_def)
    then show ?thesis
      unfolding resp_on_recv_ready_def resp_good_alt
      by (intro resp_m.apply_step_raised [where s = s and t = "\<lambda>s ctx inner. resp_st_on_recv_ready s ctx inner eid"])
         (simp_all add: s(1))
  qed
qed

lemma resp_step_ok:
  assumes "resp_good p" and "legal resp_pipes_of resp_admits p cmd"
  shows "runs (proto_step (resp_ops bo) cmd p ctx)
    (resp_step bo cmd (in_turn resp_sending resp_receiving p cmd \<and> resp_clean bo p cmd) p ctx)"
proof -
  obtain s where s: "resp_state p = Some s" "resp_ok (resp_inner p) s"
    using assms(1) by (auto simp: resp_good_def)
  have inner: "resp_inner_ok (resp_inner p)" using s(2) by (simp add: resp_ok_def)
  have flags: "resp_sending p = resp_st_sending s" "resp_receiving p = resp_st_receiving s"
    by (simp_all add: s(1) resp_sending_def resp_receiving_def)
  note step = resp_apply_step [OF s(1)]
  note moves = resp_st_recv_moves [OF inner] resp_on_timeout_moves [OF s(2)] resp_on_send_ready_moves [OF s(2)]
    resp_on_send_not_ready_moves [OF s(2)] resp_on_recv_not_ready_moves [OF s(2)]
  show ?thesis
  proof (cases cmd)
    case (RemovePipe eid)
    then show ?thesis using assms resp_remove_step [OF assms(1), of eid ctx bo True] by (auto elim!: runs_mono)
  next
    case (RecvAck eid msg)
    then show ?thesis using resp_on_recv_ack_step [OF assms(1), of bo ctx eid msg] by simp
  next
    case (SendMsg msg t)
    then show ?thesis using resp_send_step [OF assms(1), of "\<not> resp_sending p \<and> \<not> resp_receiving p"] by simp
  next
    case (RecvReady eid)
    then show ?thesis using assms resp_on_recv_ready_step by simp
  qed (use assms in \<open>auto simp: resp_method_defs default_method_defs flags resp_busy_def resp_pipes_of_def
         intro!: step moves resp_add_step resp_on_send_ack_step resp_device_step machine_step_idle\<close>)
qed

interpretation resp_p: answering_protocol "resp_ops bo" resp_good resp_pipes_of resp_admits resp_sending resp_receiving "resp_clean bo"
  for bo
proof
  fix p :: resp and cmd ctx eid
  note step = machine_step_contract [where sending = resp_sending and receiving = resp_receiving]
  show "runs (proto_step (resp_ops bo) cmd p ctx) (\<lambda>(p', ctx'). step_ok (resp_ops bo) resp_good resp_pipes_of cmd p ctx p' ctx')"
    if "resp_good p" "legal resp_pipes_of resp_admits p cmd"
    by (rule step(1) [OF resp_step_ok [OF that]])
  show "runs (proto_step (resp_ops bo) cmd p ctx) (\<lambda>(p', ctx').
      count_replies (trace ctx') + outstanding resp_sending resp_receiving p' =
      count_replies (trace ctx) + outstanding resp_sending resp_receiving p + of_bool (is_request cmd))"
    if "resp_good p" "legal resp_pipes_of resp_admits p cmd" "in_turn resp_sending resp_receiving p cmd" "resp_clean bo p cmd"
    by (rule step(2) [OF resp_step_ok [OF that(1,2)]]) (use that(3,4) in simp)
  show "runs (op_remove_pipe (resp_ops bo) p ctx eid) (\<lambda>(r, _). r = resp_pipes_of p eid)"
    if "resp_good p" "resp_admits p (RemovePipe eid)"
    using resp_remove_step [OF that(1), of eid ctx bo True] that(2) by (auto elim!: runs_mono)
  show "pipes_ok (resp_pipes_of p)" if "resp_good p"
    using that by (auto simp: resp_good_def resp_ok_def resp_inner_ok_def resp_pipes_of_def)
  then show "\<exists>p' es. op_close (resp_ops bo) p ctx = (p', ctx\<lparr>trace := trace ctx @ map (\<lambda>eid. NetClose eid True) es\<rparr>) \<and>
      set es = dom (resp_pipes_of p) \<and> distinct es \<and> resp_pipes_of p' = Map.empty"
    if "resp_good p" "enumerates (hash_order (env ctx))"
    using that pipes_close_all_law [of "resp_pipes_of p" ctx]
    by (auto simp: resp_close_def resp_inner_close_def resp_pipes_of_def)
qed

end
