(* ===== verification/Proto_Req.thy ===== *)
theory Proto_Req
  imports Protocol_Machine
begin

text \<open>
  The requester of the request/reply protocol, \<open>src/proto/req.rs\<close>: a request is load
  balanced with a fresh identifier and resent when no reply was asked for in time; a
  reply is only accepted from the pipe the request went to and with its identifier.
  Plugged into a device, messages pass with their header unchanged.
\<close>

section \<open>Data\<close>

record pending_request =
  pr_req :: message
  pr_retry_timeout :: timeout

datatype req_state =
    ReqIdle
  | ReqSending endpoint_id message timeout bool
  | ReqSendOnHold message timeout bool
  | ReqActive endpoint_id pending_request
  | ReqReceiving endpoint_id "pending_request option" timeout
  | ReqRecvOnHold "endpoint_id option" "pending_request option" timeout

record req_inner =
  req_pipes :: pipe_collection
  req_lb :: priolist
  req_fq :: priolist
  req_rv :: "endpoint_id set"
  req_req_id_seq :: u32
  req_is_device_item :: bool
  req_resend_ivl :: duration

record req =
  req_inner :: req_inner
  req_state :: "req_state option"

text \<open>The argument is the current time's nanoseconds, \<open>time::get_time().nsec\<close>.\<close>

definition req_inner_new :: "u32 \<Rightarrow> req_inner" where
  "req_inner_new nsec = \<lparr>req_pipes = pipes_new, req_lb = priolist_new, req_fq = priolist_new, req_rv = {},
     req_req_id_seq = nsec, req_is_device_item = False, req_resend_ivl = from_secs 60\<rparr>"

definition req_from :: "u32 \<Rightarrow> req" where
  "req_from nsec = \<lparr>req_inner = req_inner_new nsec, req_state = Some ReqIdle\<rparr>"

section \<open>Codec\<close>

definition req_encode :: "byteorder \<Rightarrow> message \<Rightarrow> u32 \<Rightarrow> message" where
  "req_encode bo msg req_id = msg\<lparr>header := header msg @ write_u32 bo req_id\<rparr>"

definition req_decode :: "byteorder \<Rightarrow> message \<Rightarrow> (message \<times> u32) option" where
  "req_decode bo raw_msg =
     (if length (get_body raw_msg) < 4 then None
      else (let (hdr, payload) = message_split raw_msg;
                bdy = drop 4 payload;
                payload' = take 4 payload;
                req_id = read_u32 bo payload';
                hdr' = (if hdr = [] then payload' else hdr @ payload')
            in Some (from_header_and_body hdr' bdy, req_id)))"

section \<open>Inner\<close>

definition req_inner_add_pipe :: "req_inner \<Rightarrow> endpoint_id \<Rightarrow> pipe \<Rightarrow> req_inner" where
  "req_inner_add_pipe inner eid pipe =
     inner\<lparr>req_lb := priolist_insert (req_lb inner) eid (pipe_get_send_priority pipe),
           req_fq := priolist_insert (req_fq inner) eid (pipe_get_recv_priority pipe),
           req_pipes := snd (pipes_insert (req_pipes inner) eid pipe)\<rparr>"

definition req_inner_remove_pipe :: "req_inner \<Rightarrow> endpoint_id \<Rightarrow> (pipe option \<times> req_inner) option" where
  "req_inner_remove_pipe inner eid = do {
     lb \<leftarrow> priolist_remove (req_lb inner) eid;
     fq \<leftarrow> priolist_remove (req_fq inner) eid;
     let rv = req_rv inner - {eid};
     let (pipe, pipes) = pipes_remove (req_pipes inner) eid;
     Some (pipe, inner\<lparr>req_lb := lb, req_fq := fq, req_rv := rv, req_pipes := pipes\<rparr>) }"

definition req_inner_send :: "req_inner \<Rightarrow> ctx \<Rightarrow> message \<Rightarrow> (endpoint_id option \<times> ctx \<times> req_inner) option" where
  "req_inner_send inner ctx msg = do {
     (r, lb, ctx') \<leftarrow> load_balancing_send (req_lb inner) (req_pipes inner) ctx msg;
     Some (r, ctx', inner\<lparr>req_lb := lb\<rparr>) }"

definition req_inner_on_send_ready :: "req_inner \<Rightarrow> endpoint_id \<Rightarrow> req_inner option" where
  "req_inner_on_send_ready inner eid = do {
     lb \<leftarrow> activate (req_lb inner) eid;
     Some (inner\<lparr>req_lb := lb\<rparr>) }"

definition req_inner_on_send_not_ready :: "req_inner \<Rightarrow> endpoint_id \<Rightarrow> req_inner option" where
  "req_inner_on_send_not_ready inner eid = do {
     lb \<leftarrow> deactivate (req_lb inner) eid;
     Some (inner\<lparr>req_lb := lb\<rparr>) }"

definition req_inner_on_send_ack :: "req_inner \<Rightarrow> ctx \<Rightarrow> timeout \<Rightarrow> bool \<Rightarrow> timeout \<times> ctx" where
  "req_inner_on_send_ack inner ctx timeout retry =
     (let ctx1 = (if \<not> retry then send_reply ctx ReplySend else ctx);
          ctx2 = cancel_opt ctx1 timeout
      in (if req_is_device_item inner then (None, ctx2)
          else (let (res, ctx3) = schedule ctx2 ReqResend (req_resend_ivl inner)
                in ((case res of Inr sched \<Rightarrow> Some sched | Inl _ \<Rightarrow> None), ctx3))))"

definition req_inner_on_send_timeout :: "ctx \<Rightarrow> ctx" where
  "req_inner_on_send_timeout ctx = send_reply ctx (ReplyErr (timedout_io_error ''Send timed out''))"

definition req_inner_is_send_ready :: "req_inner \<Rightarrow> bool" where
  "req_inner_is_send_ready inner = peek (req_lb inner)"

definition req_inner_cancel :: "ctx \<Rightarrow> pending_request \<Rightarrow> ctx" where
  "req_inner_cancel ctx p = cancel_opt ctx (pr_retry_timeout p)"

definition req_inner_recv :: "req_inner \<Rightarrow> ctx \<Rightarrow> (endpoint_id option \<times> ctx \<times> req_inner) option" where
  "req_inner_recv inner ctx = do {
     (r, fq, ctx') \<leftarrow> fair_queue_recv (req_fq inner) (req_pipes inner) ctx;
     Some (r, ctx', inner\<lparr>req_fq := fq\<rparr>) }"

definition req_inner_recv_reply_from :: "req_inner \<Rightarrow> ctx \<Rightarrow> endpoint_id \<Rightarrow> bool \<times> ctx \<times> req_inner" where
  "req_inner_recv_reply_from inner ctx eid =
     (let inner' = inner\<lparr>req_rv := req_rv inner - {eid}\<rparr>
      in (case pipes_get_mut (req_pipes inner) eid of
            Some pipe \<Rightarrow> (True, pipe_recv pipe ctx, inner')
          | None \<Rightarrow> (False, ctx, inner')))"

definition req_inner_recv_when_inactive :: "ctx \<Rightarrow> timeout \<Rightarrow> ctx" where
  "req_inner_recv_when_inactive ctx timeout =
     cancel_opt (send_reply ctx (ReplyErr (other_io_error ''Can't recv: no active request''))) timeout"

definition req_inner_on_recv_ack :: "ctx \<Rightarrow> timeout \<Rightarrow> message \<Rightarrow> timeout \<Rightarrow> ctx" where
  "req_inner_on_recv_ack ctx timeout msg retry_timeout =
     cancel_opt (cancel_opt (send_reply ctx (ReplyRecv msg)) timeout) retry_timeout"

definition req_inner_on_recv_timeout :: "ctx \<Rightarrow> timeout \<Rightarrow> ctx" where
  "req_inner_on_recv_timeout ctx retry_timeout =
     cancel_opt (send_reply ctx (ReplyErr (timedout_io_error ''Recv timed out''))) retry_timeout"

definition req_inner_on_recv_ack_malformed :: "ctx \<Rightarrow> ctx" where
  "req_inner_on_recv_ack_malformed ctx =
     send_reply ctx (ReplyErr (invalid_data_io_error ''Received reply without req id''))"

definition req_inner_on_recv_ready :: "req_inner \<Rightarrow> endpoint_id \<Rightarrow> req_inner option" where
  "req_inner_on_recv_ready inner eid = do {
     fq \<leftarrow> activate (req_fq inner) eid;
     Some (inner\<lparr>req_fq := fq, req_rv := insert eid (req_rv inner)\<rparr>) }"

definition req_inner_on_recv_not_ready :: "req_inner \<Rightarrow> endpoint_id \<Rightarrow> req_inner option" where
  "req_inner_on_recv_not_ready inner eid = do {
     fq \<leftarrow> deactivate (req_fq inner) eid;
     Some (inner\<lparr>req_fq := fq, req_rv := req_rv inner - {eid}\<rparr>) }"

definition req_inner_is_recv_ready_from :: "req_inner \<Rightarrow> endpoint_id \<Rightarrow> bool" where
  "req_inner_is_recv_ready_from inner eid \<longleftrightarrow> eid \<in> req_rv inner"

definition req_inner_is_recv_ready :: "req_inner \<Rightarrow> bool" where
  "req_inner_is_recv_ready inner = peek (req_fq inner)"

definition req_inner_cur_req_id :: "req_inner \<Rightarrow> u32" where
  "req_inner_cur_req_id inner = req_req_id_seq inner OR 0x80000000"

definition req_inner_next_req_id :: "req_inner \<Rightarrow> (u32 \<times> req_inner) option" where
  "req_inner_next_req_id inner = do {
     seq \<leftarrow> checked_add (req_req_id_seq inner) 1;
     Some (seq OR 0x80000000, inner\<lparr>req_req_id_seq := seq\<rparr>) }"

definition req_inner_msg_to_raw_msg :: "byteorder \<Rightarrow> req_inner \<Rightarrow> message \<Rightarrow> (message \<times> req_inner) option" where
  "req_inner_msg_to_raw_msg bo inner msg =
     (if req_is_device_item inner then Some (msg, inner)
      else do { (rid, inner') \<leftarrow> req_inner_next_req_id inner; Some (req_encode bo msg rid, inner') })"

definition req_inner_raw_msg_to_msg :: "byteorder \<Rightarrow> req_inner \<Rightarrow> message \<Rightarrow> (message \<times> u32) option" where
  "req_inner_raw_msg_to_msg bo inner raw_msg =
     (if req_is_device_item inner then
        map_option (\<lambda>(msg, _). (msg, req_inner_cur_req_id inner)) (req_decode bo raw_msg)
      else req_decode bo raw_msg)"

definition req_inner_set_resend_ivl :: "req_inner \<Rightarrow> duration \<Rightarrow> req_inner" where
  "req_inner_set_resend_ivl inner ivl = inner\<lparr>req_resend_ivl := ivl\<rparr>"

definition req_inner_close :: "req_inner \<Rightarrow> ctx \<Rightarrow> req_inner \<times> ctx" where
  "req_inner_close inner ctx =
     (let (pipes, ctx') = pipes_close_all (req_pipes inner) ctx in (inner\<lparr>req_pipes := pipes\<rparr>, ctx'))"

section \<open>State\<close>

type_synonym req_result = "(req_state \<times> ctx \<times> req_inner) option"

definition req_st_send :: "req_state \<Rightarrow> ctx \<Rightarrow> req_inner \<Rightarrow> message \<Rightarrow> timeout \<Rightarrow> bool \<Rightarrow> req_result" where
  "req_st_send s ctx inner msg timeout retry = do {
     let ctx1 = (case s of ReqActive _ p \<Rightarrow> req_inner_cancel ctx p | _ \<Rightarrow> ctx);
     (r, ctx', inner') \<leftarrow> req_inner_send inner ctx1 msg;
     (case r of
        Some eid \<Rightarrow> Some (ReqSending eid msg timeout retry, ctx', inner')
      | None \<Rightarrow> Some (ReqSendOnHold msg timeout retry, ctx', inner')) }"

definition req_st_recv_reply_for :: "req_state \<Rightarrow> ctx \<Rightarrow> req_inner \<Rightarrow> timeout \<Rightarrow> endpoint_id \<Rightarrow> pending_request \<Rightarrow> req_result" where
  "req_st_recv_reply_for s ctx inner timeout eid p =
     (let (started, ctx', inner') = req_inner_recv_reply_from inner ctx eid
      in (if started then Some (ReqReceiving eid (Some p) timeout, ctx', inner')
          else Some (ReqRecvOnHold (Some eid) (Some p) timeout, ctx', inner')))"

definition req_st_recv :: "req_state \<Rightarrow> ctx \<Rightarrow> req_inner \<Rightarrow> timeout \<Rightarrow> req_result" where
  "req_st_recv s ctx inner timeout =
     (if req_is_device_item inner then do {
        (r, ctx', inner') \<leftarrow> req_inner_recv inner ctx;
        (case r of
           None \<Rightarrow> Some (ReqRecvOnHold None None timeout, ctx', inner')
         | Some eid \<Rightarrow> Some (ReqReceiving eid None timeout, ctx', inner')) }
      else
        (case s of
           ReqActive eid p \<Rightarrow> req_st_recv_reply_for ReqIdle ctx inner timeout eid p
         | _ \<Rightarrow> Some (ReqIdle, req_inner_recv_when_inactive ctx timeout, inner)))"

definition req_st_on_pipe_removed :: "req_state \<Rightarrow> ctx \<Rightarrow> req_inner \<Rightarrow> endpoint_id \<Rightarrow> req_result" where
  "req_st_on_pipe_removed s ctx inner eid =
     (case s of
        ReqSending i msg timeout retry \<Rightarrow>
          if i = eid then req_st_send ReqIdle ctx inner msg timeout retry
          else Some (ReqSending i msg timeout retry, ctx, inner)
      | ReqReceiving i p timeout \<Rightarrow>
          if eid = i then req_st_recv ReqIdle ctx inner timeout
          else Some (ReqReceiving i p timeout, ctx, inner)
      | _ \<Rightarrow> Some (s, ctx, inner))"

definition req_st_on_send_ack :: "req_state \<Rightarrow> ctx \<Rightarrow> req_inner \<Rightarrow> endpoint_id \<Rightarrow> req_result" where
  "req_st_on_send_ack s ctx inner eid =
     (case s of
        ReqSending i msg timeout retry \<Rightarrow>
          if i \<noteq> eid then Some (ReqSending i msg timeout retry, ctx, inner)
          else
            (let (retry_timeout, ctx') = req_inner_on_send_ack inner ctx timeout retry
             in (if req_is_device_item inner then Some (ReqIdle, ctx', inner)
                 else Some (ReqActive eid \<lparr>pr_req = msg, pr_retry_timeout = retry_timeout\<rparr>, ctx', inner)))
      | _ \<Rightarrow> Some (s, ctx, inner))"

definition req_st_on_send_timeout :: "req_state \<Rightarrow> ctx \<Rightarrow> req_inner \<Rightarrow> req_result" where
  "req_st_on_send_timeout s ctx inner = Some (ReqIdle, req_inner_on_send_timeout ctx, inner)"

definition req_st_on_send_ready :: "req_state \<Rightarrow> ctx \<Rightarrow> req_inner \<Rightarrow> endpoint_id \<Rightarrow> req_result" where
  "req_st_on_send_ready s ctx inner eid = do {
     inner' \<leftarrow> req_inner_on_send_ready inner eid;
     (case s of
        ReqSendOnHold msg timeout retry \<Rightarrow> req_st_send ReqIdle ctx inner' msg timeout retry
      | _ \<Rightarrow> Some (s, ctx, inner')) }"

definition req_st_on_send_not_ready :: "req_state \<Rightarrow> ctx \<Rightarrow> req_inner \<Rightarrow> endpoint_id \<Rightarrow> req_result" where
  "req_st_on_send_not_ready s ctx inner eid = do {
     inner' \<leftarrow> req_inner_on_send_not_ready inner eid;
     Some (s, ctx, inner') }"

definition req_st_is_send_ready :: "req_state \<Rightarrow> req_inner \<Rightarrow> bool" where
  "req_st_is_send_ready s inner = req_inner_is_send_ready inner"

definition req_st_on_recv_ack :: "req_state \<Rightarrow> ctx \<Rightarrow> req_inner \<Rightarrow> endpoint_id \<Rightarrow> message \<Rightarrow> u32 \<Rightarrow> req_result" where
  "req_st_on_recv_ack s ctx inner eid msg req_id =
     (case s of
        ReqReceiving i None timeout \<Rightarrow>
          if eid = i then Some (ReqIdle, req_inner_on_recv_ack ctx timeout msg None, inner)
          else Some (ReqReceiving i None timeout, ctx, inner)
      | ReqReceiving i (Some p) timeout \<Rightarrow>
          if eid = i then
            (if req_inner_cur_req_id inner = req_id
             then Some (ReqIdle, req_inner_on_recv_ack ctx timeout msg (pr_retry_timeout p), inner)
             else req_st_recv_reply_for ReqIdle ctx inner timeout i p)
          else Some (ReqReceiving i (Some p) timeout, ctx, inner)
      | _ \<Rightarrow> Some (s, ctx, inner))"

definition req_st_on_recv_timeout :: "req_state \<Rightarrow> ctx \<Rightarrow> req_inner \<Rightarrow> req_result" where
  "req_st_on_recv_timeout s ctx inner =
     (let ctx' =
        (case s of
           ReqReceiving _ None _ \<Rightarrow> req_inner_on_recv_timeout ctx None
         | ReqRecvOnHold _ None _ \<Rightarrow> req_inner_on_recv_timeout ctx None
         | ReqReceiving _ (Some p) _ \<Rightarrow> req_inner_on_recv_timeout ctx (pr_retry_timeout p)
         | ReqRecvOnHold _ (Some p) _ \<Rightarrow> req_inner_on_recv_timeout ctx (pr_retry_timeout p)
         | _ \<Rightarrow> ctx)
      in Some (ReqIdle, ctx', inner))"

definition req_st_on_recv_ready :: "req_state \<Rightarrow> ctx \<Rightarrow> req_inner \<Rightarrow> endpoint_id \<Rightarrow> req_result" where
  "req_st_on_recv_ready s ctx inner eid = do {
     inner' \<leftarrow> req_inner_on_recv_ready inner eid;
     (case s of
        ReqRecvOnHold None None timeout \<Rightarrow> req_st_recv ReqIdle ctx inner' timeout
      | ReqRecvOnHold (Some i) (Some p) timeout \<Rightarrow>
          if eid = i then req_st_recv (ReqActive i p) ctx inner' timeout
          else Some (ReqRecvOnHold (Some i) (Some p) timeout, ctx, inner')
      | _ \<Rightarrow> Some (s, ctx, inner')) }"

definition req_st_on_recv_not_ready :: "req_state \<Rightarrow> ctx \<Rightarrow> req_inner \<Rightarrow> endpoint_id \<Rightarrow> req_result" where
  "req_st_on_recv_not_ready s ctx inner eid = do {
     inner' \<leftarrow> req_inner_on_recv_not_ready inner eid;
     Some (s, ctx, inner') }"

definition req_st_on_retry_timeout :: "req_state \<Rightarrow> ctx \<Rightarrow> req_inner \<Rightarrow> req_result" where
  "req_st_on_retry_timeout s ctx inner =
     (case s of
        ReqActive _ p \<Rightarrow> req_st_send ReqIdle ctx inner (pr_req p) None True
      | _ \<Rightarrow> Some (s, ctx, inner))"

definition req_st_is_recv_ready :: "req_state \<Rightarrow> req_inner \<Rightarrow> bool" where
  "req_st_is_recv_ready s inner =
     (if req_is_device_item inner then req_inner_is_recv_ready inner
      else (case s of ReqActive eid _ \<Rightarrow> req_inner_is_recv_ready_from inner eid | _ \<Rightarrow> False))"

section \<open>Protocol\<close>

definition req_is_send_ready :: "req \<Rightarrow> bool" where
  "req_is_send_ready p = (case req_state p of Some s \<Rightarrow> req_st_is_send_ready s (req_inner p) | None \<Rightarrow> False)"

definition req_is_recv_ready :: "req \<Rightarrow> bool" where
  "req_is_recv_ready p = (case req_state p of Some s \<Rightarrow> req_st_is_recv_ready s (req_inner p) | None \<Rightarrow> False)"

definition req_apply :: "req \<Rightarrow> ctx \<Rightarrow> (req_state \<Rightarrow> ctx \<Rightarrow> req_inner \<Rightarrow> req_result) \<Rightarrow> (req \<times> ctx) option" where
  "req_apply p ctx transition =
     (case req_state p of
        None \<Rightarrow> Some (p, ctx)
      | Some old_state \<Rightarrow> do {
          let was_send_ready = req_st_is_send_ready old_state (req_inner p);
          let was_recv_ready = req_st_is_recv_ready old_state (req_inner p);
          (new_state, ctx', inner') \<leftarrow> transition old_state ctx (req_inner p);
          let is_send_ready = req_st_is_send_ready new_state inner';
          let is_recv_ready = req_st_is_recv_ready new_state inner';
          let p' = p\<lparr>req_inner := inner', req_state := Some new_state\<rparr>;
          let ctx'' = check_send_ready_change ctx' was_send_ready is_send_ready;
          Some (p', check_recv_ready_change ctx'' was_recv_ready is_recv_ready) })"

definition req_add_pipe :: "req \<Rightarrow> ctx \<Rightarrow> endpoint_id \<Rightarrow> pipe \<Rightarrow> (req \<times> ctx) option" where
  "req_add_pipe p ctx eid pipe = Some (p\<lparr>req_inner := req_inner_add_pipe (req_inner p) eid pipe\<rparr>, ctx)"

definition req_remove_pipe :: "req \<Rightarrow> ctx \<Rightarrow> endpoint_id \<Rightarrow> (pipe option \<times> req \<times> ctx) option" where
  "req_remove_pipe p ctx eid = do {
     let was_send_ready = req_is_send_ready p;
     let was_recv_ready = req_is_recv_ready p;
     (pipe, inner') \<leftarrow> req_inner_remove_pipe (req_inner p) eid;
     let p' = p\<lparr>req_inner := inner'\<rparr>;
     let is_send_ready = req_is_send_ready p';
     let is_recv_ready = req_is_recv_ready p';
     (p'', ctx') \<leftarrow>
       (case pipe of
          Some _ \<Rightarrow> req_apply p' ctx (\<lambda>s ctx inner. req_st_on_pipe_removed s ctx inner eid)
        | None \<Rightarrow> Some (p', ctx));
     let ctx'' = check_send_ready_change ctx' was_send_ready is_send_ready;
     Some (pipe, p'', check_recv_ready_change ctx'' was_recv_ready is_recv_ready) }"

definition req_send :: "byteorder \<Rightarrow> req \<Rightarrow> ctx \<Rightarrow> message \<Rightarrow> timeout \<Rightarrow> (req \<times> ctx) option" where
  "req_send bo p ctx msg timeout = do {
     (raw_msg, inner') \<leftarrow> req_inner_msg_to_raw_msg bo (req_inner p) msg;
     req_apply (p\<lparr>req_inner := inner'\<rparr>) ctx (\<lambda>s ctx inner. req_st_send s ctx inner raw_msg timeout False) }"

definition req_on_recv_ack :: "byteorder \<Rightarrow> req \<Rightarrow> ctx \<Rightarrow> endpoint_id \<Rightarrow> message \<Rightarrow> (req \<times> ctx) option" where
  "req_on_recv_ack bo p ctx eid raw_msg =
     (case req_inner_raw_msg_to_msg bo (req_inner p) raw_msg of
        Some (msg, req_id) \<Rightarrow>
          req_apply p ctx (\<lambda>s ctx inner. req_st_on_recv_ack s ctx inner eid msg req_id)
      | None \<Rightarrow> Some (p, req_inner_on_recv_ack_malformed ctx))"

definition req_on_send_ack :: "req \<Rightarrow> ctx \<Rightarrow> endpoint_id \<Rightarrow> (req \<times> ctx) option" where
  "req_on_send_ack p ctx eid = req_apply p ctx (\<lambda>s ctx inner. req_st_on_send_ack s ctx inner eid)"

definition req_on_send_timeout :: "req \<Rightarrow> ctx \<Rightarrow> (req \<times> ctx) option" where
  "req_on_send_timeout p ctx = req_apply p ctx req_st_on_send_timeout"

definition req_on_send_ready :: "req \<Rightarrow> ctx \<Rightarrow> endpoint_id \<Rightarrow> (req \<times> ctx) option" where
  "req_on_send_ready p ctx eid = req_apply p ctx (\<lambda>s ctx inner. req_st_on_send_ready s ctx inner eid)"

definition req_on_send_not_ready :: "req \<Rightarrow> ctx \<Rightarrow> endpoint_id \<Rightarrow> (req \<times> ctx) option" where
  "req_on_send_not_ready p ctx eid = req_apply p ctx (\<lambda>s ctx inner. req_st_on_send_not_ready s ctx inner eid)"

definition req_recv :: "req \<Rightarrow> ctx \<Rightarrow> timeout \<Rightarrow> (req \<times> ctx) option" where
  "req_recv p ctx timeout = req_apply p ctx (\<lambda>s ctx inner. req_st_recv s ctx inner timeout)"

definition req_on_recv_timeout :: "req \<Rightarrow> ctx \<Rightarrow> (req \<times> ctx) option" where
  "req_on_recv_timeout p ctx = req_apply p ctx req_st_on_recv_timeout"

definition req_on_recv_ready :: "req \<Rightarrow> ctx \<Rightarrow> endpoint_id \<Rightarrow> (req \<times> ctx) option" where
  "req_on_recv_ready p ctx eid = req_apply p ctx (\<lambda>s ctx inner. req_st_on_recv_ready s ctx inner eid)"

definition req_on_recv_not_ready :: "req \<Rightarrow> ctx \<Rightarrow> endpoint_id \<Rightarrow> (req \<times> ctx) option" where
  "req_on_recv_not_ready p ctx eid = req_apply p ctx (\<lambda>s ctx inner. req_st_on_recv_not_ready s ctx inner eid)"

fun req_set_option :: "req \<Rightarrow> config_option \<Rightarrow> (io_error + unit) \<times> req" where
  "req_set_option p (ReqResendIvl ivl) =
     (Inr (), p\<lparr>req_inner := req_inner_set_resend_ivl (req_inner p) ivl\<rparr>)"
| "req_set_option p _ = (Inl (invalid_input_io_error ''option not supported''), p)"

definition req_on_timer_tick :: "req \<Rightarrow> ctx \<Rightarrow> schedulable \<Rightarrow> (req \<times> ctx) option" where
  "req_on_timer_tick p ctx task =
     (case task of ReqResend \<Rightarrow> req_apply p ctx req_st_on_retry_timeout | _ \<Rightarrow> Some (p, ctx))"

definition req_on_device_plugged :: "req \<Rightarrow> ctx \<Rightarrow> (req \<times> ctx) option" where
  "req_on_device_plugged p ctx = Some (p\<lparr>req_inner := (req_inner p)\<lparr>req_is_device_item := True\<rparr>\<rparr>, ctx)"

definition req_close :: "req \<Rightarrow> ctx \<Rightarrow> req \<times> ctx" where
  "req_close p ctx = (let (inner, ctx') = req_inner_close (req_inner p) ctx in (p\<lparr>req_inner := inner\<rparr>, ctx'))"

definition req_ops :: "byteorder \<Rightarrow> req protocol_ops" where
  "req_ops bo = \<lparr>
     op_id = \<lambda>_. REQ_ID, op_peer_id = \<lambda>_. REP_ID, op_add_pipe = req_add_pipe,
     op_remove_pipe = req_remove_pipe, op_send = req_send bo, op_on_send_ack = req_on_send_ack,
     op_on_send_timeout = req_on_send_timeout, op_on_send_ready = req_on_send_ready,
     op_on_send_not_ready = req_on_send_not_ready, op_recv = req_recv,
     op_on_recv_ack = req_on_recv_ack bo, op_on_recv_timeout = req_on_recv_timeout,
     op_on_recv_ready = req_on_recv_ready, op_on_recv_not_ready = req_on_recv_not_ready,
     op_is_send_ready = req_is_send_ready, op_is_recv_ready = req_is_recv_ready,
     op_set_option = req_set_option, op_on_timer_tick = req_on_timer_tick,
     op_on_device_plugged = req_on_device_plugged, op_close = req_close\<rparr>"

lemma req_ops_simps [simp]:
  "op_id (req_ops bo) = (\<lambda>_. REQ_ID)"
  "op_peer_id (req_ops bo) = (\<lambda>_. REP_ID)"
  "op_add_pipe (req_ops bo) = req_add_pipe"
  "op_remove_pipe (req_ops bo) = req_remove_pipe"
  "op_send (req_ops bo) = req_send bo"
  "op_on_send_ack (req_ops bo) = req_on_send_ack"
  "op_on_send_timeout (req_ops bo) = req_on_send_timeout"
  "op_on_send_ready (req_ops bo) = req_on_send_ready"
  "op_on_send_not_ready (req_ops bo) = req_on_send_not_ready"
  "op_recv (req_ops bo) = req_recv"
  "op_on_recv_ack (req_ops bo) = req_on_recv_ack bo"
  "op_on_recv_timeout (req_ops bo) = req_on_recv_timeout"
  "op_on_recv_ready (req_ops bo) = req_on_recv_ready"
  "op_on_recv_not_ready (req_ops bo) = req_on_recv_not_ready"
  "op_is_send_ready (req_ops bo) = req_is_send_ready"
  "op_is_recv_ready (req_ops bo) = req_is_recv_ready"
  "op_set_option (req_ops bo) = req_set_option"
  "op_on_timer_tick (req_ops bo) = req_on_timer_tick"
  "op_on_device_plugged (req_ops bo) = req_on_device_plugged"
  "op_close (req_ops bo) = req_close"
  by (simp_all add: req_ops_def)

lemmas req_inner_defs = req_inner_add_pipe_def req_inner_remove_pipe_def req_inner_send_def
  req_inner_on_send_ready_def req_inner_on_send_not_ready_def req_inner_on_send_ack_def
  req_inner_on_send_timeout_def req_inner_is_send_ready_def req_inner_cancel_def
  req_inner_recv_def req_inner_recv_reply_from_def req_inner_recv_when_inactive_def
  req_inner_on_recv_ack_def req_inner_on_recv_timeout_def req_inner_on_recv_ack_malformed_def
  req_inner_on_recv_ready_def req_inner_on_recv_not_ready_def req_inner_is_recv_ready_from_def
  req_inner_is_recv_ready_def req_inner_cur_req_id_def req_inner_next_req_id_def
  req_inner_set_resend_ivl_def req_inner_close_def

lemmas req_st_defs = req_st_send_def req_st_recv_reply_for_def req_st_recv_def
  req_st_on_pipe_removed_def req_st_on_send_ack_def req_st_on_send_timeout_def
  req_st_on_send_ready_def req_st_on_send_not_ready_def req_st_on_recv_ack_def
  req_st_on_recv_timeout_def req_st_on_recv_ready_def req_st_on_recv_not_ready_def
  req_st_on_retry_timeout_def

lemmas req_method_defs = req_on_send_ack_def req_on_send_timeout_def req_on_send_ready_def
  req_on_send_not_ready_def req_recv_def req_on_recv_timeout_def req_on_recv_ready_def
  req_on_recv_not_ready_def

section \<open>Invariant\<close>

definition req_inner_ok :: "req_inner \<Rightarrow> bool" where
  "req_inner_ok inner \<longleftrightarrow> pipes_ok (req_pipes inner) \<and>
     invar (req_lb inner) \<and> ids (req_lb inner) = dom (req_pipes inner) \<and>
     invar (req_fq inner) \<and> ids (req_fq inner) = dom (req_pipes inner) \<and> req_rv inner \<subseteq> dom (req_pipes inner)"

fun req_state_ok :: "req_inner \<Rightarrow> req_state \<Rightarrow> bool" where
  "req_state_ok inner (ReqSending eid _ _ _) \<longleftrightarrow> eid \<in> dom (req_pipes inner)"
| "req_state_ok inner (ReqSendOnHold _ _ _) \<longleftrightarrow> ready (req_lb inner) = {}"
| "req_state_ok inner (ReqReceiving eid p _) \<longleftrightarrow>
     eid \<in> dom (req_pipes inner) \<and> (p = None \<longrightarrow> req_is_device_item inner)"
| "req_state_ok inner (ReqRecvOnHold i p _) \<longleftrightarrow>
     (i = None \<longleftrightarrow> p = None) \<and> (p = None \<longrightarrow> ready (req_fq inner) = {} \<and> req_is_device_item inner)"
| "req_state_ok inner _ \<longleftrightarrow> True"

definition req_ok :: "req_inner \<Rightarrow> req_state \<Rightarrow> bool" where
  "req_ok inner s \<longleftrightarrow> req_inner_ok inner \<and> req_state_ok inner s"

definition req_good :: "req \<Rightarrow> bool" where
  "req_good p \<longleftrightarrow> (\<exists>s. req_state p = Some s \<and> req_ok (req_inner p) s)"

definition req_pipes_of :: "req \<Rightarrow> pipe_collection" where
  "req_pipes_of p = req_pipes (req_inner p)"

text \<open>Besides removable pipes, a request needs an identifier the sequence still has.\<close>

fun req_admits :: "req \<Rightarrow> proto_cmd \<Rightarrow> bool" where
  "req_admits p (RemovePipe eid) \<longleftrightarrow> removable (req_lb (req_inner p)) eid \<and> removable (req_fq (req_inner p)) eid"
| "req_admits p (SendMsg _ _) \<longleftrightarrow>
     req_is_device_item (req_inner p) \<or> checked_add (req_req_id_seq (req_inner p)) 1 \<noteq> None"
| "req_admits p _ \<longleftrightarrow> True"

fun req_clean :: "byteorder \<Rightarrow> req \<Rightarrow> proto_cmd \<Rightarrow> bool" where
  "req_clean bo p (RecvAck eid msg) \<longleftrightarrow> req_inner_raw_msg_to_msg bo (req_inner p) msg \<noteq> None"
| "req_clean bo p _ \<longleftrightarrow> True"

text \<open>A resend is not a request of the user: nobody waits for its outcome.\<close>

fun req_st_sending :: "req_state \<Rightarrow> bool" where
  "req_st_sending (ReqSending _ _ _ retry) \<longleftrightarrow> \<not> retry"
| "req_st_sending (ReqSendOnHold _ _ retry) \<longleftrightarrow> \<not> retry"
| "req_st_sending _ \<longleftrightarrow> False"

fun req_st_receiving :: "req_state \<Rightarrow> bool" where
  "req_st_receiving (ReqReceiving _ _ _) \<longleftrightarrow> True"
| "req_st_receiving (ReqRecvOnHold _ _ _) \<longleftrightarrow> True"
| "req_st_receiving _ \<longleftrightarrow> False"

definition req_busy :: "req_state \<Rightarrow> bool" where
  "req_busy s \<longleftrightarrow> req_st_sending s \<or> req_st_receiving s"

definition req_sending :: "req \<Rightarrow> bool" where
  "req_sending p \<longleftrightarrow> in_state req_st_sending (req_state p)"

definition req_receiving :: "req \<Rightarrow> bool" where
  "req_receiving p \<longleftrightarrow> in_state req_st_receiving (req_state p)"

abbreviation req_moves :: "bool \<Rightarrow> nat \<Rightarrow> req_state \<Rightarrow> ctx \<Rightarrow> req_inner \<Rightarrow> req_state \<times> ctx \<times> req_inner \<Rightarrow> bool" where
  "req_moves \<equiv> moves req_ok req_pipes req_busy"

abbreviation req_step :: "byteorder \<Rightarrow> proto_cmd \<Rightarrow> bool \<Rightarrow> req \<Rightarrow> ctx \<Rightarrow> req \<times> ctx \<Rightarrow> bool" where
  "req_step bo \<equiv> machine_step (req_ops bo) req_good req_pipes_of (\<lambda>p. req_sending p \<or> req_receiving p)"

interpretation req_m: machine "req_ops bo" req_apply req_inner req_state
  "\<lambda>p i s. p\<lparr>req_inner := i, req_state := Some s\<rparr>" req_st_is_send_ready req_st_is_recv_ready
  for bo
  by unfold_locales (simp_all add: req_apply_def req_is_send_ready_def req_is_recv_ready_def Let_def)

section \<open>What the transitions do\<close>

lemmas req_unfold = req_st_defs req_inner_defs req_ok_def req_inner_ok_def req_busy_def moves_def context_call_defs

lemma req_send_moves:
  assumes "req_inner_ok inner" and "due \<Longrightarrow> k + of_bool (req_busy s) = of_bool (\<not> retry)"
  shows "runs (req_st_send s' ctx inner msg t retry) (req_moves due k s ctx inner)"
proof -
  define ctx1 where "ctx1 = (case s' of ReqActive _ p \<Rightarrow> req_inner_cancel ctx p | _ \<Rightarrow> ctx)"
  have "emits (quiet_on (dom (req_pipes inner))) ctx ctx1" "count_replies (trace ctx1) = count_replies (trace ctx)"
    by (auto simp: ctx1_def req_inner_cancel_def context_call_defs intro!: emits_intros split: req_state.splits option.splits)
  then show ?thesis
    using assms unfolding req_st_send_def ctx1_def [symmetric] Let_def req_inner_send_def
    by (auto simp: req_inner_ok_def req_ok_def moves_def req_busy_def intro!: load_balancing_send_runs emits_intros)
qed

lemma req_recv_reply_for_moves:
  assumes "req_inner_ok inner" and "due \<Longrightarrow> k = of_bool (\<not> req_busy s)"
  shows "runs (req_st_recv_reply_for s' ctx inner t eid p) (req_moves due k s ctx inner)"
  using assms pipes_ok_id [of "req_pipes inner" eid]
  by (auto simp: req_st_recv_reply_for_def req_inner_recv_reply_from_def pipes_get_mut_def req_ok_def req_inner_ok_def
      req_busy_def moves_def pipe_recv_emit Let_def intro!: emits_intros split: option.splits)

lemma req_st_recv_moves:
  assumes "req_inner_ok inner" and "due \<Longrightarrow> k = of_bool (\<not> req_busy s)"
  shows "runs (req_st_recv s' ctx inner t) (req_moves due k s ctx inner)"
proof -
  have "req_moves due k s ctx inner (ReqIdle, req_inner_recv_when_inactive ctx t, inner)"
    using assms by (auto simp: req_inner_recv_when_inactive_def moves_def req_ok_def req_busy_def context_call_defs
      intro!: emits_intros split: option.splits)
  moreover have "req_is_device_item inner \<Longrightarrow> ?thesis"
    using assms by (auto simp: req_st_recv_def req_inner_recv_def req_inner_ok_def req_ok_def req_busy_def moves_def
      intro!: fair_queue_recv_runs emits_intros)
  ultimately show ?thesis
    using req_recv_reply_for_moves [OF assms] by (auto simp: req_st_recv_def split: req_state.splits)
qed

lemma req_on_send_ack_moves:
  assumes "req_ok inner s"
  shows "runs (req_st_on_send_ack s ctx inner eid) (req_moves due 0 s ctx inner)"
  using assms
  by (cases s) (auto simp: req_st_on_send_ack_def req_inner_on_send_ack_def req_ok_def req_busy_def moves_def
      context_call_defs Let_def intro!: emits_intros split: option.splits)

lemma req_on_timeout_moves:
  assumes "req_ok inner s" and "due \<Longrightarrow> req_st_sending s"
  shows "runs (req_st_on_send_timeout s ctx inner) (req_moves due 0 s ctx inner)"
  using assms by (auto simp: req_st_on_send_timeout_def req_inner_on_send_timeout_def req_ok_def req_busy_def moves_def
      context_call_defs intro!: emits_intros)

lemma req_on_recv_timeout_moves:
  assumes "req_ok inner s" and "due \<Longrightarrow> req_st_receiving s"
  shows "runs (req_st_on_recv_timeout s ctx inner) (req_moves due 0 s ctx inner)"
  using assms by (cases s) (auto simp: req_st_on_recv_timeout_def req_inner_on_recv_timeout_def req_ok_def req_busy_def
      moves_def context_call_defs Let_def intro!: emits_intros split: option.splits)

lemma req_on_send_ready_moves:
  assumes "req_ok inner s"
  shows "runs (req_st_on_send_ready s ctx inner eid) (req_moves due 0 s ctx inner)"
proof -
  have send: "runs (req_st_send ReqIdle ctx i msg t retry) (req_moves due 0 s0 ctx inner)"
    if "req_inner_ok i" "req_busy s0 = (\<not> retry)" "req_pipes i = req_pipes inner" for s0 i msg t retry
    using that by (intro moves_from [of req_pipes i inner] req_send_moves) auto
  show ?thesis
    unfolding req_st_on_send_ready_def req_inner_on_send_ready_def runs_simps
    by (rule queue_runs(2))
       (use assms in \<open>auto simp: req_ok_def req_inner_ok_def req_busy_def moves_def intro!: send
          split: req_state.splits\<close>)
qed

lemma req_on_send_not_ready_moves:
  assumes "req_ok inner s"
  shows "runs (req_st_on_send_not_ready s ctx inner eid) (req_moves due 0 s ctx inner)"
  using assms by (cases s) (auto simp: req_st_on_send_not_ready_def req_inner_on_send_not_ready_def req_ok_def
      req_inner_ok_def moves_def intro!: queue_runs)

lemma req_on_recv_ack_moves:
  assumes "req_ok inner s"
  shows "runs (req_st_on_recv_ack s ctx inner eid msg rid) (req_moves due 0 s ctx inner)"
proof (cases "\<exists>p t. s = ReqReceiving eid (Some p) t \<and> req_inner_cur_req_id inner \<noteq> rid")
  case True
  then show ?thesis
    using assms by (auto simp: req_st_on_recv_ack_def req_ok_def req_busy_def intro!: req_recv_reply_for_moves)
next
  case False
  then show ?thesis
    using assms by (cases s) (auto simp: req_st_on_recv_ack_def req_inner_on_recv_ack_def moves_def req_ok_def req_busy_def
      context_call_defs intro!: emits_intros split: option.splits)
qed

lemma req_on_recv_ready_moves:
  assumes "req_ok inner s" and "eid \<in> dom (req_pipes inner)"
  shows "runs (req_st_on_recv_ready s ctx inner eid) (req_moves due 0 s ctx inner)"
proof -
  have recv: "runs (req_st_recv s' ctx i t) (req_moves due 0 s0 ctx inner)"
    if "req_inner_ok i" "req_busy s0" "req_pipes i = req_pipes inner" for s0 s' i t
    using that by (intro moves_from [of req_pipes i inner] req_st_recv_moves) auto
  show ?thesis
    unfolding req_st_on_recv_ready_def req_inner_on_recv_ready_def runs_simps
    by (rule queue_runs(2))
       (use assms in \<open>auto simp: req_ok_def req_inner_ok_def req_busy_def moves_def intro!: recv
          split: req_state.splits option.splits\<close>)
qed

lemma req_on_recv_not_ready_moves:
  assumes "req_ok inner s"
  shows "runs (req_st_on_recv_not_ready s ctx inner eid) (req_moves due 0 s ctx inner)"
  using assms by (cases s) (auto simp: req_st_on_recv_not_ready_def req_inner_on_recv_not_ready_def req_ok_def
      req_inner_ok_def moves_def intro!: queue_runs)

lemma req_on_retry_timeout_moves:
  assumes "req_ok inner s"
  shows "runs (req_st_on_retry_timeout s ctx inner) (req_moves due 0 s ctx inner)"
  using assms by (cases s) (auto simp: req_st_on_retry_timeout_def req_ok_def req_busy_def moves_def [of _ _ _ _ _ "ReqIdle"]
      moves_def [of _ _ _ _ _ "ReqSending _ _ _ _"] moves_def [of _ _ _ _ _ "ReqSendOnHold _ _ _"]
      moves_def [of _ _ _ _ _ "ReqReceiving _ _ _"] moves_def [of _ _ _ _ _ "ReqRecvOnHold _ _ _"] intro!: req_send_moves)

lemma req_on_pipe_removed_moves:
  assumes "req_inner_ok inner" and "req_state_ok old s" and "req_is_device_item inner = req_is_device_item old"
    and "dom (req_pipes old) - {eid} \<subseteq> dom (req_pipes inner)"
    and "ready (req_fq inner) \<subseteq> ready (req_fq old)" "ready (req_lb inner) \<subseteq> ready (req_lb old)"
  shows "runs (req_st_on_pipe_removed s ctx inner eid) (\<lambda>r. req_moves due 0 s ctx inner r \<and>
    (case r of (s', _, i') \<Rightarrow> (req_st_is_send_ready s' i' \<longrightarrow> req_st_is_send_ready s inner) \<and>
       (req_st_is_recv_ready s' i' \<longrightarrow> req_st_is_recv_ready s inner)))"
proof -
  have recv: ?thesis if s: "s = ReqReceiving eid p t" for p t
  proof -
    have "runs (req_st_recv ReqIdle ctx inner t) (req_moves due 0 s ctx inner)"
      using s by (intro req_st_recv_moves [OF assms(1)]) (simp add: req_busy_def)
    moreover have "runs (req_st_recv ReqIdle ctx inner t) (\<lambda>(s', _, i').
        (req_st_is_send_ready s' i' \<longrightarrow> req_st_is_send_ready s inner) \<and>
        (req_st_is_recv_ready s' i' \<longrightarrow> req_st_is_recv_ready s inner))"
      using assms(1) by (auto simp: req_st_recv_def req_inner_recv_def req_st_is_send_ready_def req_st_is_recv_ready_def
        req_inner_is_send_ready_def req_inner_is_recv_ready_def req_inner_ok_def prq.peek_law intro!: fair_queue_recv_runs)
    ultimately show ?thesis using s by (auto simp: req_st_on_pipe_removed_def dest: runs_conj)
  qed
  have send: ?thesis if s: "s = ReqSending eid msg t retry" for msg t retry
  proof -
    have "runs (req_st_send ReqIdle ctx inner msg t retry) (req_moves due 0 s ctx inner)"
      using s by (intro req_send_moves [OF assms(1)]) (simp add: req_busy_def)
    moreover have "runs (req_st_send ReqIdle ctx inner msg t retry) (\<lambda>(s', _, i').
        (req_st_is_send_ready s' i' \<longrightarrow> req_st_is_send_ready s inner) \<and>
        (req_st_is_recv_ready s' i' \<longrightarrow> req_st_is_recv_ready s inner))"
      using assms(1) by (auto simp: req_st_send_def req_inner_send_def req_st_is_send_ready_def req_st_is_recv_ready_def
        req_inner_is_send_ready_def req_inner_is_recv_ready_def req_inner_ok_def s prq.peek_law intro!: load_balancing_send_runs)
    ultimately show ?thesis using s by (auto simp: req_st_on_pipe_removed_def dest: runs_conj)
  qed
  have other: ?thesis if "\<forall>p t. s \<noteq> ReqReceiving eid p t" "\<forall>m t r. s \<noteq> ReqSending eid m t r"
    using that assms by (cases s) (auto simp: req_st_on_pipe_removed_def req_ok_def moves_def)
  show ?thesis using recv send other by blast
qed


section \<open>The contract\<close>

lemma req_good_alt: "req_good = (\<lambda>p. \<exists>s. req_state p = Some s \<and> req_ok (req_inner p) s)"
  "req_pipes_of = (\<lambda>p. req_pipes (req_inner p))"
  "(\<lambda>p. req_sending p \<or> req_receiving p) = (\<lambda>p. in_state req_busy (req_state p))"
  by (auto simp: fun_eq_iff req_good_def req_pipes_of_def req_sending_def req_receiving_def req_busy_def in_state_def
      split: option.splits)

lemma req_apply_step:
  assumes "req_state p = Some s"
    and "runs (t s ctx (req_inner p)) (req_moves due (of_bool (is_request cmd)) s ctx (req_inner p))"
    and "pipes_after cmd (req_pipes_of p) = req_pipes_of p"
  shows "runs (req_apply p ctx t) (req_step bo cmd due p ctx)"
  unfolding req_good_alt
  by (rule req_m.apply_step [where t = t and s = s and k = "of_bool (is_request cmd)"])
     (use assms in \<open>simp_all add: req_good_alt\<close>)

text \<open>Readiness only depends on the queues, the readable pipes and the device flag.\<close>

lemma req_ready_cong:
  assumes "req_state p' = req_state p" and "req_is_device_item (req_inner p') = req_is_device_item (req_inner p)"
    and "req_rv (req_inner p') = req_rv (req_inner p)" and "peek (req_fq (req_inner p')) = peek (req_fq (req_inner p))"
    and "peek (req_lb (req_inner p')) = peek (req_lb (req_inner p))"
  shows "req_is_send_ready p' = req_is_send_ready p" "req_is_recv_ready p' = req_is_recv_ready p"
  using assms by (auto simp: req_is_send_ready_def req_st_is_send_ready_def req_inner_is_send_ready_def
      req_inner_is_recv_ready_from_def req_is_recv_ready_def req_st_is_recv_ready_def req_inner_is_recv_ready_def
      split: option.splits req_state.splits)

lemma req_add_step:
  assumes "req_good p" and "eid \<notin> dom (req_pipes_of p)" and "good_pipe eid pipe"
  shows "runs (req_add_pipe p ctx eid pipe) (req_step bo (AddPipe eid pipe) due p ctx)"
proof -
  obtain s where s: "req_state p = Some s" "req_ok (req_inner p) s"
    using assms(1) by (auto simp: req_good_def)
  then have ok: "req_ok (req_inner_add_pipe (req_inner p) eid pipe) s"
    using assms(2,3) queue_insert_laws [of "req_fq (req_inner p)" eid "pipe_get_recv_priority pipe"]
      queue_insert_laws [of "req_lb (req_inner p)" eid "pipe_get_send_priority pipe"]
    by (cases s) (auto simp: req_ok_def req_inner_ok_def req_inner_add_pipe_def pipes_insert_def good_pipe_def req_pipes_of_def)
  let ?p = "p\<lparr>req_inner := req_inner_add_pipe (req_inner p) eid pipe\<rparr>"
  have "req_is_send_ready ?p = req_is_send_ready p" "req_is_recv_ready ?p = req_is_recv_ready p"
    by (rule req_ready_cong; simp add: req_inner_add_pipe_def)+
  with ok show ?thesis
    by (simp add: req_add_pipe_def req_good_alt s, intro machine_step_idle)
       (simp_all add: s req_inner_add_pipe_def pipes_insert_def)
qed

lemma req_remove_step:
  assumes "req_good p" and "removable (req_lb (req_inner p)) eid" and "removable (req_fq (req_inner p)) eid"
  shows "runs (req_remove_pipe p ctx eid)
    (\<lambda>(r, p', ctx'). r = req_pipes_of p eid \<and> req_step bo (RemovePipe eid) due p ctx (p', ctx'))"
proof -
  obtain s where s: "req_state p = Some s" "req_ok (req_inner p) s"
    using assms(1) by (auto simp: req_good_def)
  let ?lb = "req_lb (req_inner p)" and ?fq = "req_fq (req_inner p)" and ?ps = "req_pipes (req_inner p)" and ?rv = "req_rv (req_inner p)"
  show ?thesis
  proof (cases "?ps eid")
    case None
    then have same: "priolist_remove ?lb eid = Some ?lb" "priolist_remove ?fq eid = Some ?fq" "?ps(eid := None) = ?ps"
      "?rv - {eid} = ?rv"
      using s(2) by (auto simp: req_ok_def req_inner_ok_def intro: priolist_remove_absent)
    show ?thesis
      using assms(1) by (simp add: None same req_remove_pipe_def req_inner_remove_pipe_def pipes_remove_def
        req_pipes_of_def check_recv_ready_change_def check_send_ready_change_def machine_step_idle)
  next
    case (Some pipe)
    obtain lb where lb: "priolist_remove ?lb eid = Some lb" "invar lb" "ids lb = ids ?lb - {eid}" "ready lb = ready ?lb - {eid}"
      using prq.remove_law [of ?lb eid] assms(2) s(2) by (auto simp: req_ok_def req_inner_ok_def)
    obtain fq where fq: "priolist_remove ?fq eid = Some fq" "invar fq" "ids fq = ids ?fq - {eid}" "ready fq = ready ?fq - {eid}"
      using prq.remove_law [of ?fq eid] assms(3) s(2) by (auto simp: req_ok_def req_inner_ok_def)
    let ?i = "req_inner p\<lparr>req_lb := lb, req_fq := fq, req_rv := ?rv - {eid}, req_pipes := ?ps(eid := None)\<rparr>"
    have ok: "req_inner_ok ?i" using lb fq s(2) by (auto simp: req_ok_def req_inner_ok_def)
    have removed: "runs (req_st_on_pipe_removed s ctx ?i eid) (\<lambda>r. req_moves True 0 s ctx ?i r \<and>
        (case r of (s', _, i') \<Rightarrow> (req_st_is_send_ready s' i' \<longrightarrow> req_st_is_send_ready s ?i) \<and>
          (req_st_is_recv_ready s' i' \<longrightarrow> req_st_is_recv_ready s ?i)))"
      using s(2) lb(4) fq(4) by (intro req_on_pipe_removed_moves [OF ok, where old = "req_inner p"]) (auto simp: req_ok_def)
    have lost: "req_is_send_ready (p\<lparr>req_inner := ?i\<rparr>) \<Longrightarrow> req_is_send_ready p"
      "req_is_recv_ready (p\<lparr>req_inner := ?i\<rparr>) \<Longrightarrow> req_is_recv_ready p"
      using s lb(2,4) fq(2,4) by (auto simp: req_is_send_ready_def req_st_is_send_ready_def req_inner_is_send_ready_def
        req_inner_is_recv_ready_from_def req_is_recv_ready_def req_st_is_recv_ready_def req_inner_is_recv_ready_def
        req_ok_def req_inner_ok_def prq.peek_law split: req_state.splits if_splits)
    note step = req_m.remove_step_late [where s = s and p = p and ?p1.0 = "p\<lparr>req_inner := ?i\<rparr>" and pipes = req_pipes and bo = bo
      and t = "\<lambda>s ctx inner. req_st_on_pipe_removed s ctx inner eid" and ok = req_ok and busy = req_busy and due = due]
    have "runs (do { (p', ctx') \<leftarrow> req_apply (p\<lparr>req_inner := ?i\<rparr>) ctx (\<lambda>s ctx inner. req_st_on_pipe_removed s ctx inner eid);
        Some (p', check_recv_ready_change
          (check_send_ready_change ctx' (req_is_send_ready p) (req_is_send_ready (p\<lparr>req_inner := ?i\<rparr>)))
          (req_is_recv_ready p) (req_is_recv_ready (p\<lparr>req_inner := ?i\<rparr>))) })
        (req_step bo (RemovePipe eid) due p ctx)"
      unfolding req_good_alt
      by (rule step [unfolded req_ops_simps]) (use removed lost in \<open>simp_all add: s\<close>)
    then show ?thesis
      using lb(1) fq(1) Some by (auto simp: req_remove_pipe_def req_inner_remove_pipe_def pipes_remove_def
        req_pipes_of_def Let_def split_def elim!: runs_mono)
  qed
qed

lemma req_send_step:
  assumes "req_good p" and "req_admits p (SendMsg msg t)"
    and "due \<Longrightarrow> \<not> req_sending p \<and> \<not> req_receiving p"
  shows "runs (req_send bo p ctx msg t) (req_step bo (SendMsg msg t) due p ctx)"
proof -
  obtain s where s: "req_state p = Some s" "req_ok (req_inner p) s"
    using assms(1) by (auto simp: req_good_def)
  obtain raw seq where raw: "req_inner_msg_to_raw_msg bo (req_inner p) msg =
      Some (raw, (req_inner p)\<lparr>req_req_id_seq := seq\<rparr>)"
  proof (cases "req_is_device_item (req_inner p)")
    case True
    then show ?thesis
      by (intro that [of msg "req_req_id_seq (req_inner p)"]) (simp add: req_inner_msg_to_raw_msg_def)
  next
    case False
    then show ?thesis
      using assms(2) that by (auto simp: req_inner_msg_to_raw_msg_def req_inner_next_req_id_def)
  qed
  let ?p = "p\<lparr>req_inner := (req_inner p)\<lparr>req_req_id_seq := seq\<rparr>\<rparr>"
  have ok: "req_ok (req_inner ?p) s" using s(2) by (cases s) (auto simp: req_ok_def req_inner_ok_def)
  have idle: "due \<Longrightarrow> \<not> req_busy s" using assms(3) s(1) by (simp add: req_sending_def req_receiving_def req_busy_def)
  have inner: "req_inner_ok (req_inner ?p)" using ok by (simp add: req_ok_def)
  have "runs (req_apply ?p ctx (\<lambda>s ctx inner. req_st_send s ctx inner raw t False)) (req_step bo (SendMsg msg t) due ?p ctx)"
    using req_send_moves [OF inner, of due "Suc 0" s False] idle by (intro req_apply_step [where s = s]) (simp_all add: s)
  moreover have "req_is_send_ready ?p = req_is_send_ready p" "req_is_recv_ready ?p = req_is_recv_ready p"
    by (rule req_ready_cong; simp)+
  ultimately show ?thesis
    by (simp add: req_send_def raw) (elim runs_mono machine_step_base; simp add: req_pipes_of_def req_sending_def req_receiving_def)
qed

lemma req_on_recv_ack_step:
  assumes "req_good p"
  shows "runs (req_on_recv_ack bo p ctx eid msg) (req_step bo (RecvAck eid msg) (req_clean bo p (RecvAck eid msg)) p ctx)"
proof -
  obtain s where s: "req_state p = Some s" "req_ok (req_inner p) s"
    using assms(1) by (auto simp: req_good_def)
  have "req_step bo (RecvAck eid msg) False p ctx (p, req_inner_on_recv_ack_malformed ctx)"
    using assms(1) by (intro machine_step_quiet) (auto simp: req_inner_on_recv_ack_malformed_def context_call_defs
      intro!: emits_intros)
  then show ?thesis
    by (auto simp: req_on_recv_ack_def intro!: req_apply_step [OF s(1)] req_on_recv_ack_moves [OF s(2)] split: option.splits)
qed

lemma req_set_option_step:
  assumes "req_good p"
  shows "req_step bo (SetOption opt) due p ctx (snd (req_set_option p opt), ctx)"
proof -
  obtain s where s: "req_state p = Some s" "req_ok (req_inner p) s"
    using assms by (auto simp: req_good_def)
  have ok: "req_ok ((req_inner p)\<lparr>req_resend_ivl := d\<rparr>) s" for d
    using s(2) by (cases s) (auto simp: req_ok_def req_inner_ok_def)
  have ready: "req_is_send_ready (p\<lparr>req_inner := (req_inner p)\<lparr>req_resend_ivl := d\<rparr>\<rparr>) = req_is_send_ready p"
    "req_is_recv_ready (p\<lparr>req_inner := (req_inner p)\<lparr>req_resend_ivl := d\<rparr>\<rparr>) = req_is_recv_ready p" for d
    by (rule req_ready_cong; simp)+
  show ?thesis
    using assms s ok ready by (cases opt)
      (auto simp: req_good_def req_pipes_of_def req_sending_def req_receiving_def req_inner_set_resend_ivl_def
        intro!: machine_step_idle)
qed

lemma req_device_step:
  assumes "req_good p"
  shows "runs (req_on_device_plugged p ctx) (req_step bo DevicePlugged due p ctx)"
proof -
  obtain s where s: "req_state p = Some s" "req_ok (req_inner p) s"
    using assms(1) by (auto simp: req_good_def)
  have "req_ok ((req_inner p)\<lparr>req_is_device_item := True\<rparr>) s"
    using s(2) by (cases s) (auto simp: req_ok_def req_inner_ok_def)
  then show ?thesis
    using s(1) by (auto simp: req_on_device_plugged_def machine_step_def req_good_def req_pipes_of_def added_def
      req_sending_def req_receiving_def)
qed

lemma req_step_ok:
  assumes "req_good p" and "legal req_pipes_of req_admits p cmd"
  shows "runs (proto_step (req_ops bo) cmd p ctx)
    (req_step bo cmd (in_turn req_sending req_receiving p cmd \<and> req_clean bo p cmd) p ctx)"
proof -
  obtain s where s: "req_state p = Some s" "req_ok (req_inner p) s"
    using assms(1) by (auto simp: req_good_def)
  have inner: "req_inner_ok (req_inner p)" using s(2) by (simp add: req_ok_def)
  have flags: "req_sending p = req_st_sending s" "req_receiving p = req_st_receiving s"
    by (simp_all add: s(1) req_sending_def req_receiving_def)
  note step = req_apply_step [OF s(1)]
  note moves = req_st_recv_moves [OF inner] req_on_timeout_moves [OF s(2)] req_on_recv_timeout_moves [OF s(2)]
    req_on_send_ack_moves [OF s(2)] req_on_send_ready_moves [OF s(2)] req_on_send_not_ready_moves [OF s(2)]
    req_on_recv_ready_moves [OF s(2)] req_on_recv_not_ready_moves [OF s(2)] req_on_retry_timeout_moves [OF s(2)]
  show ?thesis
  proof (cases cmd)
    case (RemovePipe eid)
    then show ?thesis using assms req_remove_step [OF assms(1), of eid ctx bo True] by (auto elim!: runs_mono)
  next
    case (RecvAck eid msg)
    then show ?thesis using req_on_recv_ack_step [OF assms(1), of bo ctx eid msg] by simp
  next
    case (SendMsg msg t)
    then show ?thesis using assms req_send_step [OF assms(1), of msg t] by simp
  next
    case (SetOption opt)
    then show ?thesis using req_set_option_step [OF assms(1)] by simp
  next
    case (TimerTick task)
    then show ?thesis using assms(1)
      by (auto simp: req_on_timer_tick_def intro!: step moves machine_step_idle split: schedulable.splits)
  qed (use assms in \<open>auto simp: req_method_defs default_method_defs flags req_pipes_of_def req_busy_def
         intro!: step moves req_add_step req_device_step machine_step_idle\<close>)
qed

interpretation req_p: answering_protocol "req_ops bo" req_good req_pipes_of req_admits req_sending req_receiving "req_clean bo"
  for bo
proof
  fix p :: req and cmd ctx eid
  note step = machine_step_contract [where sending = req_sending and receiving = req_receiving]
  show "runs (proto_step (req_ops bo) cmd p ctx) (\<lambda>(p', ctx'). step_ok (req_ops bo) req_good req_pipes_of cmd p ctx p' ctx')"
    if "req_good p" "legal req_pipes_of req_admits p cmd"
    by (rule step(1) [OF req_step_ok [OF that]])
  show "runs (proto_step (req_ops bo) cmd p ctx) (\<lambda>(p', ctx').
      count_replies (trace ctx') + outstanding req_sending req_receiving p' =
      count_replies (trace ctx) + outstanding req_sending req_receiving p + of_bool (is_request cmd))"
    if "req_good p" "legal req_pipes_of req_admits p cmd"
      "in_turn req_sending req_receiving p cmd" "req_clean bo p cmd"
    by (rule step(2) [OF req_step_ok [OF that(1,2)]]) (use that(3,4) in simp)
  show "runs (op_remove_pipe (req_ops bo) p ctx eid) (\<lambda>(r, _). r = req_pipes_of p eid)"
    if "req_good p" "req_admits p (RemovePipe eid)"
    using req_remove_step [OF that(1), of eid ctx bo True] that(2) by (auto elim!: runs_mono)
  show "pipes_ok (req_pipes_of p)" if "req_good p"
    using that by (auto simp: req_good_def req_ok_def req_inner_ok_def req_pipes_of_def)
  then show "\<exists>p' es. op_close (req_ops bo) p ctx = (p', ctx\<lparr>trace := trace ctx @ map (\<lambda>eid. NetClose eid True) es\<rparr>) \<and>
      set es = dom (req_pipes_of p) \<and> distinct es \<and> req_pipes_of p' = Map.empty"
    if "req_good p" "enumerates (hash_order (env ctx))"
    using that pipes_close_all_law [of "req_pipes_of p" ctx]
    by (auto simp: req_close_def req_inner_close_def req_pipes_of_def)
qed

end
