(* ===== verification/Proto_Surv.thy ===== *)
theory Proto_Surv
  imports Protocol_Machine
begin

text \<open>
  The surveyor of the survey protocol, \<open>src/proto/surv.rs\<close>: a survey is broadcast with a
  fresh identifier, then responses carrying this identifier are received until the
  deadline. Plugged into a device, messages pass with their header unchanged.
\<close>

section \<open>Data\<close>

record pending_survey =
  ps_id :: u32
  ps_timeout :: timeout

datatype surv_state =
    SurvIdle
  | SurvActive pending_survey
  | SurvReceiving endpoint_id "pending_survey option" timeout
  | SurvRecvOnHold "pending_survey option" timeout

record surv_inner =
  surv_pipes :: pipe_collection
  surv_bc :: "endpoint_id set"
  surv_fq :: priolist
  surv_survey_id_seq :: u32
  surv_is_device_item :: bool
  surv_deadline :: duration

record surv =
  surv_inner :: surv_inner
  surv_state :: "surv_state option"

text \<open>The argument is the current time's nanoseconds, \<open>time::get_time().nsec\<close>.\<close>

definition surv_inner_new :: "u32 \<Rightarrow> surv_inner" where
  "surv_inner_new nsec = \<lparr>surv_pipes = pipes_new, surv_bc = {}, surv_fq = priolist_new,
     surv_survey_id_seq = nsec, surv_is_device_item = False, surv_deadline = from_secs 1\<rparr>"

definition surv_from :: "u32 \<Rightarrow> surv" where
  "surv_from nsec = \<lparr>surv_inner = surv_inner_new nsec, surv_state = Some SurvIdle\<rparr>"

section \<open>Codec\<close>

definition surv_encode :: "byteorder \<Rightarrow> message \<Rightarrow> u32 \<Rightarrow> message" where
  "surv_encode bo msg survey_id = msg\<lparr>header := header msg @ write_u32 bo survey_id\<rparr>"

definition surv_decode :: "byteorder \<Rightarrow> message \<Rightarrow> (message \<times> u32) option" where
  "surv_decode bo raw_msg =
     (if length (get_body raw_msg) < 4 then None
      else (let (hdr, payload) = message_split raw_msg;
                bdy = drop 4 payload;
                payload' = take 4 payload;
                survey_id = read_u32 bo payload';
                hdr' = (if hdr = [] then payload' else hdr @ payload')
            in Some (from_header_and_body hdr' bdy, survey_id)))"

section \<open>Inner\<close>

definition surv_inner_add_pipe :: "surv_inner \<Rightarrow> endpoint_id \<Rightarrow> pipe \<Rightarrow> surv_inner" where
  "surv_inner_add_pipe inner eid pipe =
     inner\<lparr>surv_fq := priolist_insert (surv_fq inner) eid (pipe_get_recv_priority pipe),
           surv_pipes := snd (pipes_insert (surv_pipes inner) eid pipe)\<rparr>"

definition surv_inner_remove_pipe :: "surv_inner \<Rightarrow> endpoint_id \<Rightarrow> (pipe option \<times> surv_inner) option" where
  "surv_inner_remove_pipe inner eid = do {
     let bc = surv_bc inner - {eid};
     fq \<leftarrow> priolist_remove (surv_fq inner) eid;
     let (pipe, pipes) = pipes_remove (surv_pipes inner) eid;
     Some (pipe, inner\<lparr>surv_bc := bc, surv_fq := fq, surv_pipes := pipes\<rparr>) }"

definition surv_inner_cur_survey_id :: "surv_inner \<Rightarrow> u32" where
  "surv_inner_cur_survey_id inner = surv_survey_id_seq inner OR 0x80000000"

definition surv_inner_next_survey_id :: "surv_inner \<Rightarrow> (u32 \<times> surv_inner) option" where
  "surv_inner_next_survey_id inner = do {
     seq \<leftarrow> checked_add (surv_survey_id_seq inner) 1;
     Some (seq OR 0x80000000, inner\<lparr>surv_survey_id_seq := seq\<rparr>) }"

definition surv_inner_send :: "surv_inner \<Rightarrow> ctx \<Rightarrow> message \<Rightarrow> timeout \<Rightarrow> pending_survey \<times> ctx \<times> surv_inner" where
  "surv_inner_send inner ctx msg timeout =
     (let (bc, ctx1) = send_to_all (surv_bc inner) (surv_pipes inner) ctx msg;
          ctx2 = cancel_opt (send_reply ctx1 ReplySend) timeout;
          (res, ctx3) = schedule ctx2 SurveyCancel (surv_deadline inner)
      in (\<lparr>ps_id = surv_inner_cur_survey_id inner,
           ps_timeout = (case res of Inr sched \<Rightarrow> Some sched | Inl _ \<Rightarrow> None)\<rparr>,
          ctx3, inner\<lparr>surv_bc := bc\<rparr>))"

definition surv_inner_on_send_ready :: "surv_inner \<Rightarrow> endpoint_id \<Rightarrow> surv_inner" where
  "surv_inner_on_send_ready inner eid = inner\<lparr>surv_bc := insert eid (surv_bc inner)\<rparr>"

definition surv_inner_on_send_not_ready :: "surv_inner \<Rightarrow> endpoint_id \<Rightarrow> surv_inner" where
  "surv_inner_on_send_not_ready inner eid = inner\<lparr>surv_bc := surv_bc inner - {eid}\<rparr>"

definition surv_inner_is_send_ready :: "surv_inner \<Rightarrow> bool" where
  "surv_inner_is_send_ready inner \<longleftrightarrow> surv_bc inner \<noteq> {}"

definition surv_inner_recv :: "surv_inner \<Rightarrow> ctx \<Rightarrow> (endpoint_id option \<times> ctx \<times> surv_inner) option" where
  "surv_inner_recv inner ctx = do {
     (r, fq, ctx') \<leftarrow> fair_queue_recv (surv_fq inner) (surv_pipes inner) ctx;
     Some (r, ctx', inner\<lparr>surv_fq := fq\<rparr>) }"

definition surv_inner_recv_when_inactive :: "ctx \<Rightarrow> timeout \<Rightarrow> ctx" where
  "surv_inner_recv_when_inactive ctx timeout =
     cancel_opt (send_reply ctx (ReplyErr (other_io_error ''Can't recv: no active survey''))) timeout"

definition surv_inner_on_recv_ready :: "surv_inner \<Rightarrow> endpoint_id \<Rightarrow> surv_inner option" where
  "surv_inner_on_recv_ready inner eid = do {
     fq \<leftarrow> activate (surv_fq inner) eid;
     Some (inner\<lparr>surv_fq := fq\<rparr>) }"

definition surv_inner_on_recv_not_ready :: "surv_inner \<Rightarrow> endpoint_id \<Rightarrow> surv_inner option" where
  "surv_inner_on_recv_not_ready inner eid = do {
     fq \<leftarrow> deactivate (surv_fq inner) eid;
     Some (inner\<lparr>surv_fq := fq\<rparr>) }"

definition surv_inner_is_recv_ready :: "surv_inner \<Rightarrow> bool" where
  "surv_inner_is_recv_ready inner = peek (surv_fq inner)"

definition surv_inner_on_recv_ack :: "ctx \<Rightarrow> timeout \<Rightarrow> message \<Rightarrow> ctx" where
  "surv_inner_on_recv_ack ctx timeout msg = cancel_opt (send_reply ctx (ReplyRecv msg)) timeout"

definition surv_inner_on_recv_timeout :: "ctx \<Rightarrow> ctx" where
  "surv_inner_on_recv_timeout ctx = send_reply ctx (ReplyErr (timedout_io_error ''Recv timed out''))"

definition surv_inner_on_recv_ack_malformed :: "ctx \<Rightarrow> ctx" where
  "surv_inner_on_recv_ack_malformed ctx =
     send_reply ctx (ReplyErr (invalid_data_io_error ''Received response without survey id''))"

definition surv_inner_cancel :: "ctx \<Rightarrow> pending_survey \<Rightarrow> ctx" where
  "surv_inner_cancel ctx p = cancel_opt ctx (ps_timeout p)"

definition surv_inner_msg_to_raw_msg :: "byteorder \<Rightarrow> surv_inner \<Rightarrow> message \<Rightarrow> (message \<times> surv_inner) option" where
  "surv_inner_msg_to_raw_msg bo inner msg =
     (if surv_is_device_item inner then Some (msg, inner)
      else do { (sid, inner') \<leftarrow> surv_inner_next_survey_id inner; Some (surv_encode bo msg sid, inner') })"

definition surv_inner_raw_msg_to_msg :: "byteorder \<Rightarrow> surv_inner \<Rightarrow> message \<Rightarrow> (message \<times> u32) option" where
  "surv_inner_raw_msg_to_msg bo inner raw_msg =
     (if surv_is_device_item inner then
        map_option (\<lambda>(msg, _). (msg, surv_inner_cur_survey_id inner)) (surv_decode bo raw_msg)
      else map_option (\<lambda>(msg, sid). (without_header msg, sid)) (surv_decode bo raw_msg))"

definition surv_inner_set_survey_deadline :: "surv_inner \<Rightarrow> duration \<Rightarrow> surv_inner" where
  "surv_inner_set_survey_deadline inner ivl = inner\<lparr>surv_deadline := ivl\<rparr>"

definition surv_inner_close :: "surv_inner \<Rightarrow> ctx \<Rightarrow> surv_inner \<times> ctx" where
  "surv_inner_close inner ctx =
     (let (pipes, ctx') = pipes_close_all (surv_pipes inner) ctx in (inner\<lparr>surv_pipes := pipes\<rparr>, ctx'))"

section \<open>State\<close>

type_synonym surv_result = "(surv_state \<times> ctx \<times> surv_inner) option"

definition surv_st_recv_reply_for :: "surv_state \<Rightarrow> ctx \<Rightarrow> surv_inner \<Rightarrow> timeout \<Rightarrow> pending_survey \<Rightarrow> surv_result" where
  "surv_st_recv_reply_for s ctx inner timeout p = do {
     (r, ctx', inner') \<leftarrow> surv_inner_recv inner ctx;
     (case r of
        Some eid \<Rightarrow> Some (SurvReceiving eid (Some p) timeout, ctx', inner')
      | None \<Rightarrow> Some (SurvRecvOnHold (Some p) timeout, ctx', inner')) }"

definition surv_st_recv :: "surv_state \<Rightarrow> ctx \<Rightarrow> surv_inner \<Rightarrow> timeout \<Rightarrow> surv_result" where
  "surv_st_recv s ctx inner timeout =
     (if surv_is_device_item inner then do {
        (r, ctx', inner') \<leftarrow> surv_inner_recv inner ctx;
        (case r of
           None \<Rightarrow> Some (SurvRecvOnHold None timeout, ctx', inner')
         | Some eid \<Rightarrow> Some (SurvReceiving eid None timeout, ctx', inner')) }
      else
        (case s of
           SurvActive p \<Rightarrow> surv_st_recv_reply_for SurvIdle ctx inner timeout p
         | _ \<Rightarrow> Some (SurvIdle, surv_inner_recv_when_inactive ctx timeout, inner)))"

definition surv_st_on_pipe_removed :: "surv_state \<Rightarrow> ctx \<Rightarrow> surv_inner \<Rightarrow> endpoint_id \<Rightarrow> surv_result" where
  "surv_st_on_pipe_removed s ctx inner eid =
     (case s of
        SurvReceiving i p timeout \<Rightarrow>
          if i = eid then surv_st_recv SurvIdle ctx inner timeout
          else Some (SurvReceiving i p timeout, ctx, inner)
      | _ \<Rightarrow> Some (s, ctx, inner))"

definition surv_st_send :: "surv_state \<Rightarrow> ctx \<Rightarrow> surv_inner \<Rightarrow> message \<Rightarrow> timeout \<Rightarrow> surv_result" where
  "surv_st_send s ctx inner msg timeout =
     (let ctx1 = (case s of SurvActive p \<Rightarrow> surv_inner_cancel ctx p | _ \<Rightarrow> ctx);
          (pending, ctx2, inner') = surv_inner_send inner ctx1 msg timeout
      in Some (SurvActive pending, ctx2, inner'))"

definition surv_st_on_send_ack :: "surv_state \<Rightarrow> ctx \<Rightarrow> surv_inner \<Rightarrow> endpoint_id \<Rightarrow> surv_result" where
  "surv_st_on_send_ack s ctx inner eid = Some (s, ctx, inner)"

definition surv_st_on_send_timeout :: "surv_state \<Rightarrow> ctx \<Rightarrow> surv_inner \<Rightarrow> surv_result" where
  "surv_st_on_send_timeout s ctx inner = Some (s, ctx, inner)"

definition surv_st_on_send_ready :: "surv_state \<Rightarrow> ctx \<Rightarrow> surv_inner \<Rightarrow> endpoint_id \<Rightarrow> surv_result" where
  "surv_st_on_send_ready s ctx inner eid = Some (s, ctx, surv_inner_on_send_ready inner eid)"

definition surv_st_on_send_not_ready :: "surv_state \<Rightarrow> ctx \<Rightarrow> surv_inner \<Rightarrow> endpoint_id \<Rightarrow> surv_result" where
  "surv_st_on_send_not_ready s ctx inner eid = Some (s, ctx, surv_inner_on_send_not_ready inner eid)"

definition surv_st_is_send_ready :: "surv_state \<Rightarrow> surv_inner \<Rightarrow> bool" where
  "surv_st_is_send_ready s inner = surv_inner_is_send_ready inner"

definition surv_st_on_recv_ack :: "surv_state \<Rightarrow> ctx \<Rightarrow> surv_inner \<Rightarrow> endpoint_id \<Rightarrow> message \<Rightarrow> u32 \<Rightarrow> surv_result" where
  "surv_st_on_recv_ack s ctx inner eid msg survey_id =
     (case s of
        SurvReceiving i None timeout \<Rightarrow>
          if i = eid then Some (SurvIdle, surv_inner_on_recv_ack ctx timeout msg, inner)
          else Some (SurvReceiving i None timeout, ctx, inner)
      | SurvReceiving i (Some p) timeout \<Rightarrow>
          if i = eid then
            (if ps_id p = survey_id then Some (SurvActive p, surv_inner_on_recv_ack ctx timeout msg, inner)
             else surv_st_recv_reply_for SurvIdle ctx inner timeout p)
          else Some (SurvReceiving i (Some p) timeout, ctx, inner)
      | _ \<Rightarrow> Some (s, ctx, inner))"

definition surv_st_on_recv_timeout :: "surv_state \<Rightarrow> ctx \<Rightarrow> surv_inner \<Rightarrow> surv_result" where
  "surv_st_on_recv_timeout s ctx inner =
     (let ctx' = surv_inner_on_recv_timeout ctx
      in (case s of
            SurvReceiving _ (Some p) _ \<Rightarrow> Some (SurvActive p, ctx', inner)
          | SurvRecvOnHold (Some p) _ \<Rightarrow> Some (SurvActive p, ctx', inner)
          | _ \<Rightarrow> Some (SurvIdle, ctx', inner)))"

definition surv_st_on_recv_ready :: "surv_state \<Rightarrow> ctx \<Rightarrow> surv_inner \<Rightarrow> endpoint_id \<Rightarrow> surv_result" where
  "surv_st_on_recv_ready s ctx inner eid = do {
     inner' \<leftarrow> surv_inner_on_recv_ready inner eid;
     (case s of
        SurvRecvOnHold None timeout \<Rightarrow> surv_st_recv SurvIdle ctx inner' timeout
      | SurvRecvOnHold (Some p) timeout \<Rightarrow> surv_st_recv (SurvActive p) ctx inner' timeout
      | _ \<Rightarrow> Some (s, ctx, inner')) }"

definition surv_st_on_recv_not_ready :: "surv_state \<Rightarrow> ctx \<Rightarrow> surv_inner \<Rightarrow> endpoint_id \<Rightarrow> surv_result" where
  "surv_st_on_recv_not_ready s ctx inner eid = do {
     inner' \<leftarrow> surv_inner_on_recv_not_ready inner eid;
     Some (s, ctx, inner') }"

definition surv_st_on_survey_timeout :: "surv_state \<Rightarrow> ctx \<Rightarrow> surv_inner \<Rightarrow> surv_result" where
  "surv_st_on_survey_timeout s ctx inner =
     (case s of SurvActive _ \<Rightarrow> Some (SurvIdle, ctx, inner) | _ \<Rightarrow> Some (s, ctx, inner))"

definition surv_st_is_recv_ready :: "surv_state \<Rightarrow> surv_inner \<Rightarrow> bool" where
  "surv_st_is_recv_ready s inner =
     (if surv_is_device_item inner then surv_inner_is_recv_ready inner
      else (case s of SurvActive _ \<Rightarrow> surv_inner_is_recv_ready inner | _ \<Rightarrow> False))"

section \<open>Protocol\<close>

definition surv_is_send_ready :: "surv \<Rightarrow> bool" where
  "surv_is_send_ready p = (case surv_state p of Some s \<Rightarrow> surv_st_is_send_ready s (surv_inner p) | None \<Rightarrow> False)"

definition surv_is_recv_ready :: "surv \<Rightarrow> bool" where
  "surv_is_recv_ready p = (case surv_state p of Some s \<Rightarrow> surv_st_is_recv_ready s (surv_inner p) | None \<Rightarrow> False)"

definition surv_apply :: "surv \<Rightarrow> ctx \<Rightarrow> (surv_state \<Rightarrow> ctx \<Rightarrow> surv_inner \<Rightarrow> surv_result) \<Rightarrow> (surv \<times> ctx) option" where
  "surv_apply p ctx transition =
     (case surv_state p of
        None \<Rightarrow> Some (p, ctx)
      | Some old_state \<Rightarrow> do {
          let was_send_ready = surv_st_is_send_ready old_state (surv_inner p);
          let was_recv_ready = surv_st_is_recv_ready old_state (surv_inner p);
          (new_state, ctx', inner') \<leftarrow> transition old_state ctx (surv_inner p);
          let is_send_ready = surv_st_is_send_ready new_state inner';
          let is_recv_ready = surv_st_is_recv_ready new_state inner';
          let p' = p\<lparr>surv_inner := inner', surv_state := Some new_state\<rparr>;
          let ctx'' = check_send_ready_change ctx' was_send_ready is_send_ready;
          Some (p', check_recv_ready_change ctx'' was_recv_ready is_recv_ready) })"

definition surv_add_pipe :: "surv \<Rightarrow> ctx \<Rightarrow> endpoint_id \<Rightarrow> pipe \<Rightarrow> (surv \<times> ctx) option" where
  "surv_add_pipe p ctx eid pipe = Some (p\<lparr>surv_inner := surv_inner_add_pipe (surv_inner p) eid pipe\<rparr>, ctx)"

definition surv_remove_pipe :: "surv \<Rightarrow> ctx \<Rightarrow> endpoint_id \<Rightarrow> (pipe option \<times> surv \<times> ctx) option" where
  "surv_remove_pipe p ctx eid = do {
     let was_send_ready = surv_is_send_ready p;
     let was_recv_ready = surv_is_recv_ready p;
     (pipe, inner') \<leftarrow> surv_inner_remove_pipe (surv_inner p) eid;
     let p' = p\<lparr>surv_inner := inner'\<rparr>;
     let is_send_ready = surv_is_send_ready p';
     let is_recv_ready = surv_is_recv_ready p';
     (p'', ctx') \<leftarrow>
       (case pipe of
          Some _ \<Rightarrow> surv_apply p' ctx (\<lambda>s ctx inner. surv_st_on_pipe_removed s ctx inner eid)
        | None \<Rightarrow> Some (p', ctx));
     let ctx'' = check_send_ready_change ctx' was_send_ready is_send_ready;
     Some (pipe, p'', check_recv_ready_change ctx'' was_recv_ready is_recv_ready) }"

definition surv_send :: "byteorder \<Rightarrow> surv \<Rightarrow> ctx \<Rightarrow> message \<Rightarrow> timeout \<Rightarrow> (surv \<times> ctx) option" where
  "surv_send bo p ctx msg timeout = do {
     (raw_msg, inner') \<leftarrow> surv_inner_msg_to_raw_msg bo (surv_inner p) msg;
     surv_apply (p\<lparr>surv_inner := inner'\<rparr>) ctx (\<lambda>s ctx inner. surv_st_send s ctx inner raw_msg timeout) }"

definition surv_on_recv_ack :: "byteorder \<Rightarrow> surv \<Rightarrow> ctx \<Rightarrow> endpoint_id \<Rightarrow> message \<Rightarrow> (surv \<times> ctx) option" where
  "surv_on_recv_ack bo p ctx eid raw_msg =
     (case surv_inner_raw_msg_to_msg bo (surv_inner p) raw_msg of
        Some (msg, survey_id) \<Rightarrow>
          surv_apply p ctx (\<lambda>s ctx inner. surv_st_on_recv_ack s ctx inner eid msg survey_id)
      | None \<Rightarrow> Some (p, surv_inner_on_recv_ack_malformed ctx))"

definition surv_on_send_ack :: "surv \<Rightarrow> ctx \<Rightarrow> endpoint_id \<Rightarrow> (surv \<times> ctx) option" where
  "surv_on_send_ack p ctx eid = surv_apply p ctx (\<lambda>s ctx inner. surv_st_on_send_ack s ctx inner eid)"

definition surv_on_send_timeout :: "surv \<Rightarrow> ctx \<Rightarrow> (surv \<times> ctx) option" where
  "surv_on_send_timeout p ctx = surv_apply p ctx surv_st_on_send_timeout"

definition surv_on_send_ready :: "surv \<Rightarrow> ctx \<Rightarrow> endpoint_id \<Rightarrow> (surv \<times> ctx) option" where
  "surv_on_send_ready p ctx eid = surv_apply p ctx (\<lambda>s ctx inner. surv_st_on_send_ready s ctx inner eid)"

definition surv_on_send_not_ready :: "surv \<Rightarrow> ctx \<Rightarrow> endpoint_id \<Rightarrow> (surv \<times> ctx) option" where
  "surv_on_send_not_ready p ctx eid = surv_apply p ctx (\<lambda>s ctx inner. surv_st_on_send_not_ready s ctx inner eid)"

definition surv_recv :: "surv \<Rightarrow> ctx \<Rightarrow> timeout \<Rightarrow> (surv \<times> ctx) option" where
  "surv_recv p ctx timeout = surv_apply p ctx (\<lambda>s ctx inner. surv_st_recv s ctx inner timeout)"

definition surv_on_recv_timeout :: "surv \<Rightarrow> ctx \<Rightarrow> (surv \<times> ctx) option" where
  "surv_on_recv_timeout p ctx = surv_apply p ctx surv_st_on_recv_timeout"

definition surv_on_recv_ready :: "surv \<Rightarrow> ctx \<Rightarrow> endpoint_id \<Rightarrow> (surv \<times> ctx) option" where
  "surv_on_recv_ready p ctx eid = surv_apply p ctx (\<lambda>s ctx inner. surv_st_on_recv_ready s ctx inner eid)"

definition surv_on_recv_not_ready :: "surv \<Rightarrow> ctx \<Rightarrow> endpoint_id \<Rightarrow> (surv \<times> ctx) option" where
  "surv_on_recv_not_ready p ctx eid = surv_apply p ctx (\<lambda>s ctx inner. surv_st_on_recv_not_ready s ctx inner eid)"

fun surv_set_option :: "surv \<Rightarrow> config_option \<Rightarrow> (io_error + unit) \<times> surv" where
  "surv_set_option p (SurveyDeadline ivl) =
     (Inr (), p\<lparr>surv_inner := surv_inner_set_survey_deadline (surv_inner p) ivl\<rparr>)"
| "surv_set_option p _ = (Inl (invalid_input_io_error ''option not supported''), p)"

definition surv_on_timer_tick :: "surv \<Rightarrow> ctx \<Rightarrow> schedulable \<Rightarrow> (surv \<times> ctx) option" where
  "surv_on_timer_tick p ctx task =
     (case task of SurveyCancel \<Rightarrow> surv_apply p ctx surv_st_on_survey_timeout | _ \<Rightarrow> Some (p, ctx))"

definition surv_on_device_plugged :: "surv \<Rightarrow> ctx \<Rightarrow> (surv \<times> ctx) option" where
  "surv_on_device_plugged p ctx = Some (p\<lparr>surv_inner := (surv_inner p)\<lparr>surv_is_device_item := True\<rparr>\<rparr>, ctx)"

definition surv_close :: "surv \<Rightarrow> ctx \<Rightarrow> surv \<times> ctx" where
  "surv_close p ctx = (let (inner, ctx') = surv_inner_close (surv_inner p) ctx in (p\<lparr>surv_inner := inner\<rparr>, ctx'))"

definition surv_ops :: "byteorder \<Rightarrow> surv protocol_ops" where
  "surv_ops bo = \<lparr>
     op_id = \<lambda>_. SURVEYOR_ID, op_peer_id = \<lambda>_. RESPONDENT_ID, op_add_pipe = surv_add_pipe,
     op_remove_pipe = surv_remove_pipe, op_send = surv_send bo, op_on_send_ack = surv_on_send_ack,
     op_on_send_timeout = surv_on_send_timeout, op_on_send_ready = surv_on_send_ready,
     op_on_send_not_ready = surv_on_send_not_ready, op_recv = surv_recv,
     op_on_recv_ack = surv_on_recv_ack bo, op_on_recv_timeout = surv_on_recv_timeout,
     op_on_recv_ready = surv_on_recv_ready, op_on_recv_not_ready = surv_on_recv_not_ready,
     op_is_send_ready = surv_is_send_ready, op_is_recv_ready = surv_is_recv_ready,
     op_set_option = surv_set_option, op_on_timer_tick = surv_on_timer_tick,
     op_on_device_plugged = surv_on_device_plugged, op_close = surv_close\<rparr>"

lemma surv_ops_simps [simp]:
  "op_id (surv_ops bo) = (\<lambda>_. SURVEYOR_ID)"
  "op_peer_id (surv_ops bo) = (\<lambda>_. RESPONDENT_ID)"
  "op_add_pipe (surv_ops bo) = surv_add_pipe"
  "op_remove_pipe (surv_ops bo) = surv_remove_pipe"
  "op_send (surv_ops bo) = surv_send bo"
  "op_on_send_ack (surv_ops bo) = surv_on_send_ack"
  "op_on_send_timeout (surv_ops bo) = surv_on_send_timeout"
  "op_on_send_ready (surv_ops bo) = surv_on_send_ready"
  "op_on_send_not_ready (surv_ops bo) = surv_on_send_not_ready"
  "op_recv (surv_ops bo) = surv_recv"
  "op_on_recv_ack (surv_ops bo) = surv_on_recv_ack bo"
  "op_on_recv_timeout (surv_ops bo) = surv_on_recv_timeout"
  "op_on_recv_ready (surv_ops bo) = surv_on_recv_ready"
  "op_on_recv_not_ready (surv_ops bo) = surv_on_recv_not_ready"
  "op_is_send_ready (surv_ops bo) = surv_is_send_ready"
  "op_is_recv_ready (surv_ops bo) = surv_is_recv_ready"
  "op_set_option (surv_ops bo) = surv_set_option"
  "op_on_timer_tick (surv_ops bo) = surv_on_timer_tick"
  "op_on_device_plugged (surv_ops bo) = surv_on_device_plugged"
  "op_close (surv_ops bo) = surv_close"
  by (simp_all add: surv_ops_def)

lemmas surv_inner_defs = surv_inner_add_pipe_def surv_inner_remove_pipe_def
  surv_inner_cur_survey_id_def surv_inner_next_survey_id_def surv_inner_on_send_ready_def
  surv_inner_on_send_not_ready_def surv_inner_is_send_ready_def surv_inner_recv_def
  surv_inner_recv_when_inactive_def surv_inner_on_recv_ready_def surv_inner_on_recv_not_ready_def
  surv_inner_is_recv_ready_def surv_inner_on_recv_ack_def surv_inner_on_recv_timeout_def
  surv_inner_on_recv_ack_malformed_def surv_inner_cancel_def surv_inner_set_survey_deadline_def
  surv_inner_close_def

lemmas surv_st_defs = surv_st_recv_reply_for_def surv_st_recv_def surv_st_on_pipe_removed_def
  surv_st_send_def surv_st_on_send_ack_def surv_st_on_send_timeout_def surv_st_on_send_ready_def
  surv_st_on_send_not_ready_def surv_st_on_recv_ack_def surv_st_on_recv_timeout_def
  surv_st_on_recv_ready_def surv_st_on_recv_not_ready_def surv_st_on_survey_timeout_def

lemmas surv_method_defs = surv_on_send_ack_def surv_on_send_timeout_def surv_on_send_ready_def
  surv_on_send_not_ready_def surv_recv_def surv_on_recv_timeout_def surv_on_recv_ready_def
  surv_on_recv_not_ready_def

section \<open>Invariant\<close>

definition surv_inner_ok :: "surv_inner \<Rightarrow> bool" where
  "surv_inner_ok inner \<longleftrightarrow> pipes_ok (surv_pipes inner) \<and> invar (surv_fq inner) \<and>
     ids (surv_fq inner) = dom (surv_pipes inner) \<and> surv_bc inner \<subseteq> dom (surv_pipes inner)"

fun surv_state_ok :: "surv_inner \<Rightarrow> surv_state \<Rightarrow> bool" where
  "surv_state_ok inner (SurvReceiving eid _ _) \<longleftrightarrow> eid \<in> dom (surv_pipes inner)"
| "surv_state_ok inner (SurvRecvOnHold _ _) \<longleftrightarrow> ready (surv_fq inner) = {}"
| "surv_state_ok inner _ \<longleftrightarrow> True"

definition surv_ok :: "surv_inner \<Rightarrow> surv_state \<Rightarrow> bool" where
  "surv_ok inner s \<longleftrightarrow> surv_inner_ok inner \<and> surv_state_ok inner s"

definition surv_good :: "surv \<Rightarrow> bool" where
  "surv_good p \<longleftrightarrow> (\<exists>s. surv_state p = Some s \<and> surv_ok (surv_inner p) s)"

definition surv_pipes_of :: "surv \<Rightarrow> pipe_collection" where
  "surv_pipes_of p = surv_pipes (surv_inner p)"

text \<open>Besides removable pipes, a survey needs an identifier the sequence still has.\<close>

fun surv_admits :: "surv \<Rightarrow> proto_cmd \<Rightarrow> bool" where
  "surv_admits p (RemovePipe eid) \<longleftrightarrow> removable (surv_fq (surv_inner p)) eid"
| "surv_admits p (SendMsg _ _) \<longleftrightarrow>
     surv_is_device_item (surv_inner p) \<or> checked_add (surv_survey_id_seq (surv_inner p)) 1 \<noteq> None"
| "surv_admits p _ \<longleftrightarrow> True"

fun surv_clean :: "byteorder \<Rightarrow> surv \<Rightarrow> proto_cmd \<Rightarrow> bool" where
  "surv_clean bo p (RecvAck eid msg) \<longleftrightarrow> surv_inner_raw_msg_to_msg bo (surv_inner p) msg \<noteq> None"
| "surv_clean bo p _ \<longleftrightarrow> True"

fun surv_busy :: "surv_state \<Rightarrow> bool" where
  "surv_busy (SurvReceiving _ _ _) \<longleftrightarrow> True"
| "surv_busy (SurvRecvOnHold _ _) \<longleftrightarrow> True"
| "surv_busy _ \<longleftrightarrow> False"

definition surv_receiving :: "surv \<Rightarrow> bool" where
  "surv_receiving p \<longleftrightarrow> in_state surv_busy (surv_state p)"

abbreviation surv_moves :: "bool \<Rightarrow> nat \<Rightarrow> surv_state \<Rightarrow> ctx \<Rightarrow> surv_inner \<Rightarrow> surv_state \<times> ctx \<times> surv_inner \<Rightarrow> bool" where
  "surv_moves \<equiv> moves surv_ok surv_pipes surv_busy"

abbreviation surv_step :: "byteorder \<Rightarrow> proto_cmd \<Rightarrow> bool \<Rightarrow> surv \<Rightarrow> ctx \<Rightarrow> surv \<times> ctx \<Rightarrow> bool" where
  "surv_step bo \<equiv> machine_step (surv_ops bo) surv_good surv_pipes_of surv_receiving"

interpretation surv_m: machine "surv_ops bo" surv_apply surv_inner surv_state
  "\<lambda>p i s. p\<lparr>surv_inner := i, surv_state := Some s\<rparr>" surv_st_is_send_ready surv_st_is_recv_ready
  for bo
  by unfold_locales (simp_all add: surv_apply_def surv_is_send_ready_def surv_is_recv_ready_def Let_def)

section \<open>What the transitions do\<close>

lemmas surv_unfold = surv_st_defs surv_inner_defs surv_ok_def surv_inner_ok_def moves_def context_call_defs

lemma surv_recv_reply_for_moves:
  assumes "surv_inner_ok inner" and "due \<Longrightarrow> k = of_bool (\<not> surv_busy s)"
  shows "runs (surv_st_recv_reply_for s' ctx inner t p) (surv_moves due k s ctx inner)"
  using assms by (auto simp: surv_unfold intro!: runs_intros emits_intros)

lemma surv_st_recv_moves:
  assumes "surv_inner_ok inner" and "due \<Longrightarrow> k = of_bool (\<not> surv_busy s)"
  shows "runs (surv_st_recv s' ctx inner t) (surv_moves due k s ctx inner)"
proof -
  have "surv_moves due k s ctx inner (SurvIdle, surv_inner_recv_when_inactive ctx t, inner)"
    using assms by (auto simp: surv_unfold intro!: emits_intros split: option.splits)
  moreover have "surv_is_device_item inner \<Longrightarrow> ?thesis"
    using assms by (auto simp: surv_unfold intro!: runs_intros emits_intros)
  ultimately show ?thesis
    using surv_recv_reply_for_moves [OF assms] by (auto simp: surv_st_recv_def split: surv_state.splits)
qed

lemma surv_send_moves:
  assumes "surv_ok inner s" and "enumerates (hash_order (env ctx))" and "due \<Longrightarrow> \<not> surv_busy s"
  shows "runs (surv_st_send s ctx inner msg t) (surv_moves due (Suc 0) s ctx inner)"
proof -
  have ok: "pipes_ok (surv_pipes inner)" "surv_bc inner \<subseteq> dom (surv_pipes inner)"
    using assms(1) by (simp_all add: surv_ok_def surv_inner_ok_def)
  define ctx1 where "ctx1 = (case s of SurvActive p \<Rightarrow> surv_inner_cancel ctx p | _ \<Rightarrow> ctx)"
  have c1: "emits (quiet_on (dom (surv_pipes inner))) ctx ctx1" "count_replies (trace ctx1) = count_replies (trace ctx)"
    "env ctx1 = env ctx"
    by (auto simp: ctx1_def surv_inner_cancel_def context_call_defs intro!: emits_intros split: surv_state.splits option.splits)
  obtain ctx2 where c2: "send_to_all (surv_bc inner) (surv_pipes inner) ctx1 msg = ({}, ctx2)"
    "emits (quiet_on (dom (surv_pipes inner))) ctx1 ctx2" "count_replies (trace ctx2) = count_replies (trace ctx1)"
    using send_to_all_effects [OF ok, of ctx1 msg] assms(2) c1(3) by auto
  show ?thesis
    using assms(1,3) c2 emits_trans [OF c1(1) c2(2)] c1(2)
    by (auto simp: surv_st_send_def ctx1_def [symmetric] surv_inner_send_def moves_def surv_ok_def surv_inner_ok_def
        context_call_defs Let_def intro!: emits_intros split: option.splits)
qed

lemma surv_on_send_ready_moves:
  assumes "surv_ok inner s" and "eid \<in> dom (surv_pipes inner)"
  shows "runs (surv_st_on_send_ready s ctx inner eid) (surv_moves due 0 s ctx inner)"
  using assms by (cases s) (auto simp: surv_unfold)

lemma surv_on_send_not_ready_moves:
  assumes "surv_ok inner s"
  shows "runs (surv_st_on_send_not_ready s ctx inner eid) (surv_moves due 0 s ctx inner)"
  using assms by (cases s) (auto simp: surv_unfold)

lemma surv_on_recv_ack_moves:
  assumes "surv_ok inner s"
  shows "runs (surv_st_on_recv_ack s ctx inner eid msg sid) (surv_moves due 0 s ctx inner)"
proof (cases "\<exists>p t. s = SurvReceiving eid (Some p) t \<and> ps_id p \<noteq> sid")
  case True
  then show ?thesis
    using assms by (auto simp: surv_st_on_recv_ack_def surv_ok_def intro!: surv_recv_reply_for_moves)
next
  case False
  then show ?thesis
    using assms by (cases s) (auto simp: surv_st_on_recv_ack_def surv_inner_on_recv_ack_def moves_def surv_ok_def
      context_call_defs intro!: emits_intros split: option.splits)
qed

lemma surv_on_recv_timeout_moves:
  assumes "surv_ok inner s" and "due \<Longrightarrow> surv_busy s"
  shows "runs (surv_st_on_recv_timeout s ctx inner) (surv_moves due 0 s ctx inner)"
  using assms by (cases s) (auto simp: surv_st_on_recv_timeout_def surv_inner_on_recv_timeout_def moves_def surv_ok_def
      context_call_defs Let_def intro!: emits_intros split: option.splits)

lemma surv_on_recv_ready_moves:
  assumes "surv_ok inner s"
  shows "runs (surv_st_on_recv_ready s ctx inner eid) (surv_moves due 0 s ctx inner)"
proof -
  have recv: "runs (surv_st_recv s' ctx i t) (surv_moves due 0 s0 ctx inner)"
    if "surv_inner_ok i" "surv_busy s0" "surv_pipes i = surv_pipes inner" for s0 s' i t
    using that by (intro moves_from [of surv_pipes i inner] surv_st_recv_moves) auto
  show ?thesis
    unfolding surv_st_on_recv_ready_def surv_inner_on_recv_ready_def
    using assms
    by (cases s) (auto simp: surv_ok_def surv_inner_ok_def moves_def intro!: queue_runs recv split: option.splits)
qed

lemma surv_on_recv_not_ready_moves:
  assumes "surv_ok inner s"
  shows "runs (surv_st_on_recv_not_ready s ctx inner eid) (surv_moves due 0 s ctx inner)"
  using assms by (cases s) (auto simp: surv_unfold intro!: runs_intros)

lemma surv_on_survey_timeout_moves:
  assumes "surv_ok inner s"
  shows "runs (surv_st_on_survey_timeout s ctx inner) (surv_moves due 0 s ctx inner)"
  using assms by (cases s) (auto simp: surv_unfold)

lemma surv_stay_moves:
  assumes "surv_ok inner s"
  shows "surv_moves due 0 s ctx inner (s, ctx, inner)"
  using assms by (simp add: moves_def)

lemma surv_on_pipe_removed_moves:
  assumes "surv_inner_ok inner" and "surv_state_ok old s"
    and "dom (surv_pipes old) - {eid} \<subseteq> dom (surv_pipes inner)" and "ready (surv_fq inner) \<subseteq> ready (surv_fq old)"
  shows "runs (surv_st_on_pipe_removed s ctx inner eid) (\<lambda>r. surv_moves due 0 s ctx inner r \<and>
    (case r of (s', _, i') \<Rightarrow> (surv_st_is_send_ready s' i' \<longrightarrow> surv_st_is_send_ready s inner) \<and>
       (surv_st_is_recv_ready s' i' \<longrightarrow> surv_st_is_recv_ready s inner)))"
proof (cases "\<exists>p t. s = SurvReceiving eid p t")
  case True
  then obtain p t where s: "s = SurvReceiving eid p t" by blast
  have "runs (surv_st_recv SurvIdle ctx inner t) (surv_moves due 0 s ctx inner)"
    using s by (intro surv_st_recv_moves [OF assms(1)]) simp
  moreover have "runs (surv_st_recv SurvIdle ctx inner t) (\<lambda>(s', _, i').
      (surv_st_is_send_ready s' i' \<longrightarrow> surv_st_is_send_ready s inner) \<and>
      (surv_st_is_recv_ready s' i' \<longrightarrow> surv_st_is_recv_ready s inner))"
    using assms(1) by (auto simp: surv_st_recv_def surv_inner_recv_def surv_st_is_send_ready_def surv_st_is_recv_ready_def
      surv_inner_is_send_ready_def surv_inner_is_recv_ready_def surv_inner_ok_def prq.peek_law intro!: runs_intros)
  ultimately show ?thesis
    using s by (auto simp: surv_st_on_pipe_removed_def dest: runs_conj)
next
  case False
  then show ?thesis
    using assms by (cases s) (auto simp: surv_st_on_pipe_removed_def surv_ok_def moves_def)
qed

section \<open>The contract\<close>

lemma surv_good_alt: "surv_good = (\<lambda>p. \<exists>s. surv_state p = Some s \<and> surv_ok (surv_inner p) s)"
  "surv_pipes_of = (\<lambda>p. surv_pipes (surv_inner p))"
  "surv_receiving = (\<lambda>p. in_state surv_busy (surv_state p))"
  by (auto simp: fun_eq_iff surv_good_def surv_pipes_of_def surv_receiving_def)

lemma surv_apply_step:
  assumes "surv_state p = Some s"
    and "runs (t s ctx (surv_inner p)) (surv_moves due (of_bool (is_request cmd)) s ctx (surv_inner p))"
    and "pipes_after cmd (surv_pipes_of p) = surv_pipes_of p"
  shows "runs (surv_apply p ctx t) (surv_step bo cmd due p ctx)"
  unfolding surv_good_alt
  by (rule surv_m.apply_step [where t = t and s = s and k = "of_bool (is_request cmd)"])
     (use assms in \<open>simp_all add: surv_good_alt\<close>)

text \<open>Readiness only depends on the ready pipes, the fair queue and the device flag.\<close>

lemma surv_ready_cong:
  assumes "surv_state p' = surv_state p" and "surv_is_device_item (surv_inner p') = surv_is_device_item (surv_inner p)"
    and "surv_bc (surv_inner p') = surv_bc (surv_inner p)" and "peek (surv_fq (surv_inner p')) = peek (surv_fq (surv_inner p))"
  shows "surv_is_send_ready p' = surv_is_send_ready p" "surv_is_recv_ready p' = surv_is_recv_ready p"
  using assms by (auto simp: surv_is_send_ready_def surv_st_is_send_ready_def surv_inner_is_send_ready_def
      surv_is_recv_ready_def surv_st_is_recv_ready_def surv_inner_is_recv_ready_def
      split: option.splits surv_state.splits)

lemma surv_add_step:
  assumes "surv_good p" and "eid \<notin> dom (surv_pipes_of p)" and "good_pipe eid pipe"
  shows "runs (surv_add_pipe p ctx eid pipe) (surv_step bo (AddPipe eid pipe) due p ctx)"
proof -
  obtain s where s: "surv_state p = Some s" "surv_ok (surv_inner p) s"
    using assms(1) by (auto simp: surv_good_def)
  then have ok: "surv_ok (surv_inner_add_pipe (surv_inner p) eid pipe) s"
    using assms(2,3) queue_insert_laws [of "surv_fq (surv_inner p)" eid "pipe_get_recv_priority pipe"]
    by (cases s) (auto simp: surv_ok_def surv_inner_ok_def surv_inner_add_pipe_def pipes_insert_def good_pipe_def surv_pipes_of_def)
  let ?p = "p\<lparr>surv_inner := surv_inner_add_pipe (surv_inner p) eid pipe\<rparr>"
  have "surv_is_send_ready ?p = surv_is_send_ready p" "surv_is_recv_ready ?p = surv_is_recv_ready p"
    by (rule surv_ready_cong; simp add: surv_inner_add_pipe_def)+
  with ok show ?thesis
    by (simp add: surv_add_pipe_def surv_good_alt s, intro machine_step_idle)
       (simp_all add: s surv_inner_add_pipe_def pipes_insert_def)
qed

lemma surv_remove_step:
  assumes "surv_good p" and "removable (surv_fq (surv_inner p)) eid"
  shows "runs (surv_remove_pipe p ctx eid)
    (\<lambda>(r, p', ctx'). r = surv_pipes_of p eid \<and> surv_step bo (RemovePipe eid) due p ctx (p', ctx'))"
proof -
  obtain s where s: "surv_state p = Some s" "surv_ok (surv_inner p) s"
    using assms(1) by (auto simp: surv_good_def)
  let ?q = "surv_fq (surv_inner p)" and ?ps = "surv_pipes (surv_inner p)" and ?bc = "surv_bc (surv_inner p)"
  show ?thesis
  proof (cases "?ps eid")
    case None
    then have same: "priolist_remove ?q eid = Some ?q" "?ps(eid := None) = ?ps" "?bc - {eid} = ?bc"
      using s(2) by (auto simp: surv_ok_def surv_inner_ok_def intro: priolist_remove_absent)
    show ?thesis
      using assms(1) by (simp add: None same surv_remove_pipe_def surv_inner_remove_pipe_def pipes_remove_def
        surv_pipes_of_def check_recv_ready_change_def check_send_ready_change_def machine_step_idle)
  next
    case (Some pipe)
    obtain q' where q': "priolist_remove ?q eid = Some q'" "invar q'" "ids q' = ids ?q - {eid}" "ready q' = ready ?q - {eid}"
      using prq.remove_law [of ?q eid] assms(2) s(2) by (auto simp: surv_ok_def surv_inner_ok_def)
    let ?i = "surv_inner p\<lparr>surv_bc := ?bc - {eid}, surv_fq := q', surv_pipes := ?ps(eid := None)\<rparr>"
    have ok: "surv_inner_ok ?i" using q' s(2) by (auto simp: surv_ok_def surv_inner_ok_def)
    have removed: "runs (surv_st_on_pipe_removed s ctx ?i eid) (\<lambda>r. surv_moves True 0 s ctx ?i r \<and>
        (case r of (s', _, i') \<Rightarrow> (surv_st_is_send_ready s' i' \<longrightarrow> surv_st_is_send_ready s ?i) \<and>
          (surv_st_is_recv_ready s' i' \<longrightarrow> surv_st_is_recv_ready s ?i)))"
      using s(2) q'(4) by (intro surv_on_pipe_removed_moves [OF ok, where old = "surv_inner p"]) (auto simp: surv_ok_def)
    have lost: "surv_is_send_ready (p\<lparr>surv_inner := ?i\<rparr>) \<Longrightarrow> surv_is_send_ready p"
      "surv_is_recv_ready (p\<lparr>surv_inner := ?i\<rparr>) \<Longrightarrow> surv_is_recv_ready p"
      using s q'(2,4) by (auto simp: surv_is_send_ready_def surv_st_is_send_ready_def surv_inner_is_send_ready_def
        surv_is_recv_ready_def surv_st_is_recv_ready_def surv_inner_is_recv_ready_def
        surv_ok_def surv_inner_ok_def prq.peek_law split: surv_state.splits if_splits)
    note step = surv_m.remove_step_late [where s = s and p = p and ?p1.0 = "p\<lparr>surv_inner := ?i\<rparr>" and pipes = surv_pipes and bo = bo
      and t = "\<lambda>s ctx inner. surv_st_on_pipe_removed s ctx inner eid" and ok = surv_ok and busy = surv_busy and due = due]
    have "runs (do { (p', ctx') \<leftarrow> surv_apply (p\<lparr>surv_inner := ?i\<rparr>) ctx (\<lambda>s ctx inner. surv_st_on_pipe_removed s ctx inner eid);
        Some (p', check_recv_ready_change
          (check_send_ready_change ctx' (surv_is_send_ready p) (surv_is_send_ready (p\<lparr>surv_inner := ?i\<rparr>)))
          (surv_is_recv_ready p) (surv_is_recv_ready (p\<lparr>surv_inner := ?i\<rparr>))) })
        (surv_step bo (RemovePipe eid) due p ctx)"
      unfolding surv_good_alt
      by (rule step [unfolded surv_ops_simps]) (use removed lost in \<open>simp_all add: s\<close>)
    then show ?thesis
      using q'(1) Some by (auto simp: surv_remove_pipe_def surv_inner_remove_pipe_def pipes_remove_def
        surv_pipes_of_def Let_def split_def elim!: runs_mono)
  qed
qed

lemma surv_send_step:
  assumes "surv_good p" and "surv_admits p (SendMsg msg t)" and "enumerates (hash_order (env ctx))"
    and "due \<Longrightarrow> \<not> surv_receiving p"
  shows "runs (surv_send bo p ctx msg t) (surv_step bo (SendMsg msg t) due p ctx)"
proof -
  obtain s where s: "surv_state p = Some s" "surv_ok (surv_inner p) s"
    using assms(1) by (auto simp: surv_good_def)
  obtain raw seq where raw: "surv_inner_msg_to_raw_msg bo (surv_inner p) msg =
      Some (raw, (surv_inner p)\<lparr>surv_survey_id_seq := seq\<rparr>)"
  proof (cases "surv_is_device_item (surv_inner p)")
    case True
    then show ?thesis
      by (intro that [of msg "surv_survey_id_seq (surv_inner p)"]) (simp add: surv_inner_msg_to_raw_msg_def)
  next
    case False
    then show ?thesis
      using assms(2) that by (auto simp: surv_inner_msg_to_raw_msg_def surv_inner_next_survey_id_def)
  qed
  let ?p = "p\<lparr>surv_inner := (surv_inner p)\<lparr>surv_survey_id_seq := seq\<rparr>\<rparr>"
  have ok: "surv_ok (surv_inner ?p) s" using s(2) by (cases s) (auto simp: surv_ok_def surv_inner_ok_def)
  have idle: "due \<Longrightarrow> \<not> surv_busy s" using assms(4) s(1) by (simp add: surv_receiving_def)
  have "runs (surv_apply ?p ctx (\<lambda>s ctx inner. surv_st_send s ctx inner raw t)) (surv_step bo (SendMsg msg t) due ?p ctx)"
    using surv_send_moves [OF ok assms(3) idle] by (intro surv_apply_step [where s = s]) (simp_all add: s)
  moreover have "surv_is_send_ready ?p = surv_is_send_ready p" "surv_is_recv_ready ?p = surv_is_recv_ready p"
    by (rule surv_ready_cong; simp)+
  ultimately show ?thesis
    by (simp add: surv_send_def raw) (elim runs_mono machine_step_base; simp add: surv_pipes_of_def surv_receiving_def)
qed

lemma surv_on_recv_ack_step:
  assumes "surv_good p"
  shows "runs (surv_on_recv_ack bo p ctx eid msg) (surv_step bo (RecvAck eid msg) (surv_clean bo p (RecvAck eid msg)) p ctx)"
proof -
  obtain s where s: "surv_state p = Some s" "surv_ok (surv_inner p) s"
    using assms(1) by (auto simp: surv_good_def)
  have "surv_step bo (RecvAck eid msg) False p ctx (p, surv_inner_on_recv_ack_malformed ctx)"
    using assms(1) by (intro machine_step_quiet) (auto simp: surv_inner_on_recv_ack_malformed_def context_call_defs
      intro!: emits_intros)
  then show ?thesis
    by (auto simp: surv_on_recv_ack_def intro!: surv_apply_step [OF s(1)] surv_on_recv_ack_moves [OF s(2)] split: option.splits)
qed

lemma surv_set_option_step:
  assumes "surv_good p"
  shows "surv_step bo (SetOption opt) due p ctx (snd (surv_set_option p opt), ctx)"
proof -
  obtain s where s: "surv_state p = Some s" "surv_ok (surv_inner p) s"
    using assms by (auto simp: surv_good_def)
  have ok: "surv_ok ((surv_inner p)\<lparr>surv_deadline := d\<rparr>) s" for d
    using s(2) by (cases s) (auto simp: surv_ok_def surv_inner_ok_def)
  have ready: "surv_is_send_ready (p\<lparr>surv_inner := (surv_inner p)\<lparr>surv_deadline := d\<rparr>\<rparr>) = surv_is_send_ready p"
    "surv_is_recv_ready (p\<lparr>surv_inner := (surv_inner p)\<lparr>surv_deadline := d\<rparr>\<rparr>) = surv_is_recv_ready p" for d
    by (rule surv_ready_cong; simp)+
  show ?thesis
    using assms s ok ready by (cases opt)
      (auto simp: surv_good_def surv_pipes_of_def surv_receiving_def surv_inner_set_survey_deadline_def
        intro!: machine_step_idle)
qed

lemma surv_device_step:
  assumes "surv_good p"
  shows "runs (surv_on_device_plugged p ctx) (surv_step bo DevicePlugged due p ctx)"
proof -
  obtain s where s: "surv_state p = Some s" "surv_ok (surv_inner p) s"
    using assms(1) by (auto simp: surv_good_def)
  have "surv_ok ((surv_inner p)\<lparr>surv_is_device_item := True\<rparr>) s"
    using s(2) by (cases s) (auto simp: surv_ok_def surv_inner_ok_def)
  then show ?thesis
    using s(1) by (auto simp: surv_on_device_plugged_def machine_step_def surv_good_def surv_pipes_of_def added_def
      surv_receiving_def)
qed

lemma surv_step_ok:
  assumes "surv_good p" and "legal surv_pipes_of surv_admits p cmd" and "enumerates (hash_order (env ctx))"
  shows "runs (proto_step (surv_ops bo) cmd p ctx)
    (surv_step bo cmd (in_turn (\<lambda>_. False) surv_receiving p cmd \<and> surv_clean bo p cmd) p ctx)"
proof -
  obtain s where s: "surv_state p = Some s" "surv_ok (surv_inner p) s"
    using assms(1) by (auto simp: surv_good_def)
  have inner: "surv_inner_ok (surv_inner p)" using s(2) by (simp add: surv_ok_def)
  have flag: "surv_receiving p = surv_busy s"
    by (simp add: s(1) surv_receiving_def)
  note step = surv_apply_step [OF s(1)]
  note moves = surv_st_recv_moves [OF inner] surv_on_recv_timeout_moves [OF s(2)] surv_on_send_ready_moves [OF s(2)]
    surv_on_send_not_ready_moves [OF s(2)] surv_on_recv_ready_moves [OF s(2)] surv_on_recv_not_ready_moves [OF s(2)]
    surv_on_survey_timeout_moves [OF s(2)]
  note methods = surv_method_defs default_method_defs surv_st_on_send_ack_def surv_st_on_send_timeout_def
  show ?thesis
  proof (cases cmd)
    case (RemovePipe eid)
    then show ?thesis using assms surv_remove_step [OF assms(1), of eid ctx bo True] by (auto elim!: runs_mono)
  next
    case (RecvAck eid msg)
    then show ?thesis using surv_on_recv_ack_step [OF assms(1), of bo ctx eid msg] by simp
  next
    case (SendMsg msg t)
    then show ?thesis using assms surv_send_step [OF assms(1) _ assms(3)] by simp
  next
    case (SetOption opt)
    then show ?thesis using surv_set_option_step [OF assms(1)] by simp
  next
    case (TimerTick task)
    then show ?thesis using assms(1)
      by (auto simp: surv_on_timer_tick_def intro!: step moves machine_step_idle split: schedulable.splits)
  qed (use assms in \<open>auto simp: methods flag surv_pipes_of_def surv_stay_moves [OF s(2)]
         intro!: step moves surv_add_step surv_device_step machine_step_idle\<close>)
qed

interpretation surv_p: answering_protocol "surv_ops bo" surv_good surv_pipes_of surv_admits "\<lambda>_. False" surv_receiving "surv_clean bo"
  for bo
proof
  fix p :: surv and cmd ctx eid
  note step = machine_step_contract [where sending = "\<lambda>_. False" and receiving = surv_receiving]
  show "runs (proto_step (surv_ops bo) cmd p ctx) (\<lambda>(p', ctx'). step_ok (surv_ops bo) surv_good surv_pipes_of cmd p ctx p' ctx')"
    if "surv_good p" "legal surv_pipes_of surv_admits p cmd" "enumerates (hash_order (env ctx))"
    by (rule step(1)) (use surv_step_ok [OF that] in simp)
  show "runs (proto_step (surv_ops bo) cmd p ctx) (\<lambda>(p', ctx').
      count_replies (trace ctx') + outstanding (\<lambda>_. False) surv_receiving p' =
      count_replies (trace ctx) + outstanding (\<lambda>_. False) surv_receiving p + of_bool (is_request cmd))"
    if "surv_good p" "legal surv_pipes_of surv_admits p cmd" "enumerates (hash_order (env ctx))"
      "in_turn (\<lambda>_. False) surv_receiving p cmd" "surv_clean bo p cmd"
    by (rule step(2)) (use surv_step_ok [OF that(1-3), of bo] that(4,5) in simp_all)
  show "runs (op_remove_pipe (surv_ops bo) p ctx eid) (\<lambda>(r, _). r = surv_pipes_of p eid)"
    if "surv_good p" "surv_admits p (RemovePipe eid)"
    using surv_remove_step [OF that(1), of eid ctx bo True] that(2) by (auto elim!: runs_mono)
  show "pipes_ok (surv_pipes_of p)" if "surv_good p"
    using that by (auto simp: surv_good_def surv_ok_def surv_inner_ok_def surv_pipes_of_def)
  then show "\<exists>p' es. op_close (surv_ops bo) p ctx = (p', ctx\<lparr>trace := trace ctx @ map (\<lambda>eid. NetClose eid True) es\<rparr>) \<and>
      set es = dom (surv_pipes_of p) \<and> distinct es \<and> surv_pipes_of p' = Map.empty"
    if "surv_good p" "enumerates (hash_order (env ctx))"
    using that pipes_close_all_law [of "surv_pipes_of p" ctx]
    by (auto simp: surv_close_def surv_inner_close_def surv_pipes_of_def)
qed

end
