(* ===== verification/Sockets.thy ===== *)
theory Sockets
  imports Core_Socket Proto_Push Proto_Pull Proto_Sub Proto_Pub Proto_Bus Proto_Pair Proto_Rep Proto_Resp Proto_Req Proto_Surv
begin

text \<open>
  Sockets of the ten protocols. \<open>Core_Socket\<close> proves the contract of a socket for any
  protocol that satisfies the laws of \<open>Protocol_Spec\<close>; here it is stated for each
  protocol of \<open>src/proto\<close>, from the creation of the socket on, through the
  interpretations of the protocol theories. Each statement comes with a run of the
  model on a concrete sequence of commands.
\<close>

section \<open>Evaluation\<close>

text \<open>An environment that grants everything, and the equations that evaluate a run.\<close>

definition demo_env :: environment where
  "demo_env = \<lparr>answer_connect = \<lambda>_. Inr 7, answer_reconnect = \<lambda>_. None, answer_schedule = \<lambda>_. Inr 99,
     hash_order = sorted_list_of_set\<rparr>"

lemma enumerates_sorted [simp]: "enumerates sorted_list_of_set"
  by (simp add: enumerates_def)

lemmas queue_eval = priolist_new_def priolist_insert_def item_new_def priolist_len_def priolist_all_def find_by_id_def
  find_by_id_in_all_def set_current_def unset_current_def is_index_active_def set_index_active_def item_at_def
  compute_next_def swap_remove_def remove_at_index_def priolist_remove_def activate_at_index_def activate_def
  pop_def peek_def deactivate_at_index_def deactivate_def upt_rec checked_add_def removable_def ids_def
  pipes_new_def pipes_insert_def pipes_remove_def pipes_get_mut_def pipes_send_to_def pipes_recv_from_def
  load_balancing_send_def fair_queue_recv_def send_to_all_def send_to_all_except_def pipe_send_emit pipe_recv_emit

lemmas invar_new = new_ok(1) [unfolded priolist_new_def]

lemmas socket_eval = socket_connect_def socket_bind_def socket_on_pipe_opened_def socket_on_send_ready_def
  socket_on_recv_ready_def socket_send_def socket_recv_def socket_try_send_def socket_try_recv_def
  socket_on_send_ack_def socket_on_recv_ack_def socket_on_send_timeout_def socket_on_recv_timeout_def
  socket_on_pipe_error_def socket_remove_pipe_def socket_on_timer_tick_def socket_set_option_def socket_poll_def
  get_send_timeout_def get_recv_timeout_def with_protocol_def socket_new_def config_default_def own_simps
  socket_disciplined_def fresh_eid_def demo_env_def message_defs

lemmas bytes_eval = be_instance_def be_bytes_def

section \<open>The push socket\<close>

lemmas push_eval =
  push_from_def push_inner_add_pipe_def push_inner_remove_pipe_def push_inner_send_def
  push_inner_on_send_ready_def push_inner_on_send_not_ready_def push_inner_on_send_ack_def
  push_inner_on_send_timeout_def push_inner_is_send_ready_def push_inner_recv_def push_inner_close_def
  push_st_send_def push_st_on_pipe_removed_def push_st_on_send_ack_def push_st_on_send_timeout_def
  push_st_on_send_ready_def push_st_on_send_not_ready_def push_st_recv_def push_st_on_recv_ack_def
  push_st_on_recv_timeout_def push_st_on_recv_ready_def push_st_on_recv_not_ready_def push_is_send_ready_def
  push_is_recv_ready_def push_apply_def push_add_pipe_def push_remove_pipe_def push_send_def
  push_on_send_ack_def push_on_send_timeout_def push_on_send_ready_def push_on_send_not_ready_def
  push_recv_def push_on_recv_ack_def push_on_recv_timeout_def push_on_recv_ready_def
  push_on_recv_not_ready_def push_close_def push_pipes_of_def push_sending_def

lemma push_socket_start:
  "socket_contract push_ops push_good push_pipes_of push_sending (\<lambda>_. False) [] (socket_new sid push_from, \<lparr>trace = [], env = e\<rparr>)"
  by (simp add: socket_contract_def socket_ok_def accounts_def tracked_def outstanding_def socket_eval queue_eval invar_new
      push_eval push_inner_ok_def push_ok_def push_good_def)

text \<open>
  A push socket never panics and keeps its contract, whatever disciplined sequence of
  user requests, pipe events and timers it goes through from its creation: the invariant
  of the socket and of the protocol holds, every pipe and acceptor it opened and did not
  close is one it still holds, a listener knows its readiness, and every request was
  answered exactly once but for the one outstanding.
\<close>

theorem push_socket_contract:
  assumes "enumerates (hash_order e)"
    and "socket_cmds_ok push_ops (socket_disciplined push_ops push_pipes_of push_admits push_sending (\<lambda>_. False) (\<lambda>_ _. True))
      cmds (socket_new sid push_from) \<lparr>trace = [], env = e\<rparr>"
  shows "runs (socket_run push_ops cmds (socket_new sid push_from) \<lparr>trace = [], env = e\<rparr>)
    (socket_contract push_ops push_good push_pipes_of push_sending (\<lambda>_. False) cmds)"
  using push_p.socket_run_contract [OF push_socket_start _ assms(2)] assms(1) by simp

theorem push_socket_contract_witness:
  "runs (socket_run push_ops [SPoll, SConnect ''tcp://peer'', SPipeOpened 7, SSendReady 7 True, SSend (from_body [1, 2]), SSendAck 7, SPipeError 7]
      (socket_new 1 push_from) \<lparr>trace = [], env = demo_env\<rparr>)
    (socket_contract push_ops push_good push_pipes_of push_sending (\<lambda>_. False)
      [SPoll, SConnect ''tcp://peer'', SPipeOpened 7, SSendReady 7 True, SSend (from_body [1, 2]), SSendAck 7, SPipeError 7])"
  by (rule push_socket_contract)
     (simp_all add: socket_eval queue_eval push_eval)

section \<open>The pull socket\<close>

lemmas pull_eval =
  pull_from_def pull_inner_add_pipe_def pull_inner_remove_pipe_def pull_inner_send_def pull_inner_recv_def
  pull_inner_on_recv_ready_def pull_inner_on_recv_not_ready_def pull_inner_on_recv_ack_def
  pull_inner_on_recv_timeout_def pull_inner_is_recv_ready_def pull_inner_close_def pull_st_recv_def
  pull_st_on_pipe_removed_def pull_st_send_def pull_st_on_send_ack_def pull_st_on_send_timeout_def
  pull_st_on_send_ready_def pull_st_on_send_not_ready_def pull_st_on_recv_ack_def
  pull_st_on_recv_timeout_def pull_st_on_recv_ready_def pull_st_on_recv_not_ready_def pull_is_send_ready_def
  pull_is_recv_ready_def pull_apply_def pull_add_pipe_def pull_remove_pipe_def pull_send_def
  pull_on_send_ack_def pull_on_send_timeout_def pull_on_send_ready_def pull_on_send_not_ready_def
  pull_recv_def pull_on_recv_ack_def pull_on_recv_timeout_def pull_on_recv_ready_def
  pull_on_recv_not_ready_def pull_close_def pull_pipes_of_def pull_receiving_def

lemma pull_socket_start:
  "socket_contract pull_ops pull_good pull_pipes_of (\<lambda>_. False) pull_receiving [] (socket_new sid pull_from, \<lparr>trace = [], env = e\<rparr>)"
  by (simp add: socket_contract_def socket_ok_def accounts_def tracked_def outstanding_def socket_eval queue_eval invar_new
      pull_eval pull_inner_ok_def pull_ok_def pull_good_def)

text \<open>
  A pull socket never panics and keeps its contract, whatever disciplined sequence of
  user requests, pipe events and timers it goes through from its creation: the invariant
  of the socket and of the protocol holds, every pipe and acceptor it opened and did not
  close is one it still holds, a listener knows its readiness, and every request was
  answered exactly once but for the one outstanding.
\<close>

theorem pull_socket_contract:
  assumes "enumerates (hash_order e)"
    and "socket_cmds_ok pull_ops (socket_disciplined pull_ops pull_pipes_of pull_admits (\<lambda>_. False) pull_receiving (\<lambda>_ _. True))
      cmds (socket_new sid pull_from) \<lparr>trace = [], env = e\<rparr>"
  shows "runs (socket_run pull_ops cmds (socket_new sid pull_from) \<lparr>trace = [], env = e\<rparr>)
    (socket_contract pull_ops pull_good pull_pipes_of (\<lambda>_. False) pull_receiving cmds)"
  using pull_p.socket_run_contract [OF pull_socket_start _ assms(2)] assms(1) by simp

theorem pull_socket_contract_witness:
  "runs (socket_run pull_ops [SPoll, SConnect ''tcp://peer'', SPipeOpened 7, SRecv, SRecvReady 7 True, SRecvAck 7 (from_body [1, 2]), STryRecv]
      (socket_new 1 pull_from) \<lparr>trace = [], env = demo_env\<rparr>)
    (socket_contract pull_ops pull_good pull_pipes_of (\<lambda>_. False) pull_receiving
      [SPoll, SConnect ''tcp://peer'', SPipeOpened 7, SRecv, SRecvReady 7 True, SRecvAck 7 (from_body [1, 2]), STryRecv])"
  by (rule pull_socket_contract)
     (simp_all add: socket_eval queue_eval pull_eval)

section \<open>The subscriber socket\<close>

lemmas sub_eval =
  sub_from_def sub_inner_add_pipe_def sub_inner_remove_pipe_def sub_inner_send_def sub_inner_recv_def
  sub_inner_on_recv_ready_def sub_inner_on_recv_not_ready_def sub_inner_on_recv_ack_def
  sub_inner_on_recv_timeout_def sub_inner_is_recv_ready_def sub_inner_subscribe_def
  sub_inner_unsubscribe_def starts_with_def sub_inner_accept_def sub_inner_close_def sub_st_recv_def
  sub_st_on_pipe_removed_def sub_st_send_def sub_st_on_send_ack_def sub_st_on_send_timeout_def
  sub_st_on_send_ready_def sub_st_on_send_not_ready_def sub_st_on_recv_ack_def sub_st_on_recv_timeout_def
  sub_st_on_recv_ready_def sub_st_on_recv_not_ready_def sub_is_send_ready_def sub_is_recv_ready_def
  sub_apply_def sub_add_pipe_def sub_remove_pipe_def sub_send_def sub_on_send_ack_def
  sub_on_send_timeout_def sub_on_send_ready_def sub_on_send_not_ready_def sub_recv_def sub_on_recv_ack_def
  sub_on_recv_timeout_def sub_on_recv_ready_def sub_on_recv_not_ready_def sub_close_def sub_pipes_of_def
  sub_receiving_def

lemma sub_socket_start:
  "socket_contract sub_ops sub_good sub_pipes_of (\<lambda>_. False) sub_receiving [] (socket_new sid sub_from, \<lparr>trace = [], env = e\<rparr>)"
  by (simp add: socket_contract_def socket_ok_def accounts_def tracked_def outstanding_def socket_eval queue_eval invar_new
      sub_eval sub_inner_ok_def sub_ok_def sub_good_def)

text \<open>
  A subscriber socket never panics and keeps its contract, whatever disciplined sequence of
  user requests, pipe events and timers it goes through from its creation: the invariant
  of the socket and of the protocol holds, every pipe and acceptor it opened and did not
  close is one it still holds, a listener knows its readiness, and every request was
  answered exactly once but for the one outstanding.
\<close>

theorem sub_socket_contract:
  assumes "enumerates (hash_order e)"
    and "socket_cmds_ok sub_ops (socket_disciplined sub_ops sub_pipes_of sub_admits (\<lambda>_. False) sub_receiving (\<lambda>_ _. True))
      cmds (socket_new sid sub_from) \<lparr>trace = [], env = e\<rparr>"
  shows "runs (socket_run sub_ops cmds (socket_new sid sub_from) \<lparr>trace = [], env = e\<rparr>)
    (socket_contract sub_ops sub_good sub_pipes_of (\<lambda>_. False) sub_receiving cmds)"
  using sub_p.socket_run_contract [OF sub_socket_start _ assms(2)] assms(1) by simp

theorem sub_socket_contract_witness:
  "runs (socket_run sub_ops [SPoll, SConnect ''tcp://peer'', SPipeOpened 7, SSetOption (Subscribe [1]), SRecvReady 7 True, SRecv, SRecvAck 7 (from_body [1, 2])]
      (socket_new 1 sub_from) \<lparr>trace = [], env = demo_env\<rparr>)
    (socket_contract sub_ops sub_good sub_pipes_of (\<lambda>_. False) sub_receiving
      [SPoll, SConnect ''tcp://peer'', SPipeOpened 7, SSetOption (Subscribe [1]), SRecvReady 7 True, SRecv, SRecvAck 7 (from_body [1, 2])])"
  by (rule sub_socket_contract)
     (simp_all add: socket_eval queue_eval sub_eval)

section \<open>The publisher socket\<close>

lemmas pub_eval =
  pub_from_def pub_add_pipe_def pub_remove_pipe_def pub_send_def pub_on_send_ack_def pub_on_send_timeout_def
  pub_on_send_ready_def pub_on_send_not_ready_def pub_recv_def pub_on_recv_ack_def pub_on_recv_timeout_def
  pub_on_recv_ready_def pub_on_recv_not_ready_def pub_is_send_ready_def pub_is_recv_ready_def pub_close_def

lemma pub_socket_start:
  "socket_contract pub_ops pub_good pub_pipes (\<lambda>_. False) (\<lambda>_. False) [] (socket_new sid pub_from, \<lparr>trace = [], env = e\<rparr>)"
  by (simp add: socket_contract_def socket_ok_def accounts_def tracked_def outstanding_def socket_eval queue_eval invar_new
      pub_eval pub_good_def)

text \<open>
  A publisher socket never panics and keeps its contract, whatever disciplined sequence of
  user requests, pipe events and timers it goes through from its creation: the invariant
  of the socket and of the protocol holds, every pipe and acceptor it opened and did not
  close is one it still holds, a listener knows its readiness, and every request was
  answered exactly once but for the one outstanding.
\<close>

theorem pub_socket_contract:
  assumes "enumerates (hash_order e)"
    and "socket_cmds_ok pub_ops (socket_disciplined pub_ops pub_pipes (\<lambda>_ _. True) (\<lambda>_. False) (\<lambda>_. False) (\<lambda>_ _. True))
      cmds (socket_new sid pub_from) \<lparr>trace = [], env = e\<rparr>"
  shows "runs (socket_run pub_ops cmds (socket_new sid pub_from) \<lparr>trace = [], env = e\<rparr>)
    (socket_contract pub_ops pub_good pub_pipes (\<lambda>_. False) (\<lambda>_. False) cmds)"
  using pub_p.socket_run_contract [OF pub_socket_start _ assms(2)] assms(1) by simp

theorem pub_socket_contract_witness:
  "runs (socket_run pub_ops [SPoll, SConnect ''tcp://peer'', SPipeOpened 7, SSendReady 7 True, SSend (from_body [1, 2]), STrySend (from_body [1, 2])]
      (socket_new 1 pub_from) \<lparr>trace = [], env = demo_env\<rparr>)
    (socket_contract pub_ops pub_good pub_pipes (\<lambda>_. False) (\<lambda>_. False)
      [SPoll, SConnect ''tcp://peer'', SPipeOpened 7, SSendReady 7 True, SSend (from_body [1, 2]), STrySend (from_body [1, 2])])"
  by (rule pub_socket_contract)
     (simp_all add: socket_eval queue_eval pub_eval)

section \<open>The bus socket\<close>

lemmas bus_eval =
  bus_from_def bus_decode_def bus_encode_def bus_inner_add_pipe_def bus_inner_remove_pipe_def
  bus_inner_send_to_all_def bus_inner_send_to_all_except_def bus_inner_send_def bus_inner_on_send_ready_def
  bus_inner_on_send_not_ready_def bus_inner_is_send_ready_def bus_inner_recv_def bus_inner_on_recv_ready_def
  bus_inner_on_recv_not_ready_def bus_inner_on_recv_ack_def bus_inner_on_recv_timeout_def
  bus_inner_is_recv_ready_def bus_inner_close_def bus_st_recv_def bus_st_on_pipe_removed_def bus_st_send_def
  bus_st_on_send_ack_def bus_st_on_send_timeout_def bus_st_on_send_ready_def bus_st_on_send_not_ready_def
  bus_st_on_recv_ack_def bus_st_on_recv_timeout_def bus_st_on_recv_ready_def bus_st_on_recv_not_ready_def
  bus_is_send_ready_def bus_is_recv_ready_def bus_apply_def bus_add_pipe_def bus_remove_pipe_def
  bus_send_def bus_on_send_ack_def bus_on_send_timeout_def bus_on_send_ready_def bus_on_send_not_ready_def
  bus_recv_def bus_on_recv_timeout_def bus_on_recv_ready_def bus_on_recv_not_ready_def bus_on_recv_ack_def
  bus_close_def bus_pipes_of_def bus_receiving_def

lemma bus_socket_start:
  "socket_contract (bus_ops bo) bus_good bus_pipes_of (\<lambda>_. False) bus_receiving [] (socket_new sid bus_from, \<lparr>trace = [], env = e\<rparr>)"
  by (simp add: socket_contract_def socket_ok_def accounts_def tracked_def outstanding_def socket_eval queue_eval invar_new
      bus_eval bus_inner_ok_def bus_ok_def bus_good_def)

text \<open>
  A bus socket never panics and keeps its contract, whatever disciplined sequence of
  user requests, pipe events and timers it goes through from its creation: the invariant
  of the socket and of the protocol holds, every pipe and acceptor it opened and did not
  close is one it still holds, a listener knows its readiness, and every request was
  answered exactly once but for the one outstanding.
\<close>

theorem bus_socket_contract:
  assumes "enumerates (hash_order e)"
    and "socket_cmds_ok (bus_ops bo) (socket_disciplined (bus_ops bo) bus_pipes_of bus_admits (\<lambda>_. False) bus_receiving (\<lambda>_ _. True))
      cmds (socket_new sid bus_from) \<lparr>trace = [], env = e\<rparr>"
  shows "runs (socket_run (bus_ops bo) cmds (socket_new sid bus_from) \<lparr>trace = [], env = e\<rparr>)
    (socket_contract (bus_ops bo) bus_good bus_pipes_of (\<lambda>_. False) bus_receiving cmds)"
  using bus_p.socket_run_contract [OF bus_socket_start _ assms(2)] assms(1) by simp

theorem bus_socket_contract_witness:
  "runs (socket_run (bus_ops be_instance) [SPoll, SConnect ''tcp://peer'', SPipeOpened 7, SSendReady 7 True, SSend (from_body [1, 2]), SRecvReady 7 True, SRecv, SRecvAck 7 (from_body [1, 2])]
      (socket_new 1 bus_from) \<lparr>trace = [], env = demo_env\<rparr>)
    (socket_contract (bus_ops be_instance) bus_good bus_pipes_of (\<lambda>_. False) bus_receiving
      [SPoll, SConnect ''tcp://peer'', SPipeOpened 7, SSendReady 7 True, SSend (from_body [1, 2]), SRecvReady 7 True, SRecv, SRecvAck 7 (from_body [1, 2])])"
  by (rule bus_socket_contract)
     (simp_all add: socket_eval queue_eval bus_eval bytes_eval)

section \<open>The pair socket\<close>

lemmas pair_eval =
  pair_from_def pair_inner_add_pipe_def pair_inner_remove_pipe_def pair_inner_on_pipe_removed_def
  pair_inner_send_def pair_inner_on_send_ready_def pair_inner_on_send_not_ready_def
  pair_inner_on_send_ack_def pair_inner_on_send_timeout_def pair_inner_recv_def pair_inner_on_recv_ready_def
  pair_inner_on_recv_not_ready_def pair_inner_on_recv_ack_def pair_inner_on_recv_timeout_def
  pair_inner_close_def pair_st_on_pipe_removed_def pair_st_send_def pair_st_on_send_ack_def
  pair_st_on_send_timeout_def pair_st_on_send_ready_def pair_st_on_send_not_ready_def pair_st_recv_def
  pair_st_on_recv_ack_def pair_st_on_recv_timeout_def pair_st_on_recv_ready_def
  pair_st_on_recv_not_ready_def pair_is_send_ready_def pair_is_recv_ready_def pair_apply_def
  pair_add_pipe_def pair_remove_pipe_def pair_send_def pair_on_send_ack_def pair_on_send_timeout_def
  pair_on_send_ready_def pair_on_send_not_ready_def pair_recv_def pair_on_recv_ack_def
  pair_on_recv_timeout_def pair_on_recv_ready_def pair_on_recv_not_ready_def pair_close_def pair_pipes_def
  pair_pipes_of_def pair_sending_def pair_receiving_def

lemma pair_socket_start:
  "socket_contract pair_ops pair_good pair_pipes_of pair_sending pair_receiving [] (socket_new sid pair_from, \<lparr>trace = [], env = e\<rparr>)"
  by (simp add: socket_contract_def socket_ok_def accounts_def tracked_def outstanding_def socket_eval queue_eval invar_new
      pair_eval pair_inner_ok_def pair_ok_def pair_good_def pair_busy_def)

text \<open>
  A pair socket never panics and keeps its contract, whatever disciplined sequence of
  user requests, pipe events and timers it goes through from its creation: the invariant
  of the socket and of the protocol holds, every pipe and acceptor it opened and did not
  close is one it still holds, a listener knows its readiness, and every request was
  answered exactly once but for the one outstanding.
\<close>

theorem pair_socket_contract:
  assumes "enumerates (hash_order e)"
    and "socket_cmds_ok pair_ops (socket_disciplined pair_ops pair_pipes_of (\<lambda>_ _. True) pair_sending pair_receiving (\<lambda>_ _. True))
      cmds (socket_new sid pair_from) \<lparr>trace = [], env = e\<rparr>"
  shows "runs (socket_run pair_ops cmds (socket_new sid pair_from) \<lparr>trace = [], env = e\<rparr>)
    (socket_contract pair_ops pair_good pair_pipes_of pair_sending pair_receiving cmds)"
  using pair_p.socket_run_contract [OF pair_socket_start _ assms(2)] assms(1) by simp

theorem pair_socket_contract_witness:
  "runs (socket_run pair_ops [SPoll, SConnect ''tcp://peer'', SPipeOpened 7, SSend (from_body [1, 2]), SSendReady 7 True, SSendAck 7, SRecv, SRecvReady 7 True, SRecvAck 7 (from_body [1, 2])]
      (socket_new 1 pair_from) \<lparr>trace = [], env = demo_env\<rparr>)
    (socket_contract pair_ops pair_good pair_pipes_of pair_sending pair_receiving
      [SPoll, SConnect ''tcp://peer'', SPipeOpened 7, SSend (from_body [1, 2]), SSendReady 7 True, SSendAck 7, SRecv, SRecvReady 7 True, SRecvAck 7 (from_body [1, 2])])"
  by (rule pair_socket_contract)
     (simp_all add: socket_eval queue_eval pair_eval)

section \<open>The reply socket\<close>

lemmas rep_eval =
  rep_inner_new_def rep_from_def rep_inner_add_pipe_def rep_inner_remove_pipe_def
  rep_inner_on_send_malformed_def rep_inner_send_to_def rep_inner_on_send_ack_def
  rep_inner_send_when_inactive_def rep_inner_on_send_timeout_def rep_inner_on_send_ready_def
  rep_inner_on_send_not_ready_def rep_inner_is_send_ready_def rep_inner_is_send_ready_to_def
  rep_inner_recv_def rep_inner_on_recv_ready_def rep_inner_on_recv_not_ready_def rep_inner_set_backtrace_def
  rep_inner_get_backtrace_def rep_inner_clear_backtrace_def rep_inner_on_recv_ack_def
  rep_inner_on_recv_timeout_def rep_inner_on_recv_ack_malformed_def rep_inner_is_recv_ready_def
  rep_inner_raw_msg_to_msg_def rep_inner_msg_to_raw_msg_def rep_inner_close_def rep_st_recv_def
  rep_st_on_pipe_removed_def rep_st_send_reply_to_def rep_st_send_def rep_st_on_send_ack_def
  rep_st_on_send_timeout_def rep_st_on_send_ready_def rep_st_on_send_not_ready_def rep_st_is_send_ready_def
  rep_st_on_recv_ack_def rep_st_on_recv_timeout_def rep_st_on_recv_ready_def rep_st_on_recv_not_ready_def
  rep_st_is_recv_ready_def rep_is_send_ready_def rep_is_recv_ready_def rep_apply_def rep_add_pipe_def
  rep_remove_pipe_def rep_send_def rep_on_send_ack_def rep_on_recv_ack_def rep_on_send_timeout_def
  rep_on_send_ready_def rep_on_send_not_ready_def rep_recv_def rep_on_recv_timeout_def rep_on_recv_ready_def
  rep_on_recv_not_ready_def rep_on_device_plugged_def rep_close_def rep_pipes_of_def rep_sending_def
  rep_receiving_def

lemma rep_socket_start:
  "socket_contract (rep_ops bo) rep_good rep_pipes_of rep_sending rep_receiving [] (socket_new sid rep_from, \<lparr>trace = [], env = e\<rparr>)"
  by (simp add: socket_contract_def socket_ok_def accounts_def tracked_def outstanding_def socket_eval queue_eval invar_new
      rep_eval rep_inner_ok_def rep_ok_def rep_good_def rep_busy_def)

text \<open>
  A reply socket never panics and keeps its contract, whatever disciplined sequence of
  user requests, pipe events and timers it goes through from its creation: the invariant
  of the socket and of the protocol holds, every pipe and acceptor it opened and did not
  close is one it still holds, a listener knows its readiness, and every request was
  answered exactly once but for the one outstanding.
\<close>

theorem rep_socket_contract:
  assumes "enumerates (hash_order e)"
    and "socket_cmds_ok (rep_ops bo) (socket_disciplined (rep_ops bo) rep_pipes_of rep_admits rep_sending rep_receiving (rep_clean bo))
      cmds (socket_new sid rep_from) \<lparr>trace = [], env = e\<rparr>"
  shows "runs (socket_run (rep_ops bo) cmds (socket_new sid rep_from) \<lparr>trace = [], env = e\<rparr>)
    (socket_contract (rep_ops bo) rep_good rep_pipes_of rep_sending rep_receiving cmds)"
  using rep_p.socket_run_contract [OF rep_socket_start _ assms(2)] assms(1) by simp

theorem rep_socket_contract_witness:
  "runs (socket_run (rep_ops be_instance) [SPoll, SConnect ''tcp://peer'', SPipeOpened 7, SRecvReady 7 True, SRecv, SRecvAck 7 (from_body [128, 0, 0, 1, 5]), SSendReady 7 True, SSend (from_body [1, 2]), SSendAck 7]
      (socket_new 1 rep_from) \<lparr>trace = [], env = demo_env\<rparr>)
    (socket_contract (rep_ops be_instance) rep_good rep_pipes_of rep_sending rep_receiving
      [SPoll, SConnect ''tcp://peer'', SPipeOpened 7, SRecvReady 7 True, SRecv, SRecvAck 7 (from_body [128, 0, 0, 1, 5]), SSendReady 7 True, SSend (from_body [1, 2]), SSendAck 7])"
  by (rule rep_socket_contract)
     (simp_all add: socket_eval queue_eval rep_eval bytes_eval rep_take_hops.simps)

section \<open>The respondent socket\<close>

lemmas resp_eval =
  resp_inner_new_def resp_from_def resp_inner_add_pipe_def resp_inner_remove_pipe_def
  resp_inner_on_send_malformed_def resp_inner_send_to_def resp_inner_on_send_ack_def
  resp_inner_send_when_inactive_def resp_inner_on_send_timeout_def resp_inner_on_send_ready_def
  resp_inner_on_send_not_ready_def resp_inner_is_send_ready_def resp_inner_is_send_ready_to_def
  resp_inner_recv_def resp_inner_on_recv_ready_def resp_inner_on_recv_not_ready_def
  resp_inner_set_backtrace_def resp_inner_get_backtrace_def resp_inner_clear_backtrace_def
  resp_inner_on_recv_ack_def resp_inner_on_recv_timeout_def resp_inner_on_recv_ack_malformed_def
  resp_inner_is_recv_ready_def resp_inner_raw_msg_to_msg_def resp_inner_msg_to_raw_msg_def
  resp_inner_close_def resp_st_recv_def resp_st_on_pipe_removed_def resp_st_send_reply_to_def
  resp_st_send_def resp_st_on_send_ack_def resp_st_on_send_timeout_def resp_st_on_send_ready_def
  resp_st_on_send_not_ready_def resp_st_is_send_ready_def resp_st_on_recv_ack_def
  resp_st_on_recv_timeout_def resp_st_on_recv_ready_def resp_st_on_recv_not_ready_def
  resp_st_is_recv_ready_def resp_is_send_ready_def resp_is_recv_ready_def resp_apply_def resp_add_pipe_def
  resp_remove_pipe_def resp_send_def resp_on_send_ack_def resp_on_recv_ack_def resp_on_send_timeout_def
  resp_on_send_ready_def resp_on_send_not_ready_def resp_recv_def resp_on_recv_timeout_def
  resp_on_recv_ready_def resp_on_recv_not_ready_def resp_on_device_plugged_def resp_close_def
  resp_pipes_of_def resp_sending_def resp_receiving_def

lemma resp_socket_start:
  "socket_contract (resp_ops bo) resp_good resp_pipes_of resp_sending resp_receiving [] (socket_new sid resp_from, \<lparr>trace = [], env = e\<rparr>)"
  by (simp add: socket_contract_def socket_ok_def accounts_def tracked_def outstanding_def socket_eval queue_eval invar_new
      resp_eval resp_inner_ok_def resp_ok_def resp_good_def resp_busy_def)

text \<open>
  A respondent socket never panics and keeps its contract, whatever disciplined sequence of
  user requests, pipe events and timers it goes through from its creation: the invariant
  of the socket and of the protocol holds, every pipe and acceptor it opened and did not
  close is one it still holds, a listener knows its readiness, and every request was
  answered exactly once but for the one outstanding.
\<close>

theorem resp_socket_contract:
  assumes "enumerates (hash_order e)"
    and "socket_cmds_ok (resp_ops bo) (socket_disciplined (resp_ops bo) resp_pipes_of resp_admits resp_sending resp_receiving (resp_clean bo))
      cmds (socket_new sid resp_from) \<lparr>trace = [], env = e\<rparr>"
  shows "runs (socket_run (resp_ops bo) cmds (socket_new sid resp_from) \<lparr>trace = [], env = e\<rparr>)
    (socket_contract (resp_ops bo) resp_good resp_pipes_of resp_sending resp_receiving cmds)"
  using resp_p.socket_run_contract [OF resp_socket_start _ assms(2)] assms(1) by simp

theorem resp_socket_contract_witness:
  "runs (socket_run (resp_ops be_instance) [SPoll, SConnect ''tcp://peer'', SPipeOpened 7, SRecvReady 7 True, SRecv, SRecvAck 7 (from_body [128, 0, 0, 1, 5]), SSendReady 7 True, SSend (from_body [1, 2]), SSendAck 7]
      (socket_new 1 resp_from) \<lparr>trace = [], env = demo_env\<rparr>)
    (socket_contract (resp_ops be_instance) resp_good resp_pipes_of resp_sending resp_receiving
      [SPoll, SConnect ''tcp://peer'', SPipeOpened 7, SRecvReady 7 True, SRecv, SRecvAck 7 (from_body [128, 0, 0, 1, 5]), SSendReady 7 True, SSend (from_body [1, 2]), SSendAck 7])"
  by (rule resp_socket_contract)
     (simp_all add: socket_eval queue_eval resp_eval bytes_eval resp_take_hops.simps)

section \<open>The request socket\<close>

lemmas req_eval =
  req_inner_new_def req_from_def req_encode_def req_decode_def req_inner_add_pipe_def
  req_inner_remove_pipe_def req_inner_send_def req_inner_on_send_ready_def req_inner_on_send_not_ready_def
  req_inner_on_send_ack_def req_inner_on_send_timeout_def req_inner_is_send_ready_def req_inner_cancel_def
  req_inner_recv_def req_inner_recv_reply_from_def req_inner_recv_when_inactive_def
  req_inner_on_recv_ack_def req_inner_on_recv_timeout_def req_inner_on_recv_ack_malformed_def
  req_inner_on_recv_ready_def req_inner_on_recv_not_ready_def req_inner_is_recv_ready_from_def
  req_inner_is_recv_ready_def req_inner_cur_req_id_def req_inner_next_req_id_def
  req_inner_msg_to_raw_msg_def req_inner_raw_msg_to_msg_def req_inner_set_resend_ivl_def req_inner_close_def
  req_st_send_def req_st_recv_reply_for_def req_st_recv_def req_st_on_pipe_removed_def
  req_st_on_send_ack_def req_st_on_send_timeout_def req_st_on_send_ready_def req_st_on_send_not_ready_def
  req_st_is_send_ready_def req_st_on_recv_ack_def req_st_on_recv_timeout_def req_st_on_recv_ready_def
  req_st_on_recv_not_ready_def req_st_on_retry_timeout_def req_st_is_recv_ready_def req_is_send_ready_def
  req_is_recv_ready_def req_apply_def req_add_pipe_def req_remove_pipe_def req_send_def req_on_recv_ack_def
  req_on_send_ack_def req_on_send_timeout_def req_on_send_ready_def req_on_send_not_ready_def req_recv_def
  req_on_recv_timeout_def req_on_recv_ready_def req_on_recv_not_ready_def req_on_timer_tick_def
  req_on_device_plugged_def req_close_def req_pipes_of_def req_sending_def req_receiving_def

lemma req_socket_start:
  "socket_contract (req_ops bo) req_good req_pipes_of req_sending req_receiving [] (socket_new sid (req_from nsec), \<lparr>trace = [], env = e\<rparr>)"
  by (simp add: socket_contract_def socket_ok_def accounts_def tracked_def outstanding_def socket_eval queue_eval invar_new
      req_eval req_inner_ok_def req_ok_def req_good_def req_busy_def)

text \<open>
  A request socket never panics and keeps its contract, whatever disciplined sequence of
  user requests, pipe events and timers it goes through from its creation: the invariant
  of the socket and of the protocol holds, every pipe and acceptor it opened and did not
  close is one it still holds, a listener knows its readiness, and every request was
  answered exactly once but for the one outstanding.
\<close>

theorem req_socket_contract:
  assumes "enumerates (hash_order e)"
    and "socket_cmds_ok (req_ops bo) (socket_disciplined (req_ops bo) req_pipes_of req_admits req_sending req_receiving (req_clean bo))
      cmds (socket_new sid (req_from nsec)) \<lparr>trace = [], env = e\<rparr>"
  shows "runs (socket_run (req_ops bo) cmds (socket_new sid (req_from nsec)) \<lparr>trace = [], env = e\<rparr>)
    (socket_contract (req_ops bo) req_good req_pipes_of req_sending req_receiving cmds)"
  using req_p.socket_run_contract [OF req_socket_start _ assms(2)] assms(1) by simp

theorem req_socket_contract_witness:
  "runs (socket_run (req_ops be_instance) [SPoll, SConnect ''tcp://peer'', SPipeOpened 7, SSendReady 7 True, SSend (from_body [1, 2]), SSendAck 7, SRecv, SRecvReady 7 True, SRecvAck 7 (from_body [128, 0, 0, 1, 5])]
      (socket_new 1 (req_from 0)) \<lparr>trace = [], env = demo_env\<rparr>)
    (socket_contract (req_ops be_instance) req_good req_pipes_of req_sending req_receiving
      [SPoll, SConnect ''tcp://peer'', SPipeOpened 7, SSendReady 7 True, SSend (from_body [1, 2]), SSendAck 7, SRecv, SRecvReady 7 True, SRecvAck 7 (from_body [128, 0, 0, 1, 5])])"
  by (rule req_socket_contract)
     (simp_all add: socket_eval queue_eval req_eval bytes_eval)

section \<open>The surveyor socket\<close>

lemmas surv_eval =
  surv_inner_new_def surv_from_def surv_encode_def surv_decode_def surv_inner_add_pipe_def
  surv_inner_remove_pipe_def surv_inner_cur_survey_id_def surv_inner_next_survey_id_def surv_inner_send_def
  surv_inner_on_send_ready_def surv_inner_on_send_not_ready_def surv_inner_is_send_ready_def
  surv_inner_recv_def surv_inner_recv_when_inactive_def surv_inner_on_recv_ready_def
  surv_inner_on_recv_not_ready_def surv_inner_is_recv_ready_def surv_inner_on_recv_ack_def
  surv_inner_on_recv_timeout_def surv_inner_on_recv_ack_malformed_def surv_inner_cancel_def
  surv_inner_msg_to_raw_msg_def surv_inner_raw_msg_to_msg_def surv_inner_set_survey_deadline_def
  surv_inner_close_def surv_st_recv_reply_for_def surv_st_recv_def surv_st_on_pipe_removed_def
  surv_st_send_def surv_st_on_send_ack_def surv_st_on_send_timeout_def surv_st_on_send_ready_def
  surv_st_on_send_not_ready_def surv_st_is_send_ready_def surv_st_on_recv_ack_def
  surv_st_on_recv_timeout_def surv_st_on_recv_ready_def surv_st_on_recv_not_ready_def
  surv_st_on_survey_timeout_def surv_st_is_recv_ready_def surv_is_send_ready_def surv_is_recv_ready_def
  surv_apply_def surv_add_pipe_def surv_remove_pipe_def surv_send_def surv_on_recv_ack_def
  surv_on_send_ack_def surv_on_send_timeout_def surv_on_send_ready_def surv_on_send_not_ready_def
  surv_recv_def surv_on_recv_timeout_def surv_on_recv_ready_def surv_on_recv_not_ready_def
  surv_on_timer_tick_def surv_on_device_plugged_def surv_close_def surv_pipes_of_def surv_receiving_def

lemma surv_socket_start:
  "socket_contract (surv_ops bo) surv_good surv_pipes_of (\<lambda>_. False) surv_receiving [] (socket_new sid (surv_from nsec), \<lparr>trace = [], env = e\<rparr>)"
  by (simp add: socket_contract_def socket_ok_def accounts_def tracked_def outstanding_def socket_eval queue_eval invar_new
      surv_eval surv_inner_ok_def surv_ok_def surv_good_def)

text \<open>
  A surveyor socket never panics and keeps its contract, whatever disciplined sequence of
  user requests, pipe events and timers it goes through from its creation: the invariant
  of the socket and of the protocol holds, every pipe and acceptor it opened and did not
  close is one it still holds, a listener knows its readiness, and every request was
  answered exactly once but for the one outstanding.
\<close>

theorem surv_socket_contract:
  assumes "enumerates (hash_order e)"
    and "socket_cmds_ok (surv_ops bo) (socket_disciplined (surv_ops bo) surv_pipes_of surv_admits (\<lambda>_. False) surv_receiving (surv_clean bo))
      cmds (socket_new sid (surv_from nsec)) \<lparr>trace = [], env = e\<rparr>"
  shows "runs (socket_run (surv_ops bo) cmds (socket_new sid (surv_from nsec)) \<lparr>trace = [], env = e\<rparr>)
    (socket_contract (surv_ops bo) surv_good surv_pipes_of (\<lambda>_. False) surv_receiving cmds)"
  using surv_p.socket_run_contract [OF surv_socket_start _ assms(2)] assms(1) by simp

theorem surv_socket_contract_witness:
  "runs (socket_run (surv_ops be_instance) [SPoll, SConnect ''tcp://peer'', SPipeOpened 7, SSendReady 7 True, SSend (from_body [1, 2]), SRecv, SRecvReady 7 True, SRecvAck 7 (from_body [128, 0, 0, 1, 5])]
      (socket_new 1 (surv_from 0)) \<lparr>trace = [], env = demo_env\<rparr>)
    (socket_contract (surv_ops be_instance) surv_good surv_pipes_of (\<lambda>_. False) surv_receiving
      [SPoll, SConnect ''tcp://peer'', SPipeOpened 7, SSendReady 7 True, SSend (from_body [1, 2]), SRecv, SRecvReady 7 True, SRecvAck 7 (from_body [128, 0, 0, 1, 5])])"
  by (rule surv_socket_contract)
     (simp_all add: socket_eval queue_eval surv_eval bytes_eval)

end
