(* ===== verification/Core_Device.thy ===== *)
theory Core_Device
  imports Core_Context
begin

text \<open>
  The event loop's side of a bridge device, \<open>src/core/device.rs\<close>: it remembers which of
  its two sockets can receive, and answers the \<open>Check\<close> requests of the facade once one of
  them can. Polling a socket and sending a reply are entries of a log.
\<close>

section \<open>The device\<close>

datatype device_request = DeviceReqCheck | DeviceReqClose

datatype device_reply = DeviceCheck bool bool | DeviceClosed

datatype device_effect = DevicePoll socket_id | DeviceReply device_reply

record device =
  dev_left :: socket_id
  dev_right :: socket_id
  dev_left_recv :: bool
  dev_right_recv :: bool
  dev_waiting :: bool

definition device_new :: "socket_id \<Rightarrow> socket_id \<Rightarrow> device" where
  "device_new l r = \<lparr>dev_left = l, dev_right = r, dev_left_recv = False, dev_right_recv = False, dev_waiting = False\<rparr>"

definition device_send_reply :: "device_effect list \<Rightarrow> device_reply \<Rightarrow> device_effect list" where
  "device_send_reply es r = es @ [DeviceReply r]"

definition send_check_reply :: "device \<Rightarrow> device_effect list \<Rightarrow> device \<times> device_effect list" where
  "send_check_reply d es =
     (d\<lparr>dev_waiting := False\<rparr>, device_send_reply es (DeviceCheck (dev_left_recv d) (dev_right_recv d)))"

definition device_check :: "device \<Rightarrow> device_effect list \<Rightarrow> device \<times> device_effect list" where
  "device_check d es =
     (if dev_left_recv d \<or> dev_right_recv d then send_check_reply d es
      else (d\<lparr>dev_waiting := True\<rparr>, es @ [DevicePoll (dev_left d), DevicePoll (dev_right d)]))"

definition device_on_socket_can_recv ::
  "device \<Rightarrow> device_effect list \<Rightarrow> socket_id \<Rightarrow> bool \<Rightarrow> device \<times> device_effect list" where
  "device_on_socket_can_recv d es sid can_recv =
     (let d' = (if sid = dev_left d then d\<lparr>dev_left_recv := can_recv\<rparr>
                else if sid = dev_right d then d\<lparr>dev_right_recv := can_recv\<rparr>
                else d)
      in (if can_recv \<and> dev_waiting d' then send_check_reply d' es else (d', es)))"

definition get_left_id :: "device \<Rightarrow> socket_id" where
  "get_left_id d = dev_left d"

definition get_right_id :: "device \<Rightarrow> socket_id" where
  "get_right_id d = dev_right d"

definition device_drop :: "device_effect list \<Rightarrow> device_effect list" where
  "device_drop es = device_send_reply es DeviceClosed"

lemmas device_defs = device_new_def device_send_reply_def send_check_reply_def device_check_def
  device_on_socket_can_recv_def

section \<open>Sequences of calls\<close>

datatype device_cmd = DCheck | DCanRecv socket_id bool

fun device_step :: "device_cmd \<Rightarrow> device \<times> device_effect list \<Rightarrow> device \<times> device_effect list" where
  "device_step DCheck (d, es) = device_check d es"
| "device_step (DCanRecv sid b) (d, es) = device_on_socket_can_recv d es sid b"

definition device_run :: "device_cmd list \<Rightarrow> device \<times> device_effect list \<Rightarrow> device \<times> device_effect list" where
  "device_run cmds s = fold device_step cmds s"

lemma device_run_simps [simp]:
  "device_run [] s = s"
  "device_run (cmd # cmds) s = device_run cmds (device_step cmd s)"
  by (simp_all add: device_run_def)

text \<open>
  The facade waits for the reply to a check before the next one; the session only
  forwards the events of the two sockets of the device.
\<close>

fun device_legal :: "device \<Rightarrow> device_cmd \<Rightarrow> bool" where
  "device_legal d DCheck \<longleftrightarrow> \<not> dev_waiting d"
| "device_legal d (DCanRecv sid _) \<longleftrightarrow> sid = dev_left d \<or> sid = dev_right d"

fun device_cmds_ok :: "device_cmd list \<Rightarrow> device \<times> device_effect list \<Rightarrow> bool" where
  "device_cmds_ok [] s \<longleftrightarrow> True"
| "device_cmds_ok (cmd # cmds) s \<longleftrightarrow> device_legal (fst s) cmd \<and> device_cmds_ok cmds (device_step cmd s)"

section \<open>The last thing heard of a socket\<close>

text \<open>What the events say of a socket: the value of the last one, not ready before.\<close>

definition heard :: "socket_id \<Rightarrow> device_cmd list \<Rightarrow> bool" where
  "heard sid cmds = fold (\<lambda>cmd b. case cmd of DCanRecv i x \<Rightarrow> if i = sid then x else b | DCheck \<Rightarrow> b) cmds False"

lemma heard_snoc:
  "heard sid (cmds @ [cmd]) = (case cmd of DCanRecv i x \<Rightarrow> if i = sid then x else heard sid cmds | DCheck \<Rightarrow> heard sid cmds)"
  by (simp add: heard_def split: device_cmd.splits)

definition check_replies :: "device_effect list \<Rightarrow> (bool \<times> bool) list" where
  "check_replies es = List.map_filter (\<lambda>e. case e of DeviceReply (DeviceCheck l r) \<Rightarrow> Some (l, r) | _ \<Rightarrow> None) es"

lemma check_replies_simps [simp]:
  "check_replies [] = []"
  "check_replies (es @ [DeviceReply (DeviceCheck l r)]) = check_replies es @ [(l, r)]"
  "check_replies (es @ [DevicePoll a, DevicePoll b]) = check_replies es"
  by (simp_all add: check_replies_def map_filter_def)

text \<open>
  What a device is meant to do, from the history of its calls alone: a check is answered as soon
  as the last thing heard of one of the two sockets is that it can receive, with the last thing
  heard of both; a check that has to wait polls both sockets. Events of a socket that is on both
  sides count for the left one.
\<close>

definition heard_right :: "socket_id \<Rightarrow> socket_id \<Rightarrow> device_cmd list \<Rightarrow> bool" where
  "heard_right l r cmds \<longleftrightarrow> r \<noteq> l \<and> heard r cmds"

definition device_spec_step ::
  "socket_id \<Rightarrow> socket_id \<Rightarrow> device_cmd \<Rightarrow> device_cmd list \<times> bool \<times> device_effect list \<Rightarrow> device_cmd list \<times> bool \<times> device_effect list" where
  "device_spec_step l r cmd = (\<lambda>(before, asked, es).
     let history = before @ [cmd]
     in (if (asked \<or> cmd = DCheck) \<and> (heard l history \<or> heard_right l r history)
         then (history, False, es @ [DeviceReply (DeviceCheck (heard l history) (heard_right l r history))])
         else if cmd = DCheck then (history, True, es @ [DevicePoll l, DevicePoll r])
         else (history, asked, es)))"

definition device_spec :: "socket_id \<Rightarrow> socket_id \<Rightarrow> device_cmd list \<Rightarrow> device_cmd list \<times> bool \<times> device_effect list" where
  "device_spec l r cmds = fold (device_spec_step l r) cmds ([], False, [])"

lemma device_spec_snoc: "device_spec l r (cmds @ [cmd]) = device_spec_step l r cmd (device_spec l r cmds)"
  by (simp add: device_spec_def)

text \<open>
  The state of a device after a run: what it believes of its sockets is what it last
  heard, it waits only while neither can receive, it did what it is meant to do and waits
  when it is meant to, and every check but the one it waits for was answered.
\<close>

definition device_state :: "socket_id \<Rightarrow> socket_id \<Rightarrow> device_cmd list \<Rightarrow> device \<times> device_effect list \<Rightarrow> bool" where
  "device_state l r cmds s \<longleftrightarrow> (case s of (d, es) \<Rightarrow>
     dev_left d = l \<and> dev_right d = r \<and>
     dev_left_recv d = heard l cmds \<and> dev_right_recv d = heard_right l r cmds \<and>
     (dev_waiting d \<longrightarrow> \<not> heard l cmds \<and> \<not> heard_right l r cmds) \<and>
     device_spec l r cmds = (cmds, dev_waiting d, es) \<and>
     length (check_replies es) + of_bool (dev_waiting d) = length (filter (\<lambda>c. c = DCheck) cmds))"

lemma device_step_state:
  assumes "device_state l r cmds s" and "device_legal (fst s) cmd"
  shows "device_state l r (cmds @ [cmd]) (device_step cmd s)"
proof -
  obtain d es where s: "s = (d, es)" by (cases s)
  have spec: "device_spec l r (cmds @ [cmd]) = device_spec_step l r cmd (cmds, dev_waiting d, es)"
    using assms(1) by (simp add: device_spec_snoc device_state_def s)
  show ?thesis
  proof (cases cmd)
    case DCheck
    then show ?thesis using assms spec
      by (auto simp: s device_state_def device_defs device_spec_step_def heard_snoc heard_right_def)
  next
    case (DCanRecv sid b)
    then show ?thesis using assms spec
      by (cases "sid = l"; cases b; cases "dev_waiting d")
        (auto simp: s device_state_def device_defs device_spec_step_def heard_snoc heard_right_def)
  qed
qed

lemma device_run_state:
  assumes "device_state l r before s" and "device_cmds_ok cmds s"
  shows "device_state l r (before @ cmds) (device_run cmds s)"
  using assms
proof (induction cmds arbitrary: before s)
  case (Cons cmd cmds)
  then have "device_state l r (before @ [cmd]) (device_step cmd s)"
    by (intro device_step_state) auto
  from Cons.IH [OF this] Cons.prems(2) show ?case by simp
qed simp

text \<open>
  (C36) A bridge device answers each check exactly once, with what it heard of its sockets. Over any
  legal sequence of checks and events, what the device did is what the history of its calls asks
  for: each answer comes as soon as the last thing heard of one of its sockets is that it can
  receive, and it says, left socket first, what was heard last of each of them; a check that has
  to wait polls both sockets, left one first, and the device waits only while it heard of neither
  that it can receive. The number of answers plus the check it still waits for is the number of
  checks asked.
\<close>

theorem device_answers_checks:
  assumes "device_cmds_ok cmds (device_new l r, [])"
  shows "device_state l r cmds (device_run cmds (device_new l r, []))"
  using device_run_state [OF _ assms, of l r "[]"]
  by (simp add: device_state_def device_new_def heard_def heard_right_def device_spec_def)

theorem device_answers_checks_witness:
  "device_state 1 2 [DCheck, DCanRecv 1 False, DCanRecv 2 True, DCheck]
     (device_run [DCheck, DCanRecv 1 False, DCanRecv 2 True, DCheck] (device_new 1 2, []))"
  by (rule device_answers_checks) (simp add: device_defs)

end
