(* ===== verification/Core_Probe.thy ===== *)
theory Core_Probe
  imports Core_Context
begin

text \<open>
  The event loop's side of a probe, \<open>src/core/probe.rs\<close>: a poll asks every socket for
  its readiness and collects their votes; it is answered when every side of interest is
  ready, or when its timer fires. Calls on the context and replies are entries of a log.
\<close>

section \<open>Data\<close>

record poll_req =
  pq_sid :: socket_id
  pq_recv :: bool
  pq_send :: bool

record poll_res =
  ps_recv :: bool
  ps_send :: bool

datatype probe_request = ProbeReqPoll duration | ProbeReqClose

datatype probe_reply = ProbeErr io_error | ProbePolled "poll_res list" | ProbeClosed

datatype probe_schedulable = PollTimeout

datatype probe_effect =
    ProbeScheduling probe_schedulable duration
  | ProbeCancel scheduled
  | ProbePoll socket_id
  | ProbeReply probe_reply

record probe_ctx =
  probe_trace :: "probe_effect list"
  probe_answer :: "probe_effect list \<Rightarrow> io_error + scheduled"

record probe =
  poll_opts :: "poll_req list"
  recv_votes :: "bool option list"
  send_votes :: "bool option list"
  sid_to_idx :: "socket_id \<rightharpoonup> nat"
  pr_timeout :: timeout

definition probe_new :: "poll_req list \<Rightarrow> probe" where
  "probe_new opts = \<lparr>poll_opts = opts,
     recv_votes = map (\<lambda>_. None) opts,
     send_votes = map (\<lambda>_. None) opts,
     sid_to_idx = fold (\<lambda>(i, po) m. m(pq_sid po \<mapsto> i)) (enumerate 0 opts) Map.empty,
     pr_timeout = None\<rparr>"

section \<open>Calls on the context\<close>

definition probe_emit :: "probe_effect \<Rightarrow> probe_ctx \<Rightarrow> probe_ctx" where
  "probe_emit e ctx = ctx\<lparr>probe_trace := probe_trace ctx @ [e]\<rparr>"

definition probe_schedule :: "probe_ctx \<Rightarrow> probe_schedulable \<Rightarrow> duration \<Rightarrow> (io_error + scheduled) \<times> probe_ctx" where
  "probe_schedule ctx task delay =
     (let ctx' = probe_emit (ProbeScheduling task delay) ctx in (probe_answer ctx (probe_trace ctx'), ctx'))"

definition probe_send_reply :: "probe_ctx \<Rightarrow> probe_reply \<Rightarrow> probe_ctx" where
  "probe_send_reply ctx r = probe_emit (ProbeReply r) ctx"

section \<open>Votes\<close>

fun is_vote_over :: "bool \<Rightarrow> bool option \<Rightarrow> bool" where
  "is_vote_over False _ = True"
| "is_vote_over True None = False"
| "is_vote_over True (Some x) = x"

fun is_socket_side_ready :: "bool \<Rightarrow> bool option \<Rightarrow> bool" where
  "is_socket_side_ready False _ = False"
| "is_socket_side_ready True None = False"
| "is_socket_side_ready True (Some x) = x"

text \<open>\<open>clear_votes\<close> runs over the indices of \<open>poll_opts\<close>.\<close>

fun clear_from :: "nat list \<Rightarrow> probe \<Rightarrow> probe option" where
  "clear_from [] p = Some p"
| "clear_from (i # is) p = do {
     rv \<leftarrow> index_set (recv_votes p) i None;
     sv \<leftarrow> index_set (send_votes p) i None;
     clear_from is (p\<lparr>recv_votes := rv, send_votes := sv\<rparr>) }"

definition clear_votes :: "probe \<Rightarrow> probe option" where
  "clear_votes p = clear_from [0..<length (poll_opts p)] p"

definition on_poll_succeed :: "probe \<Rightarrow> probe_ctx \<Rightarrow> poll_res list \<Rightarrow> (probe \<times> probe_ctx) option" where
  "on_poll_succeed p ctx poll_results = do {
     let ctx' = (case pr_timeout p of Some t \<Rightarrow> probe_emit (ProbeCancel t) ctx | None \<Rightarrow> ctx);
     p' \<leftarrow> clear_votes (p\<lparr>pr_timeout := None\<rparr>);
     Some (p', probe_send_reply ctx' (ProbePolled poll_results)) }"

text \<open>The loop of \<open>check\<close>, with its early returns: are all the votes over?\<close>

fun votes_over :: "probe \<Rightarrow> (nat \<times> poll_req) list \<Rightarrow> bool option" where
  "votes_over p [] = Some True"
| "votes_over p ((i, po) # pos) = do {
     rv \<leftarrow> index_at (recv_votes p) i;
     if \<not> is_vote_over (pq_recv po) rv then Some False
     else do {
       sv \<leftarrow> index_at (send_votes p) i;
       if \<not> is_vote_over (pq_send po) sv then Some False else votes_over p pos } }"

definition probe_check :: "probe \<Rightarrow> probe_ctx \<Rightarrow> (probe \<times> probe_ctx) option" where
  "probe_check p ctx =
     (if pr_timeout p = None then Some (p, ctx)
      else do {
        over \<leftarrow> votes_over p (enumerate 0 (poll_opts p));
        if \<not> over then Some (p, ctx)
        else on_poll_succeed p ctx (map (\<lambda>po. \<lparr>ps_recv = pq_recv po, ps_send = pq_send po\<rparr>) (poll_opts p)) })"

section \<open>Operations\<close>

definition start_poll :: "probe \<Rightarrow> probe_ctx \<Rightarrow> scheduled \<Rightarrow> (probe \<times> probe_ctx) option" where
  "start_poll p ctx t =
     (let p' = p\<lparr>pr_timeout := Some t\<rparr>
      in probe_check p' (fold (\<lambda>po. probe_emit (ProbePoll (pq_sid po))) (poll_opts p') ctx))"

definition probe_poll :: "probe \<Rightarrow> probe_ctx \<Rightarrow> duration \<Rightarrow> (probe \<times> probe_ctx) option" where
  "probe_poll p ctx delay =
     (case probe_schedule ctx PollTimeout delay of
        (Inr t, ctx') \<Rightarrow> start_poll p ctx' t
      | (Inl e, ctx') \<Rightarrow> Some (p, probe_send_reply ctx' (ProbeErr e)))"

fun side_results :: "probe \<Rightarrow> (nat \<times> poll_req) list \<Rightarrow> poll_res list option" where
  "side_results p [] = Some []"
| "side_results p ((i, po) # pos) = do {
     rv \<leftarrow> index_at (recv_votes p) i;
     sv \<leftarrow> index_at (send_votes p) i;
     rs \<leftarrow> side_results p pos;
     Some (\<lparr>ps_recv = is_socket_side_ready (pq_recv po) rv, ps_send = is_socket_side_ready (pq_send po) sv\<rparr> # rs) }"

definition on_poll_timeout :: "probe \<Rightarrow> probe_ctx \<Rightarrow> (probe \<times> probe_ctx) option" where
  "on_poll_timeout p ctx = do {
     rs \<leftarrow> side_results p (enumerate 0 (poll_opts p));
     on_poll_succeed p ctx rs }"

definition probe_on_socket_can_recv :: "probe \<Rightarrow> probe_ctx \<Rightarrow> socket_id \<Rightarrow> bool \<Rightarrow> (probe \<times> probe_ctx) option" where
  "probe_on_socket_can_recv p ctx sid can_recv = do {
     p' \<leftarrow> (case sid_to_idx p sid of
        Some i \<Rightarrow> do { rv \<leftarrow> index_set (recv_votes p) i (Some can_recv); Some (p\<lparr>recv_votes := rv\<rparr>) }
      | None \<Rightarrow> Some p);
     probe_check p' ctx }"

definition probe_on_socket_can_send :: "probe \<Rightarrow> probe_ctx \<Rightarrow> socket_id \<Rightarrow> bool \<Rightarrow> (probe \<times> probe_ctx) option" where
  "probe_on_socket_can_send p ctx sid can_send = do {
     p' \<leftarrow> (case sid_to_idx p sid of
        Some i \<Rightarrow> do { sv \<leftarrow> index_set (send_votes p) i (Some can_send); Some (p\<lparr>send_votes := sv\<rparr>) }
      | None \<Rightarrow> Some p);
     probe_check p' ctx }"

definition get_socket_ids :: "probe \<Rightarrow> socket_id list" where
  "get_socket_ids p = map pq_sid (poll_opts p)"

definition probe_drop :: "probe_ctx \<Rightarrow> probe_ctx" where
  "probe_drop ctx = probe_send_reply ctx ProbeClosed"

section \<open>Invariant\<close>

definition probe_ok :: "probe \<Rightarrow> bool" where
  "probe_ok p \<longleftrightarrow> length (recv_votes p) = length (poll_opts p) \<and> length (send_votes p) = length (poll_opts p) \<and>
     (\<forall>sid i. sid_to_idx p sid = Some i \<longrightarrow> i < length (poll_opts p) \<and> pq_sid (poll_opts p ! i) = sid)"

text \<open>All the sides of interest voted ready.\<close>

definition complete :: "probe \<Rightarrow> bool" where
  "complete p \<longleftrightarrow> (\<forall>i < length (poll_opts p).
     is_vote_over (pq_recv (poll_opts p ! i)) (recv_votes p ! i) \<and>
     is_vote_over (pq_send (poll_opts p ! i)) (send_votes p ! i))"

definition interests :: "probe \<Rightarrow> poll_res list" where
  "interests p = map (\<lambda>po. \<lparr>ps_recv = pq_recv po, ps_send = pq_send po\<rparr>) (poll_opts p)"

definition cleared :: "probe \<Rightarrow> probe" where
  "cleared p = p\<lparr>recv_votes := map (\<lambda>_. None) (poll_opts p), send_votes := map (\<lambda>_. None) (poll_opts p), pr_timeout := None\<rparr>"

lemma probe_emit_simps [simp]:
  "probe_trace (probe_emit e ctx) = probe_trace ctx @ [e]" "probe_answer (probe_emit e ctx) = probe_answer ctx"
  by (simp_all add: probe_emit_def)

lemma emit_polls:
  "fold (\<lambda>po. probe_emit (ProbePoll (pq_sid po))) pos ctx =
     ctx\<lparr>probe_trace := probe_trace ctx @ map (\<lambda>po. ProbePoll (pq_sid po)) pos\<rparr>"
  by (induction pos arbitrary: ctx) (simp_all add: probe_emit_def)

lemma mapping_in_range:
  assumes "fold (\<lambda>(i, po) m. m(pq_sid po \<mapsto> i)) (enumerate k opts) m sid = Some i"
    and "\<And>sid i. m sid = Some i \<Longrightarrow> P sid i" and "\<And>j. j < length opts \<Longrightarrow> P (pq_sid (opts ! j)) (k + j)"
  shows "P sid i"
  using assms
proof (induction opts arbitrary: k m)
  case (Cons po opts)
  let ?m = "m(pq_sid po \<mapsto> k)"
  show ?case
  proof (rule Cons.IH [of "Suc k" ?m])
    show "fold (\<lambda>(i, po) m. m(pq_sid po \<mapsto> i)) (enumerate (Suc k) opts) ?m sid = Some i"
      using Cons.prems(1) by (simp del: fun_upd_apply)
    show "P sid' i'" if "?m sid' = Some i'" for sid' i'
      using that Cons.prems(2) Cons.prems(3) [of 0] by (auto split: if_splits)
    show "P (pq_sid (opts ! j)) (Suc k + j)" if "j < length opts" for j
      using Cons.prems(3) [of "Suc j"] that by simp
  qed
qed simp

lemma probe_new_ok: "probe_ok (probe_new opts)"
  unfolding probe_ok_def probe_new_def
  by (auto elim!: mapping_in_range)

lemma clear_from_eq:
  assumes "length (recv_votes p) = n" "length (send_votes p) = n" "\<forall>i \<in> set is. i < n"
  shows "\<exists>rv sv. clear_from is p = Some (p\<lparr>recv_votes := rv, send_votes := sv\<rparr>) \<and> length rv = n \<and> length sv = n \<and>
    (\<forall>j < n. rv ! j = (if j \<in> set is then None else recv_votes p ! j) \<and> sv ! j = (if j \<in> set is then None else send_votes p ! j))"
  using assms
proof (induction "is" arbitrary: p)
  case (Cons i "is")
  let ?p = "p\<lparr>recv_votes := (recv_votes p)[i := None], send_votes := (send_votes p)[i := None]\<rparr>"
  have "length (recv_votes ?p) = n" "length (send_votes ?p) = n" "\<forall>i \<in> set is. i < n"
    using Cons.prems by auto
  from Cons.IH [OF this] obtain rv sv where step: "clear_from is ?p = Some (?p\<lparr>recv_votes := rv, send_votes := sv\<rparr>)"
    "length rv = n" "length sv = n"
    "\<And>j. j < n \<Longrightarrow> rv ! j = (if j \<in> set is then None else (recv_votes p)[i := None] ! j)"
    "\<And>j. j < n \<Longrightarrow> sv ! j = (if j \<in> set is then None else (send_votes p)[i := None] ! j)" by auto
  have "clear_from (i # is) p = Some (p\<lparr>recv_votes := rv, send_votes := sv\<rparr>)"
    using Cons.prems step(1) by simp
  moreover have "\<forall>j < n. rv ! j = (if j \<in> set (i # is) then None else recv_votes p ! j) \<and>
      sv ! j = (if j \<in> set (i # is) then None else send_votes p ! j)"
    using step(4,5) Cons.prems by (auto simp: nth_list_update)
  ultimately show ?case using step(2,3) by blast
next
  case Nil
  then show ?case by (intro exI [of _ "recv_votes p"] exI [of _ "send_votes p"]) simp
qed

lemma clear_votes_eq:
  assumes "probe_ok p"
  shows "clear_votes (p\<lparr>pr_timeout := None\<rparr>) = Some (cleared p)"
proof -
  let ?p = "p\<lparr>pr_timeout := None\<rparr>"
  obtain rv sv where "clear_votes ?p = Some (?p\<lparr>recv_votes := rv, send_votes := sv\<rparr>)"
    "length rv = length (poll_opts p)" "length sv = length (poll_opts p)"
    "\<forall>j < length (poll_opts p). rv ! j = None \<and> sv ! j = None"
    using clear_from_eq [of ?p "length (poll_opts p)" "[0..<length (poll_opts p)]"] assms
    by (auto simp: clear_votes_def probe_ok_def)
  moreover have "rv = map (\<lambda>_. None) (poll_opts p)" "sv = map (\<lambda>_. None) (poll_opts p)"
    using calculation by (auto intro!: nth_equalityI)
  ultimately show ?thesis by (simp add: cleared_def)
qed

lemma cleared_ok: "probe_ok p \<Longrightarrow> probe_ok (cleared p)"
  by (simp add: probe_ok_def cleared_def)

lemma on_poll_succeed_eq:
  assumes "probe_ok p"
  shows "on_poll_succeed p ctx rs = Some (cleared p,
    probe_emit (ProbeReply (ProbePolled rs)) (case pr_timeout p of Some t \<Rightarrow> probe_emit (ProbeCancel t) ctx | None \<Rightarrow> ctx))"
  using clear_votes_eq [OF assms] by (simp add: on_poll_succeed_def probe_send_reply_def)

lemma votes_over_eq:
  assumes "length (recv_votes p) = k + length pos" "length (send_votes p) = k + length pos"
  shows "votes_over p (enumerate k pos) = Some (\<forall>j < length pos.
    is_vote_over (pq_recv (pos ! j)) (recv_votes p ! (k + j)) \<and> is_vote_over (pq_send (pos ! j)) (send_votes p ! (k + j)))"
  using assms by (induction pos arbitrary: k) (auto simp: All_less_Suc2)

lemma side_results_eq:
  assumes "length (recv_votes p) = k + length pos" "length (send_votes p) = k + length pos"
  shows "\<exists>rs. side_results p (enumerate k pos) = Some rs \<and> length rs = length pos \<and> (\<forall>j < length pos. rs ! j =
    \<lparr>ps_recv = is_socket_side_ready (pq_recv (pos ! j)) (recv_votes p ! (k + j)),
     ps_send = is_socket_side_ready (pq_send (pos ! j)) (send_votes p ! (k + j))\<rparr>)"
  using assms by (induction pos arbitrary: k) (auto simp: All_less_Suc2 bind_eq_Some_conv)

lemma probe_check_eq:
  assumes "probe_ok p"
  shows "probe_check p ctx = (case pr_timeout p of
      Some t \<Rightarrow> if complete p
        then Some (cleared p, probe_emit (ProbeReply (ProbePolled (interests p))) (probe_emit (ProbeCancel t) ctx))
        else Some (p, ctx)
    | None \<Rightarrow> Some (p, ctx))"
  using votes_over_eq [of p 0 "poll_opts p"] on_poll_succeed_eq [OF assms] assms
  by (auto simp: probe_check_def probe_ok_def complete_def interests_def split: option.splits)

section \<open>Sequences of calls\<close>

datatype probe_cmd =
    PPoll duration
  | PTimeout
  | PCanRecv socket_id bool
  | PCanSend socket_id bool

fun probe_step :: "probe_cmd \<Rightarrow> probe \<Rightarrow> probe_ctx \<Rightarrow> (probe \<times> probe_ctx) option" where
  "probe_step (PPoll d) p ctx = probe_poll p ctx d"
| "probe_step PTimeout p ctx = on_poll_timeout p ctx"
| "probe_step (PCanRecv sid b) p ctx = probe_on_socket_can_recv p ctx sid b"
| "probe_step (PCanSend sid b) p ctx = probe_on_socket_can_send p ctx sid b"

fun probe_run :: "probe_cmd list \<Rightarrow> probe \<Rightarrow> probe_ctx \<Rightarrow> (probe \<times> probe_ctx) option" where
  "probe_run [] p ctx = Some (p, ctx)"
| "probe_run (cmd # cmds) p ctx = do { (p', ctx') \<leftarrow> probe_step cmd p ctx; probe_run cmds p' ctx' }"

text \<open>The facade waits for the answer to a poll; the timer fires only while a poll is pending.\<close>

fun probe_legal :: "probe \<Rightarrow> probe_cmd \<Rightarrow> bool" where
  "probe_legal p (PPoll _) \<longleftrightarrow> pr_timeout p = None"
| "probe_legal p PTimeout \<longleftrightarrow> pr_timeout p \<noteq> None"
| "probe_legal p _ \<longleftrightarrow> True"

fun probe_cmds_ok :: "probe_cmd list \<Rightarrow> probe \<Rightarrow> probe_ctx \<Rightarrow> bool" where
  "probe_cmds_ok [] p ctx \<longleftrightarrow> True"
| "probe_cmds_ok (cmd # cmds) p ctx \<longleftrightarrow> probe_legal p cmd \<and>
     (case probe_step cmd p ctx of Some (p', ctx') \<Rightarrow> probe_cmds_ok cmds p' ctx' | None \<Rightarrow> True)"

fun is_poll :: "probe_cmd \<Rightarrow> bool" where
  "is_poll (PPoll _) \<longleftrightarrow> True"
| "is_poll _ \<longleftrightarrow> False"

definition poll_answers :: "probe_effect list \<Rightarrow> probe_reply list" where
  "poll_answers es = List.map_filter (\<lambda>e. case e of ProbeReply r \<Rightarrow> Some r | _ \<Rightarrow> None) es"

lemma poll_answers_simps [simp]:
  "poll_answers [] = []"
  "poll_answers (xs @ ys) = poll_answers xs @ poll_answers ys"
  "poll_answers (e # es) = (case e of ProbeReply r \<Rightarrow> r # poll_answers es | _ \<Rightarrow> poll_answers es)"
  "poll_answers (map (\<lambda>po. ProbePoll (f po)) pos) = []"
  by (simp_all add: poll_answers_def map_filter_def split: probe_effect.splits)

text \<open>An answer has one entry per socket, and reports a side only when it was asked for.\<close>

fun answer_fits :: "poll_req list \<Rightarrow> probe_reply \<Rightarrow> bool" where
  "answer_fits opts (ProbePolled rs) \<longleftrightarrow>
     list_all2 (\<lambda>po r. (ps_recv r \<longrightarrow> pq_recv po) \<and> (ps_send r \<longrightarrow> pq_send po)) opts rs"
| "answer_fits opts (ProbeErr _) \<longleftrightarrow> True"
| "answer_fits opts ProbeClosed \<longleftrightarrow> False"

definition probe_state :: "poll_req list \<Rightarrow> probe_cmd list \<Rightarrow> probe \<times> probe_ctx \<Rightarrow> bool" where
  "probe_state opts cmds s \<longleftrightarrow> (case s of (p, ctx) \<Rightarrow>
     probe_ok p \<and> poll_opts p = opts \<and> (pr_timeout p \<noteq> None \<longrightarrow> \<not> complete p) \<and>
     length (poll_answers (probe_trace ctx)) + of_bool (pr_timeout p \<noteq> None) = length (filter is_poll cmds) \<and>
     list_all (answer_fits opts) (poll_answers (probe_trace ctx)))"

lemma fits_interests: "answer_fits (poll_opts p) (ProbePolled (interests p))"
  by (simp add: interests_def list_all2_conv_all_nth)

lemma is_socket_side_ready_interest: "is_socket_side_ready b v \<Longrightarrow> b"
  by (cases b) auto

lemma probe_check_state:
  assumes "probe_ok p" and "poll_opts p = opts"
    and "length (poll_answers (probe_trace ctx)) + of_bool (pr_timeout p \<noteq> None) = length (filter is_poll cmds)"
    and "list_all (answer_fits opts) (poll_answers (probe_trace ctx))"
  shows "runs (probe_check p ctx) (probe_state opts cmds)"
  using assms fits_interests [of p] cleared_ok [OF assms(1)]
  by (auto simp: probe_check_eq [OF assms(1)] probe_state_def cleared_def split: option.splits)

lemma probe_step_state:
  assumes "probe_state opts cmds (p, ctx)" and "probe_legal p cmd"
  shows "runs (probe_step cmd p ctx) (probe_state opts (cmds @ [cmd]))"
proof (cases cmd)
  case (PPoll d)
  have ok: "probe_ok (p\<lparr>pr_timeout := Some t\<rparr>)" for t
    using assms(1) by (auto simp: probe_state_def probe_ok_def)
  show ?thesis
    using assms PPoll
    by (auto simp: probe_poll_def probe_schedule_def start_poll_def emit_polls probe_send_reply_def probe_state_def Let_def
        split: sum.splits intro!: probe_check_state ok [THEN probe_check_state])
next
  case PTimeout
  have ok: "probe_ok p" "poll_opts p = opts" using assms(1) by (auto simp: probe_state_def)
  obtain t where t: "pr_timeout p = Some t" using assms(2) PTimeout by auto
  obtain rs where rs: "side_results p (enumerate 0 opts) = Some rs" "length rs = length opts"
    "\<forall>j < length opts. rs ! j = \<lparr>ps_recv = is_socket_side_ready (pq_recv (opts ! j)) (recv_votes p ! j),
       ps_send = is_socket_side_ready (pq_send (opts ! j)) (send_votes p ! j)\<rparr>"
    using side_results_eq [of p 0 opts] ok by (auto simp: probe_ok_def)
  have "answer_fits opts (ProbePolled rs)"
    using rs(2,3) by (auto simp: list_all2_conv_all_nth dest: is_socket_side_ready_interest)
  then show ?thesis
    using assms(1) ok t rs(1) cleared_ok [OF ok(1)]
    by (auto simp: PTimeout on_poll_timeout_def on_poll_succeed_eq probe_state_def cleared_def)
next
  case (PCanRecv sid b)
  have "probe_ok p" using assms(1) by (simp add: probe_state_def)
  then show ?thesis
    using assms(1)
    by (auto simp: PCanRecv probe_on_socket_can_recv_def probe_state_def probe_ok_def split: option.splits
        intro!: probe_check_state)
next
  case (PCanSend sid b)
  have "probe_ok p" using assms(1) by (simp add: probe_state_def)
  then show ?thesis
    using assms(1)
    by (auto simp: PCanSend probe_on_socket_can_send_def probe_state_def probe_ok_def split: option.splits
        intro!: probe_check_state)
qed

lemma probe_run_state:
  assumes "probe_state opts before (p, ctx)" and "probe_cmds_ok cmds p ctx"
  shows "runs (probe_run cmds p ctx) (probe_state opts (before @ cmds))"
  using assms
proof (induction cmds arbitrary: before p ctx)
  case (Cons cmd cmds)
  then obtain p' ctx' where step: "probe_step cmd p ctx = Some (p', ctx')" "probe_state opts (before @ [cmd]) (p', ctx')"
    using probe_step_state [OF Cons.prems(1), of cmd] by (auto elim!: runsE)
  from Cons.IH [OF step(2)] Cons.prems(2) step(1) show ?case by simp
qed simp

text \<open>
  (C37) A probe never panics and answers each poll exactly once: whatever sockets are polled
  and whatever events and timer ticks arrive, the number of answers plus the pending poll
  is the number of polls, an answer has one entry per socket and reports only sides that
  were asked for, and a poll is pending only while some side of interest has not voted
  ready.
\<close>

theorem probe_answers_polls:
  assumes "probe_cmds_ok cmds (probe_new opts) \<lparr>probe_trace = [], probe_answer = ans\<rparr>"
  shows "runs (probe_run cmds (probe_new opts) \<lparr>probe_trace = [], probe_answer = ans\<rparr>) (probe_state opts cmds)"
  using probe_run_state [OF _ assms, of opts "[]"] probe_new_ok [of opts] by (simp add: probe_state_def probe_new_def)

lemmas probe_eval = probe_poll_def probe_schedule_def start_poll_def emit_polls probe_check_def on_poll_succeed_def
  clear_votes_def probe_send_reply_def probe_on_socket_can_recv_def probe_on_socket_can_send_def on_poll_timeout_def
  probe_new_def upt_rec index_at_def index_set_def

theorem probe_answers_polls_witness:
  "runs (probe_run [PPoll 5, PCanRecv 1 True, PCanSend 2 True, PPoll 5, PTimeout]
      (probe_new [\<lparr>pq_sid = 1, pq_recv = True, pq_send = False\<rparr>, \<lparr>pq_sid = 2, pq_recv = False, pq_send = True\<rparr>])
      \<lparr>probe_trace = [], probe_answer = \<lambda>_. Inr 9\<rparr>)
    (probe_state [\<lparr>pq_sid = 1, pq_recv = True, pq_send = False\<rparr>, \<lparr>pq_sid = 2, pq_recv = False, pq_send = True\<rparr>]
      [PPoll 5, PCanRecv 1 True, PCanSend 2 True, PPoll 5, PTimeout])"
  by (rule probe_answers_polls) (simp add: probe_eval)

text \<open>
  When the timer of a poll fires, the poll reports for each socket exactly the sides
  of interest whose last vote was that they are ready, and forgets the votes.
\<close>

theorem poll_timeout_reports_votes:
  assumes "probe_ok p" and "pr_timeout p = Some t"
  shows "\<exists>rs. on_poll_timeout p ctx = Some (cleared p, ctx\<lparr>probe_trace :=
      probe_trace ctx @ [ProbeCancel t, ProbeReply (ProbePolled rs)]\<rparr>) \<and> length rs = length (poll_opts p) \<and>
    (\<forall>j < length rs. (ps_recv (rs ! j) \<longleftrightarrow> pq_recv (poll_opts p ! j) \<and> recv_votes p ! j = Some True) \<and>
      (ps_send (rs ! j) \<longleftrightarrow> pq_send (poll_opts p ! j) \<and> send_votes p ! j = Some True))"
proof -
  have ready: "is_socket_side_ready b v \<longleftrightarrow> b \<and> v = Some True" for b v
    by (cases "(b, v)" rule: is_socket_side_ready.cases) auto
  obtain rs where "side_results p (enumerate 0 (poll_opts p)) = Some rs" "length rs = length (poll_opts p)"
    "\<forall>j < length (poll_opts p). rs ! j = \<lparr>ps_recv = is_socket_side_ready (pq_recv (poll_opts p ! j)) (recv_votes p ! j),
       ps_send = is_socket_side_ready (pq_send (poll_opts p ! j)) (send_votes p ! j)\<rparr>"
    using side_results_eq [of p 0 "poll_opts p"] assms(1) by (auto simp: probe_ok_def)
  then show ?thesis
    by (intro exI [of _ rs]) (simp add: on_poll_timeout_def on_poll_succeed_eq [OF assms(1)] assms(2) probe_emit_def ready)
qed

theorem poll_timeout_reports_votes_witness:
  "\<exists>rs. on_poll_timeout ((probe_new [\<lparr>pq_sid = 1, pq_recv = True, pq_send = True\<rparr>])\<lparr>pr_timeout := Some 4, recv_votes := [Some True]\<rparr>)
      \<lparr>probe_trace = [], probe_answer = \<lambda>_. Inr 9\<rparr> = Some (probe_new [\<lparr>pq_sid = 1, pq_recv = True, pq_send = True\<rparr>],
      \<lparr>probe_trace = [ProbeCancel 4, ProbeReply (ProbePolled rs)], probe_answer = \<lambda>_. Inr 9\<rparr>) \<and>
    length rs = 1 \<and> ps_recv (rs ! 0) \<and> \<not> ps_send (rs ! 0)"
proof -
  let ?p = "(probe_new [\<lparr>pq_sid = 1, pq_recv = True, pq_send = True\<rparr>])\<lparr>pr_timeout := Some 4, recv_votes := [Some True]\<rparr>"
  have "probe_ok ?p" by (simp add: probe_ok_def probe_new_def)
  from poll_timeout_reports_votes [OF this, of 4 "\<lparr>probe_trace = [], probe_answer = \<lambda>_. Inr 9\<rparr>"]
  show ?thesis by (auto simp: probe_new_def cleared_def)
qed

end
