(* ===== verification/Core_Session.thy ===== *)
theory Core_Session
  imports Core_Socket Core_Device Core_Probe
begin

text \<open>
  The session of \<open>src/core/session.rs\<close>: the sockets, devices and probes of an event loop,
  and the links from a socket to the device and the probe that listen to it. The
  collections share one \<open>Sequence\<close>; its value is a field of the session. What a session
  says on its reply channel, and what a device or a probe says on its own when it is
  dropped, are entries of a log.
\<close>

section \<open>Data\<close>

datatype 'p session_request =
    CreateSocket 'p
  | CreateDevice socket_id socket_id
  | CreateProbe "poll_req list"
  | SessionShutdown

datatype session_reply =
    SessionErr io_error
  | SocketCreated socket_id
  | DeviceCreated device_id
  | ProbeCreated probe_id
  | SessionStopped

datatype session_effect =
    SessionReply session_reply
  | DeviceOut device_id device_effect
  | ProbeOut probe_id probe_effect

record device_collection =
  dc_mapping :: "socket_id \<rightharpoonup> device_id"
  dc_devices :: "device_id \<rightharpoonup> device"

record probe_collection =
  pc_mapping :: "socket_id \<rightharpoonup> probe_id"
  pc_probes :: "probe_id \<rightharpoonup> probe"

type_synonym 'p socket_collection = "socket_id \<rightharpoonup> 'p socket"

record 'p session =
  ses_ids :: usize
  ses_sockets :: "'p socket_collection"
  ses_devices :: device_collection
  ses_probes :: probe_collection
  ses_log :: "session_effect list"

section \<open>Collections\<close>

definition socket_collection_new :: "'p socket_collection" where
  "socket_collection_new = Map.empty"

definition socket_collection_add ::
  "usize \<Rightarrow> 'p socket_collection \<Rightarrow> 'p \<Rightarrow> (socket_id \<times> usize \<times> 'p socket_collection) option" where
  "socket_collection_add seq c proto = do {
     (new, seq') \<leftarrow> sequence_next seq;
     Some (new, seq', c(new \<mapsto> socket_new new proto)) }"

definition socket_collection_remove :: "'p socket_collection \<Rightarrow> socket_id \<Rightarrow> 'p socket_collection" where
  "socket_collection_remove c sid = c(sid := None)"

definition device_collection_new :: device_collection where
  "device_collection_new = \<lparr>dc_mapping = Map.empty, dc_devices = Map.empty\<rparr>"

definition device_collection_add ::
  "usize \<Rightarrow> device_collection \<Rightarrow> socket_id \<Rightarrow> socket_id \<Rightarrow> (device_id \<times> usize \<times> device_collection) option" where
  "device_collection_add seq c left right = do {
     (new, seq') \<leftarrow> sequence_next seq;
     Some (new, seq', c\<lparr>dc_devices := (dc_devices c)(new \<mapsto> device_new left right),
                       dc_mapping := (dc_mapping c)(left \<mapsto> new, right \<mapsto> new)\<rparr>) }"

definition collection_get_device :: "device_collection \<Rightarrow> device_id \<Rightarrow> device option" where
  "collection_get_device c did = dc_devices c did"

definition collection_find_device :: "device_collection \<Rightarrow> socket_id \<Rightarrow> device option" where
  "collection_find_device c sid = (case dc_mapping c sid of Some did \<Rightarrow> dc_devices c did | None \<Rightarrow> None)"

text \<open>Removing a device drops it, which announces \<open>Closed\<close> on its channel.\<close>

definition device_collection_remove :: "device_collection \<Rightarrow> device_id \<Rightarrow> device_collection \<times> session_effect list" where
  "device_collection_remove c did =
     (case dc_devices c did of
        Some d \<Rightarrow>
          (c\<lparr>dc_devices := (dc_devices c)(did := None),
             dc_mapping := (dc_mapping c)(get_left_id d := None, get_right_id d := None)\<rparr>,
           map (DeviceOut did) (device_drop []))
      | None \<Rightarrow> (c, []))"

definition probe_collection_new :: probe_collection where
  "probe_collection_new = \<lparr>pc_mapping = Map.empty, pc_probes = Map.empty\<rparr>"

definition probe_collection_add ::
  "usize \<Rightarrow> probe_collection \<Rightarrow> poll_req list \<Rightarrow> (probe_id \<times> usize \<times> probe_collection) option" where
  "probe_collection_add seq c opts = do {
     (new, seq') \<leftarrow> sequence_next seq;
     Some (new, seq', c\<lparr>pc_mapping := fold (\<lambda>po m. m(pq_sid po \<mapsto> new)) opts (pc_mapping c),
                       pc_probes := (pc_probes c)(new \<mapsto> probe_new opts)\<rparr>) }"

definition collection_get_probe :: "probe_collection \<Rightarrow> probe_id \<Rightarrow> probe option" where
  "collection_get_probe c pid = pc_probes c pid"

definition collection_find_probe :: "probe_collection \<Rightarrow> socket_id \<Rightarrow> (probe_id \<times> probe) option" where
  "collection_find_probe c sid =
     (case pc_mapping c sid of
        Some pid \<Rightarrow> map_option (\<lambda>p. (pid, p)) (pc_probes c pid)
      | None \<Rightarrow> None)"

definition probe_collection_remove :: "probe_collection \<Rightarrow> probe_id \<Rightarrow> probe_collection \<times> session_effect list" where
  "probe_collection_remove c pid =
     (case pc_probes c pid of
        Some p \<Rightarrow>
          (c\<lparr>pc_probes := (pc_probes c)(pid := None),
             pc_mapping := fold (\<lambda>sid m. m(sid := None)) (get_socket_ids p) (pc_mapping c)\<rparr>,
           [ProbeOut pid (ProbeReply ProbeClosed)])
      | None \<Rightarrow> (c, []))"

section \<open>Session\<close>

definition session_new :: "usize \<Rightarrow> 'p session" where
  "session_new seq = \<lparr>ses_ids = seq, ses_sockets = socket_collection_new, ses_devices = device_collection_new,
     ses_probes = probe_collection_new, ses_log = []\<rparr>"

definition session_send_reply :: "'p session \<Rightarrow> session_reply \<Rightarrow> 'p session" where
  "session_send_reply s r = s\<lparr>ses_log := ses_log s @ [SessionReply r]\<rparr>"

definition add_socket :: "'p session \<Rightarrow> 'p \<Rightarrow> 'p session option" where
  "add_socket s proto = do {
     (new, seq, c) \<leftarrow> socket_collection_add (ses_ids s) (ses_sockets s) proto;
     Some (session_send_reply (s\<lparr>ses_ids := seq, ses_sockets := c\<rparr>) (SocketCreated new)) }"

definition get_socket :: "'p session \<Rightarrow> socket_id \<Rightarrow> 'p socket option" where
  "get_socket s sid = ses_sockets s sid"

definition remove_socket :: "'p session \<Rightarrow> socket_id \<Rightarrow> 'p session" where
  "remove_socket s sid = s\<lparr>ses_sockets := socket_collection_remove (ses_sockets s) sid\<rparr>"

definition add_device :: "'p session \<Rightarrow> socket_id \<Rightarrow> socket_id \<Rightarrow> 'p session option" where
  "add_device s left right = do {
     (new, seq, c) \<leftarrow> device_collection_add (ses_ids s) (ses_devices s) left right;
     Some (session_send_reply (s\<lparr>ses_ids := seq, ses_devices := c\<rparr>) (DeviceCreated new)) }"

definition get_device :: "'p session \<Rightarrow> device_id \<Rightarrow> device option" where
  "get_device s did = collection_get_device (ses_devices s) did"

definition find_device :: "'p session \<Rightarrow> socket_id \<Rightarrow> device option" where
  "find_device s sid = collection_find_device (ses_devices s) sid"

definition remove_device :: "'p session \<Rightarrow> device_id \<Rightarrow> 'p session" where
  "remove_device s did =
     (let (c, es) = device_collection_remove (ses_devices s) did in s\<lparr>ses_devices := c, ses_log := ses_log s @ es\<rparr>)"

definition add_probe :: "'p session \<Rightarrow> poll_req list \<Rightarrow> 'p session option" where
  "add_probe s opts = do {
     (new, seq, c) \<leftarrow> probe_collection_add (ses_ids s) (ses_probes s) opts;
     Some (session_send_reply (s\<lparr>ses_ids := seq, ses_probes := c\<rparr>) (ProbeCreated new)) }"

definition get_probe :: "'p session \<Rightarrow> probe_id \<Rightarrow> probe option" where
  "get_probe s pid = collection_get_probe (ses_probes s) pid"

definition find_probe :: "'p session \<Rightarrow> socket_id \<Rightarrow> (probe_id \<times> probe) option" where
  "find_probe s sid = collection_find_probe (ses_probes s) sid"

definition remove_probe :: "'p session \<Rightarrow> probe_id \<Rightarrow> 'p session" where
  "remove_probe s pid =
     (let (c, es) = probe_collection_remove (ses_probes s) pid in s\<lparr>ses_probes := c, ses_log := ses_log s @ es\<rparr>)"

lemmas session_defs = add_socket_def remove_socket_def add_device_def remove_device_def add_probe_def remove_probe_def
  socket_collection_add_def socket_collection_remove_def device_collection_add_def device_collection_remove_def
  probe_collection_add_def probe_collection_remove_def session_send_reply_def get_left_id_def get_right_id_def
  get_socket_ids_def

section \<open>Sequences of operations\<close>

datatype 'p session_op =
    AddSocket 'p
  | RemoveSocket socket_id
  | AddDevice socket_id socket_id
  | RemoveDevice device_id
  | AddProbe "poll_req list"
  | RemoveProbe probe_id

fun session_step :: "'p session_op \<Rightarrow> 'p session \<Rightarrow> 'p session option" where
  "session_step (AddSocket proto) s = add_socket s proto"
| "session_step (RemoveSocket sid) s = Some (remove_socket s sid)"
| "session_step (AddDevice l r) s = add_device s l r"
| "session_step (RemoveDevice did) s = Some (remove_device s did)"
| "session_step (AddProbe opts) s = add_probe s opts"
| "session_step (RemoveProbe pid) s = Some (remove_probe s pid)"

fun session_run :: "'p session_op list \<Rightarrow> 'p session \<Rightarrow> 'p session option" where
  "session_run [] s = Some s"
| "session_run (x # xs) s = do { s' \<leftarrow> session_step x s; session_run xs s' }"

section \<open>Invariant\<close>

text \<open>
  Identifiers in use are below the sequence and name one thing only; a link leads to
  a device or probe that exists and that has the socket.
\<close>

definition used_ids :: "'p session \<Rightarrow> usize set" where
  "used_ids s = dom (ses_sockets s) \<union> dom (dc_devices (ses_devices s)) \<union> dom (pc_probes (ses_probes s))"

definition device_links_ok :: "device_collection \<Rightarrow> bool" where
  "device_links_ok c \<longleftrightarrow> (\<forall>sid did. dc_mapping c sid = Some did \<longrightarrow>
     (\<exists>d. dc_devices c did = Some d \<and> (sid = dev_left d \<or> sid = dev_right d)))"

definition probe_links_ok :: "probe_collection \<Rightarrow> bool" where
  "probe_links_ok c \<longleftrightarrow> (\<forall>sid pid. pc_mapping c sid = Some pid \<longrightarrow>
     (\<exists>p. pc_probes c pid = Some p \<and> sid \<in> set (get_socket_ids p)))"

fun created_id :: "session_effect \<Rightarrow> usize option" where
  "created_id (SessionReply (SocketCreated i)) = Some i"
| "created_id (SessionReply (DeviceCreated i)) = Some i"
| "created_id (SessionReply (ProbeCreated i)) = Some i"
| "created_id _ = None"

definition created_ids :: "'p session \<Rightarrow> usize list" where
  "created_ids s = List.map_filter created_id (ses_log s)"

definition session_ok :: "'p session \<Rightarrow> bool" where
  "session_ok s \<longleftrightarrow>
     used_ids s \<subseteq> set (created_ids s) \<and> distinct (created_ids s) \<and> (\<forall>i \<in> set (created_ids s). i < ses_ids s) \<and>
     dom (ses_sockets s) \<inter> dom (dc_devices (ses_devices s)) = {} \<and>
     dom (ses_sockets s) \<inter> dom (pc_probes (ses_probes s)) = {} \<and>
     dom (dc_devices (ses_devices s)) \<inter> dom (pc_probes (ses_probes s)) = {} \<and>
     (\<forall>sid sock. ses_sockets s sid = Some sock \<longrightarrow> sock_id sock = sid) \<and>
     device_links_ok (ses_devices s) \<and> probe_links_ok (ses_probes s)"

lemma sequence_next_runs:
  assumes "unat v < 2 ^ 64 - 1"
  shows "\<exists>v'. sequence_next v = Some (v, v') \<and> v < v' \<and> unat v' = Suc (unat v)"
proof -
  have "sequence_next v = Some (v, v + 1)"
    using checked_add_one_Some [of v "2 ^ 64 - 1"] assms by (simp add: sequence_next_def)
  moreover from sequence_next_fresh [OF this] have "unat (v + 1) = Suc (unat v)" by simp
  ultimately show ?thesis by (auto simp: word_less_nat_alt)
qed

lemma created_ids_snoc [simp]:
  "List.map_filter created_id (es @ fs) = List.map_filter created_id es @ List.map_filter created_id fs"
  "List.map_filter created_id [] = []"
  "List.map_filter created_id (e # fs) =
     (case created_id e of Some i \<Rightarrow> i # List.map_filter created_id fs | None \<Rightarrow> List.map_filter created_id fs)"
  by (simp_all add: map_filter_def split: option.splits)

lemma probe_mapping_add:
  "fold (\<lambda>po m. m(pq_sid po \<mapsto> i)) opts m sid = (if sid \<in> pq_sid ` set opts then Some i else m sid)"
  by (induction opts arbitrary: m) auto

lemma probe_mapping_remove:
  "fold (\<lambda>sid m. m(sid := None)) sids m sid = (if sid \<in> set sids then None else m sid)"
  by (induction sids arbitrary: m) auto

lemma device_links_add:
  assumes "device_links_ok c" and "dc_devices c i = None"
  shows "device_links_ok (c\<lparr>dc_devices := (dc_devices c)(i \<mapsto> device_new l r), dc_mapping := (dc_mapping c)(l \<mapsto> i, r \<mapsto> i)\<rparr>)"
  unfolding device_links_ok_def
proof (intro allI impI)
  fix sid did
  assume "dc_mapping (c\<lparr>dc_devices := (dc_devices c)(i \<mapsto> device_new l r), dc_mapping := (dc_mapping c)(l \<mapsto> i, r \<mapsto> i)\<rparr>) sid = Some did"
  then consider "did = i" "sid = l \<or> sid = r" | "sid \<noteq> l" "sid \<noteq> r" "dc_mapping c sid = Some did"
    by (auto split: if_splits)
  then show "\<exists>d. dc_devices (c\<lparr>dc_devices := (dc_devices c)(i \<mapsto> device_new l r), dc_mapping := (dc_mapping c)(l \<mapsto> i, r \<mapsto> i)\<rparr>) did = Some d \<and>
      (sid = dev_left d \<or> sid = dev_right d)"
  proof cases
    case 1
    then show ?thesis by (auto simp: device_new_def)
  next
    case 2
    then obtain d where "dc_devices c did = Some d" "sid = dev_left d \<or> sid = dev_right d"
      using assms(1) unfolding device_links_ok_def by blast
    then show ?thesis using assms(2) by auto
  qed
qed

lemma probe_links_add:
  assumes "probe_links_ok c" and "pc_probes c i = None"
  shows "probe_links_ok (c\<lparr>pc_mapping := fold (\<lambda>po m. m(pq_sid po \<mapsto> i)) opts (pc_mapping c), pc_probes := (pc_probes c)(i \<mapsto> probe_new opts)\<rparr>)"
  using assms unfolding probe_links_ok_def
  by (auto simp: probe_mapping_add probe_new_def get_socket_ids_def split: if_splits) fastforce+

lemma device_links_remove:
  assumes "device_links_ok c" and "dc_devices c i = Some d"
  shows "device_links_ok (c\<lparr>dc_devices := (dc_devices c)(i := None), dc_mapping := (dc_mapping c)(dev_left d := None, dev_right d := None)\<rparr>)"
  using assms unfolding device_links_ok_def by (simp split: if_splits) (metis option.inject)

lemma probe_links_remove:
  assumes "probe_links_ok c" and "pc_probes c i = Some p"
  shows "probe_links_ok (c\<lparr>pc_probes := (pc_probes c)(i := None),
    pc_mapping := fold (\<lambda>sid m. m(sid := None)) (map pq_sid (poll_opts p)) (pc_mapping c)\<rparr>)"
  using assms unfolding probe_links_ok_def get_socket_ids_def probe_mapping_remove
  by (simp add: probe_mapping_remove split: if_splits) (metis option.inject)

text \<open>An operation that returns keeps the invariant, and only adds identifiers.\<close>

lemma sequence_next_SomeD:
  assumes "sequence_next v = Some (i, v')"
  shows "i = v" "v < v'" "unat v' = Suc (unat v)"
proof -
  show "i = v" using assms by (auto simp: sequence_next_def bind_eq_Some_conv)
  then show "unat v' = Suc (unat v)" using sequence_next_fresh [OF assms] by simp
  then show "v < v'" by (simp add: word_less_nat_alt)
qed

lemma session_step_keeps:
  assumes "session_ok s" and "session_step x s = Some s'"
  shows "session_ok s' \<and> ses_ids s \<le> ses_ids s' \<and> unat (ses_ids s') \<le> Suc (unat (ses_ids s)) \<and>
    (\<exists>is. created_ids s' = created_ids s @ is)"
proof -
  let ?P = "\<lambda>s'. session_ok s' \<and> ses_ids s \<le> ses_ids s' \<and> unat (ses_ids s') \<le> Suc (unat (ses_ids s)) \<and>
    (\<exists>is. created_ids s' = created_ids s @ is)"
  note ok = assms(1) [unfolded session_ok_def used_ids_def created_ids_def]
  note unfold = session_ok_def used_ids_def created_ids_def session_defs
  have removes: "runs (session_step x s) ?P" if removal: "\<exists>y. x = RemoveSocket y \<or> x = RemoveDevice y \<or> x = RemoveProbe y"
  proof (cases x)
    case (RemoveSocket sid)
    then show ?thesis using ok by (auto simp: unfold split: if_splits)
  next
    case (RemoveDevice did)
    then show ?thesis using ok
      by (auto simp: unfold device_links_remove device_drop_def device_send_reply_def split: option.splits if_splits)
  next
    case (RemoveProbe pid)
    then show ?thesis using ok by (auto simp: unfold probe_links_remove split: option.splits if_splits)
  qed (use removal in auto)
  have adds: "runs (session_step x s) ?P" if v: "sequence_next (ses_ids s) = Some (i, v)" for i v
  proof -
    note next_id = sequence_next_SomeD [OF v]
    have fresh: "ses_ids s \<notin> set (created_ids s)" "ses_ids s \<notin> used_ids s"
      using assms(1) by (auto simp: session_ok_def)
    have below: "\<forall>i \<in> set (created_ids s). i < v"
      using assms(1) next_id(2) by (auto simp: session_ok_def dest: order.strict_trans)
    note new = fresh [unfolded used_ids_def created_ids_def] below [unfolded created_ids_def]
    show ?thesis
    proof (cases x)
      case (AddSocket proto)
      then show ?thesis using ok new next_id by (auto simp: unfold v socket_new_def)
    next
      case (AddDevice l r)
      then show ?thesis using ok new next_id by (auto simp: unfold v device_links_add domIff)
    next
      case (AddProbe opts)
      then show ?thesis using ok new next_id by (auto simp: unfold v probe_links_add domIff)
    qed (use removes in auto)
  qed
  have "runs (session_step x s) ?P"
  proof (cases "sequence_next (ses_ids s)")
    case None
    then have "\<exists>y. x = RemoveSocket y \<or> x = RemoveDevice y \<or> x = RemoveProbe y"
      using assms(2) by (cases x) (auto simp: session_defs)
    then show ?thesis by (rule removes)
  qed (use adds in auto)
  then show ?thesis using assms(2) by simp
qed

lemma session_step_ok:
  assumes "session_ok s" and "unat (ses_ids s) < 2 ^ 64 - 1"
  shows "runs (session_step x s) (\<lambda>s'. session_ok s' \<and> unat (ses_ids s') \<le> Suc (unat (ses_ids s)) \<and>
    (\<exists>is. created_ids s' = created_ids s @ is))"
proof -
  obtain v where "sequence_next (ses_ids s) = Some (ses_ids s, v)"
    using sequence_next_runs [OF assms(2)] by blast
  then obtain s' where "session_step x s = Some s'"
    by (cases x) (auto simp: session_defs)
  then show ?thesis using session_step_keeps [OF assms(1)] by simp
qed

lemma session_run_ok:
  assumes "session_ok s" and "unat (ses_ids s) + length xs < 2 ^ 64"
  shows "runs (session_run xs s) (\<lambda>s'. session_ok s' \<and> (\<exists>is. created_ids s' = created_ids s @ is))"
  using assms
proof (induction xs arbitrary: s)
  case (Cons x xs)
  then have "unat (ses_ids s) < 2 ^ 64 - 1" by simp
  from session_step_ok [OF Cons.prems(1) this, of x] obtain s' "is" where step: "session_step x s = Some s'"
    "session_ok s'" "unat (ses_ids s') \<le> Suc (unat (ses_ids s))" "created_ids s' = created_ids s @ is"
    by (auto elim!: runsE)
  have "unat (ses_ids s') + length xs < 2 ^ 64" using step(3) Cons.prems(2) by simp
  from Cons.IH [OF step(2) this] step(1,4) show ?case by (auto elim!: runs_mono)
qed simp

lemma session_new_ok: "session_ok (session_new seq)"
  by (simp add: session_ok_def session_new_def used_ids_def created_ids_def socket_collection_new_def
      device_collection_new_def probe_collection_new_def device_links_ok_def probe_links_ok_def)

text \<open>
  (C34) A session never panics before its sequence is exhausted, and no sequence of
  creations and removals confuses its parts: every identifier it ever announced is
  different from the others, an identifier in use names one socket, one device or one
  probe, a socket knows its own identifier, and a socket that is linked is linked to a
  device or a probe that exists and has it.
\<close>

theorem session_identifiers_unique:
  assumes "unat seq + length xs < 2 ^ 64"
  shows "runs (session_run xs (session_new seq)) session_ok"
  using session_run_ok [OF session_new_ok [of seq], of xs] assms
  by (auto simp: session_new_def elim!: runs_mono)

theorem session_identifiers_unique_witness:
  "runs (session_run [AddSocket (), AddSocket (), AddDevice 0 1, RemoveDevice 2, AddProbe [\<lparr>pq_sid = 0, pq_recv = True, pq_send = False\<rparr>]]
     (session_new 0)) session_ok"
  by (rule session_identifiers_unique) simp

text \<open>
  Creating a device links both its sockets to it, and removing it unlinks them and
  announces \<open>Closed\<close> on the device's channel.
\<close>

theorem device_linked_while_it_lives:
  assumes "session_ok s" and "add_device s l r = Some s'"
  shows "find_device s' l = Some (device_new l r) \<and> find_device s' r = Some (device_new l r) \<and>
    ses_log s' = ses_log s @ [SessionReply (DeviceCreated (ses_ids s))] \<and>
    find_device (remove_device s' (ses_ids s)) l = None \<and> find_device (remove_device s' (ses_ids s)) r = None \<and>
    last (ses_log (remove_device s' (ses_ids s))) = DeviceOut (ses_ids s) (DeviceReply DeviceClosed)"
proof -
  obtain v where "sequence_next (ses_ids s) = Some (ses_ids s, v)"
    using assms(2) sequence_next_fresh by (fastforce simp: session_defs bind_eq_Some_conv)
  then show ?thesis
    using assms(2)
    by (auto simp: session_defs find_device_def collection_find_device_def device_new_def device_drop_def device_send_reply_def)
qed

theorem device_linked_while_it_lives_witness:
  "\<exists>s'. add_device (session_new 4 :: unit session) 0 1 = Some s' \<and> find_device s' 0 = Some (device_new 0 1) \<and>
     find_device (remove_device s' 4) 1 = None"
proof -
  obtain s' where s': "add_device (session_new 4 :: unit session) 0 1 = Some s'"
    by (simp add: session_defs session_new_def sequence_next_def checked_add_def)
  from device_linked_while_it_lives [OF session_new_ok this] s' show ?thesis
    by (auto simp: session_new_def)
qed

text \<open>
  (C38) A socket has one probe link only: when a second probe is created on a socket, the
  first one no longer hears of it, and when the second one is removed nobody does, though
  the first probe is still there.
\<close>

theorem second_probe_takes_the_socket:
  assumes "session_ok s" and "get_probe s first = Some p" and "find_probe s sid = Some (first, p)"
    and "add_probe s opts = Some s'" and "sid \<in> pq_sid ` set opts"
  shows "find_probe s' sid = Some (ses_ids s, probe_new opts) \<and> ses_ids s \<noteq> first \<and>
    find_probe (remove_probe s' (ses_ids s)) sid = None \<and> get_probe (remove_probe s' (ses_ids s)) first = Some p"
proof -
  have "first \<in> used_ids s" "first < ses_ids s"
    using assms(1,2) by (auto simp: session_ok_def used_ids_def get_probe_def collection_get_probe_def)
  moreover obtain v where "sequence_next (ses_ids s) = Some (ses_ids s, v)"
    using assms(4) sequence_next_fresh by (fastforce simp: session_defs bind_eq_Some_conv)
  ultimately show ?thesis
    using assms(2,4,5)
    by (auto simp: session_defs find_probe_def collection_find_probe_def get_probe_def collection_get_probe_def
        probe_mapping_add probe_mapping_remove probe_new_def)
qed

definition demo_poll :: "poll_req list" where
  "demo_poll = [\<lparr>pq_sid = 0, pq_recv = True, pq_send = False\<rparr>]"

theorem second_probe_takes_the_socket_witness:
  "\<exists>s s'. add_probe (session_new 1 :: unit session) demo_poll = Some s \<and> find_probe s 0 = Some (1, probe_new demo_poll) \<and>
     add_probe s demo_poll = Some s' \<and> find_probe s' 0 = Some (2, probe_new demo_poll) \<and>
     find_probe (remove_probe s' 2) 0 = None \<and> get_probe (remove_probe s' 2) 1 = Some (probe_new demo_poll)"
proof -
  let ?s = "(session_new 1 :: unit session)\<lparr>ses_ids := 2, ses_probes := \<lparr>pc_mapping = [0 \<mapsto> 1], pc_probes = [1 \<mapsto> probe_new demo_poll]\<rparr>,
    ses_log := [SessionReply (ProbeCreated 1)]\<rparr>"
  have first: "add_probe (session_new 1 :: unit session) demo_poll = Some ?s"
    by (simp add: session_defs session_new_def sequence_next_def checked_add_def probe_collection_new_def demo_poll_def)
  have "session_ok (session_new 1 :: unit session)" by (rule session_new_ok)
  from session_step_ok [OF this, of "AddProbe demo_poll"] first have ok: "session_ok ?s"
    by (simp add: session_new_def)
  obtain s' where "add_probe ?s demo_poll = Some s'"
    by (simp add: session_defs sequence_next_def checked_add_def)
  from second_probe_takes_the_socket [OF ok _ _ this, of 1 "probe_new demo_poll" 0] this first show ?thesis
    by (auto simp: get_probe_def collection_get_probe_def find_probe_def collection_find_probe_def demo_poll_def)
qed

end
