(* ===== verification/Transport_Stream.thy ===== *)
theory Transport_Stream
  imports Core_Types
begin

text \<open>
  Byte streams and the helpers of \<open>src/transport/async/stub.rs\<close>: the handshake and the
  reads and writes that treat \<open>WouldBlock\<close> as no progress.

  A stream is what the traits \<open>Read\<close> and \<open>Write\<close> of the standard library say of a non-blocking
  one: the bytes that arrived and were not read yet, the bytes written so far, and how far
  each of the next calls gets. Every entry of this script is the outcome of one call: some
  bytes (at most as many as asked for), or an error; without an entry the call would block.
  The theorems hold for every script.
\<close>

section \<open>Streams\<close>

datatype io_step = Progress nat | Fail io_error

record stream =
  st_in :: "u8 list"
  st_out :: "u8 list"
  st_script :: "io_step list"

definition blocked :: io_error where
  "blocked = would_block_io_error ''operation would block''"

definition stream_read :: "stream \<Rightarrow> nat \<Rightarrow> (io_error + u8 list) \<times> stream" where
  "stream_read s n = (case st_script s of
     [] \<Rightarrow> (Inl blocked, s)
   | Fail e # rest \<Rightarrow> (Inl e, s\<lparr>st_script := rest\<rparr>)
   | Progress k # rest \<Rightarrow>
       (Inr (take (min k n) (st_in s)), s\<lparr>st_in := drop (min k n) (st_in s), st_script := rest\<rparr>))"

definition stream_write :: "stream \<Rightarrow> u8 list \<Rightarrow> (io_error + nat) \<times> stream" where
  "stream_write s bs = (case st_script s of
     [] \<Rightarrow> (Inl blocked, s)
   | Fail e # rest \<Rightarrow> (Inl e, s\<lparr>st_script := rest\<rparr>)
   | Progress k # rest \<Rightarrow>
       (Inr (min k (length bs)), s\<lparr>st_out := st_out s @ take k bs, st_script := rest\<rparr>))"

text \<open>A vectored write takes the bytes of the buffers in order.\<close>

definition stream_write_bufs :: "stream \<Rightarrow> u8 list list \<Rightarrow> (io_error + nat) \<times> stream" where
  "stream_write_bufs s bufs = stream_write s (concat bufs)"

section \<open>Handshake\<close>

definition create_handshake :: "byteorder \<Rightarrow> u16 \<Rightarrow> u8 list" where
  "create_handshake bo protocol_id = [0, 83, 80, 0] @ write_u16 bo protocol_id @ [0, 0]"

definition send_and_check_handshake :: "byteorder \<Rightarrow> stream \<Rightarrow> u16 \<times> u16 \<Rightarrow> (io_error + unit) \<times> stream" where
  "send_and_check_handshake bo s ids =
     (let (proto_id, _) = ids
      in (case stream_write s (create_handshake bo proto_id) of
            (Inl e, s') \<Rightarrow> (Inl e, s')
          | (Inr n, s') \<Rightarrow>
              if n = 8 then (Inr (), s') else (Inl (would_block_io_error ''failed to send handshake''), s')))"

definition check_handshake :: "byteorder \<Rightarrow> u16 \<times> u16 \<Rightarrow> u8 list \<Rightarrow> io_error + unit" where
  "check_handshake bo ids handshake =
     (let (_, proto_id) = ids
      in (if handshake = create_handshake bo proto_id then Inr ()
          else Inl (invalid_data_io_error ''received bad handshake'')))"

text \<open>The buffer holds zeros where the read did not reach.\<close>

definition recv_and_check_handshake :: "byteorder \<Rightarrow> stream \<Rightarrow> u16 \<times> u16 \<Rightarrow> (io_error + unit) \<times> stream" where
  "recv_and_check_handshake bo s ids =
     (case stream_read s 8 of
        (Inl e, s') \<Rightarrow> (Inl e, s')
      | (Inr bs, s') \<Rightarrow> (check_handshake bo ids (bs @ replicate (8 - length bs) 0), s'))"

section \<open>Buffers\<close>

text \<open>
  \<open>write_buffer\<close> writes what is left of a buffer and says whether it is all written;
  \<open>read_buffer\<close> fills a buffer from a position on. Slices out of range panic in the
  source; the operations below only take them within their buffers.
\<close>

definition write_buffer :: "stream \<Rightarrow> u8 list \<Rightarrow> nat \<Rightarrow> (io_error + bool \<times> nat) \<times> stream" where
  "write_buffer s buf written =
     (case stream_write s (drop written buf) of
        (Inr x, s') \<Rightarrow> (Inr (written + x = length buf, written + x), s')
      | (Inl e, s') \<Rightarrow> if error_kind e = WouldBlock then (Inr (False, written), s') else (Inl e, s'))"

definition read_buffer :: "stream \<Rightarrow> u8 list \<Rightarrow> nat \<Rightarrow> (io_error + u8 list \<times> nat) \<times> stream" where
  "read_buffer s buf pos =
     (case stream_read s (length buf - pos) of
        (Inr bs, s') \<Rightarrow> (Inr (take pos buf @ bs @ drop (pos + length bs) buf, length bs), s')
      | (Inl e, s') \<Rightarrow> if error_kind e = WouldBlock then (Inr (buf, 0), s') else (Inl e, s'))"

lemmas stream_defs = stream_read_def stream_write_def stream_write_bufs_def

lemma length_create_handshake [simp]: "big_endian bo \<Longrightarrow> length (create_handshake bo pid) = 8"
  by (simp add: create_handshake_def big_endian_simps)

section \<open>What a call does\<close>

lemma stream_write_effect:
  assumes "stream_write s bs = (r, s')"
  shows "st_in s' = st_in s" "r = Inr n \<Longrightarrow> n \<le> length bs \<and> st_out s' = st_out s @ take n bs"
    "r = Inl e \<Longrightarrow> st_out s' = st_out s"
  using assms by (auto simp: stream_write_def min_def split: list.splits io_step.splits)

lemma stream_read_effect:
  assumes "stream_read s n = (r, s')"
  shows "st_out s' = st_out s" "r = Inr bs \<Longrightarrow> length bs \<le> n \<and> st_in s = bs @ st_in s'"
    "r = Inl e \<Longrightarrow> st_in s' = st_in s"
  using assms by (auto simp: stream_read_def split: list.splits io_step.splits)

lemma write_buffer_effect:
  assumes "write_buffer s buf k = (r, s')" and "k \<le> length buf"
  shows "st_in s' = st_in s"
    and "r = Inr (done, k') \<Longrightarrow> k \<le> k' \<and> k' \<le> length buf \<and> (done \<longrightarrow> k' = length buf) \<and>
      st_out s' = st_out s @ take (k' - k) (drop k buf)"
    and "r = Inl e \<Longrightarrow> st_out s' = st_out s"
proof -
  obtain r0 s0 where w: "stream_write s (drop k buf) = (r0, s0)" by (cases "stream_write s (drop k buf)")
  note eff = stream_write_effect [OF w]
  show "st_in s' = st_in s"
    using assms(1) eff(1) by (auto simp: write_buffer_def w split: sum.splits if_splits)
  show "k \<le> k' \<and> k' \<le> length buf \<and> (done \<longrightarrow> k' = length buf) \<and> st_out s' = st_out s @ take (k' - k) (drop k buf)"
    if "r = Inr (done, k')"
    using that assms eff(2,3) by (fastforce simp: write_buffer_def w split: sum.splits if_splits)
  show "st_out s' = st_out s" if "r = Inl e"
    using that assms(1) eff(3) by (auto simp: write_buffer_def w split: sum.splits if_splits)
qed

text \<open>A buffer filled up to \<open>pos\<close> with the first bytes of \<open>bs0\<close> stays such a buffer.\<close>

lemma read_buffer_effect:
  assumes "read_buffer s buf pos = (r, s')" and "pos \<le> length buf"
  shows "st_out s' = st_out s"
    and "r = Inr (buf', n) \<Longrightarrow> pos + n \<le> length buf \<and> length buf' = length buf \<and> take pos buf' = take pos buf \<and>
      st_in s = take n (drop pos buf') @ st_in s'"
    and "r = Inl e \<Longrightarrow> st_in s' = st_in s"
proof -
  obtain r0 s0 where rd: "stream_read s (length buf - pos) = (r0, s0)" by (cases "stream_read s (length buf - pos)")
  note eff = stream_read_effect [OF rd]
  show "st_out s' = st_out s"
    using assms(1) eff(1) by (auto simp: read_buffer_def rd split: sum.splits if_splits)
  show "pos + n \<le> length buf \<and> length buf' = length buf \<and> take pos buf' = take pos buf \<and>
      st_in s = take n (drop pos buf') @ st_in s'" if "r = Inr (buf', n)"
  proof (cases r0)
    case (Inl e)
    then show ?thesis using that assms eff(3) by (auto simp: read_buffer_def rd split: if_splits)
  next
    case (Inr bs)
    then have "buf' = take pos buf @ bs @ drop (pos + length bs) buf" "n = length bs" "s' = s0"
      using that assms(1) by (auto simp: read_buffer_def rd)
    then show ?thesis using eff(2) [OF Inr] assms(2) by simp arith
  qed
  show "st_in s' = st_in s" if "r = Inl e"
    using that assms(1) eff(3) by (auto simp: read_buffer_def rd split: sum.splits if_splits)
qed

section \<open>Properties of the handshake\<close>

lemma create_handshake_inj:
  assumes "big_endian bo" and "create_handshake bo a = create_handshake bo b"
  shows "a = b"
proof -
  have "write_u16 bo a = write_u16 bo b" using assms by (simp add: create_handshake_def)
  then have "be_bytes 2 a = be_bytes 2 b" using assms(1) by (simp add: big_endian_def)
  then have "(be_value (be_bytes 2 a) :: u16) = be_value (be_bytes 2 b)" by simp
  then show ?thesis by (simp add: be_value_bytes)
qed

text \<open>
  (C33) Two peers that exchange whole handshakes accept each other exactly when their
  protocols match: after reading the eight bytes the other side wrote, the check
  succeeds if and only if the sender's protocol is the one the receiver expects, and
  the handshake is all that was taken from the stream.
\<close>

theorem handshake_accepts_matching_protocol:
  assumes "big_endian bo" and "st_script tx = [Progress n]" "8 \<le> n" and "st_out tx = []"
    and "st_script rx = [Progress m]" "8 \<le> m"
    and "send_and_check_handshake bo tx (mine, theirs) = (r, tx')" and "st_in rx = st_out tx' @ rest"
    and "recv_and_check_handshake bo rx (own, expected) = (r', rx')"
  shows "r = Inr () \<and> (r' = Inr () \<longleftrightarrow> mine = expected) \<and> st_in rx' = rest"
proof -
  have sent: "r = Inr ()" "st_out tx' = create_handshake bo mine"
    using assms(1-4,7) by (auto simp: send_and_check_handshake_def stream_write_def min_def split: if_splits)
  have "r' = check_handshake bo (own, expected) (create_handshake bo mine)" "st_in rx' = rest"
    using assms(1,5,6,8,9) sent(2)
    by (auto simp: recv_and_check_handshake_def stream_read_def min_def split: if_splits)
  then show ?thesis
    using sent(1) create_handshake_inj [OF assms(1)] by (auto simp: check_handshake_def)
qed

definition demo_tx :: stream where
  "demo_tx = \<lparr>st_in = [], st_out = [], st_script = [Progress 100]\<rparr>"

lemmas byte_eval = be_instance_def be_bytes_def upt_rec

theorem handshake_accepts_matching_protocol_witness:
  "fst (recv_and_check_handshake be_instance
      \<lparr>st_in = st_out (snd (send_and_check_handshake be_instance demo_tx (48, 49))), st_out = [], st_script = [Progress 8]\<rparr> (49, 48)) = Inr ()"
proof -
  let ?tx' = "snd (send_and_check_handshake be_instance demo_tx (48, 49))"
  let ?rx = "\<lparr>st_in = st_out ?tx', st_out = [], st_script = [Progress 8]\<rparr>"
  have send: "send_and_check_handshake be_instance demo_tx (48, 49) = (Inr (), ?tx')"
    by (simp add: demo_tx_def send_and_check_handshake_def create_handshake_def stream_write_def byte_eval)
  obtain r' rx' where recv: "recv_and_check_handshake be_instance ?rx (49, 48) = (r', rx')"
    by (cases "recv_and_check_handshake be_instance ?rx (49, 48)")
  from handshake_accepts_matching_protocol [OF big_endian_instance _ _ _ _ _ send _ recv, of 100 8 "[]"]
  have "r' = Inr ()" by (simp add: demo_tx_def)
  then show ?thesis by (simp add: recv)
qed

text \<open>
  (C40) A short read of the handshake can pass for a whole one: its last two bytes are zero
  and the buffer is initialised with zeros, so that a read of only six bytes is accepted,
  and the two bytes left in the stream are then taken for the beginning of a message.
\<close>

theorem short_handshake_accepted:
  assumes "big_endian bo" and "st_in s = create_handshake bo expected @ rest" and "st_script s = [Progress 6]"
  shows "\<exists>s'. recv_and_check_handshake bo s (own, expected) = (Inr (), s') \<and> st_in s' = [0, 0] @ rest"
proof -
  have len: "length (write_u16 bo expected) = 2" using assms(1) by (simp add: big_endian_simps)
  have "take 6 (st_in s) = [0, 83, 80, 0] @ write_u16 bo expected" "drop 6 (st_in s) = [0, 0] @ rest"
    using len by (simp_all add: assms(2) create_handshake_def)
  then show ?thesis
    using len by (simp add: recv_and_check_handshake_def stream_read_def assms(3) check_handshake_def create_handshake_def numeral_2_eq_2)
qed

theorem short_handshake_accepted_witness:
  "\<exists>s'. recv_and_check_handshake be_instance
      \<lparr>st_in = create_handshake be_instance 48, st_out = [], st_script = [Progress 6]\<rparr> (49, 48) = (Inr (), s') \<and> st_in s' = [0, 0]"
  using short_handshake_accepted [of be_instance "\<lparr>st_in = create_handshake be_instance 48, st_out = [], st_script = [Progress 6]\<rparr>" 48 "[]" 49]
  by simp

end
