(* ===== verification/Transport_Frame.thy ===== *)
theory Transport_Frame
  imports Transport_Stream
begin

text \<open>
  The contract of a message transfer that advances in steps: what the two transports
  promise of their \<open>SendOperation\<close> and \<open>RecvOperation\<close>, whatever pace the stream allows.
  \<open>Transport_Tcp\<close> and \<open>Transport_Ipc\<close> interpret the locales on their operations; the lemmas here
  follow an operation from its start to its end.
\<close>

section \<open>Byte order\<close>

locale network_order =
  fixes bo :: byteorder
  assumes big_endian: "big_endian bo"

interpretation demo_order: network_order be_instance
  by unfold_locales simp

section \<open>Sending\<close>

text \<open>No error, and every call makes progress.\<close>

definition lively :: "io_step list \<Rightarrow> bool" where
  "lively script \<longleftrightarrow> (\<forall>x \<in> set script. \<exists>n. x = Progress (Suc n))"

lemma lively_simps [simp]:
  "lively []" "lively (Progress (Suc n) # xs) = lively xs" "\<not> lively (Progress 0 # xs)" "\<not> lively (Fail e # xs)"
  "lively xs \<Longrightarrow> lively (drop k xs)"
  by (auto simp: lively_def dest: in_set_dropD)

text \<open>Run an operation again until it is done or fails, at most \<open>n\<close> times.\<close>

fun send_until :: "('op \<Rightarrow> stream \<Rightarrow> (io_error + bool) \<times> 'op \<times> stream) \<Rightarrow> nat \<Rightarrow> 'op \<Rightarrow> stream \<Rightarrow> (io_error + bool) \<times> 'op \<times> stream" where
  "send_until run 0 op s = (Inr False, op, s)"
| "send_until run (Suc n) op s = (case run op s of
     (Inr False, op', s') \<Rightarrow> send_until run n op' s'
   | res \<Rightarrow> res)"

text \<open>
  What running an operation that has written \<open>k\<close> bytes of a frame may do, how the runs of two
  steps compose, and the progress on a lively stream.
\<close>

definition send_outcome where
  "send_outcome fr at msg k s r op' s' \<longleftrightarrow> st_in s' = st_in s \<and>
     (\<exists>n. k + n \<le> length fr \<and> st_out s' = st_out s @ take n (drop k fr) \<and>
        (r = Inr True \<longrightarrow> k + n = length fr) \<and> (r = Inr False \<longrightarrow> at op' msg (k + n)))"

lemma send_outcome_step:
  assumes "send_outcome fr at msg (k + n) s1 r op' s'" and "st_in s1 = st_in s" and "st_out s1 = st_out s @ take n (drop k fr)"
  shows "send_outcome fr at msg k s r op' s'"
proof -
  from assms(1) obtain m where m: "st_in s' = st_in s1" "k + n + m \<le> length fr"
    "st_out s' = st_out s1 @ take m (drop (k + n) fr)" "r = Inr True \<longrightarrow> k + n + m = length fr"
    "r = Inr False \<longrightarrow> at op' msg (k + n + m)" unfolding send_outcome_def by blast
  have "take (n + m) (drop k fr) = take n (drop k fr) @ take m (drop (k + n) fr)"
    by (simp only: take_add drop_drop add.commute [of n k])
  then show ?thesis using assms(2,3) m unfolding send_outcome_def
    by (intro conjI exI [of _ "n + m"]) (simp_all add: add.assoc)
qed

definition send_progress :: "bool \<Rightarrow> stream \<Rightarrow> io_error + bool \<Rightarrow> stream \<Rightarrow> bool" where
  "send_progress pending s r s' \<longleftrightarrow> (\<exists>c. st_script s' = drop c (st_script s) \<and> c \<le> length (st_script s) \<and>
     (st_script s \<noteq> [] \<and> pending \<longrightarrow> c > 0) \<and> length (st_out s) + c \<le> length (st_out s')) \<and> (\<forall>e. r \<noteq> Inl e)"

lemma send_progress_step:
  assumes "send_progress p1 s1 r s2" and "st_script s1 = drop d (st_script s)" and "d \<le> length (st_script s)"
    and "length (st_out s) + d \<le> length (st_out s1)" and "st_script s \<noteq> [] \<and> pending \<longrightarrow> d > 0 \<or> s1 = s \<and> p1"
  shows "send_progress pending s r s2"
proof -
  from assms(1) obtain c where "st_script s2 = drop c (st_script s1)" "c \<le> length (st_script s1)"
    "st_script s1 \<noteq> [] \<and> p1 \<longrightarrow> c > 0" "length (st_out s1) + c \<le> length (st_out s2)" "\<forall>e. r \<noteq> Inl e"
    unfolding send_progress_def by blast
  then show ?thesis unfolding send_progress_def using assms(2-5)
    by (intro conjI exI [of _ "c + d"]) (auto simp: add.commute)
qed

locale send_operation =
  fixes new :: "message \<Rightarrow> 'op"
    and run :: "'op \<Rightarrow> stream \<Rightarrow> (io_error + bool) \<times> 'op \<times> stream"
    and frame :: "message \<Rightarrow> u8 list"
    and at :: "'op \<Rightarrow> message \<Rightarrow> nat \<Rightarrow> bool"
  assumes new_law: "at (new msg) msg 0"
    and at_end: "at op msg k \<Longrightarrow> k < length (frame msg)"
    and run_law: "\<lbrakk>at op msg k; run op s = (r, op', s')\<rbrakk> \<Longrightarrow> st_in s' = st_in s \<and>
      (\<exists>n. k + n \<le> length (frame msg) \<and> st_out s' = st_out s @ take n (drop k (frame msg)) \<and>
        (r = Inr True \<longrightarrow> k + n = length (frame msg)) \<and> (r = Inr False \<longrightarrow> at op' msg (k + n)))"
    and lively_law: "\<lbrakk>at op msg k; run op s = (r, op', s'); lively (st_script s)\<rbrakk> \<Longrightarrow>
      \<exists>c. st_script s' = drop c (st_script s) \<and> c \<le> length (st_script s) \<and> (st_script s \<noteq> [] \<longrightarrow> c > 0) \<and>
        length (st_out s) + c \<le> length (st_out s') \<and> (\<forall>e. r \<noteq> Inl e)"

context send_operation
begin

lemma run_outcome: "\<lbrakk>at op msg k; run op s = (r, op', s')\<rbrakk> \<Longrightarrow> send_outcome (frame msg) at msg k s r op' s'"
  unfolding send_outcome_def by (rule run_law)

lemma until_prefix:
  assumes "at op msg k" and "send_until run fuel op s = (r, op', s')"
  shows "send_outcome (frame msg) at msg k s r op' s'"
  using assms
proof (induction fuel arbitrary: op k s)
  case (Suc fuel)
  obtain r1 op1 s1 where step: "run op s = (r1, op1, s1)" by (cases "run op s") auto
  note out = run_outcome [OF Suc.prems(1) step]
  show ?case
  proof (cases "r1 = Inr False")
    case True
    with out obtain n where n: "st_in s1 = st_in s" "st_out s1 = st_out s @ take n (drop k (frame msg))" "at op1 msg (k + n)"
      unfolding send_outcome_def by blast
    have "send_outcome (frame msg) at msg (k + n) s1 r op' s'"
      using Suc.IH [OF n(3)] Suc.prems(2) step True by simp
    then show ?thesis by (rule send_outcome_step [OF _ n(1,2)])
  next
    case False
    then have "r1 = r" "op1 = op'" "s1 = s'"
      using Suc.prems(2) step by (auto split: sum.splits bool.splits)
    then show ?thesis using out by simp
  qed
next
  case 0
  then show ?case using at_end [of op msg k] by (auto simp: send_outcome_def intro!: exI [of _ 0])
qed

lemma until_done:
  assumes "at op msg k" and "lively (st_script s)" and "length (frame msg) - k \<le> length (st_script s)"
    and "k < length (frame msg)" and "length (st_script s) \<le> fuel"
  shows "\<exists>op' s'. send_until run fuel op s = (Inr True, op', s')"
  using assms
proof (induction fuel arbitrary: op k s)
  case (Suc fuel)
  obtain r1 op1 s1 where step: "run op s = (r1, op1, s1)" by (cases "run op s") auto
  from run_law [OF Suc.prems(1) step] obtain n where n: "k + n \<le> length (frame msg)"
    "st_out s1 = st_out s @ take n (drop k (frame msg))" "r1 = Inr False \<longrightarrow> at op1 msg (k + n)" by blast
  from lively_law [OF Suc.prems(1) step Suc.prems(2)] obtain c where c: "st_script s1 = drop c (st_script s)"
    "c \<le> length (st_script s)" "c > 0" "length (st_out s) + c \<le> length (st_out s1)" "\<forall>e. r1 \<noteq> Inl e"
    using Suc.prems(3,4) by auto
  have "c \<le> n" using c(4) n(1,2) by simp
  show ?case
  proof (cases "r1 = Inr False")
    case True
    show ?thesis
    proof (cases "k + n < length (frame msg)")
      case True
      have "\<exists>op' s'. send_until run fuel op1 s1 = (Inr True, op', s')"
        using Suc.IH [of op1 "k + n" s1] n(3) \<open>r1 = Inr False\<close> True c \<open>c \<le> n\<close> Suc.prems(2,3,5) by simp
      then show ?thesis using step \<open>r1 = Inr False\<close> by simp
    next
      case False
      then show ?thesis using at_end [of op1 msg "k + n"] n(1,3) \<open>r1 = Inr False\<close> by simp
    qed
  next
    case False
    then have "r1 = Inr True" using c(5) by (cases r1) (auto split: bool.splits)
    then show ?thesis using step by simp
  qed
qed simp

end

section \<open>Receiving\<close>

text \<open>
  \<open>framed H bo bs m\<close>: the bytes \<open>bs\<close> are one whole frame carrying the message \<open>m\<close>: \<open>H\<close> bytes of
  header, the last eight of which are the length of the payload, then the payload.
\<close>

definition framed :: "nat \<Rightarrow> byteorder \<Rightarrow> u8 list \<Rightarrow> message \<Rightarrow> bool" where
  "framed H bo bs m \<longleftrightarrow> H \<le> length bs \<and> length bs = H + unat (read_u64 bo (drop (H - 8) (take H bs))) \<and>
     m = from_body (drop H bs)"

lemma framedD:
  assumes "framed H bo bs m"
  shows "H \<le> length bs" "length bs = H + unat (read_u64 bo (drop (H - 8) (take H bs)))" "m = from_body (drop H bs)"
  using assms unfolding framed_def by blast+

lemma same_header: "\<lbrakk>xs @ zs = ys @ rest; H \<le> length xs; H \<le> length ys\<rbrakk> \<Longrightarrow> take H xs = take H ys"
  by (metis append_take_drop_id append_eq_append_conv length_take min_absorb2 take_append diff_is_0_eq' take_0 append_Nil2)

text \<open>Two frames at the head of the same bytes are the same.\<close>

lemma frames_agree:
  assumes "framed H bo xs m" and "framed H bo ys m0" and "xs @ zs = ys @ rest"
  shows "m = m0 \<and> zs = rest"
proof -
  have "take H xs = take H ys" using same_header [OF assms(3)] framedD(1) [OF assms(1)] framedD(1) [OF assms(2)] by blast
  then have "length xs = length ys" using framedD(2) [OF assms(1)] framedD(2) [OF assms(2)] by argo
  then show ?thesis using assms(3) framedD(3) [OF assms(1)] framedD(3) [OF assms(2)] by simp
qed

text \<open>
  A buffer whose first \<open>rd\<close> bytes are those of \<open>bs\<close>; reading on keeps it such a buffer.
\<close>

definition filled :: "u8 list \<Rightarrow> nat \<Rightarrow> u8 list \<Rightarrow> bool" where
  "filled buf rd bs \<longleftrightarrow> rd = length bs \<and> rd \<le> length buf \<and> take rd buf = bs"

lemma filled_full: "filled buf (length buf) bs \<longleftrightarrow> buf = bs"
  by (auto simp: filled_def)

lemma read_buffer_fills:
  assumes "read_buffer s buf rd = (Inr (buf', n), s')" and "filled buf rd bs"
  shows "\<exists>cs. n = length cs \<and> st_in s = cs @ st_in s' \<and> filled buf' (rd + n) (bs @ cs) \<and> length buf' = length buf \<and> st_out s' = st_out s"
proof -
  have rd: "rd \<le> length buf" "rd = length bs" "take rd buf = bs" using assms(2) by (auto simp: filled_def)
  note eff = read_buffer_effect [OF assms(1) rd(1)]
  have e: "rd + n \<le> length buf" "length buf' = length buf" "take rd buf' = take rd buf" "st_in s = take n (drop rd buf') @ st_in s'"
    using eff(2) by blast+
  have "take (rd + n) buf' = bs @ take n (drop rd buf')" using e(3) rd(3) by (simp add: take_add)
  then show ?thesis using e rd eff(1) by (intro exI [of _ "take n (drop rd buf')"]) (simp add: filled_def)
qed

lemma read_buffer_script:
  assumes "read_buffer s buf rd = (r, s')"
  shows "set (st_script s') \<subseteq> set (st_script s)" "r = Inl e \<Longrightarrow> Fail e \<in> set (st_script s) \<and> st_in s' = st_in s \<and> st_out s' = st_out s"
  using assms by (auto simp: read_buffer_def stream_read_def blocked_def would_block_io_error_def split: list.splits io_step.splits if_splits)

lemma read_buffer_lively:
  assumes "read_buffer s buf rd = (Inr (buf', n), s')" and "lively (st_script s)" and "rd < length buf" and "st_in s \<noteq> []"
  shows "if st_script s = [] then s' = s \<and> n = 0 else st_script s' = tl (st_script s) \<and> n > 0"
  using assms by (auto simp: read_buffer_def stream_read_def blocked_def would_block_io_error_def lively_def
      split: list.splits io_step.splits if_splits)

fun recv_until :: "('op \<Rightarrow> stream \<Rightarrow> (io_error + message option) \<times> 'op \<times> stream) \<Rightarrow> nat \<Rightarrow> 'op \<Rightarrow> stream \<Rightarrow> (io_error + message option) \<times> 'op \<times> stream" where
  "recv_until run 0 op s = (Inr None, op, s)"
| "recv_until run (Suc n) op s = (case run op s of
     (Inr None, op', s') \<Rightarrow> recv_until run n op' s'
   | res \<Rightarrow> res)"

text \<open>
  A receiver first fills a buffer of \<open>H\<close> bytes with the header, then one as long as the header
  says with the payload.
\<close>

definition in_header :: "nat \<Rightarrow> u8 list \<Rightarrow> nat \<Rightarrow> u8 list \<Rightarrow> bool" where
  "in_header H buf rd bs \<longleftrightarrow> length buf = H \<and> filled buf rd bs"

definition within :: "nat \<Rightarrow> byteorder \<Rightarrow> u64 \<Rightarrow> u8 list \<Rightarrow> bool" where
  "within H bo limit bs \<longleftrightarrow> \<not> (limit > 0 \<and> read_u64 bo (drop (H - 8) (take H bs)) > limit)"

definition in_payload :: "nat \<Rightarrow> byteorder \<Rightarrow> u64 \<Rightarrow> u8 list \<Rightarrow> nat \<Rightarrow> u8 list \<Rightarrow> bool" where
  "in_payload H bo limit buf rd bs \<longleftrightarrow> within H bo limit bs \<and> H \<le> length bs \<and> length buf = unat (read_u64 bo (drop (H - 8) (take H bs))) \<and> filled buf rd (drop H bs)"

lemma in_header_full:
  assumes "in_header H buf H bs"
  shows "\<not> (limit > 0 \<and> read_u64 bo (drop (H - 8) buf) > limit) \<Longrightarrow> in_payload H bo limit (replicate (unat (read_u64 bo (drop (H - 8) buf))) 0) 0 bs" "bs = buf" "length bs = H"
  using assms by (auto simp: in_header_def in_payload_def filled_def within_def)

lemma in_payload_full: "in_payload H bo limit buf (length buf) bs \<Longrightarrow> framed H bo bs (from_body buf) \<and> within H bo limit bs"
  by (auto simp: in_payload_def framed_def filled_full)

lemma in_header_read:
  assumes "in_header H buf rd bs" and "read_buffer s buf rd = (Inr (buf', n), s')"
  shows "\<exists>cs. n = length cs \<and> st_in s = cs @ st_in s' \<and> st_out s' = st_out s \<and> in_header H buf' (rd + n) (bs @ cs)"
  using read_buffer_fills [OF assms(2)] assms(1) by (fastforce simp: in_header_def)

lemma in_payload_read:
  assumes "in_payload H bo limit buf rd bs" and "read_buffer s buf rd = (Inr (buf', n), s')"
  shows "\<exists>cs. n = length cs \<and> st_in s = cs @ st_in s' \<and> st_out s' = st_out s \<and> in_payload H bo limit buf' (rd + n) (bs @ cs)"
  using read_buffer_fills [OF assms(2)] assms(1) by (fastforce simp: in_payload_def within_def)

lemma remaining_nonempty: "\<lbrakk>length bs < length fr; bs @ xs = fr @ rest\<rbrakk> \<Longrightarrow> xs \<noteq> []"
  by (cases xs) auto

lemma in_header_less: "\<lbrakk>in_header H buf rd bs; rd < H; framed H bo fr m\<rbrakk> \<Longrightarrow> length bs < length fr"
  by (drule framedD(1)) (simp add: in_header_def filled_def)

lemma in_payload_less:
  assumes "in_payload H bo limit buf rd bs" and "rd < length buf" and "framed H bo fr m" and "bs @ xs = fr @ rest"
  shows "length bs < length fr"
proof -
  have len: "H \<le> length bs" "rd = length bs - H" "length buf = unat (read_u64 bo (drop (H - 8) (take H bs)))"
    using assms(1) by (simp_all add: in_payload_def filled_def)
  have "take H bs = take H fr" by (rule same_header [OF assms(4) len(1) framedD(1) [OF assms(3)]])
  then have "length buf = unat (read_u64 bo (drop (H - 8) (take H fr)))" using len(3) by (simp only:)
  then show ?thesis using len(1,2) assms(2) framedD(2) [OF assms(3)] by linarith
qed

text \<open>What one run of a receiver may do, and how the runs of two steps compose.\<close>

definition recv_outcome where
  "recv_outcome H bo at limit bs s r op' s' \<longleftrightarrow> st_out s' = st_out s \<and>
     (\<exists>cs. st_in s = cs @ st_in s' \<and> (r = Inr None \<longrightarrow> at op' limit (bs @ cs)) \<and>
       (\<forall>m. r = Inr (Some m) \<longrightarrow> framed H bo (bs @ cs) m \<and> within H bo limit (bs @ cs)) \<and>
       (\<forall>e. r = Inl e \<longrightarrow> Fail e \<in> set (st_script s) \<or>
          H \<le> length (bs @ cs) \<and> \<not> within H bo limit (bs @ cs)))"

lemma recv_outcome_step:
  assumes "recv_outcome H bo at limit (bs @ cs) s1 r op' s'" and "st_in s = cs @ st_in s1" and "st_out s1 = st_out s"
    and "set (st_script s1) \<subseteq> set (st_script s)"
  shows "recv_outcome H bo at limit bs s r op' s'"
proof -
  from assms(1) obtain ds where "st_out s' = st_out s1" "st_in s1 = ds @ st_in s'"
    "r = Inr None \<longrightarrow> at op' limit ((bs @ cs) @ ds)" "\<forall>m. r = Inr (Some m) \<longrightarrow> framed H bo ((bs @ cs) @ ds) m \<and> within H bo limit ((bs @ cs) @ ds)"
    "\<forall>e. r = Inl e \<longrightarrow> Fail e \<in> set (st_script s1) \<or>
       H \<le> length ((bs @ cs) @ ds) \<and> \<not> within H bo limit ((bs @ cs) @ ds)"
    unfolding recv_outcome_def by blast
  then show ?thesis
    unfolding recv_outcome_def using assms(2-4) by (intro conjI exI [of _ "cs @ ds"]) (auto simp only: append_assoc)
qed

lemma recv_outcome_fails:
  assumes "read_buffer s buf rd = (Inl e, s')"
  shows "recv_outcome H bo at limit bs s (Inl e) op' s'"
  using read_buffer_script(2) [OF assms] by (auto simp: recv_outcome_def)

definition recv_progress :: "stream \<Rightarrow> stream \<Rightarrow> bool" where
  "recv_progress s s' \<longleftrightarrow> (\<exists>c. st_script s' = drop c (st_script s) \<and> c \<le> length (st_script s) \<and> (st_script s \<noteq> [] \<longrightarrow> c > 0) \<and>
     length (st_in s') + c \<le> length (st_in s))"

lemma recv_progress_trans:
  assumes "recv_progress s s1" and "recv_progress s1 s2"
  shows "recv_progress s s2"
proof -
  from assms obtain c d where "st_script s1 = drop c (st_script s)" "c \<le> length (st_script s)" "st_script s \<noteq> [] \<longrightarrow> c > 0"
    "length (st_in s1) + c \<le> length (st_in s)" "st_script s2 = drop d (st_script s1)" "d \<le> length (st_script s1)"
    "length (st_in s2) + d \<le> length (st_in s1)" unfolding recv_progress_def by blast
  then show ?thesis unfolding recv_progress_def by (intro exI [of _ "c + d"]) (auto simp: add.commute)
qed

lemma read_buffer_progress:
  assumes "read_buffer s buf rd = (Inr (buf', n), s')" and "lively (st_script s)" and "rd < length buf" and "st_in s \<noteq> []"
  shows "recv_progress s s'" "lively (st_script s')"
proof -
  note l = read_buffer_lively [OF assms]
  have e: "rd + n \<le> length buf'" "st_in s = take n (drop rd buf') @ st_in s'"
    using read_buffer_effect(2) [OF assms(1) less_imp_le [OF assms(3)] refl] by auto
  have len: "length (st_in s) = n + length (st_in s')" by (subst e(2)) (use e(1) in simp)
  show "recv_progress s s'"
  proof (cases "st_script s")
    case Nil
    then show ?thesis using l by (simp add: recv_progress_def)
  next
    case (Cons x xs)
    then show ?thesis using l len by (auto simp: recv_progress_def intro!: exI [of _ 1])
  qed
  show "lively (st_script s')" using l assms(2) by (cases "st_script s") (auto simp: lively_def)
qed

text \<open>A frame made of a header that ends with the length, and the bytes it announces.\<close>

lemma framed_append:
  assumes "big_endian bo" and "length pre + 8 = H" and "length bs < 2 ^ 64"
  shows "framed H bo (pre @ write_u64 bo (of_nat (length bs)) @ bs) (from_body bs)"
    and "within H bo limit (pre @ write_u64 bo (of_nat (length bs)) @ bs) \<longleftrightarrow> limit = 0 \<or> length bs \<le> unat limit"
proof -
  have w: "length (write_u64 bo (of_nat (length bs))) = 8" "read_u64 bo (write_u64 bo (of_nat (length bs))) = of_nat (length bs)"
    using big_endian_simps [OF assms(1)] by auto
  have n: "unat (of_nat (length bs) :: u64) = length bs" using assms(3) by (simp add: unat_of_nat)
  have hdr: "take H (pre @ write_u64 bo (of_nat (length bs)) @ bs) = pre @ write_u64 bo (of_nat (length bs))"
    "drop (H - 8) (pre @ write_u64 bo (of_nat (length bs))) = write_u64 bo (of_nat (length bs))"
    "drop H (pre @ write_u64 bo (of_nat (length bs)) @ bs) = bs"
    using w(1) assms(2) [symmetric] by simp_all
  show "framed H bo (pre @ write_u64 bo (of_nat (length bs)) @ bs) (from_body bs)"
    unfolding framed_def hdr w(2) n using w(1) assms(2) by simp
  show "within H bo limit (pre @ write_u64 bo (of_nat (length bs)) @ bs) \<longleftrightarrow> limit = 0 \<or> length bs \<le> unat limit"
    unfolding within_def hdr w(2) by (auto simp: word_less_nat_alt n unat_eq_zero)
qed

text \<open>\<open>at op bs\<close>: the operation has taken the bytes \<open>bs\<close> and is not done.\<close>

locale recv_operation =
  fixes H :: nat
    and bo :: byteorder
    and new :: "u64 \<Rightarrow> 'op"
    and run :: "'op \<Rightarrow> stream \<Rightarrow> (io_error + message option) \<times> 'op \<times> stream"
    and at :: "'op \<Rightarrow> u64 \<Rightarrow> u8 list \<Rightarrow> bool"
  assumes header_size: "8 \<le> H"
    and new_law: "at (new limit) limit []"
    and run_law: "\<lbrakk>at op limit bs; run op s = (r, op', s')\<rbrakk> \<Longrightarrow> st_out s' = st_out s \<and>
      (\<exists>cs. st_in s = cs @ st_in s' \<and>
        (r = Inr None \<longrightarrow> at op' limit (bs @ cs)) \<and>
        (\<forall>m. r = Inr (Some m) \<longrightarrow> framed H bo (bs @ cs) m \<and> within H bo limit (bs @ cs)) \<and>
        (\<forall>e. r = Inl e \<longrightarrow> Fail e \<in> set (st_script s) \<or>
           H \<le> length (bs @ cs) \<and> \<not> within H bo limit (bs @ cs)))"
    and at_end: "\<lbrakk>at op limit bs; framed H bo fr m; bs @ xs = fr @ rest\<rbrakk> \<Longrightarrow> length bs < length fr"
    and lively_law: "\<lbrakk>at op limit bs; run op s = (Inr None, op', s'); lively (st_script s);
      framed H bo fr m; bs @ st_in s = fr @ rest\<rbrakk> \<Longrightarrow>
      \<exists>c. st_script s' = drop c (st_script s) \<and> c \<le> length (st_script s) \<and> (st_script s \<noteq> [] \<longrightarrow> c > 0) \<and>
        length (st_in s') + c \<le> length (st_in s)"

context recv_operation
begin

lemma until_frame:
  assumes "at op limit bs" and "recv_until run fuel op s = (r, op', s')"
  shows "st_out s' = st_out s \<and> (\<exists>cs. st_in s = cs @ st_in s' \<and> (r = Inr None \<longrightarrow> at op' limit (bs @ cs)) \<and>
    (\<forall>m. r = Inr (Some m) \<longrightarrow> framed H bo (bs @ cs) m \<and> within H bo limit (bs @ cs)))"
  using assms
proof (induction fuel arbitrary: op bs s)
  case (Suc fuel)
  obtain r1 op1 s1 where step: "run op s = (r1, op1, s1)" by (cases "run op s") auto
  from run_law [OF Suc.prems(1) step] obtain cs where cs: "st_out s1 = st_out s" "st_in s = cs @ st_in s1"
    "r1 = Inr None \<longrightarrow> at op1 limit (bs @ cs)" "\<forall>m. r1 = Inr (Some m) \<longrightarrow> framed H bo (bs @ cs) m \<and> within H bo limit (bs @ cs)" by blast
  show ?case
  proof (cases "r1 = Inr None")
    case True
    from Suc.IH [of op1 "bs @ cs" s1] cs(3) True Suc.prems(2) step obtain ds where "st_out s' = st_out s1"
      "st_in s1 = ds @ st_in s'" "r = Inr None \<longrightarrow> at op' limit ((bs @ cs) @ ds)"
      "\<forall>m. r = Inr (Some m) \<longrightarrow> framed H bo ((bs @ cs) @ ds) m \<and> within H bo limit ((bs @ cs) @ ds)" by auto
    then show ?thesis using cs by (intro conjI exI [of _ "cs @ ds"]) simp_all
  next
    case False
    then have "r1 = r" "op1 = op'" "s1 = s'"
      using Suc.prems(2) step by (auto split: sum.splits option.splits)
    then show ?thesis using cs by auto
  qed
qed auto

text \<open>A receiver takes exactly one frame off the stream, the one that was sent.\<close>

lemma until_message:
  assumes "recv_until run fuel (new limit) s = (Inr (Some m), op', s')"
    and "st_in s = fr @ rest" and "framed H bo fr m0"
  shows "m = m0 \<and> st_in s' = rest"
proof -
  obtain cs where "st_in s = cs @ st_in s'" "framed H bo cs m"
    using until_frame [OF new_law assms(1)] by auto
  then show ?thesis using frames_agree [OF _ assms(3)] assms(2) by metis
qed

text \<open>A receiver with a limit returns no message over it.\<close>

lemma until_within:
  assumes "recv_until run fuel (new limit) s = (Inr (Some m), op', s')"
  shows "limit = 0 \<or> length (body m) \<le> unat limit"
proof -
  obtain cs where cs: "framed H bo cs m" "within H bo limit cs" using until_frame [OF new_law assms] by auto
  have "length (body m) = length cs - H" using framedD(3) [OF cs(1)] by (simp add: from_body_def)
  then have "length (body m) = unat (read_u64 bo (drop (H - 8) (take H cs)))"
    using framedD(2) [OF cs(1)] by linarith
  then show ?thesis using cs(2) by (auto simp: within_def word_less_nat_alt unat_eq_zero)
qed

text \<open>
  When a whole frame within the limit is there and every read makes progress, the
  receiver returns its message.
\<close>

lemma until_delivers:
  assumes "at op limit bs" and "lively (st_script s)" and "framed H bo fr m0" and "bs @ st_in s = fr @ rest"
    and "within H bo limit fr"
    and "length fr - length bs \<le> length (st_script s)" and "length (st_script s) \<le> fuel"
  shows "\<exists>op' s'. recv_until run fuel op s = (Inr (Some m0), op', s') \<and> st_in s' = rest"
  using assms
proof (induction fuel arbitrary: op bs s)
  case 0
  then show ?case using at_end [OF 0(1,3,4)] by simp
next
  case (Suc fuel)
  note less = at_end [OF Suc.prems(1,3,4)]
  obtain r1 op1 s1 where step: "run op s = (r1, op1, s1)" by (cases "run op s") auto
  from run_law [OF Suc.prems(1) step] obtain cs where cs: "st_in s = cs @ st_in s1"
    "r1 = Inr None \<longrightarrow> at op1 limit (bs @ cs)" "\<forall>m. r1 = Inr (Some m) \<longrightarrow> framed H bo (bs @ cs) m \<and> within H bo limit (bs @ cs)"
    "\<forall>e. r1 = Inl e \<longrightarrow> Fail e \<in> set (st_script s) \<or> H \<le> length (bs @ cs) \<and> \<not> within H bo limit (bs @ cs)" by blast
  have split: "(bs @ cs) @ st_in s1 = fr @ rest" using cs(1) Suc.prems(4) by simp
  consider (none) "r1 = Inr None" | (some) m where "r1 = Inr (Some m)" | (err) e where "r1 = Inl e"
    by (cases r1) (auto intro: option.exhaust)
  then show ?case
  proof cases
    case none
    from lively_law [OF Suc.prems(1) step [unfolded none] Suc.prems(2,3,4)] obtain c where
      c: "st_script s1 = drop c (st_script s)" "c \<le> length (st_script s)" "st_script s \<noteq> [] \<longrightarrow> c > 0"
      "length (st_in s1) + c \<le> length (st_in s)" by blast
    have "c \<le> length cs" "c > 0" using c(3,4) cs(1) less Suc.prems(6) by auto
    then have "\<exists>op' s'. recv_until run fuel op1 s1 = (Inr (Some m0), op', s') \<and> st_in s' = rest"
      using cs(2) none c Suc.prems(2,3,5,6,7) split by (intro Suc.IH [of op1 "bs @ cs" s1]) simp_all
    then show ?thesis using step none by simp
  next
    case some
    then have "m = m0 \<and> st_in s1 = rest" using frames_agree [OF _ Suc.prems(3) split] cs(3) by blast
    then show ?thesis using step some by simp
  next
    case err
    have "Fail e \<notin> set (st_script s)" using Suc.prems(2) by (auto simp: lively_def)
    then have "H \<le> length (bs @ cs)" "\<not> within H bo limit (bs @ cs)" using cs(4) err by blast+
    moreover have "take H (bs @ cs) = take H fr"
      using same_header [OF split] framedD(1) [OF Suc.prems(3)] calculation(1) by blast
    ultimately show ?thesis using Suc.prems(5) by (simp only: within_def)
  qed
qed

end

end
