(* ===== verification/Transport_Tcp.thy ===== *)
theory Transport_Tcp
  imports Transport_Frame
begin

text \<open>
  \<open>src/transport/tcp/\<close>: the send operation (\<open>send.rs\<close>), the receive operation (\<open>recv.rs\<close>) and the
  pipe stub that runs them (\<open>stub.rs\<close>). Both operations are interpretations of the locales
  of \<open>Transport_Frame\<close>. A vectored write takes the bytes of the buffers in order; the slices
  \<open>buffer[written..]\<close> stay within their buffers, which \<open>tcp_at\<close> records, and the capacity of
  the vector \<open>vec![0u8; n]\<close> is its length.
\<close>

section \<open>SendOperation: tcp/send.rs\<close>

datatype tcp_send_step =
    TcpTransportHdr message nat
  | TcpProtocolHdr message nat
  | TcpUsrPayload message nat
  | TcpSendTerminal

record tcp_send_operation =
  tcp_send_at :: "tcp_send_step option"

definition tcp_send_new :: "message \<Rightarrow> tcp_send_operation" where
  "tcp_send_new msg = \<lparr>tcp_send_at = Some (TcpTransportHdr msg 0)\<rparr>"

definition flatten_would_block :: "io_error + nat \<Rightarrow> io_error + nat" where
  "flatten_would_block result = (case result of
     Inr x \<Rightarrow> Inr x
   | Inl e \<Rightarrow> if error_kind e = WouldBlock then Inr 0 else Inl e)"

definition tcp_write_buffer :: "stream \<Rightarrow> u8 list \<Rightarrow> (io_error + nat) \<times> stream" where
  "tcp_write_buffer s buffer = (let (r, s') = stream_write s buffer in (flatten_would_block r, s'))"

definition tcp_write_buffers :: "stream \<Rightarrow> u8 list list \<Rightarrow> (io_error + nat) \<times> stream" where
  "tcp_write_buffers s buffers = (let (r, s') = stream_write_bufs s buffers in (flatten_would_block r, s'))"

definition tcp_write_transport_hdr ::
  "byteorder \<Rightarrow> stream \<Rightarrow> message \<Rightarrow> nat \<Rightarrow> (io_error + bool \<times> tcp_send_step) \<times> stream" where
  "tcp_write_transport_hdr bo s msg written =
     (let buffer = write_u64 bo (of_nat (message_len msg));
          transport_hdr = (if written = 0 then buffer else drop written buffer);
          proto_hdr = get_header msg;
          payload = get_body msg;
          (r, s') = (if length proto_hdr = 0
             then (if length payload = 0 then tcp_write_buffer s transport_hdr
                   else tcp_write_buffers s [transport_hdr, payload])
             else (if length payload = 0 then tcp_write_buffers s [transport_hdr, proto_hdr]
                   else tcp_write_buffers s [transport_hdr, proto_hdr, payload]))
      in (case r of
            Inl e \<Rightarrow> (Inl e, s')
          | Inr n \<Rightarrow>
              let written = written + n;
                  transport_limit = 8;
                  proto_hdr_limit = transport_limit + length (get_header msg);
                  payload_limit = proto_hdr_limit + length (get_body msg)
              in (if written < transport_limit then (Inr (False, TcpTransportHdr msg written), s')
                  else if written < proto_hdr_limit then (Inr (False, TcpProtocolHdr msg (written - transport_limit)), s')
                  else if written < payload_limit then (Inr (False, TcpUsrPayload msg (written - proto_hdr_limit)), s')
                  else (Inr (True, TcpSendTerminal), s'))))"

definition tcp_write_protocol_hdr ::
  "stream \<Rightarrow> message \<Rightarrow> nat \<Rightarrow> (io_error + bool \<times> tcp_send_step) \<times> stream" where
  "tcp_write_protocol_hdr s msg written =
     (let (r, s') = (if written = 0
             then tcp_write_buffers s [get_header msg, get_body msg]
             else tcp_write_buffers s [drop written (get_header msg), get_body msg])
      in (case r of
            Inl e \<Rightarrow> (Inl e, s')
          | Inr n \<Rightarrow>
              let written = written + n;
                  proto_hdr_limit = length (get_header msg);
                  payload_limit = proto_hdr_limit + length (get_body msg)
              in (if written < proto_hdr_limit then (Inr (False, TcpProtocolHdr msg written), s')
                  else if written < payload_limit then (Inr (False, TcpUsrPayload msg (written - proto_hdr_limit)), s')
                  else (Inr (True, TcpSendTerminal), s'))))"

definition tcp_write_usr_payload ::
  "stream \<Rightarrow> message \<Rightarrow> nat \<Rightarrow> (io_error + bool \<times> tcp_send_step) \<times> stream" where
  "tcp_write_usr_payload s msg written =
     (let (r, s') = (if written = 0
             then tcp_write_buffer s (get_body msg)
             else tcp_write_buffer s (drop written (get_body msg)))
      in (case r of
            Inl e \<Rightarrow> (Inl e, s')
          | Inr n \<Rightarrow>
              let written = written + n;
                  payload_limit = length (get_body msg)
              in (if written < payload_limit then (Inr (False, TcpUsrPayload msg written), s')
                  else (Inr (True, TcpSendTerminal), s'))))"

fun tcp_send_advance :: "byteorder \<Rightarrow> tcp_send_step \<Rightarrow> stream \<Rightarrow> (io_error + bool \<times> tcp_send_step) \<times> stream" where
  "tcp_send_advance bo (TcpTransportHdr msg written) s = tcp_write_transport_hdr bo s msg written"
| "tcp_send_advance bo (TcpProtocolHdr msg written) s = tcp_write_protocol_hdr s msg written"
| "tcp_send_advance bo (TcpUsrPayload msg written) s = tcp_write_usr_payload s msg written"
| "tcp_send_advance bo TcpSendTerminal s = (Inl (other_io_error ''Cannot advance terminal step of send operation''), s)"

fun tcp_send_is_terminal :: "tcp_send_step \<Rightarrow> bool" where
  "tcp_send_is_terminal TcpSendTerminal = True"
| "tcp_send_is_terminal _ = False"

lemma tcp_passed_is_terminal:
  assumes "tcp_send_advance bo step s = (Inr (True, next), s')"
  shows "next = TcpSendTerminal"
  using assms
  by (cases step) (auto simp: tcp_write_transport_hdr_def tcp_write_protocol_hdr_def tcp_write_usr_payload_def
      Let_def split: prod.splits sum.splits if_splits)

function tcp_send_resume_at :: "byteorder \<Rightarrow> tcp_send_operation \<Rightarrow> stream \<Rightarrow> tcp_send_step \<Rightarrow> (io_error + bool) \<times> tcp_send_operation \<times> stream" where
  "tcp_send_resume_at bo op s step = (case tcp_send_advance bo step s of
     (Inl e, s') \<Rightarrow> (Inl e, op, s')
   | (Inr (passed, next_step), s') \<Rightarrow>
       if tcp_send_is_terminal next_step then (Inr True, op, s')
       else if \<not> passed then (Inr False, op\<lparr>tcp_send_at := Some next_step\<rparr>, s')
       else tcp_send_resume_at bo op s' next_step)"
  by pat_completeness auto

termination
  by (relation "measure (\<lambda>(bo, op, s, step). if step = TcpSendTerminal then 0 else 1)")
    (auto dest: tcp_passed_is_terminal [OF sym])

definition tcp_send_run :: "byteorder \<Rightarrow> tcp_send_operation \<Rightarrow> stream \<Rightarrow> (io_error + bool) \<times> tcp_send_operation \<times> stream" where
  "tcp_send_run bo op s = (case tcp_send_at op of
     Some step \<Rightarrow> tcp_send_resume_at bo (op\<lparr>tcp_send_at := None\<rparr>) s step
   | None \<Rightarrow> (Inl (other_io_error ''Cannot resume already finished send operation''), op, s))"

section \<open>RecvOperation: tcp/recv.rs\<close>

datatype tcp_recv_step =
    TcpHeader "u8 list" nat u64
  | TcpPayload "u8 list" nat
  | TcpRecvTerminal message

record tcp_recv_operation =
  tcp_recv_at :: "tcp_recv_step option"

definition tcp_recv_new :: "u64 \<Rightarrow> tcp_recv_operation" where
  "tcp_recv_new max_size = \<lparr>tcp_recv_at = Some (TcpHeader (replicate 8 0) 0 max_size)\<rparr>"

definition tcp_read_header ::
  "byteorder \<Rightarrow> stream \<Rightarrow> u8 list \<Rightarrow> nat \<Rightarrow> u64 \<Rightarrow> (io_error + bool \<times> tcp_recv_step) \<times> stream" where
  "tcp_read_header bo s buffer rd max_size = (case read_buffer s buffer rd of
     (Inl e, s') \<Rightarrow> (Inl e, s')
   | (Inr (buffer, n), s') \<Rightarrow>
       let rd = rd + n
       in (if rd = 8
           then (let msg_len = read_u64 bo buffer
                 in (if max_size > 0 \<and> msg_len > max_size
                     then (Inl (invalid_data_io_error ''message is too long''), s')
                     else (Inr (True, TcpPayload (replicate (unat msg_len) 0) 0), s')))
           else (Inr (False, TcpHeader buffer rd max_size), s')))"

definition tcp_read_payload :: "stream \<Rightarrow> u8 list \<Rightarrow> nat \<Rightarrow> (io_error + bool \<times> tcp_recv_step) \<times> stream" where
  "tcp_read_payload s buffer rd = (case read_buffer s buffer rd of
     (Inl e, s') \<Rightarrow> (Inl e, s')
   | (Inr (buffer, n), s') \<Rightarrow>
       let rd = rd + n
       in (if rd = length buffer then (Inr (True, TcpRecvTerminal (from_body buffer)), s')
           else (Inr (False, TcpPayload buffer rd), s')))"

fun tcp_recv_advance :: "byteorder \<Rightarrow> tcp_recv_step \<Rightarrow> stream \<Rightarrow> (io_error + bool \<times> tcp_recv_step) \<times> stream" where
  "tcp_recv_advance bo (TcpHeader buffer rd max_size) s = tcp_read_header bo s buffer rd max_size"
| "tcp_recv_advance bo (TcpPayload buffer rd) s = tcp_read_payload s buffer rd"
| "tcp_recv_advance bo (TcpRecvTerminal _) s = (Inl (other_io_error ''Cannot advance terminal step of recv operation''), s)"

fun tcp_recv_rank :: "tcp_recv_step \<Rightarrow> nat" where
  "tcp_recv_rank (TcpHeader _ _ _) = 2"
| "tcp_recv_rank (TcpPayload _ _) = 1"
| "tcp_recv_rank (TcpRecvTerminal _) = 0"

lemma tcp_recv_passed_rank:
  assumes "tcp_recv_advance bo step s = (Inr (True, next), s')"
  shows "tcp_recv_rank next < tcp_recv_rank step"
  using assms
  by (cases step) (auto simp: tcp_read_header_def tcp_read_payload_def Let_def split: prod.splits sum.splits if_splits)

function tcp_recv_resume_at ::
  "byteorder \<Rightarrow> tcp_recv_operation \<Rightarrow> stream \<Rightarrow> tcp_recv_step \<Rightarrow> (io_error + message option) \<times> tcp_recv_operation \<times> stream" where
  "tcp_recv_resume_at bo op s step = (case tcp_recv_advance bo step s of
     (Inl e, s') \<Rightarrow> (Inl e, op, s')
   | (Inr (passed, next_step), s') \<Rightarrow>
       if \<not> passed then (Inr None, op\<lparr>tcp_recv_at := Some next_step\<rparr>, s')
       else (case next_step of
               TcpRecvTerminal msg \<Rightarrow> (Inr (Some msg), op, s')
             | other \<Rightarrow> tcp_recv_resume_at bo op s' other))"
  by pat_completeness auto

termination
  by (relation "measure (\<lambda>(bo, op, s, step). tcp_recv_rank step)") (auto dest: tcp_recv_passed_rank [OF sym])

definition tcp_recv_run ::
  "byteorder \<Rightarrow> tcp_recv_operation \<Rightarrow> stream \<Rightarrow> (io_error + message option) \<times> tcp_recv_operation \<times> stream" where
  "tcp_recv_run bo op s = (case tcp_recv_at op of
     Some step \<Rightarrow> tcp_recv_resume_at bo (op\<lparr>tcp_recv_at := None\<rparr>) s step
   | None \<Rightarrow> (Inl (other_io_error ''Cannot resume already finished recv operation''), op, s))"

section \<open>TcpPipeStub: tcp/stub.rs\<close>

record tcp_pipe_stub =
  tcp_stream :: stream
  tcp_recv_max_size :: u64
  tcp_send_op :: "tcp_send_operation option"
  tcp_recv_op :: "tcp_recv_operation option"

definition tcp_stub_new :: "stream \<Rightarrow> u64 \<Rightarrow> tcp_pipe_stub" where
  "tcp_stub_new s max_size = \<lparr>tcp_stream = s, tcp_recv_max_size = max_size, tcp_send_op = None, tcp_recv_op = None\<rparr>"

definition tcp_run_send_operation :: "byteorder \<Rightarrow> tcp_pipe_stub \<Rightarrow> tcp_send_operation \<Rightarrow> (io_error + bool) \<times> tcp_pipe_stub" where
  "tcp_run_send_operation bo stub send_op = (case tcp_send_run bo send_op (tcp_stream stub) of
     (Inl e, _, s') \<Rightarrow> (Inl e, stub\<lparr>tcp_stream := s'\<rparr>)
   | (Inr True, _, s') \<Rightarrow> (Inr True, stub\<lparr>tcp_stream := s'\<rparr>)
   | (Inr False, send_op', s') \<Rightarrow> (Inr False, stub\<lparr>tcp_stream := s', tcp_send_op := Some send_op'\<rparr>))"

definition tcp_run_recv_operation :: "byteorder \<Rightarrow> tcp_pipe_stub \<Rightarrow> tcp_recv_operation \<Rightarrow> (io_error + message option) \<times> tcp_pipe_stub" where
  "tcp_run_recv_operation bo stub recv_op = (case tcp_recv_run bo recv_op (tcp_stream stub) of
     (Inl e, _, s') \<Rightarrow> (Inl e, stub\<lparr>tcp_stream := s'\<rparr>)
   | (Inr (Some msg), _, s') \<Rightarrow> (Inr (Some msg), stub\<lparr>tcp_stream := s'\<rparr>)
   | (Inr None, recv_op', s') \<Rightarrow> (Inr None, stub\<lparr>tcp_stream := s', tcp_recv_op := Some recv_op'\<rparr>))"

definition tcp_start_send :: "byteorder \<Rightarrow> tcp_pipe_stub \<Rightarrow> message \<Rightarrow> (io_error + bool) \<times> tcp_pipe_stub" where
  "tcp_start_send bo stub msg = tcp_run_send_operation bo stub (tcp_send_new msg)"

definition tcp_resume_send :: "byteorder \<Rightarrow> tcp_pipe_stub \<Rightarrow> (io_error + bool) \<times> tcp_pipe_stub" where
  "tcp_resume_send bo stub = (case tcp_send_op stub of
     Some send_op \<Rightarrow> tcp_run_send_operation bo (stub\<lparr>tcp_send_op := None\<rparr>) send_op
   | None \<Rightarrow> (Inl (other_io_error ''Cannot resume send: no pending operation''), stub))"

definition tcp_has_pending_send :: "tcp_pipe_stub \<Rightarrow> bool" where
  "tcp_has_pending_send stub \<longleftrightarrow> tcp_send_op stub \<noteq> None"

definition tcp_start_recv :: "byteorder \<Rightarrow> tcp_pipe_stub \<Rightarrow> (io_error + message option) \<times> tcp_pipe_stub" where
  "tcp_start_recv bo stub = tcp_run_recv_operation bo stub (tcp_recv_new (tcp_recv_max_size stub))"

definition tcp_resume_recv :: "byteorder \<Rightarrow> tcp_pipe_stub \<Rightarrow> (io_error + message option) \<times> tcp_pipe_stub" where
  "tcp_resume_recv bo stub = (case tcp_recv_op stub of
     Some recv_op \<Rightarrow> tcp_run_recv_operation bo (stub\<lparr>tcp_recv_op := None\<rparr>) recv_op
   | None \<Rightarrow> (Inl (other_io_error ''Cannot resume recv: no pending operation''), stub))"

definition tcp_has_pending_recv :: "tcp_pipe_stub \<Rightarrow> bool" where
  "tcp_has_pending_recv stub \<longleftrightarrow> tcp_recv_op stub \<noteq> None"

definition tcp_send_handshake :: "byteorder \<Rightarrow> tcp_pipe_stub \<Rightarrow> u16 \<times> u16 \<Rightarrow> (io_error + unit) \<times> tcp_pipe_stub" where
  "tcp_send_handshake bo stub proto_ids =
     (let (r, s') = send_and_check_handshake bo (tcp_stream stub) proto_ids in (r, stub\<lparr>tcp_stream := s'\<rparr>))"

definition tcp_recv_handshake :: "byteorder \<Rightarrow> tcp_pipe_stub \<Rightarrow> u16 \<times> u16 \<Rightarrow> (io_error + unit) \<times> tcp_pipe_stub" where
  "tcp_recv_handshake bo stub proto_ids =
     (let (r, s') = recv_and_check_handshake bo (tcp_stream stub) proto_ids in (r, stub\<lparr>tcp_stream := s'\<rparr>))"


declare tcp_send_resume_at.simps [simp del] tcp_recv_resume_at.simps [simp del]

section \<open>The frame\<close>

text \<open>
  What goes on the wire: the length of the message, its header and its body. Every step
  of the send operation writes what is left of the frame, and its next step says how
  many bytes of the frame were written.
\<close>

definition tcp_frame :: "byteorder \<Rightarrow> message \<Rightarrow> u8 list" where
  "tcp_frame bo msg = write_u64 bo (of_nat (message_len msg)) @ header msg @ body msg"

definition tcp_position :: "message \<Rightarrow> nat \<Rightarrow> bool \<times> tcp_send_step" where
  "tcp_position msg k =
     (if k < 8 then (False, TcpTransportHdr msg k)
      else if k < 8 + length (header msg) then (False, TcpProtocolHdr msg (k - 8))
      else if k < 8 + length (header msg) + length (body msg) then (False, TcpUsrPayload msg (k - 8 - length (header msg)))
      else (True, TcpSendTerminal))"

fun tcp_step_at :: "tcp_send_step \<Rightarrow> message \<Rightarrow> nat \<Rightarrow> bool" where
  "tcp_step_at (TcpTransportHdr m w) msg k \<longleftrightarrow> m = msg \<and> k = w \<and> w < 8"
| "tcp_step_at (TcpProtocolHdr m w) msg k \<longleftrightarrow> m = msg \<and> k = 8 + w \<and> w < length (header msg)"
| "tcp_step_at (TcpUsrPayload m w) msg k \<longleftrightarrow> m = msg \<and> k = 8 + length (header msg) + w \<and> w < length (body msg)"
| "tcp_step_at TcpSendTerminal msg k \<longleftrightarrow> False"

definition tcp_at :: "tcp_send_operation \<Rightarrow> message \<Rightarrow> nat \<Rightarrow> bool" where
  "tcp_at op msg k \<longleftrightarrow> (\<exists>step. tcp_send_at op = Some step \<and> tcp_step_at step msg k)"

fun tcp_recv_step_at :: "byteorder \<Rightarrow> tcp_recv_step \<Rightarrow> u64 \<Rightarrow> u8 list \<Rightarrow> bool" where
  "tcp_recv_step_at bo (TcpHeader buffer rd max_size) limit bs \<longleftrightarrow> max_size = limit \<and> rd < 8 \<and> in_header 8 buffer rd bs"
| "tcp_recv_step_at bo (TcpPayload buffer rd) limit bs \<longleftrightarrow> rd < length buffer \<and> in_payload 8 bo limit buffer rd bs"
| "tcp_recv_step_at bo (TcpRecvTerminal _) limit bs \<longleftrightarrow> False"

definition tcp_receiving :: "byteorder \<Rightarrow> tcp_recv_operation \<Rightarrow> u64 \<Rightarrow> u8 list \<Rightarrow> bool" where
  "tcp_receiving bo op limit bs \<longleftrightarrow> (\<exists>step. tcp_recv_at op = Some step \<and> tcp_recv_step_at bo step limit bs)"

context network_order
begin

lemma length_u64 [simp]: "length (write_u64 bo x) = 8"
  by (simp add: big_endian_simps [OF big_endian])

lemma length_tcp_frame [simp]: "length (tcp_frame bo msg) = 8 + length (header msg) + length (body msg)"
  by (simp add: tcp_frame_def)

lemma tcp_write_parts:
  "(if length h = 0 then (if length b = 0 then tcp_write_buffer s t else tcp_write_buffers s [t, b])
    else (if length b = 0 then tcp_write_buffers s [t, h] else tcp_write_buffers s [t, h, b])) = tcp_write_buffer s (t @ h @ b)"
  "tcp_write_buffers s [t, h] = tcp_write_buffer s (t @ h)"
  "(if w = 0 then tcp_write_buffer s (x @ y) else tcp_write_buffer s (drop w x @ y)) = tcp_write_buffer s (drop w x @ y)"
  "(if w = 0 then tcp_write_buffer s x else tcp_write_buffer s (drop w x)) = tcp_write_buffer s (drop w x)"
  "(if w = 0 then x else drop w x) = drop w x"
  by (simp_all add: tcp_write_buffer_def tcp_write_buffers_def stream_write_bufs_def)

lemma tcp_advance_eq:
  assumes "tcp_step_at step msg k"
  shows "tcp_send_advance bo step s = (case tcp_write_buffer s (drop k (tcp_frame bo msg)) of
      (Inl e, s') \<Rightarrow> (Inl e, s') | (Inr n, s') \<Rightarrow> (Inr (tcp_position msg (k + n)), s'))"
proof (cases step)
  case (TcpTransportHdr m w)
  then have at: "m = msg" "w = k" "k < 8" using assms by auto
  have "drop k (tcp_frame bo msg) = drop k (write_u64 bo (of_nat (message_len msg))) @ header msg @ body msg"
    using \<open>k < 8\<close> by (simp add: tcp_frame_def)
  then show ?thesis
    unfolding TcpTransportHdr at tcp_send_advance.simps tcp_write_transport_hdr_def Let_def get_header_def get_body_def tcp_write_parts(1,5)
    by (simp add: tcp_position_def split: prod.split sum.split)
next
  case (TcpProtocolHdr m w)
  then have at: "m = msg" "k = 8 + w" "w < length (header msg)" using assms by auto
  have "drop k (tcp_frame bo msg) = drop w (header msg) @ body msg" using at by (simp add: tcp_frame_def)
  then show ?thesis
    unfolding TcpProtocolHdr at tcp_send_advance.simps tcp_write_protocol_hdr_def Let_def get_header_def get_body_def tcp_write_parts
    by (simp add: tcp_position_def split: prod.split sum.split)
next
  case (TcpUsrPayload m w)
  then have at: "m = msg" "k = 8 + length (header msg) + w" "w < length (body msg)" using assms by auto
  have "drop k (tcp_frame bo msg) = drop w (body msg)" using at by (simp add: tcp_frame_def)
  then show ?thesis
    unfolding TcpUsrPayload at tcp_send_advance.simps tcp_write_usr_payload_def Let_def get_body_def tcp_write_parts
    by (simp add: tcp_position_def split: prod.split sum.split)
qed (use assms in auto)

lemma tcp_position_at: "tcp_position msg k = (passed, step) \<Longrightarrow>
  if k < length (tcp_frame bo msg) then \<not> passed \<and> tcp_step_at step msg k else passed \<and> step = TcpSendTerminal"
  by (auto simp: tcp_position_def split: if_splits)

lemma tcp_run_eq:
  assumes "tcp_at op msg k"
  shows "tcp_send_run bo op s = (case tcp_write_buffer s (drop k (tcp_frame bo msg)) of
      (Inl e, s') \<Rightarrow> (Inl e, \<lparr>tcp_send_at = None\<rparr>, s')
    | (Inr n, s') \<Rightarrow> if k + n < length (tcp_frame bo msg)
        then (Inr False, \<lparr>tcp_send_at = Some (snd (tcp_position msg (k + n)))\<rparr>, s')
        else (Inr True, \<lparr>tcp_send_at = None\<rparr>, s'))"
proof -
  from assms obtain step where step: "tcp_send_at op = Some step" "tcp_step_at step msg k" by (auto simp: tcp_at_def)
  have terminal: "tcp_send_is_terminal (snd (tcp_position msg j)) \<longleftrightarrow> \<not> j < length (tcp_frame bo msg)"
    "fst (tcp_position msg j) \<longleftrightarrow> \<not> j < length (tcp_frame bo msg)" for j
    by (auto simp: tcp_position_def)
  have "tcp_send_run bo op s = tcp_send_resume_at bo \<lparr>tcp_send_at = None\<rparr> s step"
    using step(1) by (cases op) (simp add: tcp_send_run_def)
  then show ?thesis
    by (subst (asm) tcp_send_resume_at.simps)
      (simp add: tcp_advance_eq [OF step(2)] terminal case_prod_beta split: prod.split sum.split)
qed

end

sublocale network_order \<subseteq> tcp_tx: send_operation tcp_send_new "tcp_send_run bo" "tcp_frame bo" tcp_at
proof unfold_locales
  fix op op' msg k s s' and r :: "io_error + bool"
  show "tcp_at (tcp_send_new msg) msg 0" by (simp add: tcp_at_def tcp_send_new_def)
  show "tcp_at op msg k \<Longrightarrow> k < length (tcp_frame bo msg)" by (auto simp: tcp_at_def elim!: tcp_step_at.elims)
  assume at: "tcp_at op msg k" and run: "tcp_send_run bo op s = (r, op', s')"
  obtain w s1 where wr: "stream_write s (drop k (tcp_frame bo msg)) = (w, s1)" by (cases "stream_write s (drop k (tcp_frame bo msg))")
  have buf: "tcp_write_buffer s (drop k (tcp_frame bo msg)) = (flatten_would_block w, s1)" by (simp add: tcp_write_buffer_def wr)
  have "k < length (tcp_frame bo msg)" using at by (auto simp: tcp_at_def elim!: tcp_step_at.elims)
  note eff = stream_write_effect [OF wr]
  have next_at: "tcp_at \<lparr>tcp_send_at = Some (snd (tcp_position msg j))\<rparr> msg j" if "j < length (tcp_frame bo msg)" for j
    using that tcp_position_at [of msg j] by (cases "tcp_position msg j") (simp add: tcp_at_def)
  show "st_in s' = st_in s \<and>
      (\<exists>n. k + n \<le> length (tcp_frame bo msg) \<and> st_out s' = st_out s @ take n (drop k (tcp_frame bo msg)) \<and>
        (r = Inr True \<longrightarrow> k + n = length (tcp_frame bo msg)) \<and> (r = Inr False \<longrightarrow> tcp_at op' msg (k + n)))"
  proof (cases w)
    case (Inl e)
    then show ?thesis using run eff \<open>k < _\<close> next_at [of k]
      by (auto simp: tcp_run_eq [OF at] buf flatten_would_block_def split: if_splits intro!: exI [of _ 0])
  next
    case (Inr n)
    have "n \<le> length (tcp_frame bo msg) - k" "st_out s1 = st_out s @ take n (drop k (tcp_frame bo msg))"
      using eff(2) [OF Inr] by auto
    then show ?thesis using run eff(1) \<open>k < _\<close> next_at [of "k + n"] Inr
      by (auto simp: tcp_run_eq [OF at] buf flatten_would_block_def simp del: length_tcp_frame split: if_splits intro!: exI [of _ n])
  qed
  assume "lively (st_script s)"
  then show "\<exists>c. st_script s' = drop c (st_script s) \<and> c \<le> length (st_script s) \<and> (st_script s \<noteq> [] \<longrightarrow> c > 0) \<and>
        length (st_out s) + c \<le> length (st_out s') \<and> (\<forall>e. r \<noteq> Inl e)"
  proof (cases "st_script s")
    case Nil
    then show ?thesis using run \<open>k < _\<close>
      by (auto simp: tcp_run_eq [OF at] tcp_write_buffer_def stream_write_def blocked_def would_block_io_error_def flatten_would_block_def)
  next
    case (Cons x xs)
    then obtain n where "x = Progress (Suc n)" using \<open>lively (st_script s)\<close> by (auto simp: lively_def)
    then show ?thesis using run \<open>k < _\<close> Cons
      by (auto simp: tcp_run_eq [OF at] tcp_write_buffer_def stream_write_def flatten_would_block_def simp del: length_tcp_frame split: if_splits intro!: exI [of _ 1])
  qed
qed


section \<open>Receiving a frame\<close>

lemma tcp_payload_run:
  assumes "in_payload 8 bo limit buf rd bs" and "tcp_recv_resume_at bo op s (TcpPayload buf rd) = (r, op', s')"
  shows "recv_outcome 8 bo (tcp_receiving bo) limit bs s r op' s'"
proof (cases "read_buffer s buf rd")
  case (Pair q s1)
  show ?thesis
  proof (cases q)
    case (Inl e)
    then show ?thesis using assms(2) Pair
      by (auto simp: tcp_recv_resume_at.simps tcp_read_payload_def intro: recv_outcome_fails)
  next
    case (Inr x)
    obtain buf' n where x: "x = (buf', n)" by (cases x)
    from in_payload_read [OF assms(1) Pair [unfolded Inr x]] obtain cs where
      cs: "st_in s = cs @ st_in s1" "st_out s1 = st_out s" "in_payload 8 bo limit buf' (rd + n) (bs @ cs)" by blast
    have "rd + n \<le> length buf'" using cs(3) by (simp add: in_payload_def filled_def)
    then show ?thesis
      using assms(2) Pair Inr x cs in_payload_full [of 8 bo limit buf' "bs @ cs"]
      by (auto simp: tcp_recv_resume_at.simps tcp_read_payload_def Let_def recv_outcome_def tcp_receiving_def split: if_splits)
  qed
qed

lemma tcp_header_run:
  assumes "in_header 8 buf rd bs" and "rd < 8" and "tcp_recv_resume_at bo op s (TcpHeader buf rd limit) = (r, op', s')"
  shows "recv_outcome 8 bo (tcp_receiving bo) limit bs s r op' s'"
proof (cases "read_buffer s buf rd")
  case (Pair q s1)
  show ?thesis
  proof (cases q)
    case (Inl e)
    then show ?thesis using assms(3) Pair
      by (auto simp: tcp_recv_resume_at.simps tcp_read_header_def intro: recv_outcome_fails)
  next
    case (Inr x)
    obtain buf' n where x: "x = (buf', n)" by (cases x)
    from in_header_read [OF assms(1) Pair [unfolded Inr x]] obtain cs where
      cs: "st_in s = cs @ st_in s1" "st_out s1 = st_out s" "in_header 8 buf' (rd + n) (bs @ cs)" by blast
    have "rd + n \<le> 8" using cs(3) by (simp add: in_header_def filled_def)
    then consider (part) "rd + n < 8" | (long) "rd + n = 8" "limit > 0" "read_u64 bo buf' > limit"
      | (full) "rd + n = 8" "\<not> (limit > 0 \<and> read_u64 bo buf' > limit)" by linarith
    then show ?thesis
    proof cases
      case part
      then show ?thesis using assms(3) Pair Inr x cs
        by (auto simp: tcp_recv_resume_at.simps tcp_read_header_def Let_def recv_outcome_def tcp_receiving_def)
    next
      case long
      then have "\<not> within 8 bo limit (bs @ cs)" using in_header_full(2,3) [of 8 buf' "bs @ cs"] cs(3) by (auto simp: within_def)
      then show ?thesis using long assms(3) Pair Inr x cs in_header_full(2,3) [of 8 buf' "bs @ cs"]
        by (auto simp: tcp_recv_resume_at.simps tcp_read_header_def Let_def recv_outcome_def)
    next
      case full
      have "in_payload 8 bo limit (replicate (unat (read_u64 bo buf')) 0) 0 (bs @ cs)"
        using in_header_full(1) [of 8 buf' "bs @ cs" limit bo] cs(3) full by simp
      moreover have "tcp_recv_resume_at bo op s1 (TcpPayload (replicate (unat (read_u64 bo buf')) 0) 0) = (r, op', s')"
        using assms(3) Pair Inr x full by (subst (asm) tcp_recv_resume_at.simps) (simp add: tcp_read_header_def Let_def)
      ultimately have "recv_outcome 8 bo (tcp_receiving bo) limit (bs @ cs) s1 r op' s'" by (rule tcp_payload_run)
      then show ?thesis by (rule recv_outcome_step [OF _ cs(1,2) read_buffer_script(1) [OF Pair]])
    qed
  qed
qed

lemma tcp_receiving_cases:
  assumes "tcp_receiving bo op limit bs"
  obtains (hdr) buf rd where "tcp_recv_run bo op s = tcp_recv_resume_at bo \<lparr>tcp_recv_at = None\<rparr> s (TcpHeader buf rd limit)"
      "rd < 8" "in_header 8 buf rd bs"
    | (payload) buf rd where "tcp_recv_run bo op s = tcp_recv_resume_at bo \<lparr>tcp_recv_at = None\<rparr> s (TcpPayload buf rd)"
      "rd < length buf" "in_payload 8 bo limit buf rd bs"
  using assms by (cases op) (auto simp: tcp_receiving_def tcp_recv_run_def elim!: tcp_recv_step_at.elims)

lemma tcp_payload_progress:
  assumes "tcp_recv_resume_at bo op s (TcpPayload buf rd) = (Inr None, op', s')"
    and "lively (st_script s)" and "rd < length buf" and "st_in s \<noteq> []"
  shows "recv_progress s s'"
proof (cases "read_buffer s buf rd")
  case (Pair q s1)
  show ?thesis
    using read_buffer_progress(1) [of s buf rd _ _ s1] Pair assms
    by (cases q) (auto simp: tcp_recv_resume_at.simps tcp_read_payload_def Let_def split: if_splits)
qed


lemma tcp_header_progress:
  assumes "in_header 8 buf rd bs" and "rd < 8" and "tcp_recv_resume_at bo op s (TcpHeader buf rd limit) = (Inr None, op', s')"
    and "lively (st_script s)" and "framed 8 bo fr m" and "bs @ st_in s = fr @ rest"
  shows "recv_progress s s'"
proof (cases "read_buffer s buf rd")
  case (Pair q s1)
  have "length buf = 8" using assms(1) by (simp add: in_header_def)
  have "st_in s \<noteq> []" by (rule remaining_nonempty [OF in_header_less [OF assms(1,2,5)] assms(6)])
  obtain buf' n where q: "q = Inr (buf', n)"
    using assms(3) Pair by (cases q) (auto simp: tcp_recv_resume_at.simps tcp_read_header_def)
  have p: "recv_progress s s1" "lively (st_script s1)"
    using read_buffer_progress [OF Pair [unfolded q] assms(4)] \<open>st_in s \<noteq> []\<close> \<open>length buf = 8\<close> assms(2) by auto
  from in_header_read [OF assms(1) Pair [unfolded q]] obtain cs where
    cs: "st_in s = cs @ st_in s1" "in_header 8 buf' (rd + n) (bs @ cs)" by blast
  show ?thesis
  proof (cases "rd + n = 8")
    case False
    then have "s' = s1" using assms(3) Pair q by (auto simp: tcp_recv_resume_at.simps tcp_read_header_def Let_def)
    then show ?thesis using p(1) by simp
  next
    case True
    have rest: "(bs @ cs) @ st_in s1 = fr @ rest" using cs(1) assms(6) by simp
    have ok: "\<not> (limit > 0 \<and> read_u64 bo buf' > limit)"
      using assms(3) Pair q True by (subst (asm) tcp_recv_resume_at.simps) (auto simp: tcp_read_header_def Let_def)
    then have pay: "tcp_recv_resume_at bo op s1 (TcpPayload (replicate (unat (read_u64 bo buf')) 0) 0) = (Inr None, op', s')"
      using assms(3) Pair q True
      by (subst (asm) tcp_recv_resume_at.simps) (simp add: tcp_read_header_def Let_def split: if_splits)
    have in_pay: "in_payload 8 bo limit (replicate (unat (read_u64 bo buf')) 0) 0 (bs @ cs)"
      using in_header_full(1) [of 8 buf' "bs @ cs" limit bo] cs(2) True ok by simp
    show ?thesis
    proof (cases "unat (read_u64 bo buf') = 0")
      case True
      then show ?thesis using pay
        by (auto simp: tcp_recv_resume_at.simps tcp_read_payload_def read_buffer_def stream_read_def Let_def
            split: prod.splits sum.splits list.splits io_step.splits if_splits)
    next
      case False
      then have "st_in s1 \<noteq> []"
        using remaining_nonempty [OF in_payload_less [OF in_pay _ assms(5) rest] rest] by simp
      then have "recv_progress s1 s'" using tcp_payload_progress [OF pay p(2)] False by simp
      then show ?thesis by (rule recv_progress_trans [OF p(1)])
    qed
  qed
qed

interpretation tcp_rx: recv_operation 8 bo tcp_recv_new "tcp_recv_run bo" "tcp_receiving bo" for bo
proof unfold_locales
  fix op op' limit bs s s' fr m xs rest and r :: "io_error + message option"
  show "(8 :: nat) \<le> 8" by simp
  show "tcp_receiving bo (tcp_recv_new limit) limit []"
    by (simp add: tcp_receiving_def tcp_recv_new_def in_header_def filled_def)
  assume at: "tcp_receiving bo op limit bs"
  show "st_out s' = st_out s \<and>
      (\<exists>cs. st_in s = cs @ st_in s' \<and> (r = Inr None \<longrightarrow> tcp_receiving bo op' limit (bs @ cs)) \<and>
        (\<forall>m. r = Inr (Some m) \<longrightarrow> framed 8 bo (bs @ cs) m \<and> within 8 bo limit (bs @ cs)) \<and>
        (\<forall>e. r = Inl e \<longrightarrow> Fail e \<in> set (st_script s) \<or>
           8 \<le> length (bs @ cs) \<and> \<not> within 8 bo limit (bs @ cs)))"
    if "tcp_recv_run bo op s = (r, op', s')"
    using at that unfolding recv_outcome_def [symmetric]
    by (elim tcp_receiving_cases [of bo op limit bs s]) (auto intro: tcp_header_run tcp_payload_run)
  show "length bs < length fr" if "framed 8 bo fr m" "bs @ xs = fr @ rest"
    using at that by (elim tcp_receiving_cases [of bo op limit bs s]) (auto intro: in_header_less in_payload_less)
  show "\<exists>c. st_script s' = drop c (st_script s) \<and> c \<le> length (st_script s) \<and> (st_script s \<noteq> [] \<longrightarrow> c > 0) \<and>
      length (st_in s') + c \<le> length (st_in s)"
    if run: "tcp_recv_run bo op s = (Inr None, op', s')" and l: "lively (st_script s)"
      and fr: "framed 8 bo fr m" "bs @ st_in s = fr @ rest"
  proof -
    have "recv_progress s s'"
      using at
    proof (cases rule: tcp_receiving_cases [of bo op limit bs s, case_names hdr payload])
      case (hdr buf rd)
      then show ?thesis by (intro tcp_header_progress [OF hdr(3,2) trans [OF hdr(1) [symmetric] run] l fr])
    next
      case (payload buf rd)
      have "st_in s \<noteq> []" by (rule remaining_nonempty [OF in_payload_less [OF payload(3,2) fr] fr(2)])
      then show ?thesis by (rule tcp_payload_progress [OF trans [OF payload(1) [symmetric] run] l payload(2)])
    qed
    then show ?thesis by (simp add: recv_progress_def)
  qed
qed


section \<open>Properties\<close>

context network_order
begin

lemma tcp_frame_framed:
  assumes "message_len msg < 2 ^ 64"
  shows "framed 8 bo (tcp_frame bo msg) (from_body (header msg @ body msg))"
    and "within 8 bo limit (tcp_frame bo msg) \<longleftrightarrow> limit = 0 \<or> message_len msg \<le> unat limit"
  using framed_append [OF big_endian, of "[]" 8 "header msg @ body msg"] assms
  by (simp_all add: tcp_frame_def message_len_def)

lemma tcp_sends_frame:
  assumes "send_until (tcp_send_run bo) fuel (tcp_send_new msg) s = (r, op', s')"
  shows "st_in s' = st_in s \<and> (\<exists>n. st_out s' = st_out s @ take n (tcp_frame bo msg)) \<and>
    (r = Inr True \<longrightarrow> st_out s' = st_out s @ tcp_frame bo msg)"
  using tcp_tx.until_prefix [OF tcp_tx.new_law assms] by (auto simp: send_outcome_def)

lemma tcp_completes:
  assumes "lively (st_script s)" and "8 + message_len msg \<le> length (st_script s)"
  shows "\<exists>op' s'. send_until (tcp_send_run bo) (length (st_script s)) (tcp_send_new msg) s = (Inr True, op', s') \<and>
    st_out s' = st_out s @ tcp_frame bo msg"
proof -
  obtain op' s' where "send_until (tcp_send_run bo) (length (st_script s)) (tcp_send_new msg) s = (Inr True, op', s')"
    using tcp_tx.until_done [OF tcp_tx.new_law assms(1), of msg "length (st_script s)"] assms(2) by (auto simp: message_len_def)
  then show ?thesis using tcp_sends_frame by blast
qed

lemma tcp_receives:
  assumes "message_len msg < 2 ^ 64" and "st_in s = tcp_frame bo msg @ rest" and "lively (st_script s)"
    and "8 + message_len msg \<le> length (st_script s)" and "limit = 0 \<or> message_len msg \<le> unat limit"
  shows "\<exists>op' s'. recv_until (tcp_recv_run bo) (length (st_script s)) (tcp_recv_new limit) s =
    (Inr (Some (from_body (header msg @ body msg))), op', s') \<and> st_in s' = rest"
  using tcp_rx.until_delivers [OF tcp_rx.new_law assms(3) tcp_frame_framed(1) [OF assms(1)], where limit = limit and rest = rest]
    tcp_frame_framed(2) [OF assms(1)] assms(2,4,5) by (simp add: message_len_def)

end

text \<open>
  Whatever pace and errors the stream shows, and however often the send operation is
  resumed, the bytes it has put on the TCP stream are a prefix of the message's frame (its
  length in eight bytes, its header, its body), in order and without repetition; when the
  operation reports completion, they are the whole frame.
\<close>

theorem tcp_send_writes_the_frame:
  assumes "big_endian bo" and "send_until (tcp_send_run bo) fuel (tcp_send_new msg) s = (r, op', s')"
  shows "st_in s' = st_in s \<and> (\<exists>n. st_out s' = st_out s @ take n (tcp_frame bo msg)) \<and>
    (r = Inr True \<longrightarrow> st_out s' = st_out s @ tcp_frame bo msg)"
  by (rule network_order.tcp_sends_frame [OF network_order.intro [OF assms(1)] assms(2)])

text \<open>
  (C5) A message sent over TCP arrives: when both streams make progress on every call, the
  send operation completes, and the receive operation, resumed as data arrives, returns
  the header and body of the message as the body of one message, leaving what follows in
  the stream, provided the message is within the receiver's limit (zero for none).
\<close>

theorem tcp_message_arrives:
  assumes "big_endian bo" and "message_len msg < 2 ^ 64" and "limit = 0 \<or> message_len msg \<le> unat limit"
    and "lively (st_script tx)" and "8 + message_len msg \<le> length (st_script tx)" and "st_out tx = []"
    and "lively (st_script rx)" and "8 + message_len msg \<le> length (st_script rx)"
  shows "\<exists>op1 tx'. send_until (tcp_send_run bo) (length (st_script tx)) (tcp_send_new msg) tx = (Inr True, op1, tx') \<and>
    (st_in rx = st_out tx' @ rest \<longrightarrow>
      (\<exists>op2 rx'. recv_until (tcp_recv_run bo) (length (st_script rx)) (tcp_recv_new limit) rx =
         (Inr (Some (from_body (header msg @ body msg))), op2, rx') \<and> st_in rx' = rest))"
proof -
  note net = network_order.intro [OF assms(1)]
  show ?thesis
    using network_order.tcp_completes [OF net assms(4,5)] network_order.tcp_receives [OF net assms(2) _ assms(7,8,3)] assms(6)
    by fastforce
qed

definition demo_message :: message where
  "demo_message = \<lparr>header = [1, 2], body = [65, 66, 67]\<rparr>"

definition slow_stream :: "u8 list \<Rightarrow> stream" where
  "slow_stream bs = \<lparr>st_in = bs, st_out = [], st_script = replicate 20 (Progress (Suc 1))\<rparr>"

lemma slow_stream_lively [simp]: "lively (st_script (slow_stream bs))" "st_out (slow_stream bs) = []"
  "length (st_script (slow_stream bs)) = 20" "st_in (slow_stream bs) = bs"
  by (simp_all add: slow_stream_def lively_def)

theorem tcp_send_writes_the_frame_witness:
  "st_out (snd (snd (send_until (tcp_send_run be_instance) 20 (tcp_send_new demo_message) (slow_stream [])))) =
     [0, 0, 0, 0, 0, 0, 0, 5, 1, 2, 65, 66, 67]"
proof -
  obtain r op' s' where run: "send_until (tcp_send_run be_instance) 20 (tcp_send_new demo_message) (slow_stream []) = (r, op', s')"
    by (cases "send_until (tcp_send_run be_instance) 20 (tcp_send_new demo_message) (slow_stream [])") auto
  moreover have "r = Inr True"
    using run network_order.tcp_completes [OF network_order.intro [OF big_endian_instance], of "slow_stream []" demo_message]
    by (auto simp: demo_message_def message_len_def)
  ultimately show ?thesis
    using tcp_send_writes_the_frame [OF big_endian_instance run]
    by (simp add: tcp_frame_def demo_message_def message_len_def byte_eval)
qed

theorem tcp_message_arrives_witness:
  "\<exists>op2 rx'. recv_until (tcp_recv_run be_instance) 20 (tcp_recv_new 1024)
      (slow_stream (tcp_frame be_instance demo_message @ [9])) = (Inr (Some (from_body [1, 2, 65, 66, 67])), op2, rx') \<and> st_in rx' = [9]"
proof -
  let ?rx = "slow_stream (tcp_frame be_instance demo_message @ [9])"
  obtain op1 tx' where tx: "send_until (tcp_send_run be_instance) 20 (tcp_send_new demo_message) (slow_stream []) = (Inr True, op1, tx')"
    and rx: "st_in ?rx = st_out tx' @ [9] \<longrightarrow> (\<exists>op2 rx'. recv_until (tcp_recv_run be_instance) 20 (tcp_recv_new 1024) ?rx =
      (Inr (Some (from_body (header demo_message @ body demo_message))), op2, rx') \<and> st_in rx' = [9])"
    using tcp_message_arrives [OF big_endian_instance, of demo_message 1024 "slow_stream []" ?rx "[9]"]
    by (auto simp: demo_message_def message_len_def)
  have "st_out tx' = tcp_frame be_instance demo_message"
    using network_order.tcp_sends_frame [OF network_order.intro [OF big_endian_instance] tx] by simp
  then show ?thesis using rx by (simp add: demo_message_def)
qed

text \<open>
  (C32) The size limit holds on TCP: whatever arrives, a receiver with a limit never returns
  a longer message; and a message announced as longer ends the operation with the error
  \<open>message is too long\<close> as soon as its length has arrived.
\<close>

theorem tcp_recv_limit:
  assumes "big_endian bo" and "0 < limit" and "st_in s = tcp_frame bo msg @ rest" and "message_len msg < 2 ^ 64"
    and "st_script s = Progress n # later" and "8 \<le> n"
  shows "(\<forall>fuel s0 m op' s'. recv_until (tcp_recv_run bo) fuel (tcp_recv_new limit) s0 = (Inr (Some m), op', s') \<longrightarrow>
      length (body m) \<le> unat limit) \<and>
    (message_len msg > unat limit \<longrightarrow>
      fst (tcp_recv_run bo (tcp_recv_new limit) s) = Inl (invalid_data_io_error ''message is too long''))"
proof (intro conjI allI impI)
  show "length (body m) \<le> unat limit" if "recv_until (tcp_recv_run bo) fuel (tcp_recv_new limit) s0 = (Inr (Some m), op', s')"
    for fuel s0 m op' s'
    using tcp_rx.until_within [OF that] assms(2) by auto
next
  assume long: "message_len msg > unat limit"
  have w: "length (write_u64 bo (of_nat (message_len msg))) = 8"
    "read_u64 bo (write_u64 bo (of_nat (message_len msg))) = of_nat (message_len msg)"
    using big_endian_simps [OF assms(1)] by auto
  have "take 8 (st_in s) = write_u64 bo (of_nat (message_len msg))" using w(1) by (simp add: assms(3) tcp_frame_def)
  moreover have "limit < (of_nat (message_len msg) :: u64)" using long assms(4) by (simp add: word_less_nat_alt unat_of_nat)
  ultimately show "fst (tcp_recv_run bo (tcp_recv_new limit) s) = Inl (invalid_data_io_error ''message is too long'')"
    using assms(2,5,6) w
    by (simp add: tcp_recv_run_def tcp_recv_new_def tcp_recv_resume_at.simps tcp_read_header_def read_buffer_def
        stream_read_def min_absorb2 Let_def)
qed

theorem tcp_recv_limit_witness:
  "fst (tcp_recv_run be_instance (tcp_recv_new 4)
      \<lparr>st_in = tcp_frame be_instance demo_message, st_out = [], st_script = [Progress 8]\<rparr>) = Inl (invalid_data_io_error ''message is too long'')"
  using tcp_recv_limit [of be_instance 4
      "\<lparr>st_in = tcp_frame be_instance demo_message, st_out = [], st_script = [Progress 8]\<rparr>" demo_message "[]" 8 "[]"]
  by (simp add: demo_message_def message_len_def)

end
