(* ===== verification/Transport_Ipc.thy ===== *)
theory Transport_Ipc
  imports Transport_Frame
begin

text \<open>
  \<open>src/transport/ipc/\<close>: the send operation (\<open>send.rs\<close>), the receive operation (\<open>recv.rs\<close>) and the
  pipe stub over a Unix domain socket (\<open>unix/stub.rs\<close>). The operations write and read one
  buffer at a time, with the helpers of \<open>Transport_Stream\<close>; the header has nine bytes, the first
  of which is one when sent and not looked at when received. Both operations are
  interpretations of the locales of \<open>Transport_Frame\<close>.
\<close>

section \<open>SendOperation: ipc/send.rs\<close>

datatype ipc_send_step =
    IpcTransportHdr message nat
  | IpcProtocolHdr message nat
  | IpcUsrPayload message nat
  | IpcSendTerminal

record ipc_send_operation =
  ipc_send_at :: "ipc_send_step option"

definition ipc_send_new :: "message \<Rightarrow> ipc_send_operation" where
  "ipc_send_new msg = \<lparr>ipc_send_at = Some (IpcTransportHdr msg 0)\<rparr>"

definition ipc_write_transport_hdr ::
  "byteorder \<Rightarrow> stream \<Rightarrow> message \<Rightarrow> nat \<Rightarrow> (io_error + bool \<times> ipc_send_step) \<times> stream" where
  "ipc_write_transport_hdr bo s msg written =
     (let msg_len = of_nat (message_len msg);
          buffer = 1 # write_u64 bo msg_len
      in (case write_buffer s buffer written of
            (Inl e, s') \<Rightarrow> (Inl e, s')
          | (Inr (sent, written), s') \<Rightarrow>
              if sent then (Inr (True, IpcProtocolHdr msg 0), s')
              else (Inr (False, IpcTransportHdr msg written), s')))"

definition ipc_write_protocol_hdr ::
  "stream \<Rightarrow> message \<Rightarrow> nat \<Rightarrow> (io_error + bool \<times> ipc_send_step) \<times> stream" where
  "ipc_write_protocol_hdr s msg written =
     (if length (get_header msg) = 0 then (Inr (True, IpcUsrPayload msg 0), s)
      else (case write_buffer s (get_header msg) written of
            (Inl e, s') \<Rightarrow> (Inl e, s')
          | (Inr (sent, written), s') \<Rightarrow>
              if sent then (Inr (True, IpcUsrPayload msg 0), s')
              else (Inr (False, IpcProtocolHdr msg written), s')))"

definition ipc_write_usr_payload ::
  "stream \<Rightarrow> message \<Rightarrow> nat \<Rightarrow> (io_error + bool \<times> ipc_send_step) \<times> stream" where
  "ipc_write_usr_payload s msg written =
     (if length (get_body msg) = 0 then (Inr (True, IpcSendTerminal), s)
      else (case write_buffer s (get_body msg) written of
            (Inl e, s') \<Rightarrow> (Inl e, s')
          | (Inr (sent, written), s') \<Rightarrow>
              if sent then (Inr (True, IpcSendTerminal), s')
              else (Inr (False, IpcUsrPayload msg written), s')))"

fun ipc_send_advance :: "byteorder \<Rightarrow> ipc_send_step \<Rightarrow> stream \<Rightarrow> (io_error + bool \<times> ipc_send_step) \<times> stream" where
  "ipc_send_advance bo (IpcTransportHdr msg written) s = ipc_write_transport_hdr bo s msg written"
| "ipc_send_advance bo (IpcProtocolHdr msg written) s = ipc_write_protocol_hdr s msg written"
| "ipc_send_advance bo (IpcUsrPayload msg written) s = ipc_write_usr_payload s msg written"
| "ipc_send_advance bo IpcSendTerminal s = (Inl (other_io_error ''Cannot advance terminal step of send operation''), s)"

fun ipc_send_is_terminal :: "ipc_send_step \<Rightarrow> bool" where
  "ipc_send_is_terminal IpcSendTerminal = True"
| "ipc_send_is_terminal _ = False"

fun ipc_send_rank :: "ipc_send_step \<Rightarrow> nat" where
  "ipc_send_rank (IpcTransportHdr _ _) = 3"
| "ipc_send_rank (IpcProtocolHdr _ _) = 2"
| "ipc_send_rank (IpcUsrPayload _ _) = 1"
| "ipc_send_rank IpcSendTerminal = 0"

lemma ipc_send_passed_rank:
  assumes "ipc_send_advance bo step s = (Inr (True, next), s')"
  shows "ipc_send_rank next < ipc_send_rank step"
  using assms
  by (cases step) (auto simp: ipc_write_transport_hdr_def ipc_write_protocol_hdr_def ipc_write_usr_payload_def
      Let_def split: prod.splits sum.splits if_splits)

function ipc_send_resume_at :: "byteorder \<Rightarrow> ipc_send_operation \<Rightarrow> stream \<Rightarrow> ipc_send_step \<Rightarrow> (io_error + bool) \<times> ipc_send_operation \<times> stream" where
  "ipc_send_resume_at bo op s step = (case ipc_send_advance bo step s of
     (Inl e, s') \<Rightarrow> (Inl e, op, s')
   | (Inr (passed, next_step), s') \<Rightarrow>
       if ipc_send_is_terminal next_step then (Inr True, op, s')
       else if \<not> passed then (Inr False, op\<lparr>ipc_send_at := Some next_step\<rparr>, s')
       else ipc_send_resume_at bo op s' next_step)"
  by pat_completeness auto

termination
  by (relation "measure (\<lambda>(bo, op, s, step). ipc_send_rank step)") (auto dest: ipc_send_passed_rank [OF sym])

definition ipc_send_run :: "byteorder \<Rightarrow> ipc_send_operation \<Rightarrow> stream \<Rightarrow> (io_error + bool) \<times> ipc_send_operation \<times> stream" where
  "ipc_send_run bo op s = (case ipc_send_at op of
     Some step \<Rightarrow> ipc_send_resume_at bo (op\<lparr>ipc_send_at := None\<rparr>) s step
   | None \<Rightarrow> (Inl (other_io_error ''Cannot resume already finished send operation''), op, s))"

section \<open>RecvOperation: ipc/recv.rs\<close>

datatype ipc_recv_step =
    IpcHeader "u8 list" nat u64
  | IpcPayload "u8 list" nat
  | IpcRecvTerminal message

record ipc_recv_operation =
  ipc_recv_at :: "ipc_recv_step option"

definition ipc_recv_new :: "u64 \<Rightarrow> ipc_recv_operation" where
  "ipc_recv_new max_size = \<lparr>ipc_recv_at = Some (IpcHeader (replicate 9 0) 0 max_size)\<rparr>"

definition ipc_read_header ::
  "byteorder \<Rightarrow> stream \<Rightarrow> u8 list \<Rightarrow> nat \<Rightarrow> u64 \<Rightarrow> (io_error + bool \<times> ipc_recv_step) \<times> stream" where
  "ipc_read_header bo s buffer rd max_size = (case read_buffer s buffer rd of
     (Inl e, s') \<Rightarrow> (Inl e, s')
   | (Inr (buffer, n), s') \<Rightarrow>
       let rd = rd + n
       in (if rd = 9
           then (let msg_len = read_u64 bo (drop 1 buffer)
                 in (if max_size > 0 \<and> msg_len > max_size
                     then (Inl (invalid_data_io_error ''message is too long''), s')
                     else (Inr (True, IpcPayload (replicate (unat msg_len) 0) 0), s')))
           else (Inr (False, IpcHeader buffer rd max_size), s')))"

definition ipc_read_payload :: "stream \<Rightarrow> u8 list \<Rightarrow> nat \<Rightarrow> (io_error + bool \<times> ipc_recv_step) \<times> stream" where
  "ipc_read_payload s buffer rd = (case read_buffer s buffer rd of
     (Inl e, s') \<Rightarrow> (Inl e, s')
   | (Inr (buffer, n), s') \<Rightarrow>
       let rd = rd + n
       in (if rd = length buffer then (Inr (True, IpcRecvTerminal (from_body buffer)), s')
           else (Inr (False, IpcPayload buffer rd), s')))"

fun ipc_recv_advance :: "byteorder \<Rightarrow> ipc_recv_step \<Rightarrow> stream \<Rightarrow> (io_error + bool \<times> ipc_recv_step) \<times> stream" where
  "ipc_recv_advance bo (IpcHeader buffer rd max_size) s = ipc_read_header bo s buffer rd max_size"
| "ipc_recv_advance bo (IpcPayload buffer rd) s = ipc_read_payload s buffer rd"
| "ipc_recv_advance bo (IpcRecvTerminal _) s = (Inl (other_io_error ''Cannot advance terminal step of recv operation''), s)"

fun ipc_recv_rank :: "ipc_recv_step \<Rightarrow> nat" where
  "ipc_recv_rank (IpcHeader _ _ _) = 2"
| "ipc_recv_rank (IpcPayload _ _) = 1"
| "ipc_recv_rank (IpcRecvTerminal _) = 0"

lemma ipc_recv_passed_rank:
  assumes "ipc_recv_advance bo step s = (Inr (True, next), s')"
  shows "ipc_recv_rank next < ipc_recv_rank step"
  using assms
  by (cases step) (auto simp: ipc_read_header_def ipc_read_payload_def Let_def split: prod.splits sum.splits if_splits)

function ipc_recv_resume_at ::
  "byteorder \<Rightarrow> ipc_recv_operation \<Rightarrow> stream \<Rightarrow> ipc_recv_step \<Rightarrow> (io_error + message option) \<times> ipc_recv_operation \<times> stream" where
  "ipc_recv_resume_at bo op s step = (case ipc_recv_advance bo step s of
     (Inl e, s') \<Rightarrow> (Inl e, op, s')
   | (Inr (passed, next_step), s') \<Rightarrow>
       if \<not> passed then (Inr None, op\<lparr>ipc_recv_at := Some next_step\<rparr>, s')
       else (case next_step of
               IpcRecvTerminal msg \<Rightarrow> (Inr (Some msg), op, s')
             | other \<Rightarrow> ipc_recv_resume_at bo op s' other))"
  by pat_completeness auto

termination
  by (relation "measure (\<lambda>(bo, op, s, step). ipc_recv_rank step)") (auto dest: ipc_recv_passed_rank [OF sym])

definition ipc_recv_run ::
  "byteorder \<Rightarrow> ipc_recv_operation \<Rightarrow> stream \<Rightarrow> (io_error + message option) \<times> ipc_recv_operation \<times> stream" where
  "ipc_recv_run bo op s = (case ipc_recv_at op of
     Some step \<Rightarrow> ipc_recv_resume_at bo (op\<lparr>ipc_recv_at := None\<rparr>) s step
   | None \<Rightarrow> (Inl (other_io_error ''Cannot resume already finished recv operation''), op, s))"

section \<open>IpcPipeStub: ipc/unix/stub.rs\<close>

record ipc_pipe_stub =
  ipc_stream :: stream
  ipc_recv_max_size :: u64
  ipc_send_op :: "ipc_send_operation option"
  ipc_recv_op :: "ipc_recv_operation option"

definition ipc_stub_new :: "stream \<Rightarrow> u64 \<Rightarrow> ipc_pipe_stub" where
  "ipc_stub_new s max_size = \<lparr>ipc_stream = s, ipc_recv_max_size = max_size, ipc_send_op = None, ipc_recv_op = None\<rparr>"

definition ipc_run_send_operation :: "byteorder \<Rightarrow> ipc_pipe_stub \<Rightarrow> ipc_send_operation \<Rightarrow> (io_error + bool) \<times> ipc_pipe_stub" where
  "ipc_run_send_operation bo stub send_op = (case ipc_send_run bo send_op (ipc_stream stub) of
     (Inl e, _, s') \<Rightarrow> (Inl e, stub\<lparr>ipc_stream := s'\<rparr>)
   | (Inr True, _, s') \<Rightarrow> (Inr True, stub\<lparr>ipc_stream := s'\<rparr>)
   | (Inr False, send_op', s') \<Rightarrow> (Inr False, stub\<lparr>ipc_stream := s', ipc_send_op := Some send_op'\<rparr>))"

definition ipc_run_recv_operation :: "byteorder \<Rightarrow> ipc_pipe_stub \<Rightarrow> ipc_recv_operation \<Rightarrow> (io_error + message option) \<times> ipc_pipe_stub" where
  "ipc_run_recv_operation bo stub recv_op = (case ipc_recv_run bo recv_op (ipc_stream stub) of
     (Inl e, _, s') \<Rightarrow> (Inl e, stub\<lparr>ipc_stream := s'\<rparr>)
   | (Inr (Some msg), _, s') \<Rightarrow> (Inr (Some msg), stub\<lparr>ipc_stream := s'\<rparr>)
   | (Inr None, recv_op', s') \<Rightarrow> (Inr None, stub\<lparr>ipc_stream := s', ipc_recv_op := Some recv_op'\<rparr>))"

definition ipc_start_send :: "byteorder \<Rightarrow> ipc_pipe_stub \<Rightarrow> message \<Rightarrow> (io_error + bool) \<times> ipc_pipe_stub" where
  "ipc_start_send bo stub msg = ipc_run_send_operation bo stub (ipc_send_new msg)"

definition ipc_resume_send :: "byteorder \<Rightarrow> ipc_pipe_stub \<Rightarrow> (io_error + bool) \<times> ipc_pipe_stub" where
  "ipc_resume_send bo stub = (case ipc_send_op stub of
     Some send_op \<Rightarrow> ipc_run_send_operation bo (stub\<lparr>ipc_send_op := None\<rparr>) send_op
   | None \<Rightarrow> (Inl (other_io_error ''Cannot resume send: no pending operation''), stub))"

definition ipc_has_pending_send :: "ipc_pipe_stub \<Rightarrow> bool" where
  "ipc_has_pending_send stub \<longleftrightarrow> ipc_send_op stub \<noteq> None"

definition ipc_start_recv :: "byteorder \<Rightarrow> ipc_pipe_stub \<Rightarrow> (io_error + message option) \<times> ipc_pipe_stub" where
  "ipc_start_recv bo stub = ipc_run_recv_operation bo stub (ipc_recv_new (ipc_recv_max_size stub))"

definition ipc_resume_recv :: "byteorder \<Rightarrow> ipc_pipe_stub \<Rightarrow> (io_error + message option) \<times> ipc_pipe_stub" where
  "ipc_resume_recv bo stub = (case ipc_recv_op stub of
     Some recv_op \<Rightarrow> ipc_run_recv_operation bo (stub\<lparr>ipc_recv_op := None\<rparr>) recv_op
   | None \<Rightarrow> (Inl (other_io_error ''Cannot resume recv: no pending operation''), stub))"

definition ipc_has_pending_recv :: "ipc_pipe_stub \<Rightarrow> bool" where
  "ipc_has_pending_recv stub \<longleftrightarrow> ipc_recv_op stub \<noteq> None"

definition ipc_send_handshake :: "byteorder \<Rightarrow> ipc_pipe_stub \<Rightarrow> u16 \<times> u16 \<Rightarrow> (io_error + unit) \<times> ipc_pipe_stub" where
  "ipc_send_handshake bo stub proto_ids =
     (let (r, s') = send_and_check_handshake bo (ipc_stream stub) proto_ids in (r, stub\<lparr>ipc_stream := s'\<rparr>))"

definition ipc_recv_handshake :: "byteorder \<Rightarrow> ipc_pipe_stub \<Rightarrow> u16 \<times> u16 \<Rightarrow> (io_error + unit) \<times> ipc_pipe_stub" where
  "ipc_recv_handshake bo stub proto_ids =
     (let (r, s') = recv_and_check_handshake bo (ipc_stream stub) proto_ids in (r, stub\<lparr>ipc_stream := s'\<rparr>))"


declare ipc_send_resume_at.simps [simp del] ipc_recv_resume_at.simps [simp del]

section \<open>The frame\<close>

text \<open>
  What goes on the wire: one, the length of the message, its header and its body.
  \<open>ipc_entry\<close> says how much of the frame is written when a step is entered, \<open>ipc_at\<close> when the
  operation waits in it.
\<close>

definition ipc_frame :: "byteorder \<Rightarrow> message \<Rightarrow> u8 list" where
  "ipc_frame bo msg = (1 # write_u64 bo (of_nat (message_len msg))) @ header msg @ body msg"

fun ipc_step_at :: "ipc_send_step \<Rightarrow> message \<Rightarrow> nat \<Rightarrow> bool" where
  "ipc_step_at (IpcTransportHdr m w) msg k \<longleftrightarrow> m = msg \<and> k = w \<and> w < 9"
| "ipc_step_at (IpcProtocolHdr m w) msg k \<longleftrightarrow> m = msg \<and> k = 9 + w \<and> w < length (header msg)"
| "ipc_step_at (IpcUsrPayload m w) msg k \<longleftrightarrow> m = msg \<and> k = 9 + length (header msg) + w \<and> w < length (body msg)"
| "ipc_step_at IpcSendTerminal msg k \<longleftrightarrow> False"

definition ipc_entry :: "ipc_send_step \<Rightarrow> message \<Rightarrow> nat \<Rightarrow> bool" where
  "ipc_entry step msg k \<longleftrightarrow> ipc_step_at step msg k \<or> step = IpcProtocolHdr msg 0 \<and> k = 9 \<or>
     step = IpcUsrPayload msg 0 \<and> k = 9 + length (header msg)"

definition ipc_at :: "ipc_send_operation \<Rightarrow> message \<Rightarrow> nat \<Rightarrow> bool" where
  "ipc_at op msg k \<longleftrightarrow> (\<exists>step. ipc_send_at op = Some step \<and> ipc_step_at step msg k)"

definition ipc_moved :: "byteorder \<Rightarrow> message \<Rightarrow> nat \<Rightarrow> ipc_send_step \<Rightarrow> bool" where
  "ipc_moved bo msg k step \<longleftrightarrow> (if step = IpcSendTerminal then k = length (ipc_frame bo msg) else ipc_entry step msg k)"

text \<open>Writing one of the parts of the frame.\<close>

lemma write_part:
  assumes "fr = pre @ part @ post" and "w < length part" and "write_buffer s part w = (q, s1)"
  shows "st_in s1 = st_in s" "q = Inl e \<Longrightarrow> st_out s1 = st_out s"
    "q = Inr (sent, w') \<Longrightarrow> w \<le> w' \<and> length pre + w + (w' - w) \<le> length fr \<and> (if sent then w' = length part else w' < length part) \<and>
       st_out s1 = st_out s @ take (w' - w) (drop (length pre + w) fr)"
    "lively (st_script s) \<Longrightarrow> \<exists>sent w' c. q = Inr (sent, w') \<and> st_script s1 = drop c (st_script s) \<and> c \<le> length (st_script s) \<and>
       (st_script s \<noteq> [] \<longrightarrow> c > 0) \<and> length (st_out s) + c \<le> length (st_out s1)"
proof -
  have wl: "w \<le> length part" using assms(2) by simp
  note eff = write_buffer_effect [OF assms(3) wl]
  show "st_in s1 = st_in s" "q = Inl e \<Longrightarrow> st_out s1 = st_out s" using eff by blast+
  have sent: "sent \<longleftrightarrow> w' = length part" if "q = Inr (sent, w')"
    using assms(2,3) that by (auto simp: write_buffer_def split: prod.splits sum.splits if_splits)
  show "w \<le> w' \<and> length pre + w + (w' - w) \<le> length fr \<and> (if sent then w' = length part else w' < length part) \<and>
       st_out s1 = st_out s @ take (w' - w) (drop (length pre + w) fr)" if q: "q = Inr (sent, w')"
  proof -
    have e: "w \<le> w'" "w' \<le> length part" "st_out s1 = st_out s @ take (w' - w) (drop w part)" using eff(2) [OF q] by blast+
    have "drop (length pre + w) fr = drop w part @ post" using assms(1,2) by simp
    then show ?thesis using e sent [OF q] assms(1) by auto
  qed
  show "\<exists>sent w' c. q = Inr (sent, w') \<and> st_script s1 = drop c (st_script s) \<and> c \<le> length (st_script s) \<and>
       (st_script s \<noteq> [] \<longrightarrow> c > 0) \<and> length (st_out s) + c \<le> length (st_out s1)" if l: "lively (st_script s)"
  proof (cases "st_script s")
    case Nil
    then show ?thesis using assms(3)
      by (auto simp: write_buffer_def stream_write_def blocked_def would_block_io_error_def)
  next
    case (Cons x xs)
    then obtain n where "x = Progress (Suc n)" using l by (auto simp: lively_def)
    then show ?thesis using assms(2,3) Cons
      by (auto simp: write_buffer_def stream_write_def intro!: exI [of _ 1])
  qed
qed

context network_order
begin

lemma length_ipc_frame [simp]: "length (ipc_frame bo msg) = 9 + length (header msg) + length (body msg)"
  using big_endian_simps(3) [OF big_endian] by (simp add: ipc_frame_def)

lemma ipc_entry_le: "ipc_entry step msg k \<Longrightarrow> k \<le> length (ipc_frame bo msg)"
  by (cases step) (auto simp: ipc_entry_def)

lemma ipc_step_less: "ipc_step_at step msg k \<Longrightarrow> k < length (ipc_frame bo msg)"
  by (cases step) auto

text \<open>A step either has nothing to write or writes its part of the frame.\<close>

lemma ipc_entry_cases:
  assumes "ipc_entry step msg k"
  obtains (skip) nxt where "\<And>s. ipc_send_advance bo step s = (Inr (True, nxt), s)" "ipc_moved bo msg k nxt"
  | (part) pre part post w nxt wait where "ipc_frame bo msg = pre @ part @ post" "w < length part" "k = length pre + w"
      "\<And>s. ipc_send_advance bo step s = (case write_buffer s part w of
           (Inl e, s') \<Rightarrow> (Inl e, s')
         | (Inr (sent, w'), s') \<Rightarrow> if sent then (Inr (True, nxt), s') else (Inr (False, wait w'), s'))"
      "\<And>w'. w' < length part \<Longrightarrow> ipc_step_at (wait w') msg (length pre + w')" "ipc_moved bo msg (length pre + length part) nxt"
proof -
  let ?hdr = "1 # write_u64 bo (of_nat (message_len msg))"
  have len: "length ?hdr = 9" using big_endian_simps(3) [OF big_endian] by simp
  have fr: "ipc_frame bo msg = ?hdr @ header msg @ body msg" by (simp add: ipc_frame_def)
  from assms consider (a) "step = IpcTransportHdr msg k" "k < 9"
    | (b) w where "step = IpcProtocolHdr msg w" "k = 9 + w" "w < length (header msg)"
    | (c) "step = IpcProtocolHdr msg 0" "k = 9" "header msg = []"
    | (d) w where "step = IpcUsrPayload msg w" "k = 9 + length (header msg) + w" "w < length (body msg)"
    | (e) "step = IpcUsrPayload msg 0" "k = 9 + length (header msg)" "body msg = []"
    by (cases "header msg = []"; cases "body msg = []"; cases step) (auto simp: ipc_entry_def)
  then show thesis
  proof cases
    case a
    show thesis
      by (rule part [of "[]" ?hdr "header msg @ body msg" k "IpcProtocolHdr msg 0" "IpcTransportHdr msg"])
        (use a fr len in \<open>auto simp: ipc_write_transport_hdr_def ipc_moved_def ipc_entry_def Let_def split: prod.split\<close>)
  next
    case b
    show thesis
      by (rule part [of ?hdr "header msg" "body msg" w "IpcUsrPayload msg 0" "IpcProtocolHdr msg"])
        (use b fr len in \<open>auto simp: ipc_write_protocol_hdr_def get_header_def ipc_moved_def ipc_entry_def\<close>)
  next
    case c
    show thesis
      by (rule skip [of "IpcUsrPayload msg 0"])
        (use c in \<open>auto simp: ipc_write_protocol_hdr_def get_header_def ipc_moved_def ipc_entry_def\<close>)
  next
    case d
    show thesis
      by (rule part [of "?hdr @ header msg" "body msg" "[]" w IpcSendTerminal "IpcUsrPayload msg"])
        (use d fr len in \<open>auto simp: ipc_write_usr_payload_def get_body_def ipc_moved_def\<close>)
  next
    case e
    show thesis
      by (rule skip [of IpcSendTerminal]) (use e in \<open>auto simp: ipc_write_usr_payload_def get_body_def ipc_moved_def\<close>)
  qed
qed

lemma ipc_advance_law:
  assumes "ipc_entry step msg k" and "ipc_send_advance bo step s = (q, s1)"
  shows "st_in s1 = st_in s" "q = Inl e \<Longrightarrow> st_out s1 = st_out s"
    "q = Inr (passed, nxt) \<Longrightarrow> \<exists>n. k + n \<le> length (ipc_frame bo msg) \<and> st_out s1 = st_out s @ take n (drop k (ipc_frame bo msg)) \<and>
      (if passed then ipc_moved bo msg (k + n) nxt else ipc_step_at nxt msg (k + n))"
    "lively (st_script s) \<Longrightarrow> \<exists>passed nxt c. q = Inr (passed, nxt) \<and> st_script s1 = drop c (st_script s) \<and> c \<le> length (st_script s) \<and>
      length (st_out s) + c \<le> length (st_out s1) \<and> (st_script s \<noteq> [] \<and> k < length (ipc_frame bo msg) \<longrightarrow> c > 0 \<or> s1 = s \<and> passed)"
  using assms(1)
proof (induction rule: ipc_entry_cases)
  case (skip nxt')
  note le = ipc_entry_le [OF assms(1)]
  { case 1 then show ?case using assms(2) skip by simp
  next
    case 2 then show ?case using assms(2) skip by simp
  next
    case 3 then show ?case using assms(2) skip le by (auto intro!: exI [of _ 0])
  next
    case 4 then show ?case using assms(2) skip by (auto intro!: exI [of _ 0]) }
next
  case (part pre part post w nxt' wait)
  obtain q0 s0 where wr: "write_buffer s part w = (q0, s0)" by (cases "write_buffer s part w")
  note eff = write_part [OF part(1,2) wr]
  have s: "s1 = s0" "q0 = Inl e \<Longrightarrow> q = Inl e" "q0 = Inr (sent, w') \<Longrightarrow> q = Inr (if sent then (True, nxt') else (False, wait w'))"
    for e sent w' using assms(2) part(4) [of s] wr by (auto split: sum.splits if_splits)
  { case 1 then show ?case using eff(1) s(1) by simp
  next
    case 2 then show ?case using eff(2) [of e] s by (cases q0) (auto split: if_splits)
  next
    case 3
    then obtain sent w' where q0: "q0 = Inr (sent, w')" using s(2) by (cases q0) auto
    then have "(passed, nxt) = (if sent then (True, nxt') else (False, wait w'))" using 3 s(3) by auto
    then show ?case using eff(3) [OF q0] s(1) part(3,5,6) by (intro exI [of _ "w' - w"]) (auto split: if_splits)
  next
    case 4
    then obtain sent w' c where "q0 = Inr (sent, w')" "st_script s0 = drop c (st_script s)" "c \<le> length (st_script s)"
      "st_script s \<noteq> [] \<longrightarrow> c > 0" "length (st_out s) + c \<le> length (st_out s0)" using eff(4) by blast
    then show ?case using s(1,3) by (auto split: if_splits) }
qed

lemma ipc_resume_law:
  assumes "ipc_entry step msg k" and "ipc_send_resume_at bo op s step = (r, op', s')"
  shows "send_outcome (ipc_frame bo msg) ipc_at msg k s r op' s' \<and>
    (lively (st_script s) \<longrightarrow> send_progress (k < length (ipc_frame bo msg)) s r s')"
  using assms
proof (induction "ipc_send_rank step" arbitrary: step k s rule: less_induct)
  case less
  obtain q s1 where adv: "ipc_send_advance bo step s = (q, s1)" by (cases "ipc_send_advance bo step s")
  note law = ipc_advance_law [OF less.prems(1) adv]
  show ?case
  proof (cases q)
    case (Inl e)
    then have "r = Inl e" "s' = s1" using less.prems(2) adv by (auto simp: ipc_send_resume_at.simps)
    then show ?thesis using law(1) law(2) [OF Inl] law(4) Inl ipc_entry_le [OF less.prems(1)]
      by (auto simp: send_outcome_def intro!: exI [of _ 0])
  next
    case (Inr x)
    obtain passed nxt where x: "x = (passed, nxt)" by (cases x)
    from law(3) Inr x obtain n where n: "k + n \<le> length (ipc_frame bo msg)" "st_out s1 = st_out s @ take n (drop k (ipc_frame bo msg))"
      "if passed then ipc_moved bo msg (k + n) nxt else ipc_step_at nxt msg (k + n)" by blast
    have c: "\<exists>c. st_script s1 = drop c (st_script s) \<and> c \<le> length (st_script s) \<and>
      length (st_out s) + c \<le> length (st_out s1) \<and> (st_script s \<noteq> [] \<and> k < length (ipc_frame bo msg) \<longrightarrow> c > 0 \<or> s1 = s \<and> passed)"
      if "lively (st_script s)" using law(4) [OF that] Inr x by auto
    have same: "n = 0" if "s1 = s" "k < length (ipc_frame bo msg)" using n(2) that by simp
    consider (stop) "\<not> passed" | (final) "passed" "nxt = IpcSendTerminal" | (on) "passed" "nxt \<noteq> IpcSendTerminal" by blast
    then show ?thesis
    proof cases
      case stop
      then have at: "ipc_step_at nxt msg (k + n)" using n(3) by simp
      then have "\<not> ipc_send_is_terminal nxt" by (cases nxt) auto
      then have "r = Inr False" "s' = s1" "op' = op\<lparr>ipc_send_at := Some nxt\<rparr>"
        using less.prems(2) adv Inr x stop by (auto simp: ipc_send_resume_at.simps)
      then show ?thesis using n law(1) at stop c by (auto simp: send_outcome_def send_progress_def ipc_at_def)
    next
      case final
      then have fin: "r = Inr True" "s' = s1" using less.prems(2) adv Inr x by (auto simp: ipc_send_resume_at.simps)
      have full: "k + n = length (ipc_frame bo msg)" using n(3) final by (simp add: ipc_moved_def)
      have "send_outcome (ipc_frame bo msg) ipc_at msg k s r op' s'"
        unfolding send_outcome_def fin using n(2) law(1) full by (intro conjI exI [of _ n]) auto
      moreover have "send_progress (k < length (ipc_frame bo msg)) s r s'" if l: "lively (st_script s)"
      proof -
        have "\<not> (s1 = s \<and> k < length (ipc_frame bo msg))" using same full by fastforce
        then show ?thesis unfolding send_progress_def fin using c [OF l] by blast
      qed
      ultimately show ?thesis by blast
    next
      case on
      then have entry: "ipc_entry nxt msg (k + n)" using n(3) by (simp add: ipc_moved_def)
      have "ipc_send_resume_at bo op s1 nxt = (r, op', s')"
        using less.prems(2) adv Inr x on
        by (subst (asm) ipc_send_resume_at.simps) (cases nxt; simp)
      moreover have "ipc_send_rank nxt < ipc_send_rank step" using ipc_send_passed_rank [of bo step s nxt s1] adv Inr x on by simp
      ultimately have ih: "send_outcome (ipc_frame bo msg) ipc_at msg (k + n) s1 r op' s'"
        "lively (st_script s1) \<longrightarrow> send_progress (k + n < length (ipc_frame bo msg)) s1 r s'"
        using less.hyps entry by blast+
      have "send_progress (k < length (ipc_frame bo msg)) s r s'" if l: "lively (st_script s)"
      proof -
        from c [OF l] obtain d where d: "st_script s1 = drop d (st_script s)" "d \<le> length (st_script s)"
          "length (st_out s) + d \<le> length (st_out s1)"
          "st_script s \<noteq> [] \<and> k < length (ipc_frame bo msg) \<longrightarrow> d > 0 \<or> s1 = s \<and> passed" by blast
        have "lively (st_script s1)" using d(1) l by simp
        then have "send_progress (k + n < length (ipc_frame bo msg)) s1 r s'" using ih(2) by blast
        then show ?thesis by (rule send_progress_step [OF _ d(1-3)]) (use d(4) same in fastforce)
      qed
      then show ?thesis using send_outcome_step [OF ih(1) law(1) n(2)] by blast
    qed
  qed
qed

end

sublocale network_order \<subseteq> ipc_tx: send_operation ipc_send_new "ipc_send_run bo" "ipc_frame bo" ipc_at
proof unfold_locales
  fix op op' msg k s s' and r :: "io_error + bool"
  show "ipc_at (ipc_send_new msg) msg 0" by (simp add: ipc_at_def ipc_send_new_def)
  show "ipc_at op msg k \<Longrightarrow> k < length (ipc_frame bo msg)" using ipc_step_less by (auto simp: ipc_at_def)
  assume at: "ipc_at op msg k" and run: "ipc_send_run bo op s = (r, op', s')"
  then obtain step where step: "ipc_step_at step msg k" "ipc_send_resume_at bo (op\<lparr>ipc_send_at := None\<rparr>) s step = (r, op', s')"
    by (auto simp: ipc_at_def ipc_send_run_def)
  have entry: "ipc_entry step msg k" using step(1) by (simp add: ipc_entry_def)
  note law = ipc_resume_law [OF entry step(2)]
  show "st_in s' = st_in s \<and>
      (\<exists>n. k + n \<le> length (ipc_frame bo msg) \<and> st_out s' = st_out s @ take n (drop k (ipc_frame bo msg)) \<and>
        (r = Inr True \<longrightarrow> k + n = length (ipc_frame bo msg)) \<and> (r = Inr False \<longrightarrow> ipc_at op' msg (k + n)))"
    using law unfolding send_outcome_def by blast
  assume "lively (st_script s)"
  then show "\<exists>c. st_script s' = drop c (st_script s) \<and> c \<le> length (st_script s) \<and> (st_script s \<noteq> [] \<longrightarrow> c > 0) \<and>
        length (st_out s) + c \<le> length (st_out s') \<and> (\<forall>e. r \<noteq> Inl e)"
    using law ipc_step_less [OF step(1)] unfolding send_progress_def by blast
qed

fun ipc_recv_step_at :: "byteorder \<Rightarrow> ipc_recv_step \<Rightarrow> u64 \<Rightarrow> u8 list \<Rightarrow> bool" where
  "ipc_recv_step_at bo (IpcHeader buffer rd max_size) limit bs \<longleftrightarrow> max_size = limit \<and> rd < 9 \<and> in_header 9 buffer rd bs"
| "ipc_recv_step_at bo (IpcPayload buffer rd) limit bs \<longleftrightarrow> rd < length buffer \<and> in_payload 9 bo limit buffer rd bs"
| "ipc_recv_step_at bo (IpcRecvTerminal _) limit bs \<longleftrightarrow> False"

definition ipc_receiving :: "byteorder \<Rightarrow> ipc_recv_operation \<Rightarrow> u64 \<Rightarrow> u8 list \<Rightarrow> bool" where
  "ipc_receiving bo op limit bs \<longleftrightarrow> (\<exists>step. ipc_recv_at op = Some step \<and> ipc_recv_step_at bo step limit bs)"

section \<open>Receiving a frame\<close>

lemma ipc_payload_run:
  assumes "in_payload 9 bo limit buf rd bs" and "ipc_recv_resume_at bo op s (IpcPayload buf rd) = (r, op', s')"
  shows "recv_outcome 9 bo (ipc_receiving bo) limit bs s r op' s'"
proof (cases "read_buffer s buf rd")
  case (Pair q s1)
  show ?thesis
  proof (cases q)
    case (Inl e)
    then show ?thesis using assms(2) Pair
      by (auto simp: ipc_recv_resume_at.simps ipc_read_payload_def intro: recv_outcome_fails)
  next
    case (Inr x)
    obtain buf' n where x: "x = (buf', n)" by (cases x)
    from in_payload_read [OF assms(1) Pair [unfolded Inr x]] obtain cs where
      cs: "st_in s = cs @ st_in s1" "st_out s1 = st_out s" "in_payload 9 bo limit buf' (rd + n) (bs @ cs)" by blast
    have "rd + n \<le> length buf'" using cs(3) by (simp add: in_payload_def filled_def)
    then show ?thesis
      using assms(2) Pair Inr x cs in_payload_full [of 9 bo limit buf' "bs @ cs"]
      by (auto simp: ipc_recv_resume_at.simps ipc_read_payload_def Let_def recv_outcome_def ipc_receiving_def split: if_splits)
  qed
qed

lemma ipc_header_run:
  assumes "in_header 9 buf rd bs" and "rd < 9" and "ipc_recv_resume_at bo op s (IpcHeader buf rd limit) = (r, op', s')"
  shows "recv_outcome 9 bo (ipc_receiving bo) limit bs s r op' s'"
proof (cases "read_buffer s buf rd")
  case (Pair q s1)
  show ?thesis
  proof (cases q)
    case (Inl e)
    then show ?thesis using assms(3) Pair
      by (auto simp: ipc_recv_resume_at.simps ipc_read_header_def intro: recv_outcome_fails)
  next
    case (Inr x)
    obtain buf' n where x: "x = (buf', n)" by (cases x)
    from in_header_read [OF assms(1) Pair [unfolded Inr x]] obtain cs where
      cs: "st_in s = cs @ st_in s1" "st_out s1 = st_out s" "in_header 9 buf' (rd + n) (bs @ cs)" by blast
    have "rd + n \<le> 9" using cs(3) by (simp add: in_header_def filled_def)
    then consider (part) "rd + n < 9" | (long) "rd + n = 9" "limit > 0" "read_u64 bo (drop 1 buf') > limit"
      | (full) "rd + n = 9" "\<not> (limit > 0 \<and> read_u64 bo (drop 1 buf') > limit)" by linarith
    then show ?thesis
    proof cases
      case part
      then show ?thesis using assms(3) Pair Inr x cs
        by (auto simp: ipc_recv_resume_at.simps ipc_read_header_def Let_def recv_outcome_def ipc_receiving_def)
    next
      case long
      then have "\<not> within 9 bo limit (bs @ cs)" using in_header_full(2,3) [of 9 buf' "bs @ cs"] cs(3) by (auto simp: within_def)
      then show ?thesis using long assms(3) Pair Inr x cs in_header_full(2,3) [of 9 buf' "bs @ cs"]
        by (auto simp: ipc_recv_resume_at.simps ipc_read_header_def Let_def recv_outcome_def)
    next
      case full
      have "in_payload 9 bo limit (replicate (unat (read_u64 bo (drop 1 buf'))) 0) 0 (bs @ cs)"
        using in_header_full(1) [of 9 buf' "bs @ cs" limit bo] cs(3) full by simp
      moreover have "ipc_recv_resume_at bo op s1 (IpcPayload (replicate (unat (read_u64 bo (drop 1 buf'))) 0) 0) = (r, op', s')"
        using assms(3) Pair Inr x full
        by (subst (asm) ipc_recv_resume_at.simps) (auto simp: ipc_read_header_def Let_def split: if_splits)
      ultimately have "recv_outcome 9 bo (ipc_receiving bo) limit (bs @ cs) s1 r op' s'" by (rule ipc_payload_run)
      then show ?thesis by (rule recv_outcome_step [OF _ cs(1,2) read_buffer_script(1) [OF Pair]])
    qed
  qed
qed

lemma ipc_receiving_cases:
  assumes "ipc_receiving bo op limit bs"
  obtains (hdr) buf rd where "ipc_recv_run bo op s = ipc_recv_resume_at bo \<lparr>ipc_recv_at = None\<rparr> s (IpcHeader buf rd limit)"
      "rd < 9" "in_header 9 buf rd bs"
    | (payload) buf rd where "ipc_recv_run bo op s = ipc_recv_resume_at bo \<lparr>ipc_recv_at = None\<rparr> s (IpcPayload buf rd)"
      "rd < length buf" "in_payload 9 bo limit buf rd bs"
  using assms by (cases op) (auto simp: ipc_receiving_def ipc_recv_run_def elim!: ipc_recv_step_at.elims)

lemma ipc_payload_progress:
  assumes "ipc_recv_resume_at bo op s (IpcPayload buf rd) = (Inr None, op', s')"
    and "lively (st_script s)" and "rd < length buf" and "st_in s \<noteq> []"
  shows "recv_progress s s'"
proof (cases "read_buffer s buf rd")
  case (Pair q s1)
  show ?thesis
    using read_buffer_progress(1) [of s buf rd _ _ s1] Pair assms
    by (cases q) (auto simp: ipc_recv_resume_at.simps ipc_read_payload_def Let_def split: if_splits)
qed


lemma ipc_header_progress:
  assumes "in_header 9 buf rd bs" and "rd < 9" and "ipc_recv_resume_at bo op s (IpcHeader buf rd limit) = (Inr None, op', s')"
    and "lively (st_script s)" and "framed 9 bo fr m" and "bs @ st_in s = fr @ rest"
  shows "recv_progress s s'"
proof (cases "read_buffer s buf rd")
  case (Pair q s1)
  have "length buf = 9" using assms(1) by (simp add: in_header_def)
  have "st_in s \<noteq> []" by (rule remaining_nonempty [OF in_header_less [OF assms(1,2,5)] assms(6)])
  obtain buf' n where q: "q = Inr (buf', n)"
    using assms(3) Pair by (cases q) (auto simp: ipc_recv_resume_at.simps ipc_read_header_def)
  have p: "recv_progress s s1" "lively (st_script s1)"
    using read_buffer_progress [OF Pair [unfolded q] assms(4)] \<open>st_in s \<noteq> []\<close> \<open>length buf = 9\<close> assms(2) by auto
  from in_header_read [OF assms(1) Pair [unfolded q]] obtain cs where
    cs: "st_in s = cs @ st_in s1" "in_header 9 buf' (rd + n) (bs @ cs)" by blast
  show ?thesis
  proof (cases "rd + n = 9")
    case False
    then have "s' = s1" using assms(3) Pair q by (auto simp: ipc_recv_resume_at.simps ipc_read_header_def Let_def)
    then show ?thesis using p(1) by simp
  next
    case True
    have rest: "(bs @ cs) @ st_in s1 = fr @ rest" using cs(1) assms(6) by simp
    have ok: "\<not> (limit > 0 \<and> read_u64 bo (drop 1 buf') > limit)"
      using assms(3) Pair q True by (subst (asm) ipc_recv_resume_at.simps) (auto simp: ipc_read_header_def Let_def)
    then have pay: "ipc_recv_resume_at bo op s1 (IpcPayload (replicate (unat (read_u64 bo (drop 1 buf'))) 0) 0) = (Inr None, op', s')"
      using assms(3) Pair q True
      by (subst (asm) ipc_recv_resume_at.simps) (simp add: ipc_read_header_def Let_def split: if_splits)
    have in_pay: "in_payload 9 bo limit (replicate (unat (read_u64 bo (drop 1 buf'))) 0) 0 (bs @ cs)"
      using in_header_full(1) [of 9 buf' "bs @ cs" limit bo] cs(2) True ok by simp
    show ?thesis
    proof (cases "unat (read_u64 bo (drop 1 buf')) = 0")
      case True
      then show ?thesis using pay
        by (auto simp: ipc_recv_resume_at.simps ipc_read_payload_def read_buffer_def stream_read_def Let_def
            split: prod.splits sum.splits list.splits io_step.splits if_splits)
    next
      case False
      then have "st_in s1 \<noteq> []"
        using remaining_nonempty [OF in_payload_less [OF in_pay _ assms(5) rest] rest] by simp
      then have "recv_progress s1 s'" using ipc_payload_progress [OF pay p(2)] False by simp
      then show ?thesis by (rule recv_progress_trans [OF p(1)])
    qed
  qed
qed

interpretation ipc_rx: recv_operation 9 bo ipc_recv_new "ipc_recv_run bo" "ipc_receiving bo" for bo
proof unfold_locales
  fix op op' limit bs s s' fr m xs rest and r :: "io_error + message option"
  show "(8 :: nat) \<le> 9" by simp
  show "ipc_receiving bo (ipc_recv_new limit) limit []"
    by (simp add: ipc_receiving_def ipc_recv_new_def in_header_def filled_def)
  assume at: "ipc_receiving bo op limit bs"
  show "st_out s' = st_out s \<and>
      (\<exists>cs. st_in s = cs @ st_in s' \<and> (r = Inr None \<longrightarrow> ipc_receiving bo op' limit (bs @ cs)) \<and>
        (\<forall>m. r = Inr (Some m) \<longrightarrow> framed 9 bo (bs @ cs) m \<and> within 9 bo limit (bs @ cs)) \<and>
        (\<forall>e. r = Inl e \<longrightarrow> Fail e \<in> set (st_script s) \<or>
           9 \<le> length (bs @ cs) \<and> \<not> within 9 bo limit (bs @ cs)))"
    if "ipc_recv_run bo op s = (r, op', s')"
    using at that unfolding recv_outcome_def [symmetric]
    by (elim ipc_receiving_cases [of bo op limit bs s]) (auto intro: ipc_header_run ipc_payload_run)
  show "length bs < length fr" if "framed 9 bo fr m" "bs @ xs = fr @ rest"
    using at that by (elim ipc_receiving_cases [of bo op limit bs s]) (auto intro: in_header_less in_payload_less)
  show "\<exists>c. st_script s' = drop c (st_script s) \<and> c \<le> length (st_script s) \<and> (st_script s \<noteq> [] \<longrightarrow> c > 0) \<and>
      length (st_in s') + c \<le> length (st_in s)"
    if run: "ipc_recv_run bo op s = (Inr None, op', s')" and l: "lively (st_script s)"
      and fr: "framed 9 bo fr m" "bs @ st_in s = fr @ rest"
  proof -
    have "recv_progress s s'"
      using at
    proof (cases rule: ipc_receiving_cases [of bo op limit bs s, case_names hdr payload])
      case (hdr buf rd)
      then show ?thesis by (intro ipc_header_progress [OF hdr(3,2) trans [OF hdr(1) [symmetric] run] l fr])
    next
      case (payload buf rd)
      have "st_in s \<noteq> []" by (rule remaining_nonempty [OF in_payload_less [OF payload(3,2) fr] fr(2)])
      then show ?thesis by (rule ipc_payload_progress [OF trans [OF payload(1) [symmetric] run] l payload(2)])
    qed
    then show ?thesis by (simp add: recv_progress_def)
  qed
qed


section \<open>Properties\<close>

context network_order
begin

lemma ipc_frame_framed:
  assumes "message_len msg < 2 ^ 64"
  shows "framed 9 bo (ipc_frame bo msg) (from_body (header msg @ body msg))"
    and "within 9 bo limit (ipc_frame bo msg) \<longleftrightarrow> limit = 0 \<or> message_len msg \<le> unat limit"
  using framed_append [OF big_endian, of "[1]" 9 "header msg @ body msg"] assms
  by (simp_all add: ipc_frame_def message_len_def)

lemma ipc_sends_frame:
  assumes "send_until (ipc_send_run bo) fuel (ipc_send_new msg) s = (r, op', s')"
  shows "st_in s' = st_in s \<and> (\<exists>n. st_out s' = st_out s @ take n (ipc_frame bo msg)) \<and>
    (r = Inr True \<longrightarrow> st_out s' = st_out s @ ipc_frame bo msg)"
  using ipc_tx.until_prefix [OF ipc_tx.new_law assms] by (auto simp: send_outcome_def)

lemma ipc_completes:
  assumes "lively (st_script s)" and "9 + message_len msg \<le> length (st_script s)"
  shows "\<exists>op' s'. send_until (ipc_send_run bo) (length (st_script s)) (ipc_send_new msg) s = (Inr True, op', s') \<and>
    st_out s' = st_out s @ ipc_frame bo msg"
proof -
  obtain op' s' where "send_until (ipc_send_run bo) (length (st_script s)) (ipc_send_new msg) s = (Inr True, op', s')"
    using ipc_tx.until_done [OF ipc_tx.new_law assms(1), of msg "length (st_script s)"] assms(2) by (auto simp: message_len_def)
  then show ?thesis using ipc_sends_frame by blast
qed

lemma ipc_receives:
  assumes "message_len msg < 2 ^ 64" and "st_in s = ipc_frame bo msg @ rest" and "lively (st_script s)"
    and "9 + message_len msg \<le> length (st_script s)" and "limit = 0 \<or> message_len msg \<le> unat limit"
  shows "\<exists>op' s'. recv_until (ipc_recv_run bo) (length (st_script s)) (ipc_recv_new limit) s =
    (Inr (Some (from_body (header msg @ body msg))), op', s') \<and> st_in s' = rest"
  using ipc_rx.until_delivers [OF ipc_rx.new_law assms(3) ipc_frame_framed(1) [OF assms(1)], where limit = limit and rest = rest]
    ipc_frame_framed(2) [OF assms(1)] assms(2,4,5) by (simp add: message_len_def)

end

text \<open>
  A message sent over IPC arrives: when both streams make progress on every call, the
  send operation completes, and the receive operation, resumed as data arrives, returns
  the header and body of the message as the body of one message, leaving what follows in
  the stream, provided the message is within the receiver's limit (zero for none).
\<close>

theorem ipc_message_arrives:
  assumes "big_endian bo" and "message_len msg < 2 ^ 64" and "limit = 0 \<or> message_len msg \<le> unat limit"
    and "lively (st_script tx)" and "9 + message_len msg \<le> length (st_script tx)" and "st_out tx = []"
    and "lively (st_script rx)" and "9 + message_len msg \<le> length (st_script rx)"
  shows "\<exists>op1 tx'. send_until (ipc_send_run bo) (length (st_script tx)) (ipc_send_new msg) tx = (Inr True, op1, tx') \<and>
    (st_in rx = st_out tx' @ rest \<longrightarrow>
      (\<exists>op2 rx'. recv_until (ipc_recv_run bo) (length (st_script rx)) (ipc_recv_new limit) rx =
         (Inr (Some (from_body (header msg @ body msg))), op2, rx') \<and> st_in rx' = rest))"
proof -
  note net = network_order.intro [OF assms(1)]
  show ?thesis
    using network_order.ipc_completes [OF net assms(4,5)] network_order.ipc_receives [OF net assms(2) _ assms(7,8,3)] assms(6)
    by fastforce
qed


definition ipc_demo_message :: message where
  "ipc_demo_message = \<lparr>header = [], body = [65, 66, 67]\<rparr>"

definition ipc_slow_stream :: "u8 list \<Rightarrow> stream" where
  "ipc_slow_stream bs = \<lparr>st_in = bs, st_out = [], st_script = replicate 20 (Progress (Suc 1))\<rparr>"

lemma ipc_slow_stream_simps [simp]: "lively (st_script (ipc_slow_stream bs))" "st_out (ipc_slow_stream bs) = []"
  "length (st_script (ipc_slow_stream bs)) = 20" "st_in (ipc_slow_stream bs) = bs"
  by (simp_all add: ipc_slow_stream_def lively_def)

theorem ipc_message_arrives_witness:
  "\<exists>op2 rx'. recv_until (ipc_recv_run be_instance) 20 (ipc_recv_new 1024)
      (ipc_slow_stream [1, 0, 0, 0, 0, 0, 0, 0, 3, 65, 66, 67, 9]) = (Inr (Some (from_body [65, 66, 67])), op2, rx') \<and> st_in rx' = [9]"
proof -
  let ?rx = "ipc_slow_stream [1, 0, 0, 0, 0, 0, 0, 0, 3, 65, 66, 67, 9]"
  obtain op1 tx' where tx: "send_until (ipc_send_run be_instance) 20 (ipc_send_new ipc_demo_message) (ipc_slow_stream []) = (Inr True, op1, tx')"
    and rx: "st_in ?rx = st_out tx' @ [9] \<longrightarrow> (\<exists>op2 rx'. recv_until (ipc_recv_run be_instance) 20 (ipc_recv_new 1024) ?rx =
      (Inr (Some (from_body (header ipc_demo_message @ body ipc_demo_message))), op2, rx') \<and> st_in rx' = [9])"
    using ipc_message_arrives [OF big_endian_instance, of ipc_demo_message 1024 "ipc_slow_stream []" ?rx "[9]"]
    by (auto simp: ipc_demo_message_def message_len_def)
  have "st_out tx' = ipc_frame be_instance ipc_demo_message"
    using network_order.ipc_sends_frame [OF network_order.intro [OF big_endian_instance] tx] by simp
  then show ?thesis using rx by (simp add: ipc_demo_message_def ipc_frame_def message_len_def byte_eval)
qed

end
