(* ===== verification/Transport_Pipe.thy ===== *)
theory Transport_Pipe
  imports Transport_Tcp Transport_Ipc
begin

text \<open>
  The asynchronous pipe of \<open>src/transport/async/\<close>: a state machine over a stub (\<open>initial.rs\<close>,
  \<open>handshake.rs\<close>, \<open>active/unix.rs\<close>, \<open>dead.rs\<close>, \<open>state.rs\<close>, \<open>mod.rs\<close>) and the commands and events of
  \<open>src/transport/pipe.rs\<close>. The stub is a record of the operations of the trait \<open>AsyncPipeStub\<close>;
  what the pipe relies on is the locale \<open>pipe_stub\<close>, interpreted on the TCP and the IPC stub. The
  context is the log of the calls it receives. A \<open>mio::Ready\<close> is the set of its flags; lines
  written to the log of the program are left out.
\<close>

section \<open>Commands, events and the context\<close>

datatype readiness = Readable | Writable | Hup | ErrorFlag

type_synonym ready_set = "readiness set"

datatype pipe_event =
    PipeOpened
  | PipeClosed
  | PipeCanSend bool
  | PipeCanRecv bool
  | PipeSent
  | PipeReceived message
  | PipeError io_error

datatype poll_opt = LevelTriggered | EdgeTriggered

datatype pipe_effect =
    PipeRegister ready_set poll_opt
  | PipeReregister ready_set poll_opt
  | PipeDeregister
  | PipeRaise pipe_event

type_synonym pipe_ctx = "pipe_effect list"

definition pipe_raise :: "pipe_event \<Rightarrow> pipe_ctx \<Rightarrow> pipe_ctx" where
  "pipe_raise evt ctx = ctx @ [PipeRaise evt]"

definition pipe_register :: "ready_set \<Rightarrow> poll_opt \<Rightarrow> pipe_ctx \<Rightarrow> pipe_ctx" where
  "pipe_register interest opt ctx = ctx @ [PipeRegister interest opt]"

definition pipe_reregister :: "ready_set \<Rightarrow> poll_opt \<Rightarrow> pipe_ctx \<Rightarrow> pipe_ctx" where
  "pipe_reregister interest opt ctx = ctx @ [PipeReregister interest opt]"

definition pipe_deregister :: "pipe_ctx \<Rightarrow> pipe_ctx" where
  "pipe_deregister ctx = ctx @ [PipeDeregister]"

lemmas pipe_ctx_defs = pipe_raise_def pipe_register_def pipe_reregister_def pipe_deregister_def

section \<open>The stub\<close>

record 's stub_ops =
  stub_start_send :: "'s \<Rightarrow> message \<Rightarrow> (io_error + bool) \<times> 's"
  stub_resume_send :: "'s \<Rightarrow> (io_error + bool) \<times> 's"
  stub_has_pending_send :: "'s \<Rightarrow> bool"
  stub_start_recv :: "'s \<Rightarrow> (io_error + message option) \<times> 's"
  stub_resume_recv :: "'s \<Rightarrow> (io_error + message option) \<times> 's"
  stub_has_pending_recv :: "'s \<Rightarrow> bool"
  stub_send_handshake :: "'s \<Rightarrow> u16 \<times> u16 \<Rightarrow> (io_error + unit) \<times> 's"
  stub_recv_handshake :: "'s \<Rightarrow> u16 \<times> u16 \<Rightarrow> (io_error + unit) \<times> 's"

definition tcp_ops :: "byteorder \<Rightarrow> tcp_pipe_stub stub_ops" where
  "tcp_ops bo = \<lparr>stub_start_send = tcp_start_send bo, stub_resume_send = tcp_resume_send bo,
     stub_has_pending_send = tcp_has_pending_send, stub_start_recv = tcp_start_recv bo,
     stub_resume_recv = tcp_resume_recv bo, stub_has_pending_recv = tcp_has_pending_recv,
     stub_send_handshake = tcp_send_handshake bo, stub_recv_handshake = tcp_recv_handshake bo\<rparr>"

definition ipc_ops :: "byteorder \<Rightarrow> ipc_pipe_stub stub_ops" where
  "ipc_ops bo = \<lparr>stub_start_send = ipc_start_send bo, stub_resume_send = ipc_resume_send bo,
     stub_has_pending_send = ipc_has_pending_send, stub_start_recv = ipc_start_recv bo,
     stub_resume_recv = ipc_resume_recv bo, stub_has_pending_recv = ipc_has_pending_recv,
     stub_send_handshake = ipc_send_handshake bo, stub_recv_handshake = ipc_recv_handshake bo\<rparr>"

section \<open>States\<close>

record 's active =
  act_stub :: 's
  can_send_msg :: bool
  can_recv_msg :: bool

datatype 's pipe_state =
    Initial 's "u16 \<times> u16"
  | HandshakeTx 's "u16 \<times> u16"
  | HandshakeRx 's "u16 \<times> u16"
  | Active "'s active"
  | Dead

definition active_new :: "'s \<Rightarrow> 's active" where
  "active_new s = \<lparr>act_stub = s, can_send_msg = False, can_recv_msg = False\<rparr>"

text \<open>\<open>interest()\<close> of \<open>active/unix.rs\<close>.\<close>

definition active_interest :: ready_set where
  "active_interest = {Readable, Writable, Hup, ErrorFlag}"

text \<open>\<open>enter\<close> of every state; the default of the trait, as of \<open>leave\<close>, does nothing.\<close>

definition default_enter :: "pipe_ctx \<Rightarrow> pipe_ctx" where
  "default_enter ctx = ctx"

definition handshake_tx_enter :: "pipe_ctx \<Rightarrow> pipe_ctx" where
  "handshake_tx_enter ctx = pipe_register {Writable} LevelTriggered ctx"

definition handshake_rx_enter :: "pipe_ctx \<Rightarrow> pipe_ctx" where
  "handshake_rx_enter ctx = pipe_reregister {Readable} LevelTriggered ctx"

definition active_enter :: "pipe_ctx \<Rightarrow> pipe_ctx" where
  "active_enter ctx = pipe_raise PipeOpened (pipe_reregister active_interest LevelTriggered ctx)"

definition dead_enter :: "pipe_ctx \<Rightarrow> pipe_ctx" where
  "dead_enter ctx = pipe_raise PipeClosed ctx"

fun state_enter :: "'s pipe_state \<Rightarrow> pipe_ctx \<Rightarrow> pipe_ctx" where
  "state_enter (Initial _ _) ctx = default_enter ctx"
| "state_enter (HandshakeTx _ _) ctx = handshake_tx_enter ctx"
| "state_enter (HandshakeRx _ _) ctx = handshake_rx_enter ctx"
| "state_enter (Active _) ctx = active_enter ctx"
| "state_enter Dead ctx = dead_enter ctx"

lemmas enter_defs = default_enter_def handshake_tx_enter_def handshake_rx_enter_def active_enter_def dead_enter_def

definition state_leave :: "'s pipe_state \<Rightarrow> pipe_ctx \<Rightarrow> pipe_ctx" where
  "state_leave s ctx = ctx"

text \<open>\<open>error\<close>, the same in every state, and the helpers that change state.\<close>

definition state_error :: "'s pipe_state \<Rightarrow> pipe_ctx \<Rightarrow> io_error \<Rightarrow> 's pipe_state \<times> pipe_ctx" where
  "state_error s ctx err = (Dead, pipe_raise (PipeError err) ctx)"

definition transition :: "('s pipe_state \<Rightarrow> 's pipe_state) \<Rightarrow> 's pipe_state \<Rightarrow> pipe_ctx \<Rightarrow> 's pipe_state \<times> pipe_ctx" where
  "transition into old_state ctx =
     (let ctx = state_leave old_state ctx;
          new_state = into old_state
      in (new_state, state_enter new_state ctx))"

definition transition_if_ok ::
  "('s pipe_state \<Rightarrow> 's pipe_state) \<Rightarrow> 's pipe_state \<Rightarrow> pipe_ctx \<Rightarrow> io_error + unit \<Rightarrow> 's pipe_state \<times> pipe_ctx" where
  "transition_if_ok into f ctx res = (case res of
     Inr _ \<Rightarrow> transition into f ctx
   | Inl e \<Rightarrow> state_error f ctx e)"

definition no_transition_if_ok :: "'s pipe_state \<Rightarrow> pipe_ctx \<Rightarrow> io_error + unit \<Rightarrow> 's pipe_state \<times> pipe_ctx" where
  "no_transition_if_ok f ctx res = (case res of
     Inr _ \<Rightarrow> (f, ctx)
   | Inl e \<Rightarrow> state_error f ctx e)"

text \<open>The conversions between states (\<open>impl Into\<close>); a state has no other one.\<close>

definition initial_into :: "'s \<Rightarrow> u16 \<times> u16 \<Rightarrow> 's pipe_state" where
  "initial_into s proto_ids = HandshakeTx s proto_ids"

definition handshake_tx_into :: "'s \<Rightarrow> u16 \<times> u16 \<Rightarrow> 's pipe_state" where
  "handshake_tx_into s proto_ids = HandshakeRx s proto_ids"

definition handshake_rx_into :: "'s \<Rightarrow> u16 \<times> u16 \<Rightarrow> 's pipe_state" where
  "handshake_rx_into s proto_ids = Active (active_new s)"

fun into_next :: "'s pipe_state \<Rightarrow> 's pipe_state" where
  "into_next (Initial s proto_ids) = initial_into s proto_ids"
| "into_next (HandshakeTx s proto_ids) = handshake_tx_into s proto_ids"
| "into_next (HandshakeRx s proto_ids) = handshake_rx_into s proto_ids"
| "into_next other = other"

lemmas into_defs = initial_into_def handshake_tx_into_def handshake_rx_into_def

section \<open>The active state: active/unix.rs\<close>

definition on_msg_sent :: "pipe_ctx \<Rightarrow> pipe_ctx" where
  "on_msg_sent ctx = pipe_raise PipeSent ctx"

definition on_send_progress :: "io_error + bool \<Rightarrow> pipe_ctx \<Rightarrow> (io_error + unit) \<times> pipe_ctx" where
  "on_send_progress progress ctx = (case progress of
     Inl e \<Rightarrow> (Inl e, ctx)
   | Inr sent \<Rightarrow> (Inr (), if sent then on_msg_sent ctx else ctx))"

definition change_can_send :: "'s active \<Rightarrow> bool \<Rightarrow> pipe_ctx \<Rightarrow> 's active \<times> pipe_ctx" where
  "change_can_send a can_send ctx =
     (if can_send_msg a \<noteq> can_send then (a\<lparr>can_send_msg := can_send\<rparr>, pipe_raise (PipeCanSend can_send) ctx)
      else (a, ctx))"

definition writable_changed ::
  "'s stub_ops \<Rightarrow> 's active \<Rightarrow> ready_set \<Rightarrow> pipe_ctx \<Rightarrow> (io_error + unit) \<times> 's active \<times> pipe_ctx" where
  "writable_changed ops a events ctx =
     (if Writable \<notin> events then (Inr (), change_can_send a False ctx)
      else if stub_has_pending_send ops (act_stub a)
      then (let (progress, stub) = stub_resume_send ops (act_stub a);
                (res, ctx) = on_send_progress progress ctx
            in (res, a\<lparr>act_stub := stub\<rparr>, ctx))
      else if Hup \<notin> events then (Inr (), change_can_send a True ctx)
      else (Inr (), a, ctx))"

definition on_msg_received :: "message \<Rightarrow> pipe_ctx \<Rightarrow> pipe_ctx" where
  "on_msg_received msg ctx = pipe_raise (PipeReceived msg) ctx"

definition on_recv_progress :: "io_error + message option \<Rightarrow> pipe_ctx \<Rightarrow> (io_error + unit) \<times> pipe_ctx" where
  "on_recv_progress progress ctx = (case progress of
     Inl e \<Rightarrow> (Inl e, ctx)
   | Inr recv \<Rightarrow> (Inr (), case recv of Some msg \<Rightarrow> on_msg_received msg ctx | None \<Rightarrow> ctx))"

definition change_can_recv :: "'s active \<Rightarrow> bool \<Rightarrow> pipe_ctx \<Rightarrow> 's active \<times> pipe_ctx" where
  "change_can_recv a can_recv ctx =
     (if can_recv_msg a \<noteq> can_recv then (a\<lparr>can_recv_msg := can_recv\<rparr>, pipe_raise (PipeCanRecv can_recv) ctx)
      else (a, ctx))"

definition readable_changed ::
  "'s stub_ops \<Rightarrow> 's active \<Rightarrow> ready_set \<Rightarrow> pipe_ctx \<Rightarrow> (io_error + unit) \<times> 's active \<times> pipe_ctx" where
  "readable_changed ops a events ctx =
     (if Readable \<notin> events then (Inr (), change_can_recv a False ctx)
      else if stub_has_pending_recv ops (act_stub a)
      then (let (progress, stub) = stub_resume_recv ops (act_stub a);
                (res, ctx) = on_recv_progress progress ctx
            in (res, a\<lparr>act_stub := stub\<rparr>, ctx))
      else if Hup \<notin> events then (Inr (), change_can_recv a True ctx)
      else (Inr (), a, ctx))"

definition hang_up_changed :: "'s active \<Rightarrow> bool \<Rightarrow> (io_error + unit) \<times> 's active" where
  "hang_up_changed a hup =
     (if hup then (Inl (other_io_error ''hup''), a\<lparr>can_send_msg := False, can_recv_msg := False\<rparr>)
      else (Inr (), a))"

definition active_close :: "'s active \<Rightarrow> pipe_ctx \<Rightarrow> 's pipe_state \<times> pipe_ctx" where
  "active_close a ctx = (Dead, pipe_deregister ctx)"

definition active_send :: "'s stub_ops \<Rightarrow> 's active \<Rightarrow> pipe_ctx \<Rightarrow> message \<Rightarrow> 's pipe_state \<times> pipe_ctx" where
  "active_send ops a ctx msg =
     (let a = a\<lparr>can_send_msg := False\<rparr>;
          (progress, stub) = stub_start_send ops (act_stub a) msg;
          (res, ctx) = on_send_progress progress ctx
      in no_transition_if_ok (Active (a\<lparr>act_stub := stub\<rparr>)) ctx res)"

definition active_recv :: "'s stub_ops \<Rightarrow> 's active \<Rightarrow> pipe_ctx \<Rightarrow> 's pipe_state \<times> pipe_ctx" where
  "active_recv ops a ctx =
     (let a = a\<lparr>can_recv_msg := False\<rparr>;
          (progress, stub) = stub_start_recv ops (act_stub a);
          (res, ctx) = on_recv_progress progress ctx
      in no_transition_if_ok (Active (a\<lparr>act_stub := stub\<rparr>)) ctx res)"

definition active_ready :: "'s stub_ops \<Rightarrow> 's active \<Rightarrow> pipe_ctx \<Rightarrow> ready_set \<Rightarrow> 's pipe_state \<times> pipe_ctx" where
  "active_ready ops a ctx events =
     (case readable_changed ops a events ctx of
        (Inl e, a, ctx) \<Rightarrow> no_transition_if_ok (Active a) ctx (Inl e)
      | (Inr _, a, ctx) \<Rightarrow>
          (case writable_changed ops a events ctx of
             (Inl e, a, ctx) \<Rightarrow> no_transition_if_ok (Active a) ctx (Inl e)
           | (Inr _, a, ctx) \<Rightarrow>
               (case hang_up_changed a (Hup \<in> events) of
                  (res, a) \<Rightarrow> no_transition_if_ok (Active a) ctx res)))"

section \<open>The handshake states: handshake.rs\<close>

definition tx_send_handshake :: "'s stub_ops \<Rightarrow> 's \<Rightarrow> u16 \<times> u16 \<Rightarrow> (io_error + unit) \<times> 's" where
  "tx_send_handshake ops s proto_ids = stub_send_handshake ops s proto_ids"

definition handshake_tx_ready ::
  "'s stub_ops \<Rightarrow> 's \<Rightarrow> u16 \<times> u16 \<Rightarrow> pipe_ctx \<Rightarrow> ready_set \<Rightarrow> 's pipe_state \<times> pipe_ctx" where
  "handshake_tx_ready ops s proto_ids ctx events =
     (if Writable \<in> events
      then (let (res, s) = tx_send_handshake ops s proto_ids
            in transition_if_ok into_next (HandshakeTx s proto_ids) ctx res)
      else (HandshakeTx s proto_ids, ctx))"

definition handshake_tx_close :: "pipe_ctx \<Rightarrow> 's pipe_state \<times> pipe_ctx" where
  "handshake_tx_close ctx = (Dead, pipe_deregister ctx)"

definition rx_recv_handshake :: "'s stub_ops \<Rightarrow> 's \<Rightarrow> u16 \<times> u16 \<Rightarrow> (io_error + unit) \<times> 's" where
  "rx_recv_handshake ops s proto_ids = stub_recv_handshake ops s proto_ids"

definition handshake_rx_ready ::
  "'s stub_ops \<Rightarrow> 's \<Rightarrow> u16 \<times> u16 \<Rightarrow> pipe_ctx \<Rightarrow> ready_set \<Rightarrow> 's pipe_state \<times> pipe_ctx" where
  "handshake_rx_ready ops s proto_ids ctx events =
     (if Readable \<in> events
      then (let (res, s) = rx_recv_handshake ops s proto_ids
            in transition_if_ok into_next (HandshakeRx s proto_ids) ctx res)
      else (HandshakeRx s proto_ids, ctx))"

definition handshake_rx_close :: "pipe_ctx \<Rightarrow> 's pipe_state \<times> pipe_ctx" where
  "handshake_rx_close ctx = (Dead, pipe_deregister ctx)"

lemmas handshake_close_defs = handshake_tx_close_def handshake_rx_close_def

section \<open>The methods of a state: state.rs, initial.rs, dead.rs\<close>

text \<open>A method that a state does not define is the trait's, which ends in \<open>Dead\<close> without entering it.\<close>

definition default_open :: "pipe_ctx \<Rightarrow> 's pipe_state \<times> pipe_ctx" where
  "default_open ctx = (Dead, ctx)"

definition default_close :: "pipe_ctx \<Rightarrow> 's pipe_state \<times> pipe_ctx" where
  "default_close ctx = (Dead, ctx)"

definition default_send :: "pipe_ctx \<Rightarrow> message \<Rightarrow> 's pipe_state \<times> pipe_ctx" where
  "default_send ctx msg = (Dead, ctx)"

definition default_recv :: "pipe_ctx \<Rightarrow> 's pipe_state \<times> pipe_ctx" where
  "default_recv ctx = (Dead, ctx)"

definition default_ready :: "pipe_ctx \<Rightarrow> ready_set \<Rightarrow> 's pipe_state \<times> pipe_ctx" where
  "default_ready ctx events = (Dead, ctx)"

definition initial_open :: "'s \<Rightarrow> u16 \<times> u16 \<Rightarrow> pipe_ctx \<Rightarrow> 's pipe_state \<times> pipe_ctx" where
  "initial_open s proto_ids ctx = transition into_next (Initial s proto_ids) ctx"

definition dead_open :: "pipe_ctx \<Rightarrow> 's pipe_state \<times> pipe_ctx" where
  "dead_open ctx = (Dead, ctx)"

definition dead_close :: "pipe_ctx \<Rightarrow> 's pipe_state \<times> pipe_ctx" where
  "dead_close ctx = (Dead, ctx)"

definition dead_send :: "pipe_ctx \<Rightarrow> message \<Rightarrow> 's pipe_state \<times> pipe_ctx" where
  "dead_send ctx msg = (Dead, ctx)"

definition dead_recv :: "pipe_ctx \<Rightarrow> 's pipe_state \<times> pipe_ctx" where
  "dead_recv ctx = (Dead, ctx)"

definition dead_ready :: "pipe_ctx \<Rightarrow> ready_set \<Rightarrow> 's pipe_state \<times> pipe_ctx" where
  "dead_ready ctx events = (Dead, ctx)"

lemmas method_defs = default_open_def default_close_def default_send_def default_recv_def default_ready_def initial_open_def
  dead_open_def dead_close_def dead_send_def dead_recv_def dead_ready_def handshake_close_defs active_close_def

fun state_open :: "'s pipe_state \<Rightarrow> pipe_ctx \<Rightarrow> 's pipe_state \<times> pipe_ctx" where
  "state_open (Initial s proto_ids) ctx = initial_open s proto_ids ctx"
| "state_open Dead ctx = dead_open ctx"
| "state_open _ ctx = default_open ctx"

fun state_close :: "'s pipe_state \<Rightarrow> pipe_ctx \<Rightarrow> 's pipe_state \<times> pipe_ctx" where
  "state_close (Initial _ _) ctx = default_close ctx"
| "state_close (HandshakeTx _ _) ctx = handshake_tx_close ctx"
| "state_close (HandshakeRx _ _) ctx = handshake_rx_close ctx"
| "state_close (Active a) ctx = active_close a ctx"
| "state_close Dead ctx = dead_close ctx"

fun state_send :: "'s stub_ops \<Rightarrow> 's pipe_state \<Rightarrow> pipe_ctx \<Rightarrow> message \<Rightarrow> 's pipe_state \<times> pipe_ctx" where
  "state_send ops (Active a) ctx msg = active_send ops a ctx msg"
| "state_send ops Dead ctx msg = dead_send ctx msg"
| "state_send ops _ ctx msg = default_send ctx msg"

fun state_recv :: "'s stub_ops \<Rightarrow> 's pipe_state \<Rightarrow> pipe_ctx \<Rightarrow> 's pipe_state \<times> pipe_ctx" where
  "state_recv ops (Active a) ctx = active_recv ops a ctx"
| "state_recv ops Dead ctx = dead_recv ctx"
| "state_recv ops _ ctx = default_recv ctx"

fun state_ready :: "'s stub_ops \<Rightarrow> 's pipe_state \<Rightarrow> pipe_ctx \<Rightarrow> ready_set \<Rightarrow> 's pipe_state \<times> pipe_ctx" where
  "state_ready ops (Initial _ _) ctx events = default_ready ctx events"
| "state_ready ops (HandshakeTx s proto_ids) ctx events = handshake_tx_ready ops s proto_ids ctx events"
| "state_ready ops (HandshakeRx s proto_ids) ctx events = handshake_rx_ready ops s proto_ids ctx events"
| "state_ready ops (Active a) ctx events = active_ready ops a ctx events"
| "state_ready ops Dead ctx events = dead_ready ctx events"

section \<open>The pipe: mod.rs\<close>

record 's async_pipe =
  pipe_state_cell :: "'s pipe_state option"

definition async_pipe_new :: "'s \<Rightarrow> u16 \<times> u16 \<Rightarrow> 's async_pipe" where
  "async_pipe_new stub proto_ids = \<lparr>pipe_state_cell = Some (Initial stub proto_ids)\<rparr>"

definition async_pipe_apply ::
  "('s pipe_state \<Rightarrow> pipe_ctx \<Rightarrow> 's pipe_state \<times> pipe_ctx) \<Rightarrow> 's async_pipe \<Rightarrow> pipe_ctx \<Rightarrow> 's async_pipe \<times> pipe_ctx" where
  "async_pipe_apply f pipe ctx = (case pipe_state_cell pipe of
     Some old_state \<Rightarrow> (let (new_state, ctx) = f old_state ctx in (pipe\<lparr>pipe_state_cell := Some new_state\<rparr>, ctx))
   | None \<Rightarrow> (pipe, ctx))"

datatype pipe_command = PipeOpen | PipeClose | PipeSend message | PipeRecv

definition async_pipe_ready :: "'s stub_ops \<Rightarrow> 's async_pipe \<Rightarrow> pipe_ctx \<Rightarrow> ready_set \<Rightarrow> 's async_pipe \<times> pipe_ctx" where
  "async_pipe_ready ops pipe ctx events = async_pipe_apply (\<lambda>s ctx. state_ready ops s ctx events) pipe ctx"

definition async_pipe_open :: "'s async_pipe \<Rightarrow> pipe_ctx \<Rightarrow> 's async_pipe \<times> pipe_ctx" where
  "async_pipe_open pipe ctx = async_pipe_apply state_open pipe ctx"

definition async_pipe_close :: "'s async_pipe \<Rightarrow> pipe_ctx \<Rightarrow> 's async_pipe \<times> pipe_ctx" where
  "async_pipe_close pipe ctx = async_pipe_apply state_close pipe ctx"

definition async_pipe_send :: "'s stub_ops \<Rightarrow> 's async_pipe \<Rightarrow> pipe_ctx \<Rightarrow> message \<Rightarrow> 's async_pipe \<times> pipe_ctx" where
  "async_pipe_send ops pipe ctx msg = async_pipe_apply (\<lambda>s ctx. state_send ops s ctx msg) pipe ctx"

definition async_pipe_recv :: "'s stub_ops \<Rightarrow> 's async_pipe \<Rightarrow> pipe_ctx \<Rightarrow> 's async_pipe \<times> pipe_ctx" where
  "async_pipe_recv ops pipe ctx = async_pipe_apply (\<lambda>s ctx. state_recv ops s ctx) pipe ctx"

text \<open>A run of a pipe: the commands it is given and the notifications of the event loop, in order.\<close>

datatype pipe_input = Command pipe_command | Notify ready_set

lemma pipe_input_cases:
  obtains (1) "i = Command PipeOpen" | (2) "i = Command PipeClose" | (3) msg where "i = Command (PipeSend msg)"
    | (4) "i = Command PipeRecv" | (5) events where "i = Notify events"
  by (metis pipe_input.exhaust pipe_command.exhaust)

fun pipe_step :: "'s stub_ops \<Rightarrow> pipe_input \<Rightarrow> 's async_pipe \<times> pipe_ctx \<Rightarrow> 's async_pipe \<times> pipe_ctx" where
  "pipe_step ops (Command PipeOpen) (p, ctx) = async_pipe_open p ctx"
| "pipe_step ops (Command PipeClose) (p, ctx) = async_pipe_close p ctx"
| "pipe_step ops (Command (PipeSend msg)) (p, ctx) = async_pipe_send ops p ctx msg"
| "pipe_step ops (Command PipeRecv) (p, ctx) = async_pipe_recv ops p ctx"
| "pipe_step ops (Notify events) (p, ctx) = async_pipe_ready ops p ctx events"

definition pipe_run :: "'s stub_ops \<Rightarrow> pipe_input list \<Rightarrow> 's async_pipe \<times> pipe_ctx \<Rightarrow> 's async_pipe \<times> pipe_ctx" where
  "pipe_run ops inputs pc = fold (pipe_step ops) inputs pc"

definition raised :: "pipe_ctx \<Rightarrow> pipe_event list" where
  "raised ctx = concat (map (\<lambda>x. case x of PipeRaise e \<Rightarrow> [e] | _ \<Rightarrow> []) ctx)"

lemma raised_simps [simp]:
  "raised [] = []" "raised (pipe_raise e ctx) = raised ctx @ [e]" "raised (pipe_register i l ctx) = raised ctx"
  "raised (pipe_reregister i l ctx) = raised ctx" "raised (pipe_deregister ctx) = raised ctx"
  by (simp_all add: raised_def pipe_ctx_defs)

lemmas pipe_defs = async_pipe_open_def async_pipe_close_def async_pipe_send_def async_pipe_recv_def async_pipe_ready_def
  async_pipe_apply_def method_defs enter_defs into_defs tx_send_handshake_def rx_recv_handshake_def

section \<open>The order of events\<close>

fun data_event :: "pipe_event \<Rightarrow> bool" where
  "data_event (PipeCanSend _) = True"
| "data_event (PipeCanRecv _) = True"
| "data_event PipeSent = True"
| "data_event (PipeReceived _) = True"
| "data_event _ = False"

definition alive_trace :: "pipe_event list \<Rightarrow> bool" where
  "alive_trace evs \<longleftrightarrow> (\<exists>ds. evs = PipeOpened # ds \<and> list_all data_event ds)"

definition pipe_trace :: "pipe_event list \<Rightarrow> bool" where
  "pipe_trace evs \<longleftrightarrow> (\<exists>pre err. evs = pre @ err \<and> (pre = [] \<or> alive_trace pre) \<and> (err = [] \<or> (\<exists>e. err = [PipeError e])))"

fun trace_inv :: "'s pipe_state \<Rightarrow> pipe_event list \<Rightarrow> bool" where
  "trace_inv Dead evs = pipe_trace evs"
| "trace_inv (Active _) evs = alive_trace evs"
| "trace_inv _ evs = (evs = [])"

lemma alive_trace_simps [simp]:
  "alive_trace (evs @ [e]) \<longleftrightarrow> (alive_trace evs \<and> data_event e \<or> evs = [] \<and> e = PipeOpened)" "alive_trace [PipeOpened]" "\<not> alive_trace []"
  by (cases evs; auto simp: alive_trace_def)+

lemma pipe_trace_intros [intro]:
  "pipe_trace []" "pipe_trace [PipeError e]" "alive_trace evs \<Longrightarrow> pipe_trace evs" "alive_trace evs \<Longrightarrow> pipe_trace (evs @ [PipeError e])"
  by (auto simp: pipe_trace_def)

lemma pipe_trace_no_close: "pipe_trace evs \<Longrightarrow> PipeClosed \<notin> set evs"
  by (auto simp: pipe_trace_def alive_trace_def list_all_iff dest: bspec [where x = PipeClosed])

text \<open>The progress helpers only raise data events.\<close>

lemma progress_alive:
  assumes "alive_trace (raised ctx)"
  shows "on_send_progress progress ctx = (res, ctx') \<Longrightarrow> alive_trace (raised ctx')"
    and "on_recv_progress progress' ctx = (res, ctx') \<Longrightarrow> alive_trace (raised ctx')"
    and "change_can_send a b ctx = (a', ctx') \<Longrightarrow> alive_trace (raised ctx')"
    and "change_can_recv a b ctx = (a', ctx') \<Longrightarrow> alive_trace (raised ctx')"
  using assms
  by (auto simp: on_send_progress_def on_recv_progress_def change_can_send_def change_can_recv_def on_msg_sent_def on_msg_received_def
      split: sum.splits option.splits if_splits)

lemma changed_alive:
  assumes "alive_trace (raised ctx)"
  shows "readable_changed ops a events ctx = (res, a', ctx') \<Longrightarrow> alive_trace (raised ctx')"
    and "writable_changed ops a events ctx = (res, a', ctx') \<Longrightarrow> alive_trace (raised ctx')"
  using assms
  by (auto simp: readable_changed_def writable_changed_def Let_def split: if_splits prod.splits intro: progress_alive)

lemma no_transition_trace:
  "alive_trace (raised ctx) \<Longrightarrow> no_transition_if_ok (Active a) ctx res = (st', ctx') \<Longrightarrow> trace_inv st' (raised ctx')"
  by (auto simp: no_transition_if_ok_def state_error_def split: sum.splits)

lemma active_trace:
  assumes "alive_trace (raised ctx)"
  shows "active_send ops a ctx msg = (st', ctx') \<Longrightarrow> trace_inv st' (raised ctx')"
    and "active_recv ops a ctx = (st', ctx') \<Longrightarrow> trace_inv st' (raised ctx')"
    and "active_ready ops a ctx events = (st', ctx') \<Longrightarrow> trace_inv st' (raised ctx')"
proof -
  show "active_send ops a ctx msg = (st', ctx') \<Longrightarrow> trace_inv st' (raised ctx')"
    by (auto simp: active_send_def Let_def split: prod.splits dest!: progress_alive(1) [OF assms] intro: no_transition_trace)
  show "active_recv ops a ctx = (st', ctx') \<Longrightarrow> trace_inv st' (raised ctx')"
    by (auto simp: active_recv_def Let_def split: prod.splits dest!: progress_alive(2) [OF assms] intro: no_transition_trace)
  show "active_ready ops a ctx events = (st', ctx') \<Longrightarrow> trace_inv st' (raised ctx')"
    unfolding active_ready_def using assms
    by (auto split: prod.splits sum.splits intro: no_transition_trace changed_alive)
qed

lemma state_trace:
  assumes "trace_inv st (raised ctx)"
  shows "state_open st ctx = (st', ctx') \<Longrightarrow> trace_inv st' (raised ctx')"
    and "state_close st ctx = (st', ctx') \<Longrightarrow> trace_inv st' (raised ctx')"
    and "state_send ops st ctx msg = (st', ctx') \<Longrightarrow> trace_inv st' (raised ctx')"
    and "state_recv ops st ctx = (st', ctx') \<Longrightarrow> trace_inv st' (raised ctx')"
    and "state_ready ops st ctx events = (st', ctx') \<Longrightarrow> trace_inv st' (raised ctx')"
  using assms
  by (cases st; auto simp: transition_def state_leave_def method_defs enter_defs into_defs
      tx_send_handshake_def rx_recv_handshake_def handshake_tx_ready_def handshake_rx_ready_def transition_if_ok_def state_error_def active_new_def
      intro: active_trace split: if_splits sum.splits prod.splits)+

lemma step_trace:
  assumes "pipe_state_cell p = Some st" and "trace_inv st (raised ctx)" and "pipe_step ops i (p, ctx) = (p', ctx')"
  shows "\<exists>st'. pipe_state_cell p' = Some st' \<and> trace_inv st' (raised ctx')"
  using assms state_trace [OF assms(2)]
  by (cases rule: pipe_input_cases [of i]) (auto simp: pipe_defs split: prod.splits)

lemma run_trace:
  assumes "pipe_state_cell p = Some st" and "trace_inv st (raised ctx)" and "pipe_run ops inputs (p, ctx) = (p', ctx')"
  shows "\<exists>st'. pipe_state_cell p' = Some st' \<and> trace_inv st' (raised ctx')"
  using assms
proof (induction inputs arbitrary: p ctx st)
  case (Cons i inputs)
  obtain p1 ctx1 where step: "pipe_step ops i (p, ctx) = (p1, ctx1)" by (cases "pipe_step ops i (p, ctx)")
  from step_trace [OF Cons.prems(1,2) step] obtain st1 where
    "pipe_state_cell p1 = Some st1" "trace_inv st1 (raised ctx1)" by blast
  then show ?case using Cons.IH Cons.prems(3) step by (simp add: pipe_run_def)
qed (simp add: pipe_run_def)

section \<open>The handshake\<close>

text \<open>
  When a pipe shakes hands, said of its inputs and its stub alone: it is opened first, then notified
  until it may write and writes its handshake, then notified until it may read and reads the one of
  its peer; both succeed, and no command comes in between.
\<close>

fun receives_handshake :: "'s stub_ops \<Rightarrow> 's \<Rightarrow> u16 \<times> u16 \<Rightarrow> pipe_input list \<Rightarrow> bool" where
  "receives_handshake ops s proto_ids (Notify events # inputs) \<longleftrightarrow>
     (if Readable \<in> events then fst (stub_recv_handshake ops s proto_ids) = Inr () else receives_handshake ops s proto_ids inputs)"
| "receives_handshake ops s proto_ids _ \<longleftrightarrow> False"

fun exchanges_handshakes :: "'s stub_ops \<Rightarrow> 's \<Rightarrow> u16 \<times> u16 \<Rightarrow> pipe_input list \<Rightarrow> bool" where
  "exchanges_handshakes ops s proto_ids (Notify events # inputs) \<longleftrightarrow>
     (if Writable \<in> events
      then fst (stub_send_handshake ops s proto_ids) = Inr () \<and>
        receives_handshake ops (snd (stub_send_handshake ops s proto_ids)) proto_ids inputs
      else exchanges_handshakes ops s proto_ids inputs)"
| "exchanges_handshakes ops s proto_ids _ \<longleftrightarrow> False"

fun shakes_hands :: "'s stub_ops \<Rightarrow> 's \<Rightarrow> u16 \<times> u16 \<Rightarrow> pipe_input list \<Rightarrow> bool" where
  "shakes_hands ops s proto_ids (Command PipeOpen # inputs) \<longleftrightarrow> exchanges_handshakes ops s proto_ids inputs"
| "shakes_hands ops s proto_ids _ \<longleftrightarrow> False"

text \<open>Nothing is taken back: an active pipe stays one that was opened, and a dead one raises nothing.\<close>

lemma changed_log:
  "set (raised ctx) \<subseteq> set (raised (snd (snd (readable_changed ops a events ctx))))"
  "set (raised ctx) \<subseteq> set (raised (snd (snd (writable_changed ops a events ctx))))"
  by (auto simp: readable_changed_def writable_changed_def Let_def on_send_progress_def on_recv_progress_def change_can_send_def
      change_can_recv_def on_msg_sent_def on_msg_received_def split: prod.splits sum.splits option.splits)

lemma active_log:
  "set (raised ctx) \<subseteq> set (raised (snd (active_send ops a ctx msg)))"
  "set (raised ctx) \<subseteq> set (raised (snd (active_recv ops a ctx)))"
  "set (raised ctx) \<subseteq> set (raised (snd (active_ready ops a ctx events)))"
proof -
  show "set (raised ctx) \<subseteq> set (raised (snd (active_send ops a ctx msg)))" "set (raised ctx) \<subseteq> set (raised (snd (active_recv ops a ctx)))"
    by (auto simp: active_send_def active_recv_def no_transition_if_ok_def state_error_def on_send_progress_def on_recv_progress_def
        on_msg_sent_def on_msg_received_def Let_def split: prod.splits sum.splits option.splits)
  obtain r1 a1 c1 where c1: "readable_changed ops a events ctx = (r1, a1, c1)" by (cases "readable_changed ops a events ctx") auto
  obtain r2 a2 c2 where c2: "writable_changed ops a1 events c1 = (r2, a2, c2)" by (cases "writable_changed ops a1 events c1") auto
  have "set (raised ctx) \<subseteq> set (raised c1)" "set (raised c1) \<subseteq> set (raised c2)"
    using changed_log(1) [of ctx ops a events] changed_log(2) [of c1 ops a1 events] c1 c2 by auto
  then show "set (raised ctx) \<subseteq> set (raised (snd (active_ready ops a ctx events)))"
    using c1 c2
    by (cases r1; cases r2) (auto simp: active_ready_def hang_up_changed_def no_transition_if_ok_def state_error_def)
qed

lemma dead_step: "pipe_state_cell p = Some Dead \<Longrightarrow> pipe_step ops i (p, ctx) = (p, ctx)"
  by (cases rule: pipe_input_cases [of i]) (auto simp: pipe_defs)

lemma dead_run: "pipe_state_cell p = Some Dead \<Longrightarrow> pipe_run ops inputs (p, ctx) = (p, ctx)"
  by (induction inputs) (simp_all add: pipe_run_def dead_step)

definition established :: "'s async_pipe \<times> pipe_ctx \<Rightarrow> bool" where
  "established pc \<longleftrightarrow> PipeOpened \<in> set (raised (snd pc)) \<and> (\<exists>st. pipe_state_cell (fst pc) = Some st \<and> (st = Dead \<or> (\<exists>a. st = Active a)))"

lemma active_stays:
  "fst (active_send ops a ctx msg) = Dead \<or> (\<exists>a'. fst (active_send ops a ctx msg) = Active a')"
  "fst (active_recv ops a ctx) = Dead \<or> (\<exists>a'. fst (active_recv ops a ctx) = Active a')"
  "fst (active_ready ops a ctx events) = Dead \<or> (\<exists>a'. fst (active_ready ops a ctx events) = Active a')"
  by (auto simp: active_send_def active_recv_def active_ready_def no_transition_if_ok_def state_error_def Let_def
      split: prod.splits sum.splits)

lemma established_apply:
  assumes "established (p, ctx)" and "pipe_state_cell p = Some st" and "set (raised ctx) \<subseteq> set (raised (snd (f st ctx)))"
    and "fst (f st ctx) = Dead \<or> (\<exists>a. fst (f st ctx) = Active a)"
  shows "established (async_pipe_apply f p ctx)"
  using assms by (cases "f st ctx") (auto simp: established_def async_pipe_apply_def)

lemma established_step:
  assumes "established (p, ctx)"
  shows "established (pipe_step ops i (p, ctx))"
proof (cases "pipe_state_cell p = Some Dead")
  case False
  then obtain a where "pipe_state_cell p = Some (Active a)" using assms by (auto simp: established_def)
  from established_apply [OF assms this] show ?thesis
    using active_log [of ctx ops a] active_stays [of ops a ctx]
    by (cases rule: pipe_input_cases [of i])
      (simp_all add: async_pipe_open_def async_pipe_close_def async_pipe_send_def async_pipe_recv_def async_pipe_ready_def method_defs)
qed (simp add: assms dead_step)

lemma established_run: "established pc \<Longrightarrow> established (pipe_run ops inputs pc)"
proof (induction inputs arbitrary: pc)
  case (Cons i inputs)
  then show ?case using established_step [of "fst pc" "snd pc" ops i] by (simp add: pipe_run_def)
qed (simp add: pipe_run_def)

lemma pipe_run_Cons: "pipe_run ops (i # inputs) pc = pipe_run ops inputs (pipe_step ops i pc)"
  by (simp add: pipe_run_def)

lemma handshake_command:
  assumes "pipe_state_cell p \<in> {Some (HandshakeTx s proto_ids), Some (HandshakeRx s proto_ids)}" and "\<nexists>events. i = Notify events"
  shows "raised (snd (pipe_run ops (i # inputs) (p, ctx))) = raised ctx"
proof -
  obtain p1 c1 where step: "pipe_step ops i (p, ctx) = (p1, c1)" by (cases "pipe_step ops i (p, ctx)")
  then have "pipe_state_cell p1 = Some Dead" "raised c1 = raised ctx"
    using assms by (cases rule: pipe_input_cases [of i]; auto simp: pipe_defs)+
  then show ?thesis using step dead_run [of p1 ops inputs c1] by (simp add: pipe_run_Cons)
qed

lemma receives_handshake_opens:
  assumes "pipe_state_cell p = Some (HandshakeRx s proto_ids)" and "PipeOpened \<notin> set (raised ctx)"
  shows "PipeOpened \<in> set (raised (snd (pipe_run ops inputs (p, ctx)))) \<longleftrightarrow> receives_handshake ops s proto_ids inputs"
  using assms
proof (induction inputs arbitrary: p ctx)
  case (Cons i inputs)
  show ?case
  proof (cases "\<exists>events. i = Notify events")
    case False
    then show ?thesis using handshake_command [of p s proto_ids i ops inputs ctx] Cons.prems by (cases i) auto
  next
    case True
    then obtain events where i: "i = Notify events" by blast
    show ?thesis
    proof (cases "Readable \<in> events")
      case False
      then have "pipe_step ops i (p, ctx) = (p, ctx)" using i Cons.prems(1) by (simp add: pipe_defs handshake_rx_ready_def)
      then show ?thesis using Cons i False by (simp add: pipe_run_Cons)
    next
      case True
      obtain r s2 where r: "stub_recv_handshake ops s proto_ids = (r, s2)" by (cases "stub_recv_handshake ops s proto_ids")
      obtain p1 c1 where step: "pipe_step ops i (p, ctx) = (p1, c1)" by (cases "pipe_step ops i (p, ctx)")
      show ?thesis
      proof (cases r)
        case (Inl e)
        then have "pipe_state_cell p1 = Some Dead" "raised c1 = raised ctx @ [PipeError e]"
          using step True i Cons.prems(1) r by (auto simp: pipe_defs handshake_rx_ready_def transition_if_ok_def state_error_def)
        then show ?thesis using dead_run [of p1 ops inputs c1] Cons.prems(2) i True r Inl step by (simp add: pipe_run_Cons)
      next
        case (Inr u)
        have "established (pipe_step ops i (p, ctx))"
          using True i Cons.prems(1) r Inr
          by (simp add: established_def pipe_defs handshake_rx_ready_def transition_if_ok_def transition_def state_leave_def)
        from established_run [OF this, of ops inputs] show ?thesis using i True r Inr by (simp add: pipe_run_Cons established_def)
      qed
    qed
  qed
qed (simp add: pipe_run_def)

lemma exchanges_handshakes_opens:
  assumes "pipe_state_cell p = Some (HandshakeTx s proto_ids)" and "PipeOpened \<notin> set (raised ctx)"
  shows "PipeOpened \<in> set (raised (snd (pipe_run ops inputs (p, ctx)))) \<longleftrightarrow> exchanges_handshakes ops s proto_ids inputs"
  using assms
proof (induction inputs arbitrary: p ctx)
  case (Cons i inputs)
  show ?case
  proof (cases "\<exists>events. i = Notify events")
    case False
    then show ?thesis using handshake_command [of p s proto_ids i ops inputs ctx] Cons.prems by (cases i) auto
  next
    case True
    then obtain events where i: "i = Notify events" by blast
    show ?thesis
    proof (cases "Writable \<in> events")
      case False
      then have "pipe_step ops i (p, ctx) = (p, ctx)" using i Cons.prems(1) by (simp add: pipe_defs handshake_tx_ready_def)
      then show ?thesis using Cons i False by (simp add: pipe_run_Cons)
    next
      case True
      obtain r s1 where r: "stub_send_handshake ops s proto_ids = (r, s1)" by (cases "stub_send_handshake ops s proto_ids")
      obtain p1 c1 where step: "pipe_step ops i (p, ctx) = (p1, c1)" by (cases "pipe_step ops i (p, ctx)")
      show ?thesis
      proof (cases r)
        case (Inl e)
        then have "pipe_state_cell p1 = Some Dead" "raised c1 = raised ctx @ [PipeError e]"
          using step True i Cons.prems(1) r by (auto simp: pipe_defs handshake_tx_ready_def transition_if_ok_def state_error_def)
        then show ?thesis using dead_run [of p1 ops inputs c1] Cons.prems(2) i True r Inl step by (simp add: pipe_run_Cons)
      next
        case (Inr u)
        then have "pipe_state_cell p1 = Some (HandshakeRx s1 proto_ids)" "raised c1 = raised ctx"
          using step True i Cons.prems(1) r
          by (auto simp: pipe_defs handshake_tx_ready_def transition_if_ok_def transition_def state_leave_def)
        from receives_handshake_opens [OF this(1), of c1 ops inputs] this(2) show ?thesis
          using i True r Inr step Cons.prems(2) by (simp add: pipe_run_Cons)
      qed
    qed
  qed
qed (simp add: pipe_run_def)

lemma shakes_hands_opens:
  "PipeOpened \<in> set (raised (snd (pipe_run ops inputs (async_pipe_new stub proto_ids, [])))) \<longleftrightarrow> shakes_hands ops stub proto_ids inputs"
proof (cases inputs)
  case (Cons i rest)
  obtain p1 c1 where step: "pipe_step ops i (async_pipe_new stub proto_ids, []) = (p1, c1)"
    by (cases "pipe_step ops i (async_pipe_new stub proto_ids, [])")
  show ?thesis
  proof (cases "i = Command PipeOpen")
    case True
    then have "pipe_state_cell p1 = Some (HandshakeTx stub proto_ids)" "raised c1 = []"
      using step by (auto simp: async_pipe_new_def pipe_defs transition_def state_leave_def)
    from exchanges_handshakes_opens [OF this(1), of c1 ops rest] this(2) show ?thesis using True Cons step by (simp add: pipe_run_Cons)
  next
    case False
    then have "pipe_state_cell p1 = Some Dead" "raised c1 = []" "\<not> shakes_hands ops stub proto_ids inputs"
      using step Cons by (cases rule: pipe_input_cases [of i]; auto simp: async_pipe_new_def pipe_defs)+
    then show ?thesis using dead_run [of p1 ops rest c1] Cons step by (simp add: pipe_run_Cons)
  qed
qed (simp add: pipe_run_def)

section \<open>Every transfer is accounted for\<close>

text \<open>
  What the pipe relies on in a stub: an operation is pending exactly after a start or a
  resumption that did not complete it, and sending, receiving and the handshake do not
  touch each other's pending operation.
\<close>

locale pipe_stub =
  fixes ops :: "'s stub_ops"
  assumes start_send_law: "\<lbrakk>stub_start_send ops s msg = (Inr b, s'); \<not> stub_has_pending_send ops s\<rbrakk> \<Longrightarrow>
      stub_has_pending_send ops s' = (\<not> b) \<and> stub_has_pending_recv ops s' = stub_has_pending_recv ops s"
    and resume_send_law: "stub_resume_send ops s = (Inr b, s') \<Longrightarrow>
      stub_has_pending_send ops s' = (\<not> b) \<and> stub_has_pending_recv ops s' = stub_has_pending_recv ops s"
    and start_recv_law: "\<lbrakk>stub_start_recv ops s = (Inr m, s'); \<not> stub_has_pending_recv ops s\<rbrakk> \<Longrightarrow>
      stub_has_pending_recv ops s' = (m = None) \<and> stub_has_pending_send ops s' = stub_has_pending_send ops s"
    and resume_recv_law: "stub_resume_recv ops s = (Inr m, s') \<Longrightarrow>
      stub_has_pending_recv ops s' = (m = None) \<and> stub_has_pending_send ops s' = stub_has_pending_send ops s"
    and send_handshake_law: "stub_send_handshake ops s proto_ids = (r, s') \<Longrightarrow>
      stub_has_pending_send ops s' = stub_has_pending_send ops s \<and> stub_has_pending_recv ops s' = stub_has_pending_recv ops s"
    and recv_handshake_law: "stub_recv_handshake ops s proto_ids = (r, s') \<Longrightarrow>
      stub_has_pending_send ops s' = stub_has_pending_send ops s \<and> stub_has_pending_recv ops s' = stub_has_pending_recv ops s"

interpretation tcp_stub: pipe_stub "tcp_ops bo" for bo
  by unfold_locales
    (auto simp: tcp_ops_def tcp_start_send_def tcp_resume_send_def tcp_has_pending_send_def tcp_start_recv_def tcp_resume_recv_def
      tcp_has_pending_recv_def tcp_send_handshake_def tcp_recv_handshake_def tcp_run_send_operation_def tcp_run_recv_operation_def
      Let_def split: prod.splits sum.splits option.splits bool.splits)

interpretation ipc_stub: pipe_stub "ipc_ops bo" for bo
  by unfold_locales
    (auto simp: ipc_ops_def ipc_start_send_def ipc_resume_send_def ipc_has_pending_send_def ipc_start_recv_def ipc_resume_recv_def
      ipc_has_pending_recv_def ipc_send_handshake_def ipc_recv_handshake_def ipc_run_send_operation_def ipc_run_recv_operation_def
      Let_def split: prod.splits sum.splits option.splits bool.splits)

definition sents :: "pipe_ctx \<Rightarrow> nat" where
  "sents ctx = length (filter (\<lambda>e. e = PipeSent) (raised ctx))"

fun is_received :: "pipe_event \<Rightarrow> bool" where
  "is_received (PipeReceived _) = True"
| "is_received _ = False"

definition receiveds :: "pipe_ctx \<Rightarrow> nat" where
  "receiveds ctx = length (filter is_received (raised ctx))"

fun is_send :: "pipe_input \<Rightarrow> bool" where
  "is_send (Command (PipeSend _)) = True"
| "is_send _ = False"

definition sends :: "pipe_input list \<Rightarrow> nat" where
  "sends inputs = length (filter is_send inputs)"

definition recvs :: "pipe_input list \<Rightarrow> nat" where
  "recvs inputs = length (filter (\<lambda>i. i = Command PipeRecv) inputs)"

lemma counts_raise [simp]:
  "sents [] = 0" "receiveds [] = 0"
  "sents (pipe_raise e ctx) = sents ctx + of_bool (e = PipeSent)"
  "receiveds (pipe_raise e ctx) = receiveds ctx + of_bool (is_received e)"
  "sents (pipe_register i l ctx) = sents ctx" "sents (pipe_reregister i l ctx) = sents ctx" "sents (pipe_deregister ctx) = sents ctx"
  "receiveds (pipe_register i l ctx) = receiveds ctx" "receiveds (pipe_reregister i l ctx) = receiveds ctx" "receiveds (pipe_deregister ctx) = receiveds ctx"
  by (simp_all add: sents_def receiveds_def)

text \<open>
  The client's side: it sends (receives) only when all it sent (asked for) before has
  been answered; \<open>ns\<close> and \<open>nr\<close> count the commands so far.
\<close>

fun polite :: "'s stub_ops \<Rightarrow> pipe_input list \<Rightarrow> 's async_pipe \<times> pipe_ctx \<Rightarrow> nat \<Rightarrow> nat \<Rightarrow> bool" where
  "polite ops [] pc ns nr = True"
| "polite ops (i # inputs) pc ns nr \<longleftrightarrow>
     (is_send i \<longrightarrow> sents (snd pc) = ns) \<and> (i = Command PipeRecv \<longrightarrow> receiveds (snd pc) = nr) \<and>
     polite ops inputs (pipe_step ops i pc) (ns + of_bool (is_send i)) (nr + of_bool (i = Command PipeRecv))"

fun account :: "'s stub_ops \<Rightarrow> 's pipe_state \<Rightarrow> pipe_ctx \<Rightarrow> nat \<Rightarrow> nat \<Rightarrow> bool" where
  "account ops (Active a) ctx ns nr \<longleftrightarrow> ns = sents ctx + of_bool (stub_has_pending_send ops (act_stub a)) \<and>
     nr = receiveds ctx + of_bool (stub_has_pending_recv ops (act_stub a))"
| "account ops Dead ctx ns nr \<longleftrightarrow> sents ctx \<le> ns \<and> receiveds ctx \<le> nr"
| "account ops (Initial s _) ctx ns nr \<longleftrightarrow> ns = 0 \<and> nr = 0 \<and> sents ctx = 0 \<and> receiveds ctx = 0 \<and>
     \<not> stub_has_pending_send ops s \<and> \<not> stub_has_pending_recv ops s"
| "account ops (HandshakeTx s _) ctx ns nr \<longleftrightarrow> ns = 0 \<and> nr = 0 \<and> sents ctx = 0 \<and> receiveds ctx = 0 \<and>
     \<not> stub_has_pending_send ops s \<and> \<not> stub_has_pending_recv ops s"
| "account ops (HandshakeRx s _) ctx ns nr \<longleftrightarrow> ns = 0 \<and> nr = 0 \<and> sents ctx = 0 \<and> receiveds ctx = 0 \<and>
     \<not> stub_has_pending_send ops s \<and> \<not> stub_has_pending_recv ops s"

context pipe_stub
begin

lemma active_send_account:
  assumes "account ops (Active a) ctx ns nr" and "sents ctx = ns" and "active_send ops a ctx msg = (st', ctx')"
  shows "account ops st' ctx' (Suc ns) nr"
proof -
  obtain r s' where r: "stub_start_send ops (act_stub a) msg = (r, s')" by (cases "stub_start_send ops (act_stub a) msg")
  have idle: "\<not> stub_has_pending_send ops (act_stub a)" using assms(1,2) by auto
  show ?thesis
    using assms r start_send_law [of "act_stub a" msg _ s'] idle
    by (cases r) (auto simp: active_send_def on_send_progress_def on_msg_sent_def no_transition_if_ok_def state_error_def Let_def)
qed

lemma active_recv_account:
  assumes "account ops (Active a) ctx ns nr" and "receiveds ctx = nr" and "active_recv ops a ctx = (st', ctx')"
  shows "account ops st' ctx' ns (Suc nr)"
proof -
  obtain r s' where r: "stub_start_recv ops (act_stub a) = (r, s')" by (cases "stub_start_recv ops (act_stub a)")
  have idle: "\<not> stub_has_pending_recv ops (act_stub a)" using assms(1,2) by auto
  show ?thesis
    using assms r start_recv_law [of "act_stub a" _ s'] idle
    by (cases r) (auto simp: active_recv_def on_recv_progress_def on_msg_received_def no_transition_if_ok_def state_error_def Let_def
        split: option.splits)
qed

lemma readable_account:
  assumes "account ops (Active a) ctx ns nr" and "readable_changed ops a events ctx = (res, a', ctx')"
  shows "account ops (if \<exists>e. res = Inl e then Dead else Active a') ctx' ns nr"
  using assms resume_recv_law
  by (auto simp: readable_changed_def change_can_recv_def on_recv_progress_def on_msg_received_def Let_def
      split: if_splits prod.splits sum.splits option.splits)

lemma writable_account:
  assumes "account ops (Active a) ctx ns nr" and "writable_changed ops a events ctx = (res, a', ctx')"
  shows "account ops (if \<exists>e. res = Inl e then Dead else Active a') ctx' ns nr"
  using assms resume_send_law
  by (auto simp: writable_changed_def change_can_send_def on_send_progress_def on_msg_sent_def Let_def
      split: if_splits prod.splits sum.splits)

lemma account_dead: "account ops st ctx ns nr \<Longrightarrow> account ops Dead ctx ns nr"
  by (cases st) auto

lemma active_ready_account:
  assumes "account ops (Active a) ctx ns nr" and "active_ready ops a ctx events = (st', ctx')"
  shows "account ops st' ctx' ns nr"
proof -
  obtain r1 a1 c1 where rd: "readable_changed ops a events ctx = (r1, a1, c1)" by (cases "readable_changed ops a events ctx") auto
  obtain r2 a2 c2 where wr: "writable_changed ops a1 events c1 = (r2, a2, c2)" by (cases "writable_changed ops a1 events c1") auto
  note acc1 = readable_account [OF assms(1) rd]
  show ?thesis
  proof (cases r1)
    case (Inl e)
    then show ?thesis using assms(2) rd acc1 by (auto simp: active_ready_def no_transition_if_ok_def state_error_def)
  next
    case (Inr u)
    then have "account ops (Active a1) c1 ns nr" using acc1 by simp
    note acc2 = writable_account [OF this wr]
    show ?thesis
      using assms(2) rd wr Inr acc2
      by (cases r2) (auto simp: active_ready_def hang_up_changed_def no_transition_if_ok_def state_error_def split: if_splits)
  qed
qed

lemma handshake_account:
  assumes "account ops st ctx ns nr" and "st = HandshakeTx s proto_ids \<or> st = HandshakeRx s proto_ids"
    and "state_ready ops st ctx events = (st', ctx')"
  shows "account ops st' ctx' ns nr"
  using assms send_handshake_law [of s proto_ids] recv_handshake_law [of s proto_ids]
  by (auto simp: pipe_defs handshake_tx_ready_def handshake_rx_ready_def transition_if_ok_def transition_def state_leave_def
      state_error_def active_new_def split: if_splits prod.splits sum.splits)

lemma step_account:
  assumes "pipe_state_cell p = Some st" and "account ops st ctx ns nr" and "pipe_step ops i (p, ctx) = (p', ctx')"
    and "is_send i \<longrightarrow> sents ctx = ns" and "i = Command PipeRecv \<longrightarrow> receiveds ctx = nr"
  shows "\<exists>st'. pipe_state_cell p' = Some st' \<and> account ops st' ctx' (ns + of_bool (is_send i)) (nr + of_bool (i = Command PipeRecv))"
proof (cases rule: pipe_input_cases [of i])
  case 1
  then show ?thesis using assms(1-3)
    by (cases st) (auto simp: pipe_defs transition_def state_leave_def)
next
  case 2
  then show ?thesis using assms(1-3)
    by (cases st) (auto simp: pipe_defs)
next
  case (3 msg)
  show ?thesis
  proof (cases "\<exists>a. st = Active a")
    case True
    then obtain a where a: "st = Active a" by blast
    obtain st1 c1 where r: "active_send ops a ctx msg = (st1, c1)" by (cases "active_send ops a ctx msg")
    have "account ops st1 c1 (Suc ns) nr"
      by (rule active_send_account [OF assms(2) [unfolded a] _ r]) (use 3 assms(4) in simp)
    then show ?thesis using 3 a assms(1,3) r by (auto simp: pipe_defs)
  next
    case False
    then show ?thesis using 3 assms(1-3) by (cases st) (auto simp: pipe_defs)
  qed
next
  case 4
  show ?thesis
  proof (cases "\<exists>a. st = Active a")
    case True
    then obtain a where a: "st = Active a" by blast
    obtain st1 c1 where r: "active_recv ops a ctx = (st1, c1)" by (cases "active_recv ops a ctx")
    have "account ops st1 c1 ns (Suc nr)"
      by (rule active_recv_account [OF assms(2) [unfolded a] _ r]) (use 4 assms(5) in simp)
    then show ?thesis using 4 a assms(1,3) r by (auto simp: pipe_defs)
  next
    case False
    then show ?thesis using 4 assms(1-3) by (cases st) (auto simp: pipe_defs)
  qed
next
  case (5 events)
  obtain st' c' where r: "state_ready ops st ctx events = (st', c')" by (cases "state_ready ops st ctx events")
  have "account ops st' c' ns nr"
  proof (cases st)
    case (Active a)
    then show ?thesis using active_ready_account assms(2) r by simp
  next
    case (HandshakeTx s proto_ids)
    then show ?thesis using handshake_account [OF assms(2)] r by blast
  next
    case (HandshakeRx s proto_ids)
    then show ?thesis using handshake_account [OF assms(2)] r by blast
  qed (use assms(2) r in \<open>auto simp: method_defs\<close>)
  then show ?thesis using 5 assms(1,3) r by (auto simp: pipe_defs)
qed

lemma run_account:
  assumes "pipe_state_cell p = Some st" and "account ops st ctx ns nr" and "polite ops inputs (p, ctx) ns nr"
    and "pipe_run ops inputs (p, ctx) = (p', ctx')"
  shows "\<exists>st'. pipe_state_cell p' = Some st' \<and> account ops st' ctx' (ns + sends inputs) (nr + recvs inputs)"
  using assms
proof (induction inputs arbitrary: p ctx st ns nr)
  case (Cons i inputs)
  obtain p1 ctx1 where step: "pipe_step ops i (p, ctx) = (p1, ctx1)" by (cases "pipe_step ops i (p, ctx)")
  from step_account [OF Cons.prems(1,2) step] Cons.prems(3) obtain st1 where
    st1: "pipe_state_cell p1 = Some st1" "account ops st1 ctx1 (ns + of_bool (is_send i)) (nr + of_bool (i = Command PipeRecv))" by auto
  have "polite ops inputs (p1, ctx1) (ns + of_bool (is_send i)) (nr + of_bool (i = Command PipeRecv))"
    using Cons.prems(3) step by simp
  moreover have "pipe_run ops inputs (p1, ctx1) = (p', ctx')" using Cons.prems(4) step by (simp add: pipe_run_def)
  moreover have "sends (i # inputs) = of_bool (is_send i) + sends inputs" "recvs (i # inputs) = of_bool (i = Command PipeRecv) + recvs inputs"
    by (simp_all add: sends_def recvs_def)
  ultimately show ?case using Cons.IH [OF st1] by (simp only: add.assoc)
qed (simp add: pipe_run_def sends_def recvs_def)

end

section \<open>Properties\<close>

text \<open>
  (C16) The events of a pipe come in order: over any sequence of commands and notifications,
  and whatever the stub does, a pipe raises \<open>Opened\<close> exactly when it shook hands, that is once it
  was opened, its handshake was sent when it became writable and the one of its peer was received
  and accepted when it became readable afterwards; before that it raises nothing but an error.
  \<open>Opened\<close> comes once and first, then only events about data, and at most one \<open>Error\<close>, which is
  its last event and leaves it dead; a dead pipe stays dead and raises nothing more.
\<close>

theorem pipe_events_in_order:
  assumes "pipe_run ops inputs (async_pipe_new stub proto_ids, []) = (p, ctx)"
  shows "pipe_trace (raised ctx) \<and>
    (PipeOpened \<in> set (raised ctx) \<longleftrightarrow> shakes_hands ops stub proto_ids inputs) \<and>
    (pipe_state_cell p = Some Dead \<longrightarrow> pipe_run ops more_inputs (p, ctx) = (p, ctx))"
proof -
  obtain st where st: "pipe_state_cell p = Some st" "trace_inv st (raised ctx)"
    using run_trace [of "async_pipe_new stub proto_ids" "Initial stub proto_ids" "[]" ops inputs p ctx] assms by (auto simp: async_pipe_new_def)
  have "pipe_trace (raised ctx)" using st(2) by (cases st) auto
  then show ?thesis using shakes_hands_opens [of ops inputs stub proto_ids] assms dead_run [of p ops more_inputs ctx] by simp
qed

text \<open>
  (C39) The event \<open>Closed\<close> is never raised: closing a pipe kills it silently, because the state
  \<open>Dead\<close> is returned without being entered. A client that waits for \<open>Closed\<close> to release
  a pipe never does.
\<close>

theorem pipe_close_is_silent:
  assumes "pipe_run ops inputs (async_pipe_new stub proto_ids, []) = (p, ctx)"
    and "async_pipe_close p ctx = (p', ctx')"
  shows "PipeClosed \<notin> set (raised ctx') \<and> pipe_state_cell p' = Some Dead \<and> raised ctx' = raised ctx"
proof -
  obtain st where st: "pipe_state_cell p = Some st" "trace_inv st (raised ctx)"
    using run_trace [of "async_pipe_new stub proto_ids" "Initial stub proto_ids" "[]" ops inputs p ctx] assms(1) by (auto simp: async_pipe_new_def)
  have "pipe_state_cell p' = Some Dead \<and> raised ctx' = raised ctx"
    using st(1) assms(2) by (cases st) (auto simp: pipe_defs)
  moreover have "pipe_trace (raised ctx)" using st(2) by (cases st) auto
  ultimately show ?thesis using pipe_trace_no_close by simp
qed

text \<open>
  (C15) No transfer is lost or reported twice by a TCP pipe: when its client waits for the
  answer to a send before the next one, and likewise for receives, an active pipe has raised
  one \<open>Sent\<close> per send, but for the one whose operation is still pending, and one \<open>Received\<close>
  per receive but for the pending one; a dead pipe has never raised more than that.
\<close>

theorem tcp_pipe_accounts:
  assumes "polite (tcp_ops bo) inputs (async_pipe_new (tcp_stub_new s limit) proto_ids, []) 0 0"
    and "pipe_run (tcp_ops bo) inputs (async_pipe_new (tcp_stub_new s limit) proto_ids, []) = (p, ctx)"
  shows "sents ctx \<le> sends inputs \<and> receiveds ctx \<le> recvs inputs \<and>
    (\<forall>a. pipe_state_cell p = Some (Active a) \<longrightarrow>
       sends inputs = sents ctx + of_bool (tcp_has_pending_send (act_stub a)) \<and>
       recvs inputs = receiveds ctx + of_bool (tcp_has_pending_recv (act_stub a)))"
proof -
  have start: "account (tcp_ops bo) (Initial (tcp_stub_new s limit) proto_ids) [] 0 0"
    by (simp add: tcp_ops_def tcp_stub_new_def tcp_has_pending_send_def tcp_has_pending_recv_def)
  obtain st where st: "pipe_state_cell p = Some st" "account (tcp_ops bo) st ctx (sends inputs) (recvs inputs)"
    using tcp_stub.run_account [OF _ start assms] by (auto simp: async_pipe_new_def)
  then show ?thesis by (cases st) (auto simp: tcp_ops_def)
qed

text \<open>
  Witnesses: a pipe whose stream accepts everything opens, sends a message, is closed.
\<close>

definition demo_pipe_stream :: stream where
  "demo_pipe_stream = \<lparr>st_in = create_handshake be_instance 48, st_out = [],
     st_script = [Progress 8, Progress 8, Progress 100]\<rparr>"

definition demo_inputs :: "pipe_input list" where
  "demo_inputs = [Command PipeOpen, Notify {Writable}, Notify {Readable}, Notify {Writable}, Command (PipeSend demo_message)]"

definition demo_pipe :: "tcp_pipe_stub async_pipe" where
  "demo_pipe = async_pipe_new (tcp_stub_new demo_pipe_stream 0) (49, 48)"

lemmas pipe_eval = demo_pipe_def demo_inputs_def demo_pipe_stream_def demo_message_def async_pipe_new_def tcp_stub_new_def tcp_ops_def
  pipe_defs transition_def state_leave_def transition_if_ok_def no_transition_if_ok_def handshake_tx_ready_def handshake_rx_ready_def
  active_new_def active_ready_def active_send_def readable_changed_def writable_changed_def change_can_send_def change_can_recv_def
  hang_up_changed_def on_send_progress_def on_msg_sent_def tcp_start_send_def tcp_run_send_operation_def tcp_send_run_def tcp_send_new_def
  tcp_send_handshake_def tcp_recv_handshake_def send_and_check_handshake_def recv_and_check_handshake_def check_handshake_def
  create_handshake_def stream_write_def stream_write_bufs_def stream_read_def tcp_send_resume_at.simps tcp_write_transport_hdr_def tcp_write_buffers_def
  flatten_would_block_def get_header_def get_body_def message_len_def tcp_has_pending_send_def tcp_has_pending_recv_def pipe_run_def byte_eval

lemma demo_pipe_run:
  "raised (snd (pipe_run (tcp_ops be_instance) demo_inputs (demo_pipe, []))) = [PipeOpened, PipeCanSend True, PipeSent]"
  by (simp add: pipe_eval Let_def)

lemma demo_pipe_polite: "polite (tcp_ops be_instance) demo_inputs (demo_pipe, []) 0 0"
  by (simp add: pipe_eval Let_def)

theorem pipe_events_in_order_witness:
  "pipe_trace [PipeOpened, PipeCanSend True, PipeSent] \<and> shakes_hands (tcp_ops be_instance) (tcp_stub_new demo_pipe_stream 0) (49, 48) demo_inputs"
proof -
  obtain p ctx where run: "pipe_run (tcp_ops be_instance) demo_inputs (demo_pipe, []) = (p, ctx)"
    by (cases "pipe_run (tcp_ops be_instance) demo_inputs (demo_pipe, [])")
  from pipe_events_in_order [OF run [unfolded demo_pipe_def]] show ?thesis using demo_pipe_run run by simp
qed

theorem pipe_close_is_silent_witness:
  "\<exists>p ctx. pipe_run (tcp_ops be_instance) demo_inputs (demo_pipe, []) = (p, ctx) \<and>
     raised (snd (async_pipe_close p ctx)) = [PipeOpened, PipeCanSend True, PipeSent]"
proof -
  obtain p ctx where run: "pipe_run (tcp_ops be_instance) demo_inputs (demo_pipe, []) = (p, ctx)"
    by (cases "pipe_run (tcp_ops be_instance) demo_inputs (demo_pipe, [])")
  obtain p' ctx' where close: "async_pipe_close p ctx = (p', ctx')" by (cases "async_pipe_close p ctx")
  from pipe_close_is_silent [OF run [unfolded demo_pipe_def] close] show ?thesis using demo_pipe_run run close by simp
qed

theorem tcp_pipe_accounts_witness:
  "\<exists>p ctx. pipe_run (tcp_ops be_instance) demo_inputs (demo_pipe, []) = (p, ctx) \<and> sents ctx \<le> 1"
proof -
  obtain p ctx where run: "pipe_run (tcp_ops be_instance) demo_inputs (demo_pipe, []) = (p, ctx)"
    by (cases "pipe_run (tcp_ops be_instance) demo_inputs (demo_pipe, [])")
  have "sends demo_inputs = 1" by (simp add: demo_inputs_def sends_def)
  then show ?thesis
    using tcp_pipe_accounts [OF demo_pipe_polite [unfolded demo_pipe_def] run [unfolded demo_pipe_def]] run by auto
qed

end
