(* ===== verification/Pipe_Traffic.thy ===== *)
theory Pipe_Traffic
  imports Transport_Pipe
begin

text \<open>
  What two connected pipes do together. The locale \<open>framed_stub\<close> says of a stub which bytes its
  operations put on and take off its stream; it is interpreted on the TCP and the IPC stub. From
  it follows which bytes an active pipe has written and read, and that the messages one pipe
  announces as received are those the other was given to send, in order.
\<close>

section \<open>The bytes of a stub\<close>

text \<open>
  \<open>tx s None\<close>: no send is pending; \<open>tx s (Some (msg, k))\<close>: a send of \<open>msg\<close> is pending and \<open>k\<close> bytes
  of its frame are written. \<open>rx s (Some bs)\<close>: a receive is pending that has taken the bytes \<open>bs\<close>.
\<close>

definition sends_on :: "('s \<Rightarrow> (message \<times> nat) option \<Rightarrow> bool) \<Rightarrow> u8 list \<Rightarrow> message \<Rightarrow> nat \<Rightarrow> stream \<Rightarrow> io_error + bool \<Rightarrow> 's \<Rightarrow> stream \<Rightarrow> bool" where
  "sends_on tx fr msg k io r s' io' \<longleftrightarrow> st_in io' = st_in io \<and>
     (\<exists>n. st_out io' = st_out io @ take n (drop k fr) \<and>
        (r = Inr True \<longrightarrow> k + n = length fr \<and> tx s' None) \<and>
        (r = Inr False \<longrightarrow> k + n < length fr \<and> tx s' (Some (msg, k + n))))"

definition receives_on :: "nat \<Rightarrow> byteorder \<Rightarrow> ('s \<Rightarrow> u8 list option \<Rightarrow> bool) \<Rightarrow> u8 list \<Rightarrow> stream \<Rightarrow> io_error + message option \<Rightarrow> 's \<Rightarrow> stream \<Rightarrow> bool" where
  "receives_on H bo rx bs io r s' io' \<longleftrightarrow> st_out io' = st_out io \<and>
     (\<exists>cs. st_in io = cs @ st_in io' \<and> (r = Inr None \<longrightarrow> rx s' (Some (bs @ cs))) \<and>
        (\<forall>m. r = Inr (Some m) \<longrightarrow> framed H bo (bs @ cs) m \<and> rx s' None))"

locale framed_stub = pipe_stub ops for ops :: "'s stub_ops" +
  fixes io :: "'s \<Rightarrow> stream"
    and H :: nat
    and bo :: byteorder
    and frame :: "message \<Rightarrow> u8 list"
    and tx :: "'s \<Rightarrow> (message \<times> nat) option \<Rightarrow> bool"
    and rx :: "'s \<Rightarrow> u8 list option \<Rightarrow> bool"
  assumes order: "big_endian bo"
    and header_size: "8 \<le> H"
    and tx_pending: "tx s x \<Longrightarrow> stub_has_pending_send ops s \<longleftrightarrow> x \<noteq> None"
    and rx_pending: "rx s y \<Longrightarrow> stub_has_pending_recv ops s \<longleftrightarrow> y \<noteq> None"
    and start_send_bytes: "\<lbrakk>tx s None; stub_start_send ops s msg = (r, s')\<rbrakk> \<Longrightarrow>
      sends_on tx (frame msg) msg 0 (io s) r s' (io s') \<and> (\<forall>y. rx s y \<longrightarrow> rx s' y)"
    and resume_send_bytes: "\<lbrakk>tx s (Some (msg, k)); stub_resume_send ops s = (r, s')\<rbrakk> \<Longrightarrow>
      sends_on tx (frame msg) msg k (io s) r s' (io s') \<and> (\<forall>y. rx s y \<longrightarrow> rx s' y)"
    and start_recv_bytes: "\<lbrakk>rx s None; stub_start_recv ops s = (q, s')\<rbrakk> \<Longrightarrow>
      receives_on H bo rx [] (io s) q s' (io s') \<and> (\<forall>x. tx s x \<longrightarrow> tx s' x)"
    and resume_recv_bytes: "\<lbrakk>rx s (Some bs); stub_resume_recv ops s = (q, s')\<rbrakk> \<Longrightarrow>
      receives_on H bo rx bs (io s) q s' (io s') \<and> (\<forall>x. tx s x \<longrightarrow> tx s' x)"
    and send_handshake_bytes: "stub_send_handshake ops s proto_ids = (h, s') \<Longrightarrow>
      send_and_check_handshake bo (io s) proto_ids = (h, io s') \<and> (\<forall>x y. (tx s x \<longrightarrow> tx s' x) \<and> (rx s y \<longrightarrow> rx s' y))"
    and recv_handshake_bytes: "stub_recv_handshake ops s proto_ids = (h, s') \<Longrightarrow>
      recv_and_check_handshake bo (io s) proto_ids = (h, io s') \<and> (\<forall>x y. (tx s x \<longrightarrow> tx s' x) \<and> (rx s y \<longrightarrow> rx s' y))"
    and frame_framed: "message_len msg < 2 ^ 64 \<Longrightarrow> framed H bo (frame msg) (from_body (header msg @ body msg))"

section \<open>The stubs of TCP and IPC\<close>

definition tcp_tx_state :: "tcp_pipe_stub \<Rightarrow> (message \<times> nat) option \<Rightarrow> bool" where
  "tcp_tx_state s x = (case x of
     None \<Rightarrow> tcp_send_op s = None
   | Some (msg, k) \<Rightarrow> \<exists>op. tcp_send_op s = Some op \<and> tcp_at op msg k)"

definition tcp_rx_state :: "byteorder \<Rightarrow> tcp_pipe_stub \<Rightarrow> u8 list option \<Rightarrow> bool" where
  "tcp_rx_state bo s y = (case y of
     None \<Rightarrow> tcp_recv_op s = None
   | Some bs \<Rightarrow> \<exists>op. tcp_recv_op s = Some op \<and> tcp_receiving bo op (tcp_recv_max_size s) bs)"

definition ipc_tx_state :: "ipc_pipe_stub \<Rightarrow> (message \<times> nat) option \<Rightarrow> bool" where
  "ipc_tx_state s x = (case x of
     None \<Rightarrow> ipc_send_op s = None
   | Some (msg, k) \<Rightarrow> \<exists>op. ipc_send_op s = Some op \<and> ipc_at op msg k)"

definition ipc_rx_state :: "byteorder \<Rightarrow> ipc_pipe_stub \<Rightarrow> u8 list option \<Rightarrow> bool" where
  "ipc_rx_state bo s y = (case y of
     None \<Rightarrow> ipc_recv_op s = None
   | Some bs \<Rightarrow> \<exists>op. ipc_recv_op s = Some op \<and> ipc_receiving bo op (ipc_recv_max_size s) bs)"

lemma tcp_state_simps [simp]:
  "tcp_tx_state s None \<longleftrightarrow> tcp_send_op s = None" "tcp_tx_state s (Some (msg, k)) \<longleftrightarrow> (\<exists>op. tcp_send_op s = Some op \<and> tcp_at op msg k)"
  "tcp_rx_state bo s None \<longleftrightarrow> tcp_recv_op s = None"
  "tcp_rx_state bo s (Some bs) \<longleftrightarrow> (\<exists>op. tcp_recv_op s = Some op \<and> tcp_receiving bo op (tcp_recv_max_size s) bs)"
  "tcp_rx_state bo (s\<lparr>tcp_send_op := o1\<rparr>) y = tcp_rx_state bo s y" "tcp_tx_state (s\<lparr>tcp_recv_op := o2\<rparr>) x = tcp_tx_state s x"
  by (simp_all add: tcp_tx_state_def tcp_rx_state_def split: option.split)

lemma ipc_state_simps [simp]:
  "ipc_tx_state s None \<longleftrightarrow> ipc_send_op s = None" "ipc_tx_state s (Some (msg, k)) \<longleftrightarrow> (\<exists>op. ipc_send_op s = Some op \<and> ipc_at op msg k)"
  "ipc_rx_state bo s None \<longleftrightarrow> ipc_recv_op s = None"
  "ipc_rx_state bo s (Some bs) \<longleftrightarrow> (\<exists>op. ipc_recv_op s = Some op \<and> ipc_receiving bo op (ipc_recv_max_size s) bs)"
  "ipc_rx_state bo (s\<lparr>ipc_send_op := o1\<rparr>) y = ipc_rx_state bo s y" "ipc_tx_state (s\<lparr>ipc_recv_op := o2\<rparr>) x = ipc_tx_state s x"
  by (simp_all add: ipc_tx_state_def ipc_rx_state_def split: option.split)

context network_order
begin

lemma tcp_run_send_bytes:
  assumes "tcp_at op msg k" and "tcp_send_op s = None" and "tcp_run_send_operation bo s op = (r, s')"
  shows "sends_on tcp_tx_state (tcp_frame bo msg) msg k (tcp_stream s) r s' (tcp_stream s') \<and> (\<forall>y. tcp_rx_state bo s y \<longrightarrow> tcp_rx_state bo s' y)"
proof -
  obtain r1 op1 io1 where run: "tcp_send_run bo op (tcp_stream s) = (r1, op1, io1)" by (cases "tcp_send_run bo op (tcp_stream s)") auto
  from tcp_tx.run_law [OF assms(1) run] obtain n where n: "st_in io1 = st_in (tcp_stream s)"
    "st_out io1 = st_out (tcp_stream s) @ take n (drop k (tcp_frame bo msg))" "r1 = Inr True \<Longrightarrow> k + n = length (tcp_frame bo msg)"
    "r1 = Inr False \<Longrightarrow> tcp_at op1 msg (k + n) \<and> k + n < length (tcp_frame bo msg)" using tcp_tx.at_end by blast
  show ?thesis
    unfolding sends_on_def using n assms(2,3) run
    by (cases r1) (auto simp: tcp_run_send_operation_def tcp_rx_state_def split: bool.splits option.splits intro!: exI [of _ n])
qed

lemma tcp_run_recv_bytes:
  assumes "tcp_receiving bo op (tcp_recv_max_size s) bs" and "tcp_recv_op s = None" and "tcp_run_recv_operation bo s op = (r, s')"
  shows "receives_on 8 bo (tcp_rx_state bo) bs (tcp_stream s) r s' (tcp_stream s') \<and> (\<forall>x. tcp_tx_state s x \<longrightarrow> tcp_tx_state s' x)"
proof -
  obtain r1 op1 io1 where run: "tcp_recv_run bo op (tcp_stream s) = (r1, op1, io1)" by (cases "tcp_recv_run bo op (tcp_stream s)") auto
  note law = tcp_rx.run_law [OF assms(1) run]
  show ?thesis
    using law assms(2,3) run
    by (cases r1) (auto simp: tcp_run_recv_operation_def receives_on_def tcp_tx_state_def tcp_rx_state_def split: option.splits)
qed

lemma ipc_run_send_bytes:
  assumes "ipc_at op msg k" and "ipc_send_op s = None" and "ipc_run_send_operation bo s op = (r, s')"
  shows "sends_on ipc_tx_state (ipc_frame bo msg) msg k (ipc_stream s) r s' (ipc_stream s') \<and> (\<forall>y. ipc_rx_state bo s y \<longrightarrow> ipc_rx_state bo s' y)"
proof -
  obtain r1 op1 io1 where run: "ipc_send_run bo op (ipc_stream s) = (r1, op1, io1)" by (cases "ipc_send_run bo op (ipc_stream s)") auto
  from ipc_tx.run_law [OF assms(1) run] obtain n where n: "st_in io1 = st_in (ipc_stream s)"
    "st_out io1 = st_out (ipc_stream s) @ take n (drop k (ipc_frame bo msg))" "r1 = Inr True \<Longrightarrow> k + n = length (ipc_frame bo msg)"
    "r1 = Inr False \<Longrightarrow> ipc_at op1 msg (k + n) \<and> k + n < length (ipc_frame bo msg)" using ipc_tx.at_end by blast
  show ?thesis
    unfolding sends_on_def using n assms(2,3) run
    by (cases r1) (auto simp: ipc_run_send_operation_def ipc_rx_state_def split: bool.splits option.splits intro!: exI [of _ n])
qed

lemma ipc_run_recv_bytes:
  assumes "ipc_receiving bo op (ipc_recv_max_size s) bs" and "ipc_recv_op s = None" and "ipc_run_recv_operation bo s op = (r, s')"
  shows "receives_on 9 bo (ipc_rx_state bo) bs (ipc_stream s) r s' (ipc_stream s') \<and> (\<forall>x. ipc_tx_state s x \<longrightarrow> ipc_tx_state s' x)"
proof -
  obtain r1 op1 io1 where run: "ipc_recv_run bo op (ipc_stream s) = (r1, op1, io1)" by (cases "ipc_recv_run bo op (ipc_stream s)") auto
  note law = ipc_rx.run_law [OF assms(1) run]
  show ?thesis
    using law assms(2,3) run
    by (cases r1) (auto simp: ipc_run_recv_operation_def receives_on_def ipc_tx_state_def ipc_rx_state_def split: option.splits)
qed

end

sublocale network_order \<subseteq> tcp_traffic: framed_stub "tcp_ops bo" tcp_stream 8 bo "tcp_frame bo" tcp_tx_state "tcp_rx_state bo"
proof unfold_locales
  note unfold = tcp_ops_def tcp_tx_state_def tcp_rx_state_def
  fix s s' :: tcp_pipe_stub and x y msg k bs proto_ids and r :: "io_error + bool" and q :: "io_error + message option" and h :: "io_error + unit"
  show "big_endian bo" by (rule big_endian)
  show "(8 :: nat) \<le> 8" by simp
  show "tcp_tx_state s x \<Longrightarrow> stub_has_pending_send (tcp_ops bo) s \<longleftrightarrow> x \<noteq> None"
    by (auto simp: unfold tcp_has_pending_send_def split: option.splits)
  show "tcp_rx_state bo s y \<Longrightarrow> stub_has_pending_recv (tcp_ops bo) s \<longleftrightarrow> y \<noteq> None"
    by (auto simp: unfold tcp_has_pending_recv_def split: option.splits)
  show "\<lbrakk>tcp_tx_state s None; stub_start_send (tcp_ops bo) s msg = (r, s')\<rbrakk> \<Longrightarrow>
      sends_on tcp_tx_state (tcp_frame bo msg) msg 0 (tcp_stream s) r s' (tcp_stream s') \<and> (\<forall>y. tcp_rx_state bo s y \<longrightarrow> tcp_rx_state bo s' y)"
    by (rule tcp_run_send_bytes [OF tcp_tx.new_law]) (simp_all add: tcp_ops_def tcp_tx_state_def tcp_start_send_def)
  show "\<lbrakk>tcp_tx_state s (Some (msg, k)); stub_resume_send (tcp_ops bo) s = (r, s')\<rbrakk> \<Longrightarrow>
      sends_on tcp_tx_state (tcp_frame bo msg) msg k (tcp_stream s) r s' (tcp_stream s') \<and> (\<forall>y. tcp_rx_state bo s y \<longrightarrow> tcp_rx_state bo s' y)"
    using tcp_run_send_bytes [of _ msg k "s\<lparr>tcp_send_op := None\<rparr>" r s']
    by (auto simp: tcp_ops_def tcp_resume_send_def)
  show "\<lbrakk>tcp_rx_state bo s None; stub_start_recv (tcp_ops bo) s = (q, s')\<rbrakk> \<Longrightarrow>
      receives_on 8 bo (tcp_rx_state bo) [] (tcp_stream s) q s' (tcp_stream s') \<and> (\<forall>x. tcp_tx_state s x \<longrightarrow> tcp_tx_state s' x)"
    by (rule tcp_run_recv_bytes [OF tcp_rx.new_law]) (simp_all add: tcp_ops_def tcp_rx_state_def tcp_start_recv_def)
  show "\<lbrakk>tcp_rx_state bo s (Some bs); stub_resume_recv (tcp_ops bo) s = (q, s')\<rbrakk> \<Longrightarrow>
      receives_on 8 bo (tcp_rx_state bo) bs (tcp_stream s) q s' (tcp_stream s') \<and> (\<forall>x. tcp_tx_state s x \<longrightarrow> tcp_tx_state s' x)"
    using tcp_run_recv_bytes [of _ "s\<lparr>tcp_recv_op := None\<rparr>" bs q s']
    by (auto simp: tcp_ops_def tcp_resume_recv_def)
  show "stub_send_handshake (tcp_ops bo) s proto_ids = (h, s') \<Longrightarrow>
      send_and_check_handshake bo (tcp_stream s) proto_ids = (h, tcp_stream s') \<and>
      (\<forall>x y. (tcp_tx_state s x \<longrightarrow> tcp_tx_state s' x) \<and> (tcp_rx_state bo s y \<longrightarrow> tcp_rx_state bo s' y))"
    by (auto simp: unfold tcp_send_handshake_def Let_def split: prod.splits option.splits)
  show "stub_recv_handshake (tcp_ops bo) s proto_ids = (h, s') \<Longrightarrow>
      recv_and_check_handshake bo (tcp_stream s) proto_ids = (h, tcp_stream s') \<and>
      (\<forall>x y. (tcp_tx_state s x \<longrightarrow> tcp_tx_state s' x) \<and> (tcp_rx_state bo s y \<longrightarrow> tcp_rx_state bo s' y))"
    by (auto simp: unfold tcp_recv_handshake_def Let_def split: prod.splits option.splits)
  show "message_len msg < 2 ^ 64 \<Longrightarrow> framed 8 bo (tcp_frame bo msg) (from_body (header msg @ body msg))"
    by (rule tcp_frame_framed)
qed

sublocale network_order \<subseteq> ipc_traffic: framed_stub "ipc_ops bo" ipc_stream 9 bo "ipc_frame bo" ipc_tx_state "ipc_rx_state bo"
proof unfold_locales
  note unfold = ipc_ops_def ipc_tx_state_def ipc_rx_state_def
  fix s s' :: ipc_pipe_stub and x y msg k bs proto_ids and r :: "io_error + bool" and q :: "io_error + message option" and h :: "io_error + unit"
  show "big_endian bo" by (rule big_endian)
  show "(8 :: nat) \<le> 9" by simp
  show "ipc_tx_state s x \<Longrightarrow> stub_has_pending_send (ipc_ops bo) s \<longleftrightarrow> x \<noteq> None"
    by (auto simp: unfold ipc_has_pending_send_def split: option.splits)
  show "ipc_rx_state bo s y \<Longrightarrow> stub_has_pending_recv (ipc_ops bo) s \<longleftrightarrow> y \<noteq> None"
    by (auto simp: unfold ipc_has_pending_recv_def split: option.splits)
  show "\<lbrakk>ipc_tx_state s None; stub_start_send (ipc_ops bo) s msg = (r, s')\<rbrakk> \<Longrightarrow>
      sends_on ipc_tx_state (ipc_frame bo msg) msg 0 (ipc_stream s) r s' (ipc_stream s') \<and> (\<forall>y. ipc_rx_state bo s y \<longrightarrow> ipc_rx_state bo s' y)"
    by (rule ipc_run_send_bytes [OF ipc_tx.new_law]) (simp_all add: ipc_ops_def ipc_tx_state_def ipc_start_send_def)
  show "\<lbrakk>ipc_tx_state s (Some (msg, k)); stub_resume_send (ipc_ops bo) s = (r, s')\<rbrakk> \<Longrightarrow>
      sends_on ipc_tx_state (ipc_frame bo msg) msg k (ipc_stream s) r s' (ipc_stream s') \<and> (\<forall>y. ipc_rx_state bo s y \<longrightarrow> ipc_rx_state bo s' y)"
    using ipc_run_send_bytes [of _ msg k "s\<lparr>ipc_send_op := None\<rparr>" r s']
    by (auto simp: ipc_ops_def ipc_resume_send_def)
  show "\<lbrakk>ipc_rx_state bo s None; stub_start_recv (ipc_ops bo) s = (q, s')\<rbrakk> \<Longrightarrow>
      receives_on 9 bo (ipc_rx_state bo) [] (ipc_stream s) q s' (ipc_stream s') \<and> (\<forall>x. ipc_tx_state s x \<longrightarrow> ipc_tx_state s' x)"
    by (rule ipc_run_recv_bytes [OF ipc_rx.new_law]) (simp_all add: ipc_ops_def ipc_rx_state_def ipc_start_recv_def)
  show "\<lbrakk>ipc_rx_state bo s (Some bs); stub_resume_recv (ipc_ops bo) s = (q, s')\<rbrakk> \<Longrightarrow>
      receives_on 9 bo (ipc_rx_state bo) bs (ipc_stream s) q s' (ipc_stream s') \<and> (\<forall>x. ipc_tx_state s x \<longrightarrow> ipc_tx_state s' x)"
    using ipc_run_recv_bytes [of _ "s\<lparr>ipc_recv_op := None\<rparr>" bs q s']
    by (auto simp: ipc_ops_def ipc_resume_recv_def)
  show "stub_send_handshake (ipc_ops bo) s proto_ids = (h, s') \<Longrightarrow>
      send_and_check_handshake bo (ipc_stream s) proto_ids = (h, ipc_stream s') \<and>
      (\<forall>x y. (ipc_tx_state s x \<longrightarrow> ipc_tx_state s' x) \<and> (ipc_rx_state bo s y \<longrightarrow> ipc_rx_state bo s' y))"
    by (auto simp: unfold ipc_send_handshake_def Let_def split: prod.splits option.splits)
  show "stub_recv_handshake (ipc_ops bo) s proto_ids = (h, s') \<Longrightarrow>
      recv_and_check_handshake bo (ipc_stream s) proto_ids = (h, ipc_stream s') \<and>
      (\<forall>x y. (ipc_tx_state s x \<longrightarrow> ipc_tx_state s' x) \<and> (ipc_rx_state bo s y \<longrightarrow> ipc_rx_state bo s' y))"
    by (auto simp: unfold ipc_recv_handshake_def Let_def split: prod.splits option.splits)
  show "message_len msg < 2 ^ 64 \<Longrightarrow> framed 9 bo (ipc_frame bo msg) (from_body (header msg @ body msg))"
    by (rule ipc_frame_framed)
qed

section \<open>What is on the wire\<close>

definition sent_messages :: "pipe_input list \<Rightarrow> message list" where
  "sent_messages inputs = concat (map (\<lambda>i. case i of Command (PipeSend m) \<Rightarrow> [m] | _ \<Rightarrow> []) inputs)"

definition received_messages :: "pipe_ctx \<Rightarrow> message list" where
  "received_messages ctx = concat (map (\<lambda>e. case e of PipeReceived m \<Rightarrow> [m] | _ \<Rightarrow> []) (raised ctx))"

lemma received_simps [simp]:
  "received_messages [] = []" "received_messages (pipe_register i l ctx) = received_messages ctx"
  "received_messages (pipe_reregister i l ctx) = received_messages ctx" "received_messages (pipe_deregister ctx) = received_messages ctx"
  "received_messages (pipe_raise e ctx) = received_messages ctx @ (case e of PipeReceived m \<Rightarrow> [m] | _ \<Rightarrow> [])"
  by (simp_all add: received_messages_def)

text \<open>
  An active stub that was given the messages \<open>sent\<close> has written the handshake and the frames of
  these messages, of the last one only a part when its send is pending.
\<close>

definition written where
  "written io frame tx hs s sent \<longleftrightarrow>
     tx s None \<and> st_out (io s) = hs @ concat (map frame sent) \<or>
     (\<exists>past msg k. tx s (Some (msg, k)) \<and> k < length (frame msg) \<and> sent = past @ [msg] \<and>
        st_out (io s) = hs @ concat (map frame past) @ take k (frame msg))"

text \<open>
  An active stub that delivered \<open>msgs\<close> has read, out of the bytes \<open>I\<close>, a handshake and one frame
  per message, and what the pending receive has taken.
\<close>

definition frames_of :: "nat \<Rightarrow> byteorder \<Rightarrow> u8 list \<Rightarrow> message list \<Rightarrow> u8 list \<Rightarrow> bool" where
  "frames_of H bo I msgs rest \<longleftrightarrow> (\<exists>hs frs. length hs = 8 \<and> I = hs @ concat frs @ rest \<and> list_all2 (framed H bo) frs msgs)"

definition taken where
  "taken io H bo rx I s msgs \<longleftrightarrow> (\<exists>y. rx s y \<and> frames_of H bo I msgs ((case y of None \<Rightarrow> [] | Some bs \<Rightarrow> bs) @ st_in (io s)))"

lemma frames_of_more:
  assumes "frames_of H bo I msgs (fr @ rest)" and "framed H bo fr m"
  shows "frames_of H bo I (msgs @ [m]) rest"
proof -
  obtain hs frs where "length hs = 8" "I = hs @ concat frs @ fr @ rest" "list_all2 (framed H bo) frs msgs"
    using assms(1) by (auto simp: frames_of_def)
  then show ?thesis unfolding frames_of_def using assms(2)
    by (intro exI [of _ hs] exI [of _ "frs @ [fr]"]) (simp add: list_all2_appendI)
qed

text \<open>A message as its receiver sees it, and that nothing is left to write, to carry or to read.\<close>

definition wire_message :: "message \<Rightarrow> message" where
  "wire_message m = from_body (header m @ body m)"

definition all_read :: "'s stub_ops \<Rightarrow> ('s \<Rightarrow> stream) \<Rightarrow> u8 list \<Rightarrow> 's active \<Rightarrow> 's async_pipe \<Rightarrow> bool" where
  "all_read ops io in_flight a p' \<longleftrightarrow> in_flight = [] \<and> \<not> stub_has_pending_send ops (act_stub a) \<and>
     (\<exists>a'. pipe_state_cell p' = Some (Active a') \<and> st_in (io (act_stub a')) = [] \<and> \<not> stub_has_pending_recv ops (act_stub a'))"

text \<open>
  The same for every state of a pipe: before the handshake nothing is written or read; a dead
  pipe has lost its stub, but what it delivered stays delivered. \<open>sc\<close> is the script of the stream,
  whose second entry is the one that reads the handshake.
\<close>

fun pipe_written ::
  "('s \<Rightarrow> stream) \<Rightarrow> byteorder \<Rightarrow> (message \<Rightarrow> u8 list) \<Rightarrow> ('s \<Rightarrow> (message \<times> nat) option \<Rightarrow> bool) \<Rightarrow> ('s \<Rightarrow> u8 list option \<Rightarrow> bool) \<Rightarrow>
   u16 \<times> u16 \<Rightarrow> 's pipe_state \<Rightarrow> message list \<Rightarrow> bool" where
  "pipe_written io bo frame tx rx proto_ids (Initial s ids) sent \<longleftrightarrow>
     ids = proto_ids \<and> st_out (io s) = [] \<and> tx s None \<and> rx s None \<and> sent = []"
| "pipe_written io bo frame tx rx proto_ids (HandshakeTx s ids) sent \<longleftrightarrow>
     ids = proto_ids \<and> st_out (io s) = [] \<and> tx s None \<and> rx s None \<and> sent = []"
| "pipe_written io bo frame tx rx proto_ids (HandshakeRx s ids) sent \<longleftrightarrow>
     st_out (io s) = create_handshake bo (fst proto_ids) \<and> tx s None \<and> rx s None \<and> sent = []"
| "pipe_written io bo frame tx rx proto_ids (Active a) sent \<longleftrightarrow>
     written io frame tx (create_handshake bo (fst proto_ids)) (act_stub a) sent \<and> (\<exists>y. rx (act_stub a) y)"
| "pipe_written io bo frame tx rx proto_ids Dead sent \<longleftrightarrow> True"

fun pipe_taken ::
  "('s \<Rightarrow> stream) \<Rightarrow> nat \<Rightarrow> byteorder \<Rightarrow> ('s \<Rightarrow> (message \<times> nat) option \<Rightarrow> bool) \<Rightarrow> ('s \<Rightarrow> u8 list option \<Rightarrow> bool) \<Rightarrow>
   u8 list \<Rightarrow> io_step list \<Rightarrow> 's pipe_state \<Rightarrow> message list \<Rightarrow> bool" where
  "pipe_taken io H bo tx rx I sc (Initial s ids) msgs \<longleftrightarrow>
     st_in (io s) = I \<and> st_script (io s) = sc \<and> tx s None \<and> rx s None \<and> msgs = []"
| "pipe_taken io H bo tx rx I sc (HandshakeTx s ids) msgs \<longleftrightarrow>
     st_in (io s) = I \<and> st_script (io s) = sc \<and> tx s None \<and> rx s None \<and> msgs = []"
| "pipe_taken io H bo tx rx I sc (HandshakeRx s ids) msgs \<longleftrightarrow>
     st_in (io s) = I \<and> st_script (io s) = tl sc \<and> tx s None \<and> rx s None \<and> msgs = []"
| "pipe_taken io H bo tx rx I sc (Active a) msgs \<longleftrightarrow> taken io H bo rx I (act_stub a) msgs \<and> (\<exists>x. tx (act_stub a) x)"
| "pipe_taken io H bo tx rx I sc Dead msgs \<longleftrightarrow> (\<exists>rest. frames_of H bo I msgs rest)"

text \<open>The second call on the stream takes eight bytes, and there are that many.\<close>

definition whole_handshake :: "u8 list \<Rightarrow> io_step list \<Rightarrow> bool" where
  "whole_handshake I sc \<longleftrightarrow> 8 \<le> length I \<and> (\<exists>x n later. sc = x # Progress n # later \<and> 8 \<le> n)"

lemma handshake_sent:
  assumes "send_and_check_handshake bo st ids = (Inr (), st')" and "big_endian bo"
  shows "st_out st' = st_out st @ create_handshake bo (fst ids)" "st_in st' = st_in st" "st_script st' = tl (st_script st)"
  using assms length_create_handshake [OF assms(2), of "fst ids"]
  by (auto simp: send_and_check_handshake_def stream_write_def split: prod.splits list.splits io_step.splits if_splits)

lemma handshake_received:
  assumes "recv_and_check_handshake bo st ids = (Inr (), st')"
  shows "st_out st' = st_out st" "whole_handshake (st_in st) (x # st_script st) \<Longrightarrow> st_in st' = drop 8 (st_in st)"
  using assms by (auto simp: recv_and_check_handshake_def stream_read_def whole_handshake_def split: prod.splits list.splits io_step.splits)

lemma frames_of_handshake: "8 \<le> length I \<Longrightarrow> frames_of H bo I [] (drop 8 I)"
  unfolding frames_of_def by (intro exI [of _ "take 8 I"] exI [of _ "[]"]) simp

lemma frames_of_none: "8 \<le> length I \<Longrightarrow> \<exists>rest. frames_of H bo I [] rest"
  using frames_of_handshake by blast

lemma taken_dead: "taken io H bo rx I s msgs \<Longrightarrow> \<exists>rest. frames_of H bo I msgs rest"
  by (auto simp: taken_def)

context framed_stub
begin

abbreviation out_ok :: "u8 list \<Rightarrow> 's \<Rightarrow> message list \<Rightarrow> bool" where
  "out_ok hs s sent \<equiv> written io frame tx hs s sent \<and> (\<exists>y. rx s y)"

abbreviation in_ok :: "u8 list \<Rightarrow> 's \<Rightarrow> message list \<Rightarrow> bool" where
  "in_ok I s msgs \<equiv> taken io H bo rx I s msgs \<and> (\<exists>x. tx s x)"

lemma tx_idle: "\<exists>x. tx s x \<Longrightarrow> \<not> stub_has_pending_send ops s \<Longrightarrow> tx s None"
  using tx_pending by metis

lemma rx_idle: "\<exists>y. rx s y \<Longrightarrow> \<not> stub_has_pending_recv ops s \<Longrightarrow> rx s None"
  using rx_pending by metis

lemma written_start:
  assumes "out_ok hs s sent" and "\<not> stub_has_pending_send ops s" and "stub_start_send ops s msg = (Inr b, s')"
  shows "out_ok hs s' (sent @ [msg])"
proof -
  have idle: "tx s None" "st_out (io s) = hs @ concat (map frame sent)"
    using assms(1,2) tx_pending by (auto simp: written_def)
  note law = start_send_bytes [OF idle(1) assms(3)]
  obtain n where n: "st_out (io s') = st_out (io s) @ take n (frame msg)" "b \<Longrightarrow> n = length (frame msg) \<and> tx s' None"
    "\<not> b \<Longrightarrow> n < length (frame msg) \<and> tx s' (Some (msg, n))"
    using law by (auto simp: sends_on_def)
  have "written io frame tx hs s' (sent @ [msg])"
    unfolding written_def using n idle(2) by (cases b) auto
  then show ?thesis using law assms(1) by auto
qed

lemma written_resume:
  assumes "out_ok hs s sent" and "stub_has_pending_send ops s" and "stub_resume_send ops s = (Inr b, s')"
  shows "out_ok hs s' sent"
proof -
  obtain past msg k where pending: "tx s (Some (msg, k))" "k < length (frame msg)" "sent = past @ [msg]"
    "st_out (io s) = hs @ concat (map frame past) @ take k (frame msg)"
    using assms(1,2) tx_pending by (auto simp: written_def)
  note law = resume_send_bytes [OF pending(1) assms(3)]
  obtain n where n: "st_out (io s') = st_out (io s) @ take n (drop k (frame msg))" "b \<Longrightarrow> k + n = length (frame msg) \<and> tx s' None"
    "\<not> b \<Longrightarrow> k + n < length (frame msg) \<and> tx s' (Some (msg, k + n))"
    using law by (auto simp: sends_on_def)
  have "st_out (io s') = hs @ concat (map frame past) @ take (k + n) (frame msg)"
    using n(1) pending(4) by (simp add: take_add)
  then have "written io frame tx hs s' sent"
    unfolding written_def using n(2,3) pending(3) by (cases b) auto
  then show ?thesis using law assms(1) by auto
qed

lemma written_receives:
  assumes "out_ok hs s sent" and "receives_on H bo rx bs (io s) (Inr q) s' (io s')" and "\<forall>x. tx s x \<longrightarrow> tx s' x"
  shows "out_ok hs s' sent"
  using assms by (cases q) (auto simp: written_def receives_on_def)

lemma taken_receives:
  assumes "in_ok I s msgs" and "receives_on H bo rx bs (io s) (Inr q) s' (io s')" and "\<forall>x. tx s x \<longrightarrow> tx s' x"
    and "frames_of H bo I msgs (bs @ st_in (io s))"
  shows "in_ok I s' (msgs @ (case q of None \<Rightarrow> [] | Some m \<Rightarrow> [m]))"
proof -
  obtain cs where cs: "st_in (io s) = cs @ st_in (io s')" "q = None \<Longrightarrow> rx s' (Some (bs @ cs))"
    "\<And>m. q = Some m \<Longrightarrow> framed H bo (bs @ cs) m \<and> rx s' None" using assms(2) by (auto simp: receives_on_def)
  have I: "frames_of H bo I msgs ((bs @ cs) @ st_in (io s'))" using assms(4) cs(1) by simp
  have "taken io H bo rx I s' (msgs @ (case q of None \<Rightarrow> [] | Some m \<Rightarrow> [m]))"
  proof (cases q)
    case None
    then show ?thesis unfolding taken_def using cs(2) I by (intro exI [of _ "Some (bs @ cs)"]) simp
  next
    case (Some m)
    then show ?thesis unfolding taken_def using cs(3) frames_of_more [OF I] by (intro exI [of _ None]) simp
  qed
  then show ?thesis using assms(1,3) by blast
qed

lemma taken_pending:
  assumes "in_ok I s msgs"
  shows "\<not> stub_has_pending_recv ops s \<Longrightarrow> rx s None \<and> frames_of H bo I msgs (st_in (io s))"
    and "stub_has_pending_recv ops s \<Longrightarrow> \<exists>bs. rx s (Some bs) \<and> frames_of H bo I msgs (bs @ st_in (io s))"
proof -
  obtain y where y: "rx s y" "frames_of H bo I msgs ((case y of None \<Rightarrow> [] | Some bs \<Rightarrow> bs) @ st_in (io s))"
    using assms by (auto simp: taken_def)
  note pending = rx_pending [OF y(1)]
  show "\<not> stub_has_pending_recv ops s \<Longrightarrow> rx s None \<and> frames_of H bo I msgs (st_in (io s))"
    using y pending by (cases y) auto
  show "stub_has_pending_recv ops s \<Longrightarrow> \<exists>bs. rx s (Some bs) \<and> frames_of H bo I msgs (bs @ st_in (io s))"
    using y pending by (cases y) auto
qed

lemma taken_sends:
  assumes "in_ok I s msgs" and "sends_on tx fr msg k (io s) (Inr b) s' (io s')" and "\<forall>y. rx s y \<longrightarrow> rx s' y"
  shows "in_ok I s' msgs"
  using assms by (cases b) (auto simp: taken_def sends_on_def)

text \<open>Reading and writing when the poller says so.\<close>

lemma readable_traffic:
  assumes "readable_changed ops a events ctx = (Inr u, a', ctx')"
  shows "out_ok hs (act_stub a) sent \<Longrightarrow> out_ok hs (act_stub a') sent"
    and "in_ok I (act_stub a) (received_messages ctx) \<Longrightarrow> in_ok I (act_stub a') (received_messages ctx')"
proof -
  consider (idle) "act_stub a' = act_stub a" "received_messages ctx' = received_messages ctx"
    | (resumed) q s' where "stub_has_pending_recv ops (act_stub a)" "stub_resume_recv ops (act_stub a) = (Inr q, s')"
        "act_stub a' = s'" "received_messages ctx' = received_messages ctx @ (case q of None \<Rightarrow> [] | Some m \<Rightarrow> [m])"
    using assms
    by (auto simp: readable_changed_def change_can_recv_def on_recv_progress_def on_msg_received_def Let_def
        split: if_splits prod.splits sum.splits option.splits)
  then have "(out_ok hs (act_stub a) sent \<longrightarrow> out_ok hs (act_stub a') sent) \<and>
    (in_ok I (act_stub a) (received_messages ctx) \<longrightarrow> in_ok I (act_stub a') (received_messages ctx'))"
  proof cases
    case idle
    then show ?thesis by simp
  next
    case (resumed q s')
    have "out_ok hs s' sent" if ok: "out_ok hs (act_stub a) sent"
    proof -
      obtain bs where "rx (act_stub a) (Some bs)" using ok rx_pending resumed(1) by blast
      from resume_recv_bytes [OF this resumed(2)] show ?thesis using written_receives [OF ok] by blast
    qed
    moreover have "in_ok I s' (received_messages ctx')" if ok: "in_ok I (act_stub a) (received_messages ctx)"
    proof -
      obtain bs where bs: "rx (act_stub a) (Some bs)" "frames_of H bo I (received_messages ctx) (bs @ st_in (io (act_stub a)))"
        using taken_pending(2) [OF ok resumed(1)] by blast
      from resume_recv_bytes [OF bs(1) resumed(2)] show ?thesis unfolding resumed(4) using taken_receives [OF ok _ _ bs(2)] by blast
    qed
    ultimately show ?thesis using resumed(3) by simp
  qed
  then show "out_ok hs (act_stub a) sent \<Longrightarrow> out_ok hs (act_stub a') sent"
    "in_ok I (act_stub a) (received_messages ctx) \<Longrightarrow> in_ok I (act_stub a') (received_messages ctx')" by blast+
qed

lemma writable_traffic:
  assumes "writable_changed ops a events ctx = (Inr u, a', ctx')"
  shows "out_ok hs (act_stub a) sent \<Longrightarrow> out_ok hs (act_stub a') sent"
    and "in_ok I (act_stub a) (received_messages ctx) \<Longrightarrow> in_ok I (act_stub a') (received_messages ctx')"
proof -
  consider (idle) "act_stub a' = act_stub a" "received_messages ctx' = received_messages ctx"
    | (resumed) b s' where "stub_has_pending_send ops (act_stub a)" "stub_resume_send ops (act_stub a) = (Inr b, s')"
        "act_stub a' = s'" "received_messages ctx' = received_messages ctx"
    using assms
    by (auto simp: writable_changed_def change_can_send_def on_send_progress_def on_msg_sent_def Let_def
        split: if_splits prod.splits sum.splits)
  then have "(out_ok hs (act_stub a) sent \<longrightarrow> out_ok hs (act_stub a') sent) \<and>
    (in_ok I (act_stub a) (received_messages ctx) \<longrightarrow> in_ok I (act_stub a') (received_messages ctx'))"
  proof cases
    case idle
    then show ?thesis by simp
  next
    case (resumed b s')
    have "in_ok I s' (received_messages ctx)" if ok: "in_ok I (act_stub a) (received_messages ctx)"
    proof -
      obtain msg k where "tx (act_stub a) (Some (msg, k))" using ok tx_pending resumed(1) by fastforce
      from resume_send_bytes [OF this resumed(2)] show ?thesis using taken_sends [OF ok] by blast
    qed
    then show ?thesis unfolding resumed(3,4) using written_resume [OF _ resumed(1,2)] by blast
  qed
  then show "out_ok hs (act_stub a) sent \<Longrightarrow> out_ok hs (act_stub a') sent"
    "in_ok I (act_stub a) (received_messages ctx) \<Longrightarrow> in_ok I (act_stub a') (received_messages ctx')" by blast+
qed

lemma active_ready_traffic:
  assumes "active_ready ops a ctx events = (Active a', ctx')"
  shows "out_ok hs (act_stub a) sent \<Longrightarrow> out_ok hs (act_stub a') sent"
    and "in_ok I (act_stub a) (received_messages ctx) \<Longrightarrow> in_ok I (act_stub a') (received_messages ctx')"
proof -
  obtain u v a1 c1 a2 where steps: "readable_changed ops a events ctx = (Inr u, a1, c1)" "writable_changed ops a1 events c1 = (Inr v, a2, ctx')"
    "act_stub a' = act_stub a2"
    using assms by (auto simp: active_ready_def no_transition_if_ok_def state_error_def hang_up_changed_def
        split: prod.splits sum.splits if_splits)
  show "out_ok hs (act_stub a) sent \<Longrightarrow> out_ok hs (act_stub a') sent"
    unfolding steps(3) by (rule writable_traffic(1) [OF steps(2)], rule readable_traffic(1) [OF steps(1)])
  show "in_ok I (act_stub a) (received_messages ctx) \<Longrightarrow> in_ok I (act_stub a') (received_messages ctx')"
    unfolding steps(3) by (rule writable_traffic(2) [OF steps(2)], rule readable_traffic(2) [OF steps(1)])
qed

lemma active_send_traffic:
  assumes "active_send ops a ctx msg = (Active a', ctx')" and "\<not> stub_has_pending_send ops (act_stub a)"
  shows "out_ok hs (act_stub a) sent \<Longrightarrow> out_ok hs (act_stub a') (sent @ [msg])"
    and "in_ok I (act_stub a) (received_messages ctx) \<Longrightarrow> in_ok I (act_stub a') (received_messages ctx')"
proof -
  obtain b s' where run: "stub_start_send ops (act_stub a) msg = (Inr b, s')" "act_stub a' = s'" "received_messages ctx' = received_messages ctx"
    using assms(1) by (auto simp: active_send_def on_send_progress_def on_msg_sent_def no_transition_if_ok_def state_error_def Let_def
        split: prod.splits sum.splits if_splits)
  show "out_ok hs (act_stub a) sent \<Longrightarrow> out_ok hs (act_stub a') (sent @ [msg])"
    unfolding run(2) by (rule written_start [OF _ assms(2) run(1)])
  show "in_ok I (act_stub a') (received_messages ctx')" if ok: "in_ok I (act_stub a) (received_messages ctx)"
  proof -
    have "tx (act_stub a) None" using ok tx_idle assms(2) by blast
    from start_send_bytes [OF this run(1)] show ?thesis unfolding run(2,3) using taken_sends [OF ok] by blast
  qed
qed

lemma active_recv_traffic:
  assumes "active_recv ops a ctx = (Active a', ctx')" and "\<not> stub_has_pending_recv ops (act_stub a)"
  shows "out_ok hs (act_stub a) sent \<Longrightarrow> out_ok hs (act_stub a') sent"
    and "in_ok I (act_stub a) (received_messages ctx) \<Longrightarrow> in_ok I (act_stub a') (received_messages ctx')"
proof -
  obtain q s' where run: "stub_start_recv ops (act_stub a) = (Inr q, s')" "act_stub a' = s'"
    "received_messages ctx' = received_messages ctx @ (case q of None \<Rightarrow> [] | Some m \<Rightarrow> [m])"
    using assms(1) by (auto simp: active_recv_def on_recv_progress_def on_msg_received_def no_transition_if_ok_def state_error_def Let_def
        split: prod.splits sum.splits option.splits)
  show "out_ok hs (act_stub a') sent" if ok: "out_ok hs (act_stub a) sent"
  proof -
    have "rx (act_stub a) None" using ok rx_idle assms(2) by blast
    from start_recv_bytes [OF this run(1)] show ?thesis unfolding run(2) using written_receives [OF ok] by blast
  qed
  show "in_ok I (act_stub a') (received_messages ctx')" if ok: "in_ok I (act_stub a) (received_messages ctx)"
  proof -
    have idle: "rx (act_stub a) None" "frames_of H bo I (received_messages ctx) ([] @ st_in (io (act_stub a)))"
      using taken_pending(1) [OF ok assms(2)] by auto
    from start_recv_bytes [OF idle(1) run(1)] show ?thesis unfolding run(2,3) using taken_receives [OF ok _ _ idle(2)] by blast
  qed
qed

text \<open>The handshake.\<close>

lemma handshake_tx_traffic:
  assumes "handshake_tx_ready ops s ids ctx events = (st', ctx')"
  shows "pipe_written io bo frame tx rx proto_ids (HandshakeTx s ids) sent \<Longrightarrow> pipe_written io bo frame tx rx proto_ids st' sent"
    and "pipe_taken io H bo tx rx I sc (HandshakeTx s ids) (received_messages ctx) \<Longrightarrow> 8 \<le> length I \<Longrightarrow>
      pipe_taken io H bo tx rx I sc st' (received_messages ctx')"
proof -
  obtain h s' where run: "stub_send_handshake ops s ids = (h, s')" by (cases "stub_send_handshake ops s ids")
  note law = send_handshake_bytes [OF run]
  show "pipe_written io bo frame tx rx proto_ids (HandshakeTx s ids) sent \<Longrightarrow> pipe_written io bo frame tx rx proto_ids st' sent"
    using assms run law handshake_sent [of bo "io s" ids "io s'", OF _ order]
    by (cases h) (auto simp: handshake_tx_ready_def tx_send_handshake_def transition_if_ok_def transition_def into_defs state_error_def split: if_splits)
  show "pipe_taken io H bo tx rx I sc (HandshakeTx s ids) (received_messages ctx) \<Longrightarrow> 8 \<le> length I \<Longrightarrow>
      pipe_taken io H bo tx rx I sc st' (received_messages ctx')"
    using assms run law handshake_sent [of bo "io s" ids "io s'", OF _ order]
    by (cases h) (auto simp: handshake_tx_ready_def tx_send_handshake_def transition_if_ok_def transition_def into_defs state_error_def
        state_leave_def enter_defs split: if_splits intro: frames_of_none)
qed

lemma handshake_rx_traffic:
  assumes "handshake_rx_ready ops s ids ctx events = (st', ctx')"
  shows "pipe_written io bo frame tx rx proto_ids (HandshakeRx s ids) sent \<Longrightarrow> pipe_written io bo frame tx rx proto_ids st' sent"
    and "pipe_taken io H bo tx rx I sc (HandshakeRx s ids) (received_messages ctx) \<Longrightarrow> whole_handshake I sc \<Longrightarrow>
      pipe_taken io H bo tx rx I sc st' (received_messages ctx')"
proof -
  obtain h s' where run: "stub_recv_handshake ops s ids = (h, s')" by (cases "stub_recv_handshake ops s ids")
  note law = recv_handshake_bytes [OF run]
  have rx: "rx s None \<Longrightarrow> \<exists>y. rx s' y" and tx: "tx s None \<Longrightarrow> \<exists>x. tx s' x" using law by blast+
  show "pipe_written io bo frame tx rx proto_ids (HandshakeRx s ids) sent \<Longrightarrow> pipe_written io bo frame tx rx proto_ids st' sent"
    using assms run law rx handshake_received(1) [of bo "io s" ids "io s'"]
    by (cases h) (auto simp: handshake_rx_ready_def rx_recv_handshake_def transition_if_ok_def transition_def into_defs state_error_def
        active_new_def written_def split: if_splits)
  assume st: "pipe_taken io H bo tx rx I sc (HandshakeRx s ids) (received_messages ctx)" and whole: "whole_handshake I sc"
  then have len: "8 \<le> length I" and sc: "sc = hd sc # st_script (io s)" by (auto simp: whole_handshake_def)
  show "pipe_taken io H bo tx rx I sc st' (received_messages ctx')"
  proof (cases "h = Inr () \<and> Readable \<in> events")
    case True
    then have "st_in (io s') = drop 8 I"
      using handshake_received(2) [of bo "io s" ids "io s'" "hd sc"] law st whole sc by simp
    then have "taken io H bo rx I s' []" unfolding taken_def using law st frames_of_handshake [OF len] by (intro exI [of _ None]) simp
    then show ?thesis
      using True assms run law st tx by (auto simp: handshake_rx_ready_def rx_recv_handshake_def transition_if_ok_def transition_def into_defs
          active_new_def state_leave_def enter_defs)
  next
    case False
    then show ?thesis
      using assms run st frames_of_none [OF len]
      by (cases h) (auto simp: handshake_rx_ready_def rx_recv_handshake_def transition_if_ok_def state_error_def split: if_splits)
  qed
qed

text \<open>An error ends a pipe; what it delivered before is unchanged.\<close>

lemma active_dead:
  assumes "in_ok I (act_stub a) (received_messages ctx)"
  shows "active_send ops a ctx msg = (Dead, ctx') \<Longrightarrow> \<exists>rest. frames_of H bo I (received_messages ctx') rest"
    and "active_recv ops a ctx = (Dead, ctx') \<Longrightarrow> \<exists>rest. frames_of H bo I (received_messages ctx') rest"
    and "active_ready ops a ctx events = (Dead, ctx') \<Longrightarrow> \<exists>rest. frames_of H bo I (received_messages ctx') rest"
proof -
  have now: "\<exists>rest. frames_of H bo I (received_messages ctx) rest" using assms taken_dead [of io H bo rx I "act_stub a"] by simp
  show "active_send ops a ctx msg = (Dead, ctx') \<Longrightarrow> \<exists>rest. frames_of H bo I (received_messages ctx') rest"
    using now by (auto simp: active_send_def on_send_progress_def no_transition_if_ok_def state_error_def Let_def split: prod.splits sum.splits if_splits)
  show "active_recv ops a ctx = (Dead, ctx') \<Longrightarrow> \<exists>rest. frames_of H bo I (received_messages ctx') rest"
    using now by (auto simp: active_recv_def on_recv_progress_def no_transition_if_ok_def state_error_def Let_def split: prod.splits sum.splits if_splits)
  obtain r1 a1 c1 where rd: "readable_changed ops a events ctx = (r1, a1, c1)" by (cases "readable_changed ops a events ctx") auto
  obtain r2 a2 c2 where wr: "writable_changed ops a1 events c1 = (r2, a2, c2)" by (cases "writable_changed ops a1 events c1") auto
  have silent: "received_messages c1 = received_messages ctx" if "r1 = Inl e" for e
    using rd that by (auto simp: readable_changed_def change_can_recv_def on_recv_progress_def Let_def split: if_splits prod.splits sum.splits)
  have quiet: "received_messages c2 = received_messages c1"
    using wr by (auto simp: writable_changed_def change_can_send_def on_send_progress_def on_msg_sent_def Let_def
        split: if_splits prod.splits sum.splits)
  assume dead: "active_ready ops a ctx events = (Dead, ctx')"
  show "\<exists>rest. frames_of H bo I (received_messages ctx') rest"
  proof (cases r1)
    case (Inl e)
    then show ?thesis using dead rd silent now by (auto simp: active_ready_def no_transition_if_ok_def state_error_def)
  next
    case (Inr u)
    then have "in_ok I (act_stub a1) (received_messages c1)" using readable_traffic(2) rd assms by blast
    then have "\<exists>rest. frames_of H bo I (received_messages c2) rest" using taken_dead [of io H bo rx I "act_stub a1"] quiet by simp
    then show ?thesis using dead rd wr Inr
      by (cases r2) (auto simp: active_ready_def no_transition_if_ok_def state_error_def hang_up_changed_def split: if_splits)
  qed
qed

lemma active_results:
  "fst (active_send ops a ctx msg) = Dead \<or> (\<exists>a'. fst (active_send ops a ctx msg) = Active a')"
  "fst (active_recv ops a ctx) = Dead \<or> (\<exists>a'. fst (active_recv ops a ctx) = Active a')"
  "fst (active_ready ops a ctx events) = Dead \<or> (\<exists>a'. fst (active_ready ops a ctx events) = Active a')"
  by (auto simp: active_send_def active_recv_def active_ready_def no_transition_if_ok_def state_error_def Let_def split: prod.splits sum.splits)

lemma state_traffic:
  assumes "account ops st ctx ns nr" and "whole_handshake I sc \<or> \<not> whole"
    and "pipe_written io bo frame tx rx proto_ids st sent \<and> (whole \<longrightarrow> pipe_taken io H bo tx rx I sc st (received_messages ctx))"
  shows "state_send ops st ctx msg = (st', ctx') \<Longrightarrow> sents ctx = ns \<Longrightarrow> 
      pipe_written io bo frame tx rx proto_ids st' (sent @ [msg]) \<and> (whole \<longrightarrow> pipe_taken io H bo tx rx I sc st' (received_messages ctx'))"
    and "state_recv ops st ctx = (st', ctx') \<Longrightarrow> receiveds ctx = nr \<Longrightarrow>
      pipe_written io bo frame tx rx proto_ids st' sent \<and> (whole \<longrightarrow> pipe_taken io H bo tx rx I sc st' (received_messages ctx'))"
    and "state_ready ops st ctx events = (st', ctx') \<Longrightarrow>
      pipe_written io bo frame tx rx proto_ids st' sent \<and> (whole \<longrightarrow> pipe_taken io H bo tx rx I sc st' (received_messages ctx'))"
    and "state_open st ctx = (st', ctx') \<Longrightarrow>
      pipe_written io bo frame tx rx proto_ids st' sent \<and> (whole \<longrightarrow> pipe_taken io H bo tx rx I sc st' (received_messages ctx'))"
    and "state_close st ctx = (st', ctx') \<Longrightarrow>
      pipe_written io bo frame tx rx proto_ids st' sent \<and> (whole \<longrightarrow> pipe_taken io H bo tx rx I sc st' (received_messages ctx'))"
proof -
  let ?ok = "\<lambda>st sent ctx. pipe_written io bo frame tx rx proto_ids st sent \<and> (whole \<longrightarrow> pipe_taken io H bo tx rx I sc st (received_messages ctx))"
  have dead: "whole \<longrightarrow> (\<exists>rest. frames_of H bo I (received_messages ctx) rest)"
    using assms(2,3) frames_of_none taken_dead by (cases st) (auto simp: whole_handshake_def)
  show "?ok st' (sent @ [msg]) ctx'" if run: "state_send ops st ctx msg = (st', ctx')" and turn: "sents ctx = ns"
  proof (cases st)
    case (Active a)
    then have idle: "\<not> stub_has_pending_send ops (act_stub a)" using assms(1) turn by auto
    have st': "st' = Dead \<or> (\<exists>a'. st' = Active a')" using active_results(1) [of a ctx msg] run Active by simp
    show ?thesis
    proof (cases "st' = Dead")
      case True
      then show ?thesis using active_dead(1) [of I a ctx] run Active assms(3) by simp
    next
      case False
      then obtain a' where a': "st' = Active a'" using st' by blast
      then have "active_send ops a ctx msg = (Active a', ctx')" using run Active by simp
      note traffic = active_send_traffic [OF this idle]
      show ?thesis using traffic(1) [of "create_handshake bo (fst proto_ids)" sent] traffic(2) [of I] Active a' assms(3) by auto
    qed
  qed (use run dead in \<open>auto simp: method_defs\<close>)
  show "?ok st' sent ctx'" if run: "state_recv ops st ctx = (st', ctx')" and turn: "receiveds ctx = nr"
  proof (cases st)
    case (Active a)
    then have idle: "\<not> stub_has_pending_recv ops (act_stub a)" using assms(1) turn by auto
    have st': "st' = Dead \<or> (\<exists>a'. st' = Active a')" using active_results(2) [of a ctx] run Active by simp
    show ?thesis
    proof (cases "st' = Dead")
      case True
      then show ?thesis using active_dead(2) [of I a ctx] run Active assms(3) by simp
    next
      case False
      then obtain a' where a': "st' = Active a'" using st' by blast
      then have "active_recv ops a ctx = (Active a', ctx')" using run Active by simp
      note traffic = active_recv_traffic [OF this idle]
      show ?thesis using traffic(1) [of "create_handshake bo (fst proto_ids)" sent] traffic(2) [of I] Active a' assms(3) by auto
    qed
  qed (use run dead in \<open>auto simp: method_defs\<close>)
  show "?ok st' sent ctx'" if run: "state_ready ops st ctx events = (st', ctx')"
  proof (cases st)
    case (Active a)
    have st': "st' = Dead \<or> (\<exists>a'. st' = Active a')" using active_results(3) [of a ctx events] run Active by simp
    show ?thesis
    proof (cases "st' = Dead")
      case True
      then show ?thesis using active_dead(3) [of I a ctx] run Active assms(3) by simp
    next
      case False
      then obtain a' where a': "st' = Active a'" using st' by blast
      then have "active_ready ops a ctx events = (Active a', ctx')" using run Active by simp
      note traffic = active_ready_traffic [OF this]
      show ?thesis using traffic(1) [of "create_handshake bo (fst proto_ids)" sent] traffic(2) [of I] Active a' assms(3) by auto
    qed
  next
    case (HandshakeTx s ids)
    then show ?thesis using run assms(2,3) handshake_tx_traffic [of s ids ctx events st' ctx'] by (auto simp: whole_handshake_def)
  next
    case (HandshakeRx s ids)
    then show ?thesis using run assms(2,3) handshake_rx_traffic [of s ids ctx events st' ctx']
      by (auto simp del: pipe_written.simps pipe_taken.simps)
  qed (use run dead in \<open>auto simp: method_defs\<close>)
  show "?ok st' sent ctx'" if run: "state_open st ctx = (st', ctx')"
    using run assms(3) dead by (cases st) (auto simp: method_defs transition_def state_leave_def enter_defs into_defs)
  show "?ok st' sent ctx'" if run: "state_close st ctx = (st', ctx')"
    using run assms(3) dead by (cases st) (auto simp: method_defs)
qed

lemma step_traffic:
  assumes "pipe_state_cell p = Some st" and "account ops st ctx ns nr" and "whole_handshake I sc \<or> \<not> whole"
    and "pipe_written io bo frame tx rx proto_ids st sent \<and> (whole \<longrightarrow> pipe_taken io H bo tx rx I sc st (received_messages ctx))"
    and "pipe_step ops i (p, ctx) = (p', ctx')" and "is_send i \<longrightarrow> sents ctx = ns" and "i = Command PipeRecv \<longrightarrow> receiveds ctx = nr"
  shows "\<exists>st'. pipe_state_cell p' = Some st' \<and> pipe_written io bo frame tx rx proto_ids st' (sent @ sent_messages [i]) \<and>
    (whole \<longrightarrow> pipe_taken io H bo tx rx I sc st' (received_messages ctx'))"
  using assms(1,5-7) state_traffic [OF assms(2-4)]
  by (cases rule: pipe_input_cases [of i])
    (auto simp: sent_messages_def async_pipe_apply_def async_pipe_open_def async_pipe_close_def async_pipe_send_def async_pipe_recv_def
      async_pipe_ready_def simp del: pipe_written.simps pipe_taken.simps split: prod.splits)

lemma run_traffic:
  assumes "pipe_state_cell p = Some st" and "account ops st ctx ns nr" and "polite ops inputs (p, ctx) ns nr"
    and "whole_handshake I sc \<or> \<not> whole"
    and "pipe_written io bo frame tx rx proto_ids st sent \<and> (whole \<longrightarrow> pipe_taken io H bo tx rx I sc st (received_messages ctx))"
    and "pipe_run ops inputs (p, ctx) = (p', ctx')"
  shows "\<exists>st'. pipe_state_cell p' = Some st' \<and> pipe_written io bo frame tx rx proto_ids st' (sent @ sent_messages inputs) \<and>
    (whole \<longrightarrow> pipe_taken io H bo tx rx I sc st' (received_messages ctx'))"
  using assms
proof (induction inputs arbitrary: p st ctx ns nr sent)
  case (Cons i inputs)
  obtain p1 ctx1 where step: "pipe_step ops i (p, ctx) = (p1, ctx1)" by (cases "pipe_step ops i (p, ctx)")
  have turn: "is_send i \<longrightarrow> sents ctx = ns" "i = Command PipeRecv \<longrightarrow> receiveds ctx = nr" using Cons.prems(3) by auto
  obtain st1 where st1: "pipe_state_cell p1 = Some st1"
    "account ops st1 ctx1 (ns + of_bool (is_send i)) (nr + of_bool (i = Command PipeRecv))"
    using step_account [OF Cons.prems(1,2) step turn] by blast
  have wire: "pipe_written io bo frame tx rx proto_ids st1 (sent @ sent_messages [i]) \<and>
      (whole \<longrightarrow> pipe_taken io H bo tx rx I sc st1 (received_messages ctx1))"
    using step_traffic [OF Cons.prems(1,2,4,5) step turn] st1(1) by auto
  have "polite ops inputs (p1, ctx1) (ns + of_bool (is_send i)) (nr + of_bool (i = Command PipeRecv))"
    "pipe_run ops inputs (p1, ctx1) = (p', ctx')" using Cons.prems(3,6) step by (simp_all add: pipe_run_def)
  from Cons.IH [OF st1 this(1) Cons.prems(4) wire this(2)] show ?case
    by (simp add: sent_messages_def del: pipe_written.simps pipe_taken.simps)
qed (simp add: pipe_run_def sent_messages_def del: pipe_written.simps pipe_taken.simps)

text \<open>The bytes on the wire can be read as frames in one way only.\<close>

lemma frames_prefix:
  assumes "list_all2 (framed H bo) frs msgs" and "concat frs @ rest = concat (map frame past) @ part"
    and "\<forall>m \<in> set past. message_len m < 2 ^ 64"
    and "part = [] \<or> (\<exists>m k. message_len m < 2 ^ 64 \<and> k < length (frame m) \<and> part = take k (frame m))"
  shows "\<exists>n. msgs = map wire_message (take n past) \<and> rest = concat (map frame (drop n past)) @ part"
  using assms
proof (induction frs msgs arbitrary: past rule: list_all2_induct)
  case (Cons fr frs m msgs)
  show ?case
  proof (cases past)
    case Nil
    then have part: "part = fr @ concat frs @ rest" using Cons.prems(1) by simp
    have "H \<le> length fr" "fr \<noteq> []" using framedD(1) [OF Cons.hyps(1)] frame_framed header_size by auto
    then obtain m0 k where m0: "message_len m0 < 2 ^ 64" "k < length (frame m0)" "part = take k (frame m0)"
      using Cons.prems(3) part by auto
    have "fr @ (concat frs @ rest @ drop k (frame m0)) = frame m0 @ []"
      using part m0(3) append_take_drop_id [of k "frame m0"] by simp
    then have "concat frs @ rest @ drop k (frame m0) = []" using frames_agree [OF Cons.hyps(1) frame_framed [OF m0(1)]] by blast
    then show ?thesis using m0(2) by simp
  next
    case past: (Cons m0 past')
    have "fr @ (concat frs @ rest) = frame m0 @ (concat (map frame past') @ part)" using Cons.prems(1) past by simp
    then have agree: "m = wire_message m0" "concat frs @ rest = concat (map frame past') @ part"
      using frames_agree [OF Cons.hyps(1) frame_framed [of m0]] past Cons.prems(2) by (auto simp: wire_message_def)
    obtain n where "msgs = map wire_message (take n past')" "rest = concat (map frame (drop n past')) @ part"
      using Cons.IH [OF agree(2)] past Cons.prems(2,3) by auto
    then show ?thesis using agree(1) past by (intro exI [of _ "Suc n"]) simp
  qed
qed (auto intro!: exI [of _ 0])

text \<open>A pipe that was given its messages one at a time has put them on the wire one after the other.\<close>

lemma pipe_output:
  assumes "polite ops inputs (async_pipe_new s proto_ids, []) 0 0" and "pipe_run ops inputs (async_pipe_new s proto_ids, []) = (p, ctx)"
    and "tx s None" and "rx s None" and "st_out (io s) = []" and "pipe_state_cell p = Some (Active a)"
  shows "written io frame tx (create_handshake bo (fst proto_ids)) (act_stub a) (sent_messages inputs)"
proof -
  have "account ops (Initial s proto_ids) [] 0 0" using assms(3,4) tx_pending rx_pending by simp
  from run_traffic [OF _ this assms(1) _ _ assms(2), where sent = "[]" and whole = False and proto_ids = proto_ids]
  show ?thesis using assms(3-6) by (auto simp: async_pipe_new_def)
qed

lemma pipe_reads:
  assumes "polite ops inputs (async_pipe_new s proto_ids, []) 0 0" and "pipe_run ops inputs (async_pipe_new s proto_ids, []) = (p, ctx)"
    and "tx s None" and "rx s None" and "st_out (io s) = []" and "whole_handshake (st_in (io s)) (st_script (io s))"
  shows "\<exists>st. pipe_state_cell p = Some st \<and> pipe_taken io H bo tx rx (st_in (io s)) (st_script (io s)) st (received_messages ctx)"
proof -
  have "account ops (Initial s proto_ids) [] 0 0" using assms(3,4) tx_pending rx_pending by simp
  from run_traffic [OF _ this assms(1) _ _ assms(2), where sent = "[]" and whole = True and proto_ids = proto_ids
    and I = "st_in (io s)" and sc = "st_script (io s)"]
  show ?thesis using assms(3-6) by (auto simp: async_pipe_new_def)
qed

lemma pipe_input:
  assumes "polite ops inputs (async_pipe_new s proto_ids, []) 0 0" and "pipe_run ops inputs (async_pipe_new s proto_ids, []) = (p, ctx)"
    and "tx s None" and "rx s None" and "st_out (io s) = []" and "whole_handshake (st_in (io s)) (st_script (io s))"
  shows "\<exists>rest. frames_of H bo (st_in (io s)) (received_messages ctx) rest"
proof -
  obtain st where "pipe_taken io H bo tx rx (st_in (io s)) (st_script (io s)) st (received_messages ctx)" using pipe_reads [OF assms] by blast
  then show ?thesis using taken_dead [of io H bo rx] frames_of_none assms(6) by (cases st) (auto simp: whole_handshake_def)
qed

lemma pipe_input_active:
  assumes "polite ops inputs (async_pipe_new s proto_ids, []) 0 0" and "pipe_run ops inputs (async_pipe_new s proto_ids, []) = (p, ctx)"
    and "tx s None" and "rx s None" and "st_out (io s) = []" and "whole_handshake (st_in (io s)) (st_script (io s))"
    and "pipe_state_cell p = Some (Active a)"
  shows "in_ok (st_in (io s)) (act_stub a) (received_messages ctx)"
  using pipe_reads [OF assms(1-6)] assms(7) by auto

lemma frame_nonempty: "message_len m < 2 ^ 64 \<Longrightarrow> frame m \<noteq> []"
  using framedD(1) [OF frame_framed] header_size by fastforce

lemma delivered_in_order:
  assumes "polite ops inputs (async_pipe_new s proto_ids, []) 0 0" and "pipe_run ops inputs (async_pipe_new s proto_ids, []) = (p, ctx)"
    and "tx s None" "rx s None" "st_out (io s) = []" and "pipe_state_cell p = Some (Active a)"
    and "polite ops inputs' (async_pipe_new s' proto_ids', []) 0 0" and "pipe_run ops inputs' (async_pipe_new s' proto_ids', []) = (p', ctx')"
    and "tx s' None" "rx s' None" "st_out (io s') = []"
    and "st_in (io s') @ in_flight = st_out (io (act_stub a))" and "whole_handshake (st_in (io s')) (st_script (io s'))"
    and "\<forall>m \<in> set (sent_messages inputs). message_len m < 2 ^ 64"
  shows "\<exists>n. received_messages ctx' = map wire_message (take n (sent_messages inputs)) \<and>
    (all_read ops io in_flight a p' \<longrightarrow> n \<ge> length (sent_messages inputs))"
proof -
  let ?hs = "create_handshake bo (fst proto_ids)" and ?ms = "received_messages ctx'"
  have out0: "written io frame tx ?hs (act_stub a) (sent_messages inputs)" by (rule pipe_output [OF assms(1-6)])
  then obtain past part more where out: "st_out (io (act_stub a)) = ?hs @ concat (map frame past) @ part" "sent_messages inputs = past @ more"
    "part = [] \<or> (\<exists>m k. message_len m < 2 ^ 64 \<and> k < length (frame m) \<and> part = take k (frame m))"
    "\<not> stub_has_pending_send ops (act_stub a) \<Longrightarrow> part = [] \<and> more = []"
    using assms(14) tx_pending by (fastforce simp: written_def)
  have read: "\<exists>n. ?ms = map wire_message (take n past) \<and> rest @ in_flight = concat (map frame (drop n past)) @ part"
    if rest: "frames_of H bo (st_in (io s')) ?ms rest" for rest
  proof -
    obtain hs frs where inp: "length hs = 8" "st_in (io s') = hs @ concat frs @ rest" "list_all2 (framed H bo) frs ?ms"
      using rest by (auto simp: frames_of_def)
    have "concat frs @ (rest @ in_flight) = concat (map frame past) @ part"
      using assms(12) out(1) inp(1,2) length_create_handshake [OF order, of "fst proto_ids"] by simp
    then show ?thesis using frames_prefix [OF inp(3) _ _ out(3)] out(2) assms(14) by auto
  qed
  show ?thesis
  proof (cases "all_read ops io in_flight a p'")
    case False
    obtain n where "?ms = map wire_message (take n past)" using pipe_input [OF assms(7-11) assms(13)] read by blast
    then show ?thesis using False out(2) by (intro exI [of _ "min n (length past)"]) (simp add: min_def)
  next
    case True
    then obtain a' where a': "pipe_state_cell p' = Some (Active a')" "st_in (io (act_stub a')) = []" "\<not> stub_has_pending_recv ops (act_stub a')"
      "in_flight = []" "\<not> stub_has_pending_send ops (act_stub a)" by (auto simp: all_read_def)
    have "frames_of H bo (st_in (io s')) ?ms []" using pipe_input_active [OF assms(7-11) assms(13) a'(1)] taken_pending(1) a'(2,3) by fastforce
    then obtain n where n: "?ms = map wire_message (take n past)" "concat (map frame (drop n past)) = []" using read a'(4) by fastforce
    have "drop n past = []"
    proof (rule ccontr)
      assume "drop n past \<noteq> []"
      then obtain m where m: "m \<in> set (drop n past)" by (cases "drop n past") auto
      then have "frame m = []" using n(2) by simp
      then show False using frame_nonempty m out(2) assms(14) by (metis in_set_dropD UnCI set_append)
    qed
    then show ?thesis using n(1) out(2,4) a'(5) by (intro exI [of _ n]) simp
  qed
qed

end

section \<open>Properties\<close>

context network_order
begin

lemmas tcp_delivered = tcp_traffic.delivered_in_order

lemmas ipc_delivered = ipc_traffic.delivered_in_order

end

text \<open>
  (C6) Two connected TCP pipes carry messages in order, each at most once and unaltered: take any
  polite run of a sending pipe that leaves it active, and any polite run of a receiving pipe
  whose stream holds the bytes the first one wrote, but for those still in flight. The messages
  the receiver announced are the first ones the sender was given, header and body joined as they
  travel; and they are all of them once no send is pending, nothing is in flight and the receiver
  has read everything. The receiver may have failed meanwhile. Its handshake must have been read
  in one piece, which the code relies on and does not check.
\<close>

theorem tcp_pipes_deliver_in_order:
  assumes "big_endian bo" and "\<forall>m \<in> set (sent_messages inputs). message_len m < 2 ^ 64"
    and "polite (tcp_ops bo) inputs (async_pipe_new (tcp_stub_new tx limit) proto_ids, []) 0 0"
    and "pipe_run (tcp_ops bo) inputs (async_pipe_new (tcp_stub_new tx limit) proto_ids, []) = (p, ctx)"
    and "st_out tx = []" and "pipe_state_cell p = Some (Active a)"
    and "polite (tcp_ops bo) inputs' (async_pipe_new (tcp_stub_new rx limit') proto_ids', []) 0 0"
    and "pipe_run (tcp_ops bo) inputs' (async_pipe_new (tcp_stub_new rx limit') proto_ids', []) = (p', ctx')"
    and "st_out rx = []" and "st_in rx @ in_flight = st_out (tcp_stream (act_stub a))" and "whole_handshake (st_in rx) (st_script rx)"
  shows "\<exists>n. received_messages ctx' = map wire_message (take n (sent_messages inputs)) \<and>
    (all_read (tcp_ops bo) tcp_stream in_flight a p' \<longrightarrow> n \<ge> length (sent_messages inputs))"
  by (rule network_order.tcp_delivered [OF network_order.intro [OF assms(1)] assms(3,4) _ _ _ assms(6-8) _ _ _ _ _ assms(2)]; use assms(5,9-11) in \<open>simp add: tcp_stub_new_def\<close>)

text \<open>
  (C7) Two connected IPC pipes, whose frames begin with one more byte than those of TCP, carry
  messages in order, each at most once and unaltered: for polite runs of an active sender and of a
  receiver whose stream holds what the sender wrote, but for the bytes in flight, the messages
  the receiver announced are the first ones the sender was given, and all of them once no send is
  pending, nothing is in flight and the receiver has read everything.
\<close>

theorem ipc_pipes_deliver_in_order:
  assumes "big_endian bo" and "\<forall>m \<in> set (sent_messages inputs). message_len m < 2 ^ 64"
    and "polite (ipc_ops bo) inputs (async_pipe_new (ipc_stub_new tx limit) proto_ids, []) 0 0"
    and "pipe_run (ipc_ops bo) inputs (async_pipe_new (ipc_stub_new tx limit) proto_ids, []) = (p, ctx)"
    and "st_out tx = []" and "pipe_state_cell p = Some (Active a)"
    and "polite (ipc_ops bo) inputs' (async_pipe_new (ipc_stub_new rx limit') proto_ids', []) 0 0"
    and "pipe_run (ipc_ops bo) inputs' (async_pipe_new (ipc_stub_new rx limit') proto_ids', []) = (p', ctx')"
    and "st_out rx = []" and "st_in rx @ in_flight = st_out (ipc_stream (act_stub a))" and "whole_handshake (st_in rx) (st_script rx)"
  shows "\<exists>n. received_messages ctx' = map wire_message (take n (sent_messages inputs)) \<and>
    (all_read (ipc_ops bo) ipc_stream in_flight a p' \<longrightarrow> n \<ge> length (sent_messages inputs))"
  by (rule network_order.ipc_delivered [OF network_order.intro [OF assms(1)] assms(3,4) _ _ _ assms(6-8) _ _ _ _ _ assms(2)]; use assms(5,9-11) in \<open>simp add: ipc_stub_new_def\<close>)

text \<open>
  Witnesses: a pipe sends one message, and a pipe whose stream holds all the bytes receives it.
\<close>

definition demo_rx_inputs :: "pipe_input list" where
  "demo_rx_inputs = [Command PipeOpen, Notify {Writable}, Notify {Readable}, Notify {Readable}, Command PipeRecv]"

definition demo_rx_stream :: "u8 list \<Rightarrow> stream" where
  "demo_rx_stream bs = \<lparr>st_in = create_handshake be_instance 49 @ bs, st_out = [], st_script = [Progress 8, Progress 8, Progress 100, Progress 100]\<rparr>"

definition demo_rx_pipe :: "tcp_pipe_stub async_pipe" where
  "demo_rx_pipe = async_pipe_new (tcp_stub_new (demo_rx_stream (tcp_frame be_instance demo_message)) 0) (48, 49)"

lemmas tcp_rx_eval = demo_rx_pipe_def demo_rx_inputs_def demo_rx_stream_def tcp_frame_def active_recv_def on_recv_progress_def on_msg_received_def
  tcp_start_recv_def tcp_run_recv_operation_def tcp_recv_run_def tcp_recv_new_def tcp_recv_resume_at.simps tcp_read_header_def
  tcp_read_payload_def read_buffer_def from_body_def

lemma demo_rx_polite: "polite (tcp_ops be_instance) demo_rx_inputs (demo_rx_pipe, []) 0 0"
  by (simp add: pipe_eval tcp_rx_eval Let_def)

lemma demo_tx_run:
  "\<exists>a ctx. pipe_run (tcp_ops be_instance) demo_inputs (demo_pipe, []) = (\<lparr>pipe_state_cell = Some (Active a)\<rparr>, ctx) \<and>
     st_out (tcp_stream (act_stub a)) = create_handshake be_instance 49 @ tcp_frame be_instance demo_message \<and> tcp_send_op (act_stub a) = None"
  by (simp add: pipe_eval tcp_frame_def Let_def)

lemma demo_rx_run:
  "\<exists>a ctx. pipe_run (tcp_ops be_instance) demo_rx_inputs (demo_rx_pipe, []) = (\<lparr>pipe_state_cell = Some (Active a)\<rparr>, ctx) \<and>
     st_in (tcp_stream (act_stub a)) = [] \<and> tcp_recv_op (act_stub a) = None"
  by (simp add: pipe_eval tcp_rx_eval Let_def)

lemma demo_rx_whole: "whole_handshake (st_in (demo_rx_stream bs)) (st_script (demo_rx_stream bs))" "st_out (demo_rx_stream bs) = []"
  by (simp_all add: whole_handshake_def demo_rx_stream_def length_create_handshake)

lemma demo_sent: "sent_messages demo_inputs = [demo_message]"
  by (simp add: sent_messages_def demo_inputs_def)

theorem tcp_pipes_deliver_in_order_witness:
  "received_messages (snd (pipe_run (tcp_ops be_instance) demo_rx_inputs (demo_rx_pipe, []))) = [from_body [1, 2, 65, 66, 67]]"
proof -
  obtain a ctx where tx: "pipe_run (tcp_ops be_instance) demo_inputs (demo_pipe, []) = (\<lparr>pipe_state_cell = Some (Active a)\<rparr>, ctx)"
    "st_out (tcp_stream (act_stub a)) = create_handshake be_instance 49 @ tcp_frame be_instance demo_message" "tcp_send_op (act_stub a) = None"
    using demo_tx_run by blast
  obtain a' ctx' where rx: "pipe_run (tcp_ops be_instance) demo_rx_inputs (demo_rx_pipe, []) = (\<lparr>pipe_state_cell = Some (Active a')\<rparr>, ctx')"
    "st_in (tcp_stream (act_stub a')) = []" "tcp_recv_op (act_stub a') = None"
    using demo_rx_run by blast
  have "all_read (tcp_ops be_instance) tcp_stream [] a \<lparr>pipe_state_cell = Some (Active a')\<rparr>"
    using tx(3) rx(2,3) by (simp add: all_read_def tcp_ops_def tcp_has_pending_send_def tcp_has_pending_recv_def)
  then have "received_messages ctx' = map wire_message [demo_message]"
    using tcp_pipes_deliver_in_order [OF big_endian_instance _ demo_pipe_polite [unfolded demo_pipe_def] tx(1) [unfolded demo_pipe_def] _ _
      demo_rx_polite [unfolded demo_rx_pipe_def] rx(1) [unfolded demo_rx_pipe_def] demo_rx_whole(2) _ demo_rx_whole(1), of a "[]"] tx(2)
    by (auto simp: demo_sent demo_pipe_stream_def demo_rx_stream_def demo_message_def message_len_def)
  then show ?thesis using rx(1) by (simp add: wire_message_def demo_message_def)
qed

definition ipc_tx_pipe :: "ipc_pipe_stub async_pipe" where
  "ipc_tx_pipe = async_pipe_new (ipc_stub_new \<lparr>st_in = create_handshake be_instance 48, st_out = [],
     st_script = [Progress 8, Progress 8, Progress 100, Progress 100, Progress 100]\<rparr> 0) (49, 48)"

definition ipc_rx_pipe :: "ipc_pipe_stub async_pipe" where
  "ipc_rx_pipe = async_pipe_new (ipc_stub_new (demo_rx_stream (ipc_frame be_instance demo_message)) 0) (48, 49)"

lemmas ipc_eval = ipc_tx_pipe_def ipc_rx_pipe_def demo_rx_inputs_def demo_rx_stream_def ipc_frame_def ipc_stub_new_def ipc_ops_def
  ipc_start_send_def ipc_run_send_operation_def ipc_send_run_def ipc_send_new_def ipc_send_resume_at.simps ipc_write_transport_hdr_def
  ipc_write_protocol_hdr_def ipc_write_usr_payload_def write_buffer_def ipc_send_handshake_def ipc_recv_handshake_def
  ipc_has_pending_send_def ipc_has_pending_recv_def active_recv_def on_recv_progress_def on_msg_received_def
  ipc_start_recv_def ipc_run_recv_operation_def ipc_recv_run_def ipc_recv_new_def ipc_recv_resume_at.simps ipc_read_header_def
  ipc_read_payload_def read_buffer_def from_body_def

lemma ipc_demo_polite:
  "polite (ipc_ops be_instance) demo_inputs (ipc_tx_pipe, []) 0 0" "polite (ipc_ops be_instance) demo_rx_inputs (ipc_rx_pipe, []) 0 0"
  by (simp_all add: pipe_eval ipc_eval Let_def)

lemma ipc_tx_run:
  "\<exists>a ctx. pipe_run (ipc_ops be_instance) demo_inputs (ipc_tx_pipe, []) = (\<lparr>pipe_state_cell = Some (Active a)\<rparr>, ctx) \<and>
     st_out (ipc_stream (act_stub a)) = create_handshake be_instance 49 @ ipc_frame be_instance demo_message \<and> ipc_send_op (act_stub a) = None"
  by (simp add: pipe_eval ipc_eval Let_def)

lemma ipc_rx_run:
  "\<exists>a ctx. pipe_run (ipc_ops be_instance) demo_rx_inputs (ipc_rx_pipe, []) = (\<lparr>pipe_state_cell = Some (Active a)\<rparr>, ctx) \<and>
     st_in (ipc_stream (act_stub a)) = [] \<and> ipc_recv_op (act_stub a) = None"
  by (simp add: pipe_eval ipc_eval Let_def)

theorem ipc_pipes_deliver_in_order_witness:
  "received_messages (snd (pipe_run (ipc_ops be_instance) demo_rx_inputs (ipc_rx_pipe, []))) = [from_body [1, 2, 65, 66, 67]]"
proof -
  obtain a ctx where tx: "pipe_run (ipc_ops be_instance) demo_inputs (ipc_tx_pipe, []) = (\<lparr>pipe_state_cell = Some (Active a)\<rparr>, ctx)"
    "st_out (ipc_stream (act_stub a)) = create_handshake be_instance 49 @ ipc_frame be_instance demo_message" "ipc_send_op (act_stub a) = None"
    using ipc_tx_run by blast
  obtain a' ctx' where rx: "pipe_run (ipc_ops be_instance) demo_rx_inputs (ipc_rx_pipe, []) = (\<lparr>pipe_state_cell = Some (Active a')\<rparr>, ctx')"
    "st_in (ipc_stream (act_stub a')) = []" "ipc_recv_op (act_stub a') = None"
    using ipc_rx_run by blast
  have "all_read (ipc_ops be_instance) ipc_stream [] a \<lparr>pipe_state_cell = Some (Active a')\<rparr>"
    using tx(3) rx(2,3) by (simp add: all_read_def ipc_ops_def ipc_has_pending_send_def ipc_has_pending_recv_def)
  then have "received_messages ctx' = map wire_message [demo_message]"
    using ipc_pipes_deliver_in_order [OF big_endian_instance _ ipc_demo_polite(1) [unfolded ipc_tx_pipe_def] tx(1) [unfolded ipc_tx_pipe_def] _ _
      ipc_demo_polite(2) [unfolded ipc_rx_pipe_def] rx(1) [unfolded ipc_rx_pipe_def] demo_rx_whole(2) _ demo_rx_whole(1), of a "[]"] tx(2)
    by (auto simp: demo_sent demo_rx_stream_def demo_message_def message_len_def)
  then show ?thesis using rx(1) by (simp add: wire_message_def demo_message_def)
qed

end
