(* ===== verification/Transport_Acceptor.thy ===== *)
theory Transport_Acceptor
  imports Transport_Pipe
begin

text \<open>
  The transports of \<open>src/transport/mod.rs\<close>, \<open>src/transport/tcp/mod.rs\<close> and
  \<open>src/transport/ipc/unix/mod.rs\<close>, and their acceptors (\<open>src/transport/acceptor.rs\<close>,
  \<open>tcp/acceptor.rs\<close>, \<open>ipc/unix/acceptor.rs\<close>). The operating system is a record of the calls the
  code makes, over an opaque state; a listener is the sequence of answers its \<open>accept\<close> will
  give. The accept loop ends when the listener would block, so it is a partial function, and its
  value is \<open>None\<close> when it never ends.
\<close>

section \<open>Data\<close>

text \<open>The pipes of the two transports behind \<open>dyn Pipe\<close>, and the destination of a connection.\<close>

datatype transport_pipe =
    TcpPipe "tcp_pipe_stub async_pipe"
  | IpcPipe "ipc_pipe_stub async_pipe"

record destination =
  dest_addr :: string
  dest_pids :: "u16 \<times> u16"
  dest_tcp_no_delay :: bool
  dest_recv_max_size :: u64

datatype acceptor_command = AcceptorOpen | AcceptorClose

datatype 'e acceptor_event =
    AcceptorOpened
  | AcceptorClosed
  | Accepted "'e list"
  | AcceptorError io_error

datatype 'e acceptor_effect =
    AcceptorRegister ready_set poll_opt
  | AcceptorDeregister
  | AcceptorRaise "'e acceptor_event"

type_synonym 'e acceptor_ctx = "'e acceptor_effect list"

definition acceptor_raise :: "'e acceptor_event \<Rightarrow> 'e acceptor_ctx \<Rightarrow> 'e acceptor_ctx" where
  "acceptor_raise evt ctx = ctx @ [AcceptorRaise evt]"

section \<open>The operating system\<close>

text \<open>
  \<open>'r\<close> is what one call of \<open>accept\<close> returns. An address accepted by \<open>SocketAddr::from_str\<close> is
  kept as text.
\<close>

record 'r listener =
  ls_answers :: "nat \<Rightarrow> 'r"
  ls_cursor :: nat

definition listener_accept :: "'r listener \<Rightarrow> 'r \<times> 'r listener" where
  "listener_accept l = (ls_answers l (ls_cursor l), l\<lparr>ls_cursor := Suc (ls_cursor l)\<rparr>)"

type_synonym tcp_listener = "(io_error + stream) listener"
type_synonym unix_listener = "(io_error + stream option) listener"

record 'w os =
  os_parse_addr :: "string \<Rightarrow> string option"
  os_tcp_connect :: "'w \<Rightarrow> string \<Rightarrow> (io_error + stream) \<times> 'w"
  os_tcp_bind :: "'w \<Rightarrow> string \<Rightarrow> (io_error + tcp_listener) \<times> 'w"
  os_set_nodelay :: "stream \<Rightarrow> bool \<Rightarrow> (io_error + unit) \<times> stream"
  os_unix_connect :: "'w \<Rightarrow> string \<Rightarrow> (io_error + stream) \<times> 'w"
  os_unix_bind :: "'w \<Rightarrow> string \<Rightarrow> (io_error + unix_listener) \<times> 'w"
  os_is_socket :: "'w \<Rightarrow> string \<Rightarrow> io_error + bool"
  os_remove_file :: "'w \<Rightarrow> string \<Rightarrow> (io_error + unit) \<times> 'w"

section \<open>The TCP acceptor\<close>

record tcp_acceptor =
  ta_listener :: tcp_listener
  ta_proto_ids :: "u16 \<times> u16"
  ta_no_delay :: bool
  ta_recv_max_size :: u64

definition tcp_acceptor_new :: "tcp_listener \<Rightarrow> destination \<Rightarrow> tcp_acceptor" where
  "tcp_acceptor_new l dest = \<lparr>ta_listener = l, ta_proto_ids = dest_pids dest, ta_no_delay = dest_tcp_no_delay dest,
     ta_recv_max_size = dest_recv_max_size dest\<rparr>"

definition tcp_create_pipe :: "tcp_acceptor \<Rightarrow> stream \<Rightarrow> transport_pipe" where
  "tcp_create_pipe a s = TcpPipe (async_pipe_new (tcp_stub_new s (ta_recv_max_size a)) (ta_proto_ids a))"

partial_function (option) tcp_accept_loop ::
  "'w os \<Rightarrow> tcp_acceptor \<Rightarrow> transport_pipe list \<Rightarrow> transport_pipe acceptor_ctx \<Rightarrow>
   (tcp_acceptor \<times> transport_pipe list \<times> transport_pipe acceptor_ctx) option" where
  "tcp_accept_loop os a pipes ctx =
     (let (answer, l) = listener_accept (ta_listener a);
          a' = a\<lparr>ta_listener := l\<rparr>
      in (case answer of
            Inr s \<Rightarrow>
              (let (_, s') = os_set_nodelay os s (ta_no_delay a)
               in tcp_accept_loop os a' (pipes @ [tcp_create_pipe a s']) ctx)
          | Inl e \<Rightarrow>
              (if error_kind e = WouldBlock then Some (a', pipes, ctx)
               else tcp_accept_loop os a' pipes (acceptor_raise (AcceptorError e) ctx))))"

definition tcp_accept ::
  "'w os \<Rightarrow> tcp_acceptor \<Rightarrow> transport_pipe acceptor_ctx \<Rightarrow> (tcp_acceptor \<times> transport_pipe acceptor_ctx) option" where
  "tcp_accept os a ctx = do {
     (a', pipes, ctx') \<leftarrow> tcp_accept_loop os a [] ctx;
     Some (a', if pipes \<noteq> [] then acceptor_raise (Accepted pipes) ctx' else ctx') }"

definition tcp_acceptor_ready ::
  "'w os \<Rightarrow> tcp_acceptor \<Rightarrow> transport_pipe acceptor_ctx \<Rightarrow> ready_set \<Rightarrow> (tcp_acceptor \<times> transport_pipe acceptor_ctx) option" where
  "tcp_acceptor_ready os a ctx events = (if Readable \<in> events then tcp_accept os a ctx else Some (a, ctx))"

definition tcp_acceptor_open :: "tcp_acceptor \<Rightarrow> 'e acceptor_ctx \<Rightarrow> tcp_acceptor \<times> 'e acceptor_ctx" where
  "tcp_acceptor_open a ctx = (a, acceptor_raise AcceptorOpened (ctx @ [AcceptorRegister {Readable} EdgeTriggered]))"

definition tcp_acceptor_close :: "tcp_acceptor \<Rightarrow> 'e acceptor_ctx \<Rightarrow> tcp_acceptor \<times> 'e acceptor_ctx" where
  "tcp_acceptor_close a ctx = (a, acceptor_raise AcceptorClosed (ctx @ [AcceptorDeregister]))"

section \<open>The IPC acceptor\<close>

record ipc_acceptor =
  ia_listener :: unix_listener
  ia_proto_ids :: "u16 \<times> u16"
  ia_recv_max_size :: u64

definition ipc_acceptor_new :: "unix_listener \<Rightarrow> u16 \<times> u16 \<Rightarrow> u64 \<Rightarrow> ipc_acceptor" where
  "ipc_acceptor_new l proto_ids limit = \<lparr>ia_listener = l, ia_proto_ids = proto_ids, ia_recv_max_size = limit\<rparr>"

definition ipc_create_pipe :: "ipc_acceptor \<Rightarrow> stream \<Rightarrow> transport_pipe" where
  "ipc_create_pipe a s = IpcPipe (async_pipe_new (ipc_stub_new s (ia_recv_max_size a)) (ia_proto_ids a))"

partial_function (option) ipc_accept_loop ::
  "ipc_acceptor \<Rightarrow> transport_pipe list \<Rightarrow> transport_pipe acceptor_ctx \<Rightarrow>
   (ipc_acceptor \<times> transport_pipe list \<times> transport_pipe acceptor_ctx) option" where
  "ipc_accept_loop a pipes ctx =
     (let (answer, l) = listener_accept (ia_listener a);
          a' = a\<lparr>ia_listener := l\<rparr>
      in (case answer of
            Inr (Some s) \<Rightarrow> ipc_accept_loop a' (pipes @ [ipc_create_pipe a s]) ctx
          | Inr None \<Rightarrow> Some (a', pipes, ctx)
          | Inl e \<Rightarrow>
              (if error_kind e = WouldBlock then Some (a', pipes, ctx)
               else ipc_accept_loop a' pipes (acceptor_raise (AcceptorError e) ctx))))"

definition ipc_accept :: "ipc_acceptor \<Rightarrow> transport_pipe acceptor_ctx \<Rightarrow> (ipc_acceptor \<times> transport_pipe acceptor_ctx) option" where
  "ipc_accept a ctx = do {
     (a', pipes, ctx') \<leftarrow> ipc_accept_loop a [] ctx;
     Some (a', if pipes \<noteq> [] then acceptor_raise (Accepted pipes) ctx' else ctx') }"

definition ipc_acceptor_ready ::
  "ipc_acceptor \<Rightarrow> transport_pipe acceptor_ctx \<Rightarrow> ready_set \<Rightarrow> (ipc_acceptor \<times> transport_pipe acceptor_ctx) option" where
  "ipc_acceptor_ready a ctx events = (if Readable \<in> events then ipc_accept a ctx else Some (a, ctx))"

definition ipc_acceptor_open :: "ipc_acceptor \<Rightarrow> 'e acceptor_ctx \<Rightarrow> ipc_acceptor \<times> 'e acceptor_ctx" where
  "ipc_acceptor_open a ctx = (a, acceptor_raise AcceptorOpened (ctx @ [AcceptorRegister {Readable} EdgeTriggered]))"

definition ipc_acceptor_close :: "ipc_acceptor \<Rightarrow> 'e acceptor_ctx \<Rightarrow> ipc_acceptor \<times> 'e acceptor_ctx" where
  "ipc_acceptor_close a ctx = (a, acceptor_raise AcceptorClosed (ctx @ [AcceptorDeregister]))"

section \<open>The transports\<close>

datatype transport_acceptor = TcpAcceptor tcp_acceptor | IpcAcceptor ipc_acceptor

text \<open>The trait \<open>Transport\<close>, for any type of pipes and acceptors.\<close>

record ('e, 'a, 'w) transport =
  tr_connect :: "'w \<Rightarrow> destination \<Rightarrow> (io_error + 'e) \<times> 'w"
  tr_bind :: "'w \<Rightarrow> destination \<Rightarrow> (io_error + 'a) \<times> 'w"

definition tcp_connect_addr :: "'w os \<Rightarrow> 'w \<Rightarrow> string \<Rightarrow> destination \<Rightarrow> (io_error + transport_pipe) \<times> 'w" where
  "tcp_connect_addr os w addr dest =
     (case os_tcp_connect os w addr of
        (Inl e, w') \<Rightarrow> (Inl e, w')
      | (Inr s, w') \<Rightarrow>
          (case os_set_nodelay os s (dest_tcp_no_delay dest) of
             (Inl e, _) \<Rightarrow> (Inl e, w')
           | (Inr _, s') \<Rightarrow>
               (Inr (TcpPipe (async_pipe_new (tcp_stub_new s' (dest_recv_max_size dest)) (dest_pids dest))), w')))"

definition tcp_bind_addr :: "'w os \<Rightarrow> 'w \<Rightarrow> string \<Rightarrow> destination \<Rightarrow> (io_error + transport_acceptor) \<times> 'w" where
  "tcp_bind_addr os w addr dest =
     (case os_tcp_bind os w addr of
        (Inl e, w') \<Rightarrow> (Inl e, w')
      | (Inr l, w') \<Rightarrow> (Inr (TcpAcceptor (tcp_acceptor_new l dest)), w'))"

definition tcp_connect :: "'w os \<Rightarrow> 'w \<Rightarrow> destination \<Rightarrow> (io_error + transport_pipe) \<times> 'w" where
  "tcp_connect os w dest =
     (case os_parse_addr os (dest_addr dest) of
        Some addr \<Rightarrow> tcp_connect_addr os w addr dest
      | None \<Rightarrow> (Inl (invalid_input_io_error (dest_addr dest)), w))"

definition tcp_bind :: "'w os \<Rightarrow> 'w \<Rightarrow> destination \<Rightarrow> (io_error + transport_acceptor) \<times> 'w" where
  "tcp_bind os w dest =
     (case os_parse_addr os (dest_addr dest) of
        Some addr \<Rightarrow> tcp_bind_addr os w addr dest
      | None \<Rightarrow> (Inl (invalid_input_io_error (dest_addr dest)), w))"

definition ipc_connect :: "'w os \<Rightarrow> 'w \<Rightarrow> destination \<Rightarrow> (io_error + transport_pipe) \<times> 'w" where
  "ipc_connect os w dest =
     (case os_unix_connect os w (dest_addr dest) of
        (Inl e, w') \<Rightarrow> (Inl e, w')
      | (Inr s, w') \<Rightarrow>
          (Inr (IpcPipe (async_pipe_new (ipc_stub_new s (dest_recv_max_size dest)) (dest_pids dest))), w'))"

text \<open>A stale socket file is removed first; any other file is left for \<open>bind\<close> to complain about.\<close>

definition ipc_bind_listener :: "'w os \<Rightarrow> 'w \<Rightarrow> destination \<Rightarrow> (io_error + transport_acceptor) \<times> 'w" where
  "ipc_bind_listener os w dest =
     (case os_unix_bind os w (dest_addr dest) of
        (Inl e, w') \<Rightarrow> (Inl e, w')
      | (Inr l, w') \<Rightarrow> (Inr (IpcAcceptor (ipc_acceptor_new l (dest_pids dest) (dest_recv_max_size dest))), w'))"

definition ipc_bind :: "'w os \<Rightarrow> 'w \<Rightarrow> destination \<Rightarrow> (io_error + transport_acceptor) \<times> 'w" where
  "ipc_bind os w dest =
     (case os_is_socket os w (dest_addr dest) of
        Inr True \<Rightarrow>
          (case os_remove_file os w (dest_addr dest) of
             (Inl e, w') \<Rightarrow> (Inl e, w')
           | (Inr _, w') \<Rightarrow> ipc_bind_listener os w' dest)
      | _ \<Rightarrow> ipc_bind_listener os w dest)"

definition tcp_transport :: "'w os \<Rightarrow> (transport_pipe, transport_acceptor, 'w) transport" where
  "tcp_transport os = \<lparr>tr_connect = tcp_connect os, tr_bind = tcp_bind os\<rparr>"

definition ipc_transport :: "'w os \<Rightarrow> (transport_pipe, transport_acceptor, 'w) transport" where
  "ipc_transport os = \<lparr>tr_connect = ipc_connect os, tr_bind = ipc_bind os\<rparr>"

section \<open>Dynamic dispatch\<close>

text \<open>The methods of \<open>dyn Pipe\<close> and \<open>dyn Acceptor\<close>, and the ones of the two transports.\<close>

record 'e pipe_ops =
  po_ready :: "'e \<Rightarrow> pipe_ctx \<Rightarrow> ready_set \<Rightarrow> 'e \<times> pipe_ctx"
  po_open :: "'e \<Rightarrow> pipe_ctx \<Rightarrow> 'e \<times> pipe_ctx"
  po_close :: "'e \<Rightarrow> pipe_ctx \<Rightarrow> 'e \<times> pipe_ctx"
  po_send :: "'e \<Rightarrow> pipe_ctx \<Rightarrow> message \<Rightarrow> 'e \<times> pipe_ctx"
  po_recv :: "'e \<Rightarrow> pipe_ctx \<Rightarrow> 'e \<times> pipe_ctx"

record ('e, 'a) acceptor_ops =
  ao_ready :: "'a \<Rightarrow> 'e acceptor_ctx \<Rightarrow> ready_set \<Rightarrow> ('a \<times> 'e acceptor_ctx) option"
  ao_open :: "'a \<Rightarrow> 'e acceptor_ctx \<Rightarrow> 'a \<times> 'e acceptor_ctx"
  ao_close :: "'a \<Rightarrow> 'e acceptor_ctx \<Rightarrow> 'a \<times> 'e acceptor_ctx"

fun transport_pipe_step :: "byteorder \<Rightarrow> pipe_input \<Rightarrow> transport_pipe \<Rightarrow> pipe_ctx \<Rightarrow> transport_pipe \<times> pipe_ctx" where
  "transport_pipe_step bo i (TcpPipe p) ctx = map_prod TcpPipe id (pipe_step (tcp_ops bo) i (p, ctx))"
| "transport_pipe_step bo i (IpcPipe p) ctx = map_prod IpcPipe id (pipe_step (ipc_ops bo) i (p, ctx))"

definition transport_pipe_ops :: "byteorder \<Rightarrow> transport_pipe pipe_ops" where
  "transport_pipe_ops bo = \<lparr>
     po_ready = \<lambda>p ctx events. transport_pipe_step bo (Notify events) p ctx,
     po_open = transport_pipe_step bo (Command PipeOpen),
     po_close = transport_pipe_step bo (Command PipeClose),
     po_send = \<lambda>p ctx msg. transport_pipe_step bo (Command (PipeSend msg)) p ctx,
     po_recv = transport_pipe_step bo (Command PipeRecv)\<rparr>"

fun transport_acceptor_ready ::
  "'w os \<Rightarrow> transport_acceptor \<Rightarrow> transport_pipe acceptor_ctx \<Rightarrow> ready_set \<Rightarrow>
   (transport_acceptor \<times> transport_pipe acceptor_ctx) option" where
  "transport_acceptor_ready os (TcpAcceptor a) ctx events = map_option (map_prod TcpAcceptor id) (tcp_acceptor_ready os a ctx events)"
| "transport_acceptor_ready os (IpcAcceptor a) ctx events = map_option (map_prod IpcAcceptor id) (ipc_acceptor_ready a ctx events)"

fun transport_acceptor_open :: "transport_acceptor \<Rightarrow> 'e acceptor_ctx \<Rightarrow> transport_acceptor \<times> 'e acceptor_ctx" where
  "transport_acceptor_open (TcpAcceptor a) ctx = map_prod TcpAcceptor id (tcp_acceptor_open a ctx)"
| "transport_acceptor_open (IpcAcceptor a) ctx = map_prod IpcAcceptor id (ipc_acceptor_open a ctx)"

fun transport_acceptor_close :: "transport_acceptor \<Rightarrow> 'e acceptor_ctx \<Rightarrow> transport_acceptor \<times> 'e acceptor_ctx" where
  "transport_acceptor_close (TcpAcceptor a) ctx = map_prod TcpAcceptor id (tcp_acceptor_close a ctx)"
| "transport_acceptor_close (IpcAcceptor a) ctx = map_prod IpcAcceptor id (ipc_acceptor_close a ctx)"

definition transport_acceptor_ops :: "'w os \<Rightarrow> (transport_pipe, transport_acceptor) acceptor_ops" where
  "transport_acceptor_ops os = \<lparr>ao_ready = transport_acceptor_ready os, ao_open = transport_acceptor_open,
     ao_close = transport_acceptor_close\<rparr>"

section \<open>The accept loop\<close>

text \<open>
  What one round of the loop does, and the contract of a loop that makes such rounds: it
  unfolds round by round, and when it returns some round was the last one.
\<close>

datatype 'e round = Enough | Incoming 'e | Failing io_error

fun incoming :: "'e round \<Rightarrow> 'e list" where
  "incoming (Incoming p) = [p]"
| "incoming _ = []"

fun failing :: "'e round \<Rightarrow> 'e acceptor_ctx" where
  "failing (Failing e) = [AcceptorRaise (AcceptorError e)]"
| "failing _ = []"

definition rounds :: "('a \<Rightarrow> 'e round) \<Rightarrow> ('a \<Rightarrow> 'a) \<Rightarrow> 'a \<Rightarrow> nat \<Rightarrow> 'e round list" where
  "rounds verdict advance a n = map (\<lambda>i. verdict ((advance ^^ i) a)) [0..<n]"

lemma rounds_Suc: "rounds verdict advance a (Suc n) = verdict a # rounds verdict advance (advance a) n"
  by (simp add: rounds_def upt_conv_Cons map_Suc_upt [symmetric] funpow_swap1 del: upt_Suc)

locale accepting =
  fixes verdict :: "'a \<Rightarrow> 'e round"
    and advance :: "'a \<Rightarrow> 'a"
    and loop :: "'a \<Rightarrow> 'e list \<Rightarrow> 'e acceptor_ctx \<Rightarrow> ('a \<times> 'e list \<times> 'e acceptor_ctx) option"
  assumes unfold: "loop a pipes ctx = (case verdict a of
      Enough \<Rightarrow> Some (advance a, pipes, ctx)
    | Incoming p \<Rightarrow> loop (advance a) (pipes @ [p]) ctx
    | Failing e \<Rightarrow> loop (advance a) pipes (acceptor_raise (AcceptorError e) ctx))"
    and stops: "loop a pipes ctx = Some r \<Longrightarrow> \<exists>n. verdict ((advance ^^ n) a) = Enough"
begin

lemma loop_runs:
  assumes "verdict ((advance ^^ n) a) = Enough" and "\<forall>i < n. verdict ((advance ^^ i) a) \<noteq> Enough"
  shows "loop a pipes ctx = Some ((advance ^^ Suc n) a,
    pipes @ concat (map incoming (rounds verdict advance a n)), ctx @ concat (map failing (rounds verdict advance a n)))"
  using assms
proof (induction n arbitrary: a pipes ctx)
  case 0
  then show ?case by (subst unfold) (simp add: rounds_def)
next
  case (Suc n)
  have "verdict a \<noteq> Enough" using Suc.prems(2) by (auto dest: spec [of _ 0])
  moreover have "verdict ((advance ^^ n) (advance a)) = Enough" "\<forall>i < n. verdict ((advance ^^ i) (advance a)) \<noteq> Enough"
    using Suc.prems by (auto simp: funpow_swap1 dest: spec [of _ "Suc _"])
  note Suc.IH [OF this]
  ultimately show ?case
    by (subst unfold) (cases "verdict a"; simp add: rounds_Suc funpow_swap1 acceptor_raise_def)
qed

lemma loop_returns_iff: "(\<exists>r. loop a pipes ctx = Some r) \<longleftrightarrow> (\<exists>n. verdict ((advance ^^ n) a) = Enough)"
proof
  assume "\<exists>n. verdict ((advance ^^ n) a) = Enough"
  then obtain n where "verdict ((advance ^^ n) a) = Enough" "\<forall>i < n. verdict ((advance ^^ i) a) \<noteq> Enough"
    using exists_least_iff [of "\<lambda>n. verdict ((advance ^^ n) a) = Enough"] by blast
  from loop_runs [OF this] show "\<exists>r. loop a pipes ctx = Some r" by blast
qed (use stops in blast)

end

text \<open>The rounds of the two acceptors.\<close>

definition tcp_verdict :: "'w os \<Rightarrow> tcp_acceptor \<Rightarrow> transport_pipe round" where
  "tcp_verdict os a = (case ls_answers (ta_listener a) (ls_cursor (ta_listener a)) of
     Inr s \<Rightarrow> Incoming (tcp_create_pipe a (snd (os_set_nodelay os s (ta_no_delay a))))
   | Inl e \<Rightarrow> if error_kind e = WouldBlock then Enough else Failing e)"

definition tcp_advance :: "tcp_acceptor \<Rightarrow> tcp_acceptor" where
  "tcp_advance a = a\<lparr>ta_listener := snd (listener_accept (ta_listener a))\<rparr>"

definition ipc_verdict :: "ipc_acceptor \<Rightarrow> transport_pipe round" where
  "ipc_verdict a = (case ls_answers (ia_listener a) (ls_cursor (ia_listener a)) of
     Inr (Some s) \<Rightarrow> Incoming (ipc_create_pipe a s)
   | Inr None \<Rightarrow> Enough
   | Inl e \<Rightarrow> if error_kind e = WouldBlock then Enough else Failing e)"

definition ipc_advance :: "ipc_acceptor \<Rightarrow> ipc_acceptor" where
  "ipc_advance a = a\<lparr>ia_listener := snd (listener_accept (ia_listener a))\<rparr>"

text \<open>The body of each loop, over any function in place of the recursive call, makes one round.\<close>

lemma tcp_round:
  "(let (answer, l) = listener_accept (ta_listener a); a' = a\<lparr>ta_listener := l\<rparr>
    in (case answer of
          Inl e \<Rightarrow> (if error_kind e = WouldBlock then Some (a', pipes, ctx)
             else f a' pipes (acceptor_raise (AcceptorError e) ctx))
        | Inr s \<Rightarrow> (let (_, s') = os_set_nodelay os s (ta_no_delay a) in f a' (pipes @ [tcp_create_pipe a s']) ctx))) =
   (case tcp_verdict os a of
      Enough \<Rightarrow> Some (tcp_advance a, pipes, ctx)
    | Incoming p \<Rightarrow> f (tcp_advance a) (pipes @ [p]) ctx
    | Failing e \<Rightarrow> f (tcp_advance a) pipes (acceptor_raise (AcceptorError e) ctx))"
  by (auto simp: tcp_verdict_def tcp_advance_def listener_accept_def Let_def split: sum.split prod.split)

lemma ipc_round:
  "(let (answer, l) = listener_accept (ia_listener a); a' = a\<lparr>ia_listener := l\<rparr>
    in (case answer of
          Inl e \<Rightarrow> (if error_kind e = WouldBlock then Some (a', pipes, ctx)
             else f a' pipes (acceptor_raise (AcceptorError e) ctx))
        | Inr None \<Rightarrow> Some (a', pipes, ctx)
        | Inr (Some s) \<Rightarrow> f a' (pipes @ [ipc_create_pipe a s]) ctx)) =
   (case ipc_verdict a of
      Enough \<Rightarrow> Some (ipc_advance a, pipes, ctx)
    | Incoming p \<Rightarrow> f (ipc_advance a) (pipes @ [p]) ctx
    | Failing e \<Rightarrow> f (ipc_advance a) pipes (acceptor_raise (AcceptorError e) ctx))"
  by (auto simp: ipc_verdict_def ipc_advance_def listener_accept_def Let_def split: sum.split option.split)

text \<open>A loop that makes such rounds stops at the latest when its continuation does.\<close>

lemma round_stops:
  assumes "(case verdict a of Enough \<Rightarrow> Some r' | Incoming p \<Rightarrow> f (g p) | Failing e \<Rightarrow> f (h e)) = Some r"
    and "\<And>x r. f x = Some r \<Longrightarrow> \<exists>n. verdict ((advance ^^ n) (advance a)) = Enough"
  shows "\<exists>n. verdict ((advance ^^ n) a) = Enough"
proof (cases "verdict a")
  case Enough
  then show ?thesis by (intro exI [of _ 0]) simp
next
  case (Incoming p)
  then have "\<exists>n. verdict ((advance ^^ n) (advance a)) = Enough" using assms by auto
  then show ?thesis by (metis funpow_Suc_right comp_apply)
next
  case (Failing e)
  then have "\<exists>n. verdict ((advance ^^ n) (advance a)) = Enough" using assms by auto
  then show ?thesis by (metis funpow_Suc_right comp_apply)
qed

lemma tcp_loop_stops:
  assumes "tcp_accept_loop os a pipes ctx = Some r"
  shows "\<exists>n. tcp_verdict os ((tcp_advance ^^ n) a) = Enough"
proof (rule tcp_accept_loop.raw_induct [where P = "\<lambda>os a _ _ _. \<exists>n. tcp_verdict os ((tcp_advance ^^ n) a) = Enough", OF _ assms],
    unfold tcp_round)
  fix f os a pipes ctx r
  assume IH: "\<And>os a pipes ctx r. f os a pipes ctx = Some r \<Longrightarrow> \<exists>n. tcp_verdict os ((tcp_advance ^^ n) a) = Enough"
    and eq: "(case tcp_verdict os a of
      Enough \<Rightarrow> Some (tcp_advance a, pipes, ctx)
    | Incoming p \<Rightarrow> f os (tcp_advance a) (pipes @ [p]) ctx
    | Failing e \<Rightarrow> f os (tcp_advance a) pipes (acceptor_raise (AcceptorError e) ctx)) = Some r"
  show "\<exists>n. tcp_verdict os ((tcp_advance ^^ n) a) = Enough"
    by (rule round_stops [where f = "\<lambda>(pipes, ctx). f os (tcp_advance a) pipes ctx" and g = "\<lambda>p. (pipes @ [p], ctx)"
          and h = "\<lambda>e. (pipes, acceptor_raise (AcceptorError e) ctx)"]) (use eq IH in auto)
qed

lemma ipc_loop_stops:
  assumes "ipc_accept_loop a pipes ctx = Some r"
  shows "\<exists>n. ipc_verdict ((ipc_advance ^^ n) a) = Enough"
proof (rule ipc_accept_loop.raw_induct [where P = "\<lambda>a _ _ _. \<exists>n. ipc_verdict ((ipc_advance ^^ n) a) = Enough", OF _ assms],
    unfold ipc_round)
  fix f a pipes ctx r
  assume IH: "\<And>a pipes ctx r. f a pipes ctx = Some r \<Longrightarrow> \<exists>n. ipc_verdict ((ipc_advance ^^ n) a) = Enough"
    and eq: "(case ipc_verdict a of
      Enough \<Rightarrow> Some (ipc_advance a, pipes, ctx)
    | Incoming p \<Rightarrow> f (ipc_advance a) (pipes @ [p]) ctx
    | Failing e \<Rightarrow> f (ipc_advance a) pipes (acceptor_raise (AcceptorError e) ctx)) = Some r"
  show "\<exists>n. ipc_verdict ((ipc_advance ^^ n) a) = Enough"
    by (rule round_stops [where f = "\<lambda>(pipes, ctx). f (ipc_advance a) pipes ctx" and g = "\<lambda>p. (pipes @ [p], ctx)"
          and h = "\<lambda>e. (pipes, acceptor_raise (AcceptorError e) ctx)"]) (use eq IH in auto)
qed

interpretation tcp_accepting: accepting "tcp_verdict os" tcp_advance "tcp_accept_loop os" for os
  by unfold_locales (subst tcp_accept_loop.simps, rule tcp_round, rule tcp_loop_stops)

interpretation ipc_accepting: accepting ipc_verdict ipc_advance ipc_accept_loop
  by unfold_locales (subst ipc_accept_loop.simps, rule ipc_round, rule ipc_loop_stops)

section \<open>Properties\<close>

fun would_block :: "io_error + 'x \<Rightarrow> bool" where
  "would_block (Inl e) \<longleftrightarrow> error_kind e = WouldBlock"
| "would_block (Inr _) \<longleftrightarrow> False"

text \<open>The next answers of a listener, and what an acceptor makes of them.\<close>

definition upcoming :: "'r listener \<Rightarrow> nat \<Rightarrow> 'r list" where
  "upcoming l n = map (\<lambda>i. ls_answers l (ls_cursor l + i)) [0..<n]"

definition skip_answers :: "nat \<Rightarrow> 'r listener \<Rightarrow> 'r listener" where
  "skip_answers n l = l\<lparr>ls_cursor := ls_cursor l + n\<rparr>"

fun error_events :: "(io_error + 'x) list \<Rightarrow> 'e acceptor_ctx" where
  "error_events [] = []"
| "error_events (Inl e # rs) = AcceptorRaise (AcceptorError e) # error_events rs"
| "error_events (Inr _ # rs) = error_events rs"

fun tcp_pipes_of :: "'w os \<Rightarrow> tcp_acceptor \<Rightarrow> (io_error + stream) list \<Rightarrow> transport_pipe list" where
  "tcp_pipes_of os a [] = []"
| "tcp_pipes_of os a (Inl _ # rs) = tcp_pipes_of os a rs"
| "tcp_pipes_of os a (Inr s # rs) =
     tcp_create_pipe a (snd (os_set_nodelay os s (ta_no_delay a))) # tcp_pipes_of os a rs"

definition accepted_event :: "'e list \<Rightarrow> 'e acceptor_ctx" where
  "accepted_event pipes = (if pipes = [] then [] else [AcceptorRaise (Accepted pipes)])"

lemma tcp_advance_pow: "(tcp_advance ^^ n) a = a\<lparr>ta_listener := skip_answers n (ta_listener a)\<rparr>"
  by (induction n) (simp_all add: tcp_advance_def listener_accept_def skip_answers_def)

lemma tcp_verdict_later:
  "tcp_verdict os ((tcp_advance ^^ n) a) = (case ls_answers (ta_listener a) (ls_cursor (ta_listener a) + n) of
     Inr s \<Rightarrow> Incoming (tcp_create_pipe a (snd (os_set_nodelay os s (ta_no_delay a))))
   | Inl e \<Rightarrow> if error_kind e = WouldBlock then Enough else Failing e)"
  by (simp add: tcp_verdict_def tcp_advance_pow skip_answers_def tcp_create_pipe_def split: sum.split)

lemma tcp_verdict_enough:
  "tcp_verdict os ((tcp_advance ^^ n) a) = Enough \<longleftrightarrow> would_block (ls_answers (ta_listener a) (ls_cursor (ta_listener a) + n))"
  by (simp add: tcp_verdict_later split: sum.split)

lemma tcp_rounds:
  assumes "\<forall>i < n. \<not> would_block (ls_answers (ta_listener a) (ls_cursor (ta_listener a) + i))"
  shows "concat (map incoming (rounds (tcp_verdict os) tcp_advance a n)) = tcp_pipes_of os a (upcoming (ta_listener a) n)"
    and "concat (map failing (rounds (tcp_verdict os) tcp_advance a n)) = error_events (upcoming (ta_listener a) n)"
proof -
  have step: "verdict = (case r of
       Inr s \<Rightarrow> Incoming (tcp_create_pipe a (snd (os_set_nodelay os s (ta_no_delay a))))
     | Inl e \<Rightarrow> if error_kind e = WouldBlock then Enough else Failing e) \<Longrightarrow> \<not> would_block r \<Longrightarrow>
     incoming verdict @ tcp_pipes_of os a rs = tcp_pipes_of os a (r # rs) \<and>
     failing verdict @ error_events rs = error_events (r # rs)" for verdict r rs
    by (cases r) auto
  have "concat (map incoming (map (\<lambda>i. tcp_verdict os ((tcp_advance ^^ i) a)) is)) =
      tcp_pipes_of os a (map (\<lambda>i. ls_answers (ta_listener a) (ls_cursor (ta_listener a) + i)) is) \<and>
    concat (map failing (map (\<lambda>i. tcp_verdict os ((tcp_advance ^^ i) a)) is)) =
      error_events (map (\<lambda>i. ls_answers (ta_listener a) (ls_cursor (ta_listener a) + i)) is)" if "set is \<subseteq> {..<n}" for "is"
    using that
  proof (induction "is")
    case (Cons i js)
    then show ?case using step [OF tcp_verdict_later] assms by simp
  qed simp
  from this [of "[0..<n]"] show
    "concat (map incoming (rounds (tcp_verdict os) tcp_advance a n)) = tcp_pipes_of os a (upcoming (ta_listener a) n)"
    "concat (map failing (rounds (tcp_verdict os) tcp_advance a n)) = error_events (upcoming (ta_listener a) n)"
    by (auto simp: rounds_def upcoming_def atLeast0LessThan)
qed

text \<open>
  (C12) A notified TCP acceptor takes every connection that waits: it returns exactly when its
  listener would block at some point, and then it has raised one \<open>Error\<close> per failed \<open>accept\<close>,
  in order, and after them one \<open>Accepted\<close> with a pipe for each connection, in order, when there
  is any. A listener that keeps failing keeps the event loop in the accept loop.
\<close>

theorem tcp_acceptor_takes_all_waiting:
  assumes "Readable \<in> events"
  shows "(tcp_acceptor_ready os a ctx events \<noteq> None \<longleftrightarrow>
      (\<exists>n. would_block (ls_answers (ta_listener a) (ls_cursor (ta_listener a) + n)))) \<and>
    (\<forall>n. would_block (ls_answers (ta_listener a) (ls_cursor (ta_listener a) + n)) \<and>
      (\<forall>i < n. \<not> would_block (ls_answers (ta_listener a) (ls_cursor (ta_listener a) + i))) \<longrightarrow>
      tcp_acceptor_ready os a ctx events = Some (a\<lparr>ta_listener := skip_answers (Suc n) (ta_listener a)\<rparr>,
        ctx @ error_events (upcoming (ta_listener a) n) @
        accepted_event (tcp_pipes_of os a (upcoming (ta_listener a) n))))"
proof (intro conjI allI impI)
  show "tcp_acceptor_ready os a ctx events \<noteq> None \<longleftrightarrow>
      (\<exists>n. would_block (ls_answers (ta_listener a) (ls_cursor (ta_listener a) + n)))"
    using tcp_accepting.loop_returns_iff [of os a "[]" ctx] assms
    by (cases "tcp_accept_loop os a [] ctx") (auto simp: tcp_acceptor_ready_def tcp_accept_def tcp_verdict_enough)
next
  fix n
  assume n: "would_block (ls_answers (ta_listener a) (ls_cursor (ta_listener a) + n)) \<and>
    (\<forall>i < n. \<not> would_block (ls_answers (ta_listener a) (ls_cursor (ta_listener a) + i)))"
  then have first: "tcp_verdict os ((tcp_advance ^^ n) a) = Enough" "\<forall>i < n. tcp_verdict os ((tcp_advance ^^ i) a) \<noteq> Enough"
    by (auto simp: tcp_verdict_enough)
  have "tcp_accept_loop os a [] ctx = Some (a\<lparr>ta_listener := skip_answers (Suc n) (ta_listener a)\<rparr>,
      tcp_pipes_of os a (upcoming (ta_listener a) n), ctx @ error_events (upcoming (ta_listener a) n))"
    using tcp_accepting.loop_runs [OF first, of "[]" ctx] tcp_rounds [where os = os, OF conjunct2 [OF n]] by (simp only: tcp_advance_pow append_Nil)
  then show "tcp_acceptor_ready os a ctx events = Some (a\<lparr>ta_listener := skip_answers (Suc n) (ta_listener a)\<rparr>,
      ctx @ error_events (upcoming (ta_listener a) n) @ accepted_event (tcp_pipes_of os a (upcoming (ta_listener a) n)))"
    using assms by (simp add: tcp_acceptor_ready_def tcp_accept_def accepted_event_def acceptor_raise_def)
qed

text \<open>Witness: a connection, an error, a connection, and nothing more.\<close>

definition demo_os :: "unit os" where
  "demo_os = \<lparr>os_parse_addr = Some, os_tcp_connect = \<lambda>w _. (Inr demo_pipe_stream, w),
     os_tcp_bind = \<lambda>w _. (Inl blocked, w), os_set_nodelay = \<lambda>s _. (Inr (), s),
     os_unix_connect = \<lambda>w _. (Inr demo_pipe_stream, w), os_unix_bind = \<lambda>w _. (Inl blocked, w),
     os_is_socket = \<lambda>_ _. Inr False, os_remove_file = \<lambda>w _. (Inr (), w)\<rparr>"

definition demo_acceptor :: tcp_acceptor where
  "demo_acceptor = \<lparr>ta_listener = \<lparr>ls_answers = \<lambda>i. if i = 1 then Inl (other_io_error ''aborted'')
       else if i < 3 then Inr demo_pipe_stream else Inl blocked, ls_cursor = 0\<rparr>,
     ta_proto_ids = (49, 48), ta_no_delay = False, ta_recv_max_size = 0\<rparr>"

theorem tcp_acceptor_takes_all_waiting_witness:
  "tcp_acceptor_ready demo_os demo_acceptor [] {Readable} =
     Some (demo_acceptor\<lparr>ta_listener := skip_answers 4 (ta_listener demo_acceptor)\<rparr>,
       [AcceptorRaise (AcceptorError (other_io_error ''aborted'')), AcceptorRaise (Accepted [TcpPipe demo_pipe, TcpPipe demo_pipe])])"
proof -
  let ?l = "ta_listener demo_acceptor"
  have "would_block (ls_answers ?l (ls_cursor ?l + 3))" "\<forall>i < 3. \<not> would_block (ls_answers ?l (ls_cursor ?l + i))"
    by (auto simp: demo_acceptor_def blocked_def io_error_defs)
  moreover have upcoming: "upcoming ?l 3 = [Inr demo_pipe_stream, Inl (other_io_error ''aborted''), Inr demo_pipe_stream]"
    by (simp add: upcoming_def demo_acceptor_def upt_rec)
  ultimately have "tcp_acceptor_ready demo_os demo_acceptor [] {Readable} = Some (demo_acceptor\<lparr>ta_listener := skip_answers (Suc 3) ?l\<rparr>,
      [] @ error_events (upcoming ?l 3) @ accepted_event (tcp_pipes_of demo_os demo_acceptor (upcoming ?l 3)))"
    using tcp_acceptor_takes_all_waiting [of "{Readable}" demo_os demo_acceptor "[]"] by blast
  also have "tcp_pipes_of demo_os demo_acceptor (upcoming ?l 3) = [TcpPipe demo_pipe, TcpPipe demo_pipe]"
    unfolding upcoming by (simp add: tcp_create_pipe_def demo_os_def demo_acceptor_def demo_pipe_def)
  finally show ?thesis by (simp add: upcoming accepted_event_def)
qed

end
