(* ===== verification/Transport_Windows.thy ===== *)
theory Transport_Windows
  imports Transport_Acceptor
begin

text \<open>
  The transports on Windows: the active state of \<open>src/transport/async/active/windows.rs\<close> in the
  state machine of \<open>src/transport/async/\<close>, the stub, acceptor and transport of
  \<open>src/transport/ipc/windows/\<close>, and the calls that exist on Windows only (\<open>read_and_write_void\<close>,
  \<open>registered\<close>). The states, the handshake and the default methods are those of \<open>Transport_Pipe\<close>.
  Here entering a state changes the stub, so \<open>enter\<close> returns the state. A named pipe is read and
  written as a stream; how it is created, opened and connected are answers of the operating
  system (record \<open>windows_os\<close>). The locale \<open>win_pipe_stub\<close> carries the accounts of transfers,
  the locale \<open>paced_stub\<close> the comparison with Unix.
\<close>

section \<open>The stub\<close>

text \<open>The trait \<open>AsyncPipeStub\<close> as compiled on Windows: two more methods.\<close>

record 's win_stub_ops =
  win_stub :: "'s stub_ops"
  win_read_and_write_void :: "'s \<Rightarrow> 's"
  win_registered :: "'s \<Rightarrow> 's"

text \<open>The results of reading into and writing from an empty buffer are ignored.\<close>

definition stream_void :: "stream \<Rightarrow> stream" where
  "stream_void s = snd (stream_write (snd (stream_read s 0)) [])"

definition tcp_read_and_write_void :: "tcp_pipe_stub \<Rightarrow> tcp_pipe_stub" where
  "tcp_read_and_write_void stub = stub\<lparr>tcp_stream := stream_void (tcp_stream stub)\<rparr>"

definition default_registered :: "'s \<Rightarrow> 's" where
  "default_registered stub = stub"

definition win_tcp_ops :: "byteorder \<Rightarrow> tcp_pipe_stub win_stub_ops" where
  "win_tcp_ops bo = \<lparr>win_stub = tcp_ops bo, win_read_and_write_void = tcp_read_and_write_void,
     win_registered = default_registered\<rparr>"

subsection \<open>IpcPipeStub: ipc/windows/stub.rs\<close>

record win_ipc_stub =
  wi_server :: bool
  wi_named_pipe :: stream
  wi_recv_max_size :: u64
  wi_send_op :: "ipc_send_operation option"
  wi_recv_op :: "ipc_recv_operation option"

definition win_ipc_new_server :: "stream \<Rightarrow> u64 \<Rightarrow> win_ipc_stub" where
  "win_ipc_new_server named_pipe max_size = \<lparr>wi_server = True, wi_named_pipe = named_pipe, wi_recv_max_size = max_size,
     wi_send_op = None, wi_recv_op = None\<rparr>"

definition win_ipc_new_client :: "stream \<Rightarrow> u64 \<Rightarrow> win_ipc_stub" where
  "win_ipc_new_client named_pipe max_size = \<lparr>wi_server = False, wi_named_pipe = named_pipe, wi_recv_max_size = max_size,
     wi_send_op = None, wi_recv_op = None\<rparr>"

definition win_ipc_run_send_operation ::
  "byteorder \<Rightarrow> win_ipc_stub \<Rightarrow> ipc_send_operation \<Rightarrow> (io_error + bool) \<times> win_ipc_stub" where
  "win_ipc_run_send_operation bo stub send_op = (case ipc_send_run bo send_op (wi_named_pipe stub) of
     (Inl e, _, s') \<Rightarrow> (Inl e, stub\<lparr>wi_named_pipe := s'\<rparr>)
   | (Inr True, _, s') \<Rightarrow> (Inr True, stub\<lparr>wi_named_pipe := s'\<rparr>)
   | (Inr False, send_op', s') \<Rightarrow> (Inr False, stub\<lparr>wi_named_pipe := s', wi_send_op := Some send_op'\<rparr>))"

definition win_ipc_run_recv_operation ::
  "byteorder \<Rightarrow> win_ipc_stub \<Rightarrow> ipc_recv_operation \<Rightarrow> (io_error + message option) \<times> win_ipc_stub" where
  "win_ipc_run_recv_operation bo stub recv_op = (case ipc_recv_run bo recv_op (wi_named_pipe stub) of
     (Inl e, _, s') \<Rightarrow> (Inl e, stub\<lparr>wi_named_pipe := s'\<rparr>)
   | (Inr (Some msg), _, s') \<Rightarrow> (Inr (Some msg), stub\<lparr>wi_named_pipe := s'\<rparr>)
   | (Inr None, recv_op', s') \<Rightarrow> (Inr None, stub\<lparr>wi_named_pipe := s', wi_recv_op := Some recv_op'\<rparr>))"

definition win_ipc_start_send :: "byteorder \<Rightarrow> win_ipc_stub \<Rightarrow> message \<Rightarrow> (io_error + bool) \<times> win_ipc_stub" where
  "win_ipc_start_send bo stub msg = win_ipc_run_send_operation bo stub (ipc_send_new msg)"

definition win_ipc_resume_send :: "byteorder \<Rightarrow> win_ipc_stub \<Rightarrow> (io_error + bool) \<times> win_ipc_stub" where
  "win_ipc_resume_send bo stub = (case wi_send_op stub of
     Some send_op \<Rightarrow> win_ipc_run_send_operation bo (stub\<lparr>wi_send_op := None\<rparr>) send_op
   | None \<Rightarrow> (Inl (other_io_error ''Cannot resume send: no pending operation''), stub))"

definition win_ipc_has_pending_send :: "win_ipc_stub \<Rightarrow> bool" where
  "win_ipc_has_pending_send stub \<longleftrightarrow> wi_send_op stub \<noteq> None"

definition win_ipc_start_recv :: "byteorder \<Rightarrow> win_ipc_stub \<Rightarrow> (io_error + message option) \<times> win_ipc_stub" where
  "win_ipc_start_recv bo stub = win_ipc_run_recv_operation bo stub (ipc_recv_new (wi_recv_max_size stub))"

definition win_ipc_resume_recv :: "byteorder \<Rightarrow> win_ipc_stub \<Rightarrow> (io_error + message option) \<times> win_ipc_stub" where
  "win_ipc_resume_recv bo stub = (case wi_recv_op stub of
     Some recv_op \<Rightarrow> win_ipc_run_recv_operation bo (stub\<lparr>wi_recv_op := None\<rparr>) recv_op
   | None \<Rightarrow> (Inl (other_io_error ''Cannot resume recv: no pending operation''), stub))"

definition win_ipc_has_pending_recv :: "win_ipc_stub \<Rightarrow> bool" where
  "win_ipc_has_pending_recv stub \<longleftrightarrow> wi_recv_op stub \<noteq> None"

definition win_ipc_send_handshake :: "byteorder \<Rightarrow> win_ipc_stub \<Rightarrow> u16 \<times> u16 \<Rightarrow> (io_error + unit) \<times> win_ipc_stub" where
  "win_ipc_send_handshake bo stub proto_ids =
     (let (r, s') = send_and_check_handshake bo (wi_named_pipe stub) proto_ids in (r, stub\<lparr>wi_named_pipe := s'\<rparr>))"

definition win_ipc_recv_handshake :: "byteorder \<Rightarrow> win_ipc_stub \<Rightarrow> u16 \<times> u16 \<Rightarrow> (io_error + unit) \<times> win_ipc_stub" where
  "win_ipc_recv_handshake bo stub proto_ids =
     (let (r, s') = recv_and_check_handshake bo (wi_named_pipe stub) proto_ids in (r, stub\<lparr>wi_named_pipe := s'\<rparr>))"

definition win_ipc_read_and_write_void :: "win_ipc_stub \<Rightarrow> win_ipc_stub" where
  "win_ipc_read_and_write_void stub = stub\<lparr>wi_named_pipe := stream_void (wi_named_pipe stub)\<rparr>"

text \<open>The calls on named pipes: \<open>NamedPipe::new\<close>, opening the file of a client, \<open>connect\<close>.\<close>

record 'w windows_os =
  wos_named_pipe_new :: "'w \<Rightarrow> string \<Rightarrow> (io_error + stream) \<times> 'w"
  wos_open_file :: "'w \<Rightarrow> string \<Rightarrow> (io_error + stream) \<times> 'w"
  wos_connect :: "stream \<Rightarrow> (io_error + unit) \<times> stream"

definition win_ipc_registered :: "'w windows_os \<Rightarrow> win_ipc_stub \<Rightarrow> win_ipc_stub" where
  "win_ipc_registered os stub =
     (if wi_server stub then stub\<lparr>wi_named_pipe := snd (wos_connect os (wi_named_pipe stub))\<rparr> else stub)"

definition win_ipc_ops :: "byteorder \<Rightarrow> 'w windows_os \<Rightarrow> win_ipc_stub win_stub_ops" where
  "win_ipc_ops bo os = \<lparr>win_stub = \<lparr>
       stub_start_send = win_ipc_start_send bo, stub_resume_send = win_ipc_resume_send bo,
       stub_has_pending_send = win_ipc_has_pending_send, stub_start_recv = win_ipc_start_recv bo,
       stub_resume_recv = win_ipc_resume_recv bo, stub_has_pending_recv = win_ipc_has_pending_recv,
       stub_send_handshake = win_ipc_send_handshake bo, stub_recv_handshake = win_ipc_recv_handshake bo\<rparr>,
     win_read_and_write_void = win_ipc_read_and_write_void, win_registered = win_ipc_registered os\<rparr>"

section \<open>The active state: active/windows.rs\<close>

definition raise_and_resync_readiness ::
  "'s win_stub_ops \<Rightarrow> 's active \<Rightarrow> pipe_event \<Rightarrow> pipe_ctx \<Rightarrow> 's active \<times> pipe_ctx" where
  "raise_and_resync_readiness w a evt ctx =
     (let interest = {Readable, Writable};
          a = a\<lparr>act_stub := win_read_and_write_void w (act_stub a)\<rparr>;
          ctx = pipe_raise evt ctx
      in (a, pipe_reregister interest EdgeTriggered ctx))"

definition win_on_msg_sent :: "'s win_stub_ops \<Rightarrow> 's active \<Rightarrow> pipe_ctx \<Rightarrow> 's active \<times> pipe_ctx" where
  "win_on_msg_sent w a ctx = raise_and_resync_readiness w a PipeSent ctx"

definition win_on_send_progress ::
  "'s win_stub_ops \<Rightarrow> 's active \<Rightarrow> io_error + bool \<Rightarrow> pipe_ctx \<Rightarrow> (io_error + unit) \<times> 's active \<times> pipe_ctx" where
  "win_on_send_progress w a progress ctx = (case progress of
     Inl e \<Rightarrow> (Inl e, a, ctx)
   | Inr sent \<Rightarrow> (Inr (), if sent then win_on_msg_sent w a ctx else (a, ctx)))"

definition win_change_can_send :: "'s active \<Rightarrow> bool \<Rightarrow> pipe_ctx \<Rightarrow> 's active \<times> pipe_ctx" where
  "win_change_can_send a can_send ctx =
     (if can_send_msg a \<noteq> can_send then (a\<lparr>can_send_msg := can_send\<rparr>, pipe_raise (PipeCanSend can_send) ctx)
      else (a, ctx))"

definition win_writable_changed ::
  "'s win_stub_ops \<Rightarrow> 's active \<Rightarrow> ready_set \<Rightarrow> pipe_ctx \<Rightarrow> (io_error + unit) \<times> 's active \<times> pipe_ctx" where
  "win_writable_changed w a events ctx =
     (if Writable \<notin> events then (Inr (), win_change_can_send a False ctx)
      else if stub_has_pending_send (win_stub w) (act_stub a)
      then (let (progress, stub) = stub_resume_send (win_stub w) (act_stub a)
            in win_on_send_progress w (a\<lparr>act_stub := stub\<rparr>) progress ctx)
      else (Inr (), win_change_can_send a True ctx))"

definition win_on_msg_received :: "'s win_stub_ops \<Rightarrow> 's active \<Rightarrow> message \<Rightarrow> pipe_ctx \<Rightarrow> 's active \<times> pipe_ctx" where
  "win_on_msg_received w a msg ctx = raise_and_resync_readiness w a (PipeReceived msg) ctx"

definition win_on_recv_progress ::
  "'s win_stub_ops \<Rightarrow> 's active \<Rightarrow> io_error + message option \<Rightarrow> pipe_ctx \<Rightarrow> (io_error + unit) \<times> 's active \<times> pipe_ctx" where
  "win_on_recv_progress w a progress ctx = (case progress of
     Inl e \<Rightarrow> (Inl e, a, ctx)
   | Inr recv \<Rightarrow> (Inr (), case recv of Some msg \<Rightarrow> win_on_msg_received w a msg ctx | None \<Rightarrow> (a, ctx)))"

definition win_change_can_recv :: "'s active \<Rightarrow> bool \<Rightarrow> pipe_ctx \<Rightarrow> 's active \<times> pipe_ctx" where
  "win_change_can_recv a can_recv ctx =
     (if can_recv_msg a \<noteq> can_recv then (a\<lparr>can_recv_msg := can_recv\<rparr>, pipe_raise (PipeCanRecv can_recv) ctx)
      else (a, ctx))"

definition win_readable_changed ::
  "'s win_stub_ops \<Rightarrow> 's active \<Rightarrow> ready_set \<Rightarrow> pipe_ctx \<Rightarrow> (io_error + unit) \<times> 's active \<times> pipe_ctx" where
  "win_readable_changed w a events ctx =
     (if Readable \<notin> events then (Inr (), win_change_can_recv a False ctx)
      else if stub_has_pending_recv (win_stub w) (act_stub a)
      then (let (progress, stub) = stub_resume_recv (win_stub w) (act_stub a)
            in win_on_recv_progress w (a\<lparr>act_stub := stub\<rparr>) progress ctx)
      else (Inr (), win_change_can_recv a True ctx))"

definition win_active_enter :: "'s win_stub_ops \<Rightarrow> 's active \<Rightarrow> pipe_ctx \<Rightarrow> 's active \<times> pipe_ctx" where
  "win_active_enter w a ctx = raise_and_resync_readiness w a PipeOpened ctx"

definition win_active_close :: "'s active \<Rightarrow> pipe_ctx \<Rightarrow> 's pipe_state \<times> pipe_ctx" where
  "win_active_close a ctx = (Dead, pipe_deregister ctx)"

definition win_active_send :: "'s win_stub_ops \<Rightarrow> 's active \<Rightarrow> pipe_ctx \<Rightarrow> message \<Rightarrow> 's pipe_state \<times> pipe_ctx" where
  "win_active_send w a ctx msg =
     (let (progress, stub) = stub_start_send (win_stub w) (act_stub a) msg;
          (res, a, ctx) = win_on_send_progress w (a\<lparr>act_stub := stub\<rparr>) progress ctx;
          a = a\<lparr>can_send_msg := False\<rparr>
      in no_transition_if_ok (Active a) ctx res)"

definition win_active_recv :: "'s win_stub_ops \<Rightarrow> 's active \<Rightarrow> pipe_ctx \<Rightarrow> 's pipe_state \<times> pipe_ctx" where
  "win_active_recv w a ctx =
     (let (progress, stub) = stub_start_recv (win_stub w) (act_stub a);
          (res, a, ctx) = win_on_recv_progress w (a\<lparr>act_stub := stub\<rparr>) progress ctx;
          a = a\<lparr>can_recv_msg := False\<rparr>
      in no_transition_if_ok (Active a) ctx res)"

definition win_active_ready :: "'s win_stub_ops \<Rightarrow> 's active \<Rightarrow> pipe_ctx \<Rightarrow> ready_set \<Rightarrow> 's pipe_state \<times> pipe_ctx" where
  "win_active_ready w a ctx events =
     (case win_readable_changed w a events ctx of
        (Inl e, a, ctx) \<Rightarrow> no_transition_if_ok (Active a) ctx (Inl e)
      | (Inr _, a, ctx) \<Rightarrow>
          (case win_writable_changed w a events ctx of
             (res, a, ctx) \<Rightarrow> no_transition_if_ok (Active a) ctx res))"

section \<open>The state machine\<close>

definition win_handshake_tx_enter :: "'s win_stub_ops \<Rightarrow> 's \<Rightarrow> pipe_ctx \<Rightarrow> 's \<times> pipe_ctx" where
  "win_handshake_tx_enter w s ctx =
     (let ctx = pipe_register {Writable} LevelTriggered ctx in (win_registered w s, ctx))"

fun win_state_enter :: "'s win_stub_ops \<Rightarrow> 's pipe_state \<Rightarrow> pipe_ctx \<Rightarrow> 's pipe_state \<times> pipe_ctx" where
  "win_state_enter w (HandshakeTx s proto_ids) ctx = (let (s, ctx) = win_handshake_tx_enter w s ctx in (HandshakeTx s proto_ids, ctx))"
| "win_state_enter w (Active a) ctx = (let (a, ctx) = win_active_enter w a ctx in (Active a, ctx))"
| "win_state_enter w st ctx = (st, state_enter st ctx)"

definition win_transition :: "'s win_stub_ops \<Rightarrow> 's pipe_state \<Rightarrow> pipe_ctx \<Rightarrow> 's pipe_state \<times> pipe_ctx" where
  "win_transition w old_state ctx =
     (let ctx = state_leave old_state ctx;
          new_state = into_next old_state
      in win_state_enter w new_state ctx)"

definition win_transition_if_ok ::
  "'s win_stub_ops \<Rightarrow> 's pipe_state \<Rightarrow> pipe_ctx \<Rightarrow> io_error + unit \<Rightarrow> 's pipe_state \<times> pipe_ctx" where
  "win_transition_if_ok w f ctx res = (case res of
     Inr _ \<Rightarrow> win_transition w f ctx
   | Inl e \<Rightarrow> state_error f ctx e)"

definition win_initial_open :: "'s win_stub_ops \<Rightarrow> 's \<Rightarrow> u16 \<times> u16 \<Rightarrow> pipe_ctx \<Rightarrow> 's pipe_state \<times> pipe_ctx" where
  "win_initial_open w s proto_ids ctx = win_transition w (Initial s proto_ids) ctx"

definition win_handshake_tx_ready ::
  "'s win_stub_ops \<Rightarrow> 's \<Rightarrow> u16 \<times> u16 \<Rightarrow> pipe_ctx \<Rightarrow> ready_set \<Rightarrow> 's pipe_state \<times> pipe_ctx" where
  "win_handshake_tx_ready w s proto_ids ctx events =
     (if Writable \<in> events
      then (let (res, s) = tx_send_handshake (win_stub w) s proto_ids
            in win_transition_if_ok w (HandshakeTx s proto_ids) ctx res)
      else (HandshakeTx s proto_ids, ctx))"

definition win_handshake_rx_ready ::
  "'s win_stub_ops \<Rightarrow> 's \<Rightarrow> u16 \<times> u16 \<Rightarrow> pipe_ctx \<Rightarrow> ready_set \<Rightarrow> 's pipe_state \<times> pipe_ctx" where
  "win_handshake_rx_ready w s proto_ids ctx events =
     (if Readable \<in> events
      then (let (res, s) = rx_recv_handshake (win_stub w) s proto_ids
            in win_transition_if_ok w (HandshakeRx s proto_ids) ctx res)
      else (HandshakeRx s proto_ids, ctx))"

fun win_state_open :: "'s win_stub_ops \<Rightarrow> 's pipe_state \<Rightarrow> pipe_ctx \<Rightarrow> 's pipe_state \<times> pipe_ctx" where
  "win_state_open w (Initial s proto_ids) ctx = win_initial_open w s proto_ids ctx"
| "win_state_open w st ctx = state_open st ctx"

fun win_state_close :: "'s pipe_state \<Rightarrow> pipe_ctx \<Rightarrow> 's pipe_state \<times> pipe_ctx" where
  "win_state_close (Active a) ctx = win_active_close a ctx"
| "win_state_close st ctx = state_close st ctx"

fun win_state_send :: "'s win_stub_ops \<Rightarrow> 's pipe_state \<Rightarrow> pipe_ctx \<Rightarrow> message \<Rightarrow> 's pipe_state \<times> pipe_ctx" where
  "win_state_send w (Active a) ctx msg = win_active_send w a ctx msg"
| "win_state_send w Dead ctx msg = dead_send ctx msg"
| "win_state_send w _ ctx msg = default_send ctx msg"

fun win_state_recv :: "'s win_stub_ops \<Rightarrow> 's pipe_state \<Rightarrow> pipe_ctx \<Rightarrow> 's pipe_state \<times> pipe_ctx" where
  "win_state_recv w (Active a) ctx = win_active_recv w a ctx"
| "win_state_recv w Dead ctx = dead_recv ctx"
| "win_state_recv w _ ctx = default_recv ctx"

fun win_state_ready :: "'s win_stub_ops \<Rightarrow> 's pipe_state \<Rightarrow> pipe_ctx \<Rightarrow> ready_set \<Rightarrow> 's pipe_state \<times> pipe_ctx" where
  "win_state_ready w (Initial _ _) ctx events = default_ready ctx events"
| "win_state_ready w (HandshakeTx s proto_ids) ctx events = win_handshake_tx_ready w s proto_ids ctx events"
| "win_state_ready w (HandshakeRx s proto_ids) ctx events = win_handshake_rx_ready w s proto_ids ctx events"
| "win_state_ready w (Active a) ctx events = win_active_ready w a ctx events"
| "win_state_ready w Dead ctx events = dead_ready ctx events"

text \<open>The pipe of \<open>mod.rs\<close> over these states.\<close>

fun win_pipe_step :: "'s win_stub_ops \<Rightarrow> pipe_input \<Rightarrow> 's async_pipe \<times> pipe_ctx \<Rightarrow> 's async_pipe \<times> pipe_ctx" where
  "win_pipe_step w (Command PipeOpen) (p, ctx) = async_pipe_apply (win_state_open w) p ctx"
| "win_pipe_step w (Command PipeClose) (p, ctx) = async_pipe_apply win_state_close p ctx"
| "win_pipe_step w (Command (PipeSend msg)) (p, ctx) = async_pipe_apply (\<lambda>s ctx. win_state_send w s ctx msg) p ctx"
| "win_pipe_step w (Command PipeRecv) (p, ctx) = async_pipe_apply (win_state_recv w) p ctx"
| "win_pipe_step w (Notify events) (p, ctx) = async_pipe_apply (\<lambda>s ctx. win_state_ready w s ctx events) p ctx"

definition win_pipe_run :: "'s win_stub_ops \<Rightarrow> pipe_input list \<Rightarrow> 's async_pipe \<times> pipe_ctx \<Rightarrow> 's async_pipe \<times> pipe_ctx" where
  "win_pipe_run w inputs pc = fold (win_pipe_step w) inputs pc"

section \<open>The acceptor and the transport: ipc/windows/\<close>

text \<open>The name of the pipe, \<open>\\.\pipe\scaproust-pipe-\<close> and the address.\<close>

definition backslash :: string where
  "backslash = [CHR 0x5C]"

definition named_pipe_name :: "string \<Rightarrow> string" where
  "named_pipe_name addr = backslash @ backslash @ ''.'' @ backslash @ ''pipe'' @ backslash @ ''scaproust-pipe-'' @ addr"

datatype win_pipe = WinTcpPipe "tcp_pipe_stub async_pipe" | WinIpcPipe "win_ipc_stub async_pipe"

record win_ipc_acceptor =
  wia_addr :: string
  wia_proto_ids :: "u16 \<times> u16"
  wia_recv_max_size :: u64

definition win_ipc_acceptor_new :: "string \<Rightarrow> u16 \<times> u16 \<Rightarrow> u64 \<Rightarrow> win_ipc_acceptor" where
  "win_ipc_acceptor_new a proto_ids limit = \<lparr>wia_addr = a, wia_proto_ids = proto_ids, wia_recv_max_size = limit\<rparr>"

definition win_ipc_create_pipe :: "win_ipc_acceptor \<Rightarrow> stream \<Rightarrow> win_pipe" where
  "win_ipc_create_pipe a named_pipe =
     WinIpcPipe (async_pipe_new (win_ipc_new_server named_pipe (wia_recv_max_size a)) (wia_proto_ids a))"

definition win_ipc_acceptor_connect ::
  "'w windows_os \<Rightarrow> 'w \<Rightarrow> win_ipc_acceptor \<Rightarrow> win_pipe acceptor_ctx \<Rightarrow> win_pipe acceptor_ctx \<times> 'w" where
  "win_ipc_acceptor_connect os w a ctx =
     (case wos_named_pipe_new os w (named_pipe_name (wia_addr a)) of
        (Inr named_pipe, w') \<Rightarrow> (acceptor_raise (Accepted [win_ipc_create_pipe a named_pipe]) ctx, w')
      | (Inl e, w') \<Rightarrow> (acceptor_raise (AcceptorError e) ctx, w'))"

definition win_ipc_acceptor_ready :: "win_pipe acceptor_ctx \<Rightarrow> ready_set \<Rightarrow> win_pipe acceptor_ctx" where
  "win_ipc_acceptor_ready ctx events = ctx"

definition win_ipc_acceptor_open ::
  "'w windows_os \<Rightarrow> 'w \<Rightarrow> win_ipc_acceptor \<Rightarrow> win_pipe acceptor_ctx \<Rightarrow> win_pipe acceptor_ctx \<times> 'w" where
  "win_ipc_acceptor_open os w a ctx =
     (let ctx = acceptor_raise AcceptorOpened ctx in win_ipc_acceptor_connect os w a ctx)"

definition win_ipc_acceptor_close :: "win_pipe acceptor_ctx \<Rightarrow> win_pipe acceptor_ctx" where
  "win_ipc_acceptor_close ctx = acceptor_raise AcceptorClosed ctx"

definition win_ipc_connect :: "'w windows_os \<Rightarrow> 'w \<Rightarrow> destination \<Rightarrow> (io_error + win_pipe) \<times> 'w" where
  "win_ipc_connect os w dest =
     (case wos_open_file os w (named_pipe_name (dest_addr dest)) of
        (Inl e, w') \<Rightarrow> (Inl e, w')
      | (Inr named_pipe, w') \<Rightarrow>
          (Inr (WinIpcPipe (async_pipe_new (win_ipc_new_client named_pipe (dest_recv_max_size dest)) (dest_pids dest))), w'))"

definition win_ipc_bind :: "'w \<Rightarrow> destination \<Rightarrow> (io_error + win_ipc_acceptor) \<times> 'w" where
  "win_ipc_bind w dest = (Inr (win_ipc_acceptor_new (dest_addr dest) (dest_pids dest) (dest_recv_max_size dest)), w)"

section \<open>The order of events\<close>

lemma resync_raised [simp]:
  "raised (snd (raise_and_resync_readiness w a evt ctx)) = raised ctx @ [evt]"
  "sents (snd (raise_and_resync_readiness w a evt ctx)) = sents ctx + of_bool (evt = PipeSent)"
  "receiveds (snd (raise_and_resync_readiness w a evt ctx)) = receiveds ctx + of_bool (is_received evt)"
  "fst (raise_and_resync_readiness w a evt ctx) = a\<lparr>act_stub := win_read_and_write_void w (act_stub a)\<rparr>"
  by (simp_all add: raise_and_resync_readiness_def Let_def)

lemmas win_progress_defs = win_on_send_progress_def win_on_recv_progress_def win_on_msg_sent_def win_on_msg_received_def
  win_change_can_send_def win_change_can_recv_def

lemmas win_changed_defs = win_readable_changed_def win_writable_changed_def

lemmas win_machine_defs = win_transition_def win_transition_if_ok_def win_initial_open_def win_handshake_tx_ready_def
  win_handshake_rx_ready_def win_handshake_tx_enter_def win_active_enter_def win_active_close_def state_leave_def
  state_error_def active_new_def

lemma win_progress_alive:
  assumes "alive_trace (raised ctx)"
  shows "win_on_send_progress w a progress ctx = (res, a', ctx') \<Longrightarrow> alive_trace (raised ctx')"
    and "win_on_recv_progress w a progress' ctx = (res, a', ctx') \<Longrightarrow> alive_trace (raised ctx')"
    and "win_change_can_send a b ctx = (a', ctx') \<Longrightarrow> alive_trace (raised ctx')"
    and "win_change_can_recv a b ctx = (a', ctx') \<Longrightarrow> alive_trace (raised ctx')"
  using assms
  by (auto simp: win_progress_defs raise_and_resync_readiness_def Let_def split: sum.splits option.splits if_splits)

lemma win_changed_alive:
  assumes "alive_trace (raised ctx)"
  shows "win_readable_changed w a events ctx = (res, a', ctx') \<Longrightarrow> alive_trace (raised ctx')"
    and "win_writable_changed w a events ctx = (res, a', ctx') \<Longrightarrow> alive_trace (raised ctx')"
  using assms
  by (auto simp: win_changed_defs Let_def split: if_splits prod.splits intro: win_progress_alive)

lemma win_active_trace:
  assumes "alive_trace (raised ctx)"
  shows "win_active_send w a ctx msg = (st', ctx') \<Longrightarrow> trace_inv st' (raised ctx')"
    and "win_active_recv w a ctx = (st', ctx') \<Longrightarrow> trace_inv st' (raised ctx')"
    and "win_active_ready w a ctx events = (st', ctx') \<Longrightarrow> trace_inv st' (raised ctx')"
proof -
  show "win_active_send w a ctx msg = (st', ctx') \<Longrightarrow> trace_inv st' (raised ctx')"
    by (auto simp: win_active_send_def Let_def split: prod.splits dest!: win_progress_alive(1) [OF assms] intro: no_transition_trace)
  show "win_active_recv w a ctx = (st', ctx') \<Longrightarrow> trace_inv st' (raised ctx')"
    by (auto simp: win_active_recv_def Let_def split: prod.splits dest!: win_progress_alive(2) [OF assms] intro: no_transition_trace)
  show "win_active_ready w a ctx events = (st', ctx') \<Longrightarrow> trace_inv st' (raised ctx')"
    unfolding win_active_ready_def using assms
    by (auto split: prod.splits sum.splits intro: no_transition_trace win_changed_alive)
qed

lemma win_state_trace:
  assumes "trace_inv st (raised ctx)"
  shows "win_state_open w st ctx = (st', ctx') \<Longrightarrow> trace_inv st' (raised ctx')"
    and "win_state_close st ctx = (st', ctx') \<Longrightarrow> trace_inv st' (raised ctx')"
    and "win_state_send w st ctx msg = (st', ctx') \<Longrightarrow> trace_inv st' (raised ctx')"
    and "win_state_recv w st ctx = (st', ctx') \<Longrightarrow> trace_inv st' (raised ctx')"
    and "win_state_ready w st ctx events = (st', ctx') \<Longrightarrow> trace_inv st' (raised ctx')"
  using assms
  by (cases st; auto simp: win_machine_defs raise_and_resync_readiness_def Let_def method_defs enter_defs into_defs
      tx_send_handshake_def rx_recv_handshake_def intro: win_active_trace split: if_splits sum.splits prod.splits)+

lemma win_step_trace:
  assumes "pipe_state_cell p = Some st" and "trace_inv st (raised ctx)" and "win_pipe_step w i (p, ctx) = (p', ctx')"
  shows "\<exists>st'. pipe_state_cell p' = Some st' \<and> trace_inv st' (raised ctx')"
  using assms win_state_trace [OF assms(2)]
  by (cases rule: pipe_input_cases [of i]) (auto simp: async_pipe_apply_def split: prod.splits)

lemma win_run_trace:
  assumes "pipe_state_cell p = Some st" and "trace_inv st (raised ctx)" and "win_pipe_run w inputs (p, ctx) = (p', ctx')"
  shows "\<exists>st'. pipe_state_cell p' = Some st' \<and> trace_inv st' (raised ctx')"
  using assms
proof (induction inputs arbitrary: p ctx st)
  case (Cons i inputs)
  obtain p1 ctx1 where step: "win_pipe_step w i (p, ctx) = (p1, ctx1)" by (cases "win_pipe_step w i (p, ctx)")
  from win_step_trace [OF Cons.prems(1,2) step] obtain st1 where
    "pipe_state_cell p1 = Some st1" "trace_inv st1 (raised ctx1)" by blast
  then show ?case using Cons.IH Cons.prems(3) step by (simp add: win_pipe_run_def)
qed (simp add: win_pipe_run_def)

section \<open>Every transfer is accounted for\<close>

text \<open>On Windows a stub also promises that resynchronising does not touch its pending operations.\<close>

locale win_pipe_stub = pipe_stub "win_stub w" for w :: "'s win_stub_ops" +
  assumes void_law: "stub_has_pending_send (win_stub w) (win_read_and_write_void w s) = stub_has_pending_send (win_stub w) s \<and>
      stub_has_pending_recv (win_stub w) (win_read_and_write_void w s) = stub_has_pending_recv (win_stub w) s"
    and registered_law: "stub_has_pending_send (win_stub w) (win_registered w s) = stub_has_pending_send (win_stub w) s \<and>
      stub_has_pending_recv (win_stub w) (win_registered w s) = stub_has_pending_recv (win_stub w) s"

interpretation win_tcp_stub: win_pipe_stub "win_tcp_ops bo" for bo
proof unfold_locales
qed (auto simp: win_tcp_ops_def tcp_read_and_write_void_def default_registered_def tcp_ops_def tcp_has_pending_send_def tcp_has_pending_recv_def
   tcp_start_send_def tcp_resume_send_def tcp_start_recv_def tcp_resume_recv_def tcp_send_handshake_def tcp_recv_handshake_def
   tcp_run_send_operation_def tcp_run_recv_operation_def Let_def split: prod.splits sum.splits option.splits bool.splits)

interpretation win_ipc_stub: win_pipe_stub "win_ipc_ops bo os" for bo and os :: "'w windows_os"
  by unfold_locales
    (auto simp: win_ipc_ops_def win_ipc_start_send_def win_ipc_resume_send_def win_ipc_has_pending_send_def win_ipc_start_recv_def
      win_ipc_resume_recv_def win_ipc_has_pending_recv_def win_ipc_send_handshake_def win_ipc_recv_handshake_def
      win_ipc_run_send_operation_def win_ipc_run_recv_operation_def win_ipc_read_and_write_void_def win_ipc_registered_def
      Let_def split: prod.splits sum.splits option.splits bool.splits)

fun win_polite :: "'s win_stub_ops \<Rightarrow> pipe_input list \<Rightarrow> 's async_pipe \<times> pipe_ctx \<Rightarrow> nat \<Rightarrow> nat \<Rightarrow> bool" where
  "win_polite w [] pc ns nr = True"
| "win_polite w (i # inputs) pc ns nr \<longleftrightarrow>
     (is_send i \<longrightarrow> sents (snd pc) = ns) \<and> (i = Command PipeRecv \<longrightarrow> receiveds (snd pc) = nr) \<and>
     win_polite w inputs (win_pipe_step w i pc) (ns + of_bool (is_send i)) (nr + of_bool (i = Command PipeRecv))"

context win_pipe_stub
begin

lemma win_active_send_account:
  assumes "account (win_stub w) (Active a) ctx ns nr" and "sents ctx = ns" and "win_active_send w a ctx msg = (st', ctx')"
  shows "account (win_stub w) st' ctx' (Suc ns) nr"
proof -
  obtain r s' where r: "stub_start_send (win_stub w) (act_stub a) msg = (r, s')" by (cases "stub_start_send (win_stub w) (act_stub a) msg")
  have idle: "\<not> stub_has_pending_send (win_stub w) (act_stub a)" using assms(1,2) by auto
  show ?thesis
    using assms r start_send_law [of "act_stub a" msg _ s'] idle
    by (cases r) (auto simp: void_law win_active_send_def win_progress_defs raise_and_resync_readiness_def no_transition_if_ok_def state_error_def Let_def)
qed

lemma win_active_recv_account:
  assumes "account (win_stub w) (Active a) ctx ns nr" and "receiveds ctx = nr" and "win_active_recv w a ctx = (st', ctx')"
  shows "account (win_stub w) st' ctx' ns (Suc nr)"
proof -
  obtain r s' where r: "stub_start_recv (win_stub w) (act_stub a) = (r, s')" by (cases "stub_start_recv (win_stub w) (act_stub a)")
  have idle: "\<not> stub_has_pending_recv (win_stub w) (act_stub a)" using assms(1,2) by auto
  show ?thesis
    using assms r start_recv_law [of "act_stub a" _ s'] idle
    by (cases r) (auto simp: void_law win_active_recv_def win_progress_defs raise_and_resync_readiness_def no_transition_if_ok_def state_error_def
        Let_def split: option.splits)
qed

lemma win_changed_account:
  assumes "account (win_stub w) (Active a) ctx ns nr"
  shows "win_readable_changed w a events ctx = (res, a', ctx') \<Longrightarrow>
      account (win_stub w) (if \<exists>e. res = Inl e then Dead else Active a') ctx' ns nr"
    and "win_writable_changed w a events ctx = (res, a', ctx') \<Longrightarrow>
      account (win_stub w) (if \<exists>e. res = Inl e then Dead else Active a') ctx' ns nr"
proof -
  show "win_readable_changed w a events ctx = (res, a', ctx') \<Longrightarrow>
      account (win_stub w) (if \<exists>e. res = Inl e then Dead else Active a') ctx' ns nr"
    using assms resume_recv_law
    by (auto simp: void_law win_readable_changed_def win_progress_defs raise_and_resync_readiness_def Let_def
        split: if_splits prod.splits sum.splits option.splits)
  show "win_writable_changed w a events ctx = (res, a', ctx') \<Longrightarrow>
      account (win_stub w) (if \<exists>e. res = Inl e then Dead else Active a') ctx' ns nr"
    using assms resume_send_law
    by (auto simp: void_law win_writable_changed_def win_progress_defs raise_and_resync_readiness_def Let_def
        split: if_splits prod.splits sum.splits)
qed

lemma win_active_ready_account:
  assumes "account (win_stub w) (Active a) ctx ns nr" and "win_active_ready w a ctx events = (st', ctx')"
  shows "account (win_stub w) st' ctx' ns nr"
proof -
  obtain r1 a1 c1 where rd: "win_readable_changed w a events ctx = (r1, a1, c1)" by (cases "win_readable_changed w a events ctx") auto
  obtain r2 a2 c2 where wr: "win_writable_changed w a1 events c1 = (r2, a2, c2)" by (cases "win_writable_changed w a1 events c1") auto
  note acc1 = win_changed_account(1) [OF assms(1) rd]
  show ?thesis
  proof (cases r1)
    case (Inl e)
    then show ?thesis using assms(2) rd acc1 by (auto simp: win_active_ready_def no_transition_if_ok_def state_error_def)
  next
    case (Inr u)
    then have "account (win_stub w) (Active a1) c1 ns nr" using acc1 by simp
    note acc2 = win_changed_account(2) [OF this wr]
    show ?thesis
      using assms(2) rd wr Inr acc2 by (cases r2) (auto simp: win_active_ready_def no_transition_if_ok_def state_error_def)
  qed
qed

lemma win_state_account:
  assumes "account (win_stub w) st ctx ns nr"
  shows "win_state_open w st ctx = (st', ctx') \<Longrightarrow> account (win_stub w) st' ctx' ns nr"
    and "win_state_close st ctx = (st', ctx') \<Longrightarrow> account (win_stub w) st' ctx' ns nr"
    and "win_state_send w st ctx msg = (st', ctx') \<Longrightarrow> sents ctx = ns \<Longrightarrow> account (win_stub w) st' ctx' (Suc ns) nr"
    and "win_state_recv w st ctx = (st', ctx') \<Longrightarrow> receiveds ctx = nr \<Longrightarrow> account (win_stub w) st' ctx' ns (Suc nr)"
    and "win_state_ready w st ctx events = (st', ctx') \<Longrightarrow> account (win_stub w) st' ctx' ns nr"
proof -
  show "win_state_open w st ctx = (st', ctx') \<Longrightarrow> account (win_stub w) st' ctx' ns nr"
    using assms by (cases st) (auto simp: registered_law win_machine_defs method_defs into_defs Let_def)
  show "win_state_close st ctx = (st', ctx') \<Longrightarrow> account (win_stub w) st' ctx' ns nr"
    using assms by (cases st) (auto simp: method_defs win_active_close_def)
  show "win_state_send w st ctx msg = (st', ctx') \<Longrightarrow> sents ctx = ns \<Longrightarrow> account (win_stub w) st' ctx' (Suc ns) nr"
    using assms by (cases st) (auto simp: method_defs simp del: account.simps(1) intro: win_active_send_account)
  show "win_state_recv w st ctx = (st', ctx') \<Longrightarrow> receiveds ctx = nr \<Longrightarrow> account (win_stub w) st' ctx' ns (Suc nr)"
    using assms by (cases st) (auto simp: method_defs simp del: account.simps(1) intro: win_active_recv_account)
  show "win_state_ready w st ctx events = (st', ctx') \<Longrightarrow> account (win_stub w) st' ctx' ns nr"
  proof (cases st)
    case (Active a)
    then show "win_state_ready w st ctx events = (st', ctx') \<Longrightarrow> account (win_stub w) st' ctx' ns nr"
      using win_active_ready_account assms by simp
  next
    case (HandshakeTx s proto_ids)
    then show "win_state_ready w st ctx events = (st', ctx') \<Longrightarrow> account (win_stub w) st' ctx' ns nr"
      using assms send_handshake_law [of s proto_ids]
      by (auto simp: win_machine_defs enter_defs into_defs tx_send_handshake_def Let_def split: if_splits prod.splits sum.splits)
  next
    case (HandshakeRx s proto_ids)
    then show "win_state_ready w st ctx events = (st', ctx') \<Longrightarrow> account (win_stub w) st' ctx' ns nr"
      using assms recv_handshake_law [of s proto_ids]
      by (auto simp: void_law win_machine_defs into_defs rx_recv_handshake_def raise_and_resync_readiness_def Let_def
          split: if_splits prod.splits sum.splits)
  qed (use assms in \<open>auto simp: method_defs\<close>)
qed

lemma win_step_account:
  assumes "pipe_state_cell p = Some st" and "account (win_stub w) st ctx ns nr" and "win_pipe_step w i (p, ctx) = (p', ctx')"
    and "is_send i \<longrightarrow> sents ctx = ns" and "i = Command PipeRecv \<longrightarrow> receiveds ctx = nr"
  shows "\<exists>st'. pipe_state_cell p' = Some st' \<and>
    account (win_stub w) st' ctx' (ns + of_bool (is_send i)) (nr + of_bool (i = Command PipeRecv))"
  using assms win_state_account [OF assms(2)]
  by (cases rule: pipe_input_cases [of i]) (auto simp: async_pipe_apply_def split: prod.splits)

lemma win_run_account:
  assumes "pipe_state_cell p = Some st" and "account (win_stub w) st ctx ns nr" and "win_polite w inputs (p, ctx) ns nr"
    and "win_pipe_run w inputs (p, ctx) = (p', ctx')"
  shows "\<exists>st'. pipe_state_cell p' = Some st' \<and> account (win_stub w) st' ctx' (ns + sends inputs) (nr + recvs inputs)"
  using assms
proof (induction inputs arbitrary: p ctx st ns nr)
  case (Cons i inputs)
  obtain p1 ctx1 where step: "win_pipe_step w i (p, ctx) = (p1, ctx1)" by (cases "win_pipe_step w i (p, ctx)")
  from win_step_account [OF Cons.prems(1,2) step] Cons.prems(3) obtain st1 where
    st1: "pipe_state_cell p1 = Some st1" "account (win_stub w) st1 ctx1 (ns + of_bool (is_send i)) (nr + of_bool (i = Command PipeRecv))" by auto
  have "win_polite w inputs (p1, ctx1) (ns + of_bool (is_send i)) (nr + of_bool (i = Command PipeRecv))"
    using Cons.prems(3) step by simp
  moreover have "win_pipe_run w inputs (p1, ctx1) = (p', ctx')" using Cons.prems(4) step by (simp add: win_pipe_run_def)
  moreover have "sends (i # inputs) = of_bool (is_send i) + sends inputs" "recvs (i # inputs) = of_bool (i = Command PipeRecv) + recvs inputs"
    by (simp_all add: sends_def recvs_def)
  ultimately show ?case using Cons.IH [OF st1] by (simp only: add.assoc)
qed (simp add: win_pipe_run_def sends_def recvs_def)

end

section \<open>Windows and Unix\<close>

text \<open>
  The calls that exist on Windows only move no byte: they may change the pace of the stream and
  nothing else. So a pipe on Windows does what a pipe on Unix does at another pace. The locale
  \<open>paced_stub\<close> says so of a stub: \<open>pace y\<close> gives its stream the pace \<open>y\<close>, and every operation
  gives, at some pace, the same result and ends at any pace that is asked for.
\<close>

fun map_stub :: "('s \<Rightarrow> 's) \<Rightarrow> 's pipe_state \<Rightarrow> 's pipe_state" where
  "map_stub f (Initial s proto_ids) = Initial (f s) proto_ids"
| "map_stub f (HandshakeTx s proto_ids) = HandshakeTx (f s) proto_ids"
| "map_stub f (HandshakeRx s proto_ids) = HandshakeRx (f s) proto_ids"
| "map_stub f (Active a) = Active (a\<lparr>act_stub := f (act_stub a)\<rparr>)"
| "map_stub f Dead = Dead"

definition map_pipe :: "('s \<Rightarrow> 's) \<Rightarrow> 's async_pipe \<Rightarrow> 's async_pipe" where
  "map_pipe f p = p\<lparr>pipe_state_cell := map_option (map_stub f) (pipe_state_cell p)\<rparr>"

text \<open>
  From any context with the same events, \<open>g\<close> ends as \<open>r\<close> says, but for \<open>f\<close> on the stub and for the
  registrations.
\<close>

definition mirrors :: "('s \<Rightarrow> 's) \<Rightarrow> pipe_ctx \<Rightarrow> 's pipe_state \<times> pipe_ctx \<Rightarrow> (pipe_ctx \<Rightarrow> 's pipe_state \<times> pipe_ctx) \<Rightarrow> bool" where
  "mirrors f ctx r g \<longleftrightarrow> (\<forall>ctx'. raised ctx' = raised ctx \<longrightarrow> fst (g ctx') = map_stub f (fst r) \<and> raised (snd (g ctx')) = raised (snd r))"

fun no_hang_up :: "pipe_input \<Rightarrow> bool" where
  "no_hang_up (Notify events) \<longleftrightarrow> Hup \<notin> events"
| "no_hang_up _ \<longleftrightarrow> True"

lemmas win_unix_defs = win_progress_defs win_changed_defs raise_and_resync_readiness_def Let_def readable_changed_def writable_changed_def
  on_send_progress_def on_recv_progress_def on_msg_sent_def on_msg_received_def change_can_send_def change_can_recv_def

locale paced_stub =
  fixes w :: "'s win_stub_ops" and pace :: "'p \<Rightarrow> 's \<Rightarrow> 's"
  assumes start_send_pace: "\<exists>y. stub_start_send (win_stub w) (pace y s) msg = map_prod id (pace z) (stub_start_send (win_stub w) s msg)"
    and resume_send_pace: "\<exists>y. stub_resume_send (win_stub w) (pace y s) = map_prod id (pace z) (stub_resume_send (win_stub w) s)"
    and start_recv_pace: "\<exists>y. stub_start_recv (win_stub w) (pace y s) = map_prod id (pace z) (stub_start_recv (win_stub w) s)"
    and resume_recv_pace: "\<exists>y. stub_resume_recv (win_stub w) (pace y s) = map_prod id (pace z) (stub_resume_recv (win_stub w) s)"
    and send_handshake_pace: "\<exists>y. stub_send_handshake (win_stub w) (pace y s) ids = map_prod id (pace z) (stub_send_handshake (win_stub w) s ids)"
    and recv_handshake_pace: "\<exists>y. stub_recv_handshake (win_stub w) (pace y s) ids = map_prod id (pace z) (stub_recv_handshake (win_stub w) s ids)"
    and pending_pace [simp]: "stub_has_pending_send (win_stub w) (pace y s) = stub_has_pending_send (win_stub w) s"
      "stub_has_pending_recv (win_stub w) (pace y s) = stub_has_pending_recv (win_stub w) s"
    and void_pace [simp]: "pace z (win_read_and_write_void w s) = pace z s"
    and registered_pace [simp]: "pace z (win_registered w s) = pace z s"
    and own_pace: "\<exists>z. pace z s = s"
begin

lemma readable_mirror:
  assumes "win_readable_changed w a events ctx = (r, a1, c1)" and "Hup \<notin> events"
  shows "\<exists>y. \<forall>ctx'. raised ctx' = raised ctx \<longrightarrow> (\<exists>c1'. raised c1' = raised c1 \<and>
    readable_changed (win_stub w) (a\<lparr>act_stub := pace y (act_stub a)\<rparr>) events ctx' = (r, a1\<lparr>act_stub := pace z (act_stub a1)\<rparr>, c1'))"
proof (cases "Readable \<in> events \<and> stub_has_pending_recv (win_stub w) (act_stub a)")
  case True
  obtain y where "stub_resume_recv (win_stub w) (pace y (act_stub a)) = map_prod id (pace z) (stub_resume_recv (win_stub w) (act_stub a))"
    using resume_recv_pace by blast
  then show ?thesis using True assms
    by (intro exI [of _ y]) (auto simp: win_unix_defs split: prod.splits sum.splits option.splits)
next
  case False
  then show ?thesis using assms by (intro exI [of _ z]) (auto simp: win_unix_defs split: if_splits)
qed

lemma writable_mirror:
  assumes "win_writable_changed w a events ctx = (r, a1, c1)" and "Hup \<notin> events"
  shows "\<exists>y. \<forall>ctx'. raised ctx' = raised ctx \<longrightarrow> (\<exists>c1'. raised c1' = raised c1 \<and>
    writable_changed (win_stub w) (a\<lparr>act_stub := pace y (act_stub a)\<rparr>) events ctx' = (r, a1\<lparr>act_stub := pace z (act_stub a1)\<rparr>, c1'))"
proof (cases "Writable \<in> events \<and> stub_has_pending_send (win_stub w) (act_stub a)")
  case True
  obtain y where "stub_resume_send (win_stub w) (pace y (act_stub a)) = map_prod id (pace z) (stub_resume_send (win_stub w) (act_stub a))"
    using resume_send_pace by blast
  then show ?thesis using True assms
    by (intro exI [of _ y]) (auto simp: win_unix_defs split: prod.splits sum.splits if_splits)
next
  case False
  then show ?thesis using assms by (intro exI [of _ z]) (auto simp: win_unix_defs split: if_splits)
qed

lemma active_ready_mirror:
  assumes "Hup \<notin> events"
  shows "\<exists>y. mirrors (pace z) ctx (win_active_ready w a ctx events)
    (\<lambda>ctx'. active_ready (win_stub w) (a\<lparr>act_stub := pace y (act_stub a)\<rparr>) ctx' events)"
proof -
  obtain r1 a1 c1 where w1: "win_readable_changed w a events ctx = (r1, a1, c1)" by (cases "win_readable_changed w a events ctx") auto
  obtain r2 a2 c2 where w2: "win_writable_changed w a1 events c1 = (r2, a2, c2)" by (cases "win_writable_changed w a1 events c1") auto
  obtain y2 where u2: "\<forall>c1'. raised c1' = raised c1 \<longrightarrow> (\<exists>c2'. raised c2' = raised c2 \<and>
      writable_changed (win_stub w) (a1\<lparr>act_stub := pace y2 (act_stub a1)\<rparr>) events c1' = (r2, a2\<lparr>act_stub := pace z (act_stub a2)\<rparr>, c2'))"
    using writable_mirror [OF w2 assms] by blast
  obtain y where u1: "\<forall>ctx'. raised ctx' = raised ctx \<longrightarrow> (\<exists>c1'. raised c1' = raised c1 \<and>
      readable_changed (win_stub w) (a\<lparr>act_stub := pace y (act_stub a)\<rparr>) events ctx' = (r1, a1\<lparr>act_stub := pace y2 (act_stub a1)\<rparr>, c1'))"
    using readable_mirror [OF w1 assms] by blast
  have "mirrors (pace z) ctx (win_active_ready w a ctx events) (\<lambda>ctx'. active_ready (win_stub w) (a\<lparr>act_stub := pace y (act_stub a)\<rparr>) ctx' events)"
    unfolding mirrors_def
  proof (intro allI impI)
    fix ctx' :: pipe_ctx assume "raised ctx' = raised ctx"
    then obtain c1' where c1': "raised c1' = raised c1"
      "readable_changed (win_stub w) (a\<lparr>act_stub := pace y (act_stub a)\<rparr>) events ctx' = (r1, a1\<lparr>act_stub := pace y2 (act_stub a1)\<rparr>, c1')" using u1 by blast
    then obtain c2' where "raised c2' = raised c2"
      "writable_changed (win_stub w) (a1\<lparr>act_stub := pace y2 (act_stub a1)\<rparr>) events c1' = (r2, a2\<lparr>act_stub := pace z (act_stub a2)\<rparr>, c2')" using u2 by blast
    then show "fst (active_ready (win_stub w) (a\<lparr>act_stub := pace y (act_stub a)\<rparr>) ctx' events) = map_stub (pace z) (fst (win_active_ready w a ctx events)) \<and>
        raised (snd (active_ready (win_stub w) (a\<lparr>act_stub := pace y (act_stub a)\<rparr>) ctx' events)) = raised (snd (win_active_ready w a ctx events))"
      using w1 w2 c1' assms by (cases r1; cases r2)
        (simp_all add: win_active_ready_def active_ready_def hang_up_changed_def no_transition_if_ok_def state_error_def)
  qed
  then show ?thesis by blast
qed

lemma transfers_mirror:
  "\<exists>y. mirrors (pace z) ctx (win_active_send w a ctx msg) (\<lambda>ctx'. active_send (win_stub w) (a\<lparr>act_stub := pace y (act_stub a)\<rparr>) ctx' msg)"
  "\<exists>y. mirrors (pace z) ctx (win_active_recv w a ctx) (\<lambda>ctx'. active_recv (win_stub w) (a\<lparr>act_stub := pace y (act_stub a)\<rparr>) ctx')"
proof -
  obtain y where "stub_start_send (win_stub w) (pace y (act_stub a)) msg = map_prod id (pace z) (stub_start_send (win_stub w) (act_stub a) msg)"
    using start_send_pace by blast
  then show "\<exists>y. mirrors (pace z) ctx (win_active_send w a ctx msg) (\<lambda>ctx'. active_send (win_stub w) (a\<lparr>act_stub := pace y (act_stub a)\<rparr>) ctx' msg)"
    by (intro exI [of _ y]) (auto simp: win_active_send_def active_send_def win_unix_defs mirrors_def
      no_transition_if_ok_def state_error_def split: prod.splits sum.splits)
  obtain y where "stub_start_recv (win_stub w) (pace y (act_stub a)) = map_prod id (pace z) (stub_start_recv (win_stub w) (act_stub a))"
    using start_recv_pace by blast
  then show "\<exists>y. mirrors (pace z) ctx (win_active_recv w a ctx) (\<lambda>ctx'. active_recv (win_stub w) (a\<lparr>act_stub := pace y (act_stub a)\<rparr>) ctx')"
    by (intro exI [of _ y]) (auto simp: win_active_recv_def active_recv_def win_unix_defs mirrors_def
      no_transition_if_ok_def state_error_def split: prod.splits sum.splits option.splits)
qed

lemmas mirror_defs = mirrors_def win_machine_defs raise_and_resync_readiness_def method_defs enter_defs into_defs Let_def
  transition_def transition_if_ok_def tx_send_handshake_def rx_recv_handshake_def handshake_tx_ready_def handshake_rx_ready_def

lemma state_ready_mirror:
  assumes "Hup \<notin> events"
  shows "\<exists>y. mirrors (pace z) ctx (win_state_ready w st ctx events) (\<lambda>ctx'. state_ready (win_stub w) (map_stub (pace y) st) ctx' events)"
proof (cases st)
  case (HandshakeTx s ids)
  obtain y where y: "stub_send_handshake (win_stub w) (pace y s) ids = map_prod id (pace z) (stub_send_handshake (win_stub w) s ids)"
    using send_handshake_pace by blast
  show ?thesis using HandshakeTx y
    by (intro exI [of _ "if Writable \<in> events then y else z"]) (auto simp: mirror_defs split: prod.splits sum.splits)
next
  case (HandshakeRx s ids)
  obtain y where y: "stub_recv_handshake (win_stub w) (pace y s) ids = map_prod id (pace z) (stub_recv_handshake (win_stub w) s ids)"
    using recv_handshake_pace by blast
  show ?thesis using HandshakeRx y
    by (intro exI [of _ "if Readable \<in> events then y else z"]) (auto simp: mirror_defs split: prod.splits sum.splits)
next
  case (Active a)
  then show ?thesis using active_ready_mirror [OF assms] by simp
qed (auto simp: mirror_defs)

lemma state_mirror:
  "\<exists>y. mirrors (pace z) ctx (win_state_open w st ctx) (\<lambda>ctx'. state_open (map_stub (pace y) st) ctx')"
  "\<exists>y. mirrors (pace z) ctx (win_state_close st ctx) (\<lambda>ctx'. state_close (map_stub (pace y) st) ctx')"
  "\<exists>y. mirrors (pace z) ctx (win_state_send w st ctx msg) (\<lambda>ctx'. state_send (win_stub w) (map_stub (pace y) st) ctx' msg)"
  "\<exists>y. mirrors (pace z) ctx (win_state_recv w st ctx) (\<lambda>ctx'. state_recv (win_stub w) (map_stub (pace y) st) ctx')"
  subgoal by (intro exI [of _ z], cases st) (auto simp: mirror_defs)
  subgoal by (intro exI [of _ z], cases st) (auto simp: mirror_defs)
  subgoal using transfers_mirror(1) by (cases st) (auto simp: mirror_defs)
  subgoal using transfers_mirror(2) by (cases st) (auto simp: mirror_defs)
  done

lemma apply_mirror:
  assumes "\<And>st. \<exists>y. mirrors (pace z) ctx (f st ctx) (\<lambda>ctx'. g (map_stub (pace y) st) ctx')" and "async_pipe_apply f p ctx = (p1, c1)"
  shows "\<exists>y. \<forall>ctx'. raised ctx' = raised ctx \<longrightarrow>
    (\<exists>c1'. raised c1' = raised c1 \<and> async_pipe_apply g (map_pipe (pace y) p) ctx' = (map_pipe (pace z) p1, c1'))"
proof (cases "pipe_state_cell p")
  case (Some st)
  obtain y where "mirrors (pace z) ctx (f st ctx) (\<lambda>ctx'. g (map_stub (pace y) st) ctx')" using assms(1) by blast
  then show ?thesis using Some assms(2)
    by (intro exI [of _ y]) (auto simp: async_pipe_apply_def mirrors_def map_pipe_def split: prod.splits)
qed (use assms(2) in \<open>auto simp: async_pipe_apply_def map_pipe_def\<close>)

lemma step_mirror:
  assumes "win_pipe_step w i (p, ctx) = (p1, c1)" and "no_hang_up i"
  shows "\<exists>y. \<forall>ctx'. raised ctx' = raised ctx \<longrightarrow>
    (\<exists>c1'. raised c1' = raised c1 \<and> pipe_step (win_stub w) i (map_pipe (pace y) p, ctx') = (map_pipe (pace z) p1, c1'))"
  using assms
  by (cases rule: pipe_input_cases [of i])
    (simp_all add: async_pipe_open_def async_pipe_close_def async_pipe_send_def async_pipe_recv_def async_pipe_ready_def;
      erule apply_mirror [rotated]; rule state_mirror state_ready_mirror; assumption?)+

lemma run_mirror:
  assumes "win_pipe_run w inputs (p, ctx) = (p1, c1)" and "list_all no_hang_up inputs"
  shows "\<exists>y. \<forall>ctx'. raised ctx' = raised ctx \<longrightarrow>
    (\<exists>c1'. raised c1' = raised c1 \<and> pipe_run (win_stub w) inputs (map_pipe (pace y) p, ctx') = (map_pipe (pace z) p1, c1'))"
  using assms
proof (induction inputs arbitrary: p ctx)
  case (Cons i inputs)
  obtain p2 c2 where w2: "win_pipe_step w i (p, ctx) = (p2, c2)" by (cases "win_pipe_step w i (p, ctx)")
  then obtain y2 where tail: "\<forall>ctx'. raised ctx' = raised c2 \<longrightarrow>
      (\<exists>c1'. raised c1' = raised c1 \<and> pipe_run (win_stub w) inputs (map_pipe (pace y2) p2, ctx') = (map_pipe (pace z) p1, c1'))"
    using Cons.IH [of p2 c2] Cons.prems by (auto simp: win_pipe_run_def)
  obtain y where "\<forall>ctx'. raised ctx' = raised ctx \<longrightarrow>
      (\<exists>c2'. raised c2' = raised c2 \<and> pipe_step (win_stub w) i (map_pipe (pace y) p, ctx') = (map_pipe (pace y2) p2, c2'))"
    using step_mirror [OF w2] Cons.prems(2) by fastforce
  then show ?case using tail by (intro exI [of _ y]) (fastforce simp: pipe_run_def)
qed (auto simp: win_pipe_run_def pipe_run_def)

lemma own_state_pace: "\<exists>z. map_stub (pace z) st = st"
proof (cases st)
  case (Active a)
  obtain z where "pace z (act_stub a) = act_stub a" using own_pace by blast
  then show ?thesis using Active by (intro exI [of _ z]) simp
qed (use own_pace in auto)

lemma own_pipe_pace: "\<exists>z. map_pipe (pace z) p = p"
proof (cases "pipe_state_cell p")
  case (Some st)
  obtain z where "map_stub (pace z) st = st" using own_state_pace by blast
  then show ?thesis using Some by (intro exI [of _ z]) (simp add: map_pipe_def)
qed (simp add: map_pipe_def)

lemma windows_run_is_unix_run:
  assumes "win_pipe_run w inputs (p, []) = (p1, c1)" and "list_all no_hang_up inputs"
  shows "\<exists>y c1'. pipe_run (win_stub w) inputs (map_pipe (pace y) p, []) = (p1, c1') \<and> raised c1' = raised c1"
proof -
  obtain z where "map_pipe (pace z) p1 = p1" using own_pipe_pace by blast
  then show ?thesis using run_mirror [OF assms, of z] by (metis (no_types))
qed

end


subsection \<open>The TCP stub\<close>

definition set_pace :: "io_step list \<Rightarrow> stream \<Rightarrow> stream" where
  "set_pace y s = s\<lparr>st_script := y\<rparr>"

definition tcp_pace :: "io_step list \<Rightarrow> tcp_pipe_stub \<Rightarrow> tcp_pipe_stub" where
  "tcp_pace y stub = stub\<lparr>tcp_stream := set_pace y (tcp_stream stub)\<rparr>"

lemma stream_pace:
  "\<exists>y. stream_read (set_pace y s) n = map_prod id (set_pace z) (stream_read s n)"
  "\<exists>y. stream_write (set_pace y s) bs = map_prod id (set_pace z) (stream_write s bs)"
  by (rule exI [of _ "(case st_script s of [] \<Rightarrow> Fail blocked | x # _ \<Rightarrow> x) # z"],
      auto simp: stream_defs set_pace_def split: list.splits io_step.splits)+

lemma pace_void [simp]: "set_pace z (stream_void s) = set_pace z s"
  by (cases s) (auto simp: stream_void_def stream_defs set_pace_def split: list.splits io_step.splits)

lemma handshake_pace:
  "\<exists>y. send_and_check_handshake bo (set_pace y s) ids = map_prod id (set_pace z) (send_and_check_handshake bo s ids)"
  "\<exists>y. recv_and_check_handshake bo (set_pace y s) ids = map_prod id (set_pace z) (recv_and_check_handshake bo s ids)"
proof -
  obtain y where "stream_write (set_pace y s) (create_handshake bo (fst ids)) = map_prod id (set_pace z) (stream_write s (create_handshake bo (fst ids)))"
    using stream_pace(2) by blast
  then show "\<exists>y. send_and_check_handshake bo (set_pace y s) ids = map_prod id (set_pace z) (send_and_check_handshake bo s ids)"
    by (intro exI [of _ y]) (auto simp: send_and_check_handshake_def split: prod.splits sum.splits)
  obtain y where "stream_read (set_pace y s) 8 = map_prod id (set_pace z) (stream_read s 8)"
    using stream_pace(1) by blast
  then show "\<exists>y. recv_and_check_handshake bo (set_pace y s) ids = map_prod id (set_pace z) (recv_and_check_handshake bo s ids)"
    by (intro exI [of _ y]) (auto simp: recv_and_check_handshake_def split: prod.splits sum.splits)
qed

lemma tcp_write_pace: "\<exists>y. tcp_write_buffer (set_pace y s) bs = map_prod id (set_pace z) (tcp_write_buffer s bs)"
proof -
  obtain y where "stream_write (set_pace y s) bs = map_prod id (set_pace z) (stream_write s bs)" using stream_pace(2) by blast
  then show ?thesis by (intro exI [of _ y]) (auto simp: tcp_write_buffer_def split: prod.splits)
qed

lemma read_buffer_pace: "\<exists>y. read_buffer (set_pace y s) buf pos = map_prod id (set_pace z) (read_buffer s buf pos)"
proof -
  obtain y where "stream_read (set_pace y s) (length buf - pos) = map_prod id (set_pace z) (stream_read s (length buf - pos))"
    using stream_pace(1) by blast
  then show ?thesis by (intro exI [of _ y]) (auto simp: read_buffer_def split: prod.splits sum.splits)
qed

lemma tcp_writes_flat:
  "(if length h = 0 then (if length b = 0 then tcp_write_buffer s t else tcp_write_buffers s [t, b])
    else (if length b = 0 then tcp_write_buffers s [t, h] else tcp_write_buffers s [t, h, b])) = tcp_write_buffer s (t @ h @ b)"
  "(if k = 0 then t else drop k t) = drop k t"
  "(if k = 0 then tcp_write_buffers s [t, h] else tcp_write_buffers s [drop k t, h]) = tcp_write_buffer s (drop k t @ h)"
  "(if k = 0 then tcp_write_buffer s t else tcp_write_buffer s (drop k t)) = tcp_write_buffer s (drop k t)"
  by (simp_all add: tcp_write_buffers_def tcp_write_buffer_def stream_write_bufs_def)

lemma tcp_send_advance_pace: "\<exists>y. tcp_send_advance bo step (set_pace y s) = map_prod id (set_pace z) (tcp_send_advance bo step s)"
proof (cases step)
  case (TcpTransportHdr msg k)
  obtain y where "tcp_write_buffer (set_pace y s) (drop k (write_u64 bo (of_nat (message_len msg))) @ get_header msg @ get_body msg) =
      map_prod id (set_pace z) (tcp_write_buffer s (drop k (write_u64 bo (of_nat (message_len msg))) @ get_header msg @ get_body msg))"
    using tcp_write_pace by blast
  then show ?thesis unfolding TcpTransportHdr tcp_send_advance.simps tcp_write_transport_hdr_def Let_def tcp_writes_flat(1,2)
    by (intro exI [of _ y]) (auto split: prod.split sum.split)
next
  case (TcpProtocolHdr msg k)
  obtain y where "tcp_write_buffer (set_pace y s) (drop k (get_header msg) @ get_body msg) =
      map_prod id (set_pace z) (tcp_write_buffer s (drop k (get_header msg) @ get_body msg))"
    using tcp_write_pace by blast
  then show ?thesis unfolding TcpProtocolHdr tcp_send_advance.simps tcp_write_protocol_hdr_def Let_def tcp_writes_flat(3)
    by (intro exI [of _ y]) (auto split: prod.split sum.split)
next
  case (TcpUsrPayload msg k)
  obtain y where "tcp_write_buffer (set_pace y s) (drop k (get_body msg)) = map_prod id (set_pace z) (tcp_write_buffer s (drop k (get_body msg)))"
    using tcp_write_pace by blast
  then show ?thesis unfolding TcpUsrPayload tcp_send_advance.simps tcp_write_usr_payload_def Let_def tcp_writes_flat(4)
    by (intro exI [of _ y]) (auto split: prod.split sum.split)
qed auto

lemma tcp_recv_advance_pace: "\<exists>y. tcp_recv_advance bo step (set_pace y s) = map_prod id (set_pace z) (tcp_recv_advance bo step s)"
proof (cases step)
  case (TcpHeader buffer k limit)
  obtain y where "read_buffer (set_pace y s) buffer k = map_prod id (set_pace z) (read_buffer s buffer k)" using read_buffer_pace by blast
  then show ?thesis unfolding TcpHeader
    by (intro exI [of _ y]) (auto simp: tcp_read_header_def Let_def split: prod.splits sum.splits)
next
  case (TcpPayload buffer k)
  obtain y where "read_buffer (set_pace y s) buffer k = map_prod id (set_pace z) (read_buffer s buffer k)" using read_buffer_pace by blast
  then show ?thesis unfolding TcpPayload
    by (intro exI [of _ y]) (auto simp: tcp_read_payload_def Let_def split: prod.splits sum.splits)
qed auto

lemma tcp_send_resume_pace:
  "\<exists>y. tcp_send_resume_at bo op (set_pace y s) step = map_prod id (map_prod id (set_pace z)) (tcp_send_resume_at bo op s step)"
proof (induction bo op s step rule: tcp_send_resume_at.induct)
  case (1 bo op s step)
  obtain r s' where adv: "tcp_send_advance bo step s = (r, s')" by (cases "tcp_send_advance bo step s")
  have y: "\<exists>y. tcp_send_advance bo step (set_pace y s) = (r, set_pace x s')" for x
    using tcp_send_advance_pace [of bo step s x] adv by simp
  show ?case
  proof (cases "\<exists>after. r = Inr (True, after) \<and> \<not> tcp_send_is_terminal after")
    case True
    then obtain after where after: "r = Inr (True, after)" "\<not> tcp_send_is_terminal after" by blast
    have "\<exists>x. tcp_send_resume_at bo op (set_pace x s') after = map_prod id (map_prod id (set_pace z)) (tcp_send_resume_at bo op s' after)"
      using "1" adv after by (auto simp: id_def)
    then obtain x where x: "tcp_send_resume_at bo op (set_pace x s') after = map_prod id (map_prod id (set_pace z)) (tcp_send_resume_at bo op s' after)" by blast
    obtain y where "tcp_send_advance bo step (set_pace y s) = (r, set_pace x s')" using y by blast
    then show ?thesis using x adv after by (intro exI [of _ y]) (simp add: id_def tcp_send_resume_at.simps [where step = step])
  next
    case False
    obtain y where "tcp_send_advance bo step (set_pace y s) = (r, set_pace z s')" using y by blast
    then show ?thesis using adv False
      by (intro exI [of _ y]) (auto simp: tcp_send_resume_at.simps [where step = step] split: sum.splits prod.splits)
  qed
qed

lemma tcp_recv_resume_pace:
  "\<exists>y. tcp_recv_resume_at bo op (set_pace y s) step = map_prod id (map_prod id (set_pace z)) (tcp_recv_resume_at bo op s step)"
proof (induction bo op s step rule: tcp_recv_resume_at.induct)
  case (1 bo op s step)
  obtain r s' where adv: "tcp_recv_advance bo step s = (r, s')" by (cases "tcp_recv_advance bo step s")
  have y: "\<exists>y. tcp_recv_advance bo step (set_pace y s) = (r, set_pace x s')" for x
    using tcp_recv_advance_pace [of bo step s x] adv by simp
  show ?case
  proof (cases "\<exists>after. r = Inr (True, after) \<and> (\<forall>msg. after \<noteq> TcpRecvTerminal msg)")
    case True
    then obtain after where after: "r = Inr (True, after)" "\<forall>msg. after \<noteq> TcpRecvTerminal msg" by blast
    have "\<exists>x. tcp_recv_resume_at bo op (set_pace x s') after = map_prod id (map_prod id (set_pace z)) (tcp_recv_resume_at bo op s' after)"
      using "1" adv after by (cases after) (auto simp: id_def)
    then obtain x where x: "tcp_recv_resume_at bo op (set_pace x s') after = map_prod id (map_prod id (set_pace z)) (tcp_recv_resume_at bo op s' after)" by blast
    obtain y where "tcp_recv_advance bo step (set_pace y s) = (r, set_pace x s')" using y by blast
    then show ?thesis using x adv after by (intro exI [of _ y], cases after) (simp_all add: id_def tcp_recv_resume_at.simps [where step = step])
  next
    case False
    obtain y where "tcp_recv_advance bo step (set_pace y s) = (r, set_pace z s')" using y by blast
    then show ?thesis using adv False
      by (intro exI [of _ y]) (auto simp: tcp_recv_resume_at.simps [where step = step] split: sum.splits prod.splits tcp_recv_step.splits)
  qed
qed

lemma tcp_operations_pace:
  "\<exists>y. tcp_run_send_operation bo (tcp_pace y stub) op = map_prod id (tcp_pace z) (tcp_run_send_operation bo stub op)"
  "\<exists>y. tcp_run_recv_operation bo (tcp_pace y stub) rop = map_prod id (tcp_pace z) (tcp_run_recv_operation bo stub rop)"
proof -
  have "\<exists>y. tcp_send_run bo op (set_pace y s) = map_prod id (map_prod id (set_pace z)) (tcp_send_run bo op s)" for s
    using tcp_send_resume_pace by (auto simp: tcp_send_run_def split: option.splits)
  then obtain y where "tcp_send_run bo op (set_pace y (tcp_stream stub)) = map_prod id (map_prod id (set_pace z)) (tcp_send_run bo op (tcp_stream stub))"
    by blast
  then show "\<exists>y. tcp_run_send_operation bo (tcp_pace y stub) op = map_prod id (tcp_pace z) (tcp_run_send_operation bo stub op)"
    by (intro exI [of _ y]) (auto simp: tcp_run_send_operation_def tcp_pace_def split: prod.splits sum.splits bool.splits)
  have "\<exists>y. tcp_recv_run bo rop (set_pace y s) = map_prod id (map_prod id (set_pace z)) (tcp_recv_run bo rop s)" for s
    using tcp_recv_resume_pace by (auto simp: tcp_recv_run_def split: option.splits)
  then obtain y where "tcp_recv_run bo rop (set_pace y (tcp_stream stub)) = map_prod id (map_prod id (set_pace z)) (tcp_recv_run bo rop (tcp_stream stub))"
    by blast
  then show "\<exists>y. tcp_run_recv_operation bo (tcp_pace y stub) rop = map_prod id (tcp_pace z) (tcp_run_recv_operation bo stub rop)"
    by (intro exI [of _ y]) (auto simp: tcp_run_recv_operation_def tcp_pace_def split: prod.splits sum.splits option.splits)
qed


interpretation win_tcp_paced: paced_stub "win_tcp_ops bo" tcp_pace for bo
proof unfold_locales
  fix s :: tcp_pipe_stub and z :: "io_step list" and msg :: message and ids :: "u16 \<times> u16"
  note defs = win_tcp_ops_def tcp_ops_def
  show "\<exists>y. stub_start_send (win_stub (win_tcp_ops bo)) (tcp_pace y s) msg =
      map_prod id (tcp_pace z) (stub_start_send (win_stub (win_tcp_ops bo)) s msg)"
    using tcp_operations_pace(1) by (simp add: defs tcp_start_send_def)
  show "\<exists>y. stub_start_recv (win_stub (win_tcp_ops bo)) (tcp_pace y s) =
      map_prod id (tcp_pace z) (stub_start_recv (win_stub (win_tcp_ops bo)) s)"
    using tcp_operations_pace(2) [of bo s "tcp_recv_new (tcp_recv_max_size s)"] by (simp add: defs tcp_start_recv_def tcp_pace_def)
  show "\<exists>y. stub_resume_send (win_stub (win_tcp_ops bo)) (tcp_pace y s) =
      map_prod id (tcp_pace z) (stub_resume_send (win_stub (win_tcp_ops bo)) s)"
    using tcp_operations_pace(1) [of bo "s\<lparr>tcp_send_op := None\<rparr>"]
    by (cases s) (auto simp: defs tcp_resume_send_def tcp_pace_def split: option.split)
  show "\<exists>y. stub_resume_recv (win_stub (win_tcp_ops bo)) (tcp_pace y s) =
      map_prod id (tcp_pace z) (stub_resume_recv (win_stub (win_tcp_ops bo)) s)"
    using tcp_operations_pace(2) [of bo "s\<lparr>tcp_recv_op := None\<rparr>"]
    by (cases s) (auto simp: defs tcp_resume_recv_def tcp_pace_def split: option.split)
  obtain y where "send_and_check_handshake bo (set_pace y (tcp_stream s)) ids = map_prod id (set_pace z) (send_and_check_handshake bo (tcp_stream s) ids)"
    using handshake_pace(1) by blast
  then show "\<exists>y. stub_send_handshake (win_stub (win_tcp_ops bo)) (tcp_pace y s) ids =
      map_prod id (tcp_pace z) (stub_send_handshake (win_stub (win_tcp_ops bo)) s ids)"
    by (intro exI [of _ y]) (auto simp: defs tcp_send_handshake_def tcp_pace_def split: prod.splits)
  obtain y where "recv_and_check_handshake bo (set_pace y (tcp_stream s)) ids = map_prod id (set_pace z) (recv_and_check_handshake bo (tcp_stream s) ids)"
    using handshake_pace(2) by blast
  then show "\<exists>y. stub_recv_handshake (win_stub (win_tcp_ops bo)) (tcp_pace y s) ids =
      map_prod id (tcp_pace z) (stub_recv_handshake (win_stub (win_tcp_ops bo)) s ids)"
    by (intro exI [of _ y]) (auto simp: defs tcp_recv_handshake_def tcp_pace_def split: prod.splits)
  show "\<exists>z. tcp_pace z s = s" by (rule exI [of _ "st_script (tcp_stream s)"]) (simp add: tcp_pace_def set_pace_def)
qed (simp_all add: win_tcp_ops_def tcp_ops_def tcp_pace_def tcp_has_pending_send_def tcp_has_pending_recv_def tcp_read_and_write_void_def
    default_registered_def)

lemma win_ipc_made:
  assumes "WinIpcPipe pipe = win_ipc_create_pipe acc s \<or> fst (win_ipc_connect os w dest) = Inr (WinIpcPipe pipe)"
  shows "\<exists>stub proto_ids. pipe = async_pipe_new stub proto_ids \<and> \<not> win_ipc_has_pending_send stub \<and> \<not> win_ipc_has_pending_recv stub"
proof -
  have "\<not> win_ipc_has_pending_send (win_ipc_new_server s m)" "\<not> win_ipc_has_pending_recv (win_ipc_new_server s m)"
    "\<not> win_ipc_has_pending_send (win_ipc_new_client s m)" "\<not> win_ipc_has_pending_recv (win_ipc_new_client s m)" for s m
    by (simp_all add: win_ipc_has_pending_send_def win_ipc_has_pending_recv_def win_ipc_new_server_def win_ipc_new_client_def)
  then show ?thesis using assms
    by (auto simp: win_ipc_create_pipe_def win_ipc_connect_def simp del: split_paired_Ex split: prod.splits sum.splits)
qed

section \<open>Properties\<close>

text \<open>
  (C17) What a TCP pipe does on Windows, a TCP pipe on Unix does at some pace of its stream: as long
  as no hang-up is notified, which Windows does not ask for, every run of the Windows state
  machine, with its void transfers, is a run of the Unix one that gets the same commands and
  notifications, raises the same events and ends in the same state, bytes read and written included.
  So what is shown of TCP pipes at every pace holds on Windows too.
\<close>

theorem windows_pipe_mirrors_unix:
  assumes "list_all no_hang_up inputs"
    and "win_pipe_run (win_tcp_ops bo) inputs (async_pipe_new (tcp_stub_new s limit) proto_ids, []) = (p, ctx)"
  shows "\<exists>script ctx'. raised ctx' = raised ctx \<and>
    pipe_run (tcp_ops bo) inputs (async_pipe_new (tcp_stub_new (s\<lparr>st_script := script\<rparr>) limit) proto_ids, []) = (p, ctx')"
  using win_tcp_paced.windows_run_is_unix_run [OF assms(2,1)]
  by (auto simp: win_tcp_ops_def map_pipe_def async_pipe_new_def tcp_pace_def set_pace_def tcp_stub_new_def)

text \<open>
  (C18) On Windows too the events of an IPC pipe come in order and no transfer is lost or reported
  twice, whatever the named pipe and the operating system answer, the void transfers included, for
  the server pipes that an acceptor makes and for the client pipes that \<open>connect\<close> makes: the
  pipe raises \<open>Opened\<close> first, an error last, and, when its client waits for the answer to a send
  (or a receive) before the next one, one \<open>Sent\<close> per send and one \<open>Received\<close> per receive but for
  the operations that are still pending.
\<close>

theorem windows_ipc_pipe_accounts:
  assumes "WinIpcPipe pipe = win_ipc_create_pipe acc s \<or> fst (win_ipc_connect os w dest) = Inr (WinIpcPipe pipe)"
    and "win_polite (win_ipc_ops bo os) inputs (pipe, []) 0 0"
    and "win_pipe_run (win_ipc_ops bo os) inputs (pipe, []) = (p, ctx)"
  shows "pipe_trace (raised ctx) \<and> sents ctx \<le> sends inputs \<and> receiveds ctx \<le> recvs inputs \<and>
    (\<forall>a. pipe_state_cell p = Some (Active a) \<longrightarrow>
       sends inputs = sents ctx + of_bool (win_ipc_has_pending_send (act_stub a)) \<and>
       recvs inputs = receiveds ctx + of_bool (win_ipc_has_pending_recv (act_stub a)))"
proof -
  obtain stub proto_ids where pipe: "pipe = async_pipe_new stub proto_ids"
    and idle: "\<not> win_ipc_has_pending_send stub" "\<not> win_ipc_has_pending_recv stub"
    using win_ipc_made [OF assms(1)] by blast
  have "account (win_stub (win_ipc_ops bo os)) (Initial stub proto_ids) [] 0 0" using idle by (simp add: win_ipc_ops_def)
  then obtain st where st: "pipe_state_cell p = Some st" "account (win_stub (win_ipc_ops bo os)) st ctx (sends inputs) (recvs inputs)"
    using win_ipc_stub.win_run_account [where st = "Initial stub proto_ids", OF _ _ assms(2,3)] by (auto simp: pipe async_pipe_new_def)
  obtain st' where st': "pipe_state_cell p = Some st'" "trace_inv st' (raised ctx)"
    using win_run_trace [where st = "Initial stub proto_ids", OF _ _ assms(3)] by (auto simp: pipe async_pipe_new_def)
  have "pipe_trace (raised ctx)" using st'(2) by (cases st') auto
  then show ?thesis using st by (cases st) (auto simp: win_ipc_ops_def)
qed

text \<open>
  The acceptor of named pipes makes one pipe, when it is opened, and is deaf afterwards: whatever
  it is notified of, it offers one peer or reports one error.
\<close>

theorem windows_acceptor_offers_one_peer:
  "fold (\<lambda>events ctx. win_ipc_acceptor_ready ctx events) notifications (fst (win_ipc_acceptor_open os w a [])) =
     [AcceptorRaise AcceptorOpened,
      AcceptorRaise (case fst (wos_named_pipe_new os w (named_pipe_name (wia_addr a))) of
        Inr named_pipe \<Rightarrow> Accepted [win_ipc_create_pipe a named_pipe]
      | Inl e \<Rightarrow> AcceptorError e)]"
proof -
  have "fold (\<lambda>events ctx. win_ipc_acceptor_ready ctx events) notifications ctx = ctx" for ctx
    by (induction notifications) (simp_all add: win_ipc_acceptor_ready_def)
  then show ?thesis
    by (simp add: win_ipc_acceptor_open_def win_ipc_acceptor_connect_def acceptor_raise_def Let_def split: prod.splits sum.splits)
qed

text \<open>A client reaches the server bound to its address and no other: the names agree exactly when the addresses do.\<close>

lemma named_pipe_names_agree: "named_pipe_name addr = named_pipe_name addr' \<longleftrightarrow> addr = addr'"
  by (simp add: named_pipe_name_def)

text \<open>Witnesses.\<close>

definition demo_windows_stream :: stream where
  "demo_windows_stream = \<lparr>st_in = create_handshake be_instance 48, st_out = [],
     st_script = [Progress 8, Progress 8, Fail blocked, Progress 0, Progress 100, Progress 0]\<rparr>"

lemma demo_windows_run:
  "raised (snd (win_pipe_run (win_tcp_ops be_instance) demo_inputs (async_pipe_new (tcp_stub_new demo_windows_stream 0) (49, 48), []))) =
     [PipeOpened, PipeCanSend True, PipeSent]"
  by (simp add: demo_windows_stream_def pipe_eval win_pipe_run_def win_machine_defs win_unix_defs win_active_ready_def win_active_send_def
      win_tcp_ops_def tcp_read_and_write_void_def default_registered_def stream_void_def)

theorem windows_pipe_mirrors_unix_witness:
  "\<exists>script p ctx. raised ctx = [PipeOpened, PipeCanSend True, PipeSent] \<and>
     pipe_run (tcp_ops be_instance) demo_inputs (async_pipe_new (tcp_stub_new (demo_windows_stream\<lparr>st_script := script\<rparr>) 0) (49, 48), []) = (p, ctx)"
proof -
  let ?run = "win_pipe_run (win_tcp_ops be_instance) demo_inputs (async_pipe_new (tcp_stub_new demo_windows_stream 0) (49, 48), [])"
  obtain p ctx where w: "?run = (p, ctx)" by (cases ?run)
  have "list_all no_hang_up demo_inputs" by (simp add: demo_inputs_def)
  from windows_pipe_mirrors_unix [OF this w] show ?thesis using demo_windows_run w by auto
qed

definition demo_named_stream :: stream where
  "demo_named_stream = \<lparr>st_in = create_handshake be_instance 48, st_out = [],
     st_script = [Progress 8, Progress 8, Fail blocked, Progress 0, Progress 100, Progress 100, Progress 100]\<rparr>"

definition demo_windows_os :: "unit windows_os" where
  "demo_windows_os = \<lparr>wos_named_pipe_new = \<lambda>w _. (Inr demo_named_stream, w), wos_open_file = \<lambda>w _. (Inr demo_named_stream, w),
     wos_connect = \<lambda>s. (Inr (), s)\<rparr>"

definition demo_server_pipe :: "win_ipc_stub async_pipe" where
  "demo_server_pipe = async_pipe_new (win_ipc_new_server demo_named_stream 0) (49, 48)"

definition demo_client_pipe :: "win_ipc_stub async_pipe" where
  "demo_client_pipe = async_pipe_new (win_ipc_new_client demo_named_stream 0) (49, 48)"

definition demo_destination :: destination where
  "demo_destination = \<lparr>dest_addr = ''x'', dest_pids = (49, 48), dest_tcp_no_delay = False, dest_recv_max_size = 0\<rparr>"

lemma demo_pipes_made:
  "WinIpcPipe demo_server_pipe = win_ipc_create_pipe (win_ipc_acceptor_new ''x'' (49, 48) 0) demo_named_stream"
  "fst (win_ipc_connect demo_windows_os () demo_destination) = Inr (WinIpcPipe demo_client_pipe)"
  by (simp_all add: demo_server_pipe_def demo_client_pipe_def win_ipc_create_pipe_def win_ipc_acceptor_new_def win_ipc_connect_def
      demo_windows_os_def demo_destination_def)

lemmas windows_eval = demo_server_pipe_def demo_client_pipe_def demo_named_stream_def win_ipc_new_client_def demo_windows_os_def demo_inputs_def ipc_demo_message_def demo_message_def async_pipe_new_def
  win_ipc_new_server_def win_ipc_ops_def win_pipe_run_def async_pipe_apply_def method_defs enter_defs into_defs tx_send_handshake_def
  rx_recv_handshake_def win_machine_defs win_unix_defs win_active_ready_def win_active_send_def no_transition_if_ok_def
  win_ipc_registered_def win_ipc_read_and_write_void_def stream_void_def win_ipc_start_send_def win_ipc_run_send_operation_def
  win_ipc_send_handshake_def win_ipc_recv_handshake_def win_ipc_has_pending_send_def win_ipc_has_pending_recv_def
  ipc_send_run_def ipc_send_new_def ipc_send_resume_at.simps ipc_write_transport_hdr_def ipc_write_protocol_hdr_def ipc_write_usr_payload_def
  write_buffer_def send_and_check_handshake_def recv_and_check_handshake_def check_handshake_def create_handshake_def stream_write_def
  stream_read_def get_header_def get_body_def message_len_def byte_eval

lemma demo_named_pipes_polite:
  "win_polite (win_ipc_ops be_instance demo_windows_os) demo_inputs (demo_server_pipe, []) 0 0"
  "win_polite (win_ipc_ops be_instance demo_windows_os) demo_inputs (demo_client_pipe, []) 0 0"
  by (simp_all add: windows_eval)

lemma demo_named_pipes_run:
  "raised (snd (win_pipe_run (win_ipc_ops be_instance demo_windows_os) demo_inputs (demo_server_pipe, []))) = [PipeOpened, PipeCanSend True, PipeSent]"
  "raised (snd (win_pipe_run (win_ipc_ops be_instance demo_windows_os) demo_inputs (demo_client_pipe, []))) = [PipeOpened, PipeCanSend True, PipeSent]"
  by (simp_all add: windows_eval)

theorem windows_ipc_pipe_accounts_witness:
  "(\<exists>p ctx. win_pipe_run (win_ipc_ops be_instance demo_windows_os) demo_inputs (demo_server_pipe, []) = (p, ctx) \<and>
      pipe_trace (raised ctx) \<and> raised ctx = [PipeOpened, PipeCanSend True, PipeSent]) \<and>
   (\<exists>p ctx. win_pipe_run (win_ipc_ops be_instance demo_windows_os) demo_inputs (demo_client_pipe, []) = (p, ctx) \<and>
      pipe_trace (raised ctx) \<and> raised ctx = [PipeOpened, PipeCanSend True, PipeSent])"
proof -
  let ?run = "\<lambda>pipe. win_pipe_run (win_ipc_ops be_instance demo_windows_os) demo_inputs (pipe, [])"
  obtain p ctx where server: "?run demo_server_pipe = (p, ctx)" by (cases "?run demo_server_pipe")
  obtain p' ctx' where client: "?run demo_client_pipe = (p', ctx')" by (cases "?run demo_client_pipe")
  show ?thesis
    using windows_ipc_pipe_accounts [OF disjI1 [OF demo_pipes_made(1)] demo_named_pipes_polite(1) server]
      windows_ipc_pipe_accounts [OF disjI2 [OF demo_pipes_made(2)] demo_named_pipes_polite(2) client]
      demo_named_pipes_run server client by simp
qed

end
