(* ===== verification/Patterns.thy ===== *)
theory Patterns
  imports Sockets Transport_Pipe
begin

text \<open>
  What the scalability protocols promise to their users, on top of the contracts of
  \<open>Sockets\<close>: requests and replies find their way through devices, replies are matched with
  requests, subscriptions filter, broadcasts reach every ready peer once, forwarding does
  not send a message back, work goes to the best peer.
\<close>

section \<open>Words of a backtrace\<close>

lemma top_bit_set: "hd (be_bytes 4 (x :: u32)) AND 0x80 \<noteq> 0 \<longleftrightarrow> bit x 31"
proof -
  have "hd (be_bytes 4 x) = (ucast (drop_bit 24 x) :: u8)" by (simp add: be_bytes_def upt_rec)
  moreover have "(0x80 :: u8) = 2 ^ 7" by simp
  ultimately show ?thesis by (simp only: and_exp_eq_0_iff_not_bit) (simp add: bit_ucast_iff bit_drop_bit_eq)
qed

lemma small_eid:
  fixes eid :: endpoint_id
  assumes "unat eid < 2 ^ 31"
  shows "\<not> bit (ucast eid :: u32) 31" "ucast (ucast eid :: u32) = eid"
proof -
  have "\<not> bit (unat eid) 31" using assms by (simp add: bit_iff_odd)
  then show "\<not> bit (ucast eid :: u32) 31" by (simp add: bit_ucast_iff bit_unsigned_iff)
  have "unat (ucast (ucast eid :: u32) :: u64) = unat eid" using assms by (simp add: unsigned_ucast_eq unsigned_take_bit_eq take_bit_nat_eq_self)
  then show "ucast (ucast eid :: u32) = eid" by (rule unsigned_word_eqI)
qed

lemma rep_take_hops_spec:
  assumes "\<forall>w \<in> set ws. length w = 4 \<and> hd w AND 0x80 = (0 :: u8)" and "length rid = 4" and "hd rid AND 0x80 \<noteq> (0 :: u8)"
  shows "rep_take_hops ttl hops hdr (concat ws @ rid @ payload) =
    Some (if unat hops + length ws < unat ttl then Some (from_header_and_body (hdr @ concat ws @ rid) payload) else None)"
  using assms(1)
proof (induction ws arbitrary: hops hdr)
  case Nil
  have "rid \<noteq> []" using assms(2) by auto
  then have "(hdr @ rid) ! length hdr = hd rid" by (simp add: nth_append hd_conv_nth)
  moreover have "checked_add hops 1 = Some (hops + 1)" if "\<not> ttl \<le> hops"
    using that unsigned_less [of ttl, where 'a = nat] by (intro checked_add_one_Some [where k = "unat ttl"]) (auto simp: word_le_nat_alt)
  ultimately show ?case
    using assms(2,3) by (subst rep_take_hops.simps) (auto simp: word_le_nat_alt Let_def)
next
  case (Cons w ws)
  then have w: "length w = 4" "hd w AND 0x80 = 0" "w \<noteq> []" by auto
  have nth: "(hdr @ w) ! length hdr = hd w" using w(3) by (simp add: nth_append hd_conv_nth)
  show ?case
  proof (cases "ttl \<le> hops")
    case True
    then show ?thesis by (subst rep_take_hops.simps) (simp add: word_le_nat_alt)
  next
    case False
    then have add: "checked_add hops 1 = Some (hops + 1)" "unat (hops + 1) = Suc (unat hops)"
      using unsigned_less [of ttl, where 'a = nat] checked_add_one_Some [where k = "unat ttl" and a = hops]
      by (auto simp: word_le_nat_alt unat_word_ariths)
    show ?thesis
      using False w nth Cons.IH [of "hops + 1" "hdr @ w"] Cons.prems
      by (subst rep_take_hops.simps) (simp add: add Let_def)
  qed
qed

section \<open>Requests and replies through devices\<close>

text \<open>
  What the receive operation of the peer's pipe returns for a message (see
  \<open>tcp_message_arrives\<close> and \<open>ipc_message_arrives\<close>): its header and body in one body.
\<close>

definition on_wire :: "message \<Rightarrow> message" where
  "on_wire msg = from_body (header msg @ body msg)"

text \<open>
  A device between repliers and requesters: a request is decoded by its replier side, which
  got it on the pipe \<open>eid\<close>, and passed on by its requester side; a reply takes the way back and
  the replier side tells the pipe it goes to.
\<close>

type_synonym hop = "rep_inner \<times> req_inner \<times> endpoint_id"

fun hop_request :: "byteorder \<Rightarrow> hop \<Rightarrow> message \<Rightarrow> message option" where
  "hop_request bo (rp, rq, eid) raw =
     (case rep_inner_raw_msg_to_msg bo rp raw eid of
        Some (Some msg) \<Rightarrow> map_option (\<lambda>(raw', _). on_wire raw') (req_inner_msg_to_raw_msg bo rq msg)
      | _ \<Rightarrow> None)"

fun hop_reply :: "byteorder \<Rightarrow> hop \<Rightarrow> message \<Rightarrow> message option" where
  "hop_reply bo (rp, rq, eid) raw = do {
     (msg, _) \<leftarrow> req_inner_raw_msg_to_msg bo rq raw;
     (raw', eid') \<leftarrow> rep_inner_msg_to_raw_msg bo rp msg;
     (if eid' = eid then Some (on_wire raw') else None) }"

text \<open>A chain of devices, the first one next to the requester.\<close>

fun forward_request :: "byteorder \<Rightarrow> hop list \<Rightarrow> message \<Rightarrow> message option" where
  "forward_request bo [] raw = Some raw"
| "forward_request bo (h # hs) raw = do { raw' \<leftarrow> hop_request bo h raw; forward_request bo hs raw' }"

fun return_reply :: "byteorder \<Rightarrow> hop list \<Rightarrow> message \<Rightarrow> message option" where
  "return_reply bo [] raw = Some raw"
| "return_reply bo (h # hs) raw = do { raw' \<leftarrow> return_reply bo hs raw; hop_reply bo h raw' }"

definition hop_ok :: "nat \<Rightarrow> hop \<Rightarrow> bool" where
  "hop_ok n h \<longleftrightarrow> (case h of (rp, rq, eid) \<Rightarrow> rep_is_device_item rp \<and> req_is_device_item rq \<and>
     unat eid < 2 ^ 31 \<and> n < unat (rep_ttl rp))"

definition hop_words :: "byteorder \<Rightarrow> endpoint_id list \<Rightarrow> u8 list list" where
  "hop_words bo eids = map (\<lambda>eid. write_u32 bo (ucast eid)) eids"

definition hop_eids :: "hop list \<Rightarrow> endpoint_id list" where
  "hop_eids hs = map (\<lambda>(_, _, eid). eid) hs"

lemma hop_words_ok:
  assumes "big_endian bo" and "\<forall>eid \<in> set eids. unat eid < 2 ^ 31"
  shows "\<forall>w \<in> set (hop_words bo eids). length w = 4 \<and> hd w AND 0x80 = (0 :: u8)"
proof
  fix w assume "w \<in> set (hop_words bo eids)"
  then obtain eid where "eid \<in> set eids" and w: "w = be_bytes 4 (ucast eid :: u32)"
    using assms(1) by (auto simp: hop_words_def big_endian_def)
  then show "length w = 4 \<and> hd w AND 0x80 = 0"
    using top_bit_set [of "ucast eid"] small_eid(1) [of eid] assms(2) by auto
qed

lemma rep_decodes_hops:
  assumes "big_endian bo" and "\<forall>x \<in> set eids. unat x < 2 ^ 31" and "bit rid 31" and "length eids < unat (rep_ttl rp)"
  shows "rep_inner_raw_msg_to_msg bo rp (from_body (concat (hop_words bo eids) @ write_u32 bo rid @ payload)) eid =
    Some (Some (from_header_and_body (concat (hop_words bo (eid # eids)) @ write_u32 bo rid) payload))"
proof -
  have "length (write_u32 bo rid) = 4" "hd (write_u32 bo rid) AND 0x80 \<noteq> 0"
    using assms(1,3) top_bit_set [of rid] by (auto simp: big_endian_def)
  from rep_take_hops_spec [OF hop_words_ok [OF assms(1,2)] this, of "rep_ttl rp" 0 "write_u32 bo (ucast eid)" payload] assms(4)
  show ?thesis by (simp add: rep_inner_raw_msg_to_msg_def message_defs hop_words_def)
qed

lemma forward_request_eq:
  assumes "big_endian bo" and "bit rid 31" and "\<forall>h \<in> set hs. hop_ok n h" and "length eids + length hs \<le> Suc n"
    and "\<forall>x \<in> set eids. unat x < 2 ^ 31"
  shows "forward_request bo hs (from_body (concat (hop_words bo eids) @ write_u32 bo rid @ payload)) =
    Some (from_body (concat (hop_words bo (rev (hop_eids hs) @ eids)) @ write_u32 bo rid @ payload))"
  using assms(3-5)
proof (induction hs arbitrary: eids)
  case (Cons h hs)
  obtain rp rq eid where h: "h = (rp, rq, eid)" by (cases h)
  then have ok: "req_is_device_item rq" "unat eid < 2 ^ 31" "n < unat (rep_ttl rp)" using Cons.prems by (auto simp: hop_ok_def)
  have "length eids < unat (rep_ttl rp)" using ok(3) Cons.prems(2) by simp
  from rep_decodes_hops [OF assms(1) Cons.prems(3) assms(2) this, of payload eid] ok(1)
  have "hop_request bo h (from_body (concat (hop_words bo eids) @ write_u32 bo rid @ payload)) =
      Some (from_body (concat (hop_words bo (eid # eids)) @ write_u32 bo rid @ payload))"
    by (simp add: h req_inner_msg_to_raw_msg_def on_wire_def from_header_and_body_def)
  then show ?case using Cons.IH [of "eid # eids"] Cons.prems ok(2) by (simp add: h hop_eids_def)
qed (simp add: hop_eids_def)

lemma return_reply_eq:
  assumes "big_endian bo" and "\<forall>h \<in> set hs. hop_ok n h"
  shows "return_reply bo hs (from_body (concat (hop_words bo (rev (hop_eids hs) @ eids)) @ rest)) =
    Some (from_body (concat (hop_words bo eids) @ rest))"
  using assms(2)
proof (induction hs arbitrary: eids)
  case (Cons h hs)
  obtain rp rq eid where h: "h = (rp, rq, eid)" by (cases h)
  then have ok: "rep_is_device_item rp" "req_is_device_item rq" "unat eid < 2 ^ 31" using Cons.prems by (auto simp: hop_ok_def)
  have word: "length (write_u32 bo (ucast eid)) = 4" "ucast (read_u32 bo (write_u32 bo (ucast eid))) = eid"
    using big_endian_simps [OF assms(1)] small_eid(2) [OF ok(3)] by auto
  have "hop_reply bo h (from_body (concat (hop_words bo (eid # eids)) @ rest)) = Some (from_body (concat (hop_words bo eids) @ rest))"
    using ok word
    by (simp add: h req_inner_raw_msg_to_msg_def req_decode_def rep_inner_msg_to_raw_msg_def message_defs hop_words_def on_wire_def Let_def)
  then show ?case using Cons.IH [of "eid # eids"] Cons.prems by (simp add: hop_eids_def h)
qed (simp add: hop_eids_def)

text \<open>
  (C4) A request and its reply find their way: sent by a requester through any number of
  devices, a request reaches the replier with its body unchanged, provided no node's limit
  of hops is exceeded; the reply is sent to the pipe the request came from, each device
  returns it to the pipe it got the request from, and the requester gets the replier's
  answer with the identifier of its current request. Pipe identifiers are below \<open>2^31\<close>.
\<close>

theorem request_reply_round_trip:
  assumes "big_endian bo" and "\<forall>h \<in> set hs. hop_ok (length hs - 1) h"
    and "\<not> rep_is_device_item rp" and "length hs < unat (rep_ttl rp)" and "unat eid < 2 ^ 31"
    and "\<not> req_is_device_item rq" and "req_inner_msg_to_raw_msg bo rq (from_body payload) = Some (raw, rq')"
  shows "\<exists>request hdr reply back.
    forward_request bo hs (on_wire raw) = Some request \<and>
    rep_inner_raw_msg_to_msg bo rp request eid = Some (Some (from_header_and_body hdr payload)) \<and>
    rep_inner_msg_to_raw_msg bo (rep_inner_set_backtrace rp hdr) (from_body answer) = Some (reply, eid) \<and>
    return_reply bo hs (on_wire reply) = Some back \<and>
    map_option (\<lambda>(msg, req_id). (body msg, req_id)) (req_inner_raw_msg_to_msg bo rq' back) = Some (answer, req_inner_cur_req_id rq')"
proof -
  obtain rid where rid: "raw = req_encode bo (from_body payload) rid" "rid = req_inner_cur_req_id rq'" "\<not> req_is_device_item rq'"
    using assms(6,7)
    by (auto simp: req_inner_msg_to_raw_msg_def req_inner_next_req_id_def req_inner_cur_req_id_def bind_eq_Some_conv)
  have bit: "bit rid 31" unfolding rid(2) by (simp add: req_inner_cur_req_id_def bit_or_iff)
  let ?eids = "rev (hop_eids hs)"
  let ?hdr = "concat (hop_words bo (eid # ?eids)) @ write_u32 bo rid"
  let ?request = "from_body (concat (hop_words bo ?eids) @ write_u32 bo rid @ payload)"
  let ?reply = "from_header_and_body (concat (hop_words bo ?eids) @ write_u32 bo rid) answer"
  have small: "\<forall>x \<in> set ?eids. unat x < 2 ^ 31" using assms(2) by (auto simp: hop_eids_def hop_ok_def)
  have word: "length (write_u32 bo x) = 4" "read_u32 bo (write_u32 bo x) = x" for x
    using big_endian_simps [OF assms(1)] by auto
  have "forward_request bo hs (on_wire raw) = Some ?request"
    using forward_request_eq [OF assms(1) bit assms(2), of "[]" payload]
    by (simp add: rid(1) req_encode_def on_wire_def from_body_def hop_words_def)
  moreover have "rep_inner_raw_msg_to_msg bo rp ?request eid = Some (Some (from_header_and_body ?hdr payload))"
    by (rule rep_decodes_hops [OF assms(1) small bit]) (use assms(4) in \<open>simp add: hop_eids_def\<close>)
  moreover have "rep_inner_msg_to_raw_msg bo (rep_inner_set_backtrace rp ?hdr) (from_body answer) = Some (?reply, eid)"
    using word small_eid(2) [OF assms(5)] assms(3)
    by (simp add: rep_inner_msg_to_raw_msg_def rep_inner_set_backtrace_def rep_inner_get_backtrace_def message_defs hop_words_def Let_def)
  moreover have "return_reply bo hs (on_wire ?reply) = Some (from_body (write_u32 bo rid @ answer))"
    using return_reply_eq [OF assms(1,2), of "[]" "write_u32 bo rid @ answer"]
    by (simp add: on_wire_def from_header_and_body_def hop_words_def)
  moreover have "map_option (\<lambda>(msg, req_id). (body msg, req_id)) (req_inner_raw_msg_to_msg bo rq' (from_body (write_u32 bo rid @ answer))) =
      Some (answer, req_inner_cur_req_id rq')"
    using word rid(2,3) by (simp add: req_inner_raw_msg_to_msg_def req_decode_def message_defs Let_def)
  ultimately show ?thesis by blast
qed

section \<open>What one call adds to the log\<close>

definition adds :: "ctx \<Rightarrow> ctx \<Rightarrow> (effect list \<Rightarrow> bool) \<Rightarrow> bool" where
  "adds ctx ctx' P \<longleftrightarrow> (\<exists>es. trace ctx' = trace ctx @ es \<and> P es)"

lemma replies_cancel [simp]: "trace (cancel_opt ctx t) = trace ctx @ (case t of Some s \<Rightarrow> [Cancel s] | None \<Rightarrow> [])"
  by (simp add: cancel_opt_def cancel_def split: option.splits)

lemma trace_calls [simp]:
  "trace (send_reply ctx r) = trace ctx @ [Reply r]"
  "trace (check_send_ready_change ctx a b) = trace ctx @ (if a \<noteq> b then [Raise (CanSend b)] else [])"
  "trace (check_recv_ready_change ctx a b) = trace ctx @ (if a \<noteq> b then [Raise (CanRecv b)] else [])"
  by (simp_all add: send_reply_def check_send_ready_change_def check_recv_ready_change_def raise_evt_def)

lemma replies_case_option [simp]: "replies (case t of Some s \<Rightarrow> [Cancel s] | None \<Rightarrow> []) = []"
  by (simp split: option.splits)

lemma replies_if [simp]: "replies (if b then [Raise e] else []) = []"
  by simp

section \<open>A requester only takes the reply to its request\<close>

text \<open>
  (C19) While a requester waits for a reply, a message is handed to the user exactly when it
  comes from the pipe the request went to and carries the identifier of the current
  request; any other message from that pipe is skipped and the next one asked for, and
  messages of other pipes change nothing.
\<close>

theorem requester_takes_only_its_reply:
  assumes "req_good p" and "req_state p = Some (ReqReceiving i (Some pending) t)" and "\<not> req_is_device_item (req_inner p)"
    and "req_decode bo raw = Some (msg, req_id)"
  shows "runs (req_on_recv_ack bo p ctx eid raw) (\<lambda>(p', ctx'). adds ctx ctx' (\<lambda>es.
    if eid = i \<and> req_id = req_inner_cur_req_id (req_inner p)
    then replies es = [ReplyRecv msg] \<and> req_state p' = Some ReqIdle
    else replies es = [] \<and> req_state p' = req_state p \<and> (eid = i \<longrightarrow> NetRecv i \<in> set es)))"
proof -
  have i: "i \<in> dom (req_pipes (req_inner p))" and ok: "pipes_ok (req_pipes (req_inner p))"
    using assms(1,2) by (auto simp: req_good_def req_ok_def req_inner_ok_def)
  then obtain pipe where pipe: "req_pipes (req_inner p) i = Some pipe" "ep_id (pipe_endpoint pipe) = i"
    by (auto simp: pipes_ok_id)
  show ?thesis
    using assms(2-4) pipe
    by (auto simp: req_on_recv_ack_def req_inner_raw_msg_to_msg_def req_apply_def req_st_on_recv_ack_def req_inner_on_recv_ack_def
        req_st_recv_reply_for_def req_inner_recv_reply_from_def pipes_get_mut_def pipe_recv_emit adds_def Let_def)
qed

section \<open>Subscriptions\<close>

text \<open>
  (C21) A subscriber hands a message to the user exactly when one of its subscriptions is a
  prefix of the message's body; otherwise it drops the message, replies nothing and goes
  on receiving.
\<close>

theorem subscriber_filters:
  assumes "sub_good p" and "sub_state p = Some (SubReceiving i t)"
  shows "runs (sub_on_recv_ack p ctx i msg) (\<lambda>(p', ctx'). adds ctx ctx' (\<lambda>es.
    if \<exists>topic \<in> sub_subscriptions (sub_inner p). \<exists>rest. body msg = topic @ rest
    then replies es = [ReplyRecv msg] \<and> sub_state p' = Some SubIdle
    else replies es = [] \<and> (sub_state p' = Some (SubRecvOnHold t) \<or> (\<exists>j. sub_state p' = Some (SubReceiving j t) \<and> NetRecv j \<in> set es))))"
proof -
  have ok: "sub_inner_ok (sub_inner p)" using assms by (auto simp: sub_good_def sub_ok_def)
  have prefix: "sub_inner_accept (sub_inner p) msg \<longleftrightarrow> (\<exists>topic \<in> sub_subscriptions (sub_inner p). \<exists>rest. body msg = topic @ rest)"
    unfolding sub_inner_accept_def starts_with_def get_body_def by (metis append_eq_conv_conj)
  show ?thesis
  proof (cases "sub_inner_accept (sub_inner p) msg")
    case True
    then show ?thesis using assms(2) prefix
      by (auto simp: sub_on_recv_ack_def sub_apply_def sub_st_on_recv_ack_def sub_inner_on_recv_ack_def adds_def Let_def)
  next
    case False
    have "runs (fair_queue_recv (sub_fq (sub_inner p)) (sub_pipes (sub_inner p)) ctx) (\<lambda>(r, fq, ctx').
        r = None \<and> ctx' = ctx \<or> (\<exists>j. r = Some j \<and> ctx' = emit (NetRecv j) ctx))"
      using ok by (intro fair_queue_recv_runs) (auto simp: sub_inner_ok_def)
    then obtain r fq ctx' where recv: "fair_queue_recv (sub_fq (sub_inner p)) (sub_pipes (sub_inner p)) ctx = Some (r, fq, ctx')"
      "r = None \<and> ctx' = ctx \<or> (\<exists>j. r = Some j \<and> ctx' = emit (NetRecv j) ctx)" by (auto elim!: runsE)
    then show ?thesis using assms(2) prefix False
      by (auto simp: sub_on_recv_ack_def sub_apply_def sub_st_on_recv_ack_def sub_st_recv_def sub_inner_recv_def adds_def Let_def)
  qed
qed

section \<open>Broadcast\<close>

definition copies :: "effect list \<Rightarrow> message \<Rightarrow> endpoint_id \<Rightarrow> nat" where
  "copies es msg eid = length (filter (\<lambda>e. e = NetSend eid msg) es)"

lemma copies_simps [simp]:
  "copies [] msg eid = 0" "copies (xs @ ys) msg eid = copies xs msg eid + copies ys msg eid"
  "copies (e # xs) msg eid = of_bool (e = NetSend eid msg) + copies xs msg eid"
  "copies (case t of Some s \<Rightarrow> [Cancel s] | None \<Rightarrow> []) msg eid = 0"
  by (simp_all add: copies_def split: option.splits)

lemma copies_each: "distinct es \<Longrightarrow> copies (map (\<lambda>eid. NetSend eid msg) es) msg eid = of_bool (eid \<in> set es)"
  by (induction es) (auto simp: copies_def)

lemma replies_sends [simp]: "replies (map (\<lambda>eid. NetSend eid msg) es) = []"
  by (induction es) simp_all

text \<open>
  (C22) A publisher gives a message to every peer that is ready, exactly once, and to no
  other; the user gets one answer at once, and until it is ready again no peer is sent
  a second message.
\<close>

theorem publisher_reaches_every_ready_peer:
  assumes "pub_good p" and "enumerates (hash_order (env ctx))"
  shows "runs (pub_send p ctx msg t) (\<lambda>(p', ctx'). pub_bc p' = {} \<and> pub_pipes p' = pub_pipes p \<and>
    adds ctx ctx' (\<lambda>es. replies es = [ReplySend] \<and> (\<forall>eid. copies es msg eid = of_bool (eid \<in> pub_bc p))))"
proof -
  obtain es where es: "pub_send p ctx msg t = Some (p\<lparr>pub_bc := {}\<rparr>, ctx\<lparr>trace := trace ctx @
      map (\<lambda>eid. NetSend eid msg) es @ [Raise (CanSend False), Reply ReplySend] @
      (case t of Some s \<Rightarrow> [Cancel s] | None \<Rightarrow> [])\<rparr>)" "set es = pub_bc p" "distinct es"
    using pub_send_eq [OF assms] by blast
  then show ?thesis by (auto simp: adds_def copies_each)
qed

text \<open>
  (C20) Forwarding on a bus does not echo: a message received on a pipe and sent on with the
  header it came with goes, without that header, exactly once to every ready peer other
  than the pipe it came from, and never back to that pipe.
\<close>

theorem bus_never_echoes:
  assumes "big_endian bo" and "bus_good p" and "enumerates (hash_order (env ctx))" and "unat origin < 2 ^ 31" and "header raw = []"
  shows "runs (bus_send bo p ctx (bus_decode bo raw origin) t) (\<lambda>(p', ctx'). adds ctx ctx' (\<lambda>es.
    replies es = [ReplySend] \<and> (\<forall>eid. copies es raw eid = of_bool (eid \<in> bus_bc (bus_inner p) \<and> eid \<noteq> origin))))"
proof -
  obtain s where s: "bus_state p = Some s" and ok: "pipes_ok (bus_pipes (bus_inner p))" "bus_bc (bus_inner p) \<subseteq> dom (bus_pipes (bus_inner p))"
    using assms(2) by (auto simp: bus_good_def bus_ok_def bus_inner_ok_def)
  have enc: "bus_encode bo (bus_decode bo raw origin) = (raw, Some origin)"
    using big_endian_simps [OF assms(1)] small_eid(2) [OF assms(4)] assms(5)
    by (cases raw) (simp add: bus_encode_def bus_decode_def message_defs Let_def)
  let ?ord = "hash_order (env ctx) (bus_bc (bus_inner p))"
  have ord: "set ?ord = bus_bc (bus_inner p)" "distinct ?ord"
    using assms(3) finite_subset [OF ok(2) pipes_ok_finite [OF ok(1)]] by (auto simp: enumerates_def)
  show ?thesis
  proof (cases "origin \<in> bus_bc (bus_inner p)")
    case True
    then show ?thesis using s ord
      by (auto simp: bus_send_def enc bus_apply_def bus_st_send_def bus_inner_send_def bus_inner_send_to_all_except_def
          send_to_all_except_eq [OF ok assms(3)] adds_def Let_def copies_each)
  next
    case False
    then show ?thesis using s ord
      by (auto simp: bus_send_def enc bus_apply_def bus_st_send_def bus_inner_send_def bus_inner_send_to_all_def
          send_to_all_eq [OF ok assms(3)] adds_def Let_def copies_each)
  qed
qed

section \<open>Load balancing\<close>

text \<open>
  (C23) A push socket gives each message to exactly one peer, one of the best priority among
  those that are ready, and keeps the message until a peer is ready only when there is
  none.
\<close>

theorem push_picks_the_best_peer:
  assumes "push_good p"
  shows "runs (push_send p ctx msg t) (\<lambda>(p', ctx'). adds ctx ctx' (\<lambda>es.
    if ready (push_lb (push_inner p)) = {}
    then push_state p' = Some (PushSendOnHold msg t) \<and> (\<forall>eid. copies es msg eid = 0)
    else (\<exists>eid \<in> ready (push_lb (push_inner p)).
      (\<forall>x \<in> ready (push_lb (push_inner p)). prio (push_lb (push_inner p)) eid \<le> prio (push_lb (push_inner p)) x) \<and>
      push_state p' = Some (PushSending eid msg t) \<and> (\<forall>x. copies es msg x = of_bool (x = eid)))))"
proof -
  obtain s where s: "push_state p = Some s" and ok: "pipes_ok (push_pipes (push_inner p))" "invar (push_lb (push_inner p))"
    "ids (push_lb (push_inner p)) = dom (push_pipes (push_inner p))"
    using assms by (auto simp: push_good_def push_ok_def push_inner_ok_def)
  show ?thesis
  proof (cases "ready (push_lb (push_inner p)) = {}")
    case True
    then show ?thesis using prq.pop_law [OF ok(2)] s
      by (auto simp: push_send_def push_apply_def push_st_send_def push_inner_send_def load_balancing_send_def adds_def Let_def)
  next
    case False
    then obtain eid q' where pop: "pop (push_lb (push_inner p)) = Some (Some eid, q')" "eid \<in> ready (push_lb (push_inner p))"
      "\<forall>x \<in> ready (push_lb (push_inner p)). prio (push_lb (push_inner p)) eid \<le> prio (push_lb (push_inner p)) x"
      using prq.pop_law [OF ok(2)] by auto
    have "eid \<in> dom (push_pipes (push_inner p))" using pop(2) ready_subset_ids ok(3) by blast
    then show ?thesis using s pop False
      by (auto simp: push_send_def push_apply_def push_st_send_def push_inner_send_def load_balancing_send_def
          pipes_send_to_eq [OF ok(1)] adds_def Let_def)
  qed
qed

section \<open>Sockets of any protocol\<close>

text \<open>
  (C24) Closing a socket closes everything it holds: each pipe (those of the socket and those
  given to the protocol) and each acceptor exactly once, then reports that it is closed,
  and nothing is left. This holds for every protocol that satisfies the laws of the locale
  \<open>protocol\<close>, which all ten do.
\<close>

theorem socket_close_releases_everything:
  assumes "protocol ops good pipes admits" and "socket_ok good pipes s" and "enumerates (hash_order (env ctx))"
    and "socket_close ops s ctx = (s', ctx')"
  shows "sock_pipes s' = Map.empty \<and> sock_acceptors s' = Map.empty \<and> pipes (sock_protocol s') = Map.empty \<and>
    adds ctx ctx' (\<lambda>es. distinct es \<and> es \<noteq> [] \<and> last es = Raise Closed \<and>
      set (butlast es) = (\<lambda>eid. NetClose eid True) ` (dom (sock_pipes s) \<union> dom (pipes (sock_protocol s))) \<union>
        (\<lambda>eid. NetClose eid False) ` dom (sock_acceptors s))"
proof -
  note close = protocol.socket_close_all [OF assms(1-3)]
  from close(1) obtain es where es: "trace ctx' = trace ctx @ es @ [Raise Closed]" "distinct es"
    "set es = (\<lambda>eid. NetClose eid True) ` (dom (sock_pipes s) \<union> dom (pipes (sock_protocol s))) \<union>
      (\<lambda>eid. NetClose eid False) ` dom (sock_acceptors s)" using assms(4) by auto
  then have "adds ctx ctx' (\<lambda>es. distinct es \<and> es \<noteq> [] \<and> last es = Raise Closed \<and>
      set (butlast es) = (\<lambda>eid. NetClose eid True) ` (dom (sock_pipes s) \<union> dom (pipes (sock_protocol s))) \<union>
        (\<lambda>eid. NetClose eid False) ` dom (sock_acceptors s))"
    unfolding adds_def by (intro exI [of _ "es @ [Raise Closed]"]) auto
  then show ?thesis using close(2-4) assms(4) by simp
qed

text \<open>
  (C25) A pipe that fails is forgotten and closed, once, and then its connection is tried again
  after the retry interval exactly when the user had asked for it: the pipes accepted from peers
  are left to the peers. The other pipes stay, and before the pipe is closed the protocol may say
  what it does about its loss, but closes nothing and schedules no other connection. The delay is
  the option \<open>RetryIvl\<close> each time: the code does not read \<open>RetryIvlMax\<close>, whose documentation says
  that the interval is doubled up to it. This holds for every protocol that satisfies the laws
  of the locale \<open>protocol\<close>.
\<close>

theorem failed_pipe_is_reconnected:
  assumes "protocol ops good pipes admits" and "socket_ok good pipes s" and "enumerates (hash_order (env ctx))"
    and "admits (sock_protocol s) (RemovePipe eid)" and "(sock_pipes s ++ pipes (sock_protocol s)) eid = Some pipe"
  shows "runs (socket_on_pipe_error ops s ctx eid) (\<lambda>(s', ctx').
    sock_pipes s' ++ pipes (sock_protocol s') = (sock_pipes s ++ pipes (sock_protocol s))(eid := None) \<and> fresh_eid pipes s' eid \<and>
    (\<exists>es. trace ctx' = trace ctx @ es @ NetClose eid True #
       (case ep_url (pipe_endpoint pipe) of
          Some url \<Rightarrow> [Scheduling (Reconnect eid \<lparr>spec_url = url, spec_desc = ep_desc (pipe_endpoint pipe)\<rparr>) (cfg_retry_ivl (sock_config s))]
        | None \<Rightarrow> []) \<and>
      (\<forall>e \<in> set es. (\<forall>i remote. e \<noteq> NetClose i remote) \<and> (\<forall>task delay. e = Scheduling task delay \<longrightarrow> \<not> is_retry task))))"
  by (rule protocol.pipe_error_reconnects [OF assms])

section \<open>Witnesses\<close>

definition demo_desc :: endpoint_desc where
  "demo_desc = \<lparr>send_priority = 8, recv_priority = 8, tcp_no_delay = False, recv_max_size = 0\<rparr>"

definition demo_peer :: "endpoint_id \<Rightarrow> pipe" where
  "demo_peer eid = Pipe \<lparr>ep_id = eid, ep_url = Some ''tcp://peer'', ep_desc = demo_desc\<rparr>"

definition demo_ctx :: ctx where
  "demo_ctx = \<lparr>trace = [], env = demo_env\<rparr>"

definition demo_queue :: "bool \<Rightarrow> priolist" where
  "demo_queue b = \<lparr>items = [\<lparr>item_value = 7, item_priority = 8, item_active = b\<rparr>], current = (if b then Some (0, 8) else None)\<rparr>"

lemma demo_queue_facts [simp]: "invar (demo_queue b)" "ids (demo_queue b) = {7}" "ready (demo_queue b) = (if b then {7} else {})"
proof -
  show "invar (demo_queue b)" "ids (demo_queue b) = {7}" by (simp_all add: demo_queue_def invar_def current_ok_def ids_def)
  have "{it \<in> set (items (demo_queue b)). item_active it} = (if b then set (items (demo_queue b)) else {})"
    by (auto simp: demo_queue_def)
  then show "ready (demo_queue b) = (if b then {7} else {})" by (simp add: ready_def) (simp add: demo_queue_def)
qed

lemma demo_pipes_ok [simp]: "pipes_ok [7 \<mapsto> demo_peer 7]"
  by (simp add: pipes_ok_def demo_peer_def)

lemma demo_ctx_enumerates [simp]: "enumerates (hash_order (env demo_ctx))" "trace demo_ctx = []"
  by (simp_all add: demo_ctx_def demo_env_def)

definition demo_hops :: "hop list" where
  "demo_hops = [(rep_inner_new\<lparr>rep_is_device_item := True\<rparr>, (req_inner_new 5)\<lparr>req_is_device_item := True\<rparr>, 3)]"

theorem request_reply_round_trip_witness:
  "\<exists>request hdr reply back.
    forward_request be_instance demo_hops (on_wire (req_encode be_instance (from_body [65]) 0x80000006)) = Some request \<and>
    rep_inner_raw_msg_to_msg be_instance rep_inner_new request 4 = Some (Some (from_header_and_body hdr [65])) \<and>
    rep_inner_msg_to_raw_msg be_instance (rep_inner_set_backtrace rep_inner_new hdr) (from_body [66]) = Some (reply, 4) \<and>
    return_reply be_instance demo_hops (on_wire reply) = Some back \<and>
    map_option (\<lambda>(msg, req_id). (body msg, req_id)) (req_inner_raw_msg_to_msg be_instance ((req_inner_new 5)\<lparr>req_req_id_seq := 6\<rparr>) back) =
      Some ([66], req_inner_cur_req_id ((req_inner_new 5)\<lparr>req_req_id_seq := 6\<rparr>))"
proof (rule request_reply_round_trip [OF big_endian_instance, of demo_hops rep_inner_new 4 "req_inner_new 5"])
  show "req_inner_msg_to_raw_msg be_instance (req_inner_new 5) (from_body [65]) =
      Some (req_encode be_instance (from_body [65]) 0x80000006, (req_inner_new 5)\<lparr>req_req_id_seq := 6\<rparr>)"
    by (simp add: req_inner_msg_to_raw_msg_def req_inner_next_req_id_def req_inner_new_def checked_add_def)
qed (simp_all add: hop_ok_def demo_hops_def rep_inner_new_def req_inner_new_def)

definition demo_req :: req where
  "demo_req = \<lparr>req_inner = (req_inner_new 5)\<lparr>req_pipes := [7 \<mapsto> demo_peer 7], req_lb := demo_queue False, req_fq := demo_queue False\<rparr>,
     req_state = Some (ReqReceiving 7 (Some \<lparr>pr_req = from_body [65], pr_retry_timeout = None\<rparr>) None)\<rparr>"

theorem requester_takes_only_its_reply_witness:
  "runs (req_on_recv_ack be_instance demo_req demo_ctx 7 (from_body [128, 0, 0, 5, 66]))
     (\<lambda>(p', ctx'). replies (trace ctx') = [ReplyRecv (from_header_and_body [128, 0, 0, 5] [66])] \<and> req_state p' = Some ReqIdle)"
proof -
  have good: "req_good demo_req"
    by (simp add: req_good_def req_ok_def req_inner_ok_def demo_req_def req_inner_new_def)
  have dec: "req_decode be_instance (from_body [128, 0, 0, 5, 66]) = Some (from_header_and_body [128, 0, 0, 5] [66], 0x80000005)"
    by (simp add: req_decode_def message_defs be_instance_def Let_def)
  from requester_takes_only_its_reply [OF good _ _ dec, of 7 "\<lparr>pr_req = from_body [65], pr_retry_timeout = None\<rparr>" None demo_ctx 7]
  show ?thesis
    by (auto simp: demo_req_def req_inner_new_def req_inner_cur_req_id_def adds_def elim!: runs_mono)
qed

definition demo_sub :: sub where
  "demo_sub = \<lparr>sub_inner = \<lparr>sub_pipes = [7 \<mapsto> demo_peer 7], sub_fq = demo_queue False, sub_subscriptions = {[65]}\<rparr>,
     sub_state = Some (SubReceiving 7 None)\<rparr>"

theorem subscriber_filters_witness:
  "runs (sub_on_recv_ack demo_sub demo_ctx 7 (from_body [65, 66])) (\<lambda>(p', ctx'). replies (trace ctx') = [ReplyRecv (from_body [65, 66])])"
proof -
  have good: "sub_good demo_sub"
    by (simp add: sub_good_def sub_ok_def sub_inner_ok_def demo_sub_def)
  from subscriber_filters [OF good, of 7 None demo_ctx "from_body [65, 66]"] show ?thesis
    by (auto simp: demo_sub_def adds_def from_body_def elim!: runs_mono)
qed

definition demo_pub :: pub where
  "demo_pub = \<lparr>pub_pipes = [7 \<mapsto> demo_peer 7], pub_bc = {7}\<rparr>"

theorem publisher_reaches_every_ready_peer_witness:
  "runs (pub_send demo_pub demo_ctx (from_body [65]) None) (\<lambda>(p', ctx'). copies (trace ctx') (from_body [65]) 7 = 1)"
proof -
  have "pub_good demo_pub" by (simp add: pub_good_def demo_pub_def)
  from publisher_reaches_every_ready_peer [OF this, of demo_ctx "from_body [65]" None] show ?thesis
    by (auto simp: demo_pub_def adds_def elim!: runs_mono)
qed

definition demo_bus :: bus where
  "demo_bus = \<lparr>bus_inner = \<lparr>bus_pipes = [7 \<mapsto> demo_peer 7], bus_bc = {7}, bus_fq = demo_queue False\<rparr>, bus_state = Some BusIdle\<rparr>"

theorem bus_never_echoes_witness:
  "runs (bus_send be_instance demo_bus demo_ctx (bus_decode be_instance (from_body [65]) 7) None)
     (\<lambda>(p', ctx'). copies (trace ctx') (from_body [65]) 7 = 0 \<and> replies (trace ctx') = [ReplySend])"
proof -
  have good: "bus_good demo_bus" by (simp add: bus_good_def bus_ok_def bus_inner_ok_def demo_bus_def)
  from bus_never_echoes [OF big_endian_instance good, of demo_ctx 7 "from_body [65]" None] show ?thesis
    by (auto simp: adds_def from_body_def elim!: runs_mono)
qed

definition demo_push :: push where
  "demo_push = \<lparr>push_inner = \<lparr>push_pipes = [7 \<mapsto> demo_peer 7], push_lb = demo_queue True\<rparr>, push_state = Some PushIdle\<rparr>"

lemma demo_push_good: "push_good demo_push"
  by (simp add: push_good_def push_ok_def push_inner_ok_def demo_push_def)

theorem push_picks_the_best_peer_witness:
  "runs (push_send demo_push demo_ctx (from_body [65]) None) (\<lambda>(p', ctx'). copies (trace ctx') (from_body [65]) 7 = 1)"
  using push_picks_the_best_peer [OF demo_push_good, of demo_ctx "from_body [65]" None]
  by (auto simp: demo_push_def adds_def elim!: runs_mono)

definition demo_socket :: "push socket" where
  "demo_socket = (socket_new 1 demo_push)\<lparr>sock_acceptors := [9 \<mapsto> Acceptor \<lparr>ep_id = 9, ep_url = Some ''tcp://here'', ep_desc = demo_desc\<rparr>]\<rparr>"

lemma demo_socket_ok: "socket_ok push_good push_pipes_of demo_socket"
  using demo_push_good
  by (simp add: socket_ok_def demo_socket_def socket_new_def push_pipes_of_def demo_push_def config_default_def good_acceptor_def good_desc_def
      demo_desc_def good_pipe_def)

theorem socket_close_releases_everything_witness:
  "trace (snd (socket_close push_ops demo_socket demo_ctx)) \<noteq> [] \<and>
   last (trace (snd (socket_close push_ops demo_socket demo_ctx))) = Raise Closed \<and>
   set (butlast (trace (snd (socket_close push_ops demo_socket demo_ctx)))) = {NetClose 9 False, NetClose 7 True}"
proof -
  obtain s' ctx' where close: "socket_close push_ops demo_socket demo_ctx = (s', ctx')" by (cases "socket_close push_ops demo_socket demo_ctx")
  from socket_close_releases_everything [OF push_p.protocol_axioms demo_socket_ok _ close] show ?thesis
    by (simp add: adds_def close) (simp add: demo_socket_def socket_new_def push_pipes_of_def demo_push_def)
qed

theorem failed_pipe_is_reconnected_witness:
  "runs (socket_on_pipe_error push_ops demo_socket demo_ctx 7) (\<lambda>(s', ctx').
     \<exists>es. trace ctx' = es @ [NetClose 7 True, Scheduling (Reconnect 7 \<lparr>spec_url = ''tcp://peer'', spec_desc = demo_desc\<rparr>) (from_millis 100)])"
proof -
  have "push_admits (sock_protocol demo_socket) (RemovePipe 7)"
    by (simp add: demo_socket_def socket_new_def demo_push_def demo_queue_def removable_def)
  from failed_pipe_is_reconnected [OF push_p.protocol_axioms demo_socket_ok demo_ctx_enumerates(1) this, of "demo_peer 7"] show ?thesis
    by (auto simp: demo_socket_def socket_new_def push_pipes_of_def demo_push_def demo_peer_def config_default_def elim!: runs_mono)
qed

end
