(* ===== verification/Proto_Pair_Prefetch.thy ===== *)
theory Proto_Pair_Prefetch
  imports Protocol_Spec
begin

text \<open>
  The variant of the pair protocol in \<open>src/proto/pair-prefetch.rs\<close>: while the user does nothing,
  a message is fetched from the peer ahead of the next receive. \<open>proto/mod.rs\<close> does not include
  the file and it lacks the methods \<open>on_send_not_ready\<close> and \<open>on_recv_not_ready\<close> of today's trait,
  so there is no table of methods; its own methods are the steps \<open>prefetch_step\<close>. None of them
  can panic.
\<close>

section \<open>Data\<close>

datatype prefetch_state =
    PfIdle
  | PfSending endpoint_id message timeout
  | PfSendOnHold message timeout
  | PfReceiving endpoint_id timeout bool
  | PfRecvOnHold timeout

record prefetch_inner =
  pf_pipe :: "(endpoint_id \<times> pipe) option"
  pf_prefetched_msg :: "message option"
  pf_send_ready :: bool
  pf_recv_ready :: bool

record prefetch_pair =
  pf_inner :: prefetch_inner
  pf_state :: "prefetch_state option"

definition prefetch_from :: prefetch_pair where
  "prefetch_from = \<lparr>pf_inner = \<lparr>pf_pipe = None, pf_prefetched_msg = None, pf_send_ready = False, pf_recv_ready = False\<rparr>,
     pf_state = Some PfIdle\<rparr>"

section \<open>Inner\<close>

definition pf_inner_add_pipe :: "prefetch_inner \<Rightarrow> ctx \<Rightarrow> endpoint_id \<Rightarrow> pipe \<Rightarrow> prefetch_inner \<times> ctx" where
  "pf_inner_add_pipe inner ctx eid pipe =
     (if pf_pipe inner = None then (inner\<lparr>pf_pipe := Some (eid, pipe)\<rparr>, ctx)
      else (inner, snd (pipe_close pipe ctx)))"

definition pf_inner_remove_pipe :: "prefetch_inner \<Rightarrow> endpoint_id \<Rightarrow> pipe option \<times> prefetch_inner" where
  "pf_inner_remove_pipe inner eid =
     (case pf_pipe inner of
        Some (i, pipe) \<Rightarrow>
          if i = eid then (Some pipe, inner\<lparr>pf_pipe := None\<rparr>)
          else (None, inner\<lparr>pf_pipe := Some (i, pipe)\<rparr>)
      | None \<Rightarrow> (None, inner\<lparr>pf_pipe := None\<rparr>))"

definition pf_inner_on_pipe_removed :: "prefetch_inner \<Rightarrow> prefetch_inner" where
  "pf_inner_on_pipe_removed inner = inner\<lparr>pf_send_ready := False, pf_recv_ready := False\<rparr>"

definition pf_inner_send :: "prefetch_inner \<Rightarrow> ctx \<Rightarrow> message \<Rightarrow> endpoint_id option \<times> ctx \<times> prefetch_inner" where
  "pf_inner_send inner ctx msg =
     (if \<not> pf_send_ready inner then (None, ctx, inner)
      else (let inner' = inner\<lparr>pf_send_ready := False\<rparr>
            in (case pf_pipe inner of
                  None \<Rightarrow> (None, ctx, inner')
                | Some (eid, pipe) \<Rightarrow> (Some eid, pipe_send pipe ctx msg, inner'))))"

definition pf_inner_on_send_ready :: "prefetch_inner \<Rightarrow> endpoint_id \<Rightarrow> prefetch_inner" where
  "pf_inner_on_send_ready inner eid =
     (if map_option fst (pf_pipe inner) = Some eid then inner\<lparr>pf_send_ready := True\<rparr> else inner)"

definition pf_inner_on_send_ack :: "ctx \<Rightarrow> timeout \<Rightarrow> ctx" where
  "pf_inner_on_send_ack ctx timeout = cancel_opt (send_reply ctx ReplySend) timeout"

definition pf_inner_on_send_timeout :: "ctx \<Rightarrow> ctx" where
  "pf_inner_on_send_timeout ctx = send_reply ctx (ReplyErr (timedout_io_error ''Send timed out''))"

definition pf_inner_recv :: "prefetch_inner \<Rightarrow> ctx \<Rightarrow> endpoint_id option \<times> ctx \<times> prefetch_inner" where
  "pf_inner_recv inner ctx =
     (if \<not> pf_recv_ready inner then (None, ctx, inner)
      else (let inner' = inner\<lparr>pf_recv_ready := False\<rparr>
            in (case pf_pipe inner of
                  None \<Rightarrow> (None, ctx, inner')
                | Some (eid, pipe) \<Rightarrow> (Some eid, pipe_recv pipe ctx, inner'))))"

definition pf_inner_on_recv_ready :: "prefetch_inner \<Rightarrow> endpoint_id \<Rightarrow> prefetch_inner" where
  "pf_inner_on_recv_ready inner eid =
     (if map_option fst (pf_pipe inner) = Some eid then inner\<lparr>pf_recv_ready := True\<rparr> else inner)"

definition pf_inner_on_recv_ack :: "ctx \<Rightarrow> timeout \<Rightarrow> message \<Rightarrow> ctx" where
  "pf_inner_on_recv_ack ctx timeout msg = cancel_opt (send_reply ctx (ReplyRecv msg)) timeout"

definition pf_inner_on_recv_timeout :: "ctx \<Rightarrow> ctx" where
  "pf_inner_on_recv_timeout ctx = send_reply ctx (ReplyErr (timedout_io_error ''Recv timed out''))"

definition pf_inner_close :: "prefetch_inner \<Rightarrow> ctx \<Rightarrow> prefetch_inner \<times> ctx" where
  "pf_inner_close inner ctx =
     (inner\<lparr>pf_pipe := None\<rparr>, case pf_pipe inner of Some (_, pipe) \<Rightarrow> snd (pipe_close pipe ctx) | None \<Rightarrow> ctx)"

section \<open>State\<close>

type_synonym prefetch_result = "prefetch_state \<times> ctx \<times> prefetch_inner"

definition pf_st_on_pipe_removed :: "prefetch_state \<Rightarrow> ctx \<Rightarrow> prefetch_inner \<Rightarrow> endpoint_id \<Rightarrow> prefetch_result" where
  "pf_st_on_pipe_removed s ctx inner eid =
     (let inner' = pf_inner_on_pipe_removed inner
      in (case s of
            PfSending i msg timeout \<Rightarrow>
              if i = eid then (PfSendOnHold msg timeout, ctx, inner')
              else (PfSending i msg timeout, ctx, inner')
          | PfReceiving i timeout prefetching \<Rightarrow>
              if i = eid then (if prefetching then (PfIdle, ctx, inner') else (PfRecvOnHold timeout, ctx, inner'))
              else (PfReceiving i timeout prefetching, ctx, inner')
          | _ \<Rightarrow> (s, ctx, inner')))"

definition pf_st_send :: "prefetch_state \<Rightarrow> ctx \<Rightarrow> prefetch_inner \<Rightarrow> message \<Rightarrow> timeout \<Rightarrow> prefetch_result" where
  "pf_st_send s ctx inner msg timeout =
     (case pf_inner_send inner ctx msg of
        (Some eid, ctx', inner') \<Rightarrow> (PfSending eid msg timeout, ctx', inner')
      | (None, ctx', inner') \<Rightarrow> (PfSendOnHold msg timeout, ctx', inner'))"

definition pf_st_on_send_ack :: "prefetch_state \<Rightarrow> ctx \<Rightarrow> prefetch_inner \<Rightarrow> endpoint_id \<Rightarrow> prefetch_result" where
  "pf_st_on_send_ack s ctx inner eid =
     (case s of
        PfSending i msg timeout \<Rightarrow>
          if i = eid then (PfIdle, pf_inner_on_send_ack ctx timeout, inner)
          else (PfSending i msg timeout, ctx, inner)
      | _ \<Rightarrow> (s, ctx, inner))"

definition pf_st_on_send_timeout :: "prefetch_state \<Rightarrow> ctx \<Rightarrow> prefetch_inner \<Rightarrow> prefetch_result" where
  "pf_st_on_send_timeout s ctx inner = (PfIdle, pf_inner_on_send_timeout ctx, inner)"

definition pf_st_on_send_ready :: "prefetch_state \<Rightarrow> ctx \<Rightarrow> prefetch_inner \<Rightarrow> endpoint_id \<Rightarrow> prefetch_result" where
  "pf_st_on_send_ready s ctx inner eid =
     (let inner' = pf_inner_on_send_ready inner eid
      in (case s of
            PfSendOnHold msg timeout \<Rightarrow> pf_st_send PfIdle ctx inner' msg timeout
          | _ \<Rightarrow> (s, ctx, inner')))"

text \<open>
  In the second case the pattern of the source binds \<open>timeout\<close> to the one of the state: the one of
  the request is not used.
\<close>

definition pf_st_recv :: "prefetch_state \<Rightarrow> ctx \<Rightarrow> prefetch_inner \<Rightarrow> timeout \<Rightarrow> prefetch_result" where
  "pf_st_recv s ctx inner timeout =
     (case s of
        PfIdle \<Rightarrow>
          (case pf_prefetched_msg inner of
             Some msg \<Rightarrow> (PfIdle, pf_inner_on_recv_ack ctx timeout msg, inner\<lparr>pf_prefetched_msg := None\<rparr>)
           | None \<Rightarrow>
               (case pf_inner_recv (inner\<lparr>pf_prefetched_msg := None\<rparr>) ctx of
                  (None, ctx', inner') \<Rightarrow> (PfRecvOnHold timeout, ctx', inner')
                | (Some eid, ctx', inner') \<Rightarrow> (PfReceiving eid timeout False, ctx', inner')))
      | PfReceiving i timeout True \<Rightarrow> (PfReceiving i timeout False, ctx, inner)
      | _ \<Rightarrow> (s, ctx, inner))"

definition pf_st_on_recv_ack :: "prefetch_state \<Rightarrow> ctx \<Rightarrow> prefetch_inner \<Rightarrow> endpoint_id \<Rightarrow> message \<Rightarrow> prefetch_result" where
  "pf_st_on_recv_ack s ctx inner eid msg =
     (case s of
        PfReceiving i timeout prefetching \<Rightarrow>
          if i = eid
          then (if prefetching then (PfIdle, ctx, inner\<lparr>pf_prefetched_msg := Some msg\<rparr>)
                else (PfIdle, pf_inner_on_recv_ack ctx timeout msg, inner))
          else (PfReceiving i timeout prefetching, ctx, inner)
      | _ \<Rightarrow> (s, ctx, inner))"

definition pf_st_on_recv_timeout :: "prefetch_state \<Rightarrow> ctx \<Rightarrow> prefetch_inner \<Rightarrow> prefetch_result" where
  "pf_st_on_recv_timeout s ctx inner = (PfIdle, pf_inner_on_recv_timeout ctx, inner)"

definition pf_st_on_recv_ready :: "prefetch_state \<Rightarrow> ctx \<Rightarrow> prefetch_inner \<Rightarrow> endpoint_id \<Rightarrow> prefetch_result" where
  "pf_st_on_recv_ready s ctx inner eid =
     (let inner' = pf_inner_on_recv_ready inner eid
      in (case s of
            PfRecvOnHold timeout \<Rightarrow> pf_st_recv PfIdle ctx inner' timeout
          | PfIdle \<Rightarrow>
              (if pf_prefetched_msg inner' \<noteq> None then (PfIdle, ctx, inner')
               else (case pf_inner_recv inner' ctx of
                       (None, ctx', inner'') \<Rightarrow> (PfIdle, ctx', inner'')
                     | (Some i, ctx', inner'') \<Rightarrow> (PfReceiving i None True, ctx', inner'')))
          | _ \<Rightarrow> (s, ctx, inner')))"

section \<open>Protocol\<close>

definition pf_apply :: "prefetch_pair \<Rightarrow> ctx \<Rightarrow> (prefetch_state \<Rightarrow> ctx \<Rightarrow> prefetch_inner \<Rightarrow> prefetch_result) \<Rightarrow> prefetch_pair \<times> ctx" where
  "pf_apply p ctx transition =
     (case pf_state p of
        None \<Rightarrow> (p, ctx)
      | Some old_state \<Rightarrow>
          (let was_send_ready = pf_send_ready (pf_inner p);
               was_recv_ready = pf_recv_ready (pf_inner p);
               (new_state, ctx', inner') = transition old_state ctx (pf_inner p);
               p' = p\<lparr>pf_inner := inner', pf_state := Some new_state\<rparr>;
               ctx'' = check_send_ready_change ctx' was_send_ready (pf_send_ready inner')
           in (p', check_recv_ready_change ctx'' was_recv_ready (pf_recv_ready inner'))))"

definition pf_add_pipe :: "prefetch_pair \<Rightarrow> ctx \<Rightarrow> endpoint_id \<Rightarrow> pipe \<Rightarrow> prefetch_pair \<times> ctx" where
  "pf_add_pipe p ctx eid pipe =
     (let (inner, ctx') = pf_inner_add_pipe (pf_inner p) ctx eid pipe in (p\<lparr>pf_inner := inner\<rparr>, ctx'))"

definition pf_remove_pipe :: "prefetch_pair \<Rightarrow> ctx \<Rightarrow> endpoint_id \<Rightarrow> pipe option \<times> prefetch_pair \<times> ctx" where
  "pf_remove_pipe p ctx eid =
     (let (pipe, inner') = pf_inner_remove_pipe (pf_inner p) eid;
          p' = p\<lparr>pf_inner := inner'\<rparr>
      in (pipe, if pipe \<noteq> None then pf_apply p' ctx (\<lambda>s ctx inner. pf_st_on_pipe_removed s ctx inner eid) else (p', ctx)))"

definition pf_send :: "prefetch_pair \<Rightarrow> ctx \<Rightarrow> message \<Rightarrow> timeout \<Rightarrow> prefetch_pair \<times> ctx" where
  "pf_send p ctx msg timeout = pf_apply p ctx (\<lambda>s ctx inner. pf_st_send s ctx inner msg timeout)"

definition pf_on_send_ack :: "prefetch_pair \<Rightarrow> ctx \<Rightarrow> endpoint_id \<Rightarrow> prefetch_pair \<times> ctx" where
  "pf_on_send_ack p ctx eid = pf_apply p ctx (\<lambda>s ctx inner. pf_st_on_send_ack s ctx inner eid)"

definition pf_on_send_timeout :: "prefetch_pair \<Rightarrow> ctx \<Rightarrow> prefetch_pair \<times> ctx" where
  "pf_on_send_timeout p ctx = pf_apply p ctx pf_st_on_send_timeout"

definition pf_on_send_ready :: "prefetch_pair \<Rightarrow> ctx \<Rightarrow> endpoint_id \<Rightarrow> prefetch_pair \<times> ctx" where
  "pf_on_send_ready p ctx eid = pf_apply p ctx (\<lambda>s ctx inner. pf_st_on_send_ready s ctx inner eid)"

definition pf_recv :: "prefetch_pair \<Rightarrow> ctx \<Rightarrow> timeout \<Rightarrow> prefetch_pair \<times> ctx" where
  "pf_recv p ctx timeout = pf_apply p ctx (\<lambda>s ctx inner. pf_st_recv s ctx inner timeout)"

definition pf_on_recv_ack :: "prefetch_pair \<Rightarrow> ctx \<Rightarrow> endpoint_id \<Rightarrow> message \<Rightarrow> prefetch_pair \<times> ctx" where
  "pf_on_recv_ack p ctx eid msg = pf_apply p ctx (\<lambda>s ctx inner. pf_st_on_recv_ack s ctx inner eid msg)"

definition pf_on_recv_timeout :: "prefetch_pair \<Rightarrow> ctx \<Rightarrow> prefetch_pair \<times> ctx" where
  "pf_on_recv_timeout p ctx = pf_apply p ctx pf_st_on_recv_timeout"

definition pf_on_recv_ready :: "prefetch_pair \<Rightarrow> ctx \<Rightarrow> endpoint_id \<Rightarrow> prefetch_pair \<times> ctx" where
  "pf_on_recv_ready p ctx eid = pf_apply p ctx (\<lambda>s ctx inner. pf_st_on_recv_ready s ctx inner eid)"

definition pf_is_send_ready :: "prefetch_pair \<Rightarrow> bool" where
  "pf_is_send_ready p = pf_send_ready (pf_inner p)"

definition pf_is_recv_ready :: "prefetch_pair \<Rightarrow> bool" where
  "pf_is_recv_ready p = pf_recv_ready (pf_inner p)"

definition pf_close :: "prefetch_pair \<Rightarrow> ctx \<Rightarrow> prefetch_pair \<times> ctx" where
  "pf_close p ctx = (let (inner, ctx') = pf_inner_close (pf_inner p) ctx in (p\<lparr>pf_inner := inner\<rparr>, ctx'))"

text \<open>The commands of \<open>Protocol_Spec\<close> that the file implements; the others are not given to it.\<close>

fun prefetch_step :: "proto_cmd \<Rightarrow> prefetch_pair \<times> ctx \<Rightarrow> prefetch_pair \<times> ctx" where
  "prefetch_step (AddPipe eid pipe) (p, ctx) = pf_add_pipe p ctx eid pipe"
| "prefetch_step (RemovePipe eid) (p, ctx) = snd (pf_remove_pipe p ctx eid)"
| "prefetch_step (SendMsg msg t) (p, ctx) = pf_send p ctx msg t"
| "prefetch_step (SendAck eid) (p, ctx) = pf_on_send_ack p ctx eid"
| "prefetch_step SendTimedOut (p, ctx) = pf_on_send_timeout p ctx"
| "prefetch_step (SendReady eid) (p, ctx) = pf_on_send_ready p ctx eid"
| "prefetch_step (RecvMsg t) (p, ctx) = pf_recv p ctx t"
| "prefetch_step (RecvAck eid msg) (p, ctx) = pf_on_recv_ack p ctx eid msg"
| "prefetch_step RecvTimedOut (p, ctx) = pf_on_recv_timeout p ctx"
| "prefetch_step (RecvReady eid) (p, ctx) = pf_on_recv_ready p ctx eid"
| "prefetch_step _ pc = pc"

definition prefetch_run :: "proto_cmd list \<Rightarrow> prefetch_pair \<times> ctx \<Rightarrow> prefetch_pair \<times> ctx" where
  "prefetch_run cmds pc = fold prefetch_step cmds pc"

lemmas pf_inner_defs = pf_inner_add_pipe_def pf_inner_remove_pipe_def pf_inner_on_pipe_removed_def pf_inner_send_def
  pf_inner_on_send_ready_def pf_inner_on_send_ack_def pf_inner_on_send_timeout_def pf_inner_recv_def
  pf_inner_on_recv_ready_def pf_inner_on_recv_ack_def pf_inner_on_recv_timeout_def pf_inner_close_def

lemmas pf_st_defs = pf_st_on_pipe_removed_def pf_st_send_def pf_st_on_send_ack_def pf_st_on_send_timeout_def
  pf_st_on_send_ready_def pf_st_recv_def pf_st_on_recv_ack_def pf_st_on_recv_timeout_def pf_st_on_recv_ready_def

lemmas pf_method_defs = pf_add_pipe_def pf_remove_pipe_def pf_send_def pf_on_send_ack_def pf_on_send_timeout_def
  pf_on_send_ready_def pf_recv_def pf_on_recv_ack_def pf_on_recv_timeout_def pf_on_recv_ready_def pf_apply_def

section \<open>A user who only receives\<close>

text \<open>The messages a log hands to the user, and the ones the peer delivered.\<close>

definition user_messages :: "effect list \<Rightarrow> message list" where
  "user_messages es = concat (map (\<lambda>r. case r of ReplyRecv m \<Rightarrow> [m] | _ \<Rightarrow> []) (replies es))"

fun acked :: "proto_cmd \<Rightarrow> message list" where
  "acked (RecvAck _ msg) = [msg]"
| "acked _ = []"

lemma user_messages_simps [simp]:
  "user_messages [] = []" "user_messages (xs @ ys) = user_messages xs @ user_messages ys"
  "user_messages [Reply (ReplyRecv m)] = [m]" "user_messages [Raise evt] = []" "user_messages [NetRecv eid] = []"
  "user_messages [NetSend eid m] = []" "user_messages [NetClose eid r] = []" "user_messages [Cancel s] = []"
  "user_messages [Reply (ReplyErr e)] = []"
  by (simp_all add: user_messages_def)

definition fetched :: "prefetch_pair \<Rightarrow> message list" where
  "fetched p = (case pf_prefetched_msg (pf_inner p) of Some m \<Rightarrow> [m] | None \<Rightarrow> [])"

fun user_waits :: "prefetch_state option \<Rightarrow> bool" where
  "user_waits (Some (PfReceiving _ _ False)) \<longleftrightarrow> True"
| "user_waits (Some (PfRecvOnHold _)) \<longleftrightarrow> True"
| "user_waits _ \<longleftrightarrow> False"

text \<open>
  The user receives one message at a time and sends nothing, and the peer delivers only what it
  was asked for. A receive may time out while it is on hold.
\<close>

fun reader_ok :: "prefetch_pair \<Rightarrow> proto_cmd \<Rightarrow> bool" where
  "reader_ok p (RecvMsg _) \<longleftrightarrow> \<not> user_waits (pf_state p)"
| "reader_ok p (RecvAck eid _) \<longleftrightarrow> (\<exists>t prefetching. pf_state p = Some (PfReceiving eid t prefetching))"
| "reader_ok p RecvTimedOut \<longleftrightarrow> (\<exists>t. pf_state p = Some (PfRecvOnHold t))"
| "reader_ok p (AddPipe _ _) \<longleftrightarrow> True"
| "reader_ok p (RemovePipe _) \<longleftrightarrow> True"
| "reader_ok p (RecvReady _) \<longleftrightarrow> True"
| "reader_ok p (SendReady _) \<longleftrightarrow> True"
| "reader_ok p _ \<longleftrightarrow> False"

fun reader_run :: "proto_cmd list \<Rightarrow> prefetch_pair \<times> ctx \<Rightarrow> bool" where
  "reader_run [] pc \<longleftrightarrow> True"
| "reader_run (cmd # cmds) pc \<longleftrightarrow> reader_ok (fst pc) cmd \<and> reader_run cmds (prefetch_step cmd pc)"

text \<open>
  What makes it work: a message is kept only in the idle state, so that nothing is fetched while
  one is kept; a reader never gets into a sending state.
\<close>

definition reader_inv :: "prefetch_pair \<Rightarrow> bool" where
  "reader_inv p \<longleftrightarrow> (\<exists>s. pf_state p = Some s \<and> (s \<noteq> PfIdle \<longrightarrow> pf_prefetched_msg (pf_inner p) = None) \<and>
     (case s of PfSending _ _ _ \<Rightarrow> False | PfSendOnHold _ _ \<Rightarrow> False | _ \<Rightarrow> True))"

lemma user_messages_checks [simp]:
  "user_messages (trace (check_send_ready_change ctx was now)) = user_messages (trace ctx)"
  "user_messages (trace (check_recv_ready_change ctx was now)) = user_messages (trace ctx)"
  "user_messages (trace (cancel_opt ctx t)) = user_messages (trace ctx)"
  by (auto simp: context_call_defs split: option.splits)

lemma reader_step:
  assumes "reader_inv p" and "reader_ok p cmd" and "prefetch_step cmd (p, ctx) = (p', ctx')"
  shows "reader_inv p' \<and> user_messages (trace ctx') @ fetched p' = user_messages (trace ctx) @ fetched p @ acked cmd"
proof -
  obtain s where s: "pf_state p = Some s" "s \<noteq> PfIdle \<Longrightarrow> pf_prefetched_msg (pf_inner p) = None"
    "case s of PfSending _ _ _ \<Rightarrow> False | PfSendOnHold _ _ \<Rightarrow> False | _ \<Rightarrow> True"
    using assms(1) by (auto simp: reader_inv_def)
  note unfold = pf_method_defs pf_st_defs pf_inner_defs reader_inv_def fetched_def Let_def ctx_simps
    send_reply_def net_recv_def
  show ?thesis
    using assms(2,3) s
    by (cases cmd; cases s)
      (auto simp: unfold split: prod.splits option.splits if_splits bool.splits)
qed

lemma reader_run_inv:
  assumes "reader_inv p" and "reader_run cmds (p, ctx)" and "prefetch_run cmds (p, ctx) = (p', ctx')"
  shows "reader_inv p' \<and> user_messages (trace ctx') @ fetched p' = user_messages (trace ctx) @ fetched p @ concat (map acked cmds)"
  using assms
proof (induction cmds arbitrary: p ctx)
  case (Cons cmd cmds)
  obtain p1 ctx1 where step: "prefetch_step cmd (p, ctx) = (p1, ctx1)" by (cases "prefetch_step cmd (p, ctx)")
  have "reader_inv p1 \<and> user_messages (trace ctx1) @ fetched p1 = user_messages (trace ctx) @ fetched p @ acked cmd"
    using reader_step [OF Cons.prems(1) _ step] Cons.prems(2) by simp
  then show ?case using Cons.IH [of p1 ctx1] Cons.prems(2,3) step by (simp add: prefetch_run_def flip: append_assoc)
qed (simp add: prefetch_run_def)

section \<open>Properties\<close>

text \<open>
  (C26) Fetching ahead keeps the messages and their order: as long as the user only receives, one
  message at a time, what was handed to the user, and then the message that is kept, if any, is
  what the peer delivered, whatever pipes come and go and however often it becomes readable. A
  message is kept only while the protocol is idle.
\<close>

theorem prefetch_keeps_order:
  assumes "reader_run cmds (prefetch_from, \<lparr>trace = [], env = e\<rparr>)"
    and "prefetch_run cmds (prefetch_from, \<lparr>trace = [], env = e\<rparr>) = (p, ctx)"
  shows "user_messages (trace ctx) @ fetched p = concat (map acked cmds) \<and>
    (pf_state p \<noteq> Some PfIdle \<longrightarrow> fetched p = [])"
proof -
  have "reader_inv prefetch_from" by (simp add: reader_inv_def prefetch_from_def)
  from reader_run_inv [OF this assms] show ?thesis
    by (auto simp: fetched_def reader_inv_def prefetch_from_def)
qed

text \<open>
  (C27) Fetching ahead is unsafe once the user sends: a send issued while a message is being
  fetched makes the protocol forget the fetch, so that the message is neither kept nor handed to
  the user when it arrives. And a receive issued at that moment loses its timer: the timer is not
  cancelled when the message arrives, and the user is answered a second time when it fires.
\<close>

theorem prefetch_drops:
  assumes "pf_state p = Some (PfReceiving eid None True)"
    and "prefetch_run [SendMsg msg t, RecvAck eid incoming] (p, ctx) = (p1, ctx1)"
    and "prefetch_run [RecvMsg (Some timer), RecvAck eid incoming, RecvTimedOut] (p, ctx) = (p2, ctx2)"
  shows "fetched p1 = fetched p \<and> user_messages (trace ctx1) = user_messages (trace ctx) \<and>
    replies (trace ctx2) = replies (trace ctx) @ [ReplyRecv incoming, ReplyErr (timedout_io_error ''Recv timed out'')] \<and>
    Cancel timer \<notin> set (drop (length (trace ctx)) (trace ctx2))"
proof -
  note unfold = prefetch_run_def pf_method_defs pf_st_defs pf_inner_defs fetched_def Let_def ctx_simps context_call_defs
  have "fetched p1 = fetched p \<and> user_messages (trace ctx1) = user_messages (trace ctx)"
    using assms(1,2) by (auto simp: unfold user_messages_def split: option.splits if_splits prod.splits)
  moreover have "trace ctx2 = trace ctx @ [Reply (ReplyRecv incoming), Reply (ReplyErr (timedout_io_error ''Recv timed out''))]"
    using assms(1,3) by (auto simp: unfold)
  ultimately show ?thesis by simp
qed

text \<open>Witnesses: a peer delivers two messages, one ahead of the first receive; then a message is being fetched.\<close>

definition prefetch_ctx :: ctx where
  "prefetch_ctx = \<lparr>trace = [], env = \<lparr>answer_connect = \<lambda>_. Inr 7, answer_reconnect = \<lambda>_. None, answer_schedule = \<lambda>_. Inr 99,
     hash_order = \<lambda>_. []\<rparr>\<rparr>"

definition prefetch_peer :: pipe where
  "prefetch_peer = pipe_new_accepted 5 \<lparr>send_priority = 8, recv_priority = 8, tcp_no_delay = False, recv_max_size = 1024\<rparr>"

definition prefetch_demo :: "proto_cmd list" where
  "prefetch_demo = [AddPipe 5 prefetch_peer, RecvReady 5, RecvAck 5 (from_body [1]), RecvMsg None, RecvReady 5, RecvMsg None,
     RecvAck 5 (from_body [2]), RecvReady 5]"

lemmas prefetch_eval = prefetch_demo_def prefetch_ctx_def prefetch_peer_def pipe_new_accepted_def endpoint_new_accepted_def
  prefetch_from_def prefetch_run_def pf_method_defs pf_st_defs pf_inner_defs context_call_defs ctx_simps Let_def

lemma prefetch_demo_reads: "reader_run prefetch_demo (prefetch_from, \<lparr>trace = [], env = env prefetch_ctx\<rparr>)"
  by (auto simp: prefetch_eval)

theorem prefetch_keeps_order_witness:
  "user_messages (trace (snd (prefetch_run prefetch_demo (prefetch_from, \<lparr>trace = [], env = env prefetch_ctx\<rparr>)))) =
     [from_body [1], from_body [2]]"
proof -
  let ?run = "prefetch_run prefetch_demo (prefetch_from, \<lparr>trace = [], env = env prefetch_ctx\<rparr>)"
  obtain p ctx where run: "?run = (p, ctx)" by (cases ?run)
  have "pf_state (fst ?run) \<noteq> Some PfIdle" by (simp add: prefetch_eval)
  moreover have "concat (map acked prefetch_demo) = [from_body [1], from_body [2]]" by (simp add: prefetch_demo_def)
  ultimately show ?thesis using prefetch_keeps_order [OF prefetch_demo_reads run] run by auto
qed

theorem prefetch_drops_witness:
  "\<exists>p ctx. prefetch_run prefetch_demo (prefetch_from, prefetch_ctx) = (p, ctx) \<and> pf_state p = Some (PfReceiving 5 None True) \<and>
     replies (trace (snd (prefetch_run [RecvMsg (Some 3), RecvAck 5 (from_body [3]), RecvTimedOut] (p, ctx)))) =
     replies (trace ctx) @ [ReplyRecv (from_body [3]), ReplyErr (timedout_io_error ''Recv timed out'')]"
proof -
  let ?run = "prefetch_run prefetch_demo (prefetch_from, prefetch_ctx)"
  obtain p ctx where run: "?run = (p, ctx)" by (cases ?run)
  have "pf_state (fst ?run) = Some (PfReceiving 5 None True)" by (simp add: prefetch_eval)
  then have p: "pf_state p = Some (PfReceiving 5 None True)" by (simp add: run)
  obtain p1 ctx1 where run1: "prefetch_run [SendMsg (from_body [9]) None, RecvAck 5 (from_body [3])] (p, ctx) = (p1, ctx1)"
    by (cases "prefetch_run [SendMsg (from_body [9]) None, RecvAck 5 (from_body [3])] (p, ctx)")
  obtain p2 ctx2 where run2: "prefetch_run [RecvMsg (Some 3), RecvAck 5 (from_body [3]), RecvTimedOut] (p, ctx) = (p2, ctx2)"
    by (cases "prefetch_run [RecvMsg (Some 3), RecvAck 5 (from_body [3]), RecvTimedOut] (p, ctx)")
  show ?thesis using prefetch_drops [OF p run1 run2] p run run2 by simp
qed

end
