(* ===== verification/Id_Hasher.thy ===== *)
theory Id_Hasher
  imports Core_Types "HOL-Library.Multiset"
begin

text \<open>
  The hasher of the maps keyed by identifiers, \<open>IdHasher\<close> of \<open>src/core/mod.rs\<close>: a 64-bit sum that
  wraps around. The identifiers derive \<open>Hash\<close>, which writes their \<open>usize\<close>; the map of transports is
  keyed by strings, whose \<open>Hash\<close> writes the bytes and then 255.
\<close>

type_synonym i8 = "8 word"
type_synonym i16 = "16 word"
type_synonym i32 = "32 word"
type_synonym i64 = "64 word"

datatype id_hasher = IdHasher (hasher_sum: u64)

definition id_hasher_default :: id_hasher where
  "id_hasher_default = IdHasher 0"

definition hasher_finish :: "id_hasher \<Rightarrow> u64" where
  "hasher_finish h = hasher_sum h"

definition hasher_write_u64 :: "id_hasher \<Rightarrow> u64 \<Rightarrow> id_hasher" where
  "hasher_write_u64 h i = IdHasher (hasher_sum h + i)"

primrec hasher_write :: "id_hasher \<Rightarrow> u8 list \<Rightarrow> id_hasher" where
  "hasher_write h [] = h"
| "hasher_write h (x # bytes) = hasher_write (hasher_write_u64 h (ucast x)) bytes"

definition hasher_write_u8 :: "id_hasher \<Rightarrow> u8 \<Rightarrow> id_hasher" where
  "hasher_write_u8 h i = hasher_write_u64 h (ucast i)"

definition hasher_write_u16 :: "id_hasher \<Rightarrow> u16 \<Rightarrow> id_hasher" where
  "hasher_write_u16 h i = hasher_write_u64 h (ucast i)"

definition hasher_write_u32 :: "id_hasher \<Rightarrow> u32 \<Rightarrow> id_hasher" where
  "hasher_write_u32 h i = hasher_write_u64 h (ucast i)"

definition hasher_write_usize :: "id_hasher \<Rightarrow> usize \<Rightarrow> id_hasher" where
  "hasher_write_usize h i = hasher_write_u64 h (ucast i)"

text \<open>A signed integer is extended by its sign.\<close>

definition hasher_write_i8 :: "id_hasher \<Rightarrow> i8 \<Rightarrow> id_hasher" where
  "hasher_write_i8 h i = hasher_write_u64 h (scast i)"

definition hasher_write_i16 :: "id_hasher \<Rightarrow> i16 \<Rightarrow> id_hasher" where
  "hasher_write_i16 h i = hasher_write_u64 h (scast i)"

definition hasher_write_i32 :: "id_hasher \<Rightarrow> i32 \<Rightarrow> id_hasher" where
  "hasher_write_i32 h i = hasher_write_u64 h (scast i)"

definition hasher_write_i64 :: "id_hasher \<Rightarrow> i64 \<Rightarrow> id_hasher" where
  "hasher_write_i64 h i = hasher_write_u64 h i"

definition hasher_write_isize :: "id_hasher \<Rightarrow> i64 \<Rightarrow> id_hasher" where
  "hasher_write_isize h i = hasher_write_u64 h (scast i)"

definition build_hasher :: id_hasher where
  "build_hasher = IdHasher 0"

text \<open>What a map computes for its keys: \<open>derive(Hash)\<close> on an identifier, \<open>Hash\<close> of a string.\<close>

definition hash_id :: "usize \<Rightarrow> u64" where
  "hash_id i = hasher_finish (hasher_write_usize build_hasher i)"

definition hash_str :: "u8 list \<Rightarrow> u64" where
  "hash_str bytes = hasher_finish (hasher_write_u8 (hasher_write build_hasher bytes) 255)"

section \<open>Properties\<close>

lemma hasher_write_sum: "hasher_sum (hasher_write h bytes) = hasher_sum h + (\<Sum>x\<leftarrow>bytes. ucast x)"
  by (induction bytes arbitrary: h) (simp_all add: hasher_write_u64_def add.assoc)

lemma ucast_sum: "(\<Sum>x\<leftarrow>bytes. ucast (x :: u8)) = (of_nat (\<Sum>x\<leftarrow>bytes. unat x) :: u64)"
  by (induction bytes) simp_all

lemma ucast_sum_mset:
  assumes "mset bytes = mset bytes'"
  shows "(\<Sum>x\<leftarrow>bytes. ucast (x :: u8)) = (\<Sum>x\<leftarrow>bytes'. (ucast x :: u64))"
  using arg_cong [OF assms, of "\<lambda>M. \<Sum>x\<in>#M. (ucast x :: u64)"] by (simp flip: sum_mset_sum_list)

text \<open>
  (C35) The hash of an identifier is the identifier, so that different identifiers never have the
  same hash; the hash of the name of a transport is the sum of its bytes and 255, modulo two to
  the 64, so that it does not depend on their order and that the names of a map of transports may
  collide.
\<close>

theorem id_hash_is_the_identifier:
  "hash_id i = i \<and> (hash_id i = hash_id j \<longleftrightarrow> i = j) \<and>
   unat (hash_str bytes) = ((\<Sum>x\<leftarrow>bytes. unat x) + 255) mod 2 ^ 64 \<and>
   (mset bytes = mset bytes' \<longrightarrow> hash_str bytes = hash_str bytes')"
proof -
  note unfold = hash_id_def hash_str_def hasher_finish_def hasher_write_usize_def hasher_write_u8_def hasher_write_u64_def build_hasher_def
  have id: "hash_id i = i" for i by (simp add: unfold)
  have str: "hash_str bs = (\<Sum>x\<leftarrow>bs. ucast x) + 255" for bs by (simp add: unfold hasher_write_sum)
  have "unat (hash_str bytes) = ((\<Sum>x\<leftarrow>bytes. unat x) + 255) mod 2 ^ 64"
  proof -
    have "hash_str bytes = of_nat ((\<Sum>x\<leftarrow>bytes. unat x) + 255)" by (simp add: str ucast_sum)
    then show ?thesis by (simp only: unat_of_nat) simp
  qed
  then show ?thesis using ucast_sum_mset [of bytes bytes'] by (auto simp: id str)
qed

theorem id_hash_is_the_identifier_witness:
  "hash_id 7 = 7 \<and> hash_str [116, 99, 112] = hash_str [112, 99, 116] \<and> hash_str [116, 99, 112] = 582"
proof -
  have "mset [116, 99, 112 :: u8] = mset [112, 99, 116]" by (simp add: add_mset_commute)
  then have "hash_id 7 = 7 \<and> unat (hash_str [116, 99, 112]) = 582 \<and> hash_str [116, 99, 112] = hash_str [112, 99, 116]"
    using id_hash_is_the_identifier [of 7 7 "[116, 99, 112]" "[112, 99, 116]"] by auto
  then show ?thesis by (simp add: word_unat_eq_iff)
qed

end
