(* ===== verification/Reactor_Bus.thy ===== *)
theory Reactor_Bus
  imports Transport_Acceptor
begin

text \<open>
  The queue of signals of the event loop, \<open>src/reactor/bus.rs\<close>: a FIFO queue that tells \<open>mio\<close>
  whether something waits in it. The registration with the poller is a flag, the readiness the
  set of flags last given to \<open>SetReadiness\<close>; the answers of \<open>Poll\<close> are arguments.
\<close>

section \<open>Operations\<close>

record 'm event_loop_bus =
  evbus_queue :: "'m list"
  evbus_registration :: bool
  evbus_readiness :: "ready_set option"

definition evbus_new :: "'m event_loop_bus" where
  "evbus_new = \<lparr>evbus_queue = [], evbus_registration = False, evbus_readiness = None\<rparr>"

definition set_readiness :: "'m event_loop_bus \<Rightarrow> ready_set \<Rightarrow> 'm event_loop_bus" where
  "set_readiness b events = (case evbus_readiness b of
     Some _ \<Rightarrow> b\<lparr>evbus_readiness := Some events\<rparr>
   | None \<Rightarrow> b)"

definition evbus_send :: "'m event_loop_bus \<Rightarrow> 'm \<Rightarrow> 'm event_loop_bus" where
  "evbus_send b m =
     (let b' = (if evbus_queue b = [] then set_readiness b {Readable} else b)
      in b'\<lparr>evbus_queue := evbus_queue b' @ [m]\<rparr>)"

definition evbus_recv :: "'m event_loop_bus \<Rightarrow> 'm option \<times> 'm event_loop_bus" where
  "evbus_recv b =
     (let b' = (if length (evbus_queue b) = 1 then set_readiness b {} else b)
      in (case evbus_queue b' of
            [] \<Rightarrow> (None, b')
          | m # ms \<Rightarrow> (Some m, b'\<lparr>evbus_queue := ms\<rparr>)))"

text \<open>\<open>polled\<close> is what \<open>poll.register\<close> returns; on an error nothing is kept.\<close>

definition evbus_register :: "'m event_loop_bus \<Rightarrow> io_error option \<Rightarrow> (io_error + unit) \<times> 'm event_loop_bus" where
  "evbus_register b polled =
     (if evbus_registration b then (Inl (other_io_error ''bus already registered''), b)
      else (case polled of
              Some e \<Rightarrow> (Inl e, b)
            | None \<Rightarrow> (Inr (), b\<lparr>evbus_registration := True,
                        evbus_readiness := Some (if evbus_queue b \<noteq> [] then {Readable} else {})\<rparr>)))"

definition evbus_reregister :: "'m event_loop_bus \<Rightarrow> io_error option \<Rightarrow> (io_error + unit)" where
  "evbus_reregister b polled =
     (if evbus_registration b then (case polled of Some e \<Rightarrow> Inl e | None \<Rightarrow> Inr ())
      else Inl (other_io_error ''bus not registered''))"

definition evbus_deregister :: "'m event_loop_bus \<Rightarrow> io_error option \<Rightarrow> (io_error + unit)" where
  "evbus_deregister b polled =
     (if evbus_registration b then (case polled of Some e \<Rightarrow> Inl e | None \<Rightarrow> Inr ())
      else Inl (other_io_error ''bus not registered''))"

lemmas evbus_defs = evbus_new_def set_readiness_def evbus_send_def evbus_recv_def evbus_register_def

section \<open>The contract of a queue of signals\<close>

text \<open>
  What the event loop relies on: signals come out once and in the order they went in, and a
  poller that watches the queue is told exactly when it has something to take.
\<close>

locale signal_queue =
  fixes contents :: "'q \<Rightarrow> 'm list"
    and announced :: "'q \<Rightarrow> bool option"
    and push :: "'q \<Rightarrow> 'm \<Rightarrow> 'q"
    and take_one :: "'q \<Rightarrow> 'm option \<times> 'q"
    and sound :: "'q \<Rightarrow> bool"
  assumes push_law: "sound q \<Longrightarrow> sound (push q m) \<and> contents (push q m) = contents q @ [m]"
    and take_law: "sound q \<Longrightarrow> sound (snd (take_one q)) \<and>
      (case contents q of
         [] \<Rightarrow> fst (take_one q) = None \<and> contents (snd (take_one q)) = []
       | m # ms \<Rightarrow> fst (take_one q) = Some m \<and> contents (snd (take_one q)) = ms)"
    and announce_law: "\<lbrakk>sound q; announced q = Some a\<rbrakk> \<Longrightarrow> a \<longleftrightarrow> contents q \<noteq> []"

datatype 'm queue_op = Push 'm | Take

fun queue_run :: "('q \<Rightarrow> 'm \<Rightarrow> 'q) \<Rightarrow> ('q \<Rightarrow> 'm option \<times> 'q) \<Rightarrow> 'm queue_op list \<Rightarrow> 'q \<Rightarrow> 'm list \<times> 'q" where
  "queue_run push take_one [] q = ([], q)"
| "queue_run push take_one (Push m # os) q = queue_run push take_one os (push q m)"
| "queue_run push take_one (Take # os) q =
     (let (r, q') = take_one q; (ms, q'') = queue_run push take_one os q'
      in (case r of Some m \<Rightarrow> m # ms | None \<Rightarrow> ms, q''))"

fun pushed :: "'m queue_op list \<Rightarrow> 'm list" where
  "pushed [] = []"
| "pushed (Push m # os) = m # pushed os"
| "pushed (Take # os) = pushed os"

context signal_queue
begin

lemma run_in_order:
  assumes "sound q" and "queue_run push take_one os q = (ms, q')"
  shows "sound q' \<and> contents q @ pushed os = ms @ contents q'"
  using assms
proof (induction os arbitrary: q ms q')
  case (Cons x xs)
  show ?case
  proof (cases x)
    case (Push m)
    then show ?thesis using Cons.IH [of "push q m" ms] Cons.prems push_law [OF Cons.prems(1), of m] by simp
  next
    case Take
    obtain r q1 where r: "take_one q = (r, q1)" by (cases "take_one q")
    obtain ms1 q2 where rest: "queue_run push take_one xs q1 = (ms1, q2)" by (cases "queue_run push take_one xs q1")
    have law: "sound q1" "(case contents q of [] \<Rightarrow> r = None \<and> contents q1 = [] | m # ms \<Rightarrow> r = Some m \<and> contents q1 = ms)"
      using take_law [OF Cons.prems(1), unfolded r fst_conv snd_conv] by simp_all
    have "ms = (case r of Some m \<Rightarrow> m # ms1 | None \<Rightarrow> ms1)" "q' = q2"
      using Cons.prems(2) Take r rest by (auto split: option.splits)
    then show ?thesis using Cons.IH [OF law(1) rest] law(2) Take by (auto split: list.splits)
  qed
qed simp

end

definition evbus_announced :: "'m event_loop_bus \<Rightarrow> bool option" where
  "evbus_announced b = map_option (\<lambda>events. Readable \<in> events) (evbus_readiness b)"

definition evbus_ok :: "'m event_loop_bus \<Rightarrow> bool" where
  "evbus_ok b \<longleftrightarrow> (evbus_registration b \<longleftrightarrow> evbus_readiness b \<noteq> None) \<and>
     (\<forall>events. evbus_readiness b = Some events \<longrightarrow> events = (if evbus_queue b = [] then {} else {Readable}))"

interpretation signals: signal_queue evbus_queue evbus_announced evbus_send evbus_recv evbus_ok
proof unfold_locales
  fix q :: "'m event_loop_bus" and m a
  assume ok: "evbus_ok q"
  show "evbus_ok (evbus_send q m) \<and> evbus_queue (evbus_send q m) = evbus_queue q @ [m]"
    using ok by (auto simp: evbus_defs evbus_ok_def Let_def split: option.splits)
  show "evbus_ok (snd (evbus_recv q)) \<and>
      (case evbus_queue q of
         [] \<Rightarrow> fst (evbus_recv q) = None \<and> evbus_queue (snd (evbus_recv q)) = []
       | m # ms \<Rightarrow> fst (evbus_recv q) = Some m \<and> evbus_queue (snd (evbus_recv q)) = ms)"
    using ok by (auto simp: evbus_defs evbus_ok_def Let_def split: option.splits list.splits)
  show "evbus_announced q = Some a \<Longrightarrow> a \<longleftrightarrow> evbus_queue q \<noteq> []"
    using ok by (auto simp: evbus_announced_def evbus_ok_def split: if_splits)
qed

lemma evbus_register_ok: "evbus_ok b \<Longrightarrow> evbus_ok (snd (evbus_register b polled))"
  by (auto simp: evbus_defs evbus_ok_def split: option.splits)

lemma evbus_new_ok [simp]: "evbus_ok evbus_new"
  by (simp add: evbus_defs evbus_ok_def)

lemma evbus_registration_kept [simp]:
  "evbus_registration (evbus_send b m) = evbus_registration b" "evbus_registration (snd (evbus_recv b)) = evbus_registration b"
  by (simp_all add: evbus_send_def evbus_recv_def set_readiness_def Let_def split: option.split list.split)

lemma run_registration: "evbus_registration (snd (queue_run evbus_send evbus_recv os b)) = evbus_registration b"
  by (induction os arbitrary: b rule: pushed.induct) (simp_all add: case_prod_beta Let_def)

text \<open>
  (C13) The bus hands its signals out once and in the order they were sent, whether they were sent
  before or after it was registered; and once it is registered, the poller is told that it is
  readable exactly while a signal waits in it.
\<close>

theorem bus_signals_in_order:
  assumes "queue_run evbus_send evbus_recv before evbus_new = (taken, b)"
    and "evbus_register b None = (Inr (), b')"
    and "queue_run evbus_send evbus_recv after b' = (taken', b'')"
  shows "pushed before @ pushed after = taken @ taken' @ evbus_queue b'' \<and>
    evbus_readiness b'' = Some (if evbus_queue b'' = [] then {} else {Readable})"
proof -
  have first: "evbus_ok b" "pushed before = taken @ evbus_queue b"
    using signals.run_in_order [OF evbus_new_ok assms(1)] by (simp_all add: evbus_new_def)
  have reg: "evbus_ok b'" "evbus_queue b' = evbus_queue b" "evbus_registration b'"
    using evbus_register_ok [OF first(1), of None] assms(2) by (auto simp: evbus_register_def split: if_splits)
  have rest: "evbus_ok b''" "evbus_queue b' @ pushed after = taken' @ evbus_queue b''"
    using signals.run_in_order [OF reg(1) assms(3)] by simp_all
  have "evbus_registration b''" using run_registration [of after b'] assms(3) reg(3) by simp
  then show ?thesis using first(2) reg(2) rest by (auto simp: evbus_ok_def)
qed

text \<open>Witness.\<close>

theorem bus_signals_in_order_witness:
  "pushed [Push (1::nat), Take, Push 2] @ pushed [Push 3, Take] = [1] @ [2] @ [3] \<and>
   evbus_readiness (snd (queue_run evbus_send evbus_recv [Push (3::nat), Take]
     (snd (evbus_register (snd (queue_run evbus_send evbus_recv [Push 1, Take, Push 2] evbus_new)) None)))) = Some {Readable}"
proof -
  let ?b = "snd (queue_run evbus_send evbus_recv [Push (1::nat), Take, Push 2] evbus_new)"
  let ?b' = "snd (evbus_register ?b None)"
  let ?b'' = "snd (queue_run evbus_send evbus_recv [Push 3, Take] ?b')"
  have "queue_run evbus_send evbus_recv [Push (1::nat), Take, Push 2] evbus_new = ([1], ?b)" "evbus_register ?b None = (Inr (), ?b')"
    "queue_run evbus_send evbus_recv [Push 3, Take] ?b' = ([2], ?b'')" "evbus_queue ?b'' = [3]"
    by (simp_all add: evbus_defs)
  from bus_signals_in_order [OF this(1-3)] this(4) show ?thesis by (simp only: if_False list.distinct simp_thms)
qed

end
