(* ===== verification/Reactor_Adapter.thy ===== *)
theory Reactor_Adapter
  imports Reactor_Bus Core_Session
begin

text \<open>
  What the event loop lends to the objects it runs, \<open>src/reactor/adapter.rs\<close>, and the messages
  it passes, \<open>src/reactor/mod.rs\<close>: the collection of pipes and acceptors, the schedule, and the
  contexts of sockets, endpoints, devices and probes. \<open>Core_Context\<close> leaves the answers of the
  event loop open; here they are computed, by performing the calls of the log one after the
  other. The timer wheel of \<open>mio_extras\<close> is a record of its operations. \<open>None\<close> is a panic: the
  overflow of an identifier sequence.
\<close>

section \<open>Messages: mod.rs\<close>

datatype context_command = Poll

datatype 'e signal =
    PipeCmd socket_id endpoint_id pipe_command
  | PipeEvt socket_id endpoint_id pipe_event
  | AcceptorCmd socket_id endpoint_id acceptor_command
  | AcceptorEvt socket_id endpoint_id "'e acceptor_event"
  | SocketCmd socket_id context_command
  | SocketEvt socket_id event

datatype endpoint_request = EndpointClose bool

datatype 'p request =
    SessionRequest "'p session_request"
  | SocketRequest socket_id socket_request
  | EndpointRequest socket_id endpoint_id endpoint_request
  | DeviceRequest device_id device_request
  | ProbeRequest probe_id probe_request

datatype task =
    SocketTask socket_id schedulable
  | ProbeTask probe_id probe_schedulable

section \<open>The timer and the schedule\<close>

text \<open>A handle of the timer is only stored and given back.\<close>

type_synonym timer_handle = nat

record 'tm timer_ops =
  tm_set_timeout :: "'tm \<Rightarrow> duration \<Rightarrow> task \<Rightarrow> timer_handle \<times> 'tm"
  tm_cancel_timeout :: "'tm \<Rightarrow> timer_handle \<Rightarrow> 'tm"
  tm_poll :: "'tm \<Rightarrow> task option \<times> 'tm"

record schedule_table =
  sch_ids :: usize
  sch_items :: "scheduled \<rightharpoonup> timer_handle"

definition schedule_new :: "usize \<Rightarrow> schedule_table" where
  "schedule_new seq = \<lparr>sch_ids = seq, sch_items = Map.empty\<rparr>"

definition schedule_insert :: "schedule_table \<Rightarrow> timer_handle \<Rightarrow> (scheduled \<times> schedule_table) option" where
  "schedule_insert t handle = do {
     (scheduled, seq) \<leftarrow> sequence_next (sch_ids t);
     Some (scheduled, t\<lparr>sch_ids := seq, sch_items := (sch_items t)(scheduled \<mapsto> handle)\<rparr>) }"

definition schedule_remove :: "schedule_table \<Rightarrow> scheduled \<Rightarrow> timer_handle option \<times> schedule_table" where
  "schedule_remove t scheduled = (sch_items t scheduled, t\<lparr>sch_items := (sch_items t)(scheduled := None)\<rparr>)"

section \<open>The endpoint collection\<close>

record 'e pipe_controller =
  pct_socket_id :: socket_id
  pct_endpoint_id :: endpoint_id
  pct_pipe :: 'e

record 'a acceptor_controller =
  act_socket_id :: socket_id
  act_endpoint_id :: endpoint_id
  act_acceptor :: 'a

text \<open>The sequence of identifiers is shared with the session and passed separately.\<close>

record ('e, 'a, 'w) endpoint_collection =
  ec_transports :: "string \<rightharpoonup> ('e, 'a, 'w) transport"
  ec_pipes :: "endpoint_id \<rightharpoonup> 'e pipe_controller"
  ec_acceptors :: "endpoint_id \<rightharpoonup> 'a acceptor_controller"

definition endpoint_collection_new :: "(string \<rightharpoonup> ('e, 'a, 'w) transport) \<Rightarrow> ('e, 'a, 'w) endpoint_collection" where
  "endpoint_collection_new transports = \<lparr>ec_transports = transports, ec_pipes = Map.empty, ec_acceptors = Map.empty\<rparr>"

definition ec_get_transport :: "('e, 'a, 'w) endpoint_collection \<Rightarrow> string \<Rightarrow> io_error + ('e, 'a, 'w) transport" where
  "ec_get_transport c scheme = (case ec_transports c scheme of
     Some t \<Rightarrow> Inr t
   | None \<Rightarrow> Inl (invalid_input_io_error ''invalid scheme''))"

definition ec_insert_pipe_controller ::
  "('e, 'a, 'w) endpoint_collection \<Rightarrow> socket_id \<Rightarrow> endpoint_id \<Rightarrow> 'e \<Rightarrow> ('e, 'a, 'w) endpoint_collection" where
  "ec_insert_pipe_controller c sid eid pipe =
     c\<lparr>ec_pipes := (ec_pipes c)(eid \<mapsto> \<lparr>pct_socket_id = sid, pct_endpoint_id = eid, pct_pipe = pipe\<rparr>)\<rparr>"

definition ec_insert_pipe ::
  "usize \<Rightarrow> ('e, 'a, 'w) endpoint_collection \<Rightarrow> socket_id \<Rightarrow> 'e \<Rightarrow> (endpoint_id \<times> usize \<times> ('e, 'a, 'w) endpoint_collection) option" where
  "ec_insert_pipe seq c sid pipe = do {
     (eid, seq') \<leftarrow> sequence_next seq;
     Some (eid, seq', ec_insert_pipe_controller c sid eid pipe) }"

definition ec_remove_pipe :: "('e, 'a, 'w) endpoint_collection \<Rightarrow> endpoint_id \<Rightarrow> ('e, 'a, 'w) endpoint_collection" where
  "ec_remove_pipe c eid = c\<lparr>ec_pipes := (ec_pipes c)(eid := None)\<rparr>"

definition ec_insert_acceptor_controller ::
  "('e, 'a, 'w) endpoint_collection \<Rightarrow> socket_id \<Rightarrow> endpoint_id \<Rightarrow> 'a \<Rightarrow> ('e, 'a, 'w) endpoint_collection" where
  "ec_insert_acceptor_controller c sid eid acceptor =
     c\<lparr>ec_acceptors := (ec_acceptors c)(eid \<mapsto> \<lparr>act_socket_id = sid, act_endpoint_id = eid, act_acceptor = acceptor\<rparr>)\<rparr>"

definition ec_insert_acceptor ::
  "usize \<Rightarrow> ('e, 'a, 'w) endpoint_collection \<Rightarrow> socket_id \<Rightarrow> 'a \<Rightarrow> (endpoint_id \<times> usize \<times> ('e, 'a, 'w) endpoint_collection) option" where
  "ec_insert_acceptor seq c sid acceptor = do {
     (eid, seq') \<leftarrow> sequence_next seq;
     Some (eid, seq', ec_insert_acceptor_controller c sid eid acceptor) }"

section \<open>Addresses\<close>

text \<open>\<open>url.find("://")\<close>: the index of the first occurrence.\<close>

fun find_separator :: "string \<Rightarrow> nat option" where
  "find_separator [] = None"
| "find_separator (c # cs) = (if take 3 (c # cs) = ''://'' then Some 0 else map_option Suc (find_separator cs))"

definition split_url :: "string \<Rightarrow> io_error + string \<times> string" where
  "split_url url = (case find_separator url of
     Some index \<Rightarrow> Inr (take index url, drop 3 (drop index url))
   | None \<Rightarrow> Inl (invalid_input_io_error url))"

definition destination_of :: "string \<Rightarrow> endpoint_tmpl \<Rightarrow> destination" where
  "destination_of addr tmpl = \<lparr>dest_addr = addr, dest_pids = pids tmpl,
     dest_tcp_no_delay = tcp_no_delay (spec_desc (tmpl_spec tmpl)),
     dest_recv_max_size = recv_max_size (spec_desc (tmpl_spec tmpl))\<rparr>"

section \<open>The context of a socket\<close>

text \<open>
  The borrowed parts of the event loop; \<open>sc_ids\<close> is the shared sequence, \<open>sc_world\<close> the
  operating system and \<open>sc_replies\<close> the channel on which the protocol answers the facade.
\<close>

record ('e, 'a, 'tm, 'w) socket_context =
  sc_socket_id :: socket_id
  sc_bus :: "'e signal event_loop_bus"
  sc_ids :: usize
  sc_endpoints :: "('e, 'a, 'w) endpoint_collection"
  sc_schedule :: schedule_table
  sc_timer :: 'tm
  sc_world :: 'w
  sc_replies :: "reply list"

definition send_signal :: "('e, 'a, 'tm, 'w) socket_context \<Rightarrow> 'e signal \<Rightarrow> ('e, 'a, 'tm, 'w) socket_context" where
  "send_signal c sig = c\<lparr>sc_bus := evbus_send (sc_bus c) sig\<rparr>"

definition send_pipe_cmd :: "('e, 'a, 'tm, 'w) socket_context \<Rightarrow> endpoint_id \<Rightarrow> pipe_command \<Rightarrow> ('e, 'a, 'tm, 'w) socket_context" where
  "send_pipe_cmd c eid cmd = send_signal c (PipeCmd (sc_socket_id c) eid cmd)"

definition send_acceptor_cmd :: "('e, 'a, 'tm, 'w) socket_context \<Rightarrow> endpoint_id \<Rightarrow> acceptor_command \<Rightarrow> ('e, 'a, 'tm, 'w) socket_context" where
  "send_acceptor_cmd c eid cmd = send_signal c (AcceptorCmd (sc_socket_id c) eid cmd)"

definition send_socket_evt :: "('e, 'a, 'tm, 'w) socket_context \<Rightarrow> event \<Rightarrow> ('e, 'a, 'tm, 'w) socket_context" where
  "send_socket_evt c evt = send_signal c (SocketEvt (sc_socket_id c) evt)"

text \<open>The private \<open>connect\<close> and \<open>bind\<close>: they find the transport and call it.\<close>

definition transport_connect :: "('e, 'a, 'tm, 'w) socket_context \<Rightarrow> endpoint_tmpl \<Rightarrow> (io_error + 'e) \<times> ('e, 'a, 'tm, 'w) socket_context" where
  "transport_connect c tmpl =
     (case split_url (spec_url (tmpl_spec tmpl)) of
        Inl e \<Rightarrow> (Inl e, c)
      | Inr (scheme, addr) \<Rightarrow>
          (case ec_get_transport (sc_endpoints c) scheme of
             Inl e \<Rightarrow> (Inl e, c)
           | Inr t \<Rightarrow>
               (let (r, w) = tr_connect t (sc_world c) (destination_of addr tmpl) in (r, c\<lparr>sc_world := w\<rparr>))))"

definition transport_bind :: "('e, 'a, 'tm, 'w) socket_context \<Rightarrow> endpoint_tmpl \<Rightarrow> (io_error + 'a) \<times> ('e, 'a, 'tm, 'w) socket_context" where
  "transport_bind c tmpl =
     (case split_url (spec_url (tmpl_spec tmpl)) of
        Inl e \<Rightarrow> (Inl e, c)
      | Inr (scheme, addr) \<Rightarrow>
          (case ec_get_transport (sc_endpoints c) scheme of
             Inl e \<Rightarrow> (Inl e, c)
           | Inr t \<Rightarrow>
               (let (r, w) = tr_bind t (sc_world c) (destination_of addr tmpl) in (r, c\<lparr>sc_world := w\<rparr>))))"

text \<open>\<open>impl Network\<close>.\<close>

definition sc_connect ::
  "('e, 'a, 'tm, 'w) socket_context \<Rightarrow> socket_id \<Rightarrow> endpoint_tmpl \<Rightarrow>
   ((io_error + endpoint_id) \<times> ('e, 'a, 'tm, 'w) socket_context) option" where
  "sc_connect c sid tmpl =
     (case transport_connect c tmpl of
        (Inl e, c') \<Rightarrow> Some (Inl e, c')
      | (Inr pipe, c') \<Rightarrow> do {
          (eid, seq, eps) \<leftarrow> ec_insert_pipe (sc_ids c') (sc_endpoints c') sid pipe;
          Some (Inr eid, c'\<lparr>sc_ids := seq, sc_endpoints := eps\<rparr>) })"

definition sc_bind ::
  "('e, 'a, 'tm, 'w) socket_context \<Rightarrow> socket_id \<Rightarrow> endpoint_tmpl \<Rightarrow>
   ((io_error + endpoint_id) \<times> ('e, 'a, 'tm, 'w) socket_context) option" where
  "sc_bind c sid tmpl =
     (case transport_bind c tmpl of
        (Inl e, c') \<Rightarrow> Some (Inl e, c')
      | (Inr acceptor, c') \<Rightarrow> do {
          (eid, seq, eps) \<leftarrow> ec_insert_acceptor (sc_ids c') (sc_endpoints c') sid acceptor;
          Some (Inr eid, c'\<lparr>sc_ids := seq, sc_endpoints := eps\<rparr>) })"

definition sc_reconnect ::
  "('e, 'a, 'tm, 'w) socket_context \<Rightarrow> socket_id \<Rightarrow> endpoint_id \<Rightarrow> endpoint_tmpl \<Rightarrow> io_error option \<times> ('e, 'a, 'tm, 'w) socket_context" where
  "sc_reconnect c sid eid tmpl =
     (case transport_connect c tmpl of
        (Inl e, c') \<Rightarrow> (Some e, c')
      | (Inr pipe, c') \<Rightarrow> (None, c'\<lparr>sc_endpoints := ec_insert_pipe_controller (sc_endpoints c') sid eid pipe\<rparr>))"

definition sc_rebind ::
  "('e, 'a, 'tm, 'w) socket_context \<Rightarrow> socket_id \<Rightarrow> endpoint_id \<Rightarrow> endpoint_tmpl \<Rightarrow> io_error option \<times> ('e, 'a, 'tm, 'w) socket_context" where
  "sc_rebind c sid eid tmpl =
     (case transport_bind c tmpl of
        (Inl e, c') \<Rightarrow> (Some e, c')
      | (Inr acceptor, c') \<Rightarrow> (None, c'\<lparr>sc_endpoints := ec_insert_acceptor_controller (sc_endpoints c') sid eid acceptor\<rparr>))"

definition sc_open :: "('e, 'a, 'tm, 'w) socket_context \<Rightarrow> endpoint_id \<Rightarrow> bool \<Rightarrow> ('e, 'a, 'tm, 'w) socket_context" where
  "sc_open c eid remote = (if remote then send_pipe_cmd c eid PipeOpen else send_acceptor_cmd c eid AcceptorOpen)"

definition sc_close :: "('e, 'a, 'tm, 'w) socket_context \<Rightarrow> endpoint_id \<Rightarrow> bool \<Rightarrow> ('e, 'a, 'tm, 'w) socket_context" where
  "sc_close c eid remote = (if remote then send_pipe_cmd c eid PipeClose else send_acceptor_cmd c eid AcceptorClose)"

definition sc_send :: "('e, 'a, 'tm, 'w) socket_context \<Rightarrow> endpoint_id \<Rightarrow> message \<Rightarrow> ('e, 'a, 'tm, 'w) socket_context" where
  "sc_send c eid msg = send_pipe_cmd c eid (PipeSend msg)"

definition sc_recv :: "('e, 'a, 'tm, 'w) socket_context \<Rightarrow> endpoint_id \<Rightarrow> ('e, 'a, 'tm, 'w) socket_context" where
  "sc_recv c eid = send_pipe_cmd c eid PipeRecv"

text \<open>\<open>impl Scheduler\<close>.\<close>

definition sc_schedule_task ::
  "'tm timer_ops \<Rightarrow> ('e, 'a, 'tm, 'w) socket_context \<Rightarrow> schedulable \<Rightarrow> duration \<Rightarrow>
   (scheduled \<times> ('e, 'a, 'tm, 'w) socket_context) option" where
  "sc_schedule_task tm c task delay =
     (let (handle, timer) = tm_set_timeout tm (sc_timer c) delay (SocketTask (sc_socket_id c) task)
      in do {
        (scheduled, table) \<leftarrow> schedule_insert (sc_schedule c) handle;
        Some (scheduled, c\<lparr>sc_timer := timer, sc_schedule := table\<rparr>) })"

definition sc_cancel :: "'tm timer_ops \<Rightarrow> ('e, 'a, 'tm, 'w) socket_context \<Rightarrow> scheduled \<Rightarrow> ('e, 'a, 'tm, 'w) socket_context" where
  "sc_cancel tm c scheduled =
     (case schedule_remove (sc_schedule c) scheduled of
        (Some handle, table) \<Rightarrow> c\<lparr>sc_schedule := table, sc_timer := tm_cancel_timeout tm (sc_timer c) handle\<rparr>
      | (None, table) \<Rightarrow> c\<lparr>sc_schedule := table\<rparr>)"

section \<open>Performing the calls of a log\<close>

fun perform :: "'tm timer_ops \<Rightarrow> effect \<Rightarrow> ('e, 'a, 'tm, 'w) socket_context \<Rightarrow> ('e, 'a, 'tm, 'w) socket_context option" where
  "perform tm (NetConnect sid tmpl) c = map_option snd (sc_connect c sid tmpl)"
| "perform tm (NetBind sid tmpl) c = map_option snd (sc_bind c sid tmpl)"
| "perform tm (NetReconnect sid eid tmpl) c = Some (snd (sc_reconnect c sid eid tmpl))"
| "perform tm (NetRebind sid eid tmpl) c = Some (snd (sc_rebind c sid eid tmpl))"
| "perform tm (NetOpen eid remote) c = Some (sc_open c eid remote)"
| "perform tm (NetClose eid remote) c = Some (sc_close c eid remote)"
| "perform tm (NetSend eid msg) c = Some (sc_send c eid msg)"
| "perform tm (NetRecv eid) c = Some (sc_recv c eid)"
| "perform tm (Scheduling task delay) c = map_option snd (sc_schedule_task tm c task delay)"
| "perform tm (Cancel scheduled) c = Some (sc_cancel tm c scheduled)"
| "perform tm (Raise evt) c = Some (send_socket_evt c evt)"
| "perform tm (Reply r) c = Some (c\<lparr>sc_replies := sc_replies c @ [r]\<rparr>)"

fun perform_all :: "'tm timer_ops \<Rightarrow> effect list \<Rightarrow> ('e, 'a, 'tm, 'w) socket_context \<Rightarrow> ('e, 'a, 'tm, 'w) socket_context option" where
  "perform_all tm [] c = Some c"
| "perform_all tm (e # es) c = do { c' \<leftarrow> perform tm e c; perform_all tm es c' }"

text \<open>
  The answer to the last call of a log that starts at the context \<open>c\<close>. After a panic there is no
  answer; the value given there is never seen, since the run as a whole is \<open>None\<close>.
\<close>

definition panicked :: io_error where
  "panicked = other_io_error ''panicked''"

definition endpoint_answer :: "'tm timer_ops \<Rightarrow> ('e, 'a, 'tm, 'w) socket_context \<Rightarrow> effect list \<Rightarrow> io_error + endpoint_id" where
  "endpoint_answer tm c es =
     (case perform_all tm (butlast es) c of
        None \<Rightarrow> Inl panicked
      | Some c' \<Rightarrow>
          (case (case last es of NetConnect sid tmpl \<Rightarrow> sc_connect c' sid tmpl
                 | NetBind sid tmpl \<Rightarrow> sc_bind c' sid tmpl | _ \<Rightarrow> None) of
             None \<Rightarrow> Inl panicked
           | Some (r, _) \<Rightarrow> r))"

definition restart_answer :: "'tm timer_ops \<Rightarrow> ('e, 'a, 'tm, 'w) socket_context \<Rightarrow> effect list \<Rightarrow> io_error option" where
  "restart_answer tm c es =
     (case perform_all tm (butlast es) c of
        None \<Rightarrow> Some panicked
      | Some c' \<Rightarrow>
          (case last es of NetReconnect sid eid tmpl \<Rightarrow> fst (sc_reconnect c' sid eid tmpl)
           | NetRebind sid eid tmpl \<Rightarrow> fst (sc_rebind c' sid eid tmpl) | _ \<Rightarrow> Some panicked))"

definition schedule_answer :: "'tm timer_ops \<Rightarrow> ('e, 'a, 'tm, 'w) socket_context \<Rightarrow> effect list \<Rightarrow> io_error + scheduled" where
  "schedule_answer tm c es =
     (case perform_all tm (butlast es) c of
        None \<Rightarrow> Inl panicked
      | Some c' \<Rightarrow>
          (case (case last es of Scheduling task delay \<Rightarrow> sc_schedule_task tm c' task delay | _ \<Rightarrow> None) of
             None \<Rightarrow> Inl panicked
           | Some (scheduled, _) \<Rightarrow> Inr scheduled))"

definition adapter_env ::
  "'tm timer_ops \<Rightarrow> (endpoint_id set \<Rightarrow> endpoint_id list) \<Rightarrow> ('e, 'a, 'tm, 'w) socket_context \<Rightarrow> environment" where
  "adapter_env tm ord c = \<lparr>answer_connect = endpoint_answer tm c, answer_reconnect = restart_answer tm c,
     answer_schedule = schedule_answer tm c, hash_order = ord\<rparr>"

definition adapter_ctx ::
  "'tm timer_ops \<Rightarrow> (endpoint_id set \<Rightarrow> endpoint_id list) \<Rightarrow> ('e, 'a, 'tm, 'w) socket_context \<Rightarrow> ctx" where
  "adapter_ctx tm ord c = \<lparr>trace = [], env = adapter_env tm ord c\<rparr>"

section \<open>The context of an endpoint\<close>

text \<open>What a pipe or an acceptor does to the event loop: registrations are logged, events are signals.\<close>

datatype registration = Register endpoint_id ready_set poll_opt | Reregister endpoint_id ready_set poll_opt | Deregister endpoint_id

fun perform_pipe_effect ::
  "socket_id \<Rightarrow> endpoint_id \<Rightarrow> pipe_effect \<Rightarrow> registration list \<times> 'e signal event_loop_bus \<Rightarrow> registration list \<times> 'e signal event_loop_bus" where
  "perform_pipe_effect sid eid (PipeRegister interest opt) (regs, bus) = (regs @ [Register eid interest opt], bus)"
| "perform_pipe_effect sid eid (PipeReregister interest opt) (regs, bus) = (regs @ [Reregister eid interest opt], bus)"
| "perform_pipe_effect sid eid PipeDeregister (regs, bus) = (regs @ [Deregister eid], bus)"
| "perform_pipe_effect sid eid (PipeRaise evt) (regs, bus) = (regs, evbus_send bus (PipeEvt sid eid evt))"

fun perform_acceptor_effect ::
  "socket_id \<Rightarrow> endpoint_id \<Rightarrow> 'e acceptor_effect \<Rightarrow> registration list \<times> 'e signal event_loop_bus \<Rightarrow> registration list \<times> 'e signal event_loop_bus" where
  "perform_acceptor_effect sid eid (AcceptorRegister interest opt) (regs, bus) = (regs @ [Register eid interest opt], bus)"
| "perform_acceptor_effect sid eid AcceptorDeregister (regs, bus) = (regs @ [Deregister eid], bus)"
| "perform_acceptor_effect sid eid (AcceptorRaise evt) (regs, bus) = (regs, evbus_send bus (AcceptorEvt sid eid evt))"

definition pipe_controller_ready ::
  "'e pipe_ops \<Rightarrow> 'e pipe_controller \<Rightarrow> registration list \<times> 'e signal event_loop_bus \<Rightarrow> ready_set \<Rightarrow>
   'e pipe_controller \<times> registration list \<times> 'e signal event_loop_bus" where
  "pipe_controller_ready po c rb events =
     (let (pipe, es) = po_ready po (pct_pipe c) [] events
      in (c\<lparr>pct_pipe := pipe\<rparr>, fold (perform_pipe_effect (pct_socket_id c) (pct_endpoint_id c)) es rb))"

definition pipe_controller_process ::
  "'e pipe_ops \<Rightarrow> 'e pipe_controller \<Rightarrow> registration list \<times> 'e signal event_loop_bus \<Rightarrow> pipe_command \<Rightarrow>
   'e pipe_controller \<times> registration list \<times> 'e signal event_loop_bus" where
  "pipe_controller_process po c rb cmd =
     (let (pipe, es) =
        (case cmd of
           PipeOpen \<Rightarrow> po_open po (pct_pipe c) []
         | PipeClose \<Rightarrow> po_close po (pct_pipe c) []
         | PipeSend msg \<Rightarrow> po_send po (pct_pipe c) [] msg
         | PipeRecv \<Rightarrow> po_recv po (pct_pipe c) [])
      in (c\<lparr>pct_pipe := pipe\<rparr>, fold (perform_pipe_effect (pct_socket_id c) (pct_endpoint_id c)) es rb))"

definition acceptor_controller_ready ::
  "('e, 'a) acceptor_ops \<Rightarrow> 'a acceptor_controller \<Rightarrow> registration list \<times> 'e signal event_loop_bus \<Rightarrow> ready_set \<Rightarrow>
   ('a acceptor_controller \<times> registration list \<times> 'e signal event_loop_bus) option" where
  "acceptor_controller_ready ao c rb events = do {
     (acceptor, es) \<leftarrow> ao_ready ao (act_acceptor c) [] events;
     Some (c\<lparr>act_acceptor := acceptor\<rparr>, fold (perform_acceptor_effect (act_socket_id c) (act_endpoint_id c)) es rb) }"

definition acceptor_controller_process ::
  "('e, 'a) acceptor_ops \<Rightarrow> 'a acceptor_controller \<Rightarrow> registration list \<times> 'e signal event_loop_bus \<Rightarrow> acceptor_command \<Rightarrow>
   'a acceptor_controller \<times> registration list \<times> 'e signal event_loop_bus" where
  "acceptor_controller_process ao c rb cmd =
     (let (acceptor, es) =
        (case cmd of
           AcceptorOpen \<Rightarrow> ao_open ao (act_acceptor c) []
         | AcceptorClose \<Rightarrow> ao_close ao (act_acceptor c) [])
      in (c\<lparr>act_acceptor := acceptor\<rparr>, fold (perform_acceptor_effect (act_socket_id c) (act_endpoint_id c)) es rb))"

section \<open>The contexts of devices and probes\<close>

definition perform_device_effect :: "device_effect \<Rightarrow> 'e signal event_loop_bus \<Rightarrow> 'e signal event_loop_bus" where
  "perform_device_effect e bus = (case e of
     DevicePoll sid \<Rightarrow> evbus_send bus (SocketCmd sid Poll)
   | DeviceReply _ \<Rightarrow> bus)"

record ('e, 'tm) probe_context =
  pc_probe_id :: probe_id
  pc_bus :: "'e signal event_loop_bus"
  pc_schedule :: schedule_table
  pc_timer :: 'tm

definition pc_schedule_task ::
  "'tm timer_ops \<Rightarrow> ('e, 'tm) probe_context \<Rightarrow> probe_schedulable \<Rightarrow> duration \<Rightarrow> (scheduled \<times> ('e, 'tm) probe_context) option" where
  "pc_schedule_task tm c task delay =
     (let (handle, timer) = tm_set_timeout tm (pc_timer c) delay (ProbeTask (pc_probe_id c) task)
      in do {
        (scheduled, table) \<leftarrow> schedule_insert (pc_schedule c) handle;
        Some (scheduled, c\<lparr>pc_timer := timer, pc_schedule := table\<rparr>) })"

definition pc_cancel :: "'tm timer_ops \<Rightarrow> ('e, 'tm) probe_context \<Rightarrow> scheduled \<Rightarrow> ('e, 'tm) probe_context" where
  "pc_cancel tm c scheduled =
     (case schedule_remove (pc_schedule c) scheduled of
        (Some handle, table) \<Rightarrow> c\<lparr>pc_schedule := table, pc_timer := tm_cancel_timeout tm (pc_timer c) handle\<rparr>
      | (None, table) \<Rightarrow> c\<lparr>pc_schedule := table\<rparr>)"

definition pc_poll :: "('e, 'tm) probe_context \<Rightarrow> socket_id \<Rightarrow> ('e, 'tm) probe_context" where
  "pc_poll c sid = c\<lparr>pc_bus := evbus_send (pc_bus c) (SocketCmd sid Poll)\<rparr>"

fun perform_probe_effect :: "'tm timer_ops \<Rightarrow> probe_effect \<Rightarrow> ('e, 'tm) probe_context \<Rightarrow> ('e, 'tm) probe_context option" where
  "perform_probe_effect tm (ProbeScheduling task delay) c = map_option snd (pc_schedule_task tm c task delay)"
| "perform_probe_effect tm (ProbeCancel scheduled) c = Some (pc_cancel tm c scheduled)"
| "perform_probe_effect tm (ProbePoll sid) c = Some (pc_poll c sid)"
| "perform_probe_effect tm (ProbeReply _) c = Some c"

fun perform_probe_effects :: "'tm timer_ops \<Rightarrow> probe_effect list \<Rightarrow> ('e, 'tm) probe_context \<Rightarrow> ('e, 'tm) probe_context option" where
  "perform_probe_effects tm [] c = Some c"
| "perform_probe_effects tm (e # es) c = do { c' \<leftarrow> perform_probe_effect tm e c; perform_probe_effects tm es c' }"

definition probe_schedule_answer :: "'tm timer_ops \<Rightarrow> ('e, 'tm) probe_context \<Rightarrow> probe_effect list \<Rightarrow> io_error + scheduled" where
  "probe_schedule_answer tm c es =
     (case perform_probe_effects tm (butlast es) c of
        None \<Rightarrow> Inl panicked
      | Some c' \<Rightarrow>
          (case (case last es of ProbeScheduling task delay \<Rightarrow> pc_schedule_task tm c' task delay | _ \<Rightarrow> None) of
             None \<Rightarrow> Inl panicked
           | Some (scheduled, _) \<Rightarrow> Inr scheduled))"

definition probe_adapter_ctx :: "'tm timer_ops \<Rightarrow> ('e, 'tm) probe_context \<Rightarrow> probe_ctx" where
  "probe_adapter_ctx tm c = \<lparr>probe_trace = [], probe_answer = probe_schedule_answer tm c\<rparr>"

section \<open>Addresses are split at the first separator\<close>

lemma find_separator_Some:
  "find_separator url = Some i \<longleftrightarrow>
     take 3 (drop i url) = ''://'' \<and> (\<forall>j < i. take 3 (drop j url) \<noteq> ''://'')"
proof (induction url arbitrary: i)
  case (Cons c cs)
  show ?case
  proof (cases i)
    case 0
    then show ?thesis by simp
  next
    case (Suc k)
    then show ?thesis
      using Cons.IH [of k] by (auto simp: less_Suc_eq_0_disj simp del: take_Suc_Cons)
  qed
qed simp

lemma find_separator_None: "find_separator url = None \<longleftrightarrow> (\<forall>i. take 3 (drop i url) \<noteq> ''://'')"
proof -
  have "(\<exists>i. find_separator url = Some i) \<longleftrightarrow> (\<exists>i. take 3 (drop i url) = ''://'')"
    unfolding find_separator_Some using exists_least_iff [of "\<lambda>i. take 3 (drop i url) = ''://''"] by blast
  then show ?thesis by auto
qed

text \<open>
  (C14) The address of an endpoint is split at its first separator: it is the scheme, the
  separator and the rest, no separator starts earlier, and an address without any is refused.
\<close>

theorem split_url_first_separator:
  "(case split_url url of
      Inr (scheme, addr) \<Rightarrow> url = scheme @ ''://'' @ addr \<and>
        (\<forall>i < length scheme. take 3 (drop i url) \<noteq> ''://'')
    | Inl e \<Rightarrow> e = invalid_input_io_error url \<and> (\<nexists>scheme addr. url = scheme @ ''://'' @ addr)) \<and>
   ((\<forall>i < length scheme. take 3 (drop i (scheme @ ''://'' @ addr)) \<noteq> ''://'') \<longrightarrow>
      split_url (scheme @ ''://'' @ addr) = Inr (scheme, addr))"
proof (intro conjI impI)
  show "case split_url url of
      Inr (scheme, addr) \<Rightarrow> url = scheme @ ''://'' @ addr \<and>
        (\<forall>i < length scheme. take 3 (drop i url) \<noteq> ''://'')
    | Inl e \<Rightarrow> e = invalid_input_io_error url \<and> (\<nexists>scheme addr. url = scheme @ ''://'' @ addr)"
  proof (cases "find_separator url")
    case None
    have False if "url = scheme @ ''://'' @ addr" for scheme addr
    proof -
      have "take 3 (drop (length scheme) url) = ''://''" using that by simp
      then show False using None [unfolded find_separator_None] by blast
    qed
    then show ?thesis using None by (auto simp: split_url_def)
  next
    case (Some i)
    then have i: "take 3 (drop i url) = ''://''" "\<forall>j < i. take 3 (drop j url) \<noteq> ''://''"
      by (simp_all add: find_separator_Some)
    have "url = take i url @ take 3 (drop i url) @ drop 3 (drop i url)"
      by (simp only: append_take_drop_id)
    then show ?thesis using Some i by (simp add: split_url_def)
  qed
next
  assume "\<forall>i < length scheme. take 3 (drop i (scheme @ ''://'' @ addr)) \<noteq> ''://''"
  then have "find_separator (scheme @ ''://'' @ addr) = Some (length scheme)"
    unfolding find_separator_Some by simp
  then show "split_url (scheme @ ''://'' @ addr) = Inr (scheme, addr)"
    by (simp add: split_url_def)
qed

text \<open>Witness: the second separator belongs to the address.\<close>

theorem split_url_first_separator_witness:
  "split_url ''ipc:///tmp/a://b'' = Inr (''ipc'', ''/tmp/a://b'')"
proof -
  have "\<forall>i < length ''ipc''. take 3 (drop i (''ipc'' @ ''://'' @ ''/tmp/a://b'')) \<noteq> ''://''"
    by (auto simp: less_Suc_eq)
  with split_url_first_separator [of "''''" "''ipc''" "''/tmp/a://b''"] show ?thesis by simp
qed

section \<open>Identifiers\<close>

text \<open>
  Every pipe and acceptor is stored under its own identifier, which the sequence handed out
  earlier.
\<close>

definition collection_ok :: "usize \<Rightarrow> ('e, 'a, 'w) endpoint_collection \<Rightarrow> bool" where
  "collection_ok n c \<longleftrightarrow>
     (\<forall>eid pc. ec_pipes c eid = Some pc \<longrightarrow> eid < n \<and> pct_endpoint_id pc = eid) \<and>
     (\<forall>eid ac. ec_acceptors c eid = Some ac \<longrightarrow> eid < n \<and> act_endpoint_id ac = eid)"

lemma collection_ok_mono: "collection_ok n c \<Longrightarrow> n \<le> m \<Longrightarrow> collection_ok m c"
  unfolding collection_ok_def by (meson order_less_le_trans)

lemma collection_insert_ok:
  assumes "collection_ok n c" and "eid < n"
  shows "collection_ok n (ec_insert_pipe_controller c sid eid pipe)"
    and "collection_ok n (ec_insert_acceptor_controller c sid eid acceptor)"
  using assms by (simp_all add: collection_ok_def ec_insert_pipe_controller_def ec_insert_acceptor_controller_def)

lemma collection_new_ok:
  assumes "collection_ok n c"
  shows "ec_insert_pipe n c sid pipe = Some (eid, n', c') \<Longrightarrow> eid = n \<and> n < n' \<and> collection_ok n' c'"
    and "ec_insert_acceptor n c sid acceptor = Some (eid, n', c') \<Longrightarrow> eid = n \<and> n < n' \<and> collection_ok n' c'"
proof -
  have new: "eid = n \<and> n < n' \<and> collection_ok n' (ec_insert_pipe_controller c sid eid pipe) \<and>
      collection_ok n' (ec_insert_acceptor_controller c sid eid acceptor)" if "sequence_next n = Some (eid, n')"
    using sequence_next_SomeD [OF that] collection_insert_ok [OF collection_ok_mono [OF assms, of n'], of eid] by simp
  show "ec_insert_pipe n c sid pipe = Some (eid, n', c') \<Longrightarrow> eid = n \<and> n < n' \<and> collection_ok n' c'"
    "ec_insert_acceptor n c sid acceptor = Some (eid, n', c') \<Longrightarrow> eid = n \<and> n < n' \<and> collection_ok n' c'"
    using new by (auto simp: ec_insert_pipe_def ec_insert_acceptor_def bind_eq_Some_conv)
qed

lemma transport_connect_keeps:
  "transport_connect c tmpl = (r, c') \<Longrightarrow> \<exists>w. c' = c\<lparr>sc_world := w\<rparr>"
  by (auto simp: transport_connect_def split: sum.splits prod.splits intro: exI [of _ "sc_world c"])

lemma transport_bind_keeps:
  "transport_bind c tmpl = (r, c') \<Longrightarrow> \<exists>w. c' = c\<lparr>sc_world := w\<rparr>"
  by (auto simp: transport_bind_def split: sum.splits prod.splits intro: exI [of _ "sc_world c"])

text \<open>What every call keeps, for a call that reopens no endpoint from outside the sequence.\<close>

fun effect_below :: "usize \<Rightarrow> effect \<Rightarrow> bool" where
  "effect_below n (NetReconnect _ eid _) \<longleftrightarrow> eid < n"
| "effect_below n (NetRebind _ eid _) \<longleftrightarrow> eid < n"
| "effect_below n _ \<longleftrightarrow> True"

definition context_ok :: "('e, 'a, 'tm, 'w) socket_context \<Rightarrow> bool" where
  "context_ok c \<longleftrightarrow> collection_ok (sc_ids c) (sc_endpoints c) \<and> evbus_ok (sc_bus c)"

definition context_le :: "('e, 'a, 'tm, 'w) socket_context \<Rightarrow> ('e, 'a, 'tm, 'w) socket_context \<Rightarrow> bool" where
  "context_le c c' \<longleftrightarrow> sc_ids c \<le> sc_ids c' \<and> sc_socket_id c' = sc_socket_id c \<and>
     ec_transports (sc_endpoints c') = ec_transports (sc_endpoints c)"

lemma send_signal_ok: "context_ok c \<Longrightarrow> context_ok (send_signal c sig)" "context_le c (send_signal c sig)"
  by (simp_all add: context_ok_def context_le_def send_signal_def signals.push_law)

lemma collection_transports [simp]:
  "ec_transports (ec_insert_pipe_controller c sid eid pipe) = ec_transports c"
  "ec_transports (ec_insert_acceptor_controller c sid eid acceptor) = ec_transports c"
  by (simp_all add: ec_insert_pipe_controller_def ec_insert_acceptor_controller_def)

lemma connect_sound:
  assumes "context_ok c" and "sc_connect c sid tmpl = Some (r, c')"
  shows "context_ok c' \<and> context_le c c' \<and> (\<forall>eid. r = Inr eid \<longrightarrow> eid = sc_ids c \<and> eid < sc_ids c')"
proof -
  obtain r1 c1 where t: "transport_connect c tmpl = (r1, c1)" by (cases "transport_connect c tmpl")
  obtain w where c1: "c1 = c\<lparr>sc_world := w\<rparr>" using transport_connect_keeps [OF t] by blast
  show ?thesis
  proof (cases r1)
    case (Inl e)
    then show ?thesis using assms t c1 by (auto simp: sc_connect_def context_ok_def context_le_def)
  next
    case (Inr pipe)
    then obtain eid n eps where ins: "ec_insert_pipe (sc_ids c) (sc_endpoints c) sid pipe = Some (eid, n, eps)"
      and c': "r = Inr eid" "c' = c1\<lparr>sc_ids := n, sc_endpoints := eps\<rparr>"
      using assms(2) t c1 by (auto simp: sc_connect_def bind_eq_Some_conv)
    have "ec_transports eps = ec_transports (sc_endpoints c)"
      using ins by (auto simp: ec_insert_pipe_def bind_eq_Some_conv)
    then show ?thesis
      using collection_new_ok(1) [OF _ ins] assms(1) c' c1 by (auto simp: context_ok_def context_le_def)
  qed
qed

lemma bind_sound:
  assumes "context_ok c" and "sc_bind c sid tmpl = Some (r, c')"
  shows "context_ok c' \<and> context_le c c' \<and> (\<forall>eid. r = Inr eid \<longrightarrow> eid = sc_ids c \<and> eid < sc_ids c')"
proof -
  obtain r1 c1 where t: "transport_bind c tmpl = (r1, c1)" by (cases "transport_bind c tmpl")
  obtain w where c1: "c1 = c\<lparr>sc_world := w\<rparr>" using transport_bind_keeps [OF t] by blast
  show ?thesis
  proof (cases r1)
    case (Inl e)
    then show ?thesis using assms t c1 by (auto simp: sc_bind_def context_ok_def context_le_def)
  next
    case (Inr acceptor)
    then obtain eid n eps where ins: "ec_insert_acceptor (sc_ids c) (sc_endpoints c) sid acceptor = Some (eid, n, eps)"
      and c': "r = Inr eid" "c' = c1\<lparr>sc_ids := n, sc_endpoints := eps\<rparr>"
      using assms(2) t c1 by (auto simp: sc_bind_def bind_eq_Some_conv)
    have "ec_transports eps = ec_transports (sc_endpoints c)"
      using ins by (auto simp: ec_insert_acceptor_def bind_eq_Some_conv)
    then show ?thesis
      using collection_new_ok(2) [OF _ ins] assms(1) c' c1 by (auto simp: context_ok_def context_le_def)
  qed
qed

lemma restart_sound:
  assumes "context_ok c" and "eid < sc_ids c"
  shows "context_ok (snd (sc_reconnect c sid eid tmpl)) \<and> context_le c (snd (sc_reconnect c sid eid tmpl))"
    and "context_ok (snd (sc_rebind c sid eid tmpl)) \<and> context_le c (snd (sc_rebind c sid eid tmpl))"
  using assms collection_insert_ok
  by (auto simp: sc_reconnect_def sc_rebind_def context_ok_def context_le_def split: prod.splits sum.splits
      dest!: transport_connect_keeps transport_bind_keeps)

lemma schedule_sound:
  "sc_schedule_task tm c task delay = Some (scheduled, c') \<Longrightarrow> context_ok c \<Longrightarrow> context_ok c' \<and> context_le c c'"
  by (auto simp: sc_schedule_task_def context_ok_def context_le_def bind_eq_Some_conv split: prod.splits)

lemma cancel_sound: "context_ok c \<Longrightarrow> context_ok (sc_cancel tm c scheduled)" "context_le c (sc_cancel tm c scheduled)"
  by (simp_all add: sc_cancel_def schedule_remove_def context_ok_def context_le_def split: option.split)

lemma reply_sound: "context_ok (c\<lparr>sc_replies := rs\<rparr>) = context_ok c" "context_le c (c\<lparr>sc_replies := rs\<rparr>)"
  by (simp_all add: context_ok_def context_le_def)

lemmas signal_defs = sc_open_def sc_close_def sc_send_def sc_recv_def send_pipe_cmd_def send_acceptor_cmd_def send_socket_evt_def

lemma perform_sound:
  assumes "perform tm e c = Some c'" and "context_ok c" and "effect_below (sc_ids c) e"
  shows "context_ok c' \<and> context_le c c'"
proof (cases e)
  case (NetConnect sid tmpl)
  then show ?thesis using assms(1) connect_sound [OF assms(2)] by auto
next
  case (NetBind sid tmpl)
  then show ?thesis using assms(1) bind_sound [OF assms(2)] by auto
next
  case (NetReconnect sid eid tmpl)
  then show ?thesis using assms(1,3) restart_sound [OF assms(2)] by auto
next
  case (NetRebind sid eid tmpl)
  then show ?thesis using assms(1,3) restart_sound [OF assms(2)] by auto
next
  case (Scheduling task delay)
  then show ?thesis using assms(1) schedule_sound [OF _ assms(2)] by auto
qed (use assms(1,2) in \<open>auto simp: signal_defs send_signal_ok cancel_sound reply_sound\<close>)

lemma context_le_trans: "context_le a b \<Longrightarrow> context_le b c \<Longrightarrow> context_le a c"
  by (auto simp: context_le_def)

lemma context_le_refl [simp]: "context_le c c"
  by (simp add: context_le_def)

lemma effect_below_mono: "effect_below n e \<Longrightarrow> n \<le> m \<Longrightarrow> effect_below m e"
  by (cases e) auto

lemma perform_all_sound:
  assumes "perform_all tm es c = Some c'" and "context_ok c" and "\<forall>e \<in> set es. effect_below (sc_ids c) e"
  shows "context_ok c' \<and> context_le c c'"
  using assms
proof (induction es arbitrary: c)
  case (Cons e es)
  then obtain c1 where c1: "perform tm e c = Some c1" "perform_all tm es c1 = Some c'"
    by (auto simp: bind_eq_Some_conv)
  have first: "context_ok c1" "context_le c c1" using perform_sound [OF c1(1)] Cons.prems by auto
  moreover have "\<forall>e \<in> set es. effect_below (sc_ids c1) e"
    using Cons.prems(3) first(2) effect_below_mono by (auto simp: context_le_def)
  ultimately show ?case using Cons.IH [OF c1(2)] context_le_trans by blast
qed simp

lemma perform_all_append: "perform_all tm (xs @ ys) c = do { c' \<leftarrow> perform_all tm xs c; perform_all tm ys c' }"
  by (induction xs arbitrary: c) (simp_all split: Option.bind_split)

text \<open>A log runs out of identifiers only when there are more calls than identifiers left.\<close>

definition room :: "nat \<Rightarrow> ('e, 'a, 'tm, 'w) socket_context \<Rightarrow> bool" where
  "room n c \<longleftrightarrow> unat (sc_ids c) + n < 2 ^ 64 \<and> unat (sch_ids (sc_schedule c)) + n < 2 ^ 64"

lemma sequence_next_room: "unat v + 1 < 2 ^ 64 \<Longrightarrow> \<exists>v'. sequence_next v = Some (v, v') \<and> unat v' = Suc (unat v)"
  using sequence_next_runs [of v] by auto

lemma perform_room:
  assumes "room (Suc n) c"
  shows "\<exists>c'. perform tm e c = Some c' \<and> room n c'"
proof -
  have less: "room n c" using assms by (simp add: room_def)
  obtain i where i: "sequence_next (sc_ids c) = Some (sc_ids c, i)" "unat i = Suc (unat (sc_ids c))"
    using sequence_next_room [of "sc_ids c"] assms by (auto simp: room_def)
  obtain j where j: "sequence_next (sch_ids (sc_schedule c)) = Some (sch_ids (sc_schedule c), j)"
      "unat j = Suc (unat (sch_ids (sc_schedule c)))"
    using sequence_next_room [of "sch_ids (sc_schedule c)"] assms by (auto simp: room_def)
  have fit: "Suc (unat (sc_ids c)) + n < 2 ^ 64" "Suc (unat (sch_ids (sc_schedule c))) + n < 2 ^ 64"
    using assms by (simp_all add: room_def)
  show ?thesis
  proof (cases e)
    case (NetConnect sid tmpl)
    obtain r w where "transport_connect c tmpl = (r, c\<lparr>sc_world := w\<rparr>)"
      using transport_connect_keeps by (metis surj_pair)
    then show ?thesis using NetConnect less i fit
      by (cases r) (auto simp: sc_connect_def ec_insert_pipe_def room_def)
  next
    case (NetBind sid tmpl)
    obtain r w where "transport_bind c tmpl = (r, c\<lparr>sc_world := w\<rparr>)"
      using transport_bind_keeps by (metis surj_pair)
    then show ?thesis using NetBind less i fit
      by (cases r) (auto simp: sc_bind_def ec_insert_acceptor_def room_def)
  next
    case (NetReconnect sid eid tmpl)
    then show ?thesis using less
      by (auto simp: sc_reconnect_def room_def split: prod.split sum.split dest!: transport_connect_keeps)
  next
    case (NetRebind sid eid tmpl)
    then show ?thesis using less
      by (auto simp: sc_rebind_def room_def split: prod.split sum.split dest!: transport_bind_keeps)
  next
    case (Scheduling task delay)
    then show ?thesis using less j fit
      by (auto simp: sc_schedule_task_def schedule_insert_def room_def split: prod.split)
  next
    case (Cancel scheduled)
    then show ?thesis using less by (auto simp: sc_cancel_def schedule_remove_def room_def split: option.split)
  qed (use less in \<open>simp_all add: signal_defs send_signal_def room_def\<close>)
qed

lemma perform_all_room: "room (length es) c \<Longrightarrow> \<exists>c'. perform_all tm es c = Some c'"
proof (induction es arbitrary: c)
  case (Cons e es)
  then obtain c1 where "perform tm e c = Some c1" "room (length es) c1"
    using perform_room [of "length es" c tm e] by auto
  with Cons.IH show ?case by auto
qed simp

text \<open>The answer to \<open>connect\<close> and \<open>bind\<close>, the first call of a command.\<close>

lemma connect_answer_fresh:
  assumes "context_ok c" and "fst (net_connect (adapter_ctx tm ord c) sid tmpl) = Inr eid"
  shows "eid = sc_ids c"
  using assms connect_sound [OF assms(1)]
  by (auto simp: net_connect_def adapter_ctx_def adapter_env_def emit_def endpoint_answer_def Let_def panicked_def split: option.splits)

lemma bind_answer_fresh:
  assumes "context_ok c" and "fst (net_bind (adapter_ctx tm ord c) sid tmpl) = Inr eid"
  shows "eid = sc_ids c"
  using assms bind_sound [OF assms(1)]
  by (auto simp: net_bind_def adapter_ctx_def adapter_env_def emit_def endpoint_answer_def Let_def panicked_def split: option.splits)

end
