(* ===== verification/Protocol_Dyn.thy ===== *)
theory Protocol_Dyn
  imports Sockets
begin

text \<open>
  A socket holds its protocol as a \<open>Box<dyn Protocol>\<close>: a value of one of the ten types of
  \<open>src/proto\<close> together with its table of methods. \<open>dyn_protocol\<close> is that value, \<open>dyn_table\<close> the
  table that belongs to it and \<open>dyn_ops\<close> the calls through the table. The contracts of the ten
  protocols give the contract of the trait object, so that a session may hold sockets of
  different protocols.
\<close>

section \<open>Tables of methods\<close>

text \<open>The methods of a type \<open>'q\<close>, seen on the values \<open>box q\<close> of a wider type.\<close>

definition lift_ops :: "('q \<Rightarrow> 'p) \<Rightarrow> ('p \<Rightarrow> 'q) \<Rightarrow> 'q protocol_ops \<Rightarrow> 'p protocol_ops" where
  "lift_ops box unbox ops = \<lparr>
     op_id = \<lambda>p. op_id ops (unbox p),
     op_peer_id = \<lambda>p. op_peer_id ops (unbox p),
     op_add_pipe = \<lambda>p ctx eid pipe. map_option (map_prod box id) (op_add_pipe ops (unbox p) ctx eid pipe),
     op_remove_pipe = \<lambda>p ctx eid. map_option (map_prod id (map_prod box id)) (op_remove_pipe ops (unbox p) ctx eid),
     op_send = \<lambda>p ctx msg t. map_option (map_prod box id) (op_send ops (unbox p) ctx msg t),
     op_on_send_ack = \<lambda>p ctx eid. map_option (map_prod box id) (op_on_send_ack ops (unbox p) ctx eid),
     op_on_send_timeout = \<lambda>p ctx. map_option (map_prod box id) (op_on_send_timeout ops (unbox p) ctx),
     op_on_send_ready = \<lambda>p ctx eid. map_option (map_prod box id) (op_on_send_ready ops (unbox p) ctx eid),
     op_on_send_not_ready = \<lambda>p ctx eid. map_option (map_prod box id) (op_on_send_not_ready ops (unbox p) ctx eid),
     op_recv = \<lambda>p ctx t. map_option (map_prod box id) (op_recv ops (unbox p) ctx t),
     op_on_recv_ack = \<lambda>p ctx eid msg. map_option (map_prod box id) (op_on_recv_ack ops (unbox p) ctx eid msg),
     op_on_recv_timeout = \<lambda>p ctx. map_option (map_prod box id) (op_on_recv_timeout ops (unbox p) ctx),
     op_on_recv_ready = \<lambda>p ctx eid. map_option (map_prod box id) (op_on_recv_ready ops (unbox p) ctx eid),
     op_on_recv_not_ready = \<lambda>p ctx eid. map_option (map_prod box id) (op_on_recv_not_ready ops (unbox p) ctx eid),
     op_is_send_ready = \<lambda>p. op_is_send_ready ops (unbox p),
     op_is_recv_ready = \<lambda>p. op_is_recv_ready ops (unbox p),
     op_set_option = \<lambda>p opt. map_prod id box (op_set_option ops (unbox p) opt),
     op_on_timer_tick = \<lambda>p ctx task. map_option (map_prod box id) (op_on_timer_tick ops (unbox p) ctx task),
     op_on_device_plugged = \<lambda>p ctx. map_option (map_prod box id) (op_on_device_plugged ops (unbox p) ctx),
     op_close = \<lambda>p ctx. map_prod box id (op_close ops (unbox p) ctx)\<rparr>"

text \<open>A call through the table of the receiver.\<close>

definition dispatch_ops :: "('p \<Rightarrow> 'p protocol_ops) \<Rightarrow> 'p protocol_ops" where
  "dispatch_ops table = \<lparr>
     op_id = \<lambda>p. op_id (table p) p,
     op_peer_id = \<lambda>p. op_peer_id (table p) p,
     op_add_pipe = \<lambda>p. op_add_pipe (table p) p,
     op_remove_pipe = \<lambda>p. op_remove_pipe (table p) p,
     op_send = \<lambda>p. op_send (table p) p,
     op_on_send_ack = \<lambda>p. op_on_send_ack (table p) p,
     op_on_send_timeout = \<lambda>p. op_on_send_timeout (table p) p,
     op_on_send_ready = \<lambda>p. op_on_send_ready (table p) p,
     op_on_send_not_ready = \<lambda>p. op_on_send_not_ready (table p) p,
     op_recv = \<lambda>p. op_recv (table p) p,
     op_on_recv_ack = \<lambda>p. op_on_recv_ack (table p) p,
     op_on_recv_timeout = \<lambda>p. op_on_recv_timeout (table p) p,
     op_on_recv_ready = \<lambda>p. op_on_recv_ready (table p) p,
     op_on_recv_not_ready = \<lambda>p. op_on_recv_not_ready (table p) p,
     op_is_send_ready = \<lambda>p. op_is_send_ready (table p) p,
     op_is_recv_ready = \<lambda>p. op_is_recv_ready (table p) p,
     op_set_option = \<lambda>p. op_set_option (table p) p,
     op_on_timer_tick = \<lambda>p. op_on_timer_tick (table p) p,
     op_on_device_plugged = \<lambda>p. op_on_device_plugged (table p) p,
     op_close = \<lambda>p. op_close (table p) p\<rparr>"

lemma dispatch_step: "proto_step (dispatch_ops table) cmd p ctx = proto_step (table p) cmd p ctx"
  by (cases cmd) (simp_all add: dispatch_ops_def)

lemma dispatch_simps [simp]:
  "op_remove_pipe (dispatch_ops table) p = op_remove_pipe (table p) p"
  "op_close (dispatch_ops table) p = op_close (table p) p"
  "op_is_send_ready (dispatch_ops table) p = op_is_send_ready (table p) p"
  "op_is_recv_ready (dispatch_ops table) p = op_is_recv_ready (table p) p"
  by (simp_all add: dispatch_ops_def)

lemma lift_step:
  assumes "unbox (box q) = q"
  shows "proto_step (lift_ops box unbox ops) cmd (box q) ctx = map_option (map_prod box id) (proto_step ops cmd q ctx)"
proof (cases cmd)
  case (RemovePipe eid)
  then show ?thesis using assms by (cases "op_remove_pipe ops q ctx eid") (auto simp: lift_ops_def)
qed (use assms in \<open>simp_all add: lift_ops_def\<close>)

lemma lift_simps [simp]:
  "op_remove_pipe (lift_ops box unbox ops) p ctx eid = map_option (map_prod id (map_prod box id)) (op_remove_pipe ops (unbox p) ctx eid)"
  "op_close (lift_ops box unbox ops) p ctx = map_prod box id (op_close ops (unbox p) ctx)"
  "op_is_send_ready (lift_ops box unbox ops) p = op_is_send_ready ops (unbox p)"
  "op_is_recv_ready (lift_ops box unbox ops) p = op_is_recv_ready ops (unbox p)"
  by (simp_all add: lift_ops_def)

section \<open>One variant\<close>

text \<open>
  \<open>variant\<close>: a protocol that satisfies its contract is one of the types behind a trait object,
  whose invariant, pipes and conditions are those of the variant.
\<close>

locale variant = answering_protocol ops good pipes admits sending receiving clean
  for ops :: "'q protocol_ops"
    and good :: "'q \<Rightarrow> bool"
    and pipes :: "'q \<Rightarrow> pipe_collection"
    and admits :: "'q \<Rightarrow> proto_cmd \<Rightarrow> bool"
    and sending :: "'q \<Rightarrow> bool"
    and receiving :: "'q \<Rightarrow> bool"
    and clean :: "'q \<Rightarrow> proto_cmd \<Rightarrow> bool" +
  fixes box :: "'q \<Rightarrow> 'p"
    and unbox :: "'p \<Rightarrow> 'q"
    and table :: "'p \<Rightarrow> 'p protocol_ops"
    and any_good :: "'p \<Rightarrow> bool"
    and any_pipes :: "'p \<Rightarrow> pipe_collection"
    and any_admits :: "'p \<Rightarrow> proto_cmd \<Rightarrow> bool"
    and any_sending :: "'p \<Rightarrow> bool"
    and any_receiving :: "'p \<Rightarrow> bool"
    and any_clean :: "'p \<Rightarrow> proto_cmd \<Rightarrow> bool"
  assumes unbox_box: "unbox (box q) = q"
    and table_box: "table (box q) = lift_ops box unbox ops"
    and any_box: "any_good (box q) = good q" "any_pipes (box q) = pipes q" "any_admits (box q) = admits q"
      "any_sending (box q) = sending q" "any_receiving (box q) = receiving q" "any_clean (box q) = clean q"
begin

lemmas box_simps = unbox_box table_box any_box

lemma legal_box: "legal any_pipes any_admits (box q) cmd = legal pipes admits q cmd"
  by (cases cmd) (simp_all add: box_simps)

lemma in_turn_box: "in_turn any_sending any_receiving (box q) cmd = in_turn sending receiving q cmd"
  by (cases cmd) (simp_all add: box_simps)

lemma step_box: "proto_step (dispatch_ops table) cmd (box q) ctx = map_option (map_prod box id) (proto_step ops cmd q ctx)"
  by (simp add: dispatch_step box_simps lift_step)

lemma step_ok_box:
  "step_ok (dispatch_ops table) any_good any_pipes cmd (box q) ctx (box q') ctx' = step_ok ops good pipes cmd q ctx q' ctx'"
  by (simp add: step_ok_def tracked_def box_simps)

lemma any_step:
  assumes "any_good (box q)" and "legal any_pipes any_admits (box q) cmd" and "enumerates (hash_order (env ctx))"
  shows "runs (proto_step (dispatch_ops table) cmd (box q) ctx)
    (\<lambda>(p', ctx'). step_ok (dispatch_ops table) any_good any_pipes cmd (box q) ctx p' ctx')"
  using step_law [of q cmd ctx] assms
  by (auto simp: step_box legal_box step_ok_box box_simps elim!: runsE)

lemma any_remove:
  assumes "any_good (box q)" and "any_admits (box q) (RemovePipe eid)" and "enumerates (hash_order (env ctx))"
  shows "runs (op_remove_pipe (dispatch_ops table) (box q) ctx eid) (\<lambda>(r, _). r = any_pipes (box q) eid)"
  using remove_law [of q eid ctx] assms by (auto simp: box_simps elim!: runsE)

lemma any_close:
  assumes "any_good (box q)" and "enumerates (hash_order (env ctx))"
  shows "\<exists>p' es. op_close (dispatch_ops table) (box q) ctx = (p', ctx\<lparr>trace := trace ctx @ map (\<lambda>eid. NetClose eid True) es\<rparr>) \<and>
    set es = dom (any_pipes (box q)) \<and> distinct es \<and> any_pipes p' = Map.empty"
proof -
  obtain q' es where "op_close ops q ctx = (q', ctx\<lparr>trace := trace ctx @ map (\<lambda>eid. NetClose eid True) es\<rparr>)"
    "set es = dom (pipes q)" "distinct es" "pipes q' = Map.empty"
    using close_law [of q ctx] assms by (auto simp: box_simps)
  then show ?thesis by (intro exI [of _ "box q'"] exI [of _ es]) (simp add: box_simps)
qed

lemma any_answer:
  assumes "any_good (box q)" and "legal any_pipes any_admits (box q) cmd" and "enumerates (hash_order (env ctx))"
    and "in_turn any_sending any_receiving (box q) cmd" and "any_clean (box q) cmd"
  shows "runs (proto_step (dispatch_ops table) cmd (box q) ctx) (\<lambda>(p', ctx').
    count_replies (trace ctx') + outstanding any_sending any_receiving p' =
    count_replies (trace ctx) + outstanding any_sending any_receiving (box q) + of_bool (is_request cmd))"
  using answer_law [of q cmd ctx] assms
  by (auto simp: step_box legal_box in_turn_box outstanding_def box_simps elim!: runsE)

lemmas any_laws = any_step any_remove any_close any_answer

end

section \<open>The ten protocols\<close>

datatype dyn_protocol =
    DynPush (un_push: push)
  | DynPull (un_pull: pull)
  | DynPub (un_pub: pub)
  | DynSub (un_sub: sub)
  | DynBus (un_bus: bus)
  | DynPair (un_pair: pair)
  | DynRep (un_rep: rep)
  | DynReq (un_req: req)
  | DynResp (un_resp: resp)
  | DynSurv (un_surv: surv)

fun dyn_table :: "byteorder \<Rightarrow> dyn_protocol \<Rightarrow> dyn_protocol protocol_ops" where
  "dyn_table bo (DynPush _) = lift_ops DynPush un_push push_ops"
| "dyn_table bo (DynPull _) = lift_ops DynPull un_pull pull_ops"
| "dyn_table bo (DynPub _) = lift_ops DynPub un_pub pub_ops"
| "dyn_table bo (DynSub _) = lift_ops DynSub un_sub sub_ops"
| "dyn_table bo (DynBus _) = lift_ops DynBus un_bus (bus_ops bo)"
| "dyn_table bo (DynPair _) = lift_ops DynPair un_pair pair_ops"
| "dyn_table bo (DynRep _) = lift_ops DynRep un_rep (rep_ops bo)"
| "dyn_table bo (DynReq _) = lift_ops DynReq un_req (req_ops bo)"
| "dyn_table bo (DynResp _) = lift_ops DynResp un_resp (resp_ops bo)"
| "dyn_table bo (DynSurv _) = lift_ops DynSurv un_surv (surv_ops bo)"

definition dyn_ops :: "byteorder \<Rightarrow> dyn_protocol protocol_ops" where
  "dyn_ops bo = dispatch_ops (dyn_table bo)"

fun dyn_good :: "dyn_protocol \<Rightarrow> bool" where
  "dyn_good (DynPush p) = push_good p" | "dyn_good (DynPull p) = pull_good p" | "dyn_good (DynPub p) = pub_good p"
| "dyn_good (DynSub p) = sub_good p" | "dyn_good (DynBus p) = bus_good p" | "dyn_good (DynPair p) = pair_good p"
| "dyn_good (DynRep p) = rep_good p" | "dyn_good (DynReq p) = req_good p" | "dyn_good (DynResp p) = resp_good p"
| "dyn_good (DynSurv p) = surv_good p"

fun dyn_pipes :: "dyn_protocol \<Rightarrow> pipe_collection" where
  "dyn_pipes (DynPush p) = push_pipes_of p" | "dyn_pipes (DynPull p) = pull_pipes_of p" | "dyn_pipes (DynPub p) = pub_pipes p"
| "dyn_pipes (DynSub p) = sub_pipes_of p" | "dyn_pipes (DynBus p) = bus_pipes_of p" | "dyn_pipes (DynPair p) = pair_pipes_of p"
| "dyn_pipes (DynRep p) = rep_pipes_of p" | "dyn_pipes (DynReq p) = req_pipes_of p" | "dyn_pipes (DynResp p) = resp_pipes_of p"
| "dyn_pipes (DynSurv p) = surv_pipes_of p"

fun dyn_admits :: "dyn_protocol \<Rightarrow> proto_cmd \<Rightarrow> bool" where
  "dyn_admits (DynPush p) = push_admits p" | "dyn_admits (DynPull p) = pull_admits p" | "dyn_admits (DynPub p) = (\<lambda>_. True)"
| "dyn_admits (DynSub p) = sub_admits p" | "dyn_admits (DynBus p) = bus_admits p" | "dyn_admits (DynPair p) = (\<lambda>_. True)"
| "dyn_admits (DynRep p) = rep_admits p" | "dyn_admits (DynReq p) = req_admits p" | "dyn_admits (DynResp p) = resp_admits p"
| "dyn_admits (DynSurv p) = surv_admits p"

fun dyn_sending :: "dyn_protocol \<Rightarrow> bool" where
  "dyn_sending (DynPush p) = push_sending p" | "dyn_sending (DynPair p) = pair_sending p" | "dyn_sending (DynRep p) = rep_sending p"
| "dyn_sending (DynReq p) = req_sending p" | "dyn_sending (DynResp p) = resp_sending p" | "dyn_sending _ = False"

fun dyn_receiving :: "dyn_protocol \<Rightarrow> bool" where
  "dyn_receiving (DynPush p) = False" | "dyn_receiving (DynPull p) = pull_receiving p" | "dyn_receiving (DynPub p) = False"
| "dyn_receiving (DynSub p) = sub_receiving p" | "dyn_receiving (DynBus p) = bus_receiving p" | "dyn_receiving (DynPair p) = pair_receiving p"
| "dyn_receiving (DynRep p) = rep_receiving p" | "dyn_receiving (DynReq p) = req_receiving p" | "dyn_receiving (DynResp p) = resp_receiving p"
| "dyn_receiving (DynSurv p) = surv_receiving p"

fun dyn_clean :: "byteorder \<Rightarrow> dyn_protocol \<Rightarrow> proto_cmd \<Rightarrow> bool" where
  "dyn_clean bo (DynRep p) = rep_clean bo p" | "dyn_clean bo (DynReq p) = req_clean bo p" | "dyn_clean bo (DynResp p) = resp_clean bo p"
| "dyn_clean bo (DynSurv p) = surv_clean bo p" | "dyn_clean bo _ = (\<lambda>_. True)"

interpretation push_v: variant push_ops push_good push_pipes_of push_admits push_sending "\<lambda>_. False" "\<lambda>_ _. True"
  DynPush un_push "dyn_table bo" dyn_good dyn_pipes dyn_admits dyn_sending dyn_receiving "dyn_clean bo" for bo
  by unfold_locales simp_all

interpretation pull_v: variant pull_ops pull_good pull_pipes_of pull_admits "\<lambda>_. False" pull_receiving "\<lambda>_ _. True"
  DynPull un_pull "dyn_table bo" dyn_good dyn_pipes dyn_admits dyn_sending dyn_receiving "dyn_clean bo" for bo
  by unfold_locales simp_all

interpretation pub_v: variant pub_ops pub_good pub_pipes "\<lambda>_ _. True" "\<lambda>_. False" "\<lambda>_. False" "\<lambda>_ _. True"
  DynPub un_pub "dyn_table bo" dyn_good dyn_pipes dyn_admits dyn_sending dyn_receiving "dyn_clean bo" for bo
  by unfold_locales simp_all

interpretation sub_v: variant sub_ops sub_good sub_pipes_of sub_admits "\<lambda>_. False" sub_receiving "\<lambda>_ _. True"
  DynSub un_sub "dyn_table bo" dyn_good dyn_pipes dyn_admits dyn_sending dyn_receiving "dyn_clean bo" for bo
  by unfold_locales simp_all

interpretation bus_v: variant "bus_ops bo" bus_good bus_pipes_of bus_admits "\<lambda>_. False" bus_receiving "\<lambda>_ _. True"
  DynBus un_bus "dyn_table bo" dyn_good dyn_pipes dyn_admits dyn_sending dyn_receiving "dyn_clean bo" for bo
  by unfold_locales simp_all

interpretation pair_v: variant pair_ops pair_good pair_pipes_of "\<lambda>_ _. True" pair_sending pair_receiving "\<lambda>_ _. True"
  DynPair un_pair "dyn_table bo" dyn_good dyn_pipes dyn_admits dyn_sending dyn_receiving "dyn_clean bo" for bo
  by unfold_locales simp_all

interpretation rep_v: variant "rep_ops bo" rep_good rep_pipes_of rep_admits rep_sending rep_receiving "rep_clean bo"
  DynRep un_rep "dyn_table bo" dyn_good dyn_pipes dyn_admits dyn_sending dyn_receiving "dyn_clean bo" for bo
  by unfold_locales simp_all

interpretation req_v: variant "req_ops bo" req_good req_pipes_of req_admits req_sending req_receiving "req_clean bo"
  DynReq un_req "dyn_table bo" dyn_good dyn_pipes dyn_admits dyn_sending dyn_receiving "dyn_clean bo" for bo
  by unfold_locales simp_all

interpretation resp_v: variant "resp_ops bo" resp_good resp_pipes_of resp_admits resp_sending resp_receiving "resp_clean bo"
  DynResp un_resp "dyn_table bo" dyn_good dyn_pipes dyn_admits dyn_sending dyn_receiving "dyn_clean bo" for bo
  by unfold_locales simp_all

interpretation surv_v: variant "surv_ops bo" surv_good surv_pipes_of surv_admits "\<lambda>_. False" surv_receiving "surv_clean bo"
  DynSurv un_surv "dyn_table bo" dyn_good dyn_pipes dyn_admits dyn_sending dyn_receiving "dyn_clean bo" for bo
  by unfold_locales simp_all

lemmas dyn_laws = push_v.any_laws pull_v.any_laws pub_v.any_laws sub_v.any_laws bus_v.any_laws pair_v.any_laws
  rep_v.any_laws req_v.any_laws resp_v.any_laws surv_v.any_laws

lemmas dyn_good_pipes = push_p.good_pipes pull_p.good_pipes pub_p.good_pipes sub_p.good_pipes bus_p.good_pipes
  pair_p.good_pipes rep_p.good_pipes req_p.good_pipes resp_p.good_pipes surv_p.good_pipes

interpretation dyn_p: answering_protocol "dyn_ops bo" dyn_good dyn_pipes dyn_admits dyn_sending dyn_receiving "dyn_clean bo" for bo
proof
  fix p cmd ctx eid
  show "runs (proto_step (dyn_ops bo) cmd p ctx) (\<lambda>(p', ctx'). step_ok (dyn_ops bo) dyn_good dyn_pipes cmd p ctx p' ctx')"
    if "dyn_good p" "legal dyn_pipes dyn_admits p cmd" "enumerates (hash_order (env ctx))"
    using that unfolding dyn_ops_def by (cases p; hypsubst) (rule dyn_laws; assumption)+
  show "runs (op_remove_pipe (dyn_ops bo) p ctx eid) (\<lambda>(r, _). r = dyn_pipes p eid)"
    if "dyn_good p" "dyn_admits p (RemovePipe eid)" "enumerates (hash_order (env ctx))"
    using that unfolding dyn_ops_def by (cases p; hypsubst) (rule dyn_laws; assumption)+
  show "\<exists>p' es. op_close (dyn_ops bo) p ctx = (p', ctx\<lparr>trace := trace ctx @ map (\<lambda>eid. NetClose eid True) es\<rparr>) \<and>
      set es = dom (dyn_pipes p) \<and> distinct es \<and> dyn_pipes p' = Map.empty"
    if "dyn_good p" "enumerates (hash_order (env ctx))"
    using that unfolding dyn_ops_def by (cases p; hypsubst) (rule dyn_laws; assumption)+
  show "runs (proto_step (dyn_ops bo) cmd p ctx) (\<lambda>(p', ctx').
      count_replies (trace ctx') + outstanding dyn_sending dyn_receiving p' =
      count_replies (trace ctx) + outstanding dyn_sending dyn_receiving p + of_bool (is_request cmd))"
    if "dyn_good p" "legal dyn_pipes dyn_admits p cmd" "enumerates (hash_order (env ctx))"
      "in_turn dyn_sending dyn_receiving p cmd" "dyn_clean bo p cmd"
    using that unfolding dyn_ops_def by (cases p; hypsubst) (rule dyn_laws; assumption)+
  show "pipes_ok (dyn_pipes p)" if "dyn_good p"
    using that by (cases p) (auto intro: dyn_good_pipes)
qed

section \<open>Sockets of any protocol\<close>

fun dyn_initial :: "dyn_protocol \<Rightarrow> bool" where
  "dyn_initial (DynPush p) \<longleftrightarrow> p = push_from" | "dyn_initial (DynPull p) \<longleftrightarrow> p = pull_from"
| "dyn_initial (DynPub p) \<longleftrightarrow> p = pub_from" | "dyn_initial (DynSub p) \<longleftrightarrow> p = sub_from"
| "dyn_initial (DynBus p) \<longleftrightarrow> p = bus_from" | "dyn_initial (DynPair p) \<longleftrightarrow> p = pair_from"
| "dyn_initial (DynRep p) \<longleftrightarrow> p = rep_from" | "dyn_initial (DynReq p) \<longleftrightarrow> (\<exists>nsec. p = req_from nsec)"
| "dyn_initial (DynResp p) \<longleftrightarrow> p = resp_from" | "dyn_initial (DynSurv p) \<longleftrightarrow> (\<exists>nsec. p = surv_from nsec)"

lemma socket_start_iff:
  "socket_contract ops good pipes sending receiving [] (socket_new sid p, \<lparr>trace = [], env = e\<rparr>) \<longleftrightarrow>
     good p \<and> pipes p = Map.empty \<and> \<not> op_is_send_ready ops p \<and> \<not> op_is_recv_ready ops p \<and> \<not> sending p \<and> \<not> receiving p"
  by (auto simp: socket_contract_def socket_ok_def accounts_def tracked_def outstanding_def socket_new_def config_default_def
      pipes_ok_def dom_eq_empty_conv)

lemmas socket_starts = push_socket_start pull_socket_start pub_socket_start sub_socket_start bus_socket_start
  pair_socket_start rep_socket_start req_socket_start resp_socket_start surv_socket_start

lemma dyn_ready:
  "op_is_send_ready (dyn_ops bo) p = op_is_send_ready (dyn_table bo p) p"
  "op_is_recv_ready (dyn_ops bo) p = op_is_recv_ready (dyn_table bo p) p"
  by (simp_all add: dyn_ops_def dispatch_ops_def)

lemma dyn_socket_start:
  assumes "dyn_initial p"
  shows "socket_contract (dyn_ops bo) dyn_good dyn_pipes dyn_sending dyn_receiving [] (socket_new sid p, \<lparr>trace = [], env = e\<rparr>)"
  using assms socket_starts [unfolded socket_start_iff]
  by (cases p) (auto simp: socket_start_iff dyn_ready lift_ops_def)

text \<open>
  (C1) The contract of a socket, for all ten protocols at once and through the table of methods of its
  protocol: from its creation on, whatever disciplined sequence of user requests, pipe events
  and timers arrives, a socket never panics; its invariant and the one of its protocol hold;
  every pipe and acceptor it opened and did not close is one it still holds; a listener knows
  its readiness; and every request was answered exactly once but for the one outstanding.
\<close>

theorem any_socket_contract:
  assumes "dyn_initial p" and "enumerates (hash_order e)"
    and "socket_cmds_ok (dyn_ops bo) (socket_disciplined (dyn_ops bo) dyn_pipes dyn_admits dyn_sending dyn_receiving (dyn_clean bo))
      cmds (socket_new sid p) \<lparr>trace = [], env = e\<rparr>"
  shows "runs (socket_run (dyn_ops bo) cmds (socket_new sid p) \<lparr>trace = [], env = e\<rparr>)
    (socket_contract (dyn_ops bo) dyn_good dyn_pipes dyn_sending dyn_receiving cmds)"
  using dyn_p.socket_run_contract [OF dyn_socket_start [OF assms(1)] _ assms(3)] assms(2) by simp

theorem any_socket_contract_witness:
  "runs (socket_run (dyn_ops be_instance) [SPoll, SConnect ''tcp://peer'', SPipeOpened 7, SSendReady 7 True, SSend (from_body [1, 2]), SSendAck 7, SPipeError 7]
      (socket_new 1 (DynPush push_from)) \<lparr>trace = [], env = demo_env\<rparr>)
    (socket_contract (dyn_ops be_instance) dyn_good dyn_pipes dyn_sending dyn_receiving
      [SPoll, SConnect ''tcp://peer'', SPipeOpened 7, SSendReady 7 True, SSend (from_body [1, 2]), SSendAck 7, SPipeError 7])"
  by (rule any_socket_contract)
     (simp_all add: socket_eval queue_eval push_eval dyn_ops_def dispatch_ops_def lift_ops_def)

end
