(* ===== verification/Reactor_Dispatcher.thy ===== *)
theory Reactor_Dispatcher
  imports Reactor_Adapter Protocol_Dyn
begin

text \<open>
  The event loop: \<open>src/reactor/dispatcher.rs\<close> and \<open>src/reactor/event_loop.rs\<close>. The dispatcher takes
  requests of the facade, signals of its own bus, ticks of the timer and readiness notifications,
  and calls the method of the socket, pipe, acceptor, device or probe concerned. What leaves the
  event loop (replies on the channels, registrations) is logged. \<open>None\<close> is a panic, or a loop that
  does not end.
\<close>

section \<open>Data\<close>

text \<open>The methods behind the trait objects, the timer wheel and the iteration order of hash maps.\<close>

record ('p, 'e, 'a, 'tm) platform =
  pf_protocol :: "'p protocol_ops"
  pf_pipe :: "'e pipe_ops"
  pf_acceptor :: "('e, 'a) acceptor_ops"
  pf_timer :: "'tm timer_ops"
  pf_hash :: "endpoint_id set \<Rightarrow> endpoint_id list"

record ('p, 'e, 'a, 'tm, 'w) dispatcher =
  dp_channel :: "'p request list"
  dp_bus :: "'e signal event_loop_bus"
  dp_timer :: 'tm
  dp_session :: "'p session"
  dp_endpoints :: "('e, 'a, 'w) endpoint_collection"
  dp_schedule :: schedule_table
  dp_running :: bool
  dp_registrations :: "registration list"
  dp_replies :: "(socket_id \<times> reply) list"
  dp_world :: 'w

text \<open>The session and the endpoint collection share one sequence, the schedule has its own.\<close>

definition dispatcher_new :: "(string \<rightharpoonup> ('e, 'a, 'w) transport) \<Rightarrow> 'tm \<Rightarrow> 'w \<Rightarrow> ('p, 'e, 'a, 'tm, 'w) dispatcher" where
  "dispatcher_new transports clock w = \<lparr>dp_channel = [], dp_bus = evbus_new, dp_timer = clock,
     dp_session = session_new sequence_new, dp_endpoints = endpoint_collection_new transports,
     dp_schedule = schedule_new sequence_new, dp_running = False, dp_registrations = [], dp_replies = [], dp_world = w\<rparr>"

section \<open>Lending the event loop\<close>

definition socket_context_new :: "('p, 'e, 'a, 'tm, 'w) dispatcher \<Rightarrow> socket_id \<Rightarrow> ('e, 'a, 'tm, 'w) socket_context" where
  "socket_context_new d sid = \<lparr>sc_socket_id = sid, sc_bus = dp_bus d, sc_ids = ses_ids (dp_session d),
     sc_endpoints = dp_endpoints d, sc_schedule = dp_schedule d, sc_timer = dp_timer d, sc_world = dp_world d,
     sc_replies = []\<rparr>"

definition give_back ::
  "('p, 'e, 'a, 'tm, 'w) dispatcher \<Rightarrow> socket_id \<Rightarrow> 'p socket \<Rightarrow> ('e, 'a, 'tm, 'w) socket_context \<Rightarrow> ('p, 'e, 'a, 'tm, 'w) dispatcher" where
  "give_back d sid s c = d\<lparr>
     dp_bus := sc_bus c, dp_timer := sc_timer c, dp_endpoints := sc_endpoints c, dp_schedule := sc_schedule c,
     dp_world := sc_world c, dp_replies := dp_replies d @ map (Pair sid) (sc_replies c),
     dp_session := (dp_session d)\<lparr>ses_ids := sc_ids c, ses_sockets := (ses_sockets (dp_session d))(sid \<mapsto> s)\<rparr>\<rparr>"

definition apply_on_socket ::
  "('p, 'e, 'a, 'tm) platform \<Rightarrow> ('p, 'e, 'a, 'tm, 'w) dispatcher \<Rightarrow> socket_id \<Rightarrow>
   ('p socket \<Rightarrow> ctx \<Rightarrow> ('p socket \<times> ctx) option) \<Rightarrow> ('p, 'e, 'a, 'tm, 'w) dispatcher option" where
  "apply_on_socket pf d sid f =
     (case get_socket (dp_session d) sid of
        None \<Rightarrow> Some d
      | Some s \<Rightarrow> do {
          let c = socket_context_new d sid;
          (s', ctx) \<leftarrow> f s (adapter_ctx (pf_timer pf) (pf_hash pf) c);
          c' \<leftarrow> perform_all (pf_timer pf) (trace ctx) c;
          Some (give_back d sid s' c') })"

text \<open>A device in the session, and the replies it sends on its channel.\<close>

definition put_device ::
  "('p, 'e, 'a, 'tm, 'w) dispatcher \<Rightarrow> device_id \<Rightarrow> device \<times> device_effect list \<Rightarrow> ('p, 'e, 'a, 'tm, 'w) dispatcher" where
  "put_device d did r = (case r of (dev, es) \<Rightarrow>
     d\<lparr>dp_bus := fold perform_device_effect es (dp_bus d),
       dp_session := (dp_session d)\<lparr>
         ses_devices := (ses_devices (dp_session d))\<lparr>dc_devices := (dc_devices (ses_devices (dp_session d)))(did \<mapsto> dev)\<rparr>,
         ses_log := ses_log (dp_session d) @ map (DeviceOut did) (filter (\<lambda>e. \<forall>sid. e \<noteq> DevicePoll sid) es)\<rparr>\<rparr>)"

definition apply_on_device ::
  "('p, 'e, 'a, 'tm, 'w) dispatcher \<Rightarrow> device_id \<Rightarrow> (device \<Rightarrow> device_effect list \<Rightarrow> device \<times> device_effect list) \<Rightarrow>
   ('p, 'e, 'a, 'tm, 'w) dispatcher" where
  "apply_on_device d did f =
     (case get_device (dp_session d) did of
        Some dev \<Rightarrow> put_device d did (f dev [])
      | None \<Rightarrow> d)"

definition apply_on_device_link ::
  "('p, 'e, 'a, 'tm, 'w) dispatcher \<Rightarrow> socket_id \<Rightarrow> (device \<Rightarrow> device_effect list \<Rightarrow> device \<times> device_effect list) \<Rightarrow>
   ('p, 'e, 'a, 'tm, 'w) dispatcher" where
  "apply_on_device_link d sid f =
     (case dc_mapping (ses_devices (dp_session d)) sid of
        Some did \<Rightarrow>
          (case find_device (dp_session d) sid of
             Some dev \<Rightarrow> put_device d did (f dev [])
           | None \<Rightarrow> d)
      | None \<Rightarrow> d)"

definition run_probe ::
  "('p, 'e, 'a, 'tm) platform \<Rightarrow> ('p, 'e, 'a, 'tm, 'w) dispatcher \<Rightarrow> probe_id \<Rightarrow> probe \<Rightarrow>
   (probe \<Rightarrow> probe_ctx \<Rightarrow> (probe \<times> probe_ctx) option) \<Rightarrow> ('p, 'e, 'a, 'tm, 'w) dispatcher option" where
  "run_probe pf d pid p f = do {
     let c = \<lparr>pc_probe_id = pid, pc_bus = dp_bus d, pc_schedule = dp_schedule d, pc_timer = dp_timer d\<rparr>;
     (p', ctx) \<leftarrow> f p (probe_adapter_ctx (pf_timer pf) c);
     c' \<leftarrow> perform_probe_effects (pf_timer pf) (probe_trace ctx) c;
     Some (d\<lparr>dp_bus := pc_bus c', dp_schedule := pc_schedule c', dp_timer := pc_timer c',
       dp_session := (dp_session d)\<lparr>
         ses_probes := (ses_probes (dp_session d))\<lparr>pc_probes := (pc_probes (ses_probes (dp_session d)))(pid \<mapsto> p')\<rparr>,
         ses_log := ses_log (dp_session d) @ map (ProbeOut pid) (filter (\<lambda>e. \<exists>r. e = ProbeReply r) (probe_trace ctx))\<rparr>\<rparr>) }"

definition apply_on_probe ::
  "('p, 'e, 'a, 'tm) platform \<Rightarrow> ('p, 'e, 'a, 'tm, 'w) dispatcher \<Rightarrow> probe_id \<Rightarrow>
   (probe \<Rightarrow> probe_ctx \<Rightarrow> (probe \<times> probe_ctx) option) \<Rightarrow> ('p, 'e, 'a, 'tm, 'w) dispatcher option" where
  "apply_on_probe pf d pid f =
     (case get_probe (dp_session d) pid of
        Some p \<Rightarrow> run_probe pf d pid p f
      | None \<Rightarrow> Some d)"

definition apply_on_probe_link ::
  "('p, 'e, 'a, 'tm) platform \<Rightarrow> ('p, 'e, 'a, 'tm, 'w) dispatcher \<Rightarrow> socket_id \<Rightarrow>
   (probe \<Rightarrow> probe_ctx \<Rightarrow> (probe \<times> probe_ctx) option) \<Rightarrow> ('p, 'e, 'a, 'tm, 'w) dispatcher option" where
  "apply_on_probe_link pf d sid f =
     (case find_probe (dp_session d) sid of
        Some (pid, p) \<Rightarrow> run_probe pf d pid p f
      | None \<Rightarrow> Some d)"

section \<open>Requests of the facade\<close>

abbreviation call :: "('p, 'e, 'a, 'tm) platform \<Rightarrow> socket_cmd \<Rightarrow> 'p socket \<Rightarrow> ctx \<Rightarrow> ('p socket \<times> ctx) option" where
  "call pf cmd \<equiv> socket_step (pf_protocol pf) cmd"

fun process_session_request ::
  "('p, 'e, 'a, 'tm) platform \<Rightarrow> ('p, 'e, 'a, 'tm, 'w) dispatcher \<Rightarrow> 'p session_request \<Rightarrow> ('p, 'e, 'a, 'tm, 'w) dispatcher option" where
  "process_session_request pf d (CreateSocket ctor) = do { ses \<leftarrow> add_socket (dp_session d) ctor; Some (d\<lparr>dp_session := ses\<rparr>) }"
| "process_session_request pf d (CreateDevice l r) = do {
     d1 \<leftarrow> apply_on_socket pf d l (call pf SDevicePlugged);
     d2 \<leftarrow> apply_on_socket pf d1 r (call pf SDevicePlugged);
     ses \<leftarrow> add_device (dp_session d2) l r;
     Some (d2\<lparr>dp_session := ses\<rparr>) }"
| "process_session_request pf d (CreateProbe opts) = do { ses \<leftarrow> add_probe (dp_session d) opts; Some (d\<lparr>dp_session := ses\<rparr>) }"
| "process_session_request pf d SessionShutdown = Some (d\<lparr>dp_running := False\<rparr>)"

fun process_socket_request ::
  "('p, 'e, 'a, 'tm) platform \<Rightarrow> ('p, 'e, 'a, 'tm, 'w) dispatcher \<Rightarrow> socket_id \<Rightarrow> socket_request \<Rightarrow> ('p, 'e, 'a, 'tm, 'w) dispatcher option" where
  "process_socket_request pf d sid (RequestConnect url) = apply_on_socket pf d sid (call pf (SConnect url))"
| "process_socket_request pf d sid (RequestBind url) = apply_on_socket pf d sid (call pf (SBind url))"
| "process_socket_request pf d sid (RequestSend msg False) = apply_on_socket pf d sid (call pf (SSend msg))"
| "process_socket_request pf d sid (RequestSend msg True) = apply_on_socket pf d sid (call pf (STrySend msg))"
| "process_socket_request pf d sid (RequestRecv False) = apply_on_socket pf d sid (call pf SRecv)"
| "process_socket_request pf d sid (RequestRecv True) = apply_on_socket pf d sid (call pf STryRecv)"
| "process_socket_request pf d sid (RequestSetOption opt) = apply_on_socket pf d sid (call pf (SSetOption opt))"
| "process_socket_request pf d sid RequestClose =
     apply_on_socket pf d sid (\<lambda>s ctx. Some (socket_close (pf_protocol pf) s ctx))"

fun process_endpoint_request ::
  "('p, 'e, 'a, 'tm) platform \<Rightarrow> ('p, 'e, 'a, 'tm, 'w) dispatcher \<Rightarrow> socket_id \<Rightarrow> endpoint_id \<Rightarrow> endpoint_request \<Rightarrow>
   ('p, 'e, 'a, 'tm, 'w) dispatcher option" where
  "process_endpoint_request pf d sid eid (EndpointClose remote) =
     apply_on_socket pf d sid (call pf (if remote then SClosePipe eid else SCloseAcceptor eid))"

fun process_device_request :: "('p, 'e, 'a, 'tm, 'w) dispatcher \<Rightarrow> device_id \<Rightarrow> device_request \<Rightarrow> ('p, 'e, 'a, 'tm, 'w) dispatcher" where
  "process_device_request d did DeviceReqCheck = apply_on_device d did device_check"
| "process_device_request d did DeviceReqClose = d"

fun process_probe_request ::
  "('p, 'e, 'a, 'tm) platform \<Rightarrow> ('p, 'e, 'a, 'tm, 'w) dispatcher \<Rightarrow> probe_id \<Rightarrow> probe_request \<Rightarrow> ('p, 'e, 'a, 'tm, 'w) dispatcher option" where
  "process_probe_request pf d pid (ProbeReqPoll timeout) = apply_on_probe pf d pid (\<lambda>p ctx. probe_poll p ctx timeout)"
| "process_probe_request pf d pid ProbeReqClose = Some (d\<lparr>dp_session := remove_probe (dp_session d) pid\<rparr>)"

fun process_request ::
  "('p, 'e, 'a, 'tm) platform \<Rightarrow> 'p request \<Rightarrow> ('p, 'e, 'a, 'tm, 'w) dispatcher \<Rightarrow> ('p, 'e, 'a, 'tm, 'w) dispatcher option" where
  "process_request pf (SessionRequest req) d = process_session_request pf d req"
| "process_request pf (SocketRequest sid req) d = process_socket_request pf d sid req"
| "process_request pf (EndpointRequest sid eid req) d = process_endpoint_request pf d sid eid req"
| "process_request pf (DeviceRequest did req) d = Some (process_device_request d did req)"
| "process_request pf (ProbeRequest pid req) d = process_probe_request pf d pid req"

section \<open>Signals\<close>

definition process_pipe_cmd ::
  "('p, 'e, 'a, 'tm) platform \<Rightarrow> ('p, 'e, 'a, 'tm, 'w) dispatcher \<Rightarrow> endpoint_id \<Rightarrow> pipe_command \<Rightarrow> ('p, 'e, 'a, 'tm, 'w) dispatcher" where
  "process_pipe_cmd pf d eid cmd =
     (case ec_pipes (dp_endpoints d) eid of
        Some pc \<Rightarrow>
          (let (pc', regs, bus) = pipe_controller_process (pf_pipe pf) pc (dp_registrations d, dp_bus d) cmd
           in d\<lparr>dp_registrations := regs, dp_bus := bus,
                dp_endpoints := (dp_endpoints d)\<lparr>ec_pipes := (ec_pipes (dp_endpoints d))(eid \<mapsto> pc')\<rparr>\<rparr>)
      | None \<Rightarrow> d)"

definition process_acceptor_cmd ::
  "('p, 'e, 'a, 'tm) platform \<Rightarrow> ('p, 'e, 'a, 'tm, 'w) dispatcher \<Rightarrow> endpoint_id \<Rightarrow> acceptor_command \<Rightarrow> ('p, 'e, 'a, 'tm, 'w) dispatcher" where
  "process_acceptor_cmd pf d eid cmd =
     (case ec_acceptors (dp_endpoints d) eid of
        Some ac \<Rightarrow>
          (let (ac', regs, bus) = acceptor_controller_process (pf_acceptor pf) ac (dp_registrations d, dp_bus d) cmd
           in d\<lparr>dp_registrations := regs, dp_bus := bus,
                dp_endpoints := (dp_endpoints d)\<lparr>ec_acceptors := (ec_acceptors (dp_endpoints d))(eid \<mapsto> ac')\<rparr>\<rparr>)
      | None \<Rightarrow> d)"

definition process_socket_cmd ::
  "('p, 'e, 'a, 'tm) platform \<Rightarrow> ('p, 'e, 'a, 'tm, 'w) dispatcher \<Rightarrow> socket_id \<Rightarrow> context_command \<Rightarrow> ('p, 'e, 'a, 'tm, 'w) dispatcher option" where
  "process_socket_cmd pf d sid cmd = (case cmd of Poll \<Rightarrow> apply_on_socket pf d sid (call pf SPoll))"

fun process_pipe_evt ::
  "('p, 'e, 'a, 'tm) platform \<Rightarrow> ('p, 'e, 'a, 'tm, 'w) dispatcher \<Rightarrow> socket_id \<Rightarrow> endpoint_id \<Rightarrow> pipe_event \<Rightarrow>
   ('p, 'e, 'a, 'tm, 'w) dispatcher option" where
  "process_pipe_evt pf d sid eid PipeOpened = apply_on_socket pf d sid (call pf (SPipeOpened eid))"
| "process_pipe_evt pf d sid eid (PipeCanSend x) = apply_on_socket pf d sid (call pf (SSendReady eid x))"
| "process_pipe_evt pf d sid eid PipeSent = apply_on_socket pf d sid (call pf (SSendAck eid))"
| "process_pipe_evt pf d sid eid (PipeCanRecv x) = apply_on_socket pf d sid (call pf (SRecvReady eid x))"
| "process_pipe_evt pf d sid eid (PipeReceived msg) = apply_on_socket pf d sid (call pf (SRecvAck eid msg))"
| "process_pipe_evt pf d sid eid (PipeError _) = apply_on_socket pf d sid (call pf (SPipeError eid))"
| "process_pipe_evt pf d sid eid PipeClosed = Some (d\<lparr>dp_endpoints := ec_remove_pipe (dp_endpoints d) eid\<rparr>)"

text \<open>\<open>for pipe in pipes\<close> of \<open>Accepted\<close>.\<close>

fun accept_pipes ::
  "('p, 'e, 'a, 'tm) platform \<Rightarrow> socket_id \<Rightarrow> endpoint_id \<Rightarrow> 'e list \<Rightarrow> ('p, 'e, 'a, 'tm, 'w) dispatcher \<Rightarrow>
   ('p, 'e, 'a, 'tm, 'w) dispatcher option" where
  "accept_pipes pf sid aid [] d = Some d"
| "accept_pipes pf sid aid (pipe # ps) d = do {
     (eid, seq, eps) \<leftarrow> ec_insert_pipe (ses_ids (dp_session d)) (dp_endpoints d) sid pipe;
     d' \<leftarrow> apply_on_socket pf (d\<lparr>dp_session := (dp_session d)\<lparr>ses_ids := seq\<rparr>, dp_endpoints := eps\<rparr>) sid
       (call pf (SPipeAccepted aid eid));
     accept_pipes pf sid aid ps d' }"

fun process_acceptor_evt ::
  "('p, 'e, 'a, 'tm) platform \<Rightarrow> ('p, 'e, 'a, 'tm, 'w) dispatcher \<Rightarrow> socket_id \<Rightarrow> endpoint_id \<Rightarrow> 'e acceptor_event \<Rightarrow>
   ('p, 'e, 'a, 'tm, 'w) dispatcher option" where
  "process_acceptor_evt pf d sid aid (AcceptorError _) = apply_on_socket pf d sid (call pf (SAcceptorError aid))"
| "process_acceptor_evt pf d sid aid (Accepted ps) = accept_pipes pf sid aid ps d"
| "process_acceptor_evt pf d sid aid _ = Some d"

fun process_socket_evt ::
  "('p, 'e, 'a, 'tm) platform \<Rightarrow> ('p, 'e, 'a, 'tm, 'w) dispatcher \<Rightarrow> socket_id \<Rightarrow> event \<Rightarrow> ('p, 'e, 'a, 'tm, 'w) dispatcher option" where
  "process_socket_evt pf d sid (CanRecv x) =
     apply_on_probe_link pf (apply_on_device_link d sid (\<lambda>dev es. device_on_socket_can_recv dev es sid x)) sid
       (\<lambda>p ctx. probe_on_socket_can_recv p ctx sid x)"
| "process_socket_evt pf d sid (CanSend x) = apply_on_probe_link pf d sid (\<lambda>p ctx. probe_on_socket_can_send p ctx sid x)"
| "process_socket_evt pf d sid Closed = Some (d\<lparr>dp_session := remove_socket (dp_session d) sid\<rparr>)"

fun process_signal ::
  "('p, 'e, 'a, 'tm) platform \<Rightarrow> 'e signal \<Rightarrow> ('p, 'e, 'a, 'tm, 'w) dispatcher \<Rightarrow> ('p, 'e, 'a, 'tm, 'w) dispatcher option" where
  "process_signal pf (PipeCmd _ eid cmd) d = Some (process_pipe_cmd pf d eid cmd)"
| "process_signal pf (AcceptorCmd _ eid cmd) d = Some (process_acceptor_cmd pf d eid cmd)"
| "process_signal pf (SocketCmd sid cmd) d = process_socket_cmd pf d sid cmd"
| "process_signal pf (PipeEvt sid eid evt) d = process_pipe_evt pf d sid eid evt"
| "process_signal pf (AcceptorEvt sid eid evt) d = process_acceptor_evt pf d sid eid evt"
| "process_signal pf (SocketEvt sid evt) d = process_socket_evt pf d sid evt"

section \<open>Ticks of the timer and readiness\<close>

fun process_socket_task ::
  "('p, 'e, 'a, 'tm) platform \<Rightarrow> ('p, 'e, 'a, 'tm, 'w) dispatcher \<Rightarrow> socket_id \<Rightarrow> schedulable \<Rightarrow> ('p, 'e, 'a, 'tm, 'w) dispatcher option" where
  "process_socket_task pf d sid (Reconnect eid spec) = apply_on_socket pf d sid (call pf (SReconnect eid spec))"
| "process_socket_task pf d sid (Rebind eid spec) = apply_on_socket pf d sid (call pf (SRebind eid spec))"
| "process_socket_task pf d sid SendTimeout = apply_on_socket pf d sid (call pf SSendTimeout)"
| "process_socket_task pf d sid RecvTimeout = apply_on_socket pf d sid (call pf SRecvTimeout)"
| "process_socket_task pf d sid other = apply_on_socket pf d sid (call pf (STimerTick other))"

fun process_probe_task ::
  "('p, 'e, 'a, 'tm) platform \<Rightarrow> ('p, 'e, 'a, 'tm, 'w) dispatcher \<Rightarrow> probe_id \<Rightarrow> probe_schedulable \<Rightarrow> ('p, 'e, 'a, 'tm, 'w) dispatcher option" where
  "process_probe_task pf d pid PollTimeout = apply_on_probe pf d pid on_poll_timeout"

fun process_tick ::
  "('p, 'e, 'a, 'tm) platform \<Rightarrow> task \<Rightarrow> ('p, 'e, 'a, 'tm, 'w) dispatcher \<Rightarrow> ('p, 'e, 'a, 'tm, 'w) dispatcher option" where
  "process_tick pf (SocketTask sid task) d = process_socket_task pf d sid task"
| "process_tick pf (ProbeTask pid task) d = process_probe_task pf d pid task"

definition process_io ::
  "('p, 'e, 'a, 'tm) platform \<Rightarrow> usize \<Rightarrow> ready_set \<Rightarrow> ('p, 'e, 'a, 'tm, 'w) dispatcher \<Rightarrow> ('p, 'e, 'a, 'tm, 'w) dispatcher option" where
  "process_io pf token events d =
     (case ec_pipes (dp_endpoints d) token of
        Some pc \<Rightarrow>
          (let (pc', regs, bus) = pipe_controller_ready (pf_pipe pf) pc (dp_registrations d, dp_bus d) events
           in Some (d\<lparr>dp_registrations := regs, dp_bus := bus,
                dp_endpoints := (dp_endpoints d)\<lparr>ec_pipes := (ec_pipes (dp_endpoints d))(token \<mapsto> pc')\<rparr>\<rparr>))
      | None \<Rightarrow>
          (case ec_acceptors (dp_endpoints d) token of
             Some ac \<Rightarrow> do {
               (ac', regs, bus) \<leftarrow> acceptor_controller_ready (pf_acceptor pf) ac (dp_registrations d, dp_bus d) events;
               Some (d\<lparr>dp_registrations := regs, dp_bus := bus,
                dp_endpoints := (dp_endpoints d)\<lparr>ec_acceptors := (ec_acceptors (dp_endpoints d))(token \<mapsto> ac')\<rparr>\<rparr>) }
           | None \<Rightarrow> Some d))"

section \<open>The loops\<close>

text \<open>
  \<open>try_recv\<close> takes the requests that were sent so far, one after the other; the dispatcher sends
  none itself. The bus and the timer are drained until they are empty, and handling a signal may
  send more.
\<close>

fun process_requests ::
  "('p, 'e, 'a, 'tm) platform \<Rightarrow> 'p request list \<Rightarrow> ('p, 'e, 'a, 'tm, 'w) dispatcher \<Rightarrow> ('p, 'e, 'a, 'tm, 'w) dispatcher option" where
  "process_requests pf [] d = Some d"
| "process_requests pf (r # rs) d = do { d' \<leftarrow> process_request pf r (d\<lparr>dp_channel := rs\<rparr>); process_requests pf rs d' }"

definition process_channel ::
  "('p, 'e, 'a, 'tm) platform \<Rightarrow> ('p, 'e, 'a, 'tm, 'w) dispatcher \<Rightarrow> ('p, 'e, 'a, 'tm, 'w) dispatcher option" where
  "process_channel pf d = process_requests pf (dp_channel d) d"

partial_function (option) process_bus ::
  "('p, 'e, 'a, 'tm) platform \<Rightarrow> ('p, 'e, 'a, 'tm, 'w) dispatcher \<Rightarrow> ('p, 'e, 'a, 'tm, 'w) dispatcher option" where
  "process_bus pf d =
     (case evbus_recv (dp_bus d) of
        (Some sig, bus) \<Rightarrow> do { d' \<leftarrow> process_signal pf sig (d\<lparr>dp_bus := bus\<rparr>); process_bus pf d' }
      | (None, bus) \<Rightarrow> Some (d\<lparr>dp_bus := bus\<rparr>))"

partial_function (option) process_timer ::
  "('p, 'e, 'a, 'tm) platform \<Rightarrow> ('p, 'e, 'a, 'tm, 'w) dispatcher \<Rightarrow> ('p, 'e, 'a, 'tm, 'w) dispatcher option" where
  "process_timer pf d =
     (case tm_poll (pf_timer pf) (dp_timer d) of
        (Some task, timer) \<Rightarrow> do { d' \<leftarrow> process_tick pf task (d\<lparr>dp_timer := timer\<rparr>); process_timer pf d' }
      | (None, timer) \<Rightarrow> Some (d\<lparr>dp_timer := timer\<rparr>))"

text \<open>The tokens the dispatcher keeps for itself: \<open>usize::MAX - 1\<close> and so on.\<close>

definition CHANNEL_TOKEN :: usize where "CHANNEL_TOKEN = - 1 - 1"
definition BUS_TOKEN :: usize where "BUS_TOKEN = - 1 - 2"
definition TIMER_TOKEN :: usize where "TIMER_TOKEN = - 1 - 3"

definition dispatcher_handle ::
  "('p, 'e, 'a, 'tm) platform \<Rightarrow> usize \<times> ready_set \<Rightarrow> ('p, 'e, 'a, 'tm, 'w) dispatcher \<Rightarrow> ('p, 'e, 'a, 'tm, 'w) dispatcher option" where
  "dispatcher_handle pf ev d = (case ev of (token, events) \<Rightarrow>
     if token = CHANNEL_TOKEN then process_channel pf d
     else if token = BUS_TOKEN then process_bus pf d
     else if token = TIMER_TOKEN then process_timer pf d
     else process_io pf token events d)"

section \<open>event_loop.rs\<close>

fun process_events ::
  "('p, 'e, 'a, 'tm) platform \<Rightarrow> (usize \<times> ready_set) list \<Rightarrow> ('p, 'e, 'a, 'tm, 'w) dispatcher \<Rightarrow> ('p, 'e, 'a, 'tm, 'w) dispatcher option" where
  "process_events pf [] d = Some d"
| "process_events pf (ev # evs) d = do { d' \<leftarrow> dispatcher_handle pf ev d; process_events pf evs d' }"

text \<open>
  One round: \<open>polled\<close> is what \<open>Poll::poll\<close> returns, and \<open>arrived\<close> the requests the facade has sent
  meanwhile. The buffer of events keeps its old contents when the poll is interrupted, but none
  of them is taken.
\<close>

definition run_once ::
  "('p, 'e, 'a, 'tm) platform \<Rightarrow> (io_error + (usize \<times> ready_set) list) \<times> 'p request list \<Rightarrow> ('p, 'e, 'a, 'tm, 'w) dispatcher \<Rightarrow>
   ((io_error + unit) \<times> ('p, 'e, 'a, 'tm, 'w) dispatcher) option" where
  "run_once pf input d = (case input of (polled, arrived) \<Rightarrow>
     let d = d\<lparr>dp_channel := dp_channel d @ arrived\<rparr>
     in (case polled of
           Inr evs \<Rightarrow> do { d' \<leftarrow> process_events pf evs d; Some (Inr (), d') }
         | Inl e \<Rightarrow> if error_kind e = Interrupted then do { d' \<leftarrow> process_events pf [] d; Some (Inr (), d') }
                    else Some (Inl e, d)))"

partial_function (option) event_loop_rounds ::
  "('p, 'e, 'a, 'tm) platform \<Rightarrow> (nat \<Rightarrow> (io_error + (usize \<times> ready_set) list) \<times> 'p request list) \<Rightarrow> nat \<Rightarrow>
   ('p, 'e, 'a, 'tm, 'w) dispatcher \<Rightarrow> ((io_error + unit) \<times> ('p, 'e, 'a, 'tm, 'w) dispatcher) option" where
  "event_loop_rounds pf feed n d =
     (if dp_running d then do {
        (res, d') \<leftarrow> run_once pf (feed n) d;
        (case res of Inl e \<Rightarrow> Some (Inl e, d') | Inr _ \<Rightarrow> event_loop_rounds pf feed (Suc n) d') }
      else Some (Inr (), d))"

definition event_loop_run ::
  "('p, 'e, 'a, 'tm) platform \<Rightarrow> (nat \<Rightarrow> (io_error + (usize \<times> ready_set) list) \<times> 'p request list) \<Rightarrow>
   ('p, 'e, 'a, 'tm, 'w) dispatcher \<Rightarrow> ((io_error + unit) \<times> ('p, 'e, 'a, 'tm, 'w) dispatcher) option" where
  "event_loop_run pf feed d = event_loop_rounds pf feed 0 (d\<lparr>dp_running := True\<rparr>)"

text \<open>
  \<open>Dispatcher::run\<close>: the channel, the bus and the timer are registered first; \<open>registered\<close> are the
  answers of the poller to the three.
\<close>

definition dispatcher_run ::
  "('p, 'e, 'a, 'tm) platform \<Rightarrow> io_error option \<times> io_error option \<times> io_error option \<Rightarrow>
   (nat \<Rightarrow> (io_error + (usize \<times> ready_set) list) \<times> 'p request list) \<Rightarrow>
   ('p, 'e, 'a, 'tm, 'w) dispatcher \<Rightarrow> ((io_error + unit) \<times> ('p, 'e, 'a, 'tm, 'w) dispatcher) option" where
  "dispatcher_run pf registered feed d = (case registered of (channel, bus, timer) \<Rightarrow>
     (case channel of
        Some e \<Rightarrow> Some (Inl e, d)
      | None \<Rightarrow>
          (case evbus_register (dp_bus d) bus of
             (Inl e, b) \<Rightarrow> Some (Inl e, d\<lparr>dp_bus := b\<rparr>)
           | (Inr _, b) \<Rightarrow>
               (case timer of
                  Some e \<Rightarrow> Some (Inl e, d\<lparr>dp_bus := b\<rparr>)
                | None \<Rightarrow> event_loop_run pf feed (d\<lparr>dp_bus := b\<rparr>)))))"

definition dispatch ::
  "('p, 'e, 'a, 'tm) platform \<Rightarrow> (string \<rightharpoonup> ('e, 'a, 'w) transport) \<Rightarrow> 'tm \<Rightarrow> 'w \<Rightarrow> io_error option \<times> io_error option \<times> io_error option \<Rightarrow>
   (nat \<Rightarrow> (io_error + (usize \<times> ready_set) list) \<times> 'p request list) \<Rightarrow>
   ((io_error + unit) \<times> ('p, 'e, 'a, 'tm, 'w) dispatcher) option" where
  "dispatch pf transports clock w registered feed =
     dispatcher_run pf registered feed (dispatcher_new transports clock w)"

section \<open>Inputs\<close>

text \<open>The iterations of the loops, one by one, and the socket calls each of them makes.\<close>

datatype 'p dispatcher_input =
    OnRequest "'p request"
  | OnSignal
  | OnTick task
  | OnReady usize ready_set

fun dispatcher_step ::
  "('p, 'e, 'a, 'tm) platform \<Rightarrow> 'p dispatcher_input \<Rightarrow> ('p, 'e, 'a, 'tm, 'w) dispatcher \<Rightarrow> ('p, 'e, 'a, 'tm, 'w) dispatcher option" where
  "dispatcher_step pf (OnRequest r) d = process_request pf r d"
| "dispatcher_step pf OnSignal d =
     (case evbus_recv (dp_bus d) of
        (Some sig, bus) \<Rightarrow> process_signal pf sig (d\<lparr>dp_bus := bus\<rparr>)
      | (None, bus) \<Rightarrow> Some (d\<lparr>dp_bus := bus\<rparr>))"
| "dispatcher_step pf (OnTick task) d = process_tick pf task d"
| "dispatcher_step pf (OnReady token events) d = process_io pf token events d"

fun dispatcher_inputs ::
  "('p, 'e, 'a, 'tm) platform \<Rightarrow> 'p dispatcher_input list \<Rightarrow> ('p, 'e, 'a, 'tm, 'w) dispatcher \<Rightarrow> ('p, 'e, 'a, 'tm, 'w) dispatcher option" where
  "dispatcher_inputs pf [] d = Some d"
| "dispatcher_inputs pf (i # is) d = do { d' \<leftarrow> dispatcher_step pf i d; dispatcher_inputs pf is d' }"

fun request_calls :: "'p request \<Rightarrow> (socket_id \<times> socket_cmd) list" where
  "request_calls (SessionRequest (CreateDevice l r)) = [(l, SDevicePlugged), (r, SDevicePlugged)]"
| "request_calls (SocketRequest sid (RequestConnect url)) = [(sid, SConnect url)]"
| "request_calls (SocketRequest sid (RequestBind url)) = [(sid, SBind url)]"
| "request_calls (SocketRequest sid (RequestSend msg try)) = [(sid, if try then STrySend msg else SSend msg)]"
| "request_calls (SocketRequest sid (RequestRecv try)) = [(sid, if try then STryRecv else SRecv)]"
| "request_calls (SocketRequest sid (RequestSetOption opt)) = [(sid, SSetOption opt)]"
| "request_calls (EndpointRequest sid eid (EndpointClose remote)) = [(sid, if remote then SClosePipe eid else SCloseAcceptor eid)]"
| "request_calls _ = []"

fun pipe_event_call :: "endpoint_id \<Rightarrow> pipe_event \<Rightarrow> socket_cmd option" where
  "pipe_event_call eid PipeOpened = Some (SPipeOpened eid)"
| "pipe_event_call eid (PipeCanSend x) = Some (SSendReady eid x)"
| "pipe_event_call eid PipeSent = Some (SSendAck eid)"
| "pipe_event_call eid (PipeCanRecv x) = Some (SRecvReady eid x)"
| "pipe_event_call eid (PipeReceived msg) = Some (SRecvAck eid msg)"
| "pipe_event_call eid (PipeError _) = Some (SPipeError eid)"
| "pipe_event_call eid PipeClosed = None"

fun signal_calls :: "'e signal \<Rightarrow> (socket_id \<times> socket_cmd) list" where
  "signal_calls (SocketCmd sid Poll) = [(sid, SPoll)]"
| "signal_calls (PipeEvt sid eid evt) = (case pipe_event_call eid evt of Some cmd \<Rightarrow> [(sid, cmd)] | None \<Rightarrow> [])"
| "signal_calls (AcceptorEvt sid aid (AcceptorError _)) = [(sid, SAcceptorError aid)]"
| "signal_calls _ = []"

fun task_calls :: "task \<Rightarrow> (socket_id \<times> socket_cmd) list" where
  "task_calls (SocketTask sid (Reconnect eid spec)) = [(sid, SReconnect eid spec)]"
| "task_calls (SocketTask sid (Rebind eid spec)) = [(sid, SRebind eid spec)]"
| "task_calls (SocketTask sid SendTimeout) = [(sid, SSendTimeout)]"
| "task_calls (SocketTask sid RecvTimeout) = [(sid, SRecvTimeout)]"
| "task_calls (SocketTask sid other) = [(sid, STimerTick other)]"
| "task_calls (ProbeTask _ _) = []"

text \<open>The socket an input closes or gives accepted pipes to, besides the calls above.\<close>

fun request_targets :: "'p request \<Rightarrow> socket_id set" where
  "request_targets (SocketRequest sid RequestClose) = {sid}"
| "request_targets _ = {}"

fun signal_targets :: "'e signal \<Rightarrow> socket_id set" where
  "signal_targets (AcceptorEvt sid _ (Accepted _)) = {sid}"
| "signal_targets _ = {}"

section \<open>The invariant\<close>

text \<open>
  A socket that was closed stays in the session until its event \<open>Closed\<close> has come through the bus.
\<close>

definition closing :: "('p, 'e, 'a, 'tm, 'w) dispatcher \<Rightarrow> socket_id \<Rightarrow> bool" where
  "closing d sid \<longleftrightarrow> SocketEvt sid Closed \<in> set (evbus_queue (dp_bus d))"

definition held :: "('p \<Rightarrow> pipe_collection) \<Rightarrow> 'p socket \<Rightarrow> endpoint_id set" where
  "held pipes s = dom (sock_pipes s) \<union> dom (pipes (sock_protocol s)) \<union> dom (sock_acceptors s)"

definition sockets_ok :: "('p \<Rightarrow> bool) \<Rightarrow> ('p \<Rightarrow> pipe_collection) \<Rightarrow> ('p, 'e, 'a, 'tm, 'w) dispatcher \<Rightarrow> bool" where
  "sockets_ok good pipes d \<longleftrightarrow> (\<forall>sid s. get_socket (dp_session d) sid = Some s \<and> \<not> closing d sid \<longrightarrow>
     socket_ok good pipes s \<and> held pipes s \<subseteq> {..<ses_ids (dp_session d)})"

definition dispatcher_ok :: "('p \<Rightarrow> bool) \<Rightarrow> ('p \<Rightarrow> pipe_collection) \<Rightarrow> ('p, 'e, 'a, 'tm, 'w) dispatcher \<Rightarrow> bool" where
  "dispatcher_ok good pipes d \<longleftrightarrow>
     evbus_ok (dp_bus d) \<and> session_ok (dp_session d) \<and> collection_ok (ses_ids (dp_session d)) (dp_endpoints d) \<and>
     (\<forall>pid p. get_probe (dp_session d) pid = Some p \<longrightarrow> probe_ok p) \<and> sockets_ok good pipes d"

text \<open>
  What is asked of an input: the call is one the socket admits (see \<open>Core_Socket.socket_legal\<close>), but
  that the identifiers of new endpoints are fresh is not assumed: it is shown. An endpoint that is
  opened again is one that the sequence handed out.
\<close>

definition call_legal ::
  "('p \<Rightarrow> pipe_collection) \<Rightarrow> ('p \<Rightarrow> proto_cmd \<Rightarrow> bool) \<Rightarrow> ('p, 'e, 'a, 'tm) platform \<Rightarrow> ('p, 'e, 'a, 'tm, 'w) dispatcher \<Rightarrow>
   socket_id \<Rightarrow> socket_cmd \<Rightarrow> bool" where
  "call_legal pipes admits pf d sid cmd \<longleftrightarrow> \<not> closing d sid \<and>
     (\<forall>s. get_socket (dp_session d) sid = Some s \<longrightarrow>
       (case cmd of
          SConnect _ \<Rightarrow> True
        | SPipeAccepted _ _ \<Rightarrow> True
        | SReconnect eid _ \<Rightarrow> eid < ses_ids (dp_session d) \<and>
            socket_legal (pf_protocol pf) pipes admits s (adapter_ctx (pf_timer pf) (pf_hash pf) (socket_context_new d sid)) cmd
        | SRebind eid _ \<Rightarrow> eid < ses_ids (dp_session d) \<and>
            socket_legal (pf_protocol pf) pipes admits s (adapter_ctx (pf_timer pf) (pf_hash pf) (socket_context_new d sid)) cmd
        | _ \<Rightarrow> socket_legal (pf_protocol pf) pipes admits s (adapter_ctx (pf_timer pf) (pf_hash pf) (socket_context_new d sid)) cmd))"

end
