(* ===== verification/Reactor_Invariant.thy ===== *)
theory Reactor_Invariant
  imports Reactor_Dispatcher
begin

text \<open>
  The event loop keeps the contracts of the parts it runs: whatever requests, signals, ticks and
  notifications arrive, the sockets satisfy their invariant, the identifiers of sockets, devices,
  probes, pipes and acceptors come from one sequence and are never given twice, and the bus tells
  the poller the truth.
\<close>

section \<open>Calls on sockets\<close>

lemma live_opened:
  assumes "\<forall>e \<in> set es. socket_effect sid D Q e"
  shows "live r es A \<subseteq> A \<union> Q"
  using assms
proof (induction es arbitrary: A)
  case (Cons e es)
  then show ?case by (cases e) (fastforce split: if_splits)+
qed simp

lemma effects_below:
  assumes "\<forall>e \<in> set es. socket_effect sid D Q e" and "Q \<subseteq> {..<n}"
  shows "\<forall>e \<in> set es. effect_below n e"
proof
  fix e
  assume "e \<in> set es"
  then have "socket_effect sid D Q e" using assms(1) by blast
  then show "effect_below n e" using assms(2) by (cases e) auto
qed

lemma adapter_ctx_simps [simp]:
  "trace (adapter_ctx tm ord c) = []" "hash_order (env (adapter_ctx tm ord c)) = ord"
  by (simp_all add: adapter_ctx_def adapter_env_def)

text \<open>The logs of \<open>connect\<close> and \<open>bind\<close>.\<close>

lemma connect_log:
  "\<exists>rest. trace (snd (socket_connect ops s ctx url)) =
     trace ctx @ NetConnect (sock_id s) (create_endpoint_tmpl ops s url) # rest \<and> (\<forall>e \<in> set rest. effect_below n e)"
  by (auto simp: socket_connect_def net_connect_def on_connect_success_def on_connect_error_def insert_pipe_def
      pipe_open_emit send_reply_def Let_def split: sum.split)

lemma bind_log:
  "\<exists>rest. trace (snd (socket_bind ops s ctx url)) =
     trace ctx @ NetBind (sock_id s) (create_endpoint_tmpl ops s url) # rest \<and> (\<forall>e \<in> set rest. effect_below n e)"
  by (auto simp: socket_bind_def net_bind_def on_bind_success_def on_bind_error_def
      acceptor_open_emit send_reply_def Let_def split: sum.split)

lemma connect_answer_below:
  assumes "context_ok c" and "fst (net_connect (adapter_ctx tm ord c) sid tmpl) = Inr eid"
    and "perform_all tm (NetConnect sid tmpl # rest) c = Some c'" and "\<forall>e \<in> set rest. effect_below (sc_ids c) e"
  shows "eid < sc_ids c'"
proof -
  obtain r c1 where c1: "sc_connect c sid tmpl = Some (r, c1)" "perform_all tm rest c1 = Some c'"
    using assms(3) by (auto simp: bind_eq_Some_conv)
  have "r = Inr eid"
    using assms(2) c1(1) by (auto simp: net_connect_def adapter_ctx_def adapter_env_def emit_def endpoint_answer_def Let_def)
  then have "eid < sc_ids c1" "context_ok c1" "sc_ids c \<le> sc_ids c1"
    using connect_sound [OF assms(1) c1(1)] by (auto simp: context_le_def)
  moreover have "sc_ids c1 \<le> sc_ids c'"
    using perform_all_sound [OF c1(2) \<open>context_ok c1\<close>] assms(4) effect_below_mono \<open>sc_ids c \<le> sc_ids c1\<close>
    by (auto simp: context_le_def)
  ultimately show ?thesis by simp
qed

lemma bind_answer_below:
  assumes "context_ok c" and "fst (net_bind (adapter_ctx tm ord c) sid tmpl) = Inr eid"
    and "perform_all tm (NetBind sid tmpl # rest) c = Some c'" and "\<forall>e \<in> set rest. effect_below (sc_ids c) e"
  shows "eid < sc_ids c'"
proof -
  obtain r c1 where c1: "sc_bind c sid tmpl = Some (r, c1)" "perform_all tm rest c1 = Some c'"
    using assms(3) by (auto simp: bind_eq_Some_conv)
  have "r = Inr eid"
    using assms(2) c1(1) by (auto simp: net_bind_def adapter_ctx_def adapter_env_def emit_def endpoint_answer_def Let_def)
  then have "eid < sc_ids c1" "context_ok c1" "sc_ids c \<le> sc_ids c1"
    using bind_sound [OF assms(1) c1(1)] by (auto simp: context_le_def)
  moreover have "sc_ids c1 \<le> sc_ids c'"
    using perform_all_sound [OF c1(2) \<open>context_ok c1\<close>] assms(4) effect_below_mono \<open>sc_ids c \<le> sc_ids c1\<close>
    by (auto simp: context_le_def)
  ultimately show ?thesis by simp
qed

text \<open>Signals are only added while a socket runs, and none of them announces that it was closed.\<close>

lemma perform_queue:
  assumes "perform tm e c = Some c'" and "evbus_ok (sc_bus c)"
  shows "evbus_ok (sc_bus c') \<and> (\<exists>sigs. evbus_queue (sc_bus c') = evbus_queue (sc_bus c) @ sigs \<and>
    (e \<noteq> Raise Closed \<longrightarrow> (\<forall>sid. SocketEvt sid Closed \<notin> set sigs)))"
proof (cases e)
  case (NetConnect sid tmpl)
  then show ?thesis using assms
    by (auto simp: sc_connect_def bind_eq_Some_conv split: prod.splits sum.splits dest!: transport_connect_keeps)
next
  case (NetBind sid tmpl)
  then show ?thesis using assms
    by (auto simp: sc_bind_def bind_eq_Some_conv split: prod.splits sum.splits dest!: transport_bind_keeps)
next
  case (NetReconnect sid eid tmpl)
  then show ?thesis using assms
    by (auto simp: sc_reconnect_def split: prod.splits sum.splits dest!: transport_connect_keeps)
next
  case (NetRebind sid eid tmpl)
  then show ?thesis using assms
    by (auto simp: sc_rebind_def split: prod.splits sum.splits dest!: transport_bind_keeps)
next
  case (Scheduling task delay)
  then show ?thesis using assms by (auto simp: sc_schedule_task_def bind_eq_Some_conv split: prod.splits)
next
  case (Cancel scheduled)
  then show ?thesis using assms by (auto simp: sc_cancel_def schedule_remove_def split: option.splits)
qed (use assms in \<open>auto simp: signal_defs send_signal_def signals.push_law split: if_splits\<close>)

lemma perform_all_queue:
  assumes "perform_all tm es c = Some c'" and "evbus_ok (sc_bus c)"
  shows "evbus_ok (sc_bus c') \<and> (\<exists>sigs. evbus_queue (sc_bus c') = evbus_queue (sc_bus c) @ sigs \<and>
    (Raise Closed \<notin> set es \<longrightarrow> (\<forall>sid. SocketEvt sid Closed \<notin> set sigs)))"
  using assms
proof (induction es arbitrary: c)
  case (Cons e es)
  then obtain c1 where c1: "perform tm e c = Some c1" "perform_all tm es c1 = Some c'"
    by (auto simp: bind_eq_Some_conv)
  obtain xs where xs: "evbus_ok (sc_bus c1)" "evbus_queue (sc_bus c1) = evbus_queue (sc_bus c) @ xs"
    "e \<noteq> Raise Closed \<longrightarrow> (\<forall>sid. SocketEvt sid Closed \<notin> set xs)"
    using perform_queue [OF c1(1) Cons.prems(2)] by blast
  obtain ys where "evbus_ok (sc_bus c')" "evbus_queue (sc_bus c') = evbus_queue (sc_bus c1) @ ys"
    "Raise Closed \<notin> set es \<longrightarrow> (\<forall>sid. SocketEvt sid Closed \<notin> set ys)"
    using Cons.IH [OF c1(2) xs(1)] by blast
  with xs show ?case by (intro conjI exI [of _ "xs @ ys"]) auto
qed simp

text \<open>What a call leaves as it was.\<close>

definition extends :: "('p, 'e, 'a, 'tm, 'w) dispatcher \<Rightarrow> ('p, 'e, 'a, 'tm, 'w) dispatcher \<Rightarrow> bool" where
  "extends d d' \<longleftrightarrow> ses_ids (dp_session d) \<le> ses_ids (dp_session d') \<and>
     (\<forall>sid. closing d' sid = closing d sid) \<and>
     dom (ses_sockets (dp_session d')) = dom (ses_sockets (dp_session d))"

lemma extends_refl [simp]: "extends d d"
  by (simp add: extends_def)

lemma extends_trans: "extends a b \<Longrightarrow> extends b c \<Longrightarrow> extends a c"
  by (auto simp: extends_def)

lemma session_ok_socket:
  assumes "session_ok ses" and "get_socket ses sid = Some s" and "sock_id s' = sid" and "ses_ids ses \<le> n"
  shows "session_ok (ses\<lparr>ses_ids := n, ses_sockets := (ses_sockets ses)(sid \<mapsto> s')\<rparr>)"
  using assms unfolding session_ok_def used_ids_def created_ids_def get_socket_def
  by (auto simp: insert_absorb domI dest: order_less_le_trans)

lemma socket_context_ok:
  assumes "dispatcher_ok good pipes d"
  shows "context_ok (socket_context_new d sid)"
  using assms by (simp add: dispatcher_ok_def context_ok_def socket_context_new_def)

lemma dispatcher_ok_socketD:
  assumes "dispatcher_ok good pipes d" and "get_socket (dp_session d) sid = Some s" and "\<not> closing d sid"
  shows "socket_ok good pipes s" "held pipes s \<subseteq> {..<ses_ids (dp_session d)}" "sock_id s = sid"
proof -
  have "sockets_ok good pipes d" "session_ok (dp_session d)" using assms(1) by (simp_all add: dispatcher_ok_def)
  then show "socket_ok good pipes s" "held pipes s \<subseteq> {..<ses_ids (dp_session d)}" "sock_id s = sid"
    using assms(2,3) unfolding sockets_ok_def session_ok_def get_socket_def by blast+
qed

lemma give_back_ok:
  assumes ok: "dispatcher_ok good pipes d" and s: "get_socket (dp_session d) sid = Some s"
    and c': "context_ok c'" "ses_ids (dp_session d) \<le> sc_ids c'"
    and s': "sock_id s' = sid" "socket_ok good pipes s'" "held pipes s' \<subseteq> {..<sc_ids c'}"
    and q: "evbus_queue (sc_bus c') = evbus_queue (dp_bus d) @ sigs" "\<forall>sid. SocketEvt sid Closed \<notin> set sigs"
  shows "dispatcher_ok good pipes (give_back d sid s' c') \<and> extends d (give_back d sid s' c')"
proof -
  let ?d = "give_back d sid s' c'"
  have parts: "session_ok (dp_session d)" "sockets_ok good pipes d"
    "\<forall>pid p. get_probe (dp_session d) pid = Some p \<longrightarrow> probe_ok p"
    using ok by (auto simp: dispatcher_ok_def)
  have "closing ?d i = closing d i" for i
    using q by (auto simp: closing_def give_back_def)
  moreover have "dom (ses_sockets (dp_session ?d)) = dom (ses_sockets (dp_session d))"
    using s by (auto simp: give_back_def get_socket_def)
  ultimately have ext: "extends d ?d" using c'(2) by (simp add: extends_def give_back_def)
  have "session_ok (dp_session ?d)"
    using session_ok_socket [OF parts(1) s s'(1) c'(2)] by (simp add: give_back_def)
  moreover have "sockets_ok good pipes ?d"
    unfolding sockets_ok_def
  proof (intro allI impI)
    fix i t
    assume it: "get_socket (dp_session ?d) i = Some t \<and> \<not> closing ?d i"
    show "socket_ok good pipes t \<and> held pipes t \<subseteq> {..<ses_ids (dp_session ?d)}"
    proof (cases "i = sid")
      case True
      then show ?thesis using it s' by (simp add: give_back_def get_socket_def)
    next
      case False
      then have "socket_ok good pipes t \<and> held pipes t \<subseteq> {..<ses_ids (dp_session d)}"
        using it parts(2) ext by (auto simp: sockets_ok_def extends_def give_back_def get_socket_def)
      then show ?thesis using c'(2) by (auto simp: give_back_def)
    qed
  qed
  ultimately show ?thesis
    using ext parts(3) c'(1)
    by (auto simp: dispatcher_ok_def give_back_def context_ok_def get_probe_def)
qed

context protocol
begin

lemma call_legal_in_context:
  assumes ok: "dispatcher_ok good pipes d" and pf: "pf_protocol pf = ops"
    and legal: "call_legal pipes admits pf d sid cmd"
    and accepted: "\<And>aid eid. cmd = SPipeAccepted aid eid \<Longrightarrow> fresh_eid pipes s eid"
    and s: "get_socket (dp_session d) sid = Some s"
  shows "socket_legal ops pipes admits s (adapter_ctx (pf_timer pf) (pf_hash pf) (socket_context_new d sid)) cmd"
proof (cases cmd)
  case (SConnect url)
  have held: "held pipes s \<subseteq> {..<ses_ids (dp_session d)}"
    using dispatcher_ok_socketD(2) [OF ok s] legal by (simp add: call_legal_def)
  have "fresh_eid pipes s eid" if "eid = ses_ids (dp_session d)" for eid
    using held that by (auto simp: fresh_eid_def held_def)
  moreover have "eid = ses_ids (dp_session d)" if "fst (net_connect (adapter_ctx (pf_timer pf) (pf_hash pf)
      (socket_context_new d sid)) (sock_id s) (create_endpoint_tmpl ops s url)) = Inr eid" for eid
    using connect_answer_fresh [OF socket_context_ok [OF ok] that] by (simp add: socket_context_new_def)
  ultimately show ?thesis using SConnect by (auto split: sum.split)
next
  case (SPipeAccepted aid eid)
  then show ?thesis using accepted by simp
qed (use legal s in \<open>auto simp: call_legal_def pf simp del: socket_legal.simps\<close>)

lemma opened_below:
  assumes ok: "context_ok c" and cmd: "\<And>eid. cmd \<in> {SPipeAccepted aid eid |aid. True} \<union> {SReconnect eid spec |spec. True} \<union>
      {SRebind eid spec |spec. True} \<Longrightarrow> eid < sc_ids c"
    and step: "socket_step ops cmd s (adapter_ctx tm ord c) = Some (s', ctx')"
    and run: "perform_all tm (trace ctx') c = Some c'"
    and effects: "\<forall>e \<in> set (trace ctx'). socket_effect sid D (opened_by ops s (adapter_ctx tm ord c) cmd) e"
  shows "opened_by ops s (adapter_ctx tm ord c) cmd \<subseteq> {..<sc_ids c'}" and "context_ok c' \<and> context_le c c'"
proof -
  let ?ctx = "adapter_ctx tm ord c"
  have all: "opened_by ops s ?ctx cmd \<subseteq> {..<sc_ids c'} \<and> context_ok c' \<and> context_le c c'"
  proof (cases "(\<exists>url. cmd = SConnect url) \<or> (\<exists>url. cmd = SBind url)")
    case True
    then show ?thesis
    proof
      assume "\<exists>url. cmd = SConnect url"
      then obtain url where url: "cmd = SConnect url" by blast
      obtain rest where rest: "trace ctx' = NetConnect (sock_id s) (create_endpoint_tmpl ops s url) # rest"
        "\<forall>e \<in> set rest. effect_below (sc_ids c) e"
        using connect_log [of ops s ?ctx url "sc_ids c"] step url by auto
      have "context_ok c' \<and> context_le c c'" using perform_all_sound [OF run ok] rest by auto
      then show ?thesis using connect_answer_below [OF ok _ run [unfolded rest(1)] rest(2)] url by auto
    next
      assume "\<exists>url. cmd = SBind url"
      then obtain url where url: "cmd = SBind url" by blast
      obtain rest where rest: "trace ctx' = NetBind (sock_id s) (create_endpoint_tmpl ops s url) # rest"
        "\<forall>e \<in> set rest. effect_below (sc_ids c) e"
        using bind_log [of ops s ?ctx url "sc_ids c"] step url by auto
      have "context_ok c' \<and> context_le c c'" using perform_all_sound [OF run ok] rest by auto
      then show ?thesis using bind_answer_below [OF ok _ run [unfolded rest(1)] rest(2)] url by auto
    qed
  next
    case False
    then have below: "opened_by ops s ?ctx cmd \<subseteq> {..<sc_ids c}" using cmd by (cases cmd) auto
    have "context_ok c' \<and> context_le c c'"
      using perform_all_sound [OF run ok] effects_below [OF effects below] by blast
    then show ?thesis using below by (auto simp: context_le_def)
  qed
  then show "opened_by ops s ?ctx cmd \<subseteq> {..<sc_ids c'}" "context_ok c' \<and> context_le c c'" by blast+
qed

lemma call_keeps:
  assumes ok: "dispatcher_ok good pipes d" and pf: "pf_protocol pf = ops" "enumerates (pf_hash pf)"
    and legal: "call_legal pipes admits pf d sid cmd"
    and accepted: "\<And>aid eid. cmd = SPipeAccepted aid eid \<Longrightarrow> eid < ses_ids (dp_session d) \<and>
      (\<forall>s. get_socket (dp_session d) sid = Some s \<longrightarrow> fresh_eid pipes s eid)"
    and run: "apply_on_socket pf d sid (call pf cmd) = Some d'"
  shows "dispatcher_ok good pipes d' \<and> extends d d'"
proof (cases "get_socket (dp_session d) sid")
  case None
  then show ?thesis using run ok by (simp add: apply_on_socket_def)
next
  case (Some s)
  let ?c = "socket_context_new d sid"
  let ?ctx = "adapter_ctx (pf_timer pf) (pf_hash pf) ?c"
  let ?Q = "opened_by ops s ?ctx cmd"
  have s: "socket_ok good pipes s" "held pipes s \<subseteq> {..<ses_ids (dp_session d)}" "sock_id s = sid"
    using dispatcher_ok_socketD [OF ok Some] legal by (simp_all add: call_legal_def)
  have "socket_legal ops pipes admits s ?ctx cmd"
    using call_legal_in_context [OF ok pf(1) legal _ Some] accepted Some by auto
  then have steps: "runs (socket_step ops cmd s ?ctx) (socket_step_ok ops good pipes (cmd \<noteq> SDevicePlugged) ?Q s ?ctx)"
    using socket_step_contract [OF s(1)] pf(2) by simp
  obtain s' ctx' c' where step: "socket_step ops cmd s ?ctx = Some (s', ctx')"
    and perf: "perform_all (pf_timer pf) (trace ctx') ?c = Some c'" and d': "d' = give_back d sid s' c'"
    using run Some by (auto simp: apply_on_socket_def pf(1) bind_eq_Some_conv Let_def)
  have step_ok: "socket_step_ok ops good pipes (cmd \<noteq> SDevicePlugged) ?Q s ?ctx (s', ctx')"
    using steps step by simp
  then have s': "socket_ok good pipes s'" "sock_id s' = sid"
    and effects: "\<forall>e \<in> set (trace ctx'). socket_effect sid (dom (pipes (sock_protocol s'))) ?Q e"
    and ledger: "\<And>A B. accounts A B pipes s ?ctx \<Longrightarrow> accounts A B pipes s' ctx'"
    using s(3) by (auto simp: socket_step_ok_def emits_def)
  have c: "context_ok ?c" by (rule socket_context_ok [OF ok])
  have ids: "sc_ids ?c = ses_ids (dp_session d)" by (simp add: socket_context_new_def)
  have reopened: "eid < sc_ids ?c" if "cmd \<in> {SPipeAccepted aid eid |aid. True} \<union> {SReconnect eid spec |spec. True} \<union>
      {SRebind eid spec |spec. True}" for eid
  proof (cases cmd)
    case (SPipeAccepted aid eid')
    then show ?thesis using that accepted [of aid eid'] ids by simp
  next
    case (SReconnect eid' spec)
    then show ?thesis using that legal Some ids by (simp add: call_legal_def del: socket_legal.simps)
  next
    case (SRebind eid' spec)
    then show ?thesis using that legal Some ids by (simp add: call_legal_def del: socket_legal.simps)
  qed (use that in auto)
  note opened = opened_below [OF c reopened step perf effects]
  have below: "?Q \<subseteq> {..<sc_ids c'}" by (rule opened(1))
  have c': "context_ok c'" "ses_ids (dp_session d) \<le> sc_ids c'" using opened(2) by (simp_all add: ids context_le_def)
  have "accounts (dom (sock_pipes s) \<union> dom (pipes (sock_protocol s))) (dom (sock_acceptors s)) pipes s' ctx'"
    by (rule ledger) (simp add: accounts_def)
  then have sub: "held pipes s' \<subseteq> held pipes s \<union> ?Q"
    using live_opened [OF effects, of True "dom (sock_pipes s) \<union> dom (pipes (sock_protocol s))"]
      live_opened [OF effects, of False "dom (sock_acceptors s)"]
    unfolding accounts_def held_def by blast
  have "{..<ses_ids (dp_session d)} \<subseteq> {..<sc_ids c'}" using c'(2) by auto
  then have held: "held pipes s' \<subseteq> {..<sc_ids c'}" by (rule order_trans [OF sub Un_least [OF order_trans [OF s(2)] below]])
  have "Raise Closed \<notin> set (trace ctx')" using bspec [OF effects, of "Raise Closed"] by auto
  moreover have "evbus_ok (sc_bus ?c)" using c by (simp add: context_ok_def)
  ultimately obtain sigs where "evbus_queue (sc_bus c') = evbus_queue (dp_bus d) @ sigs" "\<forall>sid. SocketEvt sid Closed \<notin> set sigs"
    using perform_all_queue [OF perf] by (auto simp: socket_context_new_def)
  with give_back_ok [OF ok Some c' s'(2,1) held] d' show ?thesis by blast
qed

lemma close_keeps:
  assumes ok: "dispatcher_ok good pipes d" and pf: "pf_protocol pf = ops" "enumerates (pf_hash pf)"
    and open_socket: "\<not> closing d sid"
    and run: "apply_on_socket pf d sid (\<lambda>s ctx. Some (socket_close (pf_protocol pf) s ctx)) = Some d'"
  shows "dispatcher_ok good pipes d'"
proof (cases "get_socket (dp_session d) sid")
  case None
  then show ?thesis using run ok by (simp add: apply_on_socket_def)
next
  case (Some s)
  let ?c = "socket_context_new d sid"
  let ?ctx = "adapter_ctx (pf_timer pf) (pf_hash pf) ?c"
  note s = dispatcher_ok_socketD [OF ok Some open_socket]
  obtain s' ctx' where close: "socket_close ops s ?ctx = (s', ctx')" by (cases "socket_close ops s ?ctx")
  obtain c' where perf: "perform_all (pf_timer pf) (trace ctx') ?c = Some c'" and d': "d' = give_back d sid s' c'"
    using run Some close by (auto simp: apply_on_socket_def pf(1) bind_eq_Some_conv Let_def)
  have ord: "enumerates (hash_order (env ?ctx))" using pf(2) by simp
  obtain es where es0: "trace (snd (socket_close ops s ?ctx)) = trace ?ctx @ es @ [Raise Closed]"
    and set_es: "set es = (\<lambda>eid. NetClose eid True) ` (dom (sock_pipes s) \<union> dom (pipes (sock_protocol s))) \<union>
      (\<lambda>eid. NetClose eid False) ` dom (sock_acceptors s)"
    using socket_close_all(1) [OF s(1) ord] by (elim exE conjE)
  have es: "trace ctx' = es @ [Raise Closed]" using es0 by (simp add: close)
  have closes: "\<exists>eid r. e = NetClose eid r" if "e \<in> set es" for e using that unfolding set_es by blast
  have c: "context_ok ?c" by (rule socket_context_ok [OF ok])
  have "\<forall>e \<in> set (trace ctx'). effect_below (sc_ids ?c) e" using es closes by fastforce
  from perform_all_sound [OF perf c this] have c': "context_ok c'" "ses_ids (dp_session d) \<le> sc_ids c'"
    by (auto simp: context_le_def socket_context_new_def)
  obtain c1 where c1: "perform_all (pf_timer pf) es ?c = Some c1" "c' = send_socket_evt c1 Closed"
    using perf es by (auto simp: perform_all_append bind_eq_Some_conv)
  have "Raise Closed \<notin> set es" using closes [of "Raise Closed"] by blast
  then obtain sigs where sigs: "evbus_ok (sc_bus c1)" "evbus_queue (sc_bus c1) = evbus_queue (dp_bus d) @ sigs"
      "\<forall>sid. SocketEvt sid Closed \<notin> set sigs"
    using perform_all_queue [OF c1(1)] c by (auto simp: context_ok_def socket_context_new_def)
  have "sc_socket_id c1 = sid"
    using perform_all_sound [OF c1(1) c] closes by (fastforce simp: context_le_def socket_context_new_def)
  then have queue: "evbus_queue (sc_bus c') = evbus_queue (dp_bus d) @ sigs @ [SocketEvt sid Closed]"
    using c1(2) signals.push_law [OF sigs(1)] sigs(2) by (simp add: send_socket_evt_def send_signal_def)
  then have closing: "closing d' i \<longleftrightarrow> closing d i \<or> i = sid" for i
    using sigs(3) d' by (auto simp: closing_def give_back_def)
  have "sock_id s' = sid" using close s(3) by (auto simp: socket_close_def Let_def split: prod.splits)
  then have "session_ok (dp_session d')"
    using session_ok_socket [OF _ Some, of s' "sc_ids c'"] ok c'(2) d' by (simp add: dispatcher_ok_def give_back_def)
  moreover have "sockets_ok good pipes d'"
    unfolding sockets_ok_def
  proof (intro allI impI)
    fix i t
    assume "get_socket (dp_session d') i = Some t \<and> \<not> closing d' i"
    then have "get_socket (dp_session d) i = Some t" "\<not> closing d i"
      using closing d' by (auto simp: give_back_def get_socket_def split: if_splits)
    from dispatcher_ok_socketD [OF ok this] show "socket_ok good pipes t \<and> held pipes t \<subseteq> {..<ses_ids (dp_session d')}"
      using c'(2) d' by (auto simp: give_back_def)
  qed
  ultimately show ?thesis
    using ok c'(1) d' by (auto simp: dispatcher_ok_def give_back_def context_ok_def get_probe_def)
qed

end

end
