(* ===== verification/Reactor_Parts.thy ===== *)
theory Reactor_Parts
  imports Reactor_Invariant
begin

text \<open>
  What the event loop does to pipes, acceptors, devices and probes keeps its invariant: they
  never touch a socket, they only send signals of their own and keep their place in the session.
\<close>

section \<open>The other parts\<close>

text \<open>A change that touches no socket.\<close>

lemma quiet_ok:
  assumes "dispatcher_ok good pipes d"
    and "ses_sockets (dp_session d') = ses_sockets (dp_session d)" "ses_ids (dp_session d) \<le> ses_ids (dp_session d')"
    and "session_ok (dp_session d')" "\<forall>pid p. get_probe (dp_session d') pid = Some p \<longrightarrow> probe_ok p"
    and "collection_ok (ses_ids (dp_session d')) (dp_endpoints d')"
    and "evbus_ok (dp_bus d')" "evbus_queue (dp_bus d') = evbus_queue (dp_bus d) @ sigs" "\<forall>sid. SocketEvt sid Closed \<notin> set sigs"
  shows "dispatcher_ok good pipes d' \<and> extends d d'"
proof -
  have closing: "closing d' i = closing d i" for i using assms(8,9) by (auto simp: closing_def)
  have "sockets_ok good pipes d'"
    unfolding sockets_ok_def
  proof (intro allI impI)
    fix i t
    assume "get_socket (dp_session d') i = Some t \<and> \<not> closing d' i"
    then have "get_socket (dp_session d) i = Some t" "\<not> closing d i"
      using closing assms(2) by (simp_all add: get_socket_def)
    from dispatcher_ok_socketD [OF assms(1) this] show "socket_ok good pipes t \<and> held pipes t \<subseteq> {..<ses_ids (dp_session d')}"
      using assms(3) by auto
  qed
  then show ?thesis using assms closing by (simp add: dispatcher_ok_def extends_def)
qed

text \<open>Pipes and acceptors only raise events of their own.\<close>

lemma pipe_effects_queue:
  assumes "evbus_ok bus" and "fold (perform_pipe_effect sid eid) es (regs, bus) = (regs', bus')"
  shows "evbus_ok bus' \<and> (\<exists>evts. evbus_queue bus' = evbus_queue bus @ map (PipeEvt sid eid) evts)"
  using assms
proof (induction es arbitrary: regs bus)
  case Nil
  then show ?case by (auto intro: exI [of _ "[]"])
next
  case (Cons e es)
  obtain regs1 bus1 where e: "perform_pipe_effect sid eid e (regs, bus) = (regs1, bus1)"
    by (cases "perform_pipe_effect sid eid e (regs, bus)")
  have one: "evbus_ok bus1 \<and> (\<exists>evts. evbus_queue bus1 = evbus_queue bus @ map (PipeEvt sid eid) evts)"
    using e Cons.prems(1) signals.push_law [OF Cons.prems(1)]
    by (cases e) (auto intro: exI [of _ "[]"] exI [of _ "[_]"])
  moreover have "fold (perform_pipe_effect sid eid) es (regs1, bus1) = (regs', bus')" using Cons.prems(2) e by simp
  ultimately show ?case using Cons.IH by (metis append.assoc map_append)
qed

lemma acceptor_effects_queue:
  assumes "evbus_ok bus" and "fold (perform_acceptor_effect sid eid) es (regs, bus) = (regs', bus')"
  shows "evbus_ok bus' \<and> (\<exists>evts. evbus_queue bus' = evbus_queue bus @ map (AcceptorEvt sid eid) evts)"
  using assms
proof (induction es arbitrary: regs bus)
  case Nil
  then show ?case by (auto intro: exI [of _ "[]"])
next
  case (Cons e es)
  obtain regs1 bus1 where e: "perform_acceptor_effect sid eid e (regs, bus) = (regs1, bus1)"
    by (cases "perform_acceptor_effect sid eid e (regs, bus)")
  have one: "evbus_ok bus1 \<and> (\<exists>evts. evbus_queue bus1 = evbus_queue bus @ map (AcceptorEvt sid eid) evts)"
    using e Cons.prems(1) signals.push_law [OF Cons.prems(1)]
    by (cases e) (auto intro: exI [of _ "[]"] exI [of _ "[_]"])
  moreover have "fold (perform_acceptor_effect sid eid) es (regs1, bus1) = (regs', bus')" using Cons.prems(2) e by simp
  ultimately show ?case using Cons.IH by (metis append.assoc map_append)
qed

lemma pipe_update_ok:
  assumes "dispatcher_ok good pipes d" and "ec_pipes (dp_endpoints d) eid = Some pc" and "pct_endpoint_id pc' = eid"
    and "fold (perform_pipe_effect i j) es (dp_registrations d, dp_bus d) = (regs, bus)"
  shows "dispatcher_ok good pipes (d\<lparr>dp_registrations := regs, dp_bus := bus,
      dp_endpoints := (dp_endpoints d)\<lparr>ec_pipes := (ec_pipes (dp_endpoints d))(eid \<mapsto> pc')\<rparr>\<rparr>) \<and>
    extends d (d\<lparr>dp_registrations := regs, dp_bus := bus,
      dp_endpoints := (dp_endpoints d)\<lparr>ec_pipes := (ec_pipes (dp_endpoints d))(eid \<mapsto> pc')\<rparr>\<rparr>)"
proof -
  have parts: "evbus_ok (dp_bus d)" "session_ok (dp_session d)" "collection_ok (ses_ids (dp_session d)) (dp_endpoints d)"
    "\<forall>pid p. get_probe (dp_session d) pid = Some p \<longrightarrow> probe_ok p"
    using assms(1) by (simp_all add: dispatcher_ok_def)
  obtain evts where "evbus_ok bus" "evbus_queue bus = evbus_queue (dp_bus d) @ map (PipeEvt i j) evts"
    using pipe_effects_queue [OF parts(1) assms(4)] by blast
  then show ?thesis
    using parts(2-4) assms(2,3)
    by (intro quiet_ok [OF assms(1), where sigs = "map (PipeEvt i j) evts"]) (auto simp: collection_ok_def)
qed

lemma acceptor_update_ok:
  assumes "dispatcher_ok good pipes d" and "ec_acceptors (dp_endpoints d) eid = Some ac" and "act_endpoint_id ac' = eid"
    and "fold (perform_acceptor_effect i j) es (dp_registrations d, dp_bus d) = (regs, bus)"
  shows "dispatcher_ok good pipes (d\<lparr>dp_registrations := regs, dp_bus := bus,
      dp_endpoints := (dp_endpoints d)\<lparr>ec_acceptors := (ec_acceptors (dp_endpoints d))(eid \<mapsto> ac')\<rparr>\<rparr>) \<and>
    extends d (d\<lparr>dp_registrations := regs, dp_bus := bus,
      dp_endpoints := (dp_endpoints d)\<lparr>ec_acceptors := (ec_acceptors (dp_endpoints d))(eid \<mapsto> ac')\<rparr>\<rparr>)"
proof -
  have parts: "evbus_ok (dp_bus d)" "session_ok (dp_session d)" "collection_ok (ses_ids (dp_session d)) (dp_endpoints d)"
    "\<forall>pid p. get_probe (dp_session d) pid = Some p \<longrightarrow> probe_ok p"
    using assms(1) by (simp_all add: dispatcher_ok_def)
  obtain evts where "evbus_ok bus" "evbus_queue bus = evbus_queue (dp_bus d) @ map (AcceptorEvt i j) evts"
    using acceptor_effects_queue [OF parts(1) assms(4)] by blast
  then show ?thesis
    using parts(2-4) assms(2,3)
    by (intro quiet_ok [OF assms(1), where sigs = "map (AcceptorEvt i j) evts"]) (auto simp: collection_ok_def)
qed

lemma collection_idD:
  assumes "dispatcher_ok good pipes d"
  shows "ec_pipes (dp_endpoints d) eid = Some pc \<Longrightarrow> pct_endpoint_id pc = eid"
    and "ec_acceptors (dp_endpoints d) eid = Some ac \<Longrightarrow> act_endpoint_id ac = eid"
  using assms unfolding dispatcher_ok_def collection_ok_def by blast+

lemma process_pipe_cmd_keeps:
  assumes "dispatcher_ok good pipes d"
  shows "dispatcher_ok good pipes (process_pipe_cmd pf d eid cmd) \<and> extends d (process_pipe_cmd pf d eid cmd)"
  using assms pipe_update_ok [OF assms] collection_idD(1) [OF assms]
  by (auto simp: process_pipe_cmd_def pipe_controller_process_def Let_def split: option.split prod.splits)

lemma process_acceptor_cmd_keeps:
  assumes "dispatcher_ok good pipes d"
  shows "dispatcher_ok good pipes (process_acceptor_cmd pf d eid cmd) \<and> extends d (process_acceptor_cmd pf d eid cmd)"
  using assms acceptor_update_ok [OF assms] collection_idD(2) [OF assms]
  by (auto simp: process_acceptor_cmd_def acceptor_controller_process_def Let_def split: option.split prod.splits)

lemma process_io_keeps:
  assumes "dispatcher_ok good pipes d" and "process_io pf token events d = Some d'"
  shows "dispatcher_ok good pipes d' \<and> extends d d'"
  using assms pipe_update_ok [OF assms(1)] acceptor_update_ok [OF assms(1)] collection_idD [OF assms(1)]
  by (auto simp: process_io_def pipe_controller_ready_def acceptor_controller_ready_def bind_eq_Some_conv Let_def
      split: option.splits prod.splits)

section \<open>Devices and probes\<close>

lemma created_id_outs [simp]:
  "List.map_filter created_id (map (DeviceOut i) es) = []"
  "List.map_filter created_id (map (ProbeOut i) fs) = []"
  by (induction es, auto) (induction fs, auto)

lemma device_effects_queue:
  assumes "evbus_ok bus"
  shows "evbus_ok (fold perform_device_effect es bus) \<and>
    (\<exists>sids. evbus_queue (fold perform_device_effect es bus) = evbus_queue bus @ map (\<lambda>sid. SocketCmd sid Poll) sids)"
  using assms
proof (induction es arbitrary: bus)
  case Nil
  then show ?case by (auto intro: exI [of _ "[]"])
next
  case (Cons e es)
  have one: "evbus_ok (perform_device_effect e bus) \<and>
    (\<exists>sids. evbus_queue (perform_device_effect e bus) = evbus_queue bus @ map (\<lambda>sid. SocketCmd sid Poll) sids)"
    using Cons.prems signals.push_law [OF Cons.prems]
    by (cases e) (auto simp: perform_device_effect_def intro: exI [of _ "[]"] exI [of _ "[_]"])
  then obtain xs where xs: "evbus_ok (perform_device_effect e bus)"
    "evbus_queue (perform_device_effect e bus) = evbus_queue bus @ map (\<lambda>sid. SocketCmd sid Poll) xs" by blast
  from Cons.IH [OF xs(1)] obtain ys where
    "evbus_queue (fold perform_device_effect es (perform_device_effect e bus)) =
       evbus_queue (perform_device_effect e bus) @ map (\<lambda>sid. SocketCmd sid Poll) ys" by blast
  then show ?case using Cons.IH [OF xs(1)] xs(2) by (intro conjI exI [of _ "xs @ ys"]) simp_all
qed

lemma put_device_keeps:
  assumes ok: "dispatcher_ok good pipes d" and dev: "dc_devices (ses_devices (dp_session d)) did = Some dev"
    and same: "dev_left (fst r) = dev_left dev" "dev_right (fst r) = dev_right dev"
  shows "dispatcher_ok good pipes (put_device d did r) \<and> extends d (put_device d did r)"
proof -
  have parts: "evbus_ok (dp_bus d)" "session_ok (dp_session d)" "collection_ok (ses_ids (dp_session d)) (dp_endpoints d)"
    "\<forall>pid p. get_probe (dp_session d) pid = Some p \<longrightarrow> probe_ok p"
    using ok by (simp_all add: dispatcher_ok_def)
  obtain dev' es where r: "r = (dev', es)" by (cases r)
  obtain sids where bus: "evbus_ok (fold perform_device_effect es (dp_bus d))"
    "evbus_queue (fold perform_device_effect es (dp_bus d)) = evbus_queue (dp_bus d) @ map (\<lambda>sid. SocketCmd sid Poll) sids"
    using device_effects_queue [OF parts(1)] by blast
  have links: "device_links_ok (ses_devices (dp_session (put_device d did r)))"
    using parts(2) dev same unfolding session_ok_def device_links_ok_def put_device_def r by fastforce
  have "session_ok (dp_session (put_device d did r))"
    using parts(2) dev links
    by (simp add: session_ok_def used_ids_def created_ids_def put_device_def r insert_absorb domI)
  then show ?thesis
    using parts(3,4) bus
    by (intro quiet_ok [OF ok, where sigs = "map (\<lambda>sid. SocketCmd sid Poll) sids"])
      (auto simp: put_device_def r get_probe_def)
qed

lemma device_sides_kept:
  "dev_left (fst (device_check dev es)) = dev_left dev" "dev_right (fst (device_check dev es)) = dev_right dev"
  "dev_left (fst (device_on_socket_can_recv dev es sid x)) = dev_left dev"
  "dev_right (fst (device_on_socket_can_recv dev es sid x)) = dev_right dev"
  by (simp_all add: device_defs Let_def)

lemma device_check_keeps:
  assumes "dispatcher_ok good pipes d"
  shows "dispatcher_ok good pipes (apply_on_device d did device_check) \<and> extends d (apply_on_device d did device_check)"
proof (cases "dc_devices (ses_devices (dp_session d)) did")
  case (Some dev)
  with put_device_keeps [OF assms Some device_sides_kept(1,2)] show ?thesis
    by (simp add: apply_on_device_def get_device_def collection_get_device_def)
qed (simp add: apply_on_device_def get_device_def collection_get_device_def assms)

lemma device_link_keeps:
  assumes "dispatcher_ok good pipes d"
  shows "dispatcher_ok good pipes (apply_on_device_link d sid (\<lambda>dev es. device_on_socket_can_recv dev es sid x)) \<and>
    extends d (apply_on_device_link d sid (\<lambda>dev es. device_on_socket_can_recv dev es sid x))"
proof (cases "dc_mapping (ses_devices (dp_session d)) sid")
  case (Some did)
  show ?thesis
  proof (cases "dc_devices (ses_devices (dp_session d)) did")
    case dev: (Some dev)
    with Some put_device_keeps [OF assms dev device_sides_kept(3,4)] show ?thesis
      by (simp add: apply_on_device_link_def find_device_def collection_find_device_def)
  qed (use Some assms in \<open>simp add: apply_on_device_link_def find_device_def collection_find_device_def\<close>)
qed (simp add: apply_on_device_link_def assms)

lemma probe_step_keeps:
  assumes "probe_ok p" and "probe_step cmd p ctx = Some (p', ctx')"
  shows "probe_ok p' \<and> poll_opts p' = poll_opts p"
proof -
  have check: "probe_ok q' \<and> poll_opts q' = poll_opts q" if "probe_ok q" "probe_check q c = Some (q', c')" for q q' c c'
    using that cleared_ok [OF that(1)]
    by (auto simp: probe_check_eq [OF that(1)] cleared_def split: option.splits if_splits)
  show ?thesis
  proof (cases cmd)
    case (PPoll d)
    have "probe_ok (p\<lparr>pr_timeout := Some t\<rparr>)" for t using assms(1) by (simp add: probe_ok_def)
    then show ?thesis using assms PPoll check
      by (fastforce simp: probe_poll_def probe_schedule_def start_poll_def Let_def split: sum.splits)
  next
    case PTimeout
    then show ?thesis using assms cleared_ok [OF assms(1)]
      by (auto simp: on_poll_timeout_def on_poll_succeed_eq [OF assms(1)] bind_eq_Some_conv cleared_def)
  next
    case (PCanRecv sid b)
    have "probe_ok (p\<lparr>recv_votes := (recv_votes p)[i := v]\<rparr>)" for i v using assms(1) by (simp add: probe_ok_def)
    then show ?thesis using assms PCanRecv check
      by (fastforce simp: probe_on_socket_can_recv_def bind_eq_Some_conv index_set_def split: option.splits if_splits)
  next
    case (PCanSend sid b)
    have "probe_ok (p\<lparr>send_votes := (send_votes p)[i := v]\<rparr>)" for i v using assms(1) by (simp add: probe_ok_def)
    then show ?thesis using assms PCanSend check
      by (fastforce simp: probe_on_socket_can_send_def bind_eq_Some_conv index_set_def split: option.splits if_splits)
  qed
qed

lemma probe_effects_queue:
  assumes "perform_probe_effects tm es c = Some c'" and "evbus_ok (pc_bus c)"
  shows "evbus_ok (pc_bus c') \<and> (\<exists>sids. evbus_queue (pc_bus c') = evbus_queue (pc_bus c) @ map (\<lambda>sid. SocketCmd sid Poll) sids)"
  using assms
proof (induction es arbitrary: c)
  case Nil
  then show ?case by (auto intro: exI [of _ "[]"])
next
  case (Cons e es)
  then obtain c1 where c1: "perform_probe_effect tm e c = Some c1" "perform_probe_effects tm es c1 = Some c'"
    by (auto simp: bind_eq_Some_conv)
  have one: "evbus_ok (pc_bus c1) \<and> (\<exists>sids. evbus_queue (pc_bus c1) = evbus_queue (pc_bus c) @ map (\<lambda>sid. SocketCmd sid Poll) sids)"
  proof (cases e)
    case (ProbePoll sid)
    then show ?thesis using c1(1) signals.push_law [OF Cons.prems(2)]
      by (auto simp: pc_poll_def intro: exI [of _ "[_]"])
  qed (use c1(1) Cons.prems(2) in \<open>auto simp: pc_schedule_task_def pc_cancel_def bind_eq_Some_conv Let_def
      split: prod.splits option.splits intro: exI [of _ "[]"]\<close>)
  then show ?case using Cons.IH [OF c1(2)] by (metis append.assoc map_append)
qed

lemma run_probe_keeps:
  assumes ok: "dispatcher_ok good pipes d" and p: "get_probe (dp_session d) pid = Some p"
    and run: "run_probe pf d pid p (probe_step cmd) = Some d'"
  shows "dispatcher_ok good pipes d' \<and> extends d d'"
proof -
  have parts: "evbus_ok (dp_bus d)" "session_ok (dp_session d)" "collection_ok (ses_ids (dp_session d)) (dp_endpoints d)"
    "\<forall>pid p. get_probe (dp_session d) pid = Some p \<longrightarrow> probe_ok p"
    using ok by (simp_all add: dispatcher_ok_def)
  let ?c = "\<lparr>pc_probe_id = pid, pc_bus = dp_bus d, pc_schedule = dp_schedule d, pc_timer = dp_timer d\<rparr>"
  obtain p' ctx c' where step: "probe_step cmd p (probe_adapter_ctx (pf_timer pf) ?c) = Some (p', ctx)"
    and perf: "perform_probe_effects (pf_timer pf) (probe_trace ctx) ?c = Some c'"
    and d': "d' = d\<lparr>dp_bus := pc_bus c', dp_schedule := pc_schedule c', dp_timer := pc_timer c',
       dp_session := (dp_session d)\<lparr>
         ses_probes := (ses_probes (dp_session d))\<lparr>pc_probes := (pc_probes (ses_probes (dp_session d)))(pid \<mapsto> p')\<rparr>,
         ses_log := ses_log (dp_session d) @ map (ProbeOut pid) (filter (\<lambda>e. \<exists>r. e = ProbeReply r) (probe_trace ctx))\<rparr>\<rparr>"
    using run by (auto simp: run_probe_def bind_eq_Some_conv Let_def)
  have p': "probe_ok p'" "poll_opts p' = poll_opts p" using probe_step_keeps [OF _ step] parts(4) p by auto
  have known: "pc_probes (ses_probes (dp_session d)) pid = Some p" using p by (simp add: get_probe_def collection_get_probe_def)
  obtain sids where bus: "evbus_ok (pc_bus c')"
    "evbus_queue (pc_bus c') = evbus_queue (dp_bus d) @ map (\<lambda>sid. SocketCmd sid Poll) sids"
    using probe_effects_queue [OF perf] parts(1) by auto
  have links: "probe_links_ok (ses_probes (dp_session d'))"
    using parts(2) known p'(2) unfolding session_ok_def probe_links_ok_def d' get_socket_ids_def by fastforce
  have "session_ok (dp_session d')"
    using parts(2) known links by (simp add: session_ok_def used_ids_def created_ids_def d' insert_absorb domI)
  then show ?thesis
    using parts(3,4) bus p'(1)
    by (intro quiet_ok [OF ok, where sigs = "map (\<lambda>sid. SocketCmd sid Poll) sids"])
      (auto simp: d' get_probe_def collection_get_probe_def)
qed

lemma apply_on_probe_keeps:
  assumes "dispatcher_ok good pipes d" and "apply_on_probe pf d pid (probe_step cmd) = Some d'"
  shows "dispatcher_ok good pipes d' \<and> extends d d'"
  using assms run_probe_keeps [OF assms(1)] by (auto simp: apply_on_probe_def split: option.splits)

lemma probe_link_keeps:
  assumes "dispatcher_ok good pipes d" and "apply_on_probe_link pf d sid (probe_step cmd) = Some d'"
  shows "dispatcher_ok good pipes d' \<and> extends d d'"
proof (cases "find_probe (dp_session d) sid")
  case (Some q)
  then obtain pid p where q: "q = (pid, p)" "get_probe (dp_session d) pid = Some p"
    by (auto simp: find_probe_def collection_find_probe_def get_probe_def collection_get_probe_def split: option.splits)
  show ?thesis
    using assms(2) Some q by (intro run_probe_keeps [OF assms(1) q(2)]) (simp add: apply_on_probe_link_def)
qed (use assms in \<open>simp add: apply_on_probe_link_def\<close>)

end
