(* ===== verification/Reactor_Steps.thy ===== *)
theory Reactor_Steps
  imports Reactor_Parts
begin

text \<open>
  Each input of the event loop keeps its invariant: requests, signals, ticks and notifications.
\<close>

section \<open>Sockets, devices and probes come and go\<close>

lemma session_change_ok:
  assumes ok: "dispatcher_ok good pipes d" and step: "session_step x (dp_session d) = Some ses"
    and sockets: "\<And>sid s. ses_sockets ses sid = Some s \<Longrightarrow> ses_sockets (dp_session d) sid = Some s \<or>
      socket_ok good pipes s \<and> held pipes s = {}"
    and probes: "\<And>pid p. get_probe ses pid = Some p \<Longrightarrow> get_probe (dp_session d) pid = Some p \<or> probe_ok p"
  shows "dispatcher_ok good pipes (d\<lparr>dp_session := ses\<rparr>)"
proof -
  have parts: "evbus_ok (dp_bus d)" "session_ok (dp_session d)" "collection_ok (ses_ids (dp_session d)) (dp_endpoints d)"
    "\<forall>pid p. get_probe (dp_session d) pid = Some p \<longrightarrow> probe_ok p"
    using ok by (simp_all add: dispatcher_ok_def)
  have ses: "session_ok ses" "ses_ids (dp_session d) \<le> ses_ids ses"
    using session_step_keeps [OF parts(2) step] by simp_all
  have "sockets_ok good pipes (d\<lparr>dp_session := ses\<rparr>)"
    unfolding sockets_ok_def
  proof (intro allI impI)
    fix i t
    assume "get_socket (dp_session (d\<lparr>dp_session := ses\<rparr>)) i = Some t \<and> \<not> closing (d\<lparr>dp_session := ses\<rparr>) i"
    then have t: "ses_sockets ses i = Some t" "\<not> closing d i" by (simp_all add: get_socket_def closing_def)
    have "socket_ok good pipes t \<and> held pipes t \<subseteq> {..<ses_ids (dp_session d)}"
      using sockets [OF t(1)] dispatcher_ok_socketD(1,2) [OF ok _ t(2)] by (auto simp: get_socket_def)
    then show "socket_ok good pipes t \<and> held pipes t \<subseteq> {..<ses_ids (dp_session (d\<lparr>dp_session := ses\<rparr>))}"
      using ses(2) by auto
  qed
  then show ?thesis
    using parts(1,3,4) ses probes collection_ok_mono by (auto simp: dispatcher_ok_def)
qed

lemma add_socket_keeps:
  assumes "dispatcher_ok good pipes d" and "add_socket (dp_session d) ctor = Some ses" and "good ctor" "pipes ctor = Map.empty"
  shows "dispatcher_ok good pipes (d\<lparr>dp_session := ses\<rparr>)"
proof (rule session_change_ok [OF assms(1), of "AddSocket ctor"])
  have new: "socket_ok good pipes (socket_new i ctor) \<and> held pipes (socket_new i ctor) = {}" for i
    using assms(3,4) by (simp add: socket_ok_def held_def socket_new_def pipes_ok_def config_default_def)
  show "ses_sockets (dp_session d) sid = Some s \<or> socket_ok good pipes s \<and> held pipes s = {}"
    if "ses_sockets ses sid = Some s" for sid s
    using assms(2) that new by (auto simp: session_defs bind_eq_Some_conv split: if_splits)
qed (use assms(2) in \<open>auto simp: session_defs bind_eq_Some_conv get_probe_def\<close>)

lemma add_device_keeps:
  assumes "dispatcher_ok good pipes d" and "add_device (dp_session d) l r = Some ses"
  shows "dispatcher_ok good pipes (d\<lparr>dp_session := ses\<rparr>)"
  using assms(2)
  by (intro session_change_ok [OF assms(1), of "AddDevice l r"]) (auto simp: session_defs bind_eq_Some_conv get_probe_def)

lemma add_probe_keeps:
  assumes "dispatcher_ok good pipes d" and "add_probe (dp_session d) opts = Some ses"
  shows "dispatcher_ok good pipes (d\<lparr>dp_session := ses\<rparr>)"
  using assms(2)
  by (intro session_change_ok [OF assms(1), of "AddProbe opts"])
    (auto simp: session_defs bind_eq_Some_conv get_probe_def collection_get_probe_def probe_new_ok split: if_splits)

lemma remove_probe_keeps:
  assumes "dispatcher_ok good pipes d"
  shows "dispatcher_ok good pipes (d\<lparr>dp_session := remove_probe (dp_session d) pid\<rparr>)"
  by (rule session_change_ok [OF assms, of "RemoveProbe pid"])
    (auto simp: session_defs get_probe_def collection_get_probe_def split: option.splits if_splits)

lemma remove_socket_keeps:
  assumes ok: "dispatcher_ok good pipes d" and pop: "evbus_ok bus" "evbus_queue (dp_bus d) = SocketEvt sid Closed # evbus_queue bus"
  shows "dispatcher_ok good pipes (d\<lparr>dp_bus := bus, dp_session := remove_socket (dp_session d) sid\<rparr>)"
proof -
  let ?e = "d\<lparr>dp_session := remove_socket (dp_session d) sid\<rparr>"
  have e: "dispatcher_ok good pipes ?e"
    by (rule session_change_ok [OF ok, of "RemoveSocket sid"]) (auto simp: session_defs get_probe_def split: if_splits)
  have gone: "get_socket (dp_session ?e) sid = None" by (simp add: remove_socket_def socket_collection_remove_def get_socket_def)
  have "sockets_ok good pipes (?e\<lparr>dp_bus := bus\<rparr>)"
    unfolding sockets_ok_def
  proof (intro allI impI)
    fix i t
    assume t: "get_socket (dp_session (?e\<lparr>dp_bus := bus\<rparr>)) i = Some t \<and> \<not> closing (?e\<lparr>dp_bus := bus\<rparr>) i"
    then have "i \<noteq> sid" using gone by auto
    then have "\<not> closing ?e i" using t pop(2) by (simp add: closing_def)
    with t dispatcher_ok_socketD(1,2) [OF e, of i t]
    show "socket_ok good pipes t \<and> held pipes t \<subseteq> {..<ses_ids (dp_session (?e\<lparr>dp_bus := bus\<rparr>))}" by simp
  qed
  then have "dispatcher_ok good pipes (?e\<lparr>dp_bus := bus\<rparr>)" using e pop(1) by (simp add: dispatcher_ok_def)
  moreover have "?e\<lparr>dp_bus := bus\<rparr> = d\<lparr>dp_bus := bus, dp_session := remove_socket (dp_session d) sid\<rparr>" by (cases d) simp
  ultimately show ?thesis by simp
qed

lemma pop_keeps:
  assumes ok: "dispatcher_ok good pipes d" and recv: "evbus_recv (dp_bus d) = (r, bus)"
  shows "evbus_ok bus"
    and "r = Some sig \<Longrightarrow> evbus_queue (dp_bus d) = sig # evbus_queue bus"
    and "\<forall>sid. r \<noteq> Some (SocketEvt sid Closed) \<Longrightarrow> dispatcher_ok good pipes (d\<lparr>dp_bus := bus\<rparr>) \<and> extends d (d\<lparr>dp_bus := bus\<rparr>)"
proof -
  have bus: "evbus_ok (dp_bus d)" using ok by (simp add: dispatcher_ok_def)
  have law: "evbus_ok bus" "(case evbus_queue (dp_bus d) of [] \<Rightarrow> r = None \<and> evbus_queue bus = []
      | m # ms \<Rightarrow> r = Some m \<and> evbus_queue bus = ms)"
    using signals.take_law [OF bus, unfolded recv fst_conv snd_conv] by simp_all
  then show "evbus_ok bus" "r = Some sig \<Longrightarrow> evbus_queue (dp_bus d) = sig # evbus_queue bus"
    by (auto split: list.splits)
  assume "\<forall>sid. r \<noteq> Some (SocketEvt sid Closed)"
  then have closing: "closing (d\<lparr>dp_bus := bus\<rparr>) i = closing d i" for i
    using law(2) by (auto simp: closing_def split: list.splits)
  have "sockets_ok good pipes (d\<lparr>dp_bus := bus\<rparr>)"
    using ok closing by (simp add: dispatcher_ok_def sockets_ok_def)
  then show "dispatcher_ok good pipes (d\<lparr>dp_bus := bus\<rparr>) \<and> extends d (d\<lparr>dp_bus := bus\<rparr>)"
    using ok law(1) closing by (simp add: dispatcher_ok_def extends_def)
qed

lemma insert_pipe_keeps:
  assumes ok: "dispatcher_ok good pipes d"
    and ins: "ec_insert_pipe (ses_ids (dp_session d)) (dp_endpoints d) sid pipe = Some (eid, seq, eps)"
  defines "d' \<equiv> d\<lparr>dp_session := (dp_session d)\<lparr>ses_ids := seq\<rparr>, dp_endpoints := eps\<rparr>"
  shows "dispatcher_ok good pipes d' \<and> extends d d'" and "eid = ses_ids (dp_session d)" "eid < ses_ids (dp_session d')"
proof -
  have parts: "evbus_ok (dp_bus d)" "session_ok (dp_session d)" "collection_ok (ses_ids (dp_session d)) (dp_endpoints d)"
    "\<forall>pid p. get_probe (dp_session d) pid = Some p \<longrightarrow> probe_ok p"
    using ok by (simp_all add: dispatcher_ok_def)
  have new: "eid = ses_ids (dp_session d)" "ses_ids (dp_session d) < seq" "collection_ok seq eps"
    using collection_new_ok(1) [OF parts(3) ins] by simp_all
  then show "eid = ses_ids (dp_session d)" "eid < ses_ids (dp_session d')" by (simp_all add: d'_def)
  have "session_ok ((dp_session d)\<lparr>ses_ids := seq\<rparr>)"
    using parts(2) new(2) by (auto simp: session_ok_def used_ids_def created_ids_def dest: order.strict_trans)
  then show "dispatcher_ok good pipes d' \<and> extends d d'"
    using parts new by (intro quiet_ok [OF ok, where sigs = "[]"]) (auto simp: d'_def get_probe_def)
qed

context protocol
begin

lemma accept_pipes_keep:
  assumes "dispatcher_ok good pipes d" and pf: "pf_protocol pf = ops" "enumerates (pf_hash pf)"
    and "\<not> closing d sid" and "accept_pipes pf sid aid ps d = Some d'"
  shows "dispatcher_ok good pipes d'"
  using assms(1,4,5)
proof (induction ps arbitrary: d)
  case (Cons pipe ps)
  obtain eid seq eps d2 where ins: "ec_insert_pipe (ses_ids (dp_session d)) (dp_endpoints d) sid pipe = Some (eid, seq, eps)"
    and run: "apply_on_socket pf (d\<lparr>dp_session := (dp_session d)\<lparr>ses_ids := seq\<rparr>, dp_endpoints := eps\<rparr>) sid
      (call pf (SPipeAccepted aid eid)) = Some d2" and rest: "accept_pipes pf sid aid ps d2 = Some d'"
    using Cons.prems(3) by (auto simp: bind_eq_Some_conv)
  let ?d = "d\<lparr>dp_session := (dp_session d)\<lparr>ses_ids := seq\<rparr>, dp_endpoints := eps\<rparr>"
  note new = insert_pipe_keeps [OF Cons.prems(1) ins]
  have open_socket: "\<not> closing ?d sid" using new(1) Cons.prems(2) by (simp add: extends_def)
  have fresh: "fresh_eid pipes s eid" if s: "get_socket (dp_session ?d) sid = Some s" for s
  proof -
    have "get_socket (dp_session d) sid = Some s" using s by (simp add: get_socket_def)
    from dispatcher_ok_socketD(2) [OF Cons.prems(1) this Cons.prems(2)] show ?thesis
      using new(2) by (auto simp: fresh_eid_def held_def)
  qed
  have legal: "call_legal pipes admits pf ?d sid (SPipeAccepted aid eid)"
    using open_socket by (simp add: call_legal_def)
  have "dispatcher_ok good pipes d2 \<and> extends ?d d2"
  proof (rule call_keeps [OF _ pf legal _ run])
    show "dispatcher_ok good pipes ?d" using new(1) by blast
    show "e < ses_ids (dp_session ?d) \<and> (\<forall>s. get_socket (dp_session ?d) sid = Some s \<longrightarrow> fresh_eid pipes s e)"
      if "SPipeAccepted aid eid = SPipeAccepted a e" for a e
      using that new(3) fresh by simp
  qed
  then show ?case using Cons.IH [OF _ _ rest] open_socket by (simp add: extends_def)
qed simp

end

section \<open>The inputs\<close>

definition calls_legal ::
  "('p \<Rightarrow> pipe_collection) \<Rightarrow> ('p \<Rightarrow> proto_cmd \<Rightarrow> bool) \<Rightarrow> ('p, 'e, 'a, 'tm) platform \<Rightarrow> ('p, 'e, 'a, 'tm, 'w) dispatcher \<Rightarrow>
   (socket_id \<times> socket_cmd) list \<Rightarrow> bool" where
  "calls_legal pipes admits pf d calls \<longleftrightarrow> list_all (\<lambda>(sid, cmd). call_legal pipes admits pf d sid cmd) calls"

fun creation_legal :: "('p \<Rightarrow> bool) \<Rightarrow> ('p \<Rightarrow> pipe_collection) \<Rightarrow> 'p request \<Rightarrow> bool" where
  "creation_legal good pipes (SessionRequest (CreateSocket ctor)) \<longleftrightarrow> good ctor \<and> pipes ctor = Map.empty"
| "creation_legal good pipes (SessionRequest (CreateDevice l r)) \<longleftrightarrow> l \<noteq> r"
| "creation_legal good pipes _ \<longleftrightarrow> True"

fun input_legal ::
  "('p \<Rightarrow> bool) \<Rightarrow> ('p \<Rightarrow> pipe_collection) \<Rightarrow> ('p \<Rightarrow> proto_cmd \<Rightarrow> bool) \<Rightarrow> ('p, 'e, 'a, 'tm) platform \<Rightarrow>
   'p dispatcher_input \<Rightarrow> ('p, 'e, 'a, 'tm, 'w) dispatcher \<Rightarrow> bool" where
  "input_legal good pipes admits pf (OnRequest r) d \<longleftrightarrow> creation_legal good pipes r \<and>
     calls_legal pipes admits pf d (request_calls r) \<and> (\<forall>sid \<in> request_targets r. \<not> closing d sid)"
| "input_legal good pipes admits pf OnSignal d \<longleftrightarrow>
     (case evbus_recv (dp_bus d) of
        (Some sig, bus) \<Rightarrow> calls_legal pipes admits pf (d\<lparr>dp_bus := bus\<rparr>) (signal_calls sig) \<and>
          (\<forall>sid \<in> signal_targets sig. \<not> closing d sid)
      | (None, _) \<Rightarrow> True)"
| "input_legal good pipes admits pf (OnTick task) d \<longleftrightarrow> calls_legal pipes admits pf d (task_calls task)"
| "input_legal good pipes admits pf (OnReady token events) d \<longleftrightarrow> True"

fun inputs_legal ::
  "('p \<Rightarrow> bool) \<Rightarrow> ('p \<Rightarrow> pipe_collection) \<Rightarrow> ('p \<Rightarrow> proto_cmd \<Rightarrow> bool) \<Rightarrow> ('p, 'e, 'a, 'tm) platform \<Rightarrow>
   'p dispatcher_input list \<Rightarrow> ('p, 'e, 'a, 'tm, 'w) dispatcher \<Rightarrow> bool" where
  "inputs_legal good pipes admits pf [] d \<longleftrightarrow> True"
| "inputs_legal good pipes admits pf (i # is) d \<longleftrightarrow> input_legal good pipes admits pf i d \<and>
     (case dispatcher_step pf i d of Some d' \<Rightarrow> inputs_legal good pipes admits pf is d' | None \<Rightarrow> True)"

lemma apply_on_socket_others:
  assumes "apply_on_socket pf d sid f = Some d'" and "i \<noteq> sid"
  shows "get_socket (dp_session d') i = get_socket (dp_session d) i"
  using assms by (auto simp: apply_on_socket_def give_back_def get_socket_def bind_eq_Some_conv Let_def split: option.splits)

lemma calls_legal_simps [simp]:
  "calls_legal pipes admits pf d [] \<longleftrightarrow> True"
  "calls_legal pipes admits pf d ((sid, cmd) # cs) \<longleftrightarrow> call_legal pipes admits pf d sid cmd \<and> calls_legal pipes admits pf d cs"
  by (simp_all add: calls_legal_def)

context protocol
begin

text \<open>Every call but the one that hands over an accepted pipe.\<close>

lemma plain_call_keeps:
  assumes "dispatcher_ok good pipes d" and "pf_protocol pf = ops" "enumerates (pf_hash pf)"
    and "call_legal pipes admits pf d sid cmd" and "\<And>a e. cmd \<noteq> SPipeAccepted a e"
    and "apply_on_socket pf d sid (call pf cmd) = Some d'"
  shows "dispatcher_ok good pipes d' \<and> extends d d'"
  by (rule call_keeps [OF assms(1-4) _ assms(6)]) (use assms(5) in simp)

lemma create_device_keeps:
  assumes ok: "dispatcher_ok good pipes d" and pf: "pf_protocol pf = ops" "enumerates (pf_hash pf)" and "l \<noteq> r"
    and legal: "call_legal pipes admits pf d l SDevicePlugged" "call_legal pipes admits pf d r SDevicePlugged"
    and run: "process_session_request pf d (CreateDevice l r) = Some d'"
  shows "dispatcher_ok good pipes d'"
proof -
  obtain d1 d2 ses where d1: "apply_on_socket pf d l (call pf SDevicePlugged) = Some d1"
    and d2: "apply_on_socket pf d1 r (call pf SDevicePlugged) = Some d2"
    and ses: "add_device (dp_session d2) l r = Some ses" "d' = d2\<lparr>dp_session := ses\<rparr>"
    using run by (auto simp: bind_eq_Some_conv)
  have one: "dispatcher_ok good pipes d1" "extends d d1" using plain_call_keeps [OF ok pf legal(1) _ d1] by simp_all
  have "get_socket (dp_session d1) r = get_socket (dp_session d) r" using apply_on_socket_others [OF d1] assms(4) by simp
  then have "call_legal pipes admits pf d1 r SDevicePlugged"
    using legal(2) one(2) by (simp add: call_legal_def extends_def)
  then have "dispatcher_ok good pipes d2" using plain_call_keeps [OF one(1) pf _ _ d2] by simp
  then show ?thesis using add_device_keeps ses by blast
qed

lemma process_request_keeps:
  assumes ok: "dispatcher_ok good pipes d" and pf: "pf_protocol pf = ops" "enumerates (pf_hash pf)"
    and legal: "input_legal good pipes admits pf (OnRequest req) d" and run: "process_request pf req d = Some d'"
  shows "dispatcher_ok good pipes d'"
proof (cases req)
  case (SessionRequest r)
  then show ?thesis
  proof (cases r)
    case (CreateSocket ctor)
    then show ?thesis using SessionRequest run legal add_socket_keeps [OF ok] by (auto simp: bind_eq_Some_conv)
  next
    case (CreateDevice l r)
    then show ?thesis using SessionRequest run legal create_device_keeps [OF ok pf, of l r] by simp
  next
    case (CreateProbe opts)
    then show ?thesis using SessionRequest run add_probe_keeps [OF ok] by (auto simp: bind_eq_Some_conv)
  next
    case SessionShutdown
    then show ?thesis using SessionRequest run quiet_ok [OF ok, of d' "[]"] ok by (auto simp: dispatcher_ok_def)
  qed
next
  case (SocketRequest sid r)
  note plain = plain_call_keeps [OF ok pf]
  show ?thesis
  proof (cases r)
    case (RequestSend msg now)
    then show ?thesis using SocketRequest run legal by (cases now) (auto dest!: plain)
  next
    case (RequestRecv now)
    then show ?thesis using SocketRequest run legal by (cases now) (auto dest!: plain)
  next
    case RequestClose
    then show ?thesis using SocketRequest run legal close_keeps [OF ok pf, of sid d'] by simp
  qed (use SocketRequest run legal in \<open>auto dest!: plain\<close>)
next
  case (EndpointRequest sid eid r)
  then show ?thesis using run legal plain_call_keeps [OF ok pf] by (cases r) (auto split: if_splits)
next
  case (DeviceRequest did r)
  then show ?thesis using run device_check_keeps [OF ok] ok by (cases r) auto
next
  case (ProbeRequest pid r)
  have "(\<lambda>p ctx. probe_poll p ctx t) = probe_step (PPoll t)" for t by (intro ext) simp
  then show ?thesis
    using ProbeRequest run remove_probe_keeps [OF ok] apply_on_probe_keeps [OF ok, of pf pid "PPoll _"] by (cases r) auto
qed

lemma process_tick_keeps:
  assumes ok: "dispatcher_ok good pipes d" and pf: "pf_protocol pf = ops" "enumerates (pf_hash pf)"
    and legal: "calls_legal pipes admits pf d (task_calls task)" and run: "process_tick pf task d = Some d'"
  shows "dispatcher_ok good pipes d'"
proof (cases task)
  case (SocketTask sid t)
  then show ?thesis using run legal by (cases t) (auto dest!: plain_call_keeps [OF ok pf])
next
  case (ProbeTask pid t)
  have "probe_step PTimeout = on_poll_timeout" by (intro ext) simp
  then show ?thesis using ProbeTask run apply_on_probe_keeps [OF ok, of pf pid PTimeout] by (cases t) auto
qed

lemma process_pipe_evt_keeps:
  assumes ok: "dispatcher_ok good pipes d" and pf: "pf_protocol pf = ops" "enumerates (pf_hash pf)"
    and legal: "calls_legal pipes admits pf d (signal_calls (PipeEvt sid eid evt))"
    and run: "process_pipe_evt pf d sid eid evt = Some d'"
  shows "dispatcher_ok good pipes d'"
proof (cases evt)
  case PipeClosed
  then have "d' = d\<lparr>dp_endpoints := ec_remove_pipe (dp_endpoints d) eid\<rparr>" using run by simp
  then show ?thesis using ok
    by (auto simp: dispatcher_ok_def sockets_ok_def closing_def collection_ok_def ec_remove_pipe_def)
qed (use run legal in \<open>auto dest!: plain_call_keeps [OF ok pf]\<close>)

lemma process_socket_evt_keeps:
  assumes ok: "dispatcher_ok good pipes d" and "evt \<noteq> Closed" and run: "process_socket_evt pf d sid evt = Some d'"
  shows "dispatcher_ok good pipes d'"
proof (cases evt)
  case (CanRecv x)
  have "(\<lambda>p ctx. probe_on_socket_can_recv p ctx sid x) = probe_step (PCanRecv sid x)" by (intro ext) simp
  then show ?thesis
    using run CanRecv probe_link_keeps [OF conjunct1 [OF device_link_keeps [OF ok, of sid x]], of pf sid "PCanRecv sid x" d'] by simp
next
  case (CanSend x)
  have "(\<lambda>p ctx. probe_on_socket_can_send p ctx sid x) = probe_step (PCanSend sid x)" by (intro ext) simp
  then show ?thesis using run CanSend probe_link_keeps [OF ok, of pf sid "PCanSend sid x" d'] by simp
qed (use assms in simp)

lemma on_signal_keeps:
  assumes ok: "dispatcher_ok good pipes d" and pf: "pf_protocol pf = ops" "enumerates (pf_hash pf)"
    and legal: "input_legal good pipes admits pf OnSignal d" and run: "dispatcher_step pf OnSignal d = Some d'"
  shows "dispatcher_ok good pipes d'"
proof -
  obtain r bus where recv: "evbus_recv (dp_bus d) = (r, bus)" by (cases "evbus_recv (dp_bus d)")
  show ?thesis
  proof (cases "\<exists>sid. r = Some (SocketEvt sid Closed)")
    case True
    then obtain sid where r: "r = Some (SocketEvt sid Closed)" by blast
    then show ?thesis using run recv remove_socket_keeps [OF ok pop_keeps(1) [OF ok recv] pop_keeps(2) [OF ok recv r]] by simp
  next
    case False
    then have popped: "dispatcher_ok good pipes (d\<lparr>dp_bus := bus\<rparr>)" "extends d (d\<lparr>dp_bus := bus\<rparr>)"
      using pop_keeps(3) [OF ok recv] by simp_all
    let ?d = "d\<lparr>dp_bus := bus\<rparr>"
    show ?thesis
    proof (cases r)
      case None
      then show ?thesis using run recv popped(1) by simp
    next
      case (Some sig)
      have sig: "process_signal pf sig ?d = Some d'" "calls_legal pipes admits pf ?d (signal_calls sig)"
          "\<forall>sid \<in> signal_targets sig. \<not> closing ?d sid"
        using run legal recv Some popped(2) by (auto simp: extends_def)
      show ?thesis
      proof (cases sig)
        case (PipeCmd sid eid cmd)
        then show ?thesis using sig(1) process_pipe_cmd_keeps [OF popped(1), of pf eid cmd] by simp
      next
        case (AcceptorCmd sid eid cmd)
        then show ?thesis using sig(1) process_acceptor_cmd_keeps [OF popped(1), of pf eid cmd] by simp
      next
        case (SocketCmd sid cmd)
        then show ?thesis using sig(1,2) plain_call_keeps [OF popped(1) pf, of sid SPoll]
          by (cases cmd) (simp add: process_socket_cmd_def)
      next
        case (PipeEvt sid eid evt)
        then show ?thesis using sig(1,2) process_pipe_evt_keeps [OF popped(1) pf, of sid eid evt] by simp
      next
        case (AcceptorEvt sid aid evt)
        then show ?thesis
          using sig popped(1) accept_pipes_keep [OF popped(1) pf, of sid aid] plain_call_keeps [OF popped(1) pf, of sid]
          by (cases evt) auto
      next
        case (SocketEvt sid evt)
        then show ?thesis using sig(1) False Some process_socket_evt_keeps [OF popped(1), of evt pf sid] by auto
      qed
    qed
  qed
qed

lemma dispatcher_step_keeps:
  assumes "dispatcher_ok good pipes d" and "pf_protocol pf = ops" "enumerates (pf_hash pf)"
    and "input_legal good pipes admits pf i d" and "dispatcher_step pf i d = Some d'"
  shows "dispatcher_ok good pipes d'"
proof (cases i)
  case (OnReady token events)
  then show ?thesis using assms process_io_keeps [OF assms(1)] by simp
qed (use assms process_request_keeps process_tick_keeps on_signal_keeps in \<open>simp_all del: input_legal.simps(1,2) dispatcher_step.simps(2)\<close>)

lemma dispatcher_inputs_keep:
  assumes "dispatcher_ok good pipes d" and "pf_protocol pf = ops" "enumerates (pf_hash pf)"
    and "inputs_legal good pipes admits pf is d" and "dispatcher_inputs pf is d = Some d'"
  shows "dispatcher_ok good pipes d'"
  using assms(1,4,5)
proof (induction "is" arbitrary: d)
  case (Cons i "is")
  then obtain d1 where d1: "dispatcher_step pf i d = Some d1" "dispatcher_inputs pf is d1 = Some d'"
    by (auto simp: bind_eq_Some_conv)
  then have "inputs_legal good pipes admits pf is d1" "input_legal good pipes admits pf i d" using Cons.prems(2) by simp_all
  with dispatcher_step_keeps [OF Cons.prems(1) assms(2,3) _ d1(1)] Cons.IH d1(2) show ?case by blast
qed simp

end

lemma session_new_empty: "get_socket (session_new n) sid = None" "get_probe (session_new n) pid = None"
  by (simp_all add: get_socket_def get_probe_def collection_get_probe_def session_new_def socket_collection_new_def
      probe_collection_new_def)

lemma dispatcher_new_ok: "dispatcher_ok good pipes (dispatcher_new transports clock w)"
  by (simp add: dispatcher_ok_def dispatcher_new_def session_new_ok sockets_ok_def collection_ok_def endpoint_collection_new_def
      session_new_empty)

end
