(* ===== verification/Event_Loop.thy ===== *)
theory Event_Loop
  imports Reactor_Steps
begin

text \<open>
  The event loop as a whole (\<open>src/reactor/event_loop.rs\<close>, \<open>src/reactor/dispatcher.rs\<close>): its loops as
  sequences of inputs, how it ends, what a request to connect and accepted connections do, and its invariant over the
  sockets of all ten protocols.
\<close>

section \<open>Draining the bus\<close>

lemma evbus_recv_empty: "evbus_recv b = (None, b') \<Longrightarrow> b' = b \<and> evbus_queue b = []"
  by (auto simp: evbus_recv_def set_readiness_def Let_def split: list.splits option.splits if_splits)

lemma evbus_recv_Nil [simp]: "evbus_queue b = [] \<Longrightarrow> evbus_recv b = (None, b)"
  by (simp add: evbus_recv_def)

lemma dispatcher_inputs_append:
  "dispatcher_inputs pf (xs @ ys) d = do { d' \<leftarrow> dispatcher_inputs pf xs d; dispatcher_inputs pf ys d' }"
  by (induction xs arbitrary: d) (simp_all split: Option.bind_split)

lemma process_bus_is_a_run:
  assumes "process_bus pf d = Some d'"
  shows "\<exists>n. dispatcher_inputs pf (replicate n OnSignal) d = Some d' \<and> evbus_queue (dp_bus d') = []"
proof (rule process_bus.raw_induct [where P = "\<lambda>pf d d'. \<exists>n. dispatcher_inputs pf (replicate n OnSignal) d = Some d' \<and>
    evbus_queue (dp_bus d') = []", OF _ assms])
  fix f :: "('a, 'b, 'c, 'd) platform \<Rightarrow> ('a, 'b, 'c, 'd, 'e) dispatcher \<Rightarrow> ('a, 'b, 'c, 'd, 'e) dispatcher option"
    and pf :: "('a, 'b, 'c, 'd) platform" and d :: "('a, 'b, 'c, 'd, 'e) dispatcher" and d'
  assume IH: "\<And>pf d d'. f pf d = Some d' \<Longrightarrow>
      \<exists>n. dispatcher_inputs pf (replicate n OnSignal) d = Some d' \<and> evbus_queue (dp_bus d') = []"
    and eq: "(case evbus_recv (dp_bus d) of
        (Some sig, bus) \<Rightarrow> do { d' \<leftarrow> process_signal pf sig (d\<lparr>dp_bus := bus\<rparr>); f pf d' }
      | (None, bus) \<Rightarrow> Some (d\<lparr>dp_bus := bus\<rparr>)) = Some d'"
  obtain r bus where recv: "evbus_recv (dp_bus d) = (r, bus)" by (cases "evbus_recv (dp_bus d)")
  show "\<exists>n. dispatcher_inputs pf (replicate n OnSignal) d = Some d' \<and> evbus_queue (dp_bus d') = []"
  proof (cases r)
    case None
    then have "d' = d" "evbus_queue (dp_bus d) = []" using eq recv evbus_recv_empty [of "dp_bus d" bus] by auto
    then show ?thesis by (intro exI [of _ 0]) simp
  next
    case (Some sig)
    then obtain d1 where d1: "process_signal pf sig (d\<lparr>dp_bus := bus\<rparr>) = Some d1" "f pf d1 = Some d'"
      using eq recv by (auto simp: bind_eq_Some_conv)
    then obtain n where "dispatcher_inputs pf (replicate n OnSignal) d1 = Some d'" "evbus_queue (dp_bus d') = []"
      using IH by blast
    then show ?thesis using d1(1) recv Some by (intro exI [of _ "Suc n"]) simp
  qed
qed

lemma run_is_process_bus:
  assumes "dispatcher_inputs pf (replicate n OnSignal) d = Some d'" and "evbus_queue (dp_bus d') = []"
  shows "process_bus pf d = Some d'"
  using assms(1)
proof (induction n arbitrary: d)
  case 0
  then show ?case using assms(2) by (subst process_bus.simps) simp
next
  case (Suc n)
  then obtain d1 where d1: "dispatcher_step pf OnSignal d = Some d1" "dispatcher_inputs pf (replicate n OnSignal) d1 = Some d'"
    by (auto simp: bind_eq_Some_conv simp del: dispatcher_step.simps)
  have rest: "process_bus pf d1 = Some d'" by (rule Suc.IH [OF d1(2)])
  obtain r bus where recv: "evbus_recv (dp_bus d) = (r, bus)" by (cases "evbus_recv (dp_bus d)")
  show ?case
  proof (cases r)
    case None
    then have "d1 = d" using d1(1) recv evbus_recv_empty [of "dp_bus d" bus] by auto
    then show ?thesis using rest by simp
  next
    case (Some sig)
    then show ?thesis using d1(1) recv rest by (subst process_bus.simps) simp
  qed
qed

text \<open>
  Draining the bus is handling its signals one at a time: the loop returns exactly when some
  number of steps empties the bus, and with the state these steps lead to.
\<close>

lemma bus_drained_step_by_step:
  "process_bus pf d = Some d' \<longleftrightarrow>
     (\<exists>n. dispatcher_inputs pf (replicate n OnSignal) d = Some d' \<and> evbus_queue (dp_bus d') = [])"
  using process_bus_is_a_run run_is_process_bus by blast

section \<open>Shutting down\<close>

text \<open>What no handler but the one of the channel touches.\<close>

definition loop_kept :: "('p, 'e, 'a, 'tm, 'w) dispatcher \<Rightarrow> ('p, 'e, 'a, 'tm, 'w) dispatcher \<Rightarrow> bool" where
  "loop_kept d d' \<longleftrightarrow> dp_running d' = dp_running d \<and> dp_channel d' = dp_channel d"

lemma loop_kept_trans: "loop_kept a b \<Longrightarrow> loop_kept b c \<Longrightarrow> loop_kept a c"
  by (simp add: loop_kept_def)

lemma loop_kept_updates [simp]:
  "loop_kept d d" "loop_kept d (d\<lparr>dp_bus := b\<rparr>)" "loop_kept d (d\<lparr>dp_timer := t\<rparr>)" "loop_kept d (d\<lparr>dp_session := s\<rparr>)"
  "loop_kept d (d\<lparr>dp_endpoints := c\<rparr>)" "loop_kept (d\<lparr>dp_bus := b\<rparr>) d' = loop_kept d d'" "loop_kept (d\<lparr>dp_timer := t\<rparr>) d' = loop_kept d d'"
  "loop_kept (d\<lparr>dp_session := s, dp_endpoints := c\<rparr>) d' = loop_kept d d'"
  by (simp_all add: loop_kept_def)

lemma apply_on_socket_kept: "apply_on_socket pf d sid f = Some d' \<Longrightarrow> loop_kept d d'"
  by (auto simp: apply_on_socket_def give_back_def loop_kept_def bind_eq_Some_conv Let_def split: option.splits)

lemma put_device_kept [simp]: "loop_kept d (put_device d did r)"
  by (simp add: put_device_def loop_kept_def split: prod.split)

lemma apply_on_device_kept [simp]:
  "loop_kept d (apply_on_device d did f)" "loop_kept d (apply_on_device_link d sid f)"
  by (simp_all add: apply_on_device_def apply_on_device_link_def split: option.split)

lemma run_probe_kept: "run_probe pf d pid p f = Some d' \<Longrightarrow> loop_kept d d'"
  by (auto simp: run_probe_def loop_kept_def bind_eq_Some_conv Let_def)

lemma apply_on_probe_kept:
  "apply_on_probe pf d pid f = Some d' \<Longrightarrow> loop_kept d d'"
  "apply_on_probe_link pf d sid f = Some d' \<Longrightarrow> loop_kept d d'"
  by (auto simp: apply_on_probe_def apply_on_probe_link_def split: option.splits dest: run_probe_kept)

lemmas calls_kept = apply_on_socket_kept apply_on_probe_kept

lemma process_request_kept:
  assumes "process_request pf r d = Some d'"
  shows "(dp_running d' \<longleftrightarrow> dp_running d \<and> r \<noteq> SessionRequest SessionShutdown) \<and> dp_channel d' = dp_channel d"
proof (cases r)
  case (SessionRequest req)
  then show ?thesis using assms by (cases req) (auto simp: bind_eq_Some_conv loop_kept_def dest!: calls_kept)
next
  case (SocketRequest sid req)
  then show ?thesis using assms
    by (cases "(pf, d, sid, req)" rule: process_socket_request.cases) (auto simp: loop_kept_def dest!: calls_kept)
next
  case (EndpointRequest sid eid req)
  then show ?thesis using assms by (cases req) (auto simp: loop_kept_def dest!: calls_kept)
next
  case (DeviceRequest did req)
  then show ?thesis using assms apply_on_device_kept(1) [of d did device_check] by (cases req) (auto simp: loop_kept_def)
next
  case (ProbeRequest pid req)
  then show ?thesis using assms by (cases req) (auto simp: loop_kept_def dest!: calls_kept)
qed

lemma process_requests_running:
  assumes "process_requests pf rs d = Some d'" and "rs = dp_channel d"
  shows "(dp_running d' \<longleftrightarrow> dp_running d \<and> SessionRequest SessionShutdown \<notin> set rs) \<and> dp_channel d' = []"
  using assms
proof (induction rs arbitrary: d)
  case (Cons r rs)
  obtain d1 where d1: "process_request pf r (d\<lparr>dp_channel := rs\<rparr>) = Some d1" "process_requests pf rs d1 = Some d'"
    using Cons.prems(1) by (auto simp: bind_eq_Some_conv)
  from process_request_kept [OF d1(1)] Cons.IH [OF d1(2)] show ?case by auto
qed simp

lemma accept_pipes_kept: "accept_pipes pf sid aid ps d = Some d' \<Longrightarrow> loop_kept d d'"
  by (induction ps arbitrary: d) (auto simp: bind_eq_Some_conv dest!: apply_on_socket_kept intro: loop_kept_trans)

lemma process_signal_kept:
  assumes "process_signal pf sig d = Some d'"
  shows "loop_kept d d'"
proof (cases sig)
  case (PipeEvt sid eid evt)
  then show ?thesis using assms by (cases evt) (auto dest: calls_kept)
next
  case (AcceptorEvt sid eid evt)
  then show ?thesis using assms by (cases evt) (auto dest: calls_kept accept_pipes_kept)
next
  case (SocketEvt sid evt)
  then show ?thesis using assms by (cases evt) (auto dest!: calls_kept intro: loop_kept_trans [OF apply_on_device_kept(2)])
qed (use assms in \<open>auto simp: process_pipe_cmd_def process_acceptor_cmd_def process_socket_cmd_def loop_kept_def
    split: option.splits prod.splits context_command.splits dest!: calls_kept\<close>)

lemma process_tick_kept:
  assumes "process_tick pf task d = Some d'"
  shows "loop_kept d d'"
proof (cases task)
  case (SocketTask sid t)
  then show ?thesis using assms by (cases t) (auto dest: calls_kept)
next
  case (ProbeTask pid t)
  then show ?thesis using assms by (cases t) (auto dest: calls_kept)
qed

lemma process_bus_kept:
  assumes "process_bus pf d = Some d'"
  shows "loop_kept d d'"
proof (rule process_bus.raw_induct [where P = "\<lambda>pf d d'. loop_kept d d'", OF _ assms])
qed (auto simp: bind_eq_Some_conv split: prod.splits option.splits dest!: process_signal_kept intro: loop_kept_trans)

lemma process_timer_kept:
  assumes "process_timer pf d = Some d'"
  shows "loop_kept d d'"
proof (rule process_timer.raw_induct [where P = "\<lambda>pf d d'. loop_kept d d'", OF _ assms])
qed (auto simp: bind_eq_Some_conv split: prod.splits option.splits dest!: process_tick_kept intro: loop_kept_trans)

lemma process_io_kept: "process_io pf token events d = Some d' \<Longrightarrow> loop_kept d d'"
  by (auto simp: process_io_def bind_eq_Some_conv loop_kept_def split: option.splits prod.splits)

lemma handle_kept:
  assumes "dispatcher_handle pf (token, events) d = Some d'"
  shows "if token = CHANNEL_TOKEN
    then (dp_running d' \<longleftrightarrow> dp_running d \<and> SessionRequest SessionShutdown \<notin> set (dp_channel d)) \<and> dp_channel d' = []
    else loop_kept d d'"
  using assms process_requests_running [of pf "dp_channel d" d d']
  by (auto simp: dispatcher_handle_def process_channel_def split: if_splits
      dest: process_bus_kept process_timer_kept process_io_kept)

lemma process_events_running:
  assumes "process_events pf evs d = Some d'"
  shows "dp_running d' \<longleftrightarrow> dp_running d \<and> \<not> (SessionRequest SessionShutdown \<in> set (dp_channel d) \<and> CHANNEL_TOKEN \<in> fst ` set evs)"
  using assms
proof (induction evs arbitrary: d)
  case (Cons ev evs)
  then obtain d1 where d1: "dispatcher_handle pf ev d = Some d1" "process_events pf evs d1 = Some d'"
    by (auto simp: bind_eq_Some_conv)
  obtain token events where ev: "ev = (token, events)" by (cases ev)
  from handle_kept [OF d1(1) [unfolded ev]] Cons.IH [OF d1(2)] show ?case
    by (auto simp: ev loop_kept_def split: if_splits)
qed simp

text \<open>
  (C11) The event loop ends after the first round in which the channel is notified and a request to
  shut down is among the requests it holds, whatever else arrives in that round; and a round
  whose poll succeeds ends it for no other reason.
\<close>

theorem shutdown_ends_the_loop:
  assumes "dp_running d" and "feed n = (Inr evs, arrived)"
    and "process_events pf evs (d\<lparr>dp_channel := dp_channel d @ arrived\<rparr>) = Some d'"
  shows "event_loop_rounds pf feed n d =
    (if SessionRequest SessionShutdown \<in> set (dp_channel d @ arrived) \<and> CHANNEL_TOKEN \<in> fst ` set evs
     then Some (Inr (), d') else event_loop_rounds pf feed (Suc n) d')"
proof -
  have running: "dp_running d' \<longleftrightarrow> \<not> (SessionRequest SessionShutdown \<in> set (dp_channel d @ arrived) \<and> CHANNEL_TOKEN \<in> fst ` set evs)"
    using process_events_running [OF assms(3)] assms(1) by simp
  have round: "run_once pf (feed n) d = Some (Inr (), d')" using assms(2,3) by (simp add: run_once_def)
  show ?thesis
  proof (cases "dp_running d'")
    case True
    then show ?thesis using running round assms(1) by (subst event_loop_rounds.simps) auto
  next
    case False
    then show ?thesis using running round assms(1)
      by (subst event_loop_rounds.simps) (simp add: event_loop_rounds.simps [of _ _ "Suc n"])
  qed
qed

section \<open>Connecting\<close>

lemma connect_answer:
  assumes "transport_connect c tmpl = (r, c1)" and "unat (sc_ids c) + 1 < 2 ^ 64"
  shows "fst (net_connect (adapter_ctx tm ord c) sid tmpl) = map_sum id (\<lambda>_. sc_ids c) r"
    and "\<exists>n. sequence_next (sc_ids c) = Some (sc_ids c, n) \<and> sc_ids c < n"
proof -
  obtain w where c1: "c1 = c\<lparr>sc_world := w\<rparr>" using transport_connect_keeps [OF assms(1)] by blast
  obtain n where n: "sequence_next (sc_ids c) = Some (sc_ids c, n)" using sequence_next_room [OF assms(2)] by blast
  then show "\<exists>n. sequence_next (sc_ids c) = Some (sc_ids c, n) \<and> sc_ids c < n" using sequence_next_SomeD(2) by blast
  show "fst (net_connect (adapter_ctx tm ord c) sid tmpl) = map_sum id (\<lambda>_. sc_ids c) r"
    using assms(1) n c1
    by (cases r) (simp_all add: net_connect_def adapter_ctx_def adapter_env_def emit_def endpoint_answer_def sc_connect_def ec_insert_pipe_def)
qed

lemmas connect_effects = on_connect_success_def on_connect_error_def insert_pipe_def pipe_open_emit send_reply_def connect_pipe_def

text \<open>
  A request to connect is answered exactly once, at once. When the address, the scheme or the
  transport is at fault the answer is the error, and nothing else changes; otherwise it is the
  identifier of a new endpoint, which no endpoint had before, and which from then on is a pipe
  of the socket and of the collection, and the pipe is told to open.
\<close>

lemma connect_request_answered:
  assumes "dispatcher_ok good pipes d" and "get_socket (dp_session d) sid = Some s"
    and "unat (ses_ids (dp_session d)) + 1 < 2 ^ 64"
  shows "\<exists>d'. process_socket_request pf d sid (RequestConnect url) = Some d' \<and>
    (case fst (transport_connect (socket_context_new d sid) (create_endpoint_tmpl (pf_protocol pf) s url)) of
       Inl e \<Rightarrow> dp_replies d' = dp_replies d @ [(sid, ReplyErr e)] \<and> dp_endpoints d' = dp_endpoints d \<and>
         dp_bus d' = dp_bus d \<and> get_socket (dp_session d') sid = Some s
     | Inr pipe \<Rightarrow> (let eid = ses_ids (dp_session d) in
         dp_replies d' = dp_replies d @ [(sid, ReplyConnect eid)] \<and>
         ec_pipes (dp_endpoints d) eid = None \<and> ec_acceptors (dp_endpoints d) eid = None \<and> eid < ses_ids (dp_session d') \<and>
         ec_pipes (dp_endpoints d') = (ec_pipes (dp_endpoints d))(eid \<mapsto> \<lparr>pct_socket_id = sid, pct_endpoint_id = eid, pct_pipe = pipe\<rparr>) \<and>
         evbus_queue (dp_bus d') = evbus_queue (dp_bus d) @ [PipeCmd sid eid PipeOpen] \<and>
         get_socket (dp_session d') sid = Some (s\<lparr>sock_pipes := (sock_pipes s)(eid \<mapsto> connect_pipe eid (create_endpoint_spec s url))\<rparr>)))"
proof -
  let ?c = "socket_context_new d sid"
  let ?tmpl = "create_endpoint_tmpl (pf_protocol pf) s url"
  obtain r c1 where t: "transport_connect ?c ?tmpl = (r, c1)" by (cases "transport_connect ?c ?tmpl")
  obtain w where c1: "c1 = ?c\<lparr>sc_world := w\<rparr>" using transport_connect_keeps [OF t] by blast
  have ids: "sc_ids ?c = ses_ids (dp_session d)" by (simp add: socket_context_new_def)
  have answer: "fst (net_connect (adapter_ctx tm ord ?c) i ?tmpl) = map_sum id (\<lambda>_. ses_ids (dp_session d)) r" for tm ord i
    using connect_answer(1) [OF t] assms(3) by (simp add: ids)
  obtain n where n: "sequence_next (ses_ids (dp_session d)) = Some (ses_ids (dp_session d), n)" "ses_ids (dp_session d) < n"
    using connect_answer(2) [OF t] assms(3) by (auto simp: ids)
  have sid: "sock_id s = sid" "evbus_ok (dp_bus d)" "collection_ok (ses_ids (dp_session d)) (dp_endpoints d)"
    using assms(1,2) by (auto simp: dispatcher_ok_def session_ok_def get_socket_def)
  then have fresh: "ec_pipes (dp_endpoints d) (ses_ids (dp_session d)) = None" "ec_acceptors (dp_endpoints d) (ses_ids (dp_session d)) = None"
    unfolding collection_ok_def by (metis not_None_eq order_less_irrefl)+
  let ?ctx = "adapter_ctx (pf_timer pf) (pf_hash pf) ?c"
  have net: "net_connect ?ctx sid ?tmpl = (map_sum id (\<lambda>_. ses_ids (dp_session d)) r, emit (NetConnect sid ?tmpl) ?ctx)"
    by (rule prod_eqI) (simp_all add: answer, simp add: net_connect_def Let_def)
  have step: "call pf (SConnect url) s ?ctx = Some (case map_sum id (\<lambda>_. ses_ids (dp_session d)) r of
      Inl e \<Rightarrow> (s, on_connect_error (emit (NetConnect sid ?tmpl) ?ctx) e)
    | Inr eid \<Rightarrow> on_connect_success s (emit (NetConnect sid ?tmpl) ?ctx) eid (create_endpoint_spec s url))"
    using net by (cases r) (simp_all add: socket_connect_def sid(1) create_endpoint_tmpl_def)
  show ?thesis
  proof (cases r)
    case (Inl e)
    have "perform_all (pf_timer pf) (trace (on_connect_error (emit (NetConnect sid ?tmpl) ?ctx) e)) ?c =
        Some (?c\<lparr>sc_world := w, sc_replies := [ReplyErr e]\<rparr>)"
      using t c1 Inl by (simp add: connect_effects sc_connect_def) (simp add: socket_context_new_def)
    then show ?thesis
      using step Inl assms(2) t by (simp add: apply_on_socket_def) (simp add: give_back_def socket_context_new_def get_socket_def)
  next
    case (Inr pipe)
    let ?eid = "ses_ids (dp_session d)"
    let ?s = "s\<lparr>sock_pipes := (sock_pipes s)(?eid \<mapsto> connect_pipe ?eid (create_endpoint_spec s url))\<rparr>"
    let ?c' = "send_pipe_cmd (?c\<lparr>sc_world := w, sc_ids := n, sc_endpoints := ec_insert_pipe_controller (dp_endpoints d) sid ?eid pipe\<rparr>)
      ?eid PipeOpen"
    obtain ctx' where opened: "on_connect_success s (emit (NetConnect sid ?tmpl) ?ctx) ?eid (create_endpoint_spec s url) = (?s, ctx')"
      and log: "trace ctx' = [NetConnect sid ?tmpl, NetOpen ?eid True, Reply (ReplyConnect ?eid)]"
      by (simp add: connect_effects pipe_from_spec_def endpoint_from_spec_def)
    have "perform_all (pf_timer pf) (trace ctx') ?c = Some (?c'\<lparr>sc_replies := [ReplyConnect ?eid]\<rparr>)"
      using t c1 Inr n(1)
      by (simp add: log sc_connect_def ids ec_insert_pipe_def sc_open_def) (simp add: socket_context_new_def send_pipe_cmd_def send_signal_def)
    then show ?thesis
      using step Inr assms(2) t opened n(2) fresh signals.push_law [OF sid(2)]
      by (simp add: apply_on_socket_def)
        (simp add: give_back_def socket_context_new_def get_socket_def send_pipe_cmd_def send_signal_def ec_insert_pipe_controller_def)
  qed
qed

section \<open>Accepted connections\<close>

text \<open>The identifiers that the sequence hands out next.\<close>

definition next_ids :: "usize \<Rightarrow> nat \<Rightarrow> endpoint_id list" where
  "next_ids n k = map (\<lambda>i. n + of_nat i) [0..<k]"

lemma next_ids_simps [simp]: "next_ids n 0 = []" "next_ids n (Suc k) = n # next_ids (n + 1) k" "length (next_ids n k) = k"
proof -
  show "next_ids n (Suc k) = n # next_ids (n + 1) k"
    unfolding next_ids_def upt_conv_Cons [OF zero_less_Suc] by (simp add: map_Suc_upt [symmetric] algebra_simps del: upt_Suc)
qed (simp_all add: next_ids_def)

lemma next_ids_fresh:
  assumes "unat n + k < 2 ^ 64"
  shows "distinct (next_ids n k)" and "\<forall>i \<in> set (next_ids n k). n \<le> i"
proof -
  have unat: "unat (n + of_nat i) = unat n + i" if "i < k" for i
    using that assms by (simp add: unat_word_ariths unat_of_nat)
  show "distinct (next_ids n k)"
    unfolding next_ids_def distinct_map using unat by (auto simp: inj_on_def word_unat_eq_iff)
  show "\<forall>i \<in> set (next_ids n k). n \<le> i"
    using unat by (auto simp: next_ids_def word_le_nat_alt)
qed

lemma accept_pipe_cong [simp]: "accept_pipe (s\<lparr>sock_pipes := ps\<rparr>) aid = accept_pipe s aid"
  by (rule ext) (simp add: accept_pipe_def split: option.split)

lemma accepted_call:
  assumes "evbus_ok (dp_bus d)" and "get_socket (dp_session d) sid = Some s"
  shows "apply_on_socket pf d sid (call pf (SPipeAccepted aid eid)) =
    Some (d\<lparr>dp_bus := evbus_send (dp_bus d) (PipeCmd sid eid PipeOpen),
      dp_session := (dp_session d)\<lparr>ses_sockets := (ses_sockets (dp_session d))
        (sid \<mapsto> s\<lparr>sock_pipes := (sock_pipes s)(eid \<mapsto> accept_pipe s aid eid)\<rparr>)\<rparr>\<rparr>)"
proof -
  let ?ctx = "adapter_ctx (pf_timer pf) (pf_hash pf) (socket_context_new d sid)"
  have "trace (pipe_open (accept_pipe s aid eid) ?ctx) = [NetOpen eid True]"
    by (simp add: pipe_open_emit accept_pipe_def pipe_new_accepted_def endpoint_new_accepted_def Let_def split: prod.split option.split)
  then show ?thesis
    using assms(2)
    by (simp add: apply_on_socket_def socket_on_pipe_accepted_def insert_pipe_def sc_open_def send_pipe_cmd_def send_signal_def Let_def)
      (simp add: give_back_def socket_context_new_def)
qed


lemma accept_pipes_files:
  assumes "evbus_ok (dp_bus d)" and "get_socket (dp_session d) sid = Some s" and "unat (ses_ids (dp_session d)) + length ps < 2 ^ 64"
  shows "let eids = next_ids (ses_ids (dp_session d)) (length ps) in
    \<exists>d'. accept_pipes pf sid aid ps d = Some d' \<and> ses_ids (dp_session d') = ses_ids (dp_session d) + of_nat (length ps) \<and>
    ec_pipes (dp_endpoints d') = (ec_pipes (dp_endpoints d))
      (eids [\<mapsto>] map2 (\<lambda>eid pipe. \<lparr>pct_socket_id = sid, pct_endpoint_id = eid, pct_pipe = pipe\<rparr>) eids ps) \<and>
    get_socket (dp_session d') sid = Some (s\<lparr>sock_pipes := (sock_pipes s)(eids [\<mapsto>] map (accept_pipe s aid) eids)\<rparr>) \<and>
    evbus_queue (dp_bus d') = evbus_queue (dp_bus d) @ map (\<lambda>eid. PipeCmd sid eid PipeOpen) eids \<and> dp_replies d' = dp_replies d"
  using assms
proof (induction ps arbitrary: d s)
  case (Cons pipe ps)
  let ?n = "ses_ids (dp_session d)"
  let ?s = "s\<lparr>sock_pipes := (sock_pipes s)(?n \<mapsto> accept_pipe s aid ?n)\<rparr>"
  let ?filed = "d\<lparr>dp_session := (dp_session d)\<lparr>ses_ids := ?n + 1\<rparr>, dp_endpoints := ec_insert_pipe_controller (dp_endpoints d) sid ?n pipe\<rparr>"
  let ?d = "?filed\<lparr>dp_bus := evbus_send (dp_bus d) (PipeCmd sid ?n PipeOpen),
      dp_session := (dp_session ?filed)\<lparr>ses_sockets := (ses_sockets (dp_session d))(sid \<mapsto> ?s)\<rparr>\<rparr>"
  have room: "unat ?n + 1 < 2 ^ 64" "unat (?n + 1) + length ps < 2 ^ 64" using Cons.prems(3) by (simp_all add: unat_word_ariths)
  have ins: "ec_insert_pipe ?n (dp_endpoints d) sid pipe = Some (?n, ?n + 1, ec_insert_pipe_controller (dp_endpoints d) sid ?n pipe)"
    using room(1) by (simp add: ec_insert_pipe_def sequence_next_def checked_add_def)
  have bus: "evbus_ok (evbus_send (dp_bus d) (PipeCmd sid ?n PipeOpen))"
    "evbus_queue (evbus_send (dp_bus d) (PipeCmd sid ?n PipeOpen)) = evbus_queue (dp_bus d) @ [PipeCmd sid ?n PipeOpen]"
    using signals.push_law [OF Cons.prems(1)] by simp_all
  have "apply_on_socket pf ?filed sid (call pf (SPipeAccepted aid ?n)) = Some ?d"
    using accepted_call [of ?filed sid s pf aid ?n] Cons.prems(1,2) by (simp add: get_socket_def)
  then have one: "accept_pipes pf sid aid (pipe # ps) d = accept_pipes pf sid aid ps ?d" by (simp add: ins)
  have "evbus_ok (dp_bus ?d)" "get_socket (dp_session ?d) sid = Some ?s" "unat (ses_ids (dp_session ?d)) + length ps < 2 ^ 64"
    using bus(1) room(2) by (simp_all add: get_socket_def)
  note tail = Cons.IH [OF this, unfolded Let_def]
  show ?case
    unfolding one Let_def using tail
    by (auto simp: bus(2) ec_insert_pipe_controller_def add.commute add.left_commute simp del: fun_upd_apply intro!: exI)
qed simp

context protocol
begin

lemma call_returns:
  assumes ok: "dispatcher_ok good pipes d" and pf: "pf_protocol pf = ops" "enumerates (pf_hash pf)"
    and legal: "call_legal pipes admits pf d sid cmd"
    and accepted: "\<And>aid eid. cmd = SPipeAccepted aid eid \<Longrightarrow> eid < ses_ids (dp_session d) \<and> fresh_eid pipes s eid"
    and s: "get_socket (dp_session d) sid = Some s"
  shows "runs (call pf cmd s (adapter_ctx (pf_timer pf) (pf_hash pf) (socket_context_new d sid))) (\<lambda>(s', ctx').
    room (length (trace ctx')) (socket_context_new d sid) \<longrightarrow>
    (\<exists>d'. apply_on_socket pf d sid (call pf cmd) = Some d' \<and> dispatcher_ok good pipes d' \<and> get_socket (dp_session d') sid = Some s'))"
proof -
  let ?c = "socket_context_new d sid"
  let ?ctx = "adapter_ctx (pf_timer pf) (pf_hash pf) ?c"
  have "socket_ok good pipes s" using dispatcher_ok_socketD(1) [OF ok s] legal by (simp add: call_legal_def)
  moreover have "socket_legal ops pipes admits s ?ctx cmd" using call_legal_in_context [OF ok pf(1) legal _ s] accepted by blast
  ultimately obtain s' ctx' where step: "socket_step ops cmd s ?ctx = Some (s', ctx')"
    using socket_step_contract [of s ?ctx cmd] pf(2) by (auto elim!: runsE)
  have "\<exists>d'. apply_on_socket pf d sid (call pf cmd) = Some d' \<and> dispatcher_ok good pipes d' \<and> get_socket (dp_session d') sid = Some s'"
    if enough: "room (length (trace ctx')) ?c"
  proof -
    obtain c' where "perform_all (pf_timer pf) (trace ctx') ?c = Some c'" using perform_all_room [OF enough] by blast
    then have run: "apply_on_socket pf d sid (call pf cmd) = Some (give_back d sid s' c')"
      using step s pf(1) by (simp add: apply_on_socket_def)
    then show ?thesis using call_keeps [OF ok pf legal _ run] accepted s by (auto simp: give_back_def get_socket_def)
  qed
  then show ?thesis using step pf(1) by simp
qed

end

section \<open>The event loop with the sockets of the library\<close>

text \<open>
  (C2) The event loop keeps the contracts of its parts. Whatever requests, signals, ticks and
  notifications come, with sockets of any of the ten protocols: as long as a call is one that
  the socket admits and no event reaches a socket that was closed already, every socket keeps
  its invariant and holds only endpoints that were handed out, sockets, devices, probes and
  endpoints are identified by numbers of one sequence that are never given twice, each
  controller answers for the identifier it is filed under, the links of devices and probes lead
  to existing ones, the votes of probes stay in range, and the poller is told the truth about
  the bus. That the identifiers of new endpoints are fresh, which the contract of a socket
  assumes, is not assumed here.
\<close>

theorem event_loop_keeps_contracts:
  assumes "pf_protocol pf = dyn_ops bo" and "enumerates (pf_hash pf)"
    and "inputs_legal dyn_good dyn_pipes dyn_admits pf is (dispatcher_new transports clock w)"
    and "dispatcher_inputs pf is (dispatcher_new transports clock w) = Some d"
  shows "dispatcher_ok dyn_good dyn_pipes d"
  by (rule dyn_p.dispatcher_inputs_keep [OF dispatcher_new_ok assms])

text \<open>
  (C9) A call that a socket admits never panics in the socket, and it fails in the event loop only when
  fewer identifiers are left than it makes calls of the event loop: otherwise the socket it
  leads to is put back and the invariant of the event loop holds. This is so for every call; of the
  one that hands over an accepted pipe it is asked that the identifier be one that was handed out
  and that the socket does not hold, which is what the event loop gives it.
\<close>

theorem legal_call_returns:
  assumes "dispatcher_ok dyn_good dyn_pipes d" and "pf_protocol pf = dyn_ops bo" "enumerates (pf_hash pf)"
    and "call_legal dyn_pipes dyn_admits pf d sid cmd"
    and "\<forall>aid eid. cmd = SPipeAccepted aid eid \<longrightarrow> eid < ses_ids (dp_session d) \<and> fresh_eid dyn_pipes s eid"
    and "get_socket (dp_session d) sid = Some s"
  shows "runs (call pf cmd s (adapter_ctx (pf_timer pf) (pf_hash pf) (socket_context_new d sid))) (\<lambda>(s', ctx').
    room (length (trace ctx')) (socket_context_new d sid) \<longrightarrow>
    (\<exists>d'. apply_on_socket pf d sid (call pf cmd) = Some d' \<and> dispatcher_ok dyn_good dyn_pipes d' \<and>
       get_socket (dp_session d') sid = Some s'))"
  using dyn_p.call_returns [OF assms(1-4) _ assms(6)] assms(5) by blast

text \<open>
  (C10) The connections that an acceptor reports are taken by its socket, all of them and in order.
  For a socket that is not being closed, and while the sequence of identifiers has one left for
  each of them, handling the event returns; each connection gets the next identifier of the
  sequence, which no endpoint of the event loop and no pipe of the socket has, is filed under it
  for this socket, becomes a pipe of the socket with the priorities of the acceptor and the other
  options of the socket, and is told to open; nothing is answered to the user, and the invariant of
  the event loop holds afterwards.
\<close>

theorem accepted_connections_are_taken:
  assumes "dispatcher_ok dyn_good dyn_pipes d" and "pf_protocol pf = dyn_ops bo" "enumerates (pf_hash pf)"
    and "\<not> closing d sid" and "get_socket (dp_session d) sid = Some s" and "unat (ses_ids (dp_session d)) + length ps < 2 ^ 64"
  shows "let eids = map (\<lambda>i. ses_ids (dp_session d) + of_nat i) [0..<length ps] in
    distinct eids \<and> (\<forall>eid \<in> set eids. ec_pipes (dp_endpoints d) eid = None \<and> ec_acceptors (dp_endpoints d) eid = None \<and> fresh_eid dyn_pipes s eid) \<and>
    (\<exists>d'. process_signal pf (AcceptorEvt sid aid (Accepted ps)) d = Some d' \<and> dispatcher_ok dyn_good dyn_pipes d' \<and>
       ses_ids (dp_session d') = ses_ids (dp_session d) + of_nat (length ps) \<and>
       ec_pipes (dp_endpoints d') = (ec_pipes (dp_endpoints d))
         (eids [\<mapsto>] map2 (\<lambda>eid pipe. \<lparr>pct_socket_id = sid, pct_endpoint_id = eid, pct_pipe = pipe\<rparr>) eids ps) \<and>
       get_socket (dp_session d') sid = Some (s\<lparr>sock_pipes := (sock_pipes s)(eids [\<mapsto>] map (accept_pipe s aid) eids)\<rparr>) \<and>
       evbus_queue (dp_bus d') = evbus_queue (dp_bus d) @ map (\<lambda>eid. PipeCmd sid eid PipeOpen) eids \<and> dp_replies d' = dp_replies d)"
proof -
  let ?n = "ses_ids (dp_session d)"
  have ok: "evbus_ok (dp_bus d)" "collection_ok ?n (dp_endpoints d)" using assms(1) by (simp_all add: dispatcher_ok_def)
  have held: "held dyn_pipes s \<subseteq> {..<?n}" by (rule dispatcher_ok_socketD(2) [OF assms(1,5,4)])
  have unused: "ec_pipes (dp_endpoints d) eid = None \<and> ec_acceptors (dp_endpoints d) eid = None \<and> fresh_eid dyn_pipes s eid"
    if "?n \<le> eid" for eid
    using ok(2) held that by (fastforce simp: collection_ok_def fresh_eid_def held_def not_less [symmetric])
  obtain d' where d': "accept_pipes pf sid aid ps d = Some d'"
    using accept_pipes_files [OF ok(1) assms(5,6), of pf aid] by (auto simp: Let_def)
  have "dispatcher_ok dyn_good dyn_pipes d'" by (rule dyn_p.accept_pipes_keep [OF assms(1-4) d'])
  then show ?thesis
    using accept_pipes_files [OF ok(1) assms(5,6), of pf aid] next_ids_fresh [OF assms(6)] unused d'
    by (simp add: Let_def next_ids_def)
qed

section \<open>Witnesses\<close>

definition demo_platform :: "(dyn_protocol, unit, unit, unit) platform" where
  "demo_platform = \<lparr>pf_protocol = dyn_ops be_instance,
     pf_pipe = \<lparr>po_ready = \<lambda>p ctx _. (p, ctx), po_open = \<lambda>p ctx. (p, ctx @ [PipeRegister {Writable} LevelTriggered]),
       po_close = \<lambda>p ctx. (p, ctx @ [PipeDeregister]), po_send = \<lambda>p ctx _. (p, ctx), po_recv = \<lambda>p ctx. (p, ctx)\<rparr>,
     pf_acceptor = \<lparr>ao_ready = \<lambda>a ctx _. Some (a, ctx), ao_open = \<lambda>a ctx. (a, ctx), ao_close = \<lambda>a ctx. (a, ctx)\<rparr>,
     pf_timer = \<lparr>tm_set_timeout = \<lambda>t _ _. (0, t), tm_cancel_timeout = \<lambda>t _. t, tm_poll = \<lambda>t. (None, t)\<rparr>,
     pf_hash = sorted_list_of_set\<rparr>"

definition demo_transports :: "string \<rightharpoonup> (unit, unit, unit) transport" where
  "demo_transports = [''t'' \<mapsto> \<lparr>tr_connect = \<lambda>w _. (Inr (), w), tr_bind = \<lambda>w _. (Inr (), w)\<rparr>]"

definition demo_requests :: "dyn_protocol dispatcher_input list" where
  "demo_requests = [OnRequest (SessionRequest (CreateSocket (DynPush push_from))),
     OnRequest (SocketRequest 0 (RequestConnect ''t://a''))]"

lemma demo_platform_ok [simp]: "pf_protocol demo_platform = dyn_ops be_instance" "enumerates (pf_hash demo_platform)"
  by (simp_all add: demo_platform_def enumerates_def)

definition demo_state :: "(dyn_protocol, unit, unit, unit, unit) dispatcher" where
  "demo_state = (dispatcher_new demo_transports () ())\<lparr>dp_session := (session_new 0)\<lparr>ses_ids := 1,
     ses_sockets := [0 \<mapsto> socket_new 0 (DynPush push_from)], ses_log := [SessionReply (SocketCreated 0)]\<rparr>\<rparr>"

lemma demo_create:
  "dispatcher_step demo_platform (OnRequest (SessionRequest (CreateSocket (DynPush push_from)))) (dispatcher_new demo_transports () ()) =
     Some demo_state"
  by (simp add: demo_state_def dispatcher_new_def session_defs session_new_def sequence_new_def sequence_next_def checked_add_def
      socket_collection_new_def)

lemma push_from_good: "push_good push_from" "push_pipes_of push_from = Map.empty"
  by (simp_all add: push_from_def push_good_def push_ok_def push_inner_ok_def push_pipes_of_def pipes_new_def invar_new
      priolist_new_def ids_def)

lemma demo_state_facts [simp]:
  "get_socket (dp_session demo_state) 0 = Some (socket_new 0 (DynPush push_from))" "\<not> closing demo_state 0"
  "ses_ids (dp_session demo_state) = 1" "sch_ids (dp_schedule demo_state) = 0"
  "dp_replies demo_state = []" "evbus_queue (dp_bus demo_state) = []"
  by (simp_all add: demo_state_def get_socket_def closing_def dispatcher_new_def evbus_new_def schedule_new_def sequence_new_def)

lemma demo_state_ok: "dispatcher_ok dyn_good dyn_pipes demo_state"
  by (rule dyn_p.dispatcher_step_keeps [OF dispatcher_new_ok demo_platform_ok _ demo_create]) (simp add: push_from_good)

lemma connect_log_length: "length (trace (snd (socket_connect ops s ctx url))) \<le> length (trace ctx) + 3"
  by (auto simp: socket_connect_def net_connect_def connect_effects Let_def split: sum.split)

lemma demo_connect:
  "\<exists>d. apply_on_socket demo_platform demo_state 0 (call demo_platform (SConnect url)) = Some d"
proof -
  let ?ctx = "adapter_ctx (pf_timer demo_platform) (pf_hash demo_platform) (socket_context_new demo_state 0)"
  have "length (trace (snd (socket_connect (dyn_ops be_instance) (socket_new 0 (DynPush push_from)) ?ctx url))) \<le> 3"
    using connect_log_length [of _ _ ?ctx] by simp
  then have "room (length (trace (snd (socket_connect (dyn_ops be_instance) (socket_new 0 (DynPush push_from)) ?ctx url))))
      (socket_context_new demo_state 0)"
    by (simp add: room_def socket_context_new_def)
  from perform_all_room [OF this, of "pf_timer demo_platform"] show ?thesis
    by (auto simp: apply_on_socket_def case_prod_beta Let_def)
qed

theorem event_loop_keeps_contracts_witness:
  "\<exists>d. dispatcher_inputs demo_platform demo_requests (dispatcher_new demo_transports () ()) = Some d \<and>
     dispatcher_ok dyn_good dyn_pipes d"
proof -
  obtain d where connect: "dispatcher_step demo_platform (OnRequest (SocketRequest 0 (RequestConnect ''t://a''))) demo_state = Some d"
    using demo_connect by auto
  have run: "dispatcher_inputs demo_platform demo_requests (dispatcher_new demo_transports () ()) = Some d"
    using demo_create connect by (simp add: demo_requests_def del: dispatcher_step.simps)
  have "inputs_legal dyn_good dyn_pipes dyn_admits demo_platform demo_requests (dispatcher_new demo_transports () ())"
    using demo_create connect by (simp add: demo_requests_def push_from_good call_legal_def del: dispatcher_step.simps)
  from event_loop_keeps_contracts [OF demo_platform_ok this run] run show ?thesis by blast
qed

theorem accepted_connections_are_taken_witness:
  "\<exists>d'. process_signal demo_platform (AcceptorEvt 0 9 (Accepted [(), ()])) demo_state = Some d' \<and> dispatcher_ok dyn_good dyn_pipes d' \<and>
     evbus_queue (dp_bus d') = [PipeCmd 0 1 PipeOpen, PipeCmd 0 2 PipeOpen]"
proof -
  have "\<not> closing demo_state 0" "unat (ses_ids (dp_session demo_state)) + length [(), ()] < 2 ^ 64"
    "ses_ids (dp_session demo_state) = 1" "evbus_queue (dp_bus demo_state) = []"
    by (simp_all add: closing_def demo_state_def dispatcher_new_def evbus_new_def session_new_def)
  from accepted_connections_are_taken [OF demo_state_ok demo_platform_ok this(1) demo_state_facts(1) this(2), of 9] this(3,4) show ?thesis
    by (auto simp: Let_def)
qed

theorem legal_call_returns_witness:
  "\<exists>d'. apply_on_socket demo_platform demo_state 0 (call demo_platform SPoll) = Some d' \<and> dispatcher_ok dyn_good dyn_pipes d'"
proof -
  have "call_legal dyn_pipes dyn_admits demo_platform demo_state 0 SPoll" by (simp add: call_legal_def)
  from legal_call_returns [OF demo_state_ok demo_platform_ok this _ demo_state_facts(1)]
  obtain s' ctx' where step: "call demo_platform SPoll (socket_new 0 (DynPush push_from))
      (adapter_ctx (pf_timer demo_platform) (pf_hash demo_platform) (socket_context_new demo_state 0)) = Some (s', ctx')"
    and after: "room (length (trace ctx')) (socket_context_new demo_state 0) \<longrightarrow>
      (\<exists>d'. apply_on_socket demo_platform demo_state 0 (call demo_platform SPoll) = Some d' \<and> dispatcher_ok dyn_good dyn_pipes d')"
    by (auto elim!: runsE)
  have "length (trace ctx') \<le> 2" using step by (auto simp: socket_poll_def raise_evt_def emit_def)
  then have "room (length (trace ctx')) (socket_context_new demo_state 0)"
    by (simp add: room_def socket_context_new_def)
  with after show ?thesis by blast
qed

lemma demo_transport: "fst (transport_connect (socket_context_new demo_state 0)
    (create_endpoint_tmpl (dyn_ops be_instance) (socket_new 0 (DynPush push_from)) ''t://a'')) = Inr ()"
  by (simp add: transport_connect_def create_endpoint_tmpl_def create_endpoint_spec_def split_url_def socket_context_new_def
      demo_state_def dispatcher_new_def ec_get_transport_def demo_transports_def endpoint_collection_new_def)

theorem shutdown_ends_the_loop_witness:
  "event_loop_rounds demo_platform (\<lambda>_. (Inr [(CHANNEL_TOKEN, {Readable})], [SessionRequest SessionShutdown])) 0
     (demo_state\<lparr>dp_running := True\<rparr>) = Some (Inr (), demo_state)"
proof -
  let ?feed = "\<lambda>_ :: nat. (Inr [(CHANNEL_TOKEN, {Readable})], [SessionRequest SessionShutdown])"
  have same: "demo_state\<lparr>dp_running := False, dp_channel := []\<rparr> = demo_state" 
    by (simp add: demo_state_def dispatcher_new_def)
  have "process_events demo_platform [(CHANNEL_TOKEN, {Readable})]
      ((demo_state\<lparr>dp_running := True\<rparr>)\<lparr>dp_channel := dp_channel (demo_state\<lparr>dp_running := True\<rparr>) @ [SessionRequest SessionShutdown]\<rparr>) =
      Some demo_state"
    by (simp add: dispatcher_handle_def process_channel_def demo_state_def dispatcher_new_def)
  from shutdown_ends_the_loop [OF _ _ this, of ?feed 0] show ?thesis by simp
qed

end
