(* ===== verification/Facade.thy ===== *)
theory Facade
  imports Event_Loop
begin

text \<open>
  What the user calls: \<open>src/facade/\<close>. Every handle owns the sending end of the one channel to the
  event loop and the receiving end of a channel of its own; a call sends a request and waits
  for the reply. What the user thread does on its channels is a chronological log, and what the
  other end does is a function of the log: the \<open>n\<close>-th request may fail to be sent, and a reply
  may be missing because the event loop dropped the channel. A call that waits for ever is not
  represented: only the calls that return are.
\<close>

section \<open>Channels: mod.rs, io\_error.rs\<close>

datatype send_error = SendIo io_error | Disconnected

fun from_send_error :: "send_error \<Rightarrow> io_error" where
  "from_send_error (SendIo e) = e"
| "from_send_error Disconnected = other_io_error ''channel closed''"

datatype 'p user_event =
    Asked "'p request"
  | SessionSaid "session_reply option"
  | SocketSaid socket_id "reply option"
  | DeviceSaid device_id "device_reply option"
  | ProbeSaid probe_id "probe_reply option"

record 'p channels =
  ch_send :: "'p user_event list \<Rightarrow> send_error option"
  ch_session :: "'p user_event list \<Rightarrow> session_reply option"
  ch_socket :: "'p user_event list \<Rightarrow> socket_id \<Rightarrow> reply option"
  ch_device :: "'p user_event list \<Rightarrow> device_id \<Rightarrow> device_reply option"
  ch_probe :: "'p user_event list \<Rightarrow> probe_id \<Rightarrow> probe_reply option"

record 'p user =
  us_log :: "'p user_event list"
  us_channels :: "'p channels"

type_synonym ('p, 'r) user_call = "'p user \<Rightarrow> (io_error + 'r) \<times> 'p user"

definition note_event :: "'p user_event \<Rightarrow> 'p user \<Rightarrow> 'p user" where
  "note_event e u = u\<lparr>us_log := us_log u @ [e]\<rparr>"

text \<open>\<open>Result::and_then\<close>, for calls that touch the channels.\<close>

definition and_then :: "('p, 'r) user_call \<Rightarrow> ('r \<Rightarrow> ('p, 's) user_call) \<Rightarrow> ('p, 's) user_call" where
  "and_then m f u = (case m u of (Inl e, u') \<Rightarrow> (Inl e, u') | (Inr x, u') \<Rightarrow> f x u')"

definition answer_with :: "io_error + 'r \<Rightarrow> ('p, 'r) user_call" where
  "answer_with r u = (r, u)"

definition map_answer :: "('r \<Rightarrow> 's) \<Rightarrow> ('p, 'r) user_call \<Rightarrow> ('p, 's) user_call" where
  "map_answer f m u = (case m u of (r, u') \<Rightarrow> (map_sum id f r, u'))"

definition request_send :: "'p request \<Rightarrow> ('p, unit) user_call" where
  "request_send req u =
     (let u' = note_event (Asked req) u
      in (case ch_send (us_channels u) (us_log u') of Some e \<Rightarrow> Inl (from_send_error e) | None \<Rightarrow> Inr (), u'))"

definition receive :: "'r option \<Rightarrow> io_error + 'r" where
  "receive r = (case r of Some t \<Rightarrow> Inr t | None \<Rightarrow> Inl (other_io_error ''evt channel closed''))"

definition unexpected_reply :: "io_error + 'r" where
  "unexpected_reply = Inl (other_io_error ''unexpected reply'')"

section \<open>Endpoints: endpoint.rs\<close>

record endpoint_handle =
  eh_socket_id :: socket_id
  eh_id :: endpoint_id
  eh_remote :: bool

definition endpoint_handle_close :: "endpoint_handle \<Rightarrow> ('p, unit) user_call" where
  "endpoint_handle_close h = request_send (EndpointRequest (eh_socket_id h) (eh_id h) (EndpointClose (eh_remote h)))"

section \<open>Sockets: socket.rs\<close>

record socket_handle =
  sh_socket_id :: socket_id

definition create_poll_req :: "socket_handle \<Rightarrow> bool \<Rightarrow> bool \<Rightarrow> poll_req" where
  "create_poll_req h recv send = \<lparr>pq_sid = sh_socket_id h, pq_recv = recv, pq_send = send\<rparr>"

definition child_sender :: "socket_handle \<Rightarrow> endpoint_id \<Rightarrow> bool \<Rightarrow> endpoint_handle" where
  "child_sender h eid remote = \<lparr>eh_socket_id = sh_socket_id h, eh_id = eid, eh_remote = remote\<rparr>"

definition sh_send_request :: "socket_handle \<Rightarrow> socket_request \<Rightarrow> ('p, unit) user_call" where
  "sh_send_request h req = request_send (SocketRequest (sh_socket_id h) req)"

definition sh_recv_reply :: "socket_handle \<Rightarrow> ('p, reply) user_call" where
  "sh_recv_reply h u =
     (let r = ch_socket (us_channels u) (us_log u) (sh_socket_id h)
      in (receive r, note_event (SocketSaid (sh_socket_id h) r) u))"

definition sh_execute_request :: "socket_handle \<Rightarrow> socket_request \<Rightarrow> ('p, reply) user_call" where
  "sh_execute_request h req = and_then (sh_send_request h req) (\<lambda>_. sh_recv_reply h)"

definition sh_call :: "socket_handle \<Rightarrow> socket_request \<Rightarrow> (reply \<Rightarrow> io_error + 'r) \<Rightarrow> ('p, 'r) user_call" where
  "sh_call h req process = and_then (sh_execute_request h req) (\<lambda>reply. answer_with (process reply))"

fun on_connect_reply :: "socket_handle \<Rightarrow> reply \<Rightarrow> io_error + endpoint_handle" where
  "on_connect_reply h (ReplyConnect eid) = Inr (child_sender h eid True)"
| "on_connect_reply h (ReplyErr e) = Inl e"
| "on_connect_reply h _ = unexpected_reply"

definition sh_connect :: "socket_handle \<Rightarrow> string \<Rightarrow> ('p, endpoint_handle) user_call" where
  "sh_connect h url = sh_call h (RequestConnect url) (on_connect_reply h)"

fun on_bind_reply :: "socket_handle \<Rightarrow> reply \<Rightarrow> io_error + endpoint_handle" where
  "on_bind_reply h (ReplyBind eid) = Inr (child_sender h eid False)"
| "on_bind_reply h (ReplyErr e) = Inl e"
| "on_bind_reply h _ = unexpected_reply"

definition sh_bind :: "socket_handle \<Rightarrow> string \<Rightarrow> ('p, endpoint_handle) user_call" where
  "sh_bind h url = sh_call h (RequestBind url) (on_bind_reply h)"

fun on_send_reply :: "reply \<Rightarrow> io_error + unit" where
  "on_send_reply ReplySend = Inr ()"
| "on_send_reply (ReplyErr e) = Inl e"
| "on_send_reply _ = unexpected_reply"

definition sh_send_msg :: "socket_handle \<Rightarrow> message \<Rightarrow> ('p, unit) user_call" where
  "sh_send_msg h msg = sh_call h (RequestSend msg False) on_send_reply"

definition sh_send :: "socket_handle \<Rightarrow> u8 list \<Rightarrow> ('p, unit) user_call" where
  "sh_send h buffer = sh_send_msg h (from_body buffer)"

definition sh_try_send_msg :: "socket_handle \<Rightarrow> message \<Rightarrow> ('p, unit) user_call" where
  "sh_try_send_msg h msg = sh_call h (RequestSend msg True) on_send_reply"

definition sh_try_send :: "socket_handle \<Rightarrow> u8 list \<Rightarrow> ('p, unit) user_call" where
  "sh_try_send h buffer = sh_try_send_msg h (from_body buffer)"

fun on_recv_reply :: "reply \<Rightarrow> io_error + message" where
  "on_recv_reply (ReplyRecv msg) = Inr msg"
| "on_recv_reply (ReplyErr e) = Inl e"
| "on_recv_reply _ = unexpected_reply"

definition sh_recv_msg :: "socket_handle \<Rightarrow> ('p, message) user_call" where
  "sh_recv_msg h = sh_call h (RequestRecv False) on_recv_reply"

definition sh_recv :: "socket_handle \<Rightarrow> ('p, u8 list) user_call" where
  "sh_recv h = map_answer body (sh_recv_msg h)"

definition sh_try_recv_msg :: "socket_handle \<Rightarrow> ('p, message) user_call" where
  "sh_try_recv_msg h = sh_call h (RequestRecv True) on_recv_reply"

definition sh_try_recv :: "socket_handle \<Rightarrow> ('p, u8 list) user_call" where
  "sh_try_recv h = map_answer body (sh_try_recv_msg h)"

fun on_set_option_reply :: "reply \<Rightarrow> io_error + unit" where
  "on_set_option_reply ReplySetOption = Inr ()"
| "on_set_option_reply (ReplyErr e) = Inl e"
| "on_set_option_reply _ = unexpected_reply"

definition sh_set_option :: "socket_handle \<Rightarrow> config_option \<Rightarrow> ('p, unit) user_call" where
  "sh_set_option h opt = sh_call h (RequestSetOption opt) on_set_option_reply"

definition sh_set_send_timeout :: "socket_handle \<Rightarrow> duration option \<Rightarrow> ('p, unit) user_call" where
  "sh_set_send_timeout h timeout = sh_set_option h (SendTimeoutOpt timeout)"

definition sh_set_recv_timeout :: "socket_handle \<Rightarrow> duration option \<Rightarrow> ('p, unit) user_call" where
  "sh_set_recv_timeout h timeout = sh_set_option h (RecvTimeoutOpt timeout)"

definition sh_set_send_priority :: "socket_handle \<Rightarrow> u8 \<Rightarrow> ('p, unit) user_call" where
  "sh_set_send_priority h priority = sh_set_option h (SendPriority priority)"

definition sh_set_recv_priority :: "socket_handle \<Rightarrow> u8 \<Rightarrow> ('p, unit) user_call" where
  "sh_set_recv_priority h priority = sh_set_option h (RecvPriority priority)"

definition sh_set_tcp_nodelay :: "socket_handle \<Rightarrow> bool \<Rightarrow> ('p, unit) user_call" where
  "sh_set_tcp_nodelay h x = sh_set_option h (TcpNoDelay x)"

text \<open>\<open>Drop\<close>: whether the request could be sent or not, the reply is waited for.\<close>

definition sh_drop :: "socket_handle \<Rightarrow> 'p user \<Rightarrow> 'p user" where
  "sh_drop h u = snd (sh_recv_reply h (snd (sh_send_request h RequestClose u)))"

section \<open>Probes: probe.rs\<close>

record probe_handle =
  ph_probe_id :: probe_id

definition ph_send_request :: "probe_handle \<Rightarrow> probe_request \<Rightarrow> ('p, unit) user_call" where
  "ph_send_request h req = request_send (ProbeRequest (ph_probe_id h) req)"

definition ph_recv_reply :: "probe_handle \<Rightarrow> ('p, probe_reply) user_call" where
  "ph_recv_reply h u =
     (let r = ch_probe (us_channels u) (us_log u) (ph_probe_id h)
      in (receive r, note_event (ProbeSaid (ph_probe_id h) r) u))"

definition ph_execute_request :: "probe_handle \<Rightarrow> probe_request \<Rightarrow> ('p, probe_reply) user_call" where
  "ph_execute_request h req = and_then (ph_send_request h req) (\<lambda>_. ph_recv_reply h)"

fun on_poll_reply :: "probe_reply \<Rightarrow> io_error + poll_res list" where
  "on_poll_reply (ProbePolled rs) = Inr rs"
| "on_poll_reply (ProbeErr e) = Inl e"
| "on_poll_reply ProbeClosed = unexpected_reply"

definition ph_call :: "probe_handle \<Rightarrow> probe_request \<Rightarrow> (probe_reply \<Rightarrow> io_error + 'r) \<Rightarrow> ('p, 'r) user_call" where
  "ph_call h req process = and_then (ph_execute_request h req) (\<lambda>reply. answer_with (process reply))"

definition ph_poll :: "probe_handle \<Rightarrow> duration \<Rightarrow> ('p, poll_res list) user_call" where
  "ph_poll h timeout = ph_call h (ProbeReqPoll timeout) on_poll_reply"

definition ph_drop :: "probe_handle \<Rightarrow> 'p user \<Rightarrow> 'p user" where
  "ph_drop h u = snd (ph_recv_reply h (snd (ph_send_request h ProbeReqClose u)))"

section \<open>Devices: device.rs\<close>

text \<open>The loops return only on an error. Then the sockets, which they own, are dropped.\<close>

record relay =
  relay_socket :: "socket_handle option"

definition relay_new :: "socket_handle \<Rightarrow> relay" where
  "relay_new s = \<lparr>relay_socket = Some s\<rparr>"

definition relay_once :: "socket_handle \<Rightarrow> ('p, unit) user_call" where
  "relay_once h = and_then (sh_recv_msg h) (sh_send_msg h)"

partial_function (option) relay_loop :: "socket_handle \<Rightarrow> 'p user \<Rightarrow> (io_error \<times> 'p user) option" where
  "relay_loop h u = (case relay_once h u of (Inl e, u') \<Rightarrow> Some (e, u') | (Inr _, u') \<Rightarrow> relay_loop h u')"

definition relay_run :: "relay \<Rightarrow> 'p user \<Rightarrow> (io_error \<times> 'p user) option" where
  "relay_run d u = do {
     h \<leftarrow> relay_socket d;
     (e, u') \<leftarrow> relay_loop h u;
     Some (e, sh_drop h u') }"

record bridge =
  bridge_device_id :: device_id
  bridge_left :: "socket_handle option"
  bridge_right :: "socket_handle option"

definition bridge_new :: "device_id \<Rightarrow> socket_handle \<Rightarrow> socket_handle \<Rightarrow> bridge" where
  "bridge_new did l r = \<lparr>bridge_device_id = did, bridge_left = Some l, bridge_right = Some r\<rparr>"

definition bridge_send_request :: "device_id \<Rightarrow> device_request \<Rightarrow> ('p, unit) user_call" where
  "bridge_send_request did req = request_send (DeviceRequest did req)"

definition bridge_recv_reply :: "device_id \<Rightarrow> ('p, device_reply) user_call" where
  "bridge_recv_reply did u =
     (let r = ch_device (us_channels u) (us_log u) did in (receive r, note_event (DeviceSaid did r) u))"

definition bridge_execute_request :: "device_id \<Rightarrow> device_request \<Rightarrow> ('p, device_reply) user_call" where
  "bridge_execute_request did req = and_then (bridge_send_request did req) (\<lambda>_. bridge_recv_reply did)"

definition forward_msg :: "socket_handle \<Rightarrow> socket_handle \<Rightarrow> ('p, unit) user_call" where
  "forward_msg from to = and_then (sh_recv_msg from) (sh_send_msg to)"

definition exchange_msg :: "socket_handle \<Rightarrow> socket_handle \<Rightarrow> ('p, unit) user_call" where
  "exchange_msg l r =
     and_then (sh_recv_msg l) (\<lambda>from_left.
     and_then (sh_recv_msg r) (\<lambda>from_right.
     and_then (sh_send_msg r from_left) (\<lambda>_. sh_send_msg l from_right)))"

fun on_check_reply :: "socket_handle \<Rightarrow> socket_handle \<Rightarrow> device_reply \<Rightarrow> ('p, unit) user_call" where
  "on_check_reply l r (DeviceCheck True True) = exchange_msg l r"
| "on_check_reply l r (DeviceCheck True False) = forward_msg l r"
| "on_check_reply l r (DeviceCheck False True) = forward_msg r l"
| "on_check_reply l r (DeviceCheck False False) = answer_with (Inr ())"
| "on_check_reply l r DeviceClosed = answer_with unexpected_reply"

definition bridge_run_once :: "device_id \<Rightarrow> socket_handle \<Rightarrow> socket_handle \<Rightarrow> ('p, unit) user_call" where
  "bridge_run_once did l r = and_then (bridge_execute_request did DeviceReqCheck) (on_check_reply l r)"

partial_function (option) bridge_loop ::
  "device_id \<Rightarrow> socket_handle \<Rightarrow> socket_handle \<Rightarrow> 'p user \<Rightarrow> (io_error \<times> 'p user) option" where
  "bridge_loop did l r u =
     (case bridge_run_once did l r u of (Inl e, u') \<Rightarrow> Some (e, u') | (Inr _, u') \<Rightarrow> bridge_loop did l r u')"

definition bridge_drop :: "device_id \<Rightarrow> 'p user \<Rightarrow> 'p user" where
  "bridge_drop did u = snd (bridge_recv_reply did (snd (bridge_send_request did DeviceReqClose u)))"

definition bridge_run :: "bridge \<Rightarrow> 'p user \<Rightarrow> (io_error \<times> 'p user) option" where
  "bridge_run b u = do {
     l \<leftarrow> bridge_left b;
     r \<leftarrow> bridge_right b;
     (e, u') \<leftarrow> bridge_loop (bridge_device_id b) l r u;
     Some (e, bridge_drop (bridge_device_id b) (sh_drop l (sh_drop r u'))) }"

section \<open>Sessions: session.rs\<close>

record ('e, 'a, 'w) session_builder =
  sb_transports :: "string \<rightharpoonup> ('e, 'a, 'w) transport"

definition builder_new :: "('e, 'a, 'w) session_builder" where
  "builder_new = \<lparr>sb_transports = Map.empty\<rparr>"

definition builder_with :: "('e, 'a, 'w) session_builder \<Rightarrow> string \<Rightarrow> ('e, 'a, 'w) transport \<Rightarrow> ('e, 'a, 'w) session_builder" where
  "builder_with b scheme t = b\<lparr>sb_transports := (sb_transports b)(scheme \<mapsto> t)\<rparr>"

text \<open>\<open>build\<close> starts a thread that runs the dispatcher on the other ends of the new channels.\<close>

definition builder_build ::
  "('p, 'e, 'a, 'tm) platform \<Rightarrow> ('e, 'a, 'w) session_builder \<Rightarrow> 'tm \<Rightarrow> 'w \<Rightarrow> io_error option \<times> io_error option \<times> io_error option \<Rightarrow>
   (nat \<Rightarrow> (io_error + (usize \<times> ready_set) list) \<times> 'p request list) \<Rightarrow>
   ((io_error + unit) \<times> ('p, 'e, 'a, 'tm, 'w) dispatcher) option" where
  "builder_build pf b clock w registered feed = dispatch pf (sb_transports b) clock w registered feed"

definition session_send_request :: "'p session_request \<Rightarrow> ('p, unit) user_call" where
  "session_send_request req = request_send (SessionRequest req)"

definition session_recv_reply :: "('p, session_reply) user_call" where
  "session_recv_reply u =
     (let r = ch_session (us_channels u) (us_log u) in (receive r, note_event (SessionSaid r) u))"

definition session_execute_request :: "'p session_request \<Rightarrow> ('p, session_reply) user_call" where
  "session_execute_request req = and_then (session_send_request req) (\<lambda>_. session_recv_reply)"

definition session_call :: "'p session_request \<Rightarrow> (session_reply \<Rightarrow> io_error + 'r) \<Rightarrow> ('p, 'r) user_call" where
  "session_call req process = and_then (session_execute_request req) (\<lambda>reply. answer_with (process reply))"

fun on_create_socket_reply :: "session_reply \<Rightarrow> io_error + socket_handle" where
  "on_create_socket_reply (SocketCreated sid) = Inr \<lparr>sh_socket_id = sid\<rparr>"
| "on_create_socket_reply (SessionErr e) = Inl e"
| "on_create_socket_reply _ = unexpected_reply"

text \<open>The constructor of the protocol is the protocol in its initial state.\<close>

definition create_socket :: "'p \<Rightarrow> ('p, socket_handle) user_call" where
  "create_socket ctor = session_call (CreateSocket ctor) on_create_socket_reply"

definition create_relay_device :: "socket_handle \<Rightarrow> io_error + relay" where
  "create_relay_device h = Inr (relay_new h)"

fun on_create_device_reply :: "socket_handle \<Rightarrow> socket_handle \<Rightarrow> session_reply \<Rightarrow> io_error + bridge" where
  "on_create_device_reply l r (DeviceCreated did) = Inr (bridge_new did l r)"
| "on_create_device_reply l r (SessionErr e) = Inl e"
| "on_create_device_reply l r _ = unexpected_reply"

text \<open>The call owns both sockets: without a device to give them to, it drops them.\<close>

definition create_bridge_device :: "socket_handle \<Rightarrow> socket_handle \<Rightarrow> ('p, bridge) user_call" where
  "create_bridge_device l r u =
     (case session_execute_request (CreateDevice (sh_socket_id l) (sh_socket_id r)) u of
        (Inl e, u') \<Rightarrow> (Inl e, sh_drop r (sh_drop l u'))
      | (Inr reply, u') \<Rightarrow>
          (case on_create_device_reply l r reply of
             Inl e \<Rightarrow> (Inl e, sh_drop l (sh_drop r u'))
           | Inr b \<Rightarrow> (Inr b, u')))"

fun on_create_probe_reply :: "session_reply \<Rightarrow> io_error + probe_handle" where
  "on_create_probe_reply (ProbeCreated pid) = Inr \<lparr>ph_probe_id = pid\<rparr>"
| "on_create_probe_reply (SessionErr e) = Inl e"
| "on_create_probe_reply _ = unexpected_reply"

definition create_probe :: "poll_req list \<Rightarrow> ('p, probe_handle) user_call" where
  "create_probe opts = session_call (CreateProbe opts) on_create_probe_reply"

definition session_drop :: "'p user \<Rightarrow> 'p user" where
  "session_drop u = snd (session_recv_reply (snd (session_send_request SessionShutdown u)))"

section \<open>What a log says\<close>

text \<open>The messages a log handed to a socket, and the ones it got as answers to receive requests.\<close>

fun sent_message :: "socket_id \<Rightarrow> 'p user_event \<Rightarrow> message option" where
  "sent_message sid (Asked (SocketRequest s (RequestSend msg _))) = (if s = sid then Some msg else None)"
| "sent_message sid _ = None"

definition sent_on :: "socket_id \<Rightarrow> 'p user_event list \<Rightarrow> message list" where
  "sent_on sid es = List.map_filter (sent_message sid) es"

fun asks_recv :: "socket_id \<Rightarrow> 'p request \<Rightarrow> bool" where
  "asks_recv sid (SocketRequest s (RequestRecv _)) \<longleftrightarrow> s = sid"
| "asks_recv sid _ \<longleftrightarrow> False"

fun received_after :: "bool \<Rightarrow> socket_id \<Rightarrow> 'p user_event list \<Rightarrow> message list" where
  "received_after pending sid [] = []"
| "received_after pending sid (Asked r # es) = received_after (asks_recv sid r) sid es"
| "received_after pending sid (SocketSaid s (Some (ReplyRecv msg)) # es) =
     (if pending \<and> s = sid then [msg] else []) @ received_after False sid es"
| "received_after pending sid (e # es) = received_after pending sid es"

abbreviation received_on :: "socket_id \<Rightarrow> 'p user_event list \<Rightarrow> message list" where
  "received_on \<equiv> received_after False"

text \<open>Every call starts with a request.\<close>

fun asking :: "'p user_event list \<Rightarrow> bool" where
  "asking [] \<longleftrightarrow> True"
| "asking (Asked _ # _) \<longleftrightarrow> True"
| "asking _ \<longleftrightarrow> False"

lemma received_append: "asking fs \<Longrightarrow> received_after p sid (es @ fs) = received_after p sid es @ received_on sid fs"
proof (induction p sid es rule: received_after.induct)
  case (1 pending sid)
  then show ?case by (cases fs rule: asking.cases) simp_all
qed simp_all

lemma sent_append [simp]:
  "sent_on sid [] = []" "sent_on sid (es @ fs) = sent_on sid es @ sent_on sid fs"
  "sent_on sid (e # es) = (case sent_message sid e of Some msg \<Rightarrow> msg # sent_on sid es | None \<Rightarrow> sent_on sid es)"
  by (simp_all add: sent_on_def map_filter_def split: option.split)

lemma asking_append: "asking es \<Longrightarrow> asking fs \<Longrightarrow> asking (es @ fs)"
  by (cases es rule: asking.cases) simp_all

definition exchanges :: "'p user \<Rightarrow> 'p user \<Rightarrow> (socket_id \<Rightarrow> message list) \<Rightarrow> (socket_id \<Rightarrow> message list) \<Rightarrow> bool" where
  "exchanges u u' R S \<longleftrightarrow> us_channels u' = us_channels u \<and>
     (\<exists>es. us_log u' = us_log u @ es \<and> asking es \<and> (\<forall>sid. received_on sid es = R sid \<and> sent_on sid es = S sid))"

lemma exchanges_refl: "exchanges u u (\<lambda>_. []) (\<lambda>_. [])"
  unfolding exchanges_def by (intro conjI exI [of _ "[]"]) simp_all

lemma exchanges_trans:
  assumes "exchanges a b R S" and "exchanges b c R' S'"
  shows "exchanges a c (\<lambda>sid. R sid @ R' sid) (\<lambda>sid. S sid @ S' sid)"
proof -
  obtain es fs where es: "us_log b = us_log a @ es" "asking es" "\<forall>sid. received_on sid es = R sid \<and> sent_on sid es = S sid"
    and fs: "us_log c = us_log b @ fs" "asking fs" "\<forall>sid. received_on sid fs = R' sid \<and> sent_on sid fs = S' sid"
    using assms unfolding exchanges_def by blast
  then show ?thesis
    using assms received_append [OF fs(2)] asking_append [OF es(2) fs(2)]
    unfolding exchanges_def by (intro conjI exI [of _ "es @ fs"]) auto
qed

definition only :: "socket_id \<Rightarrow> 'm list \<Rightarrow> socket_id \<Rightarrow> 'm list" where
  "only sid ms = (\<lambda>s. if s = sid then ms else [])"

definition got :: "io_error + 'm \<Rightarrow> 'm list" where
  "got res = (case res of Inr m \<Rightarrow> [m] | Inl _ \<Rightarrow> [])"

lemmas call_defs = sh_call_def sh_execute_request_def sh_send_request_def sh_recv_reply_def request_send_def and_then_def
  answer_with_def receive_def note_event_def unexpected_reply_def

lemma call_log:
  assumes "sh_call h req process u = (res, u')"
  obtains e where "res = Inl e" "u' = note_event (Asked (SocketRequest (sh_socket_id h) req)) u"
  | r where "u' = note_event (SocketSaid (sh_socket_id h) r) (note_event (Asked (SocketRequest (sh_socket_id h) req)) u)"
      "res = (case r of Some x \<Rightarrow> process x | None \<Rightarrow> Inl (other_io_error ''evt channel closed''))"
proof (cases "ch_send (us_channels u) (us_log u @ [Asked (SocketRequest (sh_socket_id h) req)])")
  case (Some e)
  then show ?thesis using assms by (intro that(1)) (auto simp: call_defs Let_def)
next
  case None
  let ?r = "ch_socket (us_channels u) (us_log u @ [Asked (SocketRequest (sh_socket_id h) req)]) (sh_socket_id h)"
  show ?thesis by (rule that(2) [of ?r]) (use assms None in \<open>auto simp: call_defs Let_def split: option.splits\<close>)
qed

lemma received_said:
  "received_after p sid [SocketSaid s None] = []"
  "received_after p sid [SocketSaid s (Some x)] = (if p \<and> s = sid then got (on_recv_reply x) else [])"
  by simp (cases x; simp add: got_def unexpected_reply_def)

lemma received_never: "received_after False sid [SocketSaid s r] = []"
  by (cases r) (simp_all add: received_said)

lemma recv_msg_exchanges:
  assumes "sh_recv_msg h u = (res, u')"
  shows "exchanges u u' (only (sh_socket_id h) (got res)) (\<lambda>_. [])"
  using assms unfolding sh_recv_msg_def
proof (cases rule: call_log)
  case (1 e)
  then show ?thesis unfolding exchanges_def
    by (intro conjI exI [of _ "[Asked (SocketRequest (sh_socket_id h) (RequestRecv False))]"])
      (auto simp: note_event_def only_def got_def)
next
  case (2 r)
  then show ?thesis unfolding exchanges_def
    by (intro conjI exI [of _ "[Asked (SocketRequest (sh_socket_id h) (RequestRecv False)), SocketSaid (sh_socket_id h) r]"])
      (auto simp: note_event_def only_def received_said got_def split: option.split)
qed

lemma send_msg_exchanges:
  assumes "sh_send_msg h msg u = (res, u')"
  shows "exchanges u u' (\<lambda>_. []) (only (sh_socket_id h) [msg])"
  using assms unfolding sh_send_msg_def
proof (cases rule: call_log)
  case (1 e)
  then show ?thesis unfolding exchanges_def
    by (intro conjI exI [of _ "[Asked (SocketRequest (sh_socket_id h) (RequestSend msg False))]"])
      (auto simp: note_event_def only_def)
next
  case (2 r)
  then show ?thesis unfolding exchanges_def
    by (intro conjI exI [of _ "[Asked (SocketRequest (sh_socket_id h) (RequestSend msg False)), SocketSaid (sh_socket_id h) r]"])
      (auto simp: note_event_def only_def received_never)
qed

lemma check_exchanges:
  assumes "bridge_execute_request did DeviceReqCheck u = (res, u')"
  shows "exchanges u u' (\<lambda>_. []) (\<lambda>_. [])"
proof -
  have "us_channels u' = us_channels u \<and> (us_log u' = us_log u @ [Asked (DeviceRequest did DeviceReqCheck)] \<or>
      (\<exists>r. us_log u' = us_log u @ [Asked (DeviceRequest did DeviceReqCheck), DeviceSaid did r]))"
    using assms
    by (auto simp: bridge_execute_request_def bridge_send_request_def bridge_recv_reply_def call_defs Let_def split: option.splits)
  then show ?thesis unfolding exchanges_def by fastforce
qed


section \<open>Devices lose nothing\<close>

text \<open>
  What was received from one socket was handed to the other, but for at most one message,
  and for none when all went well.
\<close>

definition handed_over :: "bool \<Rightarrow> 'm list \<Rightarrow> 'm list \<Rightarrow> bool" where
  "handed_over whole from to \<longleftrightarrow> (\<exists>lost. from = to @ lost \<and> length lost \<le> (if whole then 0 else 1))"

definition forwards :: "bool \<Rightarrow> socket_handle \<Rightarrow> socket_handle \<Rightarrow> 'p user \<Rightarrow> 'p user \<Rightarrow> bool" where
  "forwards whole l r u u' \<longleftrightarrow> (\<exists>R S. exchanges u u' R S \<and>
     handed_over whole (R (sh_socket_id l)) (S (sh_socket_id r)) \<and> handed_over whole (R (sh_socket_id r)) (S (sh_socket_id l)))"

lemma handed_over_simps [simp]:
  "handed_over whole ms ms" "handed_over False [m] []" "handed_over whole (m # xs) (m # ys) = handed_over whole xs ys"
  "handed_over whole (ms @ xs) (ms @ ys) = handed_over whole xs ys"
  by (simp_all add: handed_over_def)

lemma handed_over_True [simp]: "handed_over True from to \<longleftrightarrow> from = to"
  by (auto simp: handed_over_def)

lemma forwardsI:
  assumes "exchanges u u' R S" and "handed_over whole (R (sh_socket_id l)) (S (sh_socket_id r))"
    and "handed_over whole (R (sh_socket_id r)) (S (sh_socket_id l))"
  shows "forwards whole l r u u'"
  using assms unfolding forwards_def by blast

lemmas counted = only_def got_def

lemma forwards_sym: "forwards whole l r u u' \<longleftrightarrow> forwards whole r l u u'"
  unfolding forwards_def by blast

lemma forwards_trans:
  assumes "forwards True l r a b" and "forwards whole l r b c"
  shows "forwards whole l r a c"
proof -
  obtain R S R' S' where one: "exchanges a b R S" "R (sh_socket_id l) = S (sh_socket_id r)" "R (sh_socket_id r) = S (sh_socket_id l)"
    and two: "exchanges b c R' S'" "handed_over whole (R' (sh_socket_id l)) (S' (sh_socket_id r))"
      "handed_over whole (R' (sh_socket_id r)) (S' (sh_socket_id l))"
    using assms unfolding forwards_def by auto
  show ?thesis by (rule forwardsI [OF exchanges_trans [OF one(1) two(1)]]) (use one two in simp_all)
qed

abbreviation fine :: "io_error + unit \<Rightarrow> bool" where
  "fine res \<equiv> res = Inr ()"

lemma forward_msg_forwards:
  assumes "forward_msg l r u = (res, u')"
  shows "forwards (fine res) l r u u'"
proof -
  obtain got_l u1 where recv: "sh_recv_msg l u = (got_l, u1)" by (cases "sh_recv_msg l u")
  note one = recv_msg_exchanges [OF recv]
  show ?thesis
  proof (cases got_l)
    case (Inl e)
    then have "u' = u1" using assms recv by (simp add: forward_msg_def and_then_def)
    then show ?thesis using Inl by (auto simp: counted intro!: forwardsI [OF one])
  next
    case (Inr m)
    then have "sh_send_msg r m u1 = (res, u')" using assms recv by (simp add: forward_msg_def and_then_def)
    note two = exchanges_trans [OF one send_msg_exchanges [OF this]]
    show ?thesis by (rule forwardsI [OF two]) (use Inr in \<open>simp_all add: counted\<close>)
  qed
qed

lemma exchange_msg_forwards:
  assumes "exchange_msg l r u = (res, u')"
  shows "forwards (fine res) l r u u'"
proof -
  obtain got_l u1 where left: "sh_recv_msg l u = (got_l, u1)" by (cases "sh_recv_msg l u")
  obtain got_r u2 where right: "sh_recv_msg r u1 = (got_r, u2)" by (cases "sh_recv_msg r u1")
  note one = recv_msg_exchanges [OF left] and two = exchanges_trans [OF recv_msg_exchanges [OF left] recv_msg_exchanges [OF right]]
  consider (left) e where "got_l = Inl e" | (right) m e where "got_l = Inr m" "got_r = Inl e" | (both) m n where "got_l = Inr m" "got_r = Inr n"
    by (cases got_l; cases got_r) auto
  then show ?thesis
  proof cases
    case left
    then have "u' = u1" "\<not> fine res" using assms \<open>sh_recv_msg l u = (got_l, u1)\<close> by (auto simp: exchange_msg_def and_then_def)
    then show ?thesis using left by (auto simp: counted intro!: forwardsI [OF one])
  next
    case right
    then have "u' = u2" "\<not> fine res" using assms \<open>sh_recv_msg l u = (got_l, u1)\<close> \<open>sh_recv_msg r u1 = (got_r, u2)\<close>
      by (auto simp: exchange_msg_def and_then_def)
    then show ?thesis using right by (auto simp: counted intro!: forwardsI [OF two])
  next
    case both
    obtain res1 u3 where send: "sh_send_msg r m u2 = (res1, u3)" by (cases "sh_send_msg r m u2")
    note three = exchanges_trans [OF two send_msg_exchanges [OF send]]
    show ?thesis
    proof (cases res1)
      case (Inl e)
      then have "u' = u3" "\<not> fine res" using assms left right both send by (auto simp: exchange_msg_def and_then_def)
      then show ?thesis using both by (auto simp: counted intro!: forwardsI [OF three])
    next
      case (Inr x)
      then have "sh_send_msg l n u3 = (res, u')" using assms left right both send by (simp add: exchange_msg_def and_then_def)
      note four = exchanges_trans [OF three send_msg_exchanges [OF this]]
      show ?thesis by (rule forwardsI [OF four]) (use both in \<open>simp_all add: counted\<close>)
    qed
  qed
qed

lemma forwards_refl: "forwards whole l r u u"
  by (rule forwardsI [OF exchanges_refl]) simp_all

lemma run_once_forwards:
  assumes "bridge_run_once did l r u = (res, u')"
  shows "forwards (fine res) l r u u'"
proof -
  obtain reply u1 where check: "bridge_execute_request did DeviceReqCheck u = (reply, u1)"
    by (cases "bridge_execute_request did DeviceReqCheck u")
  have quiet: "forwards whole l r u u1" for whole
    by (rule forwardsI [OF check_exchanges [OF check]]) simp_all
  show ?thesis
  proof (cases reply)
    case (Inl e)
    then show ?thesis using assms check quiet by (simp add: bridge_run_once_def and_then_def)
  next
    case (Inr x)
    then have "on_check_reply l r x u1 = (res, u')" using assms check by (simp add: bridge_run_once_def and_then_def)
    then have "forwards (fine res) l r u1 u'"
      using exchange_msg_forwards [of l r u1 res u'] forward_msg_forwards [of l r u1 res u']
        forward_msg_forwards [of r l u1 res u'] forwards_sym [of "fine res" r l u1 u'] forwards_refl
      by (cases "(l, r, x)" rule: on_check_reply.cases) (auto simp: answer_with_def)
    with quiet [of True] show ?thesis by (rule forwards_trans)
  qed
qed

text \<open>A loop that makes such rounds, over any function in place of the recursive call.\<close>

lemma loop_forwards:
  assumes "forwards (fine res) l r u u1"
    and "(case res of Inl e \<Rightarrow> Some (e, u1) | Inr _ \<Rightarrow> f u1) = Some x"
    and "\<And>x. f u1 = Some x \<Longrightarrow> forwards False l r u1 (snd x)"
  shows "forwards False l r u (snd x)"
proof (cases res)
  case (Inl e)
  then show ?thesis using assms(1,2) by auto
next
  case (Inr y)
  then have "forwards False l r u1 (snd x)" "forwards True l r u u1" using assms by simp_all
  then show ?thesis using forwards_trans by blast
qed

lemma bridge_loop_forwards:
  assumes "bridge_loop did l r u = Some (e, u')"
  shows "forwards False l r u u'"
proof -
  have "forwards False l r u (snd (e, u'))"
  proof (rule bridge_loop.raw_induct [where P = "\<lambda>did l r u x. forwards False l r u (snd x)", OF _ assms])
    fix f did l r and u :: "'p user" and x :: "io_error \<times> 'p user"
    assume IH: "\<And>did l r u x. f did l r u = Some x \<Longrightarrow> forwards False l r u (snd x)"
      and eq: "(case bridge_run_once did l r u of (Inl e, u') \<Rightarrow> Some (e, u') | (Inr _, u') \<Rightarrow> f did l r u') = Some x"
    obtain res u1 where once: "bridge_run_once did l r u = (res, u1)" by (cases "bridge_run_once did l r u")
    show "forwards False l r u (snd x)"
      by (rule loop_forwards [OF run_once_forwards [OF once], where f = "f did l r"]) (use eq once IH in \<open>simp_all split: sum.splits\<close>)
  qed
  then show ?thesis by simp
qed

text \<open>
  (C8) A bridge loses nothing and makes nothing up: when its loop ends, which only an error does, the
  messages it received from one socket, in order, are the ones it handed to the other, but for
  at most one, the last, on each side.
\<close>

theorem bridge_hands_over_everything:
  assumes "bridge_loop did l r u = Some (e, u')"
  shows "\<exists>es. us_log u' = us_log u @ es \<and>
    (\<exists>lost. received_on (sh_socket_id l) es = sent_on (sh_socket_id r) es @ lost \<and> length lost \<le> 1) \<and>
    (\<exists>lost. received_on (sh_socket_id r) es = sent_on (sh_socket_id l) es @ lost \<and> length lost \<le> 1)"
proof -
  obtain R S where "exchanges u u' R S" "handed_over False (R (sh_socket_id l)) (S (sh_socket_id r))"
      "handed_over False (R (sh_socket_id r)) (S (sh_socket_id l))"
    using bridge_loop_forwards [OF assms] unfolding forwards_def by blast
  then show ?thesis unfolding exchanges_def handed_over_def by auto
qed


text \<open>The relay: one socket takes both parts.\<close>

lemma relay_loop_forwards:
  assumes "relay_loop h u = Some (e, u')"
  shows "forwards False h h u u'"
proof -
  have "forwards False h h u (snd (e, u'))"
  proof (rule relay_loop.raw_induct [where P = "\<lambda>h u x. forwards False h h u (snd x)", OF _ assms])
    fix f h and u :: "'p user" and x :: "io_error \<times> 'p user"
    assume IH: "\<And>h u x. f h u = Some x \<Longrightarrow> forwards False h h u (snd x)"
      and eq: "(case relay_once h u of (Inl e, u') \<Rightarrow> Some (e, u') | (Inr _, u') \<Rightarrow> f h u') = Some x"
    obtain res u1 where once: "relay_once h u = (res, u1)" by (cases "relay_once h u")
    have step: "forwards (fine res) h h u u1"
      using forward_msg_forwards [of h h u res u1] once by (simp add: relay_once_def forward_msg_def)
    show "forwards False h h u (snd x)"
      by (rule loop_forwards [OF step, where f = "f h"]) (use eq once IH in \<open>simp_all split: sum.splits\<close>)
  qed
  then show ?thesis by simp
qed

section \<open>Connecting, end to end\<close>

text \<open>
  (C3) Connecting a socket, from the call of the user to the event loop and back: when the event loop
  has handled the request and its reply comes through, the call returns the error of the
  address, the scheme or the transport; or a handle to a new endpoint of this very socket,
  which is filed in the event loop with the pipe of the transport and belongs to the socket. To
  close that handle is to ask the socket to close that pipe.
\<close>

theorem connect_call_outcome:
  assumes "dispatcher_ok good pipes d" and "get_socket (dp_session d) sid = Some s"
    and "unat (ses_ids (dp_session d)) + 1 < 2 ^ 64"
    and "process_socket_request pf d sid (RequestConnect url) = Some d'"
    and "ch_send (us_channels u) (us_log u @ [Asked (SocketRequest sid (RequestConnect url))]) = None"
    and "ch_socket (us_channels u) (us_log u @ [Asked (SocketRequest sid (RequestConnect url))]) sid = Some (snd (last (dp_replies d')))"
  shows "case fst (transport_connect (socket_context_new d sid) (create_endpoint_tmpl (pf_protocol pf) s url)) of
      Inl e \<Rightarrow> fst (sh_connect \<lparr>sh_socket_id = sid\<rparr> url u) = Inl e
    | Inr pipe \<Rightarrow> \<exists>ep u'. sh_connect \<lparr>sh_socket_id = sid\<rparr> url u = (Inr ep, u') \<and>
        ec_pipes (dp_endpoints d) (eh_id ep) = None \<and>
        ec_pipes (dp_endpoints d') (eh_id ep) = Some \<lparr>pct_socket_id = sid, pct_endpoint_id = eh_id ep, pct_pipe = pipe\<rparr> \<and>
        (\<exists>s'. get_socket (dp_session d') sid = Some s' \<and> eh_id ep \<in> dom (sock_pipes s')) \<and>
        (\<exists>req. us_log (snd (endpoint_handle_close ep u')) = us_log u' @ [Asked req] \<and>
          process_request pf req d' = apply_on_socket pf d' sid (call pf (SClosePipe (eh_id ep))))"
proof -
  have call: "sh_connect \<lparr>sh_socket_id = sid\<rparr> url u =
      (on_connect_reply \<lparr>sh_socket_id = sid\<rparr> (snd (last (dp_replies d'))),
       note_event (SocketSaid sid (Some (snd (last (dp_replies d'))))) (note_event (Asked (SocketRequest sid (RequestConnect url))) u))"
    using assms(5,6) by (simp add: sh_connect_def call_defs)
  note outcome = connect_request_answered [OF assms(1-3), of pf url, unfolded assms(4) option.inject ex_simps simp_thms]
  show ?thesis
  proof (cases "fst (transport_connect (socket_context_new d sid) (create_endpoint_tmpl (pf_protocol pf) s url))")
    case (Inl e)
    then show ?thesis using outcome call by simp
  next
    case (Inr pipe)
    then show ?thesis using outcome call
      by (simp add: Let_def child_sender_def endpoint_handle_close_def request_send_def note_event_def)
  qed
qed

section \<open>Witnesses\<close>

definition demo_channels :: "dyn_protocol channels" where
  "demo_channels = \<lparr>ch_send = \<lambda>log. if 6 < length log then Some Disconnected else None, ch_session = \<lambda>_. None,
     ch_socket = \<lambda>log _. (case last log of Asked (SocketRequest _ (RequestRecv _)) \<Rightarrow> Some (ReplyRecv (from_body [1])) | _ \<Rightarrow> Some ReplySend),
     ch_device = \<lambda>_ _. Some (DeviceCheck True False), ch_probe = \<lambda>_ _. None\<rparr>"

definition demo_user :: "dyn_protocol user" where
  "demo_user = \<lparr>us_log = [], us_channels = demo_channels\<rparr>"

lemma demo_bridge: "\<exists>u'. bridge_loop 2 \<lparr>sh_socket_id = 0\<rparr> \<lparr>sh_socket_id = 1\<rparr> demo_user = Some (other_io_error ''channel closed'', u')"
  by (simp add: bridge_loop.simps bridge_run_once_def bridge_execute_request_def bridge_send_request_def bridge_recv_reply_def
     call_defs forward_msg_def sh_recv_msg_def sh_send_msg_def demo_user_def demo_channels_def Let_def)

theorem bridge_hands_over_everything_witness:
  "\<exists>u' es. bridge_loop 2 \<lparr>sh_socket_id = 0\<rparr> \<lparr>sh_socket_id = 1\<rparr> demo_user = Some (other_io_error ''channel closed'', u') \<and>
     us_log u' = es \<and> (\<exists>lost. received_on 0 es = sent_on 1 es @ lost \<and> length lost \<le> 1)"
proof -
  obtain u' where u': "bridge_loop 2 \<lparr>sh_socket_id = 0\<rparr> \<lparr>sh_socket_id = 1\<rparr> demo_user = Some (other_io_error ''channel closed'', u')"
    using demo_bridge by blast
  from bridge_hands_over_everything [OF u'] u' show ?thesis by (auto simp: demo_user_def)
qed

definition demo_connected :: "dyn_protocol user" where
  "demo_connected = \<lparr>us_log = [], us_channels = demo_channels\<lparr>ch_socket := \<lambda>_ _. Some (ReplyConnect 1)\<rparr>\<rparr>"

theorem connect_call_outcome_witness:
  "\<exists>ep u' d'. process_socket_request demo_platform demo_state 0 (RequestConnect ''t://a'') = Some d' \<and>
     sh_connect \<lparr>sh_socket_id = 0\<rparr> ''t://a'' demo_connected = (Inr ep, u') \<and>
     ec_pipes (dp_endpoints d') (eh_id ep) = Some \<lparr>pct_socket_id = 0, pct_endpoint_id = eh_id ep, pct_pipe = ()\<rparr>"
proof -
  obtain d' where d': "process_socket_request demo_platform demo_state 0 (RequestConnect ''t://a'') = Some d'"
    "dp_replies d' = [(0, ReplyConnect 1)]"
    using connect_request_answered [OF demo_state_ok, of 0 "socket_new 0 (DynPush push_from)" demo_platform "''t://a''"] demo_transport
    by (simp add: Let_def del: process_socket_request.simps) blast
  have "ch_send (us_channels demo_connected) (us_log demo_connected @ [Asked (SocketRequest 0 (RequestConnect ''t://a''))]) = None"
    "ch_socket (us_channels demo_connected) (us_log demo_connected @ [Asked (SocketRequest 0 (RequestConnect ''t://a''))]) 0 = Some (snd (last (dp_replies d')))"
    using d'(2) by (simp_all add: demo_connected_def demo_channels_def)
  from connect_call_outcome [OF demo_state_ok _ _ d'(1) this] demo_transport d'(1) show ?thesis
    by (simp del: process_socket_request.simps) blast
qed

end
