(* ===== verification/Spec2Isabelle.thy ===== *)
theory Spec2Isabelle
  imports Sockets Core_Session Pipe_Traffic Transport_Windows Patterns Proto_Pair_Prefetch Id_Hasher Facade
begin

text \<open>
  A model of scaproust, a Rust implementation of the nanomsg scalability protocols, and the
  theorems that make it correct. Paths below are relative to the crate's \<open>src/\<close>.

  \<^bold>\<open>The program.\<close> A user thread calls the facade (\<open>facade/\<close>), which sends requests over a
  channel to one event loop thread (\<open>reactor/\<close>) and waits for the reply. The event loop owns a
  session (\<open>core/session.rs\<close>) of sockets (\<open>core/socket.rs\<close>), devices (\<open>core/device.rs\<close>) and probes
  (\<open>core/probe.rs\<close>). A socket owns a protocol (\<open>proto/\<close>, one file per scalability protocol), which
  decides what a send, a receive, a pipe that becomes ready or a timeout do; protocols share a
  list of peers with priorities (\<open>proto/priolist.rs\<close>), a pipe collection and sending policies.
  Pipes carry messages over TCP or IPC (\<open>transport/\<close>): an asynchronous state machine shakes
  hands and then drives send and receive operations that cope with partial reads and writes.

  \<^bold>\<open>Conventions.\<close> A method that may panic returns an option, \<open>None\<close> being the panic (indexing,
  overflow of checked arithmetic); an \<open>io::Result\<close> is a sum; a method on \<open>&mut self\<close> returns the
  new record. Machine integers are words. What the code calls but does not contain is a
  parameter: the byte order of the crate \<open>byteorder\<close> (record \<open>byteorder\<close>, hypothesis
  \<open>big_endian\<close>), the iteration order of hash maps (hypothesis \<open>enumerates\<close>), the pace and errors of
  a stream (its script) and of a listener, the answers of the operating system (records \<open>os\<close> and \<open>windows_os\<close>),
  the timer wheel (record \<open>timer_ops\<close>), what the poller reports, and the far end of the user's
  channels (record \<open>channels\<close>). The socket is modelled over an open event loop, whose answers are
  the record \<open>environment\<close>; \<open>Reactor_Adapter\<close> computes these answers from the reactor's own state.

  \<^bold>\<open>The library.\<close>
  \<^item> \<open>Prelude\<close>: \<open>runs\<close> (a call returns and its result satisfies a predicate) with the rules
    that push it through \<open>do\<close> blocks, checked arithmetic, big-endian bytes.
  \<^item> \<open>Id_Hasher\<close>: the hasher of identifiers of \<open>core/mod.rs\<close>.
  \<^item> \<open>Core_Types\<close>, \<open>Core_Context\<close>, \<open>Core_Endpoint\<close>: data of \<open>core/mod.rs\<close>, \<open>core/config.rs\<close>,
    \<open>io_error.rs\<close>, \<open>sequence.rs\<close>; the calls a socket makes on the event loop (\<open>core/context.rs\<close>,
    \<open>core/network.rs\<close>) as a chronological log; pipes and acceptors (\<open>core/endpoint.rs\<close>).
  \<^item> \<open>Ready_Queue\<close>, \<open>Priolist\<close>: the locale of a queue of ready endpoints and its interpretation
    on the priority list of \<open>proto/priolist.rs\<close>: refinement of an abstract pool, no panic,
    best priority first, round robin. \<open>Pipes_Policy\<close>: \<open>proto/pipes.rs\<close>, \<open>proto/policy.rs\<close>.
  \<^item> \<open>Protocol_Spec\<close>: the trait \<open>Protocol\<close> as a record of methods, and the locales \<open>protocol\<close> and
    \<open>answering_protocol\<close> with the laws a socket relies on. \<open>Protocol_Machine\<close>: the locale
    \<open>machine\<close> shared by the protocols that run a state machine behind \<open>apply\<close>.
  \<^item> \<open>Proto_Push\<close>, \<open>Proto_Pull\<close>, \<open>Proto_Pub\<close>, \<open>Proto_Sub\<close>, \<open>Proto_Bus\<close>, \<open>Proto_Pair\<close>, \<open>Proto_Req\<close>,
    \<open>Proto_Rep\<close>, \<open>Proto_Surv\<close>, \<open>Proto_Resp\<close>: the ten protocols, each with its invariant and its
    interpretation of the locales. \<open>Proto_Pair_Prefetch\<close>: the variant of the pair protocol that
    fetches a message ahead (\<open>proto/pair-prefetch.rs\<close>). That file is not part of the build and
    lacks two methods of the trait, so it is no interpretation of the locales.
  \<^item> \<open>Core_Socket\<close>: every method of \<open>core/socket.rs\<close>; the contract of a socket over any
    disciplined sequence of commands, proved once in the locales. \<open>Sockets\<close>: the contract for
    the ten protocols, from the creation of the socket on.
  \<^item> \<open>Core_Device\<close>, \<open>Core_Probe\<close>, \<open>Core_Session\<close>: devices, probes and the session's collections.
  \<^item> \<open>Transport_Stream\<close>: byte streams and the helpers of \<open>transport/async/stub.rs\<close>, the handshake.
    \<open>Transport_Frame\<close>: the locales \<open>send_operation\<close> and \<open>recv_operation\<close>. \<open>Transport_Tcp\<close>,
    \<open>Transport_Ipc\<close>: the operations and stubs of the two transports, interpretations of these
    locales. \<open>Transport_Pipe\<close>: the pipe's state machine (\<open>transport/async/\<close>) over the locale
    \<open>pipe_stub\<close>, interpreted on both stubs. \<open>Pipe_Traffic\<close>: two pipes joined by their streams, over
    the locale \<open>framed_stub\<close>, of which both stubs are instances.
  \<^item> \<open>Transport_Acceptor\<close>: the acceptors and the transports that make pipes and acceptors
    (\<open>transport/tcp/\<close>, \<open>transport/ipc/unix/\<close>), with the locale \<open>accepting\<close> of an accept loop.
    \<open>Transport_Windows\<close>: the active state, the named pipes and their acceptor on Windows
    (\<open>transport/async/active/windows.rs\<close>, \<open>transport/ipc/windows/\<close>), with the locale \<open>win_pipe_stub\<close>
    of what the calls of Windows must keep and the locale \<open>paced_stub\<close> of what they leave alone.
  \<^item> \<open>Patterns\<close>: what the protocols promise their users.
  \<^item> \<open>Protocol_Dyn\<close>: the trait object \<open>Box<dyn Protocol>\<close>, a value of one of the ten protocols with
    its table of methods; the locale \<open>variant\<close> carries the contract of each to the trait object.
  \<^item> \<open>Reactor_Bus\<close> (\<open>reactor/bus.rs\<close>): the queue of signals, locale \<open>signal_queue\<close>.
    \<open>Reactor_Adapter\<close> (\<open>reactor/adapter.rs\<close>, \<open>reactor/mod.rs\<close>): the endpoint collection, the schedule,
    and the contexts lent to sockets, endpoints, devices and probes. \<open>Reactor_Dispatcher\<close>
    (\<open>reactor/dispatcher.rs\<close>, \<open>reactor/event_loop.rs\<close>): every handler and loop, and the invariant.
    \<open>Reactor_Invariant\<close>, \<open>Reactor_Parts\<close>, \<open>Reactor_Steps\<close>: it is kept by calls on sockets, by pipes,
    acceptors, devices and probes, and by every input. \<open>Event_Loop\<close>: the loops as sequences of
    inputs, and the invariant for sockets of all ten protocols.
  \<^item> \<open>Facade\<close> (\<open>facade/\<close>): the calls of the user as requests and replies on channels, the devices'
    loops, and a call to connect from end to end.

  \<^bold>\<open>What is shown.\<close> For each of the ten protocols, a socket that receives any
  disciplined sequence of user requests, pipe events and timers never panics, keeps its invariant,
  holds exactly the endpoints it opened and did not close, keeps its listeners informed of its
  readiness and answers every request exactly once. The discipline is that of the callers: one
  outstanding request at a time, events only for pipes the socket has, fresh identifiers, no
  removal that triggers the defect of \<open>remove_leaves_stale_current\<close>, and for the
  protocols with a header only well-formed messages (the malformed path answers twice). Requests
  reach their replier and replies their requester through any chain of devices within the hop
  limit; requesters take only their reply; subscribers filter by prefix; publishers and buses
  broadcast exactly once and do not echo; load balancing picks the best peer; closing a socket
  releases everything; failed pipes are closed and, when the user asked for them, tried again.
  Messages put on a stream are framed without loss, duplication or reordering whatever the pace of
  the stream, are received as sent and within the size limit; a pipe's events come in order and
  account for every transfer, and a pipe says that it is open exactly when it shook hands; of two
  connected pipes, the receiving one announces the messages given to the sending one, in order and
  each once. A run of a TCP pipe on Windows is a run of one on Unix at another pace, and IPC pipes
  on Windows account for their transfers. Devices and probes answer every check and poll, a device
  with what it heard last of its two sockets; session identifiers are unique, and their hashes
  too. The pair protocol with prefetch keeps the order of messages while its user only receives.

  The event loop composes these contracts. Over any sequence of requests, signals, ticks and
  notifications in which calls are ones the socket admits and none reaches a socket that was
  already closed, the sockets keep their contract and the identifiers, controllers, links and the
  bus stay consistent; that new endpoints get fresh identifiers, which the contract of a socket
  assumes, is a theorem there. A call panics only when identifiers run out. The bus delivers
  signals once and in order, draining it is handling its signals one at a time, and a request to
  shut down ends the loop. A notified acceptor takes every connection that waits, and returns
  exactly when its listener runs dry; the event loop gives each connection a fresh identifier and
  hands it to the socket, which opens it. A call to connect gives its error or a usable handle; a
  bridge between two sockets loses at most the message in hand when it fails.

  \<^bold>\<open>Fuel and bounds.\<close> \<open>send_until\<close> and \<open>recv_until\<close> resume an operation at most \<open>n\<close> times;
  the theorems on arrival take \<open>n\<close> to be the length of the stream's script and show that as
  many entries as the frame has bytes are enough. The loops that may run for ever (accepting
  connections, draining the bus and the timer, the event loop, relays and bridges) are partial
  functions, \<open>None\<close> when they do not return, and the theorems say when they do. All other
  recursion is total, by structure or by the measures in the \<open>termination\<close> proofs. Identifiers are
  64-bit words from a checked sequence; \<open>room\<close> says that enough of them are left.

  \<^bold>\<open>Not modelled.\<close> \<open>lib.rs\<close> (re-exports), logging, \<open>Debug\<close> output and tests; shutting a stream down
  when it is dropped; the creation of the poller and the forwarding of registrations to it, which
  are logged. Events that reach a socket between its closing and its removal are outside the
  invariant of the event loop, whose transports are those of Unix. The reading of a vectored
  write as the write of the concatenated buffers leaves out how the crate \<open>iovec\<close> treats empty
  buffers.

  \<^bold>\<open>What could follow.\<close> The behaviour of closed sockets until they are removed; sends and receives
  from the facade of one user through both event loops to the other.
\<close>

end
